(* ===== verification/Prelude.thy ===== *)
theory Prelude
  imports Main "HOL-Library.AList"
begin

text \<open>
  Shared vocabulary of the development: the errors the TypeScript code throws, the result
  type of a function that may throw, and the JavaScript containers it works on.

  \<^item> A call that may throw has type \<open>js_error + 'a\<close>; \<open>rbind\<close> sequences two such calls.
  \<^item> A \<open>Map\<close> or a plain object with string keys is an association list in insertion order
    with the operations of HOL-Library.AList: \<open>AList.update\<close> keeps the position of an
    existing key and appends a new one, as \<open>Map.prototype.set\<close> does.
  \<^item> A \<open>Set\<close> is a duplicate-free list in insertion order (\<open>set_add\<close>, \<open>set_remove\<close>).
  \<^item> An array with \<open>null\<close> entries or holes is a list of cells; \<open>arr_set\<close> extends it when the
    index is past the end, as a JavaScript assignment does.
\<close>

named_theorems js_simps \<open>evaluation rules for the containers and the result type\<close>

section \<open>Errors and results\<close>

datatype js_error =
    AssertionError
  | TypeError
  | ApplicationError string
  | UserError string
  | UnexpectedError string
  | OperationalError string

definition rbind :: "'e + 'a \<Rightarrow> ('a \<Rightarrow> 'e + 'b) \<Rightarrow> 'e + 'b" where
  "rbind m f = (case m of Inl e \<Rightarrow> Inl e | Inr x \<Rightarrow> f x)"

lemma rbind_simps [simp, js_simps]:
  "rbind (Inl e) f = Inl e"
  "rbind (Inr x) f = f x"
  by (simp_all add: rbind_def)

lemma rbind_cong [fundef_cong]:
  "m = m' \<Longrightarrow> (\<And>x. m' = Inr x \<Longrightarrow> f x = f' x) \<Longrightarrow> rbind m f = rbind m' f'"
  by (auto simp: rbind_def split: sum.splits)

lemma rbind_eq_Inr: "rbind m f = Inr y \<longleftrightarrow> (\<exists>x. m = Inr x \<and> f x = Inr y)"
  by (auto simp: rbind_def split: sum.splits)

lemma rbind_eq_Inl: "rbind m f = Inl e \<longleftrightarrow> m = Inl e \<or> (\<exists>x. m = Inr x \<and> f x = Inl e)"
  by (auto simp: rbind_def split: sum.splits)

text \<open>A loop over a list whose body may throw, threading a state.\<close>

fun rfold :: "('a \<Rightarrow> 's \<Rightarrow> 'e + 's) \<Rightarrow> 'a list \<Rightarrow> 's \<Rightarrow> 'e + 's" where
  "rfold f [] s = Inr s"
| "rfold f (x # xs) s = rbind (f x s) (rfold f xs)"

lemma rfold_cong [fundef_cong]:
  assumes "xs = ys" "s = t" "\<And>x s. x \<in> set ys \<Longrightarrow> f x s = g x s"
  shows "rfold f xs s = rfold g ys t"
  using assms(3) unfolding assms(1,2)
  by (induction ys arbitrary: t) (auto simp: rbind_def split: sum.splits)

lemma rfold_append: "rfold f (xs @ ys) s = rbind (rfold f xs s) (rfold f ys)"
  by (induction xs arbitrary: s) (auto simp: rbind_def split: sum.splits)

lemma rfold_pure: "(\<And>x s. x \<in> set xs \<Longrightarrow> f x s = Inr (g x s)) \<Longrightarrow> rfold f xs s = Inr (fold g xs s)"
  by (induction xs arbitrary: s) auto

lemma rfold_invariant:
  assumes "\<And>x s. x \<in> set xs \<Longrightarrow> I s \<Longrightarrow> \<exists>s'. f x s = Inr s' \<and> I s'" and "I s"
  shows "\<exists>s'. rfold f xs s = Inr s' \<and> I s'"
  using assms
proof (induction xs arbitrary: s)
  case Nil
  then show ?case by simp
next
  case (Cons x xs)
  from Cons.prems obtain s1 where s1: "f x s = Inr s1" "I s1"
    by (meson list.set_intros(1))
  have "\<exists>s'. rfold f xs s1 = Inr s' \<and> I s'"
    by (rule Cons.IH) (use Cons.prems s1 in auto)
  with s1 show ?case by simp
qed

text \<open>
  A loop whose body never fails and only grows the state: what one iteration establishes still
  holds at the end.
\<close>

lemma rfold_grows:
  assumes step: "\<And>x s. x \<in> set xs \<Longrightarrow> I s \<Longrightarrow> \<exists>s'. f x s = Inr s' \<and> I s' \<and> le s s' \<and> P x s'"
    and refl: "\<And>s. le s s" and trans: "\<And>s t u. le s t \<Longrightarrow> le t u \<Longrightarrow> le s u"
    and stable: "\<And>x s t. P x s \<Longrightarrow> le s t \<Longrightarrow> P x t"
    and init: "I s"
  shows "\<exists>s'. rfold f xs s = Inr s' \<and> I s' \<and> le s s' \<and> (\<forall>x \<in> set xs. P x s')"
  using step init
proof (induction xs arbitrary: s)
  case Nil
  then show ?case using refl by simp
next
  case (Cons x xs)
  from Cons.prems(1) [of x s] Cons.prems(2) obtain s1 where
    s1: "f x s = Inr s1" "I s1" "le s s1" "P x s1" by auto
  have "\<exists>s'. rfold f xs s1 = Inr s' \<and> I s' \<and> le s1 s' \<and> (\<forall>x \<in> set xs. P x s')"
    by (rule Cons.IH [OF _ s1(2)]) (rule Cons.prems(1); simp)
  then obtain s2 where s2: "rfold f xs s1 = Inr s2" "I s2" "le s1 s2" "\<forall>x \<in> set xs. P x s2" by blast
  have "le s s2" "P x s2" using trans [OF s1(3) s2(3)] stable [OF s1(4) s2(3)] by simp_all
  with s1(1) s2 show ?case by simp
qed

section \<open>Sets in insertion order\<close>

definition set_add :: "'a \<Rightarrow> 'a list \<Rightarrow> 'a list" where
  "set_add x xs = (if x \<in> set xs then xs else xs @ [x])"

definition set_remove :: "'a \<Rightarrow> 'a list \<Rightarrow> 'a list" where
  "set_remove x xs = filter (\<lambda>y. y \<noteq> x) xs"

lemma set_set_add [simp]: "set (set_add x xs) = insert x (set xs)"
  by (auto simp: set_add_def)

lemma set_set_remove [simp]: "set (set_remove x xs) = set xs - {x}"
  by (auto simp: set_remove_def)

lemma distinct_set_add [simp]: "distinct (set_add x xs) = distinct xs"
  by (auto simp: set_add_def)

lemma distinct_set_remove [simp]: "distinct xs \<Longrightarrow> distinct (set_remove x xs)"
  by (simp add: set_remove_def)

lemma set_fold_set_add [simp]: "set (fold set_add ys xs) = set xs \<union> set ys"
  by (induction ys arbitrary: xs) auto

lemma distinct_fold_set_add [simp]: "distinct (fold set_add ys xs) = distinct xs"
  by (induction ys arbitrary: xs) auto

section \<open>Maps in insertion order\<close>

text \<open>
  The laws a client of \<open>Map\<close> relies on. \<open>get\<close>, \<open>put\<close> and \<open>del\<close> are
  \<open>Map.get\<close>, \<open>Map.set\<close> and \<open>Map.delete\<close>; \<open>invar\<close> says that no key occurs twice.
\<close>

locale js_map =
  fixes get :: "'m \<Rightarrow> 'k \<Rightarrow> 'v option"
    and put :: "'k \<Rightarrow> 'v \<Rightarrow> 'm \<Rightarrow> 'm"
    and del :: "'k \<Rightarrow> 'm \<Rightarrow> 'm"
    and invar :: "'m \<Rightarrow> bool"
  assumes get_put: "get (put k v m) = (get m)(k \<mapsto> v)"
    and get_del: "get (del k m) = (get m)(k := None)"
    and invar_put: "invar m \<Longrightarrow> invar (put k v m)"
    and invar_del: "invar m \<Longrightarrow> invar (del k m)"
begin

lemma put_put_same: "get (put k w (put k v m)) = get (put k w m)"
  by (simp add: get_put)

lemma put_commute: "k \<noteq> l \<Longrightarrow> get (put k v (put l w m)) = get (put l w (put k v m))"
  by (simp add: get_put fun_upd_twist)

lemma get_put_all: "get (fold (\<lambda>(k, v). put k v) kvs m) = get m ++ map_of (rev kvs)"
  by (induction kvs arbitrary: m) (auto simp: get_put map_add_def fun_eq_iff split: option.splits)

lemma dom_put_all: "dom (get (fold (\<lambda>(k, v). put k v) kvs m)) = dom (get m) \<union> fst ` set kvs"
  by (simp add: get_put_all dom_map_of_conv_image_fst image_Un Un_commute)

lemma get_del_all: "get (fold del ks m) k = (if k \<in> set ks then None else get m k)"
  by (induction ks arbitrary: m) (auto simp: get_del)

lemma invar_put_all: "invar m \<Longrightarrow> invar (fold (\<lambda>(k, v). put k v) kvs m)"
  by (induction kvs arbitrary: m) (auto simp: invar_put)

lemma invar_del_all: "invar m \<Longrightarrow> invar (fold del ks m)"
  by (induction ks arbitrary: m) (auto simp: invar_del)

end

abbreviation distinct_keys :: "('k \<times> 'v) list \<Rightarrow> bool" where
  "distinct_keys m \<equiv> distinct (map fst m)"

interpretation amap: js_map map_of AList.update AList.delete distinct_keys
  by unfold_locales (simp_all add: update_conv' delete_conv' distinct_update distinct_delete)

lemma set_update_entries:
  "distinct_keys m \<Longrightarrow> set (AList.update k v m) = insert (k, v) {p \<in> set m. fst p \<noteq> k}"
  by (induction m) force+

lemma set_delete_entries: "set (AList.delete k m) = {p \<in> set m. fst p \<noteq> k}"
  by (auto simp: AList.delete_eq)

lemma map_of_entry: "distinct_keys m \<Longrightarrow> (k, v) \<in> set m \<longleftrightarrow> map_of m k = Some v"
  by (simp add: map_of_eq_Some_iff)

lemma update_snoc: "k \<notin> fst ` set m \<Longrightarrow> AList.update k v m = m @ [(k, v)]"
  by (induction m) auto

lemma keys_update: "map fst (AList.update k v m) = set_add k (map fst m)"
  by (induction m) (auto simp: set_add_def)

section \<open>Objects of objects\<close>

text \<open>\<open>m[k] ?? {}\<close> and \<open>m[k] ?? []\<close>\<close>

definition obj_get :: "('k \<times> ('l \<times> 'v) list) list \<Rightarrow> 'k \<Rightarrow> ('l \<times> 'v) list" where
  "obj_get m k = (case map_of m k of None \<Rightarrow> [] | Some v \<Rightarrow> v)"

definition list_get :: "('k \<times> 'v list) list \<Rightarrow> 'k \<Rightarrow> 'v list" where
  "list_get m k = (case map_of m k of None \<Rightarrow> [] | Some v \<Rightarrow> v)"

lemma obj_get_update: "obj_get (AList.update k v m) j = (if j = k then v else obj_get m j)"
  by (simp add: obj_get_def amap.get_put)

lemma list_get_update: "list_get (AList.update k v m) j = (if j = k then v else list_get m j)"
  by (simp add: list_get_def amap.get_put)

text \<open>Marking an element of a finite set shrinks what is left: the measure of the searches.\<close>

lemma card_visit:
  assumes "finite A" "x \<in> A" "x \<notin> S"
  shows "card (A - insert x S) < card (A - S)"
  using assms by (intro psubset_card_mono) auto

section \<open>Arrays\<close>

text \<open>
  An array element that may be absent: a hole or a read past the end is \<open>undefined\<close>, which
  is not \<open>null\<close>; the code tests for one or the other.
\<close>

datatype 'a cell = Undef | Null | Val 'a

fun cell_opt :: "'a cell \<Rightarrow> 'a option" where
  "cell_opt (Val x) = Some x"
| "cell_opt _ = None"

lemma cell_opt_eq_Some [simp]: "cell_opt c = Some x \<longleftrightarrow> c = Val x"
  by (cases c) auto

text \<open>\<open>x ?? d\<close>\<close>

definition cell_or :: "'a \<Rightarrow> 'a cell \<Rightarrow> 'a" where
  "cell_or d c = (case c of Val x \<Rightarrow> x | _ \<Rightarrow> d)"

lemma cell_or_simps [simp, js_simps]:
  "cell_or d (Val x) = x" "cell_or d Null = d" "cell_or d Undef = d"
  by (simp_all add: cell_or_def)

text \<open>\<open>xs[i]\<close>, and \<open>xs[i] = v\<close>, which leaves holes when the index is past the end.\<close>

definition arr_get :: "'a cell list \<Rightarrow> nat \<Rightarrow> 'a cell" where
  "arr_get xs i = (if i < length xs then xs ! i else Undef)"

definition arr_set :: "nat \<Rightarrow> 'a cell \<Rightarrow> 'a cell list \<Rightarrow> 'a cell list" where
  "arr_set i v xs = (if i < length xs then xs[i := v]
                     else xs @ replicate (i - length xs) Undef @ [v])"

text \<open>A read of a dense array: \<open>None\<close> is \<open>undefined\<close>.\<close>

definition arr_at :: "'a list \<Rightarrow> nat \<Rightarrow> 'a option" where
  "arr_at xs i = (if i < length xs then Some (xs ! i) else None)"

lemma arr_get_set: "arr_get (arr_set i v xs) j = (if j = i then v else arr_get xs j)"
  by (auto simp: arr_get_def arr_set_def nth_append nth_Cons' nth_list_update)

lemma length_arr_set: "length (arr_set i v xs) = max (length xs) (Suc i)"
  by (auto simp: arr_set_def)

lemma arr_at_eq_Some: "arr_at xs i = Some x \<longleftrightarrow> i < length xs \<and> xs ! i = x"
  by (auto simp: arr_at_def)

text \<open>The cells of an array with their indexes, in order.\<close>

definition with_index :: "'a list \<Rightarrow> (nat \<times> 'a) list" where
  "with_index xs = zip [0..<length xs] xs"

lemma set_with_index: "set (with_index xs) = {(i, xs ! i) |i. i < length xs}"
proof -
  have "(i, xs ! i) \<in> set (zip [0..<length xs] xs)" if "i < length xs" for i
    using that nth_mem [of i "zip [0..<length xs] xs"] by simp
  then show ?thesis by (auto simp: with_index_def set_zip)
qed

text \<open>Counting the elements with a property after an update.\<close>

lemma length_filter_update:
  "i < length xs \<Longrightarrow> length (filter P (xs[i := x])) + (if P (xs ! i) then 1 else 0) = length (filter P xs) + (if P x then 1 else 0)"
proof (induction xs arbitrary: i)
  case (Cons y ys)
  then show ?case by (cases i) auto
qed simp

section \<open>Decimal rendering of array indexes\<close>

definition digit_char :: "nat \<Rightarrow> char" where
  "digit_char n = ''0123456789'' ! (n mod 10)"

fun nat_str :: "nat \<Rightarrow> string" where
  "nat_str n = (if n < 10 then [digit_char n] else nat_str (n div 10) @ [digit_char (n mod 10)])"

declare nat_str.simps [simp del]

lemma digit_char_inj: "m < 10 \<Longrightarrow> n < 10 \<Longrightarrow> digit_char m = digit_char n \<Longrightarrow> m = n"
  using nth_eq_iff_index_eq [of "''0123456789''" m n] by (simp add: digit_char_def)

lemma digit_char_not_dash: "digit_char n \<noteq> CHR ''-''"
proof -
  have "digit_char n \<in> set ''0123456789''"
    unfolding digit_char_def by (rule nth_mem) simp
  then show ?thesis by auto
qed

lemma nat_str_not_Nil [simp]: "nat_str n \<noteq> []"
  by (subst nat_str.simps) simp

lemma nat_str_no_dash: "CHR ''-'' \<notin> set (nat_str n)"
proof (induction n rule: nat_str.induct)
  case (1 n)
  then show ?case
    by (subst nat_str.simps) (use digit_char_not_dash in \<open>auto simp: eq_commute\<close>)
qed

lemma nat_str_inj: "nat_str m = nat_str n \<Longrightarrow> m = n"
proof (induction m arbitrary: n rule: nat_str.induct)
  case (1 m)
  have len: "length (nat_str k) \<ge> 2" if "\<not> k < 10" for k :: nat
  proof -
    have "length (nat_str (k div 10)) \<ge> 1"
      using nat_str_not_Nil [of "k div 10"] by (cases "nat_str (k div 10)") auto
    with that show ?thesis by (subst nat_str.simps) simp
  qed
  have len1: "length (nat_str k) = 1" if "k < 10" for k
    using that by (subst nat_str.simps) simp
  show ?case
  proof (cases "m < 10")
    case True
    then have n: "n < 10" using len [of n] len1 [of m] 1 by fastforce
    with True "1.prems" have "digit_char m = digit_char n"
      by (simp add: nat_str.simps)
    with True n show ?thesis by (rule digit_char_inj)
  next
    case False
    then have n: "\<not> n < 10" using len [of m] len1 [of n] 1 by fastforce
    from "1.prems" False n have
      "nat_str (m div 10) @ [digit_char (m mod 10)] = nat_str (n div 10) @ [digit_char (n mod 10)]"
      by (simp add: nat_str.simps [of m] nat_str.simps [of n])
    then have eq: "nat_str (m div 10) = nat_str (n div 10)"
      and d: "digit_char (m mod 10) = digit_char (n mod 10)" by auto
    from "1.IH" [OF False eq] have "m div 10 = n div 10" .
    moreover have "m mod 10 = n mod 10"
      using digit_char_inj [OF _ _ d] by simp
    ultimately show ?thesis by (metis div_mult_mod_eq)
  qed
qed

definition int_str :: "int \<Rightarrow> string" where
  "int_str n = (if n < 0 then ''-'' @ nat_str (nat (- n)) else nat_str (nat n))"

section \<open>Texts\<close>

text \<open>White space, and letters in lower case, among the characters there are here (code units below 256).\<close>

definition isSpace :: "char \<Rightarrow> bool" where
  "isSpace c = (c \<in> {CHR '' '', CHR 0x09, CHR 0x0A, CHR 0x0B, CHR 0x0C, CHR 0x0D, CHR 0xA0})"

definition js_trim :: "string \<Rightarrow> string" where
  "js_trim s = rev (dropWhile isSpace (rev (dropWhile isSpace s)))"

definition lowerChar :: "char \<Rightarrow> char" where
  "lowerChar c = (let n = of_char c :: nat
     in if 65 \<le> n \<and> n \<le> 90 \<or> 192 \<le> n \<and> n \<le> 222 \<and> n \<noteq> 215 then char_of (n + 32) else c)"

definition js_toLowerCase :: "string \<Rightarrow> string" where
  "js_toLowerCase s = map lowerChar s"

end
