(* ===== verification/WorkflowTypes.thy ===== *)
theory WorkflowTypes
  imports Prelude
begin

text \<open>
  The data of \<^verbatim>\<open>packages/workflow/src/interfaces.ts\<close> the modelled code works on. A field that
  may be missing has an option type, so a test for \<open>=== false\<close> differs from a test for
  truthiness. Plain objects are association lists in insertion order. Node objects are compared
  by identity in the source (\<open>===\<close>); the field \<open>ref\<close> of \<open>INode\<close> is that identity, so that
  equality of the records is \<open>===\<close>. Fields the modelled operations on these types do not read are left out: of a
  node its version, notes, parameters, credentials and webhook id (the comparison of versions has a node type of its
  own with parameters, in \<open>WorkflowDiff\<close>); of an item its binary data; of a task its hints and the links between
  executions.
\<close>

section \<open>Nodes and connections\<close>

datatype NodeConnectionType =
    AiAgent | AiChain | AiDocument | AiEmbedding | AiLanguageModel | AiMemory
  | AiOutputParser | AiRetriever | AiReranker | AiTextSplitter | AiTool | AiVectorStore | Main

fun type_str :: "NodeConnectionType \<Rightarrow> string" where
  "type_str AiAgent = ''ai_agent''"
| "type_str AiChain = ''ai_chain''"
| "type_str AiDocument = ''ai_document''"
| "type_str AiEmbedding = ''ai_embedding''"
| "type_str AiLanguageModel = ''ai_languageModel''"
| "type_str AiMemory = ''ai_memory''"
| "type_str AiOutputParser = ''ai_outputParser''"
| "type_str AiRetriever = ''ai_retriever''"
| "type_str AiReranker = ''ai_reranker''"
| "type_str AiTextSplitter = ''ai_textSplitter''"
| "type_str AiTool = ''ai_tool''"
| "type_str AiVectorStore = ''ai_vectorStore''"
| "type_str Main = ''main''"

lemma type_str_inj: "type_str s = type_str t \<Longrightarrow> s = t"
  by (cases s; cases t) simp_all

lemma type_str_no_dash: "CHR ''-'' \<notin> set (type_str t)"
  by (cases t) simp_all

datatype OnError = ContinueErrorOutput | ContinueRegularOutput | StopWorkflow

record INode =
  ref :: nat
  name :: string
  node_type :: string
  disabled :: "bool option"
  retryOnFail :: "bool option"
  maxTries :: "int option"
  waitBetweenTries :: "int option"
  alwaysOutputData :: "bool option"
  executeOnce :: "bool option"
  onError :: "OnError option"
  continueOnFail :: "bool option"
  rewireOutputLogTo :: "NodeConnectionType option"
  position :: "int \<times> int"

text \<open>A node with no optional field set, as tests build them.\<close>

definition plainNode :: "nat \<Rightarrow> string \<Rightarrow> string \<Rightarrow> INode" where
  "plainNode r nm ty = \<lparr>ref = r, name = nm, node_type = ty,
     disabled = None, retryOnFail = None, maxTries = None, waitBetweenTries = None,
     alwaysOutputData = None, executeOnce = None, onError = None, continueOnFail = None,
     rewireOutputLogTo = None, position = (0, 0)\<rparr>"

record IConnection =
  c_node :: string
  c_type :: NodeConnectionType
  c_index :: nat

type_synonym NodeInputConnections = "IConnection list cell list"
type_synonym INodeConnections = "(NodeConnectionType \<times> NodeInputConnections) list"
type_synonym IConnections = "(string \<times> INodeConnections) list"

section \<open>Execution data\<close>

datatype json =
    JNull
  | JBool bool
  | JNum int
  | JStr string
  | JArr "json list"
  | JObj "(string \<times> json) list"

text \<open>\<open>Boolean(value)\<close>\<close>

fun truthy :: "json \<Rightarrow> bool" where
  "truthy JNull = False"
| "truthy (JBool b) = b"
| "truthy (JNum n) = (n \<noteq> 0)"
| "truthy (JStr s) = (s \<noteq> [])"
| "truthy (JArr _) = True"
| "truthy (JObj _) = True"

definition hasTruthy :: "(string \<times> json) list \<Rightarrow> string \<Rightarrow> bool" where
  "hasTruthy j k = (case map_of j k of None \<Rightarrow> False | Some v \<Rightarrow> truthy v)"

record ISourceData =
  previousNode :: string
  previousNodeOutput :: "nat option"
  previousNodeRun :: "nat option"

record IPairedItemData =
  pi_item :: nat
  pi_input :: "nat option"
  pi_sourceOverwrite :: "ISourceData option"

datatype PairedItem = PairedOne IPairedItemData | PairedMany "IPairedItemData list" | PairedNum nat

record ExecutionError =
  err_name :: string
  err_message :: string

record INodeExecutionData =
  item_json :: "(string \<times> json) list"
  item_error :: "ExecutionError option"
  pairedItem :: "PairedItem option"

definition plainItem :: "(string \<times> json) list \<Rightarrow> INodeExecutionData" where
  "plainItem j = \<lparr>item_json = j, item_error = None, pairedItem = None\<rparr>"

type_synonym ITaskDataConnections = "(NodeConnectionType \<times> INodeExecutionData list cell list) list"
type_synonym ITaskDataConnectionsSource = "(NodeConnectionType \<times> ISourceData cell list) list"

datatype ExecutionStatus =
    Canceled | Crashed | ErrorStatus | New | Running | Success | Unknown | Waiting

text \<open>An action a node asks the engine for; of its metadata the engine reads two fields.\<close>

record EngineAction =
  ea_nodeName :: string
  ea_input :: "(string \<times> json) list"
  ea_type :: NodeConnectionType
  ea_id :: string
  ea_parentNodeName :: "string option"
  ea_itemIndex :: "nat option"

record SubNodeExecutionDataAction =
  sn_nodeName :: string
  sn_runIndex :: nat
  sn_action :: EngineAction

record ITaskMetadata =
  subNodeExecutionData :: "(SubNodeExecutionDataAction list \<times> json) option"
  preserveSourceOverwrite :: "bool option"
  preservedSourceOverwrite :: "ISourceData option"
  nodeWasResumed :: "bool option"

record ITaskData =
  startTime :: nat
  executionIndex :: "nat option"
  source :: "ISourceData cell list"
  executionTime :: nat
  executionStatus :: "ExecutionStatus option"
  td_data :: "ITaskDataConnections option"
  inputOverride :: "ITaskDataConnections option"
  td_error :: "ExecutionError option"
  td_metadata :: "ITaskMetadata option"

type_synonym IRunData = "(string \<times> ITaskData list) list"
type_synonym IPinData = "(string \<times> INodeExecutionData list) list"

record IExecuteData =
  ed_node :: INode
  ed_data :: ITaskDataConnections
  ed_source :: "ITaskDataConnectionsSource option"
  ed_runIndex :: "nat option"
  ed_metadata :: "ITaskMetadata option"

text \<open>Node name, then run index.\<close>

type_synonym IWaitingForExecution = "(string \<times> (nat \<times> ITaskDataConnections) list) list"
type_synonym IWaitingForExecutionSource = "(string \<times> (nat \<times> ITaskDataConnectionsSource) list) list"

datatype DestinationMode = Inclusive | Exclusive

record IDestinationNode =
  dest_nodeName :: string
  dest_mode :: DestinationMode

end
