(* ===== verification/DirectedGraph.thy ===== *)
theory DirectedGraph
  imports WorkflowTypes
begin

text \<open>
  The graph of \<^verbatim>\<open>packages/core/src/execution-engine/partial-execution-utils/directed-graph.ts\<close>:
  an adjacency list with one \<open>Map\<close> of nodes by name and one \<open>Map\<close> of connections by the string
  \<open>makeKey\<close> builds. A failed \<open>assert.ok\<close> is the value \<open>Inl AssertionError\<close>.
\<close>

section \<open>Data\<close>

record GraphConnection =
  from_node :: INode
  to_node :: INode
  conn_type :: NodeConnectionType
  outputIndex :: nat
  inputIndex :: nat

record ConnectionInput =
  in_from :: INode
  in_to :: INode
  in_type :: "NodeConnectionType option"
  in_outputIndex :: "nat option"
  in_inputIndex :: "nat option"

record DirectedGraph =
  nodes :: "(string \<times> INode) list"
  connections :: "(string \<times> GraphConnection) list"

definition emptyGraph :: DirectedGraph where
  "emptyGraph = \<lparr>nodes = [], connections = []\<rparr>"

section \<open>Operations\<close>

definition makeKey :: "GraphConnection \<Rightarrow> string" where
  "makeKey c = name (from_node c) @ ''-'' @ type_str (conn_type c) @ ''-'' @
     nat_str (outputIndex c) @ ''-'' @ nat_str (inputIndex c) @ ''-'' @ name (to_node c)"

definition hasNode :: "DirectedGraph \<Rightarrow> string \<Rightarrow> bool" where
  "hasNode g nodeName = (map_of (nodes g) nodeName \<noteq> None)"

definition getNodes :: "DirectedGraph \<Rightarrow> INode list" where
  "getNodes g = map snd (nodes g)"

definition getNodesByNames :: "DirectedGraph \<Rightarrow> string list \<Rightarrow> INode list" where
  "getNodesByNames g names =
     fold (\<lambda>nm ns. case map_of (nodes g) nm of None \<Rightarrow> ns | Some n \<Rightarrow> set_add n ns) names []"

text \<open>\<open>this.nodes.get(node.name) === node\<close>, the test before every traversal.\<close>

definition nodeExists :: "DirectedGraph \<Rightarrow> INode \<Rightarrow> bool" where
  "nodeExists g n = (map_of (nodes g) (name n) = Some n)"

definition getConnections :: "DirectedGraph \<Rightarrow> INode option \<Rightarrow> GraphConnection list" where
  "getConnections g to_filter =
     filter (\<lambda>c. case to_filter of None \<Rightarrow> True | Some n \<Rightarrow> to_node c = n) (map snd (connections g))"

definition addNode :: "INode \<Rightarrow> DirectedGraph \<Rightarrow> DirectedGraph" where
  "addNode n g = g\<lparr>nodes := AList.update (name n) n (nodes g)\<rparr>"

definition addNodes :: "INode list \<Rightarrow> DirectedGraph \<Rightarrow> DirectedGraph" where
  "addNodes ns g = fold addNode ns g"

definition getConnection ::
  "DirectedGraph \<Rightarrow> INode \<Rightarrow> nat \<Rightarrow> NodeConnectionType \<Rightarrow> nat \<Rightarrow> INode \<Rightarrow> GraphConnection option" where
  "getConnection g f oi t ii n =
     map_of (connections g) (makeKey \<lparr>from_node = f, to_node = n, conn_type = t,
       outputIndex = oi, inputIndex = ii\<rparr>)"

definition setConnection :: "GraphConnection \<Rightarrow> DirectedGraph \<Rightarrow> DirectedGraph" where
  "setConnection c g = g\<lparr>connections := AList.update (makeKey c) c (connections g)\<rparr>"

definition addConnection :: "ConnectionInput \<Rightarrow> DirectedGraph \<Rightarrow> js_error + DirectedGraph" where
  "addConnection ci g =
     (if \<not> nodeExists g (in_from ci) then Inl AssertionError
      else if \<not> nodeExists g (in_to ci) then Inl AssertionError
      else Inr (setConnection
        \<lparr>from_node = in_from ci, to_node = in_to ci,
         conn_type = (case in_type ci of None \<Rightarrow> Main | Some t \<Rightarrow> t),
         outputIndex = (case in_outputIndex ci of None \<Rightarrow> 0 | Some i \<Rightarrow> i),
         inputIndex = (case in_inputIndex ci of None \<Rightarrow> 0 | Some i \<Rightarrow> i)\<rparr> g))"

definition as_input :: "GraphConnection \<Rightarrow> ConnectionInput" where
  "as_input c = \<lparr>in_from = from_node c, in_to = to_node c, in_type = Some (conn_type c),
     in_outputIndex = Some (outputIndex c), in_inputIndex = Some (inputIndex c)\<rparr>"

definition addConnections :: "ConnectionInput list \<Rightarrow> DirectedGraph \<Rightarrow> js_error + DirectedGraph" where
  "addConnections cis g = rfold addConnection cis g"

definition getDirectChildConnections :: "DirectedGraph \<Rightarrow> INode \<Rightarrow> js_error + GraphConnection list" where
  "getDirectChildConnections g n =
     (if nodeExists g n then Inr (filter (\<lambda>c. from_node c = n) (map snd (connections g)))
      else Inl AssertionError)"

definition getDirectParentConnections :: "DirectedGraph \<Rightarrow> INode \<Rightarrow> js_error + GraphConnection list" where
  "getDirectParentConnections g n =
     (if nodeExists g n then Inr (filter (\<lambda>c. to_node c = n) (map snd (connections g)))
      else Inl AssertionError)"

text \<open>
  \<open>removeNode\<close>: with \<open>reconnect\<close> every parent is wired to every child first, except over
  connections the callback asks to skip; the new connections are the second component.
\<close>

definition dropIncident :: "INode \<Rightarrow> DirectedGraph \<Rightarrow> DirectedGraph" where
  "dropIncident n g = g\<lparr>connections :=
     filter (\<lambda>(k, c). \<not> (to_node c = n \<or> from_node c = n)) (connections g)\<rparr>"

definition bypassConnections ::
  "(GraphConnection \<Rightarrow> bool) option \<Rightarrow> GraphConnection list \<Rightarrow> GraphConnection list \<Rightarrow> GraphConnection list" where
  "bypassConnections skip incoming outgoing =
     (let skips = (\<lambda>c. case skip of None \<Rightarrow> False | Some f \<Rightarrow> f c) in
      concat (map (\<lambda>i. if skips i then [] else
        concat (map (\<lambda>out. if skips out then [] else
          [i\<lparr>to_node := to_node out, inputIndex := inputIndex out\<rparr>]) outgoing)) incoming))"

definition removeNode ::
  "INode \<Rightarrow> bool \<Rightarrow> (GraphConnection \<Rightarrow> bool) option \<Rightarrow> DirectedGraph
     \<Rightarrow> js_error + (DirectedGraph \<times> GraphConnection list option)" where
  "removeNode n reconnect skip g =
     (if reconnect then
        rbind (getDirectParentConnections g n) (\<lambda>incoming.
        rbind (getDirectChildConnections g n) (\<lambda>outgoing.
          let newConnections = bypassConnections skip incoming outgoing;
              g1 = fold setConnection newConnections (dropIncident n g)
          in Inr (g1\<lparr>nodes := AList.delete (name n) (nodes g1)\<rparr>, Some newConnections)))
      else Inr ((dropIncident n g)\<lparr>nodes := AList.delete (name n) (nodes g)\<rparr>, None))"

definition clone :: "DirectedGraph \<Rightarrow> js_error + DirectedGraph" where
  "clone g = addConnections (map as_input (getConnections g None)) (addNodes (getNodes g) emptyGraph)"

section \<open>Traversals\<close>

text \<open>
  The recursive methods mutate one shared \<open>Set\<close>; the model threads it. Each takes the list of
  connections the \<open>for\<close> loop still has to visit. The set only grows and stays inside the
  connections of the graph, which is why they stop.
\<close>

definition allConnections :: "DirectedGraph \<Rightarrow> GraphConnection list" where
  "allConnections g = map snd (connections g)"

lemma children_subset: "getDirectChildConnections g n = Inr cs \<Longrightarrow> set cs \<subseteq> set (allConnections g)"
  by (auto simp: getDirectChildConnections_def allConnections_def split: if_splits)

lemma parents_subset: "getDirectParentConnections g n = Inr cs \<Longrightarrow> set cs \<subseteq> set (allConnections g)"
  by (auto simp: getDirectParentConnections_def allConnections_def split: if_splits)

text \<open>The measure shared by the termination proofs: what is not yet marked, then the loop.\<close>

definition visit_order :: "('k set \<times> nat) rel" where
  "visit_order = finite_psubset <*lex*> less_than"

lemma wf_visit_order [simp]: "wf (inv_image visit_order f)"
  by (simp add: visit_order_def wf_finite_psubset wf_lex_prod)

lemma visit_orderI:
  "finite A \<Longrightarrow> B \<subseteq> A \<Longrightarrow> x \<in> A \<Longrightarrow> x \<notin> B \<Longrightarrow> ((B, m), (A, n)) \<in> visit_order"
  by (auto simp: visit_order_def finite_psubset_def)

lemma visit_orderI_eq: "finite A \<Longrightarrow> B \<subseteq> A \<Longrightarrow> m < n \<Longrightarrow> ((B, m), (A, n)) \<in> visit_order"
  by (auto simp: visit_order_def finite_psubset_def)

function childrenLoop ::
  "DirectedGraph \<Rightarrow> GraphConnection list \<Rightarrow> INode list \<Rightarrow> js_error + INode list" where
  "childrenLoop g [] children = Inr children"
| "childrenLoop g (c # cs) children =
     (if to_node c \<in> set children then childrenLoop g cs children
      else rbind (getDirectChildConnections g (to_node c)) (\<lambda>ds.
           rbind (childrenLoop g ds (children @ [to_node c])) (\<lambda>children'.
             childrenLoop g cs children')))"
  by pat_completeness auto

lemma childrenLoop_grows_dom:
  "childrenLoop_dom (g, cs, S) \<Longrightarrow> childrenLoop g cs S = Inr S' \<Longrightarrow> set S \<subseteq> set S'"
proof (induction g cs S arbitrary: S' rule: childrenLoop.pinduct)
  case (1 g S)
  then show ?case by (simp add: childrenLoop.psimps)
next
  case (2 g c cs S)
  show ?case
  proof (cases "to_node c \<in> set S")
    case True
    with 2 show ?thesis by (simp add: childrenLoop.psimps)
  next
    case False
    with 2 show ?thesis
      by (auto simp: childrenLoop.psimps rbind_eq_Inr) (metis in_mono set_append Un_iff)
  qed
qed

termination childrenLoop
proof (relation "inv_image visit_order
    (\<lambda>(g, cs, S). (to_node ` (set cs \<union> set (allConnections g)) - set S, length cs))", goal_cases)
  case 1
  show ?case by simp
next
  case (2 g c cs S)
  then show ?case by (auto intro!: visit_orderI_eq)
next
  case (3 g c cs S ds)
  then show ?case
    by (auto intro!: visit_orderI [where x = "to_node c"] dest: children_subset)
next
  case (4 g c cs S ds S')
  from childrenLoop_grows_dom [OF 4(4,3)] have "set S \<subseteq> set S'" by simp
  then show ?case by (auto intro!: visit_orderI_eq)
qed

definition getChildrenRecursive :: "DirectedGraph \<Rightarrow> INode \<Rightarrow> INode list \<Rightarrow> js_error + INode list" where
  "getChildrenRecursive g n children =
     rbind (getDirectChildConnections g n) (\<lambda>cs. childrenLoop g cs children)"

definition getChildren :: "DirectedGraph \<Rightarrow> INode \<Rightarrow> js_error + INode list" where
  "getChildren g n = getChildrenRecursive g n []"

function parentsLoop ::
  "DirectedGraph \<Rightarrow> GraphConnection list \<Rightarrow> GraphConnection list \<Rightarrow> js_error + GraphConnection list" where
  "parentsLoop g [] conns = Inr conns"
| "parentsLoop g (c # cs) conns =
     (if c \<in> set conns then parentsLoop g cs conns
      else rbind (getDirectParentConnections g (from_node c)) (\<lambda>ps.
           rbind (parentsLoop g ps (conns @ [c])) (\<lambda>conns'. parentsLoop g cs conns')))"
  by pat_completeness auto

lemma parentsLoop_grows_dom:
  "parentsLoop_dom (g, cs, S) \<Longrightarrow> parentsLoop g cs S = Inr S' \<Longrightarrow> set S \<subseteq> set S'"
proof (induction g cs S arbitrary: S' rule: parentsLoop.pinduct)
  case (1 g S)
  then show ?case by (simp add: parentsLoop.psimps)
next
  case (2 g c cs S)
  show ?case
  proof (cases "c \<in> set S")
    case True
    with 2 show ?thesis by (simp add: parentsLoop.psimps)
  next
    case False
    with 2 show ?thesis
      by (auto simp: parentsLoop.psimps rbind_eq_Inr) (metis in_mono set_append Un_iff)
  qed
qed

termination parentsLoop
proof (relation "inv_image visit_order
    (\<lambda>(g, cs, S). (set cs \<union> set (allConnections g) - set S, length cs))", goal_cases)
  case 1
  show ?case by simp
next
  case (2 g c cs S)
  then show ?case by (auto intro!: visit_orderI_eq)
next
  case (3 g c cs S ps)
  then show ?case
    by (auto intro!: visit_orderI [where x = c] dest: parents_subset)
next
  case (4 g c cs S ps S')
  from parentsLoop_grows_dom [OF 4(4,3)] have "set S \<subseteq> set S'" by simp
  then show ?case by (auto intro!: visit_orderI_eq)
qed

definition getParentConnectionsRecursive ::
  "DirectedGraph \<Rightarrow> INode \<Rightarrow> GraphConnection list \<Rightarrow> js_error + GraphConnection list" where
  "getParentConnectionsRecursive g n conns =
     rbind (getDirectParentConnections g n) (\<lambda>ps. parentsLoop g ps conns)"

definition getParentConnections :: "DirectedGraph \<Rightarrow> INode \<Rightarrow> js_error + GraphConnection list" where
  "getParentConnections g n = getParentConnectionsRecursive g n []"

text \<open>
  \<open>depthFirstSearchRecursive\<close> over the list of nodes still to be tried; the second component of
  the result is the shared \<open>seen\<close> set.
\<close>

function dfsLoop ::
  "DirectedGraph \<Rightarrow> (INode \<Rightarrow> bool) \<Rightarrow> INode list \<Rightarrow> INode list \<Rightarrow> js_error + (INode option \<times> INode list)"
where
  "dfsLoop g fn [] seen = Inr (None, seen)"
| "dfsLoop g fn (n # ns) seen =
     (if n \<in> set seen then dfsLoop g fn ns seen
      else if fn n then Inr (Some n, seen @ [n])
      else rbind (getDirectChildConnections g n) (\<lambda>cs.
           rbind (dfsLoop g fn (map to_node cs) (seen @ [n])) (\<lambda>(found, seen').
             case found of Some m \<Rightarrow> Inr (Some m, seen')
             | None \<Rightarrow> dfsLoop g fn ns seen')))"
  by pat_completeness auto

lemma dfsLoop_grows_dom:
  "dfsLoop_dom (g, fn, ns, S) \<Longrightarrow> dfsLoop g fn ns S = Inr (r, S') \<Longrightarrow> set S \<subseteq> set S'"
proof (induction g fn ns S arbitrary: r S' rule: dfsLoop.pinduct)
  case (1 g fn S)
  then show ?case by (simp add: dfsLoop.psimps)
next
  case (2 g fn n ns S)
  show ?case
  proof (cases "n \<in> set S \<or> fn n")
    case True
    with 2 show ?thesis by (auto simp: dfsLoop.psimps split: if_splits)
  next
    case False
    with "2.prems" "2.hyps" obtain cs r1 S1 where
      1: "getDirectChildConnections g n = Inr cs" "dfsLoop g fn (map to_node cs) (S @ [n]) = Inr (r1, S1)"
      and 2: "r1 = None \<Longrightarrow> dfsLoop g fn ns S1 = Inr (r, S')" "r1 \<noteq> None \<Longrightarrow> S' = S1"
      by (auto simp: dfsLoop.psimps rbind_eq_Inr split: option.splits)
    have "set (S @ [n]) \<subseteq> set S1" using "2.IH"(2) False 1 by simp
    moreover have "set S1 \<subseteq> set S'"
      using "2.IH"(3) [of cs "(r1, S1)" r1 S1 r S'] False 1 2 by (cases r1) auto
    ultimately show ?thesis by auto
  qed
qed

termination dfsLoop
proof (relation "inv_image visit_order
    (\<lambda>(g, fn, ns, S). (set ns \<union> to_node ` set (allConnections g) - set S, length ns))", goal_cases)
  case 1
  show ?case by simp
next
  case (2 g fn n ns S)
  then show ?case by (auto intro!: visit_orderI_eq)
next
  case (3 g fn n ns S cs)
  then show ?case
    by (auto intro!: visit_orderI [where x = n] dest: children_subset)
next
  case (4 g fn n ns S cs x found seen')
  then have "set S \<subseteq> set seen'"
    using dfsLoop_grows_dom [of g fn "map to_node cs" "S @ [n]" found seen'] by simp
  then show ?case by (auto intro!: visit_orderI_eq)
qed

definition depthFirstSearchRecursive ::
  "DirectedGraph \<Rightarrow> INode \<Rightarrow> (INode \<Rightarrow> bool) \<Rightarrow> INode list \<Rightarrow> js_error + (INode option \<times> INode list)" where
  "depthFirstSearchRecursive g start fn seen = dfsLoop g fn [start] seen"

definition depthFirstSearch :: "DirectedGraph \<Rightarrow> INode \<Rightarrow> (INode \<Rightarrow> bool) \<Rightarrow> js_error + INode option" where
  "depthFirstSearch g start fn =
     rbind (depthFirstSearchRecursive g start fn []) (\<lambda>(found, _). Inr found)"

section \<open>Strongly connected components\<close>

text \<open>
  The local variables of \<open>getStronglyConnectedComponents\<close>; the head of \<open>stack\<close> is the top
  (\<open>stack.at(-1)\<close>).
\<close>

record TarjanState =
  nextId :: nat
  visited :: "INode list"
  ids :: "(INode \<times> nat) list"
  lowLinkValues :: "(INode \<times> nat) list"
  stack :: "INode list"
  components :: "INode list list"

definition initTarjan :: TarjanState where
  "initTarjan = \<lparr>nextId = 0, visited = [], ids = [], lowLinkValues = [], stack = [], components = []\<rparr>"

definition enterNode :: "INode \<Rightarrow> TarjanState \<Rightarrow> TarjanState" where
  "enterNode n st = st\<lparr>visited := set_add n (visited st),
     lowLinkValues := AList.update n (nextId st) (lowLinkValues st),
     ids := AList.update n (nextId st) (ids st),
     nextId := Suc (nextId st), stack := n # stack st\<rparr>"

text \<open>If the child is on the stack, take the smaller of the two low-link values.\<close>

definition lowerLink :: "INode \<Rightarrow> INode \<Rightarrow> TarjanState \<Rightarrow> js_error + TarjanState" where
  "lowerLink n child st =
     (if child \<in> set (stack st) then
        (case map_of (lowLinkValues st) child of
           None \<Rightarrow> Inl AssertionError
         | Some childLow \<Rightarrow>
             (case map_of (lowLinkValues st) n of
                None \<Rightarrow> Inl AssertionError
              | Some ownLow \<Rightarrow> Inr (st\<lparr>lowLinkValues :=
                  AList.update n (min childLow ownLow) (lowLinkValues st)\<rparr>)))
      else Inr st)"

text \<open>
  After the children: if the own id is the own low-link value, pop while the top of the stack has
  exactly that low-link value.
\<close>

definition closeComponent :: "INode \<Rightarrow> TarjanState \<Rightarrow> js_error + TarjanState" where
  "closeComponent n st =
     (case map_of (ids st) n of
        None \<Rightarrow> Inl AssertionError
      | Some ownId \<Rightarrow>
          (case map_of (lowLinkValues st) n of
             None \<Rightarrow> Inl AssertionError
           | Some ownLow \<Rightarrow>
               if ownId = ownLow then
                 (let same = (\<lambda>m. map_of (lowLinkValues st) m = Some ownId);
                      scc = fold set_add (takeWhile same (stack st)) [];
                      st' = st\<lparr>stack := dropWhile same (stack st)\<rparr>
                  in Inr (if length scc > 0 then st'\<lparr>components := components st' @ [scc]\<rparr> else st'))
               else Inr st))"

function (sequential)
  followNode :: "DirectedGraph \<Rightarrow> INode \<Rightarrow> TarjanState \<Rightarrow> js_error + TarjanState" and
  followChildren :: "DirectedGraph \<Rightarrow> INode \<Rightarrow> INode list \<Rightarrow> TarjanState \<Rightarrow> js_error + TarjanState"
where
  "followNode g n st =
     (if n \<in> set (visited st) then Inr st
      else rbind (getDirectChildConnections g n) (\<lambda>cs.
           rbind (followChildren g n (map to_node cs) (enterNode n st)) (\<lambda>st'.
             closeComponent n st')))"
| "followChildren g n [] st = Inr st"
| "followChildren g n (child # cs) st =
     rbind (followNode g child st) (\<lambda>st1.
     rbind (lowerLink n child st1) (\<lambda>st2.
       followChildren g n cs st2))"
  by pat_completeness auto

lemma visited_enterNode [simp]: "visited (enterNode n st) = set_add n (visited st)"
  by (simp add: enterNode_def)

lemma visited_lowerLink: "lowerLink n c st = Inr st' \<Longrightarrow> visited st' = visited st"
  by (auto simp: lowerLink_def split: if_splits option.splits)

lemma visited_closeComponent: "closeComponent n st = Inr st' \<Longrightarrow> visited st' = visited st"
  by (auto simp: closeComponent_def Let_def split: if_splits option.splits)

lemma visited_grows_dom:
  "followNode_followChildren_dom (Inl (g, n, st)) \<Longrightarrow> followNode g n st = Inr st' \<Longrightarrow>
     set (visited st) \<subseteq> set (visited st')"
  "followNode_followChildren_dom (Inr (g, n, cs, st)) \<Longrightarrow> followChildren g n cs st = Inr st' \<Longrightarrow>
     set (visited st) \<subseteq> set (visited st')"
proof (induction g n st and g n cs st arbitrary: st' and st' rule: followNode_followChildren.pinduct)
  case (1 g n st)
  show ?case
  proof (cases "n \<in> set (visited st)")
    case True
    with 1 show ?thesis by (simp add: followNode.psimps)
  next
    case False
    with "1.prems" "1.hyps" obtain cs st1 where
      "getDirectChildConnections g n = Inr cs"
      "followChildren g n (map to_node cs) (enterNode n st) = Inr st1" "closeComponent n st1 = Inr st'"
      by (auto simp: followNode.psimps rbind_eq_Inr)
    with "1.IH" [OF False] visited_closeComponent [of n st1 st'] show ?thesis by auto
  qed
next
  case (2 g n st)
  then show ?case by (simp add: followChildren.psimps)
next
  case (3 g n child cs st)
  then obtain st1 st2 where
    "followNode g child st = Inr st1" "lowerLink n child st1 = Inr st2"
    "followChildren g n cs st2 = Inr st'"
    by (auto simp: followChildren.psimps rbind_eq_Inr)
  with "3.IH" visited_lowerLink [of n child st1 st2] show ?case by fastforce
qed

termination followNode
proof (relation "inv_image visit_order (\<lambda>x. case x of
      Inl (g, n, st) \<Rightarrow> (insert n (to_node ` set (allConnections g)) - set (visited st), 0)
    | Inr (g, n, cs, st) \<Rightarrow> (set cs \<union> to_node ` set (allConnections g) - set (visited st), Suc (length cs)))",
  goal_cases)
  case 1
  show ?case by simp
next
  case (2 g n st cs)
  then show ?case
    by (auto intro!: visit_orderI [where x = n] dest: children_subset)
next
  case (3 g n child cs st)
  then show ?case by (auto intro!: visit_orderI_eq)
next
  case (4 g n child cs st st1 st2)
  then have "set (visited st) \<subseteq> set (visited st2)"
    using visited_grows_dom(1) [of g child st st1] visited_lowerLink [of n child st1 st2] by simp
  then show ?case by (auto intro!: visit_orderI_eq)
qed

definition getStronglyConnectedComponents :: "DirectedGraph \<Rightarrow> js_error + INode list list" where
  "getStronglyConnectedComponents g =
     rbind (rfold (followNode g) (getNodes g) initTarjan) (\<lambda>st. Inr (components st))"

section \<open>Import and export\<close>

text \<open>
  \<open>fromNodesAndConnections\<close>: the three nested loops over the normalized connections. The type of
  a connection is the key of the middle level; the type inside the \<open>IConnection\<close> is ignored.
\<close>

definition importConnection ::
  "(string \<Rightarrow> INode option) \<Rightarrow> INode \<Rightarrow> NodeConnectionType \<Rightarrow> nat \<Rightarrow> IConnection
     \<Rightarrow> DirectedGraph \<Rightarrow> js_error + DirectedGraph" where
  "importConnection nodeMap from outputType i conn g =
     (case nodeMap (c_node conn) of
        None \<Rightarrow> Inl AssertionError
      | Some to \<Rightarrow> addConnection \<lparr>in_from = from, in_to = to, in_type = Some outputType,
          in_outputIndex = Some i, in_inputIndex = Some (c_index conn)\<rparr> g)"

definition importNodeConnections ::
  "(string \<Rightarrow> INode option) \<Rightarrow> string \<times> INodeConnections \<Rightarrow> DirectedGraph \<Rightarrow> js_error + DirectedGraph" where
  "importNodeConnections nodeMap entry g =
     (case nodeMap (fst entry) of
        None \<Rightarrow> Inl AssertionError
      | Some from \<Rightarrow>
          rfold (\<lambda>(outputType, outputs).
            rfold (\<lambda>(i, conns). rfold (importConnection nodeMap from outputType i) (cell_or [] conns))
              (with_index outputs)) (snd entry) g)"

definition fromNodesAndConnections :: "INode list \<Rightarrow> IConnections \<Rightarrow> js_error + DirectedGraph" where
  "fromNodesAndConnections ns conns =
     (let nodeMap = map_of (fold (\<lambda>n. AList.update (name n) n) ns [])
      in rfold (importNodeConnections nodeMap) conns (addNodes ns emptyGraph))"

text \<open>
  \<open>toIConnections\<close>. The entry of a source node is created with the type of the first connection
  only; \<open>resultConnection[type][outputIndex]\<close> of a type that is not there reads a property of
  \<open>undefined\<close> and throws.
\<close>

definition exportConnection :: "GraphConnection \<Rightarrow> IConnections \<Rightarrow> js_error + IConnections" where
  "exportConnection c result =
     (let from = name (from_node c);
          resultConnection = (case map_of result from of None \<Rightarrow> [(conn_type c, [])] | Some r \<Rightarrow> r)
      in case map_of resultConnection (conn_type c) of
           None \<Rightarrow> Inl TypeError
         | Some outputs \<Rightarrow>
             (let group = cell_or [] (arr_get outputs (outputIndex c));
                  group' = group @ [\<lparr>c_node = name (to_node c), c_type = conn_type c, c_index = inputIndex c\<rparr>];
                  outputs' = arr_set (outputIndex c) (Val group') outputs
              in Inr (AList.update from (AList.update (conn_type c) outputs' resultConnection) result)))"

definition toIConnections :: "DirectedGraph \<Rightarrow> js_error + IConnections" where
  "toIConnections g = rfold exportConnection (allConnections g) []"

text \<open>
  \<open>filterDisabledNodes\<close> of \<^verbatim>\<open>filter-disabled-nodes.ts\<close>: every disabled node is bypassed over
  its main connections.
\<close>

definition isDisabled :: "INode \<Rightarrow> bool" where
  "isDisabled n = (disabled n = Some True)"

definition filterDisabledNodes :: "DirectedGraph \<Rightarrow> js_error + DirectedGraph" where
  "filterDisabledNodes g =
     rbind (clone g) (\<lambda>filteredGraph.
       rfold (\<lambda>n g'. if isDisabled n
                then rbind (removeNode n True (Some (\<lambda>c. conn_type c \<noteq> Main)) g') (\<lambda>(g'', _). Inr g'')
                else Inr g')
         (getNodes filteredGraph) filteredGraph)"

end
