(* ===== verification/RunData.thy ===== *)
theory RunData
  imports WorkflowTypes
begin

text \<open>
  Reading the results of earlier runs: \<^verbatim>\<open>get-incoming-data.ts\<close> and \<^verbatim>\<open>run-data-utils.ts\<close> of
  \<^verbatim>\<open>packages/core/src/execution-engine/partial-execution-utils\<close>.
\<close>

section \<open>Operations\<close>

text \<open>\<open>Array.prototype.at\<close>: a negative index counts from the end.\<close>

definition js_at :: "'a list \<Rightarrow> int \<Rightarrow> 'a option" where
  "js_at xs i = (let k = (if i < 0 then int (length xs) + i else i)
                 in if 0 \<le> k \<and> k < int (length xs) then Some (xs ! nat k) else None)"

text \<open>
  The optional chain stops at a missing node, run or \<open>data\<close>; a missing connection type does not
  stop it, so \<open>.at\<close> is then called on \<open>undefined\<close>.
\<close>

definition getIncomingData ::
  "IRunData \<Rightarrow> string \<Rightarrow> int \<Rightarrow> NodeConnectionType \<Rightarrow> nat \<Rightarrow> js_error + INodeExecutionData list option" where
  "getIncomingData runData nodeName runIndex connectionType outIndex =
     (case map_of runData nodeName of None \<Rightarrow> Inr None
      | Some runs \<Rightarrow>
          (case js_at runs runIndex of None \<Rightarrow> Inr None
           | Some run \<Rightarrow>
               (case td_data run of None \<Rightarrow> Inr None
                | Some d \<Rightarrow>
                    (case map_of d connectionType of None \<Rightarrow> Inl TypeError
                     | Some outputs \<Rightarrow> Inr (cell_opt (arr_get outputs outIndex))))))"

definition getRunIndexLength :: "IRunData \<Rightarrow> string \<Rightarrow> nat" where
  "getRunIndexLength runData nodeName =
     (case map_of runData nodeName of None \<Rightarrow> 0 | Some runs \<Rightarrow> length runs)"

fun anyRunLoop ::
  "IRunData \<Rightarrow> string \<Rightarrow> NodeConnectionType \<Rightarrow> nat \<Rightarrow> nat list
     \<Rightarrow> js_error + (INodeExecutionData list \<times> nat) option" where
  "anyRunLoop rd nm t oi [] = Inr None"
| "anyRunLoop rd nm t oi (i # is) =
     rbind (getIncomingData rd nm (int i) t oi) (\<lambda>d.
       case d of
         Some items \<Rightarrow> if length items > 0 then Inr (Some (items, i)) else anyRunLoop rd nm t oi is
       | None \<Rightarrow> anyRunLoop rd nm t oi is)"

definition getIncomingDataFromAnyRun ::
  "IRunData \<Rightarrow> string \<Rightarrow> NodeConnectionType \<Rightarrow> nat \<Rightarrow> js_error + (INodeExecutionData list \<times> nat) option" where
  "getIncomingDataFromAnyRun rd nm t oi = anyRunLoop rd nm t oi [0..<getRunIndexLength rd nm]"

definition getNextExecutionIndex :: "IRunData \<Rightarrow> nat" where
  "getNextExecutionIndex runData =
     (if runData = [] then 0
      else let previousIndices = List.map_filter executionIndex (concat (map snd runData))
           in if previousIndices = [] then 0 else fold max previousIndices 0 + 1)"

section \<open>Lemmas\<close>

lemma js_at_nat: "js_at xs (int i) = (if i < length xs then Some (xs ! i) else None)"
  by (simp add: js_at_def)

lemma js_at_last: "xs \<noteq> [] \<Longrightarrow> js_at xs (- 1) = Some (last xs)"
  by (cases "length xs") (simp_all add: js_at_def last_conv_nth nat_diff_distrib)

text \<open>Run data in which every run that has data has data of every type in \<open>ts\<close>.\<close>

definition has_types :: "IRunData \<Rightarrow> NodeConnectionType set \<Rightarrow> bool" where
  "has_types rd ts \<longleftrightarrow> (\<forall>(nm, runs) \<in> set rd. \<forall>run \<in> set runs. \<forall>d. td_data run = Some d \<longrightarrow>
     (\<forall>t \<in> ts. map_of d t \<noteq> None))"

lemma getIncomingData_total:
  assumes "has_types rd ts" "t \<in> ts"
  shows "\<exists>r. getIncomingData rd nm i t oi = Inr r"
proof (cases "getIncomingData rd nm i t oi")
  case (Inl e)
  then obtain runs run d where "map_of rd nm = Some runs" "js_at runs i = Some run" "td_data run = Some d"
    "map_of d t = None"
    by (auto simp: getIncomingData_def split: option.splits)
  moreover from this have "(nm, runs) \<in> set rd" "run \<in> set runs"
    by (auto dest: map_of_SomeD simp: js_at_def Let_def split: if_splits)
  ultimately show ?thesis using assms unfolding has_types_def by fastforce
qed simp

text \<open>What the loop over the runs \<open>is\<close> returns.\<close>

definition nonempty_run :: "IRunData \<Rightarrow> string \<Rightarrow> NodeConnectionType \<Rightarrow> nat \<Rightarrow> nat \<Rightarrow> INodeExecutionData list \<Rightarrow> bool" where
  "nonempty_run rd nm t oi i d \<longleftrightarrow> getIncomingData rd nm (int i) t oi = Inr (Some d) \<and> d \<noteq> []"

lemma anyRunLoop_Cons:
  "anyRunLoop rd nm t oi (j # js) = Inr r \<Longrightarrow>
     (\<exists>d. nonempty_run rd nm t oi j d \<and> r = Some (d, j)) \<or>
     (\<forall>d. \<not> nonempty_run rd nm t oi j d) \<and> anyRunLoop rd nm t oi js = Inr r"
  by (cases "getIncomingData rd nm (int j) t oi") (auto simp: nonempty_run_def split: option.splits if_splits)

lemma anyRunLoop_None:
  "anyRunLoop rd nm t oi is = Inr None \<Longrightarrow> i \<in> set is \<Longrightarrow> \<not> nonempty_run rd nm t oi i d"
proof (induction "is")
  case (Cons j js)
  from anyRunLoop_Cons [OF Cons.prems(1)] Cons.IH Cons.prems(2) show ?case by (cases "i = j") auto
qed simp

lemma anyRunLoop_Some:
  "anyRunLoop rd nm t oi is = Inr (Some (d, k)) \<Longrightarrow> sorted is \<Longrightarrow>
     k \<in> set is \<and> nonempty_run rd nm t oi k d \<and> (\<forall>i \<in> set is. i < k \<longrightarrow> (\<forall>d'. \<not> nonempty_run rd nm t oi i d'))"
proof (induction "is")
  case (Cons j js)
  from anyRunLoop_Cons [OF Cons.prems(1)] consider
      (here) "nonempty_run rd nm t oi j d" "k = j"
    | (later) "\<forall>d. \<not> nonempty_run rd nm t oi j d" "anyRunLoop rd nm t oi js = Inr (Some (d, k))" by blast
  then show ?case
  proof cases
    case here
    with Cons.prems(2) show ?thesis by fastforce
  next
    case later
    from Cons.IH [OF later(2)] Cons.prems(2) later(1) show ?thesis by simp
  qed
qed simp

lemma anyRunLoop_total: "has_types rd ts \<Longrightarrow> t \<in> ts \<Longrightarrow> \<exists>r. anyRunLoop rd nm t oi is = Inr r"
proof (induction "is")
  case (Cons j js)
  from getIncomingData_total [OF Cons.prems, of nm "int j" oi] obtain r where
    "getIncomingData rd nm (int j) t oi = Inr r" by blast
  with Cons show ?case by (auto split: option.splits)
qed simp

lemma getIncomingDataFromAnyRun_total:
  "has_types rd ts \<Longrightarrow> t \<in> ts \<Longrightarrow> \<exists>r. getIncomingDataFromAnyRun rd nm t oi = Inr r"
  unfolding getIncomingDataFromAnyRun_def by (rule anyRunLoop_total)

lemma fold_max: "fold max xs (a :: nat) = Max (insert a (set xs))"
  using Max.set_eq_fold [of a xs] by simp

section \<open>Properties\<close>

text \<open>\<open>getIncomingDataFromAnyRun\<close> returns the data of the first run of the node that has at least
  one item at that output, with the index of that run, and nothing when no run has.\<close>

theorem getIncomingDataFromAnyRun_first:
  assumes "has_types rd {t}"
  shows "\<exists>r. getIncomingDataFromAnyRun rd nm t oi = Inr r \<and>
    (case r of
       Some (d, k) \<Rightarrow> k < getRunIndexLength rd nm \<and> d \<noteq> [] \<and> getIncomingData rd nm (int k) t oi = Inr (Some d) \<and>
         (\<forall>i < k. getIncomingData rd nm (int i) t oi \<in> {Inr None, Inr (Some [])})
     | None \<Rightarrow> \<forall>i < getRunIndexLength rd nm. getIncomingData rd nm (int i) t oi \<in> {Inr None, Inr (Some [])})"
proof -
  let ?n = "getRunIndexLength rd nm"
  from anyRunLoop_total [OF assms] obtain r where r: "anyRunLoop rd nm t oi [0..<?n] = Inr r" by blast
  have empty: "getIncomingData rd nm (int i) t oi \<in> {Inr None, Inr (Some [])}"
    if "\<forall>d. \<not> nonempty_run rd nm t oi i d" for i
  proof -
    from getIncomingData_total [OF assms] obtain x where "getIncomingData rd nm (int i) t oi = Inr x" by blast
    with that show ?thesis by (cases x) (auto simp: nonempty_run_def)
  qed
  show ?thesis
  proof (cases r)
    case None
    with anyRunLoop_None [OF r [unfolded None]] empty r show ?thesis
      by (auto simp: getIncomingDataFromAnyRun_def)
  next
    case (Some p)
    obtain d k where p: "p = (d, k)" by force
    from anyRunLoop_Some [OF r [unfolded Some p]] have k: "k < ?n" "nonempty_run rd nm t oi k d"
      "\<And>i d'. i < k \<Longrightarrow> \<not> nonempty_run rd nm t oi i d'" by auto
    with empty r show ?thesis
      by (auto simp: getIncomingDataFromAnyRun_def Some p nonempty_run_def)
  qed
qed

definition run_of :: "INodeExecutionData list \<Rightarrow> ITaskData" where
  "run_of items = \<lparr>startTime = 0, executionIndex = Some 0, source = [], executionTime = 0,
     executionStatus = Some Success, td_data = Some [(Main, [Val items])], inputOverride = None,
     td_error = None, td_metadata = None\<rparr>"

lemma getIncomingDataFromAnyRun_first_witness:
  "getIncomingDataFromAnyRun [(''A'', [run_of [], run_of [plainItem []]])] ''A'' Main 0 = Inr (Some ([plainItem []], 1)) \<and>
   getIncomingData [(''A'', [run_of [], run_of [plainItem []]])] ''A'' 0 Main 0 \<in> {Inr None, Inr (Some [])}"
proof -
  let ?rd = "[(''A'', [run_of [], run_of [plainItem []]])]"
  have 1: "has_types ?rd {Main}" by (simp add: has_types_def run_of_def)
  have 2: "getIncomingDataFromAnyRun ?rd ''A'' Main 0 = Inr (Some ([plainItem []], 1))" by code_simp
  from getIncomingDataFromAnyRun_first [OF 1, of "''A''" 0] 2 show ?thesis by auto
qed

text \<open>\<open>getNextExecutionIndex\<close> is fresh: it is larger than every execution index in the run data,
  and it is the successor of one of them unless there is none, when it is 0.\<close>

theorem getNextExecutionIndex_fresh:
  fixes rd :: IRunData
  defines "used \<equiv> {i. \<exists>nm runs run. (nm, runs) \<in> set rd \<and> run \<in> set runs \<and> executionIndex run = Some i}"
  shows "used \<subseteq> {..<getNextExecutionIndex rd} \<and>
    (used = {} \<and> getNextExecutionIndex rd = 0 \<or> (\<exists>i \<in> used. getNextExecutionIndex rd = i + 1))"
proof -
  let ?prev = "List.map_filter executionIndex (concat (map snd rd))"
  have used: "used = set ?prev"
    by (force simp: used_def map_filter_def)
  show ?thesis
  proof (cases "?prev = []")
    case True
    then show ?thesis unfolding used by (simp add: getNextExecutionIndex_def)
  next
    case False
    then have "rd \<noteq> []" by (auto simp: map_filter_def)
    with False have e: "getNextExecutionIndex rd = Max (set ?prev) + 1"
      by (simp add: getNextExecutionIndex_def fold_max)
    have "Max (set ?prev) \<in> set ?prev" using False by (intro Max_in) auto
    with e False show ?thesis unfolding used by (auto simp: less_Suc_eq_le)
  qed
qed

end
