(* ===== verification/PartialExecution.thy ===== *)
theory PartialExecution
  imports DirectedGraph RunData
begin

text \<open>
  Planning a partial execution, from
  \<^verbatim>\<open>packages/core/src/execution-engine/partial-execution-utils\<close>: which part of the graph leads to
  the destination (\<^verbatim>\<open>find-subgraph.ts\<close>), where execution starts (\<^verbatim>\<open>find-start-nodes.ts\<close>,
  \<^verbatim>\<open>handle-cycles.ts\<close>), which earlier results are dropped (\<^verbatim>\<open>clean-run-data.ts\<close>), whether a root of
  the destination has run (\<^verbatim>\<open>find-trigger-for-partial-execution.ts\<close>) and how a tool is run on its own
  (\<^verbatim>\<open>rewire-graph.ts\<close>).
\<close>

lemma nodeExists_getNodes: "nodeExists g n \<Longrightarrow> n \<in> set (getNodes g)"
  by (force simp: nodeExists_def getNodes_def dest!: map_of_SomeD)

lemma getDirectChildConnections_Inr:
  "getDirectChildConnections g n = Inr cs \<longleftrightarrow>
     nodeExists g n \<and> cs = filter (\<lambda>c. from_node c = n) (allConnections g)"
  by (auto simp: getDirectChildConnections_def allConnections_def)

lemma getDirectParentConnections_Inr:
  "getDirectParentConnections g n = Inr cs \<longleftrightarrow>
     nodeExists g n \<and> cs = filter (\<lambda>c. to_node c = n) (allConnections g)"
  by (auto simp: getDirectParentConnections_def allConnections_def)

section \<open>find-subgraph.ts\<close>

definition keepBranch :: "GraphConnection list \<Rightarrow> DirectedGraph \<Rightarrow> js_error + DirectedGraph" where
  "keepBranch branch newGraph =
     rfold (\<lambda>c ng. addConnection (as_input c) (addNodes [from_node c, to_node c] ng)) branch newGraph"

text \<open>A branch grows by a connection into a node no connection of the branch leads to yet.\<close>

function findSubgraphRecursive ::
  "DirectedGraph \<Rightarrow> INode \<Rightarrow> INode \<Rightarrow> INode \<Rightarrow> DirectedGraph \<Rightarrow> GraphConnection list
     \<Rightarrow> js_error + DirectedGraph" where
  "findSubgraphRecursive g destination current trigger newGraph branch =
     (if current = trigger then keepBranch branch (addNode trigger newGraph)
      else rbind (getDirectParentConnections g current) (\<lambda>parents.
        if parents = [] then Inr newGraph
        else if current = destination \<and> (\<exists>c \<in> set branch. to_node c = destination) then Inr newGraph
        else if \<exists>c \<in> set branch. to_node c = current then keepBranch branch newGraph
        else rfold (\<lambda>p ng. if conn_type p \<noteq> Main then Inr ng
               else findSubgraphRecursive g destination (from_node p) trigger ng (branch @ [p]))
             parents newGraph))"
  by pat_completeness auto

termination findSubgraphRecursive
proof (relation "measure (\<lambda>(g, destination, current, trigger, newGraph, branch).
    card (set (getNodes g) - to_node ` set branch))", goal_cases)
  case 1
  show ?case by simp
next
  case (2 g destination current trigger newGraph branch parents p ng)
  then have "nodeExists g current" "to_node p = current" "current \<notin> to_node ` set branch"
    by (auto simp: getDirectParentConnections_Inr)
  then show ?case
    by (auto intro!: psubset_card_mono dest: nodeExists_getNodes)
qed

declare findSubgraphRecursive.simps [simp del]

definition addSubNodes :: "DirectedGraph \<Rightarrow> INode \<Rightarrow> DirectedGraph \<Rightarrow> js_error + DirectedGraph" where
  "addSubNodes g n subgraph =
     rbind (getParentConnections g n) (\<lambda>parents.
       rfold (\<lambda>c sg. if conn_type c = Main then Inr sg
                else addConnection (as_input c) (addNodes [from_node c, to_node c] sg)) parents subgraph)"

definition findSubgraph :: "DirectedGraph \<Rightarrow> INode \<Rightarrow> INode \<Rightarrow> js_error + DirectedGraph" where
  "findSubgraph g destination trigger =
     rbind (findSubgraphRecursive g destination destination trigger emptyGraph []) (\<lambda>subgraph.
       rfold (addSubNodes g) (getNodes subgraph) subgraph)"

section \<open>find-start-nodes.ts\<close>

text \<open>The three checks that are not implemented are constants of the source.\<close>

definition isDirty :: "INode \<Rightarrow> IRunData \<Rightarrow> IPinData \<Rightarrow> bool" where
  "isDirty n runData pinData =
     (if map_of pinData (name n) \<noteq> None then False
      else if map_of runData (name n) \<noteq> None then False
      else True)"

definition isALoop :: "DirectedGraph \<Rightarrow> INode \<Rightarrow> js_error + bool" where
  "isALoop g n = rbind (getChildren g n) (\<lambda>children. Inr (n \<in> set children))"

text \<open>The loop node test: the \<open>done\<close> output of the last run has no data.\<close>

definition loopNotDone :: "DirectedGraph \<Rightarrow> INode \<Rightarrow> IRunData \<Rightarrow> js_error + bool" where
  "loopNotDone g current runData =
     (if node_type current = ''n8n-nodes-base.splitInBatches'' then
        rbind (isALoop g current) (\<lambda>l.
        rbind (getIncomingData runData (name current) (-1) Main (if l then 0 else 1)) (\<lambda>d.
          Inr (d = None \<or> d = Some [])))
      else Inr False)"

definition hasNoRunData :: "(INodeExecutionData list \<times> nat) option \<Rightarrow> bool" where
  "hasNoRunData d = (case d of None \<Rightarrow> True | Some (items, _) \<Rightarrow> length items = 0)"

function findStartNodesRecursive ::
  "DirectedGraph \<Rightarrow> INode \<Rightarrow> INode \<Rightarrow> IRunData \<Rightarrow> IPinData \<Rightarrow> INode list \<Rightarrow> INode list \<Rightarrow> js_error + INode list"
where
  "findStartNodesRecursive g current destination runData pinData startNodes seen =
     (if isDirty current runData pinData then Inr (set_add current startNodes)
      else if current = destination then Inr (set_add current startNodes)
      else rbind (loopNotDone g current runData) (\<lambda>notDone.
        if notDone then Inr (set_add current startNodes)
        else if current \<in> set seen then Inr startNodes
        else rbind (getDirectChildConnections g current) (\<lambda>outgoing.
          rfold (\<lambda>c sn.
            rbind (getIncomingDataFromAnyRun runData (name (from_node c)) (conn_type c) (outputIndex c)) (\<lambda>d.
              if hasNoRunData d \<and> map_of pinData (name (from_node c)) = None then Inr sn
              else findStartNodesRecursive g (to_node c) destination runData pinData sn (set_add current seen)))
            outgoing startNodes)))"
  by pat_completeness auto

termination findStartNodesRecursive
proof (relation "measure (\<lambda>(g, current, destination, runData, pinData, startNodes, seen).
    card (set (getNodes g) - set seen))", goal_cases)
  case 1
  show ?case by simp
next
  case (2 g current destination runData pinData startNodes seen notDone outgoing c sn d)
  then have "current \<in> set (getNodes g)" by (auto simp: getDirectChildConnections_Inr dest: nodeExists_getNodes)
  with 2(5) have "set (getNodes g) - set (set_add current seen) \<subset> set (getNodes g) - set seen" by auto
  then show ?case by (simp add: psubset_card_mono del: set_set_add)
qed

declare findStartNodesRecursive.simps [simp del]

definition findStartNodes ::
  "DirectedGraph \<Rightarrow> INode \<Rightarrow> INode \<Rightarrow> IPinData \<Rightarrow> IRunData \<Rightarrow> js_error + INode list" where
  "findStartNodes g trigger destination pinData runData =
     findStartNodesRecursive g trigger destination runData pinData [] []"

section \<open>handle-cycles.ts\<close>

definition replaceStart ::
  "DirectedGraph \<Rightarrow> INode \<Rightarrow> INode \<Rightarrow> INode list \<Rightarrow> INode list \<Rightarrow> js_error + INode list" where
  "replaceStart g trigger startNode cycle newStartNodes =
     (if startNode \<in> set cycle then
        rbind (depthFirstSearch g trigger (\<lambda>n. n \<in> set cycle)) (\<lambda>firstNode.
          case firstNode of None \<Rightarrow> Inl AssertionError
          | Some f \<Rightarrow> Inr (set_add f (set_remove startNode newStartNodes)))
      else Inr newStartNodes)"

definition handleCycles :: "DirectedGraph \<Rightarrow> INode list \<Rightarrow> INode \<Rightarrow> js_error + INode list" where
  "handleCycles g startNodes trigger =
     rbind (getStronglyConnectedComponents g) (\<lambda>components.
       let cycles = filter (\<lambda>c. length c \<ge> 1) components in
       if length cycles = 0 then Inr startNodes
       else rfold (\<lambda>startNode. rfold (replaceStart g trigger startNode) cycles) startNodes startNodes)"

section \<open>clean-run-data.ts\<close>

definition cleanOne :: "DirectedGraph \<Rightarrow> INode \<Rightarrow> IRunData \<Rightarrow> js_error + IRunData" where
  "cleanOne g n runData =
     (let rd1 = AList.delete (name n) runData in
      rbind (getParentConnections g n) (\<lambda>subNodeConnections.
        Inr (fold (\<lambda>c rd. if conn_type c = Main then rd else AList.delete (name (from_node c)) rd)
          subNodeConnections rd1)))"

definition cleanRunData :: "IRunData \<Rightarrow> DirectedGraph \<Rightarrow> INode list \<Rightarrow> js_error + IRunData" where
  "cleanRunData runData g nodesToClean =
     rbind (rfold (\<lambda>nodeToClean rd.
         let rd1 = AList.delete (name nodeToClean) rd in
         rbind (getChildren g nodeToClean) (\<lambda>children.
           rfold (cleanOne g) (nodeToClean # children) rd1)) nodesToClean runData) (\<lambda>newRunData.
       Inr (fold (\<lambda>nodeName rd. if \<not> hasNode g nodeName then AList.delete nodeName rd else rd)
         (map fst newRunData) newRunData))"

section \<open>find-trigger-for-partial-execution.ts\<close>

definition anyReachableRootHasRunData :: "DirectedGraph \<Rightarrow> string \<Rightarrow> IRunData \<Rightarrow> js_error + bool" where
  "anyReachableRootHasRunData g destinationNodeName runData =
     (case map_of (nodes g) destinationNodeName of
        None \<Rightarrow> Inr False
      | Some destinationNode \<Rightarrow>
          rbind (getParentConnections g destinationNode) (\<lambda>parentConnections.
            let parentNodes = fold (\<lambda>c. set_add (from_node c)) parentConnections [] in
            rbind (rfold (\<lambda>p roots. rbind (getDirectParentConnections g p) (\<lambda>ps.
                let hasParents = length ps > 0
                in Inr (if \<not> hasParents then set_add p roots else roots))) parentNodes [])
              (\<lambda>rootNodes. Inr (\<exists>r \<in> set rootNodes. map_of runData (name r) \<noteq> None))))"

section \<open>rewire-graph.ts\<close>

text \<open>
  The code sets \<open>tool.rewireOutputLogTo\<close> on the shared object; \<open>setNode\<close> replaces the node by its
  updated copy wherever the graph refers to it. The new node object gets the identity \<open>newRef\<close>.
\<close>

definition TOOL_EXECUTOR_NODE_NAME :: string where
  "TOOL_EXECUTOR_NODE_NAME = ''PartialExecutionToolExecutor''"

definition setNode :: "INode \<Rightarrow> INode \<Rightarrow> DirectedGraph \<Rightarrow> DirectedGraph" where
  "setNode old new g =
     (let f = (\<lambda>n. if n = old then new else n) in
      \<lparr>nodes = map (\<lambda>(k, n). (k, f n)) (nodes g),
       connections = map (\<lambda>(k, c). (k, c\<lparr>from_node := f (from_node c), to_node := f (to_node c)\<rparr>)) (connections g)\<rparr>)"

definition toolExecutor :: "nat \<Rightarrow> INode" where
  "toolExecutor newRef = (plainNode newRef TOOL_EXECUTOR_NODE_NAME ''@n8n/n8n-nodes-langchain.toolExecutor'')
     \<lparr>disabled := Some False\<rparr>"

definition rewireGraph :: "nat \<Rightarrow> INode \<Rightarrow> DirectedGraph \<Rightarrow> js_error + DirectedGraph" where
  "rewireGraph newRef tool g =
     rbind (clone g) (\<lambda>modifiedGraph.
     rbind (getChildren modifiedGraph tool) (\<lambda>children.
       if length children = 0 then Inr g
       else
         let rootNode = last children in
         rbind (getDirectParentConnections modifiedGraph rootNode) (\<lambda>incoming.
           let allIncoming = filter (\<lambda>cn. conn_type cn = Main) incoming;
               executor = toolExecutor newRef;
               tool' = tool\<lparr>rewireOutputLogTo := Some AiTool\<rparr>;
               sub = (\<lambda>n. if n = tool then tool' else n);
               g1 = setNode tool tool' (addNode executor modifiedGraph)
           in rbind (addConnection \<lparr>in_from = tool', in_to = executor, in_type = Some AiTool,
                      in_outputIndex = None, in_inputIndex = None\<rparr> g1) (\<lambda>g2.
              rbind (addConnections (map (\<lambda>cn. \<lparr>in_from = sub (from_node cn), in_to = executor,
                      in_type = Some (conn_type cn), in_outputIndex = None, in_inputIndex = None\<rparr>) allIncoming) g2)
                (\<lambda>g3. rbind (removeNode (sub rootNode) False None g3) (\<lambda>(g4, _). Inr g4))))))"

end
