(* ===== verification/GraphProps.thy ===== *)
theory GraphProps
  imports DirectedGraph
begin

text \<open>
  Facts about the graph of \<open>DirectedGraph\<close>: when connection keys are unambiguous, the
  well-formedness every operation keeps, and what the recursive traversals return, stated as
  reachability. The two marking traversals share one correctness proof, the locale
  \<open>marking_search\<close>.
\<close>

section \<open>Connection keys\<close>

lemma split_at_dash:
  "a @ CHR ''-'' # b = a' @ CHR ''-'' # b' \<Longrightarrow> CHR ''-'' \<notin> set a \<Longrightarrow> CHR ''-'' \<notin> set a' \<Longrightarrow>
     a = a' \<and> b = b'"
proof (induction a arbitrary: a')
  case Nil
  then show ?case by (cases a') auto
next
  case (Cons x xs)
  then show ?case by (cases a') auto
qed

lemma makeKey_fields:
  assumes "CHR ''-'' \<notin> set (name (from_node c))" "CHR ''-'' \<notin> set (name (from_node d))"
    and "makeKey c = makeKey d"
  shows "name (from_node c) = name (from_node d) \<and> conn_type c = conn_type d \<and>
    outputIndex c = outputIndex d \<and> inputIndex c = inputIndex d \<and> name (to_node c) = name (to_node d)"
proof -
  from assms have 1: "name (from_node c) = name (from_node d)"
    and r1: "type_str (conn_type c) @ ''-'' @ nat_str (outputIndex c) @ ''-'' @ nat_str (inputIndex c) @
        ''-'' @ name (to_node c) = type_str (conn_type d) @ ''-'' @ nat_str (outputIndex d) @ ''-'' @
        nat_str (inputIndex d) @ ''-'' @ name (to_node d)"
    using split_at_dash [of "name (from_node c)" _ "name (from_node d)"]
    by (auto simp: makeKey_def)
  from r1 have 2: "type_str (conn_type c) = type_str (conn_type d)"
    and r2: "nat_str (outputIndex c) @ ''-'' @ nat_str (inputIndex c) @ ''-'' @ name (to_node c) =
        nat_str (outputIndex d) @ ''-'' @ nat_str (inputIndex d) @ ''-'' @ name (to_node d)"
    using split_at_dash [of "type_str (conn_type c)" _ "type_str (conn_type d)"] type_str_no_dash
    by auto
  from r2 have 3: "nat_str (outputIndex c) = nat_str (outputIndex d)"
    and r3: "nat_str (inputIndex c) @ ''-'' @ name (to_node c) =
        nat_str (inputIndex d) @ ''-'' @ name (to_node d)"
    using split_at_dash [of "nat_str (outputIndex c)" _ "nat_str (outputIndex d)"] nat_str_no_dash
    by auto
  from r3 have 4: "nat_str (inputIndex c) = nat_str (inputIndex d)" "name (to_node c) = name (to_node d)"
    using split_at_dash [of "nat_str (inputIndex c)" _ "nat_str (inputIndex d)"] nat_str_no_dash
    by auto
  from 1 2 3 4 show ?thesis by (auto dest: type_str_inj nat_str_inj)
qed

section \<open>Well-formed graphs\<close>

text \<open>
  Nodes are stored under their name, connections under their key, and both ends of every
  connection are nodes of the graph.
\<close>

definition wf_graph :: "DirectedGraph \<Rightarrow> bool" where
  "wf_graph g \<longleftrightarrow> distinct_keys (nodes g) \<and> (\<forall>(k, n) \<in> set (nodes g). k = name n) \<and>
     distinct_keys (connections g) \<and>
     (\<forall>(k, c) \<in> set (connections g). k = makeKey c \<and> nodeExists g (from_node c) \<and> nodeExists g (to_node c))"

lemma wf_graphD:
  assumes "wf_graph g"
  shows "distinct_keys (nodes g)" "distinct_keys (connections g)"
    and "\<And>c. c \<in> set (allConnections g) \<Longrightarrow> nodeExists g (from_node c) \<and> nodeExists g (to_node c)"
    and "\<And>k c. (k, c) \<in> set (connections g) \<Longrightarrow> k = makeKey c"
    and "\<And>k n. (k, n) \<in> set (nodes g) \<Longrightarrow> k = name n"
  using assms by (auto simp: wf_graph_def allConnections_def)

lemma wf_emptyGraph [simp]: "wf_graph emptyGraph"
  by (simp add: wf_graph_def emptyGraph_def)

lemma nodeExists_iff: "wf_graph g \<Longrightarrow> nodeExists g n \<longleftrightarrow> n \<in> set (getNodes g)"
proof -
  assume wf: "wf_graph g"
  have "nodeExists g n \<longleftrightarrow> (name n, n) \<in> set (nodes g)"
    using map_of_entry [OF wf_graphD(1) [OF wf]] by (simp add: nodeExists_def)
  also have "\<dots> \<longleftrightarrow> n \<in> set (getNodes g)"
    using wf_graphD(5) [OF wf] by (force simp: getNodes_def)
  finally show ?thesis .
qed

lemma nodes_setConnection [simp]: "nodes (setConnection c g) = nodes g"
  by (simp add: setConnection_def)

lemma nodeExists_setConnection [simp]: "nodeExists (setConnection c g) n = nodeExists g n"
  by (simp add: nodeExists_def)

lemma nodeExists_addNode:
  "nodeExists (addNode n g) m \<longleftrightarrow> (if name m = name n then m = n else nodeExists g m)"
  by (auto simp: nodeExists_def addNode_def update_conv')

lemma wf_setConnection:
  assumes "wf_graph g" "nodeExists g (from_node c)" "nodeExists g (to_node c)"
  shows "wf_graph (setConnection c g)"
  using assms unfolding wf_graph_def
  by (auto simp: setConnection_def nodeExists_def set_update_entries distinct_update)

text \<open>A new node may only replace the node of its name by itself.\<close>

definition fresh_or_same :: "INode \<Rightarrow> DirectedGraph \<Rightarrow> bool" where
  "fresh_or_same n g \<longleftrightarrow> (map_of (nodes g) (name n) = None \<or> nodeExists g n)"

lemma nodeExists_addNode_mono: "fresh_or_same n g \<Longrightarrow> nodeExists g m \<Longrightarrow> nodeExists (addNode n g) m"
  by (auto simp: nodeExists_addNode fresh_or_same_def) (auto simp: nodeExists_def)

lemma wf_addNode:
  assumes "wf_graph g" "fresh_or_same n g"
  shows "wf_graph (addNode n g)"
proof -
  have "nodeExists (addNode n g) m" if "nodeExists g m" for m
    using assms(2) that by (rule nodeExists_addNode_mono)
  then show ?thesis
    using assms(1) unfolding wf_graph_def
    by (auto simp: addNode_def set_update_entries distinct_update)
qed

lemma allConnections_setConnection:
  assumes "wf_graph g"
  shows "set (allConnections (setConnection c g)) =
    insert c {d \<in> set (allConnections g). makeKey d \<noteq> makeKey c}"
  using wf_graphD(4) [OF assms]
  by (force simp: allConnections_def setConnection_def set_update_entries [OF wf_graphD(2) [OF assms]])

lemma addConnection_Inr:
  "addConnection ci g = Inr g' \<longleftrightarrow> nodeExists g (in_from ci) \<and> nodeExists g (in_to ci) \<and>
     g' = setConnection \<lparr>from_node = in_from ci, to_node = in_to ci,
         conn_type = (case in_type ci of None \<Rightarrow> Main | Some t \<Rightarrow> t),
         outputIndex = (case in_outputIndex ci of None \<Rightarrow> 0 | Some i \<Rightarrow> i),
         inputIndex = (case in_inputIndex ci of None \<Rightarrow> 0 | Some i \<Rightarrow> i)\<rparr> g"
  by (auto simp: addConnection_def)

lemma addConnection_wf: "wf_graph g \<Longrightarrow> addConnection ci g = Inr g' \<Longrightarrow> wf_graph g'"
  by (auto simp: addConnection_Inr intro!: wf_setConnection)

lemma addConnection_as_input:
  "addConnection (as_input c) g = (if nodeExists g (from_node c) \<and> nodeExists g (to_node c)
     then Inr (setConnection c g) else Inl AssertionError)"
  by (cases c) (auto simp: addConnection_def as_input_def)

lemma wf_dropIncident: "wf_graph g \<Longrightarrow> wf_graph (dropIncident n g)"
  unfolding wf_graph_def dropIncident_def
  by (auto simp: nodeExists_def distinct_map_filter case_prod_beta)

lemma allConnections_dropIncident:
  "set (allConnections (dropIncident n g)) = {c \<in> set (allConnections g). from_node c \<noteq> n \<and> to_node c \<noteq> n}"
  by (force simp: allConnections_def dropIncident_def)

lemma nodeExists_dropIncident [simp]: "nodeExists (dropIncident n g) m = nodeExists g m"
  by (simp add: nodeExists_def dropIncident_def)

section \<open>Marking traversals\<close>

text \<open>
  A recursive traversal that marks keys: \<open>loop\<close> works through a list of edges, skips an edge
  whose key is marked, marks it otherwise, and first exhausts the edges that follow it
  (\<open>nexts g (tgt e)\<close>) before it goes on with the list. \<open>ok\<close> holds of the edges of the graph.
\<close>

locale marking_search =
  fixes invar :: "'g \<Rightarrow> bool"
    and ok :: "'g \<Rightarrow> 'e \<Rightarrow> bool"
    and nexts :: "'g \<Rightarrow> 'n \<Rightarrow> js_error + 'e list"
    and tgt :: "'e \<Rightarrow> 'n"
    and key :: "'e \<Rightarrow> 'k"
    and loop :: "'g \<Rightarrow> 'e list \<Rightarrow> 'k list \<Rightarrow> js_error + 'k list"
  assumes loop_Nil: "loop g [] S = Inr S"
    and loop_Cons: "loop g (e # es) S =
      (if key e \<in> set S then loop g es S
       else rbind (nexts g (tgt e)) (\<lambda>ds. rbind (loop g ds (S @ [key e])) (\<lambda>S'. loop g es S')))"
    and nexts_ok: "invar g \<Longrightarrow> ok g e \<Longrightarrow> \<exists>ds. nexts g (tgt e) = Inr ds \<and> (\<forall>d \<in> set ds. ok g d)"
    and key_tgt: "key e = key e' \<Longrightarrow> tgt e = tgt e'"
    and loop_induct: "(\<And>S. P [] S) \<Longrightarrow>
      (\<And>e es S. (key e \<in> set S \<Longrightarrow> P es S) \<Longrightarrow>
         (\<And>ds. key e \<notin> set S \<Longrightarrow> nexts g (tgt e) = Inr ds \<Longrightarrow> P ds (S @ [key e])) \<Longrightarrow>
         (\<And>ds S'. key e \<notin> set S \<Longrightarrow> nexts g (tgt e) = Inr ds \<Longrightarrow>
            loop g ds (S @ [key e]) = Inr S' \<Longrightarrow> P es S') \<Longrightarrow> P (e # es) S) \<Longrightarrow> P xs T"
begin

definition step :: "'g \<Rightarrow> 'e rel" where
  "step g = {(e, d). \<exists>ds. nexts g (tgt e) = Inr ds \<and> d \<in> set ds}"

text \<open>The traversal never fails, and what it marks was marked before or is reachable.\<close>

lemma loop_sound:
  "invar g \<Longrightarrow> \<forall>e \<in> set es. ok g e \<Longrightarrow>
     \<exists>S'. loop g es S = Inr S' \<and> set S \<subseteq> set S' \<and> key ` set es \<subseteq> set S' \<and>
       set S' \<subseteq> set S \<union> key ` ((step g)\<^sup>* `` set es) \<and> (distinct S \<longrightarrow> distinct S')"
proof (induction es S rule: loop_induct [where g = g])
  case (1 S)
  then show ?case by (simp add: loop_Nil)
next
  case (2 e es S)
  have es: "\<forall>d \<in> set es. ok g d" using 2(5) by simp
  have sub: "(step g)\<^sup>* `` set es \<subseteq> (step g)\<^sup>* `` set (e # es)" by auto
  show ?case
  proof (cases "key e \<in> set S")
    case True
    from 2(1) [OF True 2(4) es] obtain S' where S': "loop g es S = Inr S'" "set S \<subseteq> set S'"
      "key ` set es \<subseteq> set S'" "set S' \<subseteq> set S \<union> key ` ((step g)\<^sup>* `` set es)" "distinct S \<longrightarrow> distinct S'"
      by blast
    have "set S' \<subseteq> set S \<union> key ` ((step g)\<^sup>* `` set (e # es))"
      using S'(4) image_mono [OF sub, of key] by blast
    moreover have "key ` set (e # es) \<subseteq> set S'" using True S'(2,3) by auto
    moreover have "loop g (e # es) S = Inr S'" using True S'(1) by (simp add: loop_Cons)
    ultimately show ?thesis using S'(2,5) by blast
  next
    case False
    from 2(4,5) obtain ds where ds: "nexts g (tgt e) = Inr ds" "\<forall>d \<in> set ds. ok g d"
      using nexts_ok [of g e] by auto
    from 2(2) [OF False ds(1) 2(4) ds(2)] obtain S1 where S1:
      "loop g ds (S @ [key e]) = Inr S1" "set (S @ [key e]) \<subseteq> set S1"
      "set S1 \<subseteq> set (S @ [key e]) \<union> key ` ((step g)\<^sup>* `` set ds)"
      "distinct (S @ [key e]) \<longrightarrow> distinct S1"
      by blast
    from 2(3) [OF False ds(1) S1(1) 2(4) es] obtain S2 where S2:
      "loop g es S1 = Inr S2" "set S1 \<subseteq> set S2" "key ` set es \<subseteq> set S2"
      "set S2 \<subseteq> set S1 \<union> key ` ((step g)\<^sup>* `` set es)" "distinct S1 \<longrightarrow> distinct S2"
      by blast
    define R where "R = key ` ((step g)\<^sup>* `` set (e # es))"
    define D where "D = key ` ((step g)\<^sup>* `` set ds)"
    have "D \<subseteq> R" unfolding D_def R_def
      by (rule image_mono) (use ds(1) in \<open>auto simp: step_def intro: converse_rtrancl_into_rtrancl\<close>)
    moreover have "key e \<in> R" unfolding R_def by (rule imageI) auto
    moreover have "set S1 \<subseteq> insert (key e) (set S \<union> D)"
      using S1(3) unfolding D_def by simp
    ultimately have "set S1 \<subseteq> set S \<union> R" by blast
    moreover have "key ` ((step g)\<^sup>* `` set es) \<subseteq> R"
      unfolding R_def by (rule image_mono [OF sub])
    ultimately have "set S2 \<subseteq> set S \<union> R" using S2(4) by blast
    moreover have "loop g (e # es) S = Inr S2"
      using False ds(1) S1(1) S2(1) by (simp add: loop_Cons)
    moreover have "set S \<subseteq> set S2" "key ` set (e # es) \<subseteq> set S2"
      using S1(2) S2(2,3) by auto
    moreover have "distinct S \<longrightarrow> distinct S2" using S1(4) S2(5) False by auto
    ultimately show ?thesis unfolding R_def by blast
  qed
qed

text \<open>What a call newly marks is closed under following edges.\<close>

lemma loop_closed:
  "invar g \<Longrightarrow> \<forall>e \<in> set es. ok g e \<Longrightarrow> loop g es S = Inr S' \<Longrightarrow> key e \<in> set S' - set S \<Longrightarrow>
     (e, d) \<in> step g \<Longrightarrow> key d \<in> set S'"
proof (induction es S arbitrary: S' e d rule: loop_induct [where g = g])
  case (1 S)
  then show ?case by (simp add: loop_Nil)
next
  case (2 c es S)
  show ?case
  proof (cases "key c \<in> set S")
    case True
    with 2(1,4-8) show ?thesis by (auto simp: loop_Cons)
  next
    case False
    from 2(4,5) obtain ds where ds: "nexts g (tgt c) = Inr ds" "\<forall>d \<in> set ds. ok g d"
      using nexts_ok [of g c] by auto
    with False 2(6) obtain S1 where S1: "loop g ds (S @ [key c]) = Inr S1" "loop g es S1 = Inr S'"
      by (auto simp: loop_Cons rbind_eq_Inr)
    from 2(5) have es: "\<forall>d \<in> set es. ok g d" by simp
    have grow: "set S1 \<subseteq> set S'" using loop_sound [OF 2(4) es, of S1] S1(2) by auto
    consider "key e \<in> set S' - set S1" | "key e \<in> set S1 - set (S @ [key c])" | "key e = key c"
      using 2(7) by auto
    then show ?thesis
    proof cases
      case 1
      with 2(3) [OF False ds(1) S1(1) 2(4) es S1(2)] 2(8) show ?thesis by blast
    next
      case 2
      with \<open>(e, d) \<in> step g\<close> "2.IH"(2) [OF False ds(1) \<open>invar g\<close> ds(2) S1(1)] grow
      show ?thesis by blast
    next
      case 3
      then have "d \<in> set ds" using 2(8) ds(1) key_tgt [of e c] by (auto simp: step_def)
      moreover have "key ` set ds \<subseteq> set S1" using loop_sound [OF 2(4) ds(2), of "S @ [key c]"] S1(1) by auto
      ultimately show ?thesis using grow by auto
    qed
  qed
qed

theorem loop_reaches:
  assumes "invar g" "\<forall>e \<in> set es. ok g e"
  shows "\<exists>S'. loop g es [] = Inr S' \<and> set S' = key ` ((step g)\<^sup>* `` set es) \<and> distinct S'"
proof -
  from loop_sound [OF assms, of "[]"] obtain S' where S':
    "loop g es [] = Inr S'" "key ` set es \<subseteq> set S'" "set S' \<subseteq> key ` ((step g)\<^sup>* `` set es)" "distinct S'"
    by auto
  have "key d \<in> set S'" if "(e, d) \<in> (step g)\<^sup>*" "e \<in> set es" for e d
    using that
  proof (induction rule: rtrancl_induct)
    case base
    with S'(2) show ?case by auto
  next
    case (step c d)
    then show ?case using loop_closed [OF assms S'(1), of c d] by simp
  qed
  with S' show ?thesis by (auto simp: Image_iff image_iff)
qed

end

text \<open>The two recursive methods are marking traversals.\<close>

lemma nextConnections_ok:
  assumes "wf_graph g" "c \<in> set (allConnections g)"
  shows "\<exists>ds. getDirectChildConnections g (to_node c) = Inr ds \<and> (\<forall>d \<in> set ds. d \<in> set (allConnections g))"
    and "\<exists>ds. getDirectParentConnections g (from_node c) = Inr ds \<and> (\<forall>d \<in> set ds. d \<in> set (allConnections g))"
  using wf_graphD(3) [OF assms]
  by (auto simp: getDirectChildConnections_def getDirectParentConnections_def allConnections_def)

interpretation children: marking_search wf_graph "\<lambda>g c. c \<in> set (allConnections g)"
  getDirectChildConnections to_node to_node childrenLoop
proof (unfold_locales, goal_cases)
  case (5 P g xs T)
  have "g' = g \<longrightarrow> P ys U" for g' ys U
  proof (induction g' ys U rule: childrenLoop.induct)
    case (2 g' c cs S)
    then show ?case using 5(2) [of c S cs] by blast
  qed (use 5(1) in blast)
  then show ?case by blast
qed (simp_all add: nextConnections_ok)

interpretation parents: marking_search wf_graph "\<lambda>g c. c \<in> set (allConnections g)"
  getDirectParentConnections from_node "\<lambda>c. c" parentsLoop
proof (unfold_locales, goal_cases)
  case (5 P g xs T)
  have "g' = g \<longrightarrow> P ys U" for g' ys U
  proof (induction g' ys U rule: parentsLoop.induct)
    case (2 g' c cs S)
    then show ?case using 5(2) [of c S cs] by blast
  qed (use 5(1) in blast)
  then show ?case by blast
qed (simp_all add: nextConnections_ok)

section \<open>What the traversals return\<close>

definition edge :: "DirectedGraph \<Rightarrow> INode rel" where
  "edge g = (\<lambda>c. (from_node c, to_node c)) ` set (allConnections g)"

lemma edgeI: "c \<in> set (allConnections g) \<Longrightarrow> (from_node c, to_node c) \<in> edge g"
  by (auto simp: edge_def)

lemma childConnections_eq:
  "nodeExists g n \<Longrightarrow> getDirectChildConnections g n = Inr (filter (\<lambda>c. from_node c = n) (allConnections g))"
  by (simp add: getDirectChildConnections_def allConnections_def)

lemma parentConnections_eq:
  "nodeExists g n \<Longrightarrow> getDirectParentConnections g n = Inr (filter (\<lambda>c. to_node c = n) (allConnections g))"
  by (simp add: getDirectParentConnections_def allConnections_def)

lemma children_step:
  "wf_graph g \<Longrightarrow> c \<in> set (allConnections g) \<Longrightarrow>
     (c, d) \<in> children.step g \<longleftrightarrow> d \<in> set (allConnections g) \<and> from_node d = to_node c"
  using wf_graphD(3) [of g c] by (auto simp: children.step_def childConnections_eq)

lemma parents_step:
  "wf_graph g \<Longrightarrow> c \<in> set (allConnections g) \<Longrightarrow>
     (c, d) \<in> parents.step g \<longleftrightarrow> d \<in> set (allConnections g) \<and> to_node d = from_node c"
  using wf_graphD(3) [of g c] by (auto simp: parents.step_def parentConnections_eq)

lemma children_steps_edge:
  assumes "wf_graph g" "c \<in> set (allConnections g)" "(c, d) \<in> (children.step g)\<^sup>*"
  shows "d \<in> set (allConnections g) \<and> (to_node c, to_node d) \<in> (edge g)\<^sup>*"
  using assms(3)
proof (induction rule: rtrancl_induct)
  case base
  with assms show ?case by simp
next
  case (step d e)
  then have e: "e \<in> set (allConnections g)" "from_node e = to_node d"
    using children_step [OF assms(1)] by auto
  with step.IH edgeI [OF e(1)] show ?case by (auto intro: rtrancl_into_rtrancl)
qed

lemma edge_children_steps:
  assumes "wf_graph g" "(n, m) \<in> (edge g)\<^sup>+"
  shows "\<exists>c d. c \<in> set (allConnections g) \<and> from_node c = n \<and> (c, d) \<in> (children.step g)\<^sup>* \<and> to_node d = m"
  using assms(2)
proof (induction rule: trancl_induct)
  case (base m)
  then show ?case by (auto simp: edge_def)
next
  case (step m k)
  then obtain c d e where
    "c \<in> set (allConnections g)" "from_node c = n" "(c, d) \<in> (children.step g)\<^sup>*" "to_node d = m"
    "e \<in> set (allConnections g)" "from_node e = m" "to_node e = k"
    by (auto simp: edge_def)
  moreover from this have "(d, e) \<in> children.step g"
    using children_step [OF assms(1), of d e] children_steps_edge [OF assms(1), of c d] by simp
  ultimately show ?case by (blast intro: rtrancl_into_rtrancl)
qed

lemma getChildren_correct:
  assumes "wf_graph g" "nodeExists g n"
  shows "\<exists>S. getChildren g n = Inr S \<and> set S = {m. (n, m) \<in> (edge g)\<^sup>+} \<and> distinct S"
proof -
  let ?cs = "filter (\<lambda>c. from_node c = n) (allConnections g)"
  from children.loop_reaches [OF assms(1), of ?cs] obtain S where S:
    "childrenLoop g ?cs [] = Inr S" "set S = to_node ` ((children.step g)\<^sup>* `` set ?cs)" "distinct S"
    by auto
  have "to_node ` ((children.step g)\<^sup>* `` set ?cs) = {m. (n, m) \<in> (edge g)\<^sup>+}" (is "?L = ?R")
  proof
    show "?L \<subseteq> ?R"
    proof
      fix m
      assume "m \<in> ?L"
      then obtain c d where c: "c \<in> set (allConnections g)" "from_node c = n"
        "(c, d) \<in> (children.step g)\<^sup>*" "m = to_node d" by auto
      with children_steps_edge [OF assms(1) c(1,3)] edgeI [OF c(1)] show "m \<in> ?R"
        by (auto intro: rtrancl_into_trancl2)
    qed
    show "?R \<subseteq> ?L" using edge_children_steps [OF assms(1), of n] by fastforce
  qed
  with S show ?thesis
    by (simp add: getChildren_def getChildrenRecursive_def childConnections_eq [OF assms(2)])
qed

lemma parents_steps_edge:
  assumes "wf_graph g" "c \<in> set (allConnections g)" "(c, d) \<in> (parents.step g)\<^sup>*"
  shows "d \<in> set (allConnections g) \<and> (to_node d, to_node c) \<in> (edge g)\<^sup>*"
  using assms(3)
proof (induction rule: rtrancl_induct)
  case base
  with assms show ?case by simp
next
  case (step d e)
  then have e: "e \<in> set (allConnections g)" "to_node e = from_node d"
    using parents_step [OF assms(1)] by auto
  with step.IH edgeI [of d g] show ?case by (auto intro: converse_rtrancl_into_rtrancl)
qed

lemma edge_parents_steps:
  assumes "wf_graph g" "(m, n) \<in> (edge g)\<^sup>*" "d \<in> set (allConnections g)" "to_node d = m"
  shows "\<exists>c. c \<in> set (allConnections g) \<and> to_node c = n \<and> (c, d) \<in> (parents.step g)\<^sup>*"
  using assms(2)
proof (induction rule: rtrancl_induct)
  case base
  with assms show ?case by blast
next
  case (step k n)
  then obtain c e where c: "c \<in> set (allConnections g)" "to_node c = k" "(c, d) \<in> (parents.step g)\<^sup>*"
    and e: "e \<in> set (allConnections g)" "from_node e = k" "to_node e = n"
    by (auto simp: edge_def)
  then have "(e, c) \<in> parents.step g" using parents_step [OF assms(1) e(1)] by simp
  with c e show ?case by (blast intro: converse_rtrancl_into_rtrancl)
qed

lemma getParentConnections_correct:
  assumes "wf_graph g" "nodeExists g n"
  shows "\<exists>cs. getParentConnections g n = Inr cs \<and> distinct cs \<and>
    set cs = {c \<in> set (allConnections g). (to_node c, n) \<in> (edge g)\<^sup>*}"
proof -
  let ?cs = "filter (\<lambda>c. to_node c = n) (allConnections g)"
  from parents.loop_reaches [OF assms(1), of ?cs] obtain S where S:
    "parentsLoop g ?cs [] = Inr S" "set S = (parents.step g)\<^sup>* `` set ?cs" "distinct S"
    by auto
  have "(parents.step g)\<^sup>* `` set ?cs = {c \<in> set (allConnections g). (to_node c, n) \<in> (edge g)\<^sup>*}"
    using parents_steps_edge [OF assms(1)] edge_parents_steps [OF assms(1), of _ n] by fastforce
  with S show ?thesis
    by (simp add: getParentConnections_def getParentConnectionsRecursive_def parentConnections_eq [OF assms(2)])
qed

definition dfs_post ::
  "DirectedGraph \<Rightarrow> (INode \<Rightarrow> bool) \<Rightarrow> INode list \<Rightarrow> INode list \<Rightarrow> INode option \<Rightarrow> INode list \<Rightarrow> bool" where
  "dfs_post g fn ns S r S' \<longleftrightarrow> set S \<subseteq> set S' \<and>
     (case r of
        Some m \<Rightarrow> fn m \<and> (\<exists>n \<in> set ns. (n, m) \<in> (edge g)\<^sup>*)
      | None \<Rightarrow> set ns \<subseteq> set S' \<and>
          (\<forall>m \<in> set S' - set S. \<not> fn m \<and> (\<forall>k. (m, k) \<in> edge g \<longrightarrow> k \<in> set S')))"

lemma dfs_post_simps:
  "dfs_post g fn ns S (Some m) S' \<longleftrightarrow> set S \<subseteq> set S' \<and> fn m \<and> (\<exists>n \<in> set ns. (n, m) \<in> (edge g)\<^sup>*)"
  "dfs_post g fn ns S None S' \<longleftrightarrow> set S \<subseteq> set S' \<and> set ns \<subseteq> set S' \<and>
     (\<forall>m \<in> set S' - set S. \<not> fn m \<and> (\<forall>k. (m, k) \<in> edge g \<longrightarrow> k \<in> set S'))"
  by (simp_all add: dfs_post_def)

lemma dfs_post_Cons: "dfs_post g fn ns S r S' \<Longrightarrow> n \<in> set S \<Longrightarrow> dfs_post g fn (n # ns) S r S'"
  by (cases r) (auto simp: dfs_post_simps)

lemma dfs_post_seq:
  assumes "dfs_post g fn (map to_node cs) (S @ [n]) None S1" "to_node ` set cs = {k. (n, k) \<in> edge g}"
    and "dfs_post g fn ns S1 r S'" "\<not> fn n"
  shows "dfs_post g fn (n # ns) S r S'"
proof (cases r)
  case None
  from assms(1) have p1: "set S \<subseteq> set S1" "n \<in> set S1" "{k. (n, k) \<in> edge g} \<subseteq> set S1"
    "\<forall>m \<in> set S1 - insert n (set S). \<not> fn m \<and> (\<forall>k. (m, k) \<in> edge g \<longrightarrow> k \<in> set S1)"
    unfolding dfs_post_simps set_map assms(2) by simp_all
  from assms(3) have p2: "set S1 \<subseteq> set S'" "set ns \<subseteq> set S'"
    "\<forall>m \<in> set S' - set S1. \<not> fn m \<and> (\<forall>k. (m, k) \<in> edge g \<longrightarrow> k \<in> set S')"
    unfolding None dfs_post_simps by blast+
  have "\<not> fn m \<and> (\<forall>k. (m, k) \<in> edge g \<longrightarrow> k \<in> set S')" if "m \<in> set S' - set S" for m
  proof (cases "m \<in> set S1")
    case m: True
    show ?thesis
    proof (cases "m = n")
      case True
      with assms(4) p1(3) p2(1) show ?thesis by blast
    next
      case False
      with that m p1(4) p2(1) show ?thesis by blast
    qed
  next
    case False
    with that p2(3) show ?thesis by blast
  qed
  moreover have "set S \<subseteq> set S'" "set (n # ns) \<subseteq> set S'" using p1(1,2) p2(1,2) by auto
  ultimately show ?thesis unfolding None dfs_post_simps by blast
next
  case (Some m)
  have "set S \<subseteq> set S1" using assms(1) unfolding dfs_post_simps by simp
  with assms(3) show ?thesis unfolding Some dfs_post_simps by auto
qed

lemma dfsLoop_correct:
  "wf_graph g \<Longrightarrow> \<forall>n \<in> set ns. nodeExists g n \<Longrightarrow>
     \<exists>r S'. dfsLoop g fn ns S = Inr (r, S') \<and> dfs_post g fn ns S r S'"
proof (induction g fn ns S rule: dfsLoop.induct)
  case (1 g fn S)
  then show ?case by (simp add: dfs_post_def)
next
  case (2 g fn n ns S)
  have ns: "\<forall>m \<in> set ns. nodeExists g m" and n: "nodeExists g n" using 2(5) by auto
  show ?case
  proof (cases "n \<in> set S")
    case True
    from "2.IH"(1) [OF True 2(4) ns] obtain r S' where
      "dfsLoop g fn ns S = Inr (r, S')" "dfs_post g fn ns S r S'" by blast
    with True dfs_post_Cons [of g fn ns S r S' n] show ?thesis by simp
  next
    case new: False
    show ?thesis
    proof (cases "fn n")
      case True
      have "dfs_post g fn (n # ns) S (Some n) (S @ [n])"
        using True by (auto simp: dfs_post_simps)
      with new True show ?thesis by simp
    next
      case False
      let ?cs = "filter (\<lambda>c. from_node c = n) (allConnections g)"
      have cs: "getDirectChildConnections g n = Inr ?cs" by (rule childConnections_eq [OF n])
      have ex: "\<forall>m \<in> set (map to_node ?cs). nodeExists g m"
        using wf_graphD(3) [OF 2(4)] by auto
      have succ: "to_node ` set ?cs = {k. (n, k) \<in> edge g}" by (auto simp: edge_def)
      from "2.IH"(2) [OF new False cs 2(4) ex] obtain r1 S1 where
        1: "dfsLoop g fn (map to_node ?cs) (S @ [n]) = Inr (r1, S1)"
        and post1: "dfs_post g fn (map to_node ?cs) (S @ [n]) r1 S1" by blast
      show ?thesis
      proof (cases r1)
        case (Some m)
        with post1 obtain k where "k \<in> to_node ` set ?cs" "(k, m) \<in> (edge g)\<^sup>*" "fn m" "set S \<subseteq> set S1"
          by (auto simp: dfs_post_simps)
        with succ have "dfs_post g fn (n # ns) S (Some m) S1"
          by (auto simp: dfs_post_simps intro: converse_rtrancl_into_rtrancl)
        moreover have "dfsLoop g fn (n # ns) S = Inr (Some m, S1)"
          using new False cs 1 Some by simp
        ultimately show ?thesis by blast
      next
        case None
        from "2.IH"(3) [OF new False cs 1 refl None 2(4) ns] obtain r S' where
          2: "dfsLoop g fn ns S1 = Inr (r, S')" "dfs_post g fn ns S1 r S'" by blast
        have "dfsLoop g fn (n # ns) S = Inr (r, S')"
          using new False cs 1 None 2(1) by simp
        moreover have "dfs_post g fn (n # ns) S r S'"
          by (rule dfs_post_seq [OF _ succ 2(2) False]) (use post1 None in simp)
        ultimately show ?thesis by blast
      qed
    qed
  qed
qed

lemma depthFirstSearch_correct:
  assumes "wf_graph g" "nodeExists g n"
  shows "\<exists>r. depthFirstSearch g n fn = Inr r \<and>
    (case r of Some m \<Rightarrow> fn m \<and> (n, m) \<in> (edge g)\<^sup>* | None \<Rightarrow> \<forall>m. (n, m) \<in> (edge g)\<^sup>* \<longrightarrow> \<not> fn m)"
proof -
  from dfsLoop_correct [OF assms(1), of "[n]" fn "[]"] assms(2) obtain r S where
    r: "dfsLoop g fn [n] [] = Inr (r, S)" and post: "dfs_post g fn [n] [] r S" by auto
  have "\<forall>m. (n, m) \<in> (edge g)\<^sup>* \<longrightarrow> \<not> fn m" if "r = None"
  proof (intro allI impI)
    fix m
    assume "(n, m) \<in> (edge g)\<^sup>*"
    then have "m \<in> set S"
      by (induction rule: rtrancl_induct) (use post that in \<open>auto simp: dfs_post_simps\<close>)
    with post that show "\<not> fn m" by (auto simp: dfs_post_simps)
  qed
  with r post show ?thesis
    by (auto simp: depthFirstSearch_def depthFirstSearchRecursive_def dfs_post_simps split: option.splits)
qed

end
