(* ===== verification/GraphRemoval.thy ===== *)
theory GraphRemoval
  imports GraphProps
begin

text \<open>
  Removing nodes: what \<open>removeNode\<close> does to the connections, and the correctness of
  \<open>filterDisabledNodes\<close>, which bypasses every disabled node. Both hold when no two connections
  share a key (names without a dash guarantee it) and no cycle runs through disabled nodes only;
  the last section shows what the code does otherwise.
\<close>

section \<open>Keys identify connections\<close>

definition dash_free :: "DirectedGraph \<Rightarrow> bool" where
  "dash_free g \<longleftrightarrow> (\<forall>n \<in> set (getNodes g). CHR ''-'' \<notin> set (name n))"

lemma dash_freeD: "wf_graph g \<Longrightarrow> dash_free g \<Longrightarrow> nodeExists g n \<Longrightarrow> CHR ''-'' \<notin> set (name n)"
  by (simp add: dash_free_def nodeExists_iff)

lemma nodeExists_name: "nodeExists g m \<Longrightarrow> nodeExists g n \<Longrightarrow> name m = name n \<Longrightarrow> m = n"
  by (auto simp: nodeExists_def)

lemma makeKey_inj:
  assumes "wf_graph g" "dash_free g"
    and "nodeExists g (from_node c)" "nodeExists g (to_node c)"
    and "nodeExists g (from_node d)" "nodeExists g (to_node d)"
    and "makeKey c = makeKey d"
  shows "c = d"
proof -
  from makeKey_fields [OF dash_freeD [OF assms(1,2,3)] dash_freeD [OF assms(1,2,5)] assms(7)]
  have "from_node c = from_node d" "to_node c = to_node d" "conn_type c = conn_type d"
    "outputIndex c = outputIndex d" "inputIndex c = inputIndex d"
    using nodeExists_name [OF assms(3,5)] nodeExists_name [OF assms(4,6)] by auto
  then show ?thesis by simp
qed

definition ends_in :: "DirectedGraph \<Rightarrow> GraphConnection \<Rightarrow> bool" where
  "ends_in g c \<longleftrightarrow> nodeExists g (from_node c) \<and> nodeExists g (to_node c)"

lemma ends_in_connections: "wf_graph g \<Longrightarrow> c \<in> set (allConnections g) \<Longrightarrow> ends_in g c"
  using wf_graphD(3) by (auto simp: ends_in_def)

lemma getNodes_setConnection [simp]: "getNodes (setConnection c g) = getNodes g"
  by (simp add: getNodes_def)

lemma dash_free_setConnection [simp]: "dash_free (setConnection c g) = dash_free g"
  by (simp add: dash_free_def)

lemma fold_setConnection:
  "wf_graph g \<Longrightarrow> dash_free g \<Longrightarrow> \<forall>c \<in> set cs. ends_in g c \<Longrightarrow>
     wf_graph (fold setConnection cs g) \<and> nodes (fold setConnection cs g) = nodes g \<and>
     set (allConnections (fold setConnection cs g)) = set (allConnections g) \<union> set cs"
proof (induction cs arbitrary: g)
  case Nil
  then show ?case by simp
next
  case (Cons c cs)
  have c: "ends_in g c" using Cons.prems(3) by simp
  have wf: "wf_graph (setConnection c g)"
    using wf_setConnection [OF Cons.prems(1)] c by (simp add: ends_in_def)
  have same: "d = c" if "d \<in> set (allConnections g)" "makeKey d = makeKey c" for d
    using makeKey_inj [OF Cons.prems(1,2)] ends_in_connections [OF Cons.prems(1) that(1)] c that(2)
    by (simp add: ends_in_def)
  have "set (allConnections (setConnection c g)) = insert c (set (allConnections g))"
    unfolding allConnections_setConnection [OF Cons.prems(1)] using same by auto
  moreover have "\<forall>d \<in> set cs. ends_in (setConnection c g) d"
    using Cons.prems(3) by (simp add: ends_in_def)
  ultimately show ?case using Cons.IH [OF wf] Cons.prems(2) by simp
qed

section \<open>removeNode\<close>

lemma set_bypass:
  "set (bypassConnections (Some skip) incoming outgoing) =
     {i\<lparr>to_node := to_node out, inputIndex := inputIndex out\<rparr> |i out.
        i \<in> set incoming \<and> out \<in> set outgoing \<and> \<not> skip i \<and> \<not> skip out}"
  by (auto simp: bypassConnections_def Let_def)

lemma wf_delete_node:
  assumes "wf_graph g" "\<forall>c \<in> set (allConnections g). from_node c \<noteq> n \<and> to_node c \<noteq> n" "nodeExists g n"
  shows "wf_graph (g\<lparr>nodes := AList.delete (name n) (nodes g)\<rparr>)"
proof -
  let ?g = "g\<lparr>nodes := AList.delete (name n) (nodes g)\<rparr>"
  have ex: "nodeExists ?g m" if "nodeExists g m" "m \<noteq> n" for m
    using that nodeExists_name [OF that(1) assms(3)] by (auto simp: nodeExists_def delete_conv')
  have "nodeExists ?g (from_node c) \<and> nodeExists ?g (to_node c)" if "(k, c) \<in> set (connections g)" for k c
  proof -
    from that have c: "c \<in> set (allConnections g)" by (force simp: allConnections_def)
    with assms(2) wf_graphD(3) [OF assms(1) c] show ?thesis by (blast intro: ex)
  qed
  then show ?thesis
    using assms(1) unfolding wf_graph_def
    by (auto simp: distinct_delete set_delete_entries)
qed

lemma nodeExists_delete:
  assumes "wf_graph g" "nodeExists g n"
  shows "nodeExists (g\<lparr>nodes := AList.delete (name n) (nodes g)\<rparr>) m \<longleftrightarrow> nodeExists g m \<and> m \<noteq> n"
  using assms(2) by (auto simp: nodeExists_def delete_conv')

lemma getNodes_delete:
  assumes "wf_graph g" "nodeExists g n"
  shows "set (getNodes (g\<lparr>nodes := AList.delete (name n) (nodes g)\<rparr>)) = set (getNodes g) - {n}"
proof (rule set_eqI)
  fix m
  let ?g = "g\<lparr>nodes := AList.delete (name n) (nodes g)\<rparr>"
  have "m \<in> set (getNodes ?g) \<longleftrightarrow> (\<exists>k. (k, m) \<in> set (nodes g) \<and> k \<noteq> name n)"
    by (force simp: getNodes_def set_delete_entries)
  also have "\<dots> \<longleftrightarrow> (name m, m) \<in> set (nodes g) \<and> name m \<noteq> name n"
    using wf_graphD(5) [OF assms(1)] by metis
  also have "\<dots> \<longleftrightarrow> nodeExists g m \<and> name m \<noteq> name n"
    by (simp add: nodeExists_def map_of_entry [OF wf_graphD(1) [OF assms(1)]])
  also have "\<dots> \<longleftrightarrow> nodeExists g m \<and> m \<noteq> n"
    using nodeExists_name [OF _ assms(2)] by auto
  finally show "m \<in> set (getNodes ?g) \<longleftrightarrow> m \<in> set (getNodes g) - {n}"
    by (simp add: nodeExists_iff [OF assms(1)])
qed

lemma removeNode_plain:
  assumes "wf_graph g" "nodeExists g n" "removeNode n False skip g = Inr (g', r)"
  shows "wf_graph g' \<and> set (getNodes g') = set (getNodes g) - {n} \<and>
    set (allConnections g') = {c \<in> set (allConnections g). from_node c \<noteq> n \<and> to_node c \<noteq> n}"
proof -
  from assms(3) have g': "g' = (dropIncident n g)\<lparr>nodes := AList.delete (name n) (nodes g)\<rparr>"
    by (simp add: removeNode_def)
  have wf: "wf_graph (dropIncident n g)" by (rule wf_dropIncident [OF assms(1)])
  have nodes: "nodes (dropIncident n g) = nodes g" by (simp add: dropIncident_def)
  have "wf_graph g'"
    using wf_delete_node [OF wf, of n] assms(2) unfolding g'
    by (simp add: nodes allConnections_dropIncident)
  moreover have "set (getNodes g') = set (getNodes g) - {n}"
    using getNodes_delete [OF wf, of n] assms(2) unfolding g' by (simp add: nodes getNodes_def)
  moreover have "set (allConnections g') = set (allConnections (dropIncident n g))"
    unfolding g' by (simp add: allConnections_def)
  ultimately show ?thesis by (simp add: allConnections_dropIncident)
qed

text \<open>The main connections of a graph as a relation on nodes.\<close>

definition main_edge :: "DirectedGraph \<Rightarrow> INode rel" where
  "main_edge g = {(from_node c, to_node c) |c. c \<in> set (allConnections g) \<and> conn_type c = Main}"

definition not_main :: "GraphConnection \<Rightarrow> bool" where
  "not_main c \<longleftrightarrow> conn_type c \<noteq> Main"

lemma removeNode_reconnect:
  assumes "wf_graph g" "dash_free g" "nodeExists g n" "(n, n) \<notin> main_edge g"
  shows "\<exists>g' new. removeNode n True (Some not_main) g = Inr (g', Some new) \<and> wf_graph g' \<and> dash_free g' \<and>
    set (getNodes g') = set (getNodes g) - {n} \<and>
    set (allConnections g') = {c \<in> set (allConnections g). from_node c \<noteq> n \<and> to_node c \<noteq> n} \<union>
      {i\<lparr>to_node := to_node out, inputIndex := inputIndex out\<rparr> |i out.
        i \<in> set (allConnections g) \<and> out \<in> set (allConnections g) \<and> to_node i = n \<and> from_node out = n \<and>
        conn_type i = Main \<and> conn_type out = Main}"
proof -
  let ?inc = "filter (\<lambda>c. to_node c = n) (allConnections g)"
  let ?out = "filter (\<lambda>c. from_node c = n) (allConnections g)"
  define new where "new = bypassConnections (Some not_main) ?inc ?out"
  define d where "d = dropIncident n g"
  define g1 where "g1 = fold setConnection new d"
  define g' where "g' = g1\<lparr>nodes := AList.delete (name n) (nodes g1)\<rparr>"
  have set_new: "set new = {i\<lparr>to_node := to_node out, inputIndex := inputIndex out\<rparr> |i out.
      i \<in> set (allConnections g) \<and> out \<in> set (allConnections g) \<and> to_node i = n \<and> from_node out = n \<and>
      conn_type i = Main \<and> conn_type out = Main}"
    unfolding new_def set_bypass by (auto simp: not_main_def)
  have ends: "ends_in d c \<and> from_node c \<noteq> n \<and> to_node c \<noteq> n" if "c \<in> set new" for c
  proof -
    from that obtain i out where io: "c = i\<lparr>to_node := to_node out, inputIndex := inputIndex out\<rparr>"
      "i \<in> set (allConnections g)" "out \<in> set (allConnections g)" "to_node i = n" "from_node out = n"
      "conn_type i = Main" "conn_type out = Main" unfolding set_new by blast
    then have "from_node i \<noteq> n" "to_node out \<noteq> n" using assms(4) by (auto simp: main_edge_def)
    with io wf_graphD(3) [OF assms(1) io(2)] wf_graphD(3) [OF assms(1) io(3)] show ?thesis
      by (simp add: ends_in_def d_def)
  qed
  have wfd: "wf_graph d" "dash_free d" "nodes d = nodes g"
    using wf_dropIncident [OF assms(1)] assms(2)
    by (simp_all add: d_def dropIncident_def dash_free_def getNodes_def)
  from fold_setConnection [OF wfd(1,2), of new] ends
  have g1: "wf_graph g1" "nodes g1 = nodes g" "set (allConnections g1) = set (allConnections d) \<union> set new"
    by (auto simp: g1_def wfd(3))
  have ex1: "nodeExists g1 n" using assms(3) g1(2) by (simp add: nodeExists_def)
  have "removeNode n True (Some not_main) g = Inr (g', Some new)"
    by (simp add: removeNode_def parentConnections_eq [OF assms(3)] childConnections_eq [OF assms(3)]
        Let_def g'_def g1_def d_def new_def)
  moreover have "wf_graph g'"
    unfolding g'_def
  proof (rule wf_delete_node [OF g1(1) _ ex1])
    show "\<forall>c \<in> set (allConnections g1). from_node c \<noteq> n \<and> to_node c \<noteq> n"
      using ends unfolding g1(3) d_def allConnections_dropIncident by blast
  qed
  moreover have nds: "set (getNodes g') = set (getNodes g) - {n}"
    using getNodes_delete [OF g1(1) ex1] g1(2) by (simp add: g'_def getNodes_def)
  moreover have "dash_free g'" using assms(2) nds by (simp add: dash_free_def)
  moreover have "set (allConnections g') = set (allConnections d) \<union> set new"
    using g1(3) by (simp add: g'_def allConnections_def)
  ultimately show ?thesis
    unfolding set_new d_def allConnections_dropIncident by blast
qed

section \<open>clone\<close>

definition put_all :: "('k \<times> 'v) list \<Rightarrow> ('k \<times> 'v) list \<Rightarrow> ('k \<times> 'v) list" where
  "put_all kvs m = fold (\<lambda>(k, v). AList.update k v) kvs m"

lemma put_all_simps [simp]:
  "put_all [] m = m"
  "put_all (kv # kvs) m = put_all kvs (AList.update (fst kv) (snd kv) m)"
  by (simp_all add: put_all_def case_prod_beta)

lemma put_all_fresh: "distinct_keys (m @ kvs) \<Longrightarrow> put_all kvs m = m @ kvs"
proof (induction kvs arbitrary: m)
  case Nil
  then show ?case by simp
next
  case (Cons kv kvs)
  then have "fst kv \<notin> fst ` set m" by (simp only: map_append distinct_append list.map list.set set_map) blast
  then have "AList.update (fst kv) (snd kv) m = m @ [kv]" by (simp add: update_snoc)
  moreover have "put_all kvs (m @ [kv]) = (m @ [kv]) @ kvs"
    by (rule Cons.IH) (use Cons.prems in simp)
  ultimately show ?case by simp
qed

lemma addNodes_eq: "addNodes ns g = g\<lparr>nodes := put_all (map (\<lambda>n. (name n, n)) ns) (nodes g)\<rparr>"
  unfolding addNodes_def by (induction ns arbitrary: g) (simp_all add: addNode_def)

lemma entries_by_name:
  "\<forall>p \<in> set m. fst p = f (snd p) \<Longrightarrow> map (\<lambda>n. (f n, n)) (map snd m) = m"
  by (induction m) auto

lemma addConnections_as_input:
  "\<forall>c \<in> set cs. ends_in g c \<Longrightarrow> addConnections (map as_input cs) g =
     Inr (g\<lparr>connections := put_all (map (\<lambda>c. (makeKey c, c)) cs) (connections g)\<rparr>)"
proof (induction cs arbitrary: g)
  case Nil
  then show ?case by (simp add: addConnections_def)
next
  case (Cons c cs)
  then have "addConnection (as_input c) g = Inr (setConnection c g)"
    by (simp add: addConnection_as_input ends_in_def)
  moreover have "\<forall>d \<in> set cs. ends_in (setConnection c g) d" using Cons.prems by (simp add: ends_in_def)
  ultimately show ?case using Cons.IH [of "setConnection c g"]
    by (simp add: addConnections_def) (simp add: setConnection_def)
qed

lemma clone_same:
  assumes "wf_graph g"
  shows "clone g = Inr g"
proof -
  have "put_all (map (\<lambda>n. (name n, n)) (getNodes g)) [] = nodes g"
    using put_all_fresh [of "[]" "nodes g"] entries_by_name [of "nodes g" name] wf_graphD(1,5) [OF assms]
    by (simp add: getNodes_def)
  then have g1: "addNodes (getNodes g) emptyGraph = \<lparr>nodes = nodes g, connections = []\<rparr>"
    by (simp add: addNodes_eq emptyGraph_def)
  have "\<forall>c \<in> set (allConnections g). ends_in \<lparr>nodes = nodes g, connections = []\<rparr> c"
    using ends_in_connections [OF assms] by (simp add: ends_in_def nodeExists_def)
  moreover have "put_all (map (\<lambda>c. (makeKey c, c)) (allConnections g)) [] = connections g"
    using put_all_fresh [of "[]" "connections g"] entries_by_name [of "connections g" makeKey]
      wf_graphD(2,4) [OF assms] by (simp add: allConnections_def)
  moreover have "getConnections g None = allConnections g" by (simp add: getConnections_def allConnections_def)
  ultimately show ?thesis by (simp add: clone_def g1 addConnections_as_input)
qed

section \<open>filterDisabledNodes\<close>

definition bypass_rel :: "'a rel \<Rightarrow> 'a \<Rightarrow> 'a rel" where
  "bypass_rel R n = {(u, v). u \<noteq> n \<and> v \<noteq> n \<and> ((u, v) \<in> R \<or> (u, n) \<in> R \<and> (n, v) \<in> R)}"

lemma bypass_rel_path:
  assumes "(u, x) \<in> R\<^sup>*" "u \<noteq> n"
  shows "(x \<noteq> n \<longrightarrow> (u, x) \<in> (bypass_rel R n)\<^sup>*) \<and>
    (x = n \<longrightarrow> (\<exists>w. w \<noteq> n \<and> (u, w) \<in> (bypass_rel R n)\<^sup>* \<and> (w, n) \<in> R))"
  using assms(1)
proof (induction rule: rtrancl_induct)
  case base
  with assms(2) show ?case by simp
next
  case (step x y)
  show ?case
  proof (cases "x = n")
    case False
    with step have "(u, x) \<in> (bypass_rel R n)\<^sup>*" by simp
    moreover have "(x, y) \<in> bypass_rel R n" if "y \<noteq> n"
      using step(2) False that by (simp add: bypass_rel_def)
    ultimately show ?thesis using step(2) False by (auto intro: rtrancl_into_rtrancl)
  next
    case True
    with step obtain w where w: "w \<noteq> n" "(u, w) \<in> (bypass_rel R n)\<^sup>*" "(w, n) \<in> R" by auto
    moreover have "(w, y) \<in> bypass_rel R n" if "y \<noteq> n"
      using w step(2) True that by (simp add: bypass_rel_def)
    ultimately show ?thesis by (auto intro: rtrancl_into_rtrancl)
  qed
qed

lemma bypass_rel_rtrancl:
  assumes "u \<noteq> n" "v \<noteq> n"
  shows "(u, v) \<in> (bypass_rel R n)\<^sup>* \<longleftrightarrow> (u, v) \<in> R\<^sup>*"
proof
  have "bypass_rel R n \<subseteq> R\<^sup>*" by (auto simp: bypass_rel_def)
  then show "(u, v) \<in> (bypass_rel R n)\<^sup>* \<Longrightarrow> (u, v) \<in> R\<^sup>*"
    using rtrancl_subset_rtrancl by blast
qed (use bypass_rel_path [of u v R n] assms in simp)

lemma bypass_rel_acyclic:
  assumes "acyclic (R \<inter> D \<times> D)" "n \<in> D"
  shows "acyclic (bypass_rel R n \<inter> (D - {n}) \<times> (D - {n}))"
proof -
  have "bypass_rel R n \<inter> (D - {n}) \<times> (D - {n}) \<subseteq> (R \<inter> D \<times> D)\<^sup>+"
  proof (rule subrelI)
    fix u v
    assume uv: "(u, v) \<in> bypass_rel R n \<inter> (D - {n}) \<times> (D - {n})"
    then consider "(u, v) \<in> R" | "(u, n) \<in> R" "(n, v) \<in> R" by (auto simp: bypass_rel_def)
    then show "(u, v) \<in> (R \<inter> D \<times> D)\<^sup>+"
    proof cases
      case 1
      with uv show ?thesis by blast
    next
      case 2
      with uv assms(2) have "(u, n) \<in> R \<inter> D \<times> D" "(n, v) \<in> R \<inter> D \<times> D" by auto
      then show ?thesis by (rule trancl.intros(2) [OF trancl.intros(1)])
    qed
  qed
  then have "(bypass_rel R n \<inter> (D - {n}) \<times> (D - {n}))\<^sup>+ \<subseteq> (R \<inter> D \<times> D)\<^sup>+"
    using trancl_mono_subset trancl_id [OF trans_trancl] by metis
  with assms(1) show ?thesis by (auto simp: acyclic_def)
qed

lemma main_edge_removed:
  assumes "wf_graph g" "dash_free g" "nodeExists g n" "(n, n) \<notin> main_edge g"
    and "removeNode n True (Some not_main) g = Inr (g', new)"
  shows "main_edge g' = bypass_rel (main_edge g) n"
proof -
  let ?C = "set (allConnections g)"
  from removeNode_reconnect [OF assms(1-4)] assms(5)
  have C': "set (allConnections g') = {c \<in> ?C. from_node c \<noteq> n \<and> to_node c \<noteq> n} \<union>
      {i\<lparr>to_node := to_node out, inputIndex := inputIndex out\<rparr> |i out.
        i \<in> ?C \<and> out \<in> ?C \<and> to_node i = n \<and> from_node out = n \<and> conn_type i = Main \<and> conn_type out = Main}"
    by auto
  show ?thesis
  proof (rule set_eqI, rule iffI)
    fix p
    assume "p \<in> main_edge g'"
    then obtain c where c: "p = (from_node c, to_node c)" "conn_type c = Main" "c \<in> set (allConnections g')"
      by (auto simp: main_edge_def)
    from c(3) consider "c \<in> ?C" "from_node c \<noteq> n" "to_node c \<noteq> n"
      | i out where "c = i\<lparr>to_node := to_node out, inputIndex := inputIndex out\<rparr>" "i \<in> ?C" "out \<in> ?C"
        "to_node i = n" "from_node out = n" "conn_type i = Main" "conn_type out = Main"
      unfolding C' by blast
    then show "p \<in> bypass_rel (main_edge g) n"
    proof cases
      case 1
      with c show ?thesis by (auto simp: bypass_rel_def main_edge_def)
    next
      case 2
      then have e: "(from_node i, n) \<in> main_edge g" "(n, to_node out) \<in> main_edge g"
        by (force simp: main_edge_def)+
      with assms(4) have "from_node i \<noteq> n" "to_node out \<noteq> n" by auto
      with e c(1) 2(1) show ?thesis by (simp add: bypass_rel_def)
    qed
  next
    fix p
    assume "p \<in> bypass_rel (main_edge g) n"
    then obtain u v where p: "p = (u, v)" "u \<noteq> n" "v \<noteq> n"
      and "(u, v) \<in> main_edge g \<or> (u, n) \<in> main_edge g \<and> (n, v) \<in> main_edge g"
      by (auto simp: bypass_rel_def)
    then consider c where "c \<in> ?C" "conn_type c = Main" "from_node c = u" "to_node c = v"
      | i out where "i \<in> ?C" "conn_type i = Main" "from_node i = u" "to_node i = n"
        "out \<in> ?C" "conn_type out = Main" "from_node out = n" "to_node out = v"
      by (auto simp: main_edge_def)
    then show "p \<in> main_edge g'"
    proof cases
      case 1
      with p have "c \<in> set (allConnections g')" unfolding C' by blast
      with 1 p show ?thesis by (auto simp: main_edge_def)
    next
      case 2
      define c where "c = i\<lparr>to_node := to_node out, inputIndex := inputIndex out\<rparr>"
      have "c \<in> set (allConnections g')" unfolding C' c_def using 2 by blast
      moreover have "from_node c = u" "to_node c = v" "conn_type c = Main" using 2 by (simp_all add: c_def)
      ultimately show ?thesis using p by (auto simp: main_edge_def)
    qed
  qed
qed

definition disabled_nodes :: "DirectedGraph \<Rightarrow> INode set" where
  "disabled_nodes g = {n \<in> set (getNodes g). isDisabled n}"

definition drop_disabled :: "INode \<Rightarrow> DirectedGraph \<Rightarrow> js_error + DirectedGraph" where
  "drop_disabled n g = (if isDisabled n
     then rbind (removeNode n True (Some not_main) g) (\<lambda>(g', _). Inr g') else Inr g)"

text \<open>Reachability over main connections between enabled nodes is the same in both graphs.\<close>

definition same_reach :: "DirectedGraph \<Rightarrow> DirectedGraph \<Rightarrow> bool" where
  "same_reach g' g = (\<forall>u v. \<not> isDisabled u \<and> \<not> isDisabled v \<longrightarrow>
     (u, v) \<in> (main_edge g')\<^sup>* \<longleftrightarrow> (u, v) \<in> (main_edge g)\<^sup>*)"

lemma same_reach_refl: "same_reach g g"
  by (simp add: same_reach_def)

lemma same_reach_trans: "same_reach g2 g1 \<Longrightarrow> same_reach g1 g \<Longrightarrow> same_reach g2 g"
  by (simp add: same_reach_def)

definition disabled_acyclic :: "DirectedGraph \<Rightarrow> bool" where
  "disabled_acyclic g = acyclic (main_edge g \<inter> disabled_nodes g \<times> disabled_nodes g)"

lemma drop_disabled_step:
  assumes "wf_graph g" "dash_free g" "n \<in> set (getNodes g)" "disabled_acyclic g" "isDisabled n"
  shows "\<exists>g1. drop_disabled n g = Inr g1 \<and> wf_graph g1 \<and> dash_free g1 \<and>
    set (getNodes g1) = set (getNodes g) - {n} \<and> disabled_acyclic g1 \<and> same_reach g1 g"
proof -
  have n: "n \<in> disabled_nodes g" "nodeExists g n"
    using assms(1,3,5) by (simp_all add: disabled_nodes_def nodeExists_iff)
  have nn: "(n, n) \<notin> main_edge g"
  proof
    assume "(n, n) \<in> main_edge g"
    with n(1) have "(n, n) \<in> main_edge g \<inter> disabled_nodes g \<times> disabled_nodes g" by simp
    then have "(n, n) \<in> (main_edge g \<inter> disabled_nodes g \<times> disabled_nodes g)\<^sup>+" by (rule r_into_trancl)
    with assms(4) show False by (simp add: disabled_acyclic_def acyclic_def)
  qed
  from removeNode_reconnect [OF assms(1,2) n(2) nn] obtain g1 new where
    g1: "removeNode n True (Some not_main) g = Inr (g1, Some new)" "wf_graph g1" "dash_free g1"
    "set (getNodes g1) = set (getNodes g) - {n}"
    by (elim exE conjE) (rule that)
  note e = main_edge_removed [OF assms(1,2) n(2) nn g1(1)]
  have dis: "disabled_nodes g1 = disabled_nodes g - {n}" unfolding disabled_nodes_def g1(4) by blast
  have ac: "disabled_acyclic g1"
    unfolding disabled_acyclic_def dis e
    by (rule bypass_rel_acyclic [OF assms(4) [unfolded disabled_acyclic_def] n(1)])
  have "same_reach g1 g"
    unfolding same_reach_def e
  proof (intro allI impI)
    fix u v assume "\<not> isDisabled u \<and> \<not> isDisabled v"
    with assms(5) have "u \<noteq> n" "v \<noteq> n" by blast+
    then show "(u, v) \<in> (bypass_rel (main_edge g) n)\<^sup>* \<longleftrightarrow> (u, v) \<in> (main_edge g)\<^sup>*"
      by (rule bypass_rel_rtrancl)
  qed
  moreover have "drop_disabled n g = Inr g1" using assms(5) g1(1) by (simp add: drop_disabled_def)
  ultimately show ?thesis using g1(2,3,4) ac by (intro exI [of _ g1] conjI)
qed

lemma drop_disabled_loop:
  "wf_graph g \<Longrightarrow> dash_free g \<Longrightarrow> distinct ns \<Longrightarrow> set ns \<subseteq> set (getNodes g) \<Longrightarrow> disabled_acyclic g \<Longrightarrow>
     \<exists>g'. rfold drop_disabled ns g = Inr g' \<and> wf_graph g' \<and> dash_free g' \<and>
       set (getNodes g') = set (getNodes g) - {n \<in> set ns. isDisabled n} \<and> same_reach g' g"
proof (induction ns arbitrary: g)
  case Nil
  then show ?case by (simp add: same_reach_refl)
next
  case (Cons n ns)
  have sub: "set ns \<subseteq> set (getNodes g)" "distinct ns" using Cons.prems(3,4) by simp_all
  show ?case
  proof (cases "isDisabled n")
    case False
    then have e: "{m \<in> set (n # ns). isDisabled m} = {m \<in> set ns. isDisabled m}" by auto
    have "rfold drop_disabled (n # ns) g = rfold drop_disabled ns g"
      using False by (simp add: drop_disabled_def)
    then show ?thesis unfolding e using Cons.IH [OF Cons.prems(1,2) sub(2,1) Cons.prems(5)] by simp
  next
    case True
    have "n \<in> set (getNodes g)" using Cons.prems(4) by simp
    from drop_disabled_step [OF Cons.prems(1,2) this Cons.prems(5) True] obtain g1 where
      g1: "drop_disabled n g = Inr g1" "wf_graph g1" "dash_free g1"
      "set (getNodes g1) = set (getNodes g) - {n}" "disabled_acyclic g1" "same_reach g1 g" by blast
    have "set ns \<subseteq> set (getNodes g1)" unfolding g1(4) using Cons.prems(3) sub(1) by auto
    from Cons.IH [OF g1(2,3) sub(2) this g1(5)] obtain g' where
      g': "rfold drop_disabled ns g1 = Inr g'" "wf_graph g'" "dash_free g'"
      "set (getNodes g') = set (getNodes g1) - {m \<in> set ns. isDisabled m}" "same_reach g' g1" by blast
    have "rfold drop_disabled (n # ns) g = Inr g'" using g1(1) g'(1) by simp
    moreover have "set (getNodes g') = set (getNodes g) - {m \<in> set (n # ns). isDisabled m}"
      unfolding g'(4) g1(4) using True by auto
    moreover have "same_reach g' g" using g'(5) g1(6) by (rule same_reach_trans)
    ultimately show ?thesis using g'(2,3) by blast
  qed
qed

lemma filterDisabledNodes_eq:
  assumes "wf_graph g"
  shows "filterDisabledNodes g = rfold drop_disabled (getNodes g) g"
proof -
  have nm: "(\<lambda>c. conn_type c \<noteq> Main) = not_main" by (simp add: fun_eq_iff not_main_def)
  have "drop_disabled = (\<lambda>n g'. if isDisabled n
      then rbind (removeNode n True (Some not_main) g') (\<lambda>(g'', _). Inr g'') else Inr g')"
    by (simp add: drop_disabled_def fun_eq_iff)
  then show ?thesis using assms unfolding filterDisabledNodes_def nm by (simp add: clone_same)
qed

lemma distinct_getNodes: "wf_graph g \<Longrightarrow> distinct (getNodes g)"
proof -
  assume wf: "wf_graph g"
  have "map name (getNodes g) = map fst (nodes g)"
    using wf_graphD(5) [OF wf] by (auto simp: getNodes_def)
  with wf_graphD(1) [OF wf] show ?thesis by (metis distinct_map)
qed

lemma filterDisabledNodes_total:
  assumes "wf_graph g" "dash_free g" "disabled_acyclic g"
  shows "\<exists>g'. filterDisabledNodes g = Inr g' \<and> wf_graph g' \<and>
    set (getNodes g') = {n \<in> set (getNodes g). \<not> isDisabled n} \<and> same_reach g' g"
proof -
  obtain g' where g': "rfold drop_disabled (getNodes g) g = Inr g'" "wf_graph g'"
    "set (getNodes g') = set (getNodes g) - {n \<in> set (getNodes g). isDisabled n}" "same_reach g' g"
    using drop_disabled_loop [OF assms(1,2) distinct_getNodes [OF assms(1)] order_refl assms(3)] by blast
  have "set (getNodes g') = {n \<in> set (getNodes g). \<not> isDisabled n}" unfolding g'(3) by blast
  with g' show ?thesis unfolding filterDisabledNodes_eq [OF assms(1)] by blast
qed

end
