(* ===== verification/GraphTheorems.thy ===== *)
theory GraphTheorems
  imports GraphRemoval
begin

text \<open>
  The properties of \<^verbatim>\<open>directed-graph.ts\<close> and \<^verbatim>\<open>filter-disabled-nodes.ts\<close>: what the traversals
  return, what bypassing disabled nodes preserves, and three places where the code and what it
  promises part: the components of \<open>getStronglyConnectedComponents\<close>, the keys of \<open>makeKey\<close> and
  \<open>toIConnections\<close> for a node with outgoing connections of two types.
\<close>

section \<open>Sample graphs\<close>

definition link :: "INode \<Rightarrow> INode \<Rightarrow> ConnectionInput" where
  "link a b = \<lparr>in_from = a, in_to = b, in_type = None, in_outputIndex = None, in_inputIndex = None\<rparr>"

definition graph_of :: "INode list \<Rightarrow> ConnectionInput list \<Rightarrow> DirectedGraph" where
  "graph_of ns cs = (case addConnections cs (addNodes ns emptyGraph) of Inr g \<Rightarrow> g | Inl _ \<Rightarrow> emptyGraph)"

definition nA :: INode where "nA = plainNode 1 ''A'' ''set''"
definition nB :: INode where "nB = plainNode 2 ''B'' ''set''"
definition nC :: INode where "nC = plainNode 3 ''C'' ''set''"
definition nD :: INode where "nD = (plainNode 4 ''D'' ''set'')\<lparr>disabled := Some True\<rparr>"

text \<open>\<open>A\<close> to \<open>D\<close> to \<open>B\<close> to \<open>C\<close>, where \<open>D\<close> is disabled.\<close>

definition chainGraph :: DirectedGraph where
  "chainGraph = graph_of [nA, nD, nB, nC] [link nA nD, link nD nB, link nB nC]"

lemmas sample_defs = graph_of_def link_def nA_def nB_def nC_def nD_def plainNode_def

lemma chainGraph_wf: "wf_graph chainGraph" "dash_free chainGraph"
  by code_simp+

lemma chainGraph_nodes: "nodeExists chainGraph nA" "nodeExists chainGraph nC"
  by code_simp+

lemma chainGraph_disabled: "disabled_acyclic chainGraph"
proof -
  have "\<forall>n \<in> set (getNodes chainGraph). isDisabled n \<longrightarrow> n = nD" by code_simp
  then have "disabled_nodes chainGraph \<subseteq> {nD}" unfolding disabled_nodes_def by blast
  moreover have "\<forall>c \<in> set (allConnections chainGraph). \<not> (from_node c = nD \<and> to_node c = nD)" by code_simp
  then have "(nD, nD) \<notin> main_edge chainGraph" by (auto simp: main_edge_def)
  ultimately have "main_edge chainGraph \<inter> disabled_nodes chainGraph \<times> disabled_nodes chainGraph = {}" by blast
  then show ?thesis by (simp add: disabled_acyclic_def acyclic_def)
qed

section \<open>Traversals\<close>

text \<open>\<open>getChildren\<close> never fails on a node of a well-formed graph and returns, without
  duplicates, exactly the nodes reachable from it over one or more connections.\<close>

theorem getChildren_reachable:
  assumes "wf_graph g" "nodeExists g n"
  shows "\<exists>cs. getChildren g n = Inr cs \<and> distinct cs \<and> set cs = {m. (n, m) \<in> (edge g)\<^sup>+}"
  using getChildren_correct [OF assms] by blast

lemma getChildren_reachable_witness:
  "getChildren chainGraph nA = Inr [nD, nB, nC] \<and> {m. (nA, m) \<in> (edge chainGraph)\<^sup>+} = {nD, nB, nC}"
proof -
  have "getChildren chainGraph nA = Inr [nD, nB, nC]" by code_simp
  with getChildren_reachable [OF chainGraph_wf(1) chainGraph_nodes(1)] show ?thesis by auto
qed

text \<open>\<open>getParentConnections\<close> never fails on a node of a well-formed graph and returns, without
  duplicates, exactly the connections of the graph that lie on a path into the node.\<close>

theorem getParentConnections_complete:
  assumes "wf_graph g" "nodeExists g n"
  shows "\<exists>cs. getParentConnections g n = Inr cs \<and> distinct cs \<and>
    set cs = {c \<in> set (map snd (connections g)). (to_node c, n) \<in> (edge g)\<^sup>*}"
  using getParentConnections_correct [OF assms] by (simp add: allConnections_def)

lemma getParentConnections_complete_witness:
  "\<exists>cs. getParentConnections chainGraph nC = Inr cs \<and> distinct cs \<and>
    set cs = {c \<in> set (map snd (connections chainGraph)). (to_node c, nC) \<in> (edge chainGraph)\<^sup>*}"
  by (rule getParentConnections_complete [OF chainGraph_wf(1) chainGraph_nodes(2)])

text \<open>\<open>depthFirstSearch\<close> is a correct search: a node it returns satisfies the predicate and is
  reachable from the start; if it returns nothing, no reachable node satisfies the predicate.\<close>

theorem depthFirstSearch_finds:
  assumes "wf_graph g" "nodeExists g start"
  shows "\<exists>r. depthFirstSearch g start fn = Inr r \<and>
    (case r of Some m \<Rightarrow> fn m \<and> (start, m) \<in> (edge g)\<^sup>*
     | None \<Rightarrow> \<forall>m. (start, m) \<in> (edge g)\<^sup>* \<longrightarrow> \<not> fn m)"
  using depthFirstSearch_correct [OF assms] .

lemma depthFirstSearch_finds_witness:
  "depthFirstSearch chainGraph nA (\<lambda>n. n = nB) = Inr (Some nB) \<and> (nA, nB) \<in> (edge chainGraph)\<^sup>*"
proof -
  have "depthFirstSearch chainGraph nA (\<lambda>n. n = nB) = Inr (Some nB)" by code_simp
  with depthFirstSearch_finds [OF chainGraph_wf(1) chainGraph_nodes(1), of "\<lambda>n. n = nB"] show ?thesis by simp
qed

section \<open>Disabled nodes\<close>

text \<open>C35: \<open>filterDisabledNodes\<close> removes exactly the disabled nodes and keeps reachability over
  main connections between all the others, provided no node name has a dash in it (\<open>makeKey\<close> is
  then injective) and the disabled nodes form no cycle among themselves.\<close>

theorem filterDisabledNodes_reachability:
  assumes "wf_graph g" "dash_free g" "disabled_acyclic g"
  shows "\<exists>g'. filterDisabledNodes g = Inr g' \<and> wf_graph g' \<and>
    set (getNodes g') = {n \<in> set (getNodes g). \<not> isDisabled n} \<and>
    (\<forall>u v. \<not> isDisabled u \<and> \<not> isDisabled v \<longrightarrow>
       (u, v) \<in> (main_edge g')\<^sup>* \<longleftrightarrow> (u, v) \<in> (main_edge g)\<^sup>*)"
  using filterDisabledNodes_total [OF assms] by (simp add: same_reach_def)

lemma filterDisabledNodes_reachability_witness:
  "\<exists>g'. filterDisabledNodes chainGraph = Inr g' \<and> wf_graph g' \<and>
    set (getNodes g') = {n \<in> set (getNodes chainGraph). \<not> isDisabled n} \<and>
    (\<forall>u v. \<not> isDisabled u \<and> \<not> isDisabled v \<longrightarrow>
       (u, v) \<in> (main_edge g')\<^sup>* \<longleftrightarrow> (u, v) \<in> (main_edge chainGraph)\<^sup>*)"
  by (rule filterDisabledNodes_reachability [OF chainGraph_wf chainGraph_disabled])

section \<open>Strongly connected components\<close>

definition lostGraph :: DirectedGraph where
  "lostGraph = graph_of [nA, nB, nC] [link nA nB, link nB nC, link nC nB, link nB nA]"

text \<open>\<open>getStronglyConnectedComponents\<close> loses components. It pops the stack while the low-link
  value of the top is the id of the root, but a member of the component may keep a larger low-link
  value: on the three nodes \<open>A\<close>, \<open>B\<close>, \<open>C\<close>, which all reach each other, it returns no component.\<close>

theorem getStronglyConnectedComponents_loses_cycle:
  "getStronglyConnectedComponents lostGraph = Inr [] \<and> wf_graph lostGraph \<and>
   getChildren lostGraph nA = Inr [nB, nC, nA] \<and> getChildren lostGraph nB = Inr [nC, nB, nA] \<and>
   getChildren lostGraph nC = Inr [nB, nC, nA]"
  by (intro conjI) code_simp+

section \<open>Keys of connections\<close>

text \<open>Connections that leave nodes without a dash in their names have different keys unless
  their endpoint names, types and indexes all agree, so \<open>addConnection\<close> never overwrites a different
  connection.\<close>

theorem makeKey_separates:
  assumes "makeKey c = makeKey d"
    and "CHR ''-'' \<notin> set (name (from_node c)) \<union> set (name (from_node d))"
  shows "name (from_node c) = name (from_node d) \<and> name (to_node c) = name (to_node d) \<and>
    conn_type c = conn_type d \<and> outputIndex c = outputIndex d \<and> inputIndex c = inputIndex d"
  using makeKey_fields [of c d] assms by simp

definition lAB :: GraphConnection where
  "lAB = \<lparr>from_node = nA, to_node = nB, conn_type = Main, outputIndex = 0, inputIndex = 1\<rparr>"

lemma makeKey_separates_witness:
  "makeKey lAB = ''A-main-0-1-B'' \<and>
   (let d = lAB\<lparr>to_node := plainNode 9 ''B'' ''merge''\<rparr> in makeKey d = makeKey lAB \<and> inputIndex d = inputIndex lAB)"
proof -
  define d where "d = lAB\<lparr>to_node := plainNode 9 ''B'' ''merge''\<rparr>"
  have "makeKey lAB = ''A-main-0-1-B''" by code_simp
  moreover have k: "makeKey d = makeKey lAB" unfolding d_def by code_simp
  have "CHR ''-'' \<notin> set (name (from_node d)) \<union> set (name (from_node lAB))"
    by (simp add: d_def lAB_def nA_def plainNode_def)
  from makeKey_separates [OF k this] have "inputIndex d = inputIndex lAB" by simp
  ultimately show ?thesis using k by (simp add: d_def Let_def)
qed

definition dashy :: "INode list" where
  "dashy = [plainNode 1 ''a'' ''set'', plainNode 2 ''b-main-0-0-c'' ''set'',
    plainNode 3 ''a-main-0-0-b'' ''set'', plainNode 4 ''c'' ''set'']"

text \<open>Without that assumption the key is ambiguous: of the connections from \<open>a\<close> to
  \<open>b-main-0-0-c\<close> and from \<open>a-main-0-0-b\<close> to \<open>c\<close> the second replaces the first, so \<open>b-main-0-0-c\<close>
  has no parent left.\<close>

theorem addConnection_overwrites_dashed_names:
  "\<exists>g. addConnections [link (dashy ! 0) (dashy ! 1), link (dashy ! 2) (dashy ! 3)] (addNodes dashy emptyGraph) = Inr g \<and>
     length (getConnections g None) = 1 \<and> getDirectParentConnections g (dashy ! 1) = Inr []"
proof -
  let ?r = "addConnections [link (dashy ! 0) (dashy ! 1), link (dashy ! 2) (dashy ! 3)] (addNodes dashy emptyGraph)"
  have "(case ?r of Inl _ \<Rightarrow> False
    | Inr g \<Rightarrow> length (getConnections g None) = 1 \<and> getDirectParentConnections g (dashy ! 1) = Inr [])"
    by code_simp
  then show ?thesis by (auto split: sum.splits)
qed

section \<open>Export\<close>

text \<open>What \<open>toIConnections\<close> has built from the connections \<open>cs\<close>.\<close>

definition exported :: "GraphConnection \<Rightarrow> IConnection" where
  "exported c = \<lparr>c_node = name (to_node c), c_type = conn_type c, c_index = inputIndex c\<rparr>"

fun exports_at :: "GraphConnection list \<Rightarrow> string \<Rightarrow> INodeConnections option \<Rightarrow> bool" where
  "exports_at cs from None = (\<forall>c \<in> set cs. name (from_node c) \<noteq> from)"
| "exports_at cs from (Some [(t, outs)]) =
     ((\<exists>c \<in> set cs. name (from_node c) = from) \<and> (\<forall>c \<in> set cs. name (from_node c) = from \<longrightarrow> conn_type c = t) \<and>
      (\<forall>i. cell_or [] (arr_get outs i) =
         map exported (filter (\<lambda>c. name (from_node c) = from \<and> outputIndex c = i) cs)))"
| "exports_at cs from (Some _) = False"

definition exports :: "GraphConnection list \<Rightarrow> IConnections \<Rightarrow> bool" where
  "exports cs r \<longleftrightarrow> (\<forall>from. exports_at cs from (map_of r from))"

lemma exports_at_Some: "exports_at cs from (Some m) \<Longrightarrow> \<exists>t outs. m = [(t, outs)]"
  by (cases "(cs, from, Some m)" rule: exports_at.cases) auto

lemma exportsD_None: "exports cs r \<Longrightarrow> map_of r from = None \<Longrightarrow> c \<in> set cs \<Longrightarrow> name (from_node c) \<noteq> from"
  unfolding exports_def by (drule spec [of _ "from"]) simp

lemma exportsD:
  assumes "exports cs r" "map_of r from = Some m"
  obtains t outs where "m = [(t, outs)]" "exports_at cs from (Some [(t, outs)])"
proof -
  have 1: "exports_at cs from (Some m)"
    using assms(1) unfolding exports_def assms(2) [symmetric] by (rule spec)
  from exports_at_Some [OF this] obtain t outs where "m = [(t, outs)]" by (elim exE)
  with 1 that show ?thesis by simp
qed

lemma exports_at_other:
  "name (from_node c) \<noteq> from \<Longrightarrow> exports_at cs from x \<Longrightarrow> exports_at (cs @ [c]) from x"
  by (cases "(cs, from, x)" rule: exports_at.cases) auto

lemma exportConnection_step:
  assumes r: "exports cs r" and same: "\<And>d. d \<in> set cs \<Longrightarrow> name (from_node d) = name (from_node c) \<Longrightarrow> conn_type d = conn_type c"
  shows "\<exists>r'. exportConnection c r = Inr r' \<and> exports (cs @ [c]) r'"
proof -
  let ?from = "name (from_node c)"
  let ?at = "\<lambda>ds i. map exported (filter (\<lambda>d. name (from_node d) = ?from \<and> outputIndex d = i) ds)"
  define m where "m = (case map_of r ?from of None \<Rightarrow> [(conn_type c, [])] | Some x \<Rightarrow> x)"
  obtain outs where m: "m = [(conn_type c, outs)]" and outs: "\<And>i. cell_or [] (arr_get outs i) = ?at cs i"
  proof (cases "map_of r ?from")
    case None
    have "filter (\<lambda>d. name (from_node d) = ?from \<and> outputIndex d = i) cs = []" for i
      using exportsD_None [OF r None] by (simp add: filter_empty_conv)
    then have "\<And>i. cell_or [] (arr_get [] i) = ?at cs i" by (simp add: arr_get_def)
    moreover have "m = [(conn_type c, [])]" by (simp add: m_def None)
    ultimately show ?thesis by (rule that [rotated])
  next
    case (Some x)
    from exportsD [OF r Some] obtain t o1 where t: "x = [(t, o1)]" "exports_at cs ?from (Some [(t, o1)])" .
    then have "t = conn_type c" using same by auto
    then have "m = [(conn_type c, o1)]" by (simp add: m_def Some t(1))
    moreover have "\<And>i. cell_or [] (arr_get o1 i) = ?at cs i" using t(2) by simp
    ultimately show ?thesis by (rule that)
  qed
  define group where "group = cell_or [] (arr_get outs (outputIndex c)) @ [exported c]"
  define outs' where "outs' = arr_set (outputIndex c) (Val group) outs"
  define r' where "r' = AList.update ?from [(conn_type c, outs')] r"
  have "exportConnection c r = Inr r'"
    unfolding exportConnection_def Let_def m_def [symmetric] m
    by (simp add: exported_def group_def outs'_def r'_def)
  moreover have "exports_at (cs @ [c]) from (map_of r' from)" for "from"
  proof (cases "from = ?from")
    case True
    have "cell_or [] (arr_get outs' i) = ?at (cs @ [c]) i" for i
      by (simp add: outs'_def arr_get_set group_def outs)
    then show ?thesis using same by (auto simp: True r'_def amap.get_put)
  next
    case False
    have "exports_at cs from (map_of r from)" using r by (simp add: exports_def)
    from exports_at_other [OF _ this] False show ?thesis by (simp add: r'_def amap.get_put)
  qed
  ultimately show ?thesis by (auto simp: exports_def)
qed

lemma exportConnection_TypeError:
  assumes r: "exports cs r" and d: "d \<in> set cs" "name (from_node d) = name (from_node c)" "conn_type d \<noteq> conn_type c"
  shows "exportConnection c r = Inl TypeError"
proof (cases "map_of r (name (from_node c))")
  case None
  from exportsD_None [OF r this d(1)] d(2) show ?thesis by simp
next
  case (Some m)
  from exportsD [OF r Some] obtain t outs where
    m: "m = [(t, outs)]" and at: "exports_at cs (name (from_node c)) (Some [(t, outs)])" .
  from at d(1,2) have "conn_type d = t" by simp
  with d(3) have "t \<noteq> conn_type c" by blast
  with Some m show ?thesis by (simp add: exportConnection_def)
qed

definition one_type_per_source :: "GraphConnection list \<Rightarrow> bool" where
  "one_type_per_source cs \<longleftrightarrow>
     (\<forall>c \<in> set cs. \<forall>d \<in> set cs. name (from_node c) = name (from_node d) \<longrightarrow> conn_type c = conn_type d)"

lemma one_type_snoc:
  "one_type_per_source (cs @ [c]) \<longleftrightarrow> one_type_per_source cs \<and>
     (\<forall>d \<in> set cs. name (from_node d) = name (from_node c) \<longrightarrow> conn_type d = conn_type c)"
  unfolding one_type_per_source_def by (auto simp: ball_Un)

lemma exportConnections:
  "(one_type_per_source cs \<longrightarrow> (\<exists>r. rfold exportConnection cs [] = Inr r \<and> exports cs r)) \<and>
   (\<not> one_type_per_source cs \<longrightarrow> rfold exportConnection cs [] = Inl TypeError)"
proof (induction cs rule: rev_induct)
  case Nil
  then show ?case by (simp add: one_type_per_source_def exports_def)
next
  case (snoc c cs)
  show ?case
  proof (cases "one_type_per_source cs")
    case True
    with snoc obtain r where r: "rfold exportConnection cs [] = Inr r" "exports cs r" by blast
    show ?thesis
    proof (cases "one_type_per_source (cs @ [c])")
      case False
      with True obtain d where "d \<in> set cs" "name (from_node d) = name (from_node c)" "conn_type d \<noteq> conn_type c"
        unfolding one_type_snoc by blast
      from exportConnection_TypeError [OF r(2) this] r(1) False show ?thesis by (simp add: rfold_append)
    next
      case True
      then have "\<And>d. d \<in> set cs \<Longrightarrow> name (from_node d) = name (from_node c) \<Longrightarrow> conn_type d = conn_type c"
        unfolding one_type_snoc by blast
      from exportConnection_step [OF r(2) this] obtain r' where
        "exportConnection c r = Inr r'" "exports (cs @ [c]) r'" by blast
      with r(1) True show ?thesis by (simp add: rfold_append)
    qed
  next
    case False
    with snoc have "rfold exportConnection cs [] = Inl TypeError" by blast
    with False show ?thesis by (simp add: rfold_append one_type_snoc)
  qed
qed

lemma getConnections_all: "getConnections g None = allConnections g"
  by (simp add: getConnections_def allConnections_def)

text \<open>\<open>toIConnections\<close> succeeds exactly when no two connections that leave the same node name have
  different types, and then the list at \<open>result[from][type][output]\<close> holds the connections out of
  \<open>from\<close> at that output, in the order of the graph; otherwise it throws a \<open>TypeError\<close>.\<close>

theorem toIConnections_exports:
  "if one_type_per_source (getConnections g None)
   then \<exists>r. toIConnections g = Inr r \<and>
     (\<forall>c \<in> set (getConnections g None). \<exists>outs. map_of r (name (from_node c)) = Some [(conn_type c, outs)] \<and>
       cell_or [] (arr_get outs (outputIndex c)) =
         map exported (filter (\<lambda>d. name (from_node d) = name (from_node c) \<and> outputIndex d = outputIndex c)
           (getConnections g None)))
   else toIConnections g = Inl TypeError"
proof (cases "one_type_per_source (getConnections g None)")
  case True
  let ?cs = "getConnections g None"
  from True exportConnections [of ?cs] obtain r where r: "toIConnections g = Inr r" "exports ?cs r"
    unfolding toIConnections_def getConnections_all by blast
  have "\<exists>outs. map_of r (name (from_node c)) = Some [(conn_type c, outs)] \<and>
      cell_or [] (arr_get outs (outputIndex c)) =
        map exported (filter (\<lambda>d. name (from_node d) = name (from_node c) \<and> outputIndex d = outputIndex c) ?cs)"
    if c: "c \<in> set ?cs" for c
  proof (cases "map_of r (name (from_node c))")
    case None
    from exportsD_None [OF r(2) this c] show ?thesis by simp
  next
    case (Some m)
    from exportsD [OF r(2) Some] obtain t outs where
      m: "m = [(t, outs)]" "exports_at ?cs (name (from_node c)) (Some [(t, outs)])" .
    from m(2) c have "conn_type c = t" by simp
    with Some m show ?thesis by (intro exI [of _ outs] conjI) simp_all
  qed
  with r(1) True show ?thesis by simp
next
  case False
  with exportConnections [of "getConnections g None"] show ?thesis
    by (simp add: toIConnections_def getConnections_all)
qed

lemma toIConnections_exports_witness:
  "\<exists>r outs. toIConnections chainGraph = Inr r \<and> map_of r ''A'' = Some [(Main, outs)] \<and>
     cell_or [] (arr_get outs 0) = [\<lparr>c_node = ''D'', c_type = Main, c_index = 0\<rparr>]"
proof -
  let ?cs = "getConnections chainGraph None"
  define c where "c = \<lparr>from_node = nA, to_node = nD, conn_type = Main, outputIndex = 0, inputIndex = 0\<rparr>"
  have 1: "one_type_per_source ?cs" by code_simp
  have 2: "c \<in> set ?cs" unfolding c_def by code_simp
  have 3: "map exported (filter (\<lambda>d. name (from_node d) = ''A'' \<and> outputIndex d = 0) ?cs) =
    [\<lparr>c_node = ''D'', c_type = Main, c_index = 0\<rparr>]" by code_simp
  have c: "name (from_node c) = ''A''" "conn_type c = Main" "outputIndex c = 0"
    by (simp_all add: c_def nA_def plainNode_def)
  from toIConnections_exports [of chainGraph, unfolded if_P [OF 1]] obtain r where
    r: "toIConnections chainGraph = Inr r" and
    all: "\<forall>c \<in> set ?cs. \<exists>outs. map_of r (name (from_node c)) = Some [(conn_type c, outs)] \<and>
       cell_or [] (arr_get outs (outputIndex c)) =
         map exported (filter (\<lambda>d. name (from_node d) = name (from_node c) \<and> outputIndex d = outputIndex c) ?cs)"
    by blast
  from bspec [OF all 2, unfolded c 3] r show ?thesis by blast
qed

end
