(* ===== verification/PartialProps.thy ===== *)
theory PartialProps
  imports PartialExecution GraphTheorems
begin

text \<open>
  What the planning functions of \<^verbatim>\<open>PartialExecution\<close> compute, stated over paths of the graph: the
  start nodes, the subgraph, the cleaned run data and the replaced cycle entries.
\<close>

section \<open>Start nodes\<close>

definition stopNode :: "DirectedGraph \<Rightarrow> INode \<Rightarrow> IRunData \<Rightarrow> IPinData \<Rightarrow> INode \<Rightarrow> bool" where
  "stopNode g destination rd pd n \<longleftrightarrow>
     isDirty n rd pd \<or> n = destination \<or> loopNotDone g n rd = Inr True"

text \<open>The steps the search takes: out of a node it does not stop at, over a connection whose output
  has run data or whose source has pinned data.\<close>

definition carries :: "IRunData \<Rightarrow> IPinData \<Rightarrow> GraphConnection \<Rightarrow> bool" where
  "carries rd pd c \<longleftrightarrow>
     (\<exists>d. getIncomingDataFromAnyRun rd (name (from_node c)) (conn_type c) (outputIndex c) = Inr d \<and>
       \<not> (hasNoRunData d \<and> map_of pd (name (from_node c)) = None))"

definition follows :: "DirectedGraph \<Rightarrow> INode \<Rightarrow> IRunData \<Rightarrow> IPinData \<Rightarrow> INode rel" where
  "follows g destination rd pd = {(from_node c, to_node c) |c.
     c \<in> set (allConnections g) \<and> \<not> stopNode g destination rd pd (from_node c) \<and> carries rd pd c}"

text \<open>No read of the run data throws.\<close>

definition readable :: "DirectedGraph \<Rightarrow> IRunData \<Rightarrow> bool" where
  "readable g rd \<longleftrightarrow>
     (\<forall>c \<in> set (allConnections g).
        \<exists>d. getIncomingDataFromAnyRun rd (name (from_node c)) (conn_type c) (outputIndex c) = Inr d) \<and>
     (\<forall>n \<in> set (getNodes g). \<exists>b. loopNotDone g n rd = Inr b)"

text \<open>Steps that leave no node of \<open>A\<close>.\<close>

definition leaving :: "'a set \<Rightarrow> 'a rel \<Rightarrow> 'a rel" where
  "leaving A R = {(x, y) \<in> R. x \<notin> A}"

lemma leaving_last_visit:
  assumes "(z, n) \<in> (leaving A R)\<^sup>*"
  shows "(z, n) \<in> (leaving (insert x A) R)\<^sup>* \<or>
    x \<notin> A \<and> (\<exists>y. (x, y) \<in> R \<and> (y, n) \<in> (leaving (insert x A) R)\<^sup>*)"
  using assms
proof (induction rule: converse_rtrancl_induct)
  case base
  then show ?case by simp
next
  case (step z z')
  then have z: "(z, z') \<in> R" "z \<notin> A" by (simp_all add: leaving_def)
  show ?case
  proof (cases "z = x")
    case True
    with step.IH z show ?thesis by blast
  next
    case False
    with z have "(z, z') \<in> leaving (insert x A) R" by (simp add: leaving_def)
    with step.IH show ?thesis by (meson converse_rtrancl_into_rtrancl)
  qed
qed

lemma leaving_stuck: "x \<in> A \<Longrightarrow> (x, n) \<in> (leaving A R)\<^sup>* \<Longrightarrow> x = n"
  by (erule converse_rtranclE) (simp_all add: leaving_def)

lemma leaving_step:
  assumes "(x, n) \<in> (leaving A R)\<^sup>*" "x \<noteq> n"
  obtains y where "x \<notin> A" "(x, y) \<in> R" "(y, n) \<in> (leaving (insert x A) R)\<^sup>*"
  using leaving_last_visit [OF assms(1), of x] leaving_stuck [of x "insert x A" n R] assms(2) by blast

lemma follows_stop: "stopNode g destination rd pd x \<Longrightarrow> (x, y) \<notin> follows g destination rd pd"
  by (auto simp: follows_def)

text \<open>What a call adds to \<open>startNodes\<close>.\<close>

definition start_post ::
  "DirectedGraph \<Rightarrow> INode \<Rightarrow> IRunData \<Rightarrow> IPinData \<Rightarrow> INode set \<Rightarrow> INode \<Rightarrow> INode list \<Rightarrow> INode list \<Rightarrow> bool" where
  "start_post g destination rd pd A x S S' \<longleftrightarrow>
     set S \<subseteq> set S' \<and> (distinct S \<longrightarrow> distinct S') \<and>
     set S' \<subseteq> set S \<union> {n. (x, n) \<in> (follows g destination rd pd)\<^sup>* \<and> stopNode g destination rd pd n} \<and>
     {n. (x, n) \<in> (leaving A (follows g destination rd pd))\<^sup>* \<and> stopNode g destination rd pd n} \<subseteq> set S'"

lemma start_post_stop:
  assumes "stopNode g destination rd pd x"
  shows "start_post g destination rd pd A x S (set_add x S)"
proof -
  have "n = x" if "(x, n) \<in> (leaving A (follows g destination rd pd))\<^sup>*" for n
    using that by (rule converse_rtranclE) (use follows_stop [OF assms] in \<open>auto simp: leaving_def\<close>)
  with assms show ?thesis by (auto simp: start_post_def)
qed

lemma start_post_seen:
  assumes "\<not> stopNode g destination rd pd x" "x \<in> A"
  shows "start_post g destination rd pd A x S S"
  using leaving_stuck [OF assms(2)] assms(1) by (auto simp: start_post_def)

definition start_between ::
  "DirectedGraph \<Rightarrow> INode \<Rightarrow> IRunData \<Rightarrow> IPinData \<Rightarrow> INode \<Rightarrow> INode list \<Rightarrow> INode list \<Rightarrow> bool" where
  "start_between g destination rd pd x S S' \<longleftrightarrow>
     set S \<subseteq> set S' \<and> (distinct S \<longrightarrow> distinct S') \<and>
     set S' \<subseteq> set S \<union> {n. (x, n) \<in> (follows g destination rd pd)\<^sup>* \<and> stopNode g destination rd pd n}"

lemma start_between_trans:
  "start_between g d rd pd x S T \<Longrightarrow> start_between g d rd pd x T U \<Longrightarrow> start_between g d rd pd x S U"
  unfolding start_between_def by blast

lemma findStartNodesRecursive_correct:
  assumes "wf_graph g" "readable g rd" "nodeExists g x"
  shows "\<exists>S'. findStartNodesRecursive g x destination rd pd S seen = Inr S' \<and>
    start_post g destination rd pd (set seen) x S S'"
  using assms
proof (induction g x destination rd pd S seen rule: findStartNodesRecursive.induct)
  case (1 g x dest rd pd S seen)
  let ?F = "follows g dest rd pd" and ?stop = "stopNode g dest rd pd"
  from "1.prems" obtain nd where nd: "loopNotDone g x rd = Inr nd"
    unfolding readable_def using nodeExists_getNodes by blast
  show ?case
  proof (cases "?stop x")
    case True
    with nd have "findStartNodesRecursive g x dest rd pd S seen = Inr (set_add x S)"
      by (subst findStartNodesRecursive.simps) (auto simp: stopNode_def)
    with start_post_stop [OF True] show ?thesis by blast
  next
    case False
    then have clean: "\<not> isDirty x rd pd" "x \<noteq> dest" "nd = False" using nd by (auto simp: stopNode_def)
    show ?thesis
    proof (cases "x \<in> set seen")
      case True
      with clean nd have "findStartNodesRecursive g x dest rd pd S seen = Inr S"
        by (subst findStartNodesRecursive.simps) simp
      with start_post_seen [OF False True] show ?thesis by blast
    next
      case unseen: False
      let ?out = "filter (\<lambda>c. from_node c = x) (allConnections g)"
      have out: "getDirectChildConnections g x = Inr ?out"
        using "1.prems"(3) by (simp add: getDirectChildConnections_Inr)
      define body where "body = (\<lambda>(c :: GraphConnection) sn.
        rbind (getIncomingDataFromAnyRun rd (name (from_node c)) (conn_type c) (outputIndex c)) (\<lambda>d.
          if hasNoRunData d \<and> map_of pd (name (from_node c)) = None then Inr sn
          else findStartNodesRecursive g (to_node c) dest rd pd sn (set_add x seen)))"
      define Q where "Q = (\<lambda>(c :: GraphConnection) sn. carries rd pd c \<longrightarrow>
        {n. (to_node c, n) \<in> (leaving (insert x (set seen)) ?F)\<^sup>* \<and> ?stop n} \<subseteq> set sn)"
      have step: "\<exists>s'. body c sn = Inr s' \<and> True \<and> start_between g dest rd pd x sn s' \<and> Q c s'"
        if c: "c \<in> set ?out" for c sn
      proof -
        from c "1.prems"(2) obtain d where
          d: "getIncomingDataFromAnyRun rd (name (from_node c)) (conn_type c) (outputIndex c) = Inr d"
          unfolding readable_def by auto
        show ?thesis
        proof (cases "hasNoRunData d \<and> map_of pd (name (from_node c)) = None")
          case True
          with d have "body c sn = Inr sn" "\<not> carries rd pd c" by (simp_all add: body_def carries_def)
          then show ?thesis by (simp add: start_between_def Q_def)
        next
          case data: False
          with d have "carries rd pd c" by (simp add: carries_def)
          with c False have F: "(x, to_node c) \<in> ?F" by (auto simp: follows_def)
          have "nodeExists g (to_node c)" using wf_graphD(3) [OF "1.prems"(1)] c by simp
          with "1.IH" [OF clean(1,2) nd _ unseen out c d data "1.prems"(1,2)] clean(3) obtain s' where
            s': "findStartNodesRecursive g (to_node c) dest rd pd sn (set_add x seen) = Inr s'"
            "start_post g dest rd pd (insert x (set seen)) (to_node c) sn s'" by auto
          have "body c sn = Inr s'" by (simp add: body_def d if_not_P [OF data] s'(1))
          moreover have "start_between g dest rd pd x sn s'"
            using s'(2) F unfolding start_post_def start_between_def by (blast intro: converse_rtrancl_into_rtrancl)
          moreover have "Q c s'" using s'(2) unfolding Q_def start_post_def by blast
          ultimately show ?thesis by blast
        qed
      qed
      have "\<exists>s'. rfold body ?out S = Inr s' \<and> True \<and> start_between g dest rd pd x S s' \<and> (\<forall>c \<in> set ?out. Q c s')"
      proof (rule rfold_grows [where I = "\<lambda>_. True"])
        show "start_between g dest rd pd x s s" for s by (simp add: start_between_def)
        show "Q c t" if "Q c s" "start_between g dest rd pd x s t" for c s t
          using that unfolding Q_def start_between_def by blast
      qed (use step start_between_trans in blast)+
      then obtain s' where s': "rfold body ?out S = Inr s'" "start_between g dest rd pd x S s'"
        "\<forall>c \<in> set ?out. Q c s'" by blast
      have "n \<in> set s'" if n: "(x, n) \<in> (leaving (set seen) ?F)\<^sup>*" "?stop n" for n
      proof -
        from n(2) False have "x \<noteq> n" by blast
        from leaving_step [OF n(1) this] obtain y where
          y: "(x, y) \<in> ?F" "(y, n) \<in> (leaving (insert x (set seen)) ?F)\<^sup>*" by blast
        from y(1) obtain c where "c \<in> set ?out" "to_node c = y" "carries rd pd c"
          by (auto simp: follows_def)
        with s'(3) y(2) n(2) show ?thesis unfolding Q_def by blast
      qed
      with s'(2) have "start_post g dest rd pd (set seen) x S s'"
        unfolding start_post_def start_between_def by blast
      moreover have "findStartNodesRecursive g x dest rd pd S seen = Inr s'"
        using clean nd unseen out s'(1) by (subst findStartNodesRecursive.simps) (simp add: body_def)
      ultimately show ?thesis by blast
    qed
  qed
qed

text \<open>C36: \<open>findStartNodes\<close> returns exactly the nodes at which a search from the trigger stops: those
  that are dirty, the destination, or a loop node whose \<open>done\<close> output has no data, and that the trigger
  reaches over outputs with data through nodes at which the search does not stop.\<close>

theorem findStartNodes_exact:
  assumes "wf_graph g" "nodeExists g trigger" "readable g rd"
  shows "\<exists>S. findStartNodes g trigger destination pd rd = Inr S \<and> distinct S \<and>
    set S = {n. (trigger, n) \<in> (follows g destination rd pd)\<^sup>* \<and> stopNode g destination rd pd n}"
proof -
  from findStartNodesRecursive_correct [OF assms(1,3,2), of destination pd "[]" "[]"] obtain S where
    S: "findStartNodesRecursive g trigger destination rd pd [] [] = Inr S"
    "start_post g destination rd pd {} trigger [] S" by auto
  have "leaving {} (follows g destination rd pd) = follows g destination rd pd" by (auto simp: leaving_def)
  with S show ?thesis by (auto simp: start_post_def findStartNodes_def)
qed

definition diamond :: DirectedGraph where
  "diamond = graph_of [nA, nB, nC] [link nA nB, link nB nC, link nA nC]"

lemma findStartNodes_exact_witness:
  "findStartNodes diamond nA nC [] [(''A'', [run_of [plainItem []]])] = Inr [nB, nC] \<and>
   (nA, nB) \<in> (follows diamond nC [(''A'', [run_of [plainItem []]])] [])\<^sup>*"
proof -
  let ?rd = "[(''A'', [run_of [plainItem []]])]"
  have 1: "wf_graph diamond" "nodeExists diamond nA" by code_simp+
  have "\<forall>c \<in> set (allConnections diamond). \<not> isl (getIncomingDataFromAnyRun ?rd (name (from_node c)) (conn_type c) (outputIndex c))"
    "\<forall>n \<in> set (getNodes diamond). \<not> isl (loopNotDone diamond n ?rd)" by code_simp+
  then have 2: "readable diamond ?rd" unfolding readable_def by (metis sum.collapse(2))
  have 3: "findStartNodes diamond nA nC [] ?rd = Inr [nB, nC]" by code_simp
  from findStartNodes_exact [OF 1 2, of nC "[]"] 3 show ?thesis by auto
qed

section \<open>Cleaning run data\<close>

lemma map_of_delete_all:
  "map_of (fold (\<lambda>x rd. if P x then rd else AList.delete (f x) rd) xs m) k =
     (if \<exists>x \<in> set xs. \<not> P x \<and> f x = k then None else map_of m k)"
  by (induction xs arbitrary: m) (auto simp: amap.get_del)

text \<open>The names \<open>cleanOne\<close> removes for a node, and \<open>cleanRunData\<close> for a node to clean.\<close>

definition with_sub_nodes :: "DirectedGraph \<Rightarrow> INode \<Rightarrow> string set" where
  "with_sub_nodes g n = insert (name n) {name (from_node c) |c.
     c \<in> set (allConnections g) \<and> conn_type c \<noteq> Main \<and> (to_node c, n) \<in> (edge g)\<^sup>*}"

definition restricted :: "('k \<Rightarrow> 'v option) \<Rightarrow> 'k set \<Rightarrow> 'k \<Rightarrow> 'v option" where
  "restricted m K k = (if k \<in> K then None else m k)"

lemma restricted_restricted: "restricted (restricted m K) L = restricted m (K \<union> L)"
  by (auto simp: restricted_def)

lemma restricted_empty: "restricted m {} = m"
  by (auto simp: restricted_def)

lemma cleanOne_correct:
  assumes "wf_graph g" "nodeExists g n"
  shows "\<exists>rd'. cleanOne g n rd = Inr rd' \<and> map_of rd' = restricted (map_of rd) (with_sub_nodes g n)"
proof -
  from getParentConnections_correct [OF assms] obtain cs where
    cs: "getParentConnections g n = Inr cs" "set cs = {c \<in> set (allConnections g). (to_node c, n) \<in> (edge g)\<^sup>*}"
    by blast
  have "map_of (fold (\<lambda>c rd. if conn_type c = Main then rd else AList.delete (name (from_node c)) rd)
      cs (AList.delete (name n) rd)) = restricted (map_of rd) (with_sub_nodes g n)"
    unfolding map_of_delete_all [abs_def] cs(2)
    by (auto simp: fun_eq_iff restricted_def with_sub_nodes_def amap.get_del)
  with cs(1) show ?thesis by (simp add: cleanOne_def)
qed

lemma rfold_restricted:
  assumes "\<And>x m. x \<in> set xs \<Longrightarrow> \<exists>m'. f x m = Inr m' \<and> map_of m' = restricted (map_of m) (K x)"
  shows "\<exists>m'. rfold f xs m = Inr m' \<and> map_of m' = restricted (map_of m) (\<Union>x \<in> set xs. K x)"
  using assms
proof (induction xs arbitrary: m)
  case Nil
  then show ?case by (simp add: restricted_empty)
next
  case (Cons x xs)
  from Cons.prems [of x m] obtain m1 where m1: "f x m = Inr m1" "map_of m1 = restricted (map_of m) (K x)" by auto
  have "\<exists>m'. rfold f xs m1 = Inr m' \<and> map_of m' = restricted (map_of m1) (\<Union>x \<in> set xs. K x)"
    by (rule Cons.IH) (rule Cons.prems; simp)
  with m1 show ?case by (auto simp: restricted_restricted)
qed

text \<open>C39: \<open>cleanRunData\<close> drops exactly the run data of the nodes to clean, of everything reachable
  from them, of every node with a connection other than \<open>main\<close> on a path into one of those, and of
  names that are not in the graph; all other run data is kept as it is.\<close>

theorem cleanRunData_exact:
  assumes "wf_graph g" "list_all (nodeExists g) ns"
  shows "\<exists>rd'. cleanRunData rd g ns = Inr rd' \<and>
    (let cleaned = (\<Union>n \<in> set ns. \<Union>m \<in> {m. (n, m) \<in> (edge g)\<^sup>*}. with_sub_nodes g m)
     in map_of rd' = (\<lambda>nm. if nm \<in> cleaned \<or> \<not> hasNode g nm then None else map_of rd nm))"
proof -
  define body where "body = (\<lambda>n rd. let rd1 = AList.delete (name n) rd in
         rbind (getChildren g n) (\<lambda>children. rfold (cleanOne g) (n # children) rd1))"
  define K where "K = (\<lambda>n. \<Union>m \<in> {m. (n, m) \<in> (edge g)\<^sup>*}. with_sub_nodes g m)"
  have body: "\<exists>rd'. body n rd = Inr rd' \<and> map_of rd' = restricted (map_of rd) (K n)" if n: "nodeExists g n" for n rd
  proof -
    from getChildren_correct [OF assms(1) n] obtain cs where
      cs: "getChildren g n = Inr cs" "set cs = {m. (n, m) \<in> (edge g)\<^sup>+}" by blast
    have ex: "nodeExists g m" if "m \<in> set (n # cs)" for m
    proof (cases "m = n")
      case False
      with that cs(2) have "(n, m) \<in> (edge g)\<^sup>+" by simp
      then obtain k where "(k, m) \<in> edge g" by (meson tranclD2)
      then show ?thesis using wf_graphD(3) [OF assms(1)] by (auto simp: edge_def)
    qed (use n in simp)
    have all: "set (n # cs) = {m. (n, m) \<in> (edge g)\<^sup>*}" unfolding rtrancl_eq_or_trancl using cs(2) by auto
    have "\<exists>m'. rfold (cleanOne g) (n # cs) (AList.delete (name n) rd) = Inr m' \<and>
        map_of m' = restricted (map_of (AList.delete (name n) rd)) (\<Union>m \<in> set (n # cs). with_sub_nodes g m)"
      by (rule rfold_restricted) (rule cleanOne_correct [OF assms(1) ex])
    then obtain m' where m': "rfold (cleanOne g) (n # cs) (AList.delete (name n) rd) = Inr m'"
      "map_of m' = restricted (map_of (AList.delete (name n) rd)) (K n)"
      unfolding all K_def by blast
    have "map_of (AList.delete (name n) rd) = restricted (map_of rd) {name n}"
      by (auto simp: restricted_def amap.get_del)
    moreover have "{name n} \<union> K n = K n" by (auto simp: K_def with_sub_nodes_def)
    ultimately have "map_of m' = restricted (map_of rd) (K n)" unfolding m'(2) by (simp add: restricted_restricted)
    moreover have "body n rd = Inr m'" using m'(1) by (simp add: body_def Let_def cs(1))
    ultimately show ?thesis by blast
  qed
  have "\<exists>rd1. rfold body ns rd = Inr rd1 \<and> map_of rd1 = restricted (map_of rd) (\<Union>n \<in> set ns. K n)"
    by (rule rfold_restricted) (use assms(2) body in \<open>simp add: list_all_iff\<close>)
  then obtain rd1 where rd1: "rfold body ns rd = Inr rd1" "map_of rd1 = restricted (map_of rd) (\<Union>n \<in> set ns. K n)" by blast
  define rd' where "rd' = fold (\<lambda>nm rd. if hasNode g nm then rd else AList.delete nm rd) (map fst rd1) rd1"
  have "(\<lambda>nm rd. if \<not> hasNode g nm then AList.delete nm rd else rd) =
      (\<lambda>nm (rd :: IRunData). if hasNode g nm then rd else AList.delete nm rd)"
    by (intro ext) simp
  then have "cleanRunData rd g ns = Inr rd'"
    using rd1(1) unfolding cleanRunData_def body_def [symmetric] rd'_def by simp
  moreover have "map_of rd' nm = (if nm \<in> (\<Union>n \<in> set ns. K n) \<or> \<not> hasNode g nm then None else map_of rd nm)" for nm
  proof -
    have "map_of rd' nm = (if \<exists>x \<in> set (map fst rd1). \<not> hasNode g x \<and> x = nm then None else map_of rd1 nm)"
      unfolding rd'_def map_of_delete_all [where f = "\<lambda>x. x"] ..
    then have e: "map_of rd' nm = (if nm \<in> set (map fst rd1) \<and> \<not> hasNode g nm then None else map_of rd1 nm)"
      by auto
    show ?thesis
    proof (cases "hasNode g nm")
      case True
      then show ?thesis unfolding e rd1(2) restricted_def by simp
    next
      case False
      moreover have "map_of rd1 nm = None" if "nm \<notin> set (map fst rd1)" using that by (simp add: map_of_eq_None_iff)
      ultimately show ?thesis unfolding e by auto
    qed
  qed
  then have "map_of rd' = (\<lambda>nm. if nm \<in> (\<Union>n \<in> set ns. K n) \<or> \<not> hasNode g nm then None else map_of rd nm)" by blast
  ultimately show ?thesis unfolding Let_def K_def by blast
qed

definition aiLink :: "INode \<Rightarrow> INode \<Rightarrow> ConnectionInput" where
  "aiLink a b = (link a b)\<lparr>in_type := Some AiLanguageModel\<rparr>"

text \<open>\<open>A\<close> to the agent \<open>B\<close> to \<open>C\<close>; the model \<open>M\<close> belongs to \<open>B\<close>.\<close>

definition nM :: INode where "nM = plainNode 5 ''M'' ''lmChat''"

definition agentGraph :: DirectedGraph where
  "agentGraph = graph_of [nA, nB, nC, nM] [link nA nB, aiLink nM nB, link nB nC]"

definition agentRuns :: IRunData where
  "agentRuns = map (\<lambda>nm. (nm, [run_of [plainItem []]])) [''A'', ''M'', ''B'', ''C'']"

lemma if_None_cases: "y = (if P then None else x) \<Longrightarrow> y = None \<or> y = x"
  by (cases P) simp_all

lemma cleanRunData_exact_witness:
  "\<exists>rd'. cleanRunData agentRuns agentGraph [nB] = Inr rd' \<and> map fst rd' = [''A''] \<and>
     map_of rd' ''A'' = map_of agentRuns ''A''"
proof -
  have 1: "wf_graph agentGraph" "list_all (nodeExists agentGraph) [nB]" by code_simp+
  have k: "map_sum id (map fst) (cleanRunData agentRuns agentGraph [nB]) = Inr [''A'']" by code_simp
  obtain rd' where rd': "cleanRunData agentRuns agentGraph [nB] = Inr rd'"
    "map_of rd' ''A'' = None \<or> map_of rd' ''A'' = map_of agentRuns ''A''" 
  proof -
    from cleanRunData_exact [OF 1, of agentRuns, unfolded Let_def] obtain rd' where
      r: "cleanRunData agentRuns agentGraph [nB] = Inr rd'" and
      m: "map_of rd' = (\<lambda>nm. if nm \<in> (\<Union>n \<in> set [nB]. \<Union>m \<in> {m. (n, m) \<in> (edge agentGraph)\<^sup>*}. with_sub_nodes agentGraph m) \<or>
        \<not> hasNode agentGraph nm then None else map_of agentRuns nm)" by (elim exE conjE)
    from fun_cong [OF m, of "''A''"] have "map_of rd' ''A'' = None \<or> map_of rd' ''A'' = map_of agentRuns ''A''"
      by (rule if_None_cases)
    with r show ?thesis by (rule that)
  qed
  from k rd'(1) have keys: "map fst rd' = [''A'']" by simp
  then have "''A'' \<in> fst ` set rd'" by (simp flip: set_map)
  then have "map_of rd' ''A'' \<noteq> None" by (simp only: map_of_eq_None_iff not_not)
  with rd'(2) have "map_of rd' ''A'' = map_of agentRuns ''A''" by (elim disjE) (simp_all only: simp_thms)
  with rd'(1) keys show ?thesis by (intro exI conjI)
qed

text \<open>Cleaning a node also drops the run data of the sub-nodes of agents before it:
  \<open>getParentConnections\<close> follows the \<open>main\<close> connections upstream, so cleaning \<open>C\<close> deletes the run data
  of the model \<open>M\<close> of the agent \<open>B\<close>, although \<open>B\<close> keeps its run data and \<open>M\<close> is no child of \<open>C\<close>.\<close>

theorem cleanRunData_drops_upstream_sub_nodes:
  "map_sum id (map fst) (cleanRunData agentRuns agentGraph [nC]) = Inr [''A'', ''B''] \<and>
   getChildren agentGraph nC = Inr []"
  by (intro conjI) code_simp+

end
