(* ===== verification/SubgraphProps.thy ===== *)
theory SubgraphProps
  imports PartialExecution GraphTheorems
begin

text \<open>
  The subgraph \<open>findSubgraph\<close> of \<^verbatim>\<open>find-subgraph.ts\<close> builds: a part of the graph, every \<open>main\<close>
  connection of which leads to the destination, and that contains every simple path from the trigger
  to the destination.
\<close>

section \<open>Building a part of a graph\<close>

abbreviation conns :: "DirectedGraph \<Rightarrow> GraphConnection set" where
  "conns g \<equiv> set (allConnections g)"

definition sub_of :: "DirectedGraph \<Rightarrow> DirectedGraph \<Rightarrow> bool" where
  "sub_of g ng \<longleftrightarrow> wf_graph ng \<and> {n. nodeExists ng n} \<subseteq> {n. nodeExists g n} \<and> conns ng \<subseteq> conns g"

lemma sub_of_empty: "sub_of g emptyGraph"
  by (simp add: sub_of_def nodeExists_def emptyGraph_def wf_graph_def allConnections_def)

lemma addNode_sub:
  assumes "sub_of g ng" "nodeExists g n"
  shows "sub_of g (addNode n ng)" "{m. nodeExists (addNode n ng) m} = insert n {m. nodeExists ng m}"
    "allConnections (addNode n ng) = allConnections ng"
proof -
  have same: "m = n" if "nodeExists ng m" "name m = name n" for m
    using assms that nodeExists_name unfolding sub_of_def by blast
  have "fresh_or_same n ng"
  proof (cases "map_of (nodes ng) (name n)")
    case (Some m)
    then have "name m = name n"
      using assms(1) wf_graphD(5) unfolding sub_of_def by (metis map_of_SomeD)
    with Some same [of m] show ?thesis by (simp add: fresh_or_same_def nodeExists_def)
  qed (simp add: fresh_or_same_def)
  then have wf: "wf_graph (addNode n ng)" using assms(1) wf_addNode by (simp add: sub_of_def)
  show e: "{m. nodeExists (addNode n ng) m} = insert n {m. nodeExists ng m}"
    using same by (auto simp: nodeExists_addNode split: if_splits)
  show c: "allConnections (addNode n ng) = allConnections ng" by (simp add: addNode_def allConnections_def)
  show "sub_of g (addNode n ng)"
    unfolding sub_of_def e c using wf assms by (auto simp: sub_of_def)
qed

lemma same_key:
  assumes "wf_graph g" "c \<in> conns g" "d \<in> conns g" "makeKey c = makeKey d"
  shows "c = d"
proof -
  from assms(2,3) obtain k l where kl: "(k, c) \<in> set (connections g)" "(l, d) \<in> set (connections g)"
    by (auto simp: allConnections_def)
  with wf_graphD(4) [OF assms(1)] assms(4) have "k = l" by metis
  with kl wf_graphD(2) [OF assms(1)] show ?thesis by (metis eq_key_imp_eq_value)
qed

lemma keepConnection:
  assumes "wf_graph g" "sub_of g ng" "c \<in> conns g"
  shows "\<exists>ng'. addConnection (as_input c) (addNodes [from_node c, to_node c] ng) = Inr ng' \<and> sub_of g ng' \<and>
    conns ng' = insert c (conns ng) \<and> {n. nodeExists ng' n} = {from_node c, to_node c} \<union> {n. nodeExists ng n}"
proof -
  define ng2 where "ng2 = addNodes [from_node c, to_node c] ng"
  have ends: "nodeExists g (from_node c)" "nodeExists g (to_node c)" using wf_graphD(3) [OF assms(1,3)] by simp_all
  note s1 = addNode_sub [OF assms(2) ends(1)] and s2 = addNode_sub [OF addNode_sub(1) [OF assms(2) ends(1)] ends(2)]
  have ng2: "sub_of g ng2" "{m. nodeExists ng2 m} = {from_node c, to_node c} \<union> {n. nodeExists ng n}"
    "allConnections ng2 = allConnections ng"
    using s1 s2 by (auto simp: ng2_def addNodes_def)
  define ng' where "ng' = setConnection c ng2"
  have ex: "nodeExists ng2 (from_node c)" "nodeExists ng2 (to_node c)" using ng2(2) by blast+
  then have "addConnection (as_input c) ng2 = Inr ng'" by (simp add: addConnection_as_input ng'_def)
  moreover have wf: "wf_graph ng'" using wf_setConnection ng2(1) ex unfolding ng'_def sub_of_def by blast
  moreover have c': "conns ng' = insert c (conns ng)"
  proof -
    have "conns ng' = insert c {d \<in> conns ng. makeKey d \<noteq> makeKey c}"
      using allConnections_setConnection ng2 unfolding ng'_def sub_of_def by simp
    moreover have "d = c" if "d \<in> conns ng" "makeKey d = makeKey c" for d
      using same_key [OF assms(1)] that assms(2,3) unfolding sub_of_def by blast
    ultimately show ?thesis by blast
  qed
  moreover have n': "{n. nodeExists ng' n} = {from_node c, to_node c} \<union> {n. nodeExists ng n}"
    using ng2(2) by (simp add: ng'_def)
  moreover have "sub_of g ng'"
    using wf ng2(1,2) assms(2,3) ends unfolding sub_of_def c' n' by blast
  ultimately show ?thesis unfolding ng2_def by blast
qed

definition ends_of :: "GraphConnection set \<Rightarrow> INode set" where
  "ends_of C = from_node ` C \<union> to_node ` C"

lemma keepConnections:
  assumes "wf_graph g" "sub_of g ng" "set cs \<subseteq> conns g"
  shows "\<exists>ng'. rfold (\<lambda>c ng. addConnection (as_input c) (addNodes [from_node c, to_node c] ng)) cs ng = Inr ng' \<and>
    sub_of g ng' \<and> conns ng' = set cs \<union> conns ng \<and> {n. nodeExists ng' n} = ends_of (set cs) \<union> {n. nodeExists ng n}"
  using assms(2,3)
proof (induction cs arbitrary: ng)
  case Nil
  then show ?case by (simp add: ends_of_def)
next
  case (Cons c cs)
  from Cons.prems(2) have "c \<in> conns g" by simp
  from keepConnection [OF assms(1) Cons.prems(1) this] obtain n1 where
    n1: "addConnection (as_input c) (addNodes [from_node c, to_node c] ng) = Inr n1" "sub_of g n1"
    "conns n1 = insert c (conns ng)" "{n. nodeExists n1 n} = {from_node c, to_node c} \<union> {n. nodeExists ng n}" by blast
  from Cons.IH [OF n1(2)] Cons.prems(2) obtain n2 where
    n2: "rfold (\<lambda>c ng. addConnection (as_input c) (addNodes [from_node c, to_node c] ng)) cs n1 = Inr n2" "sub_of g n2"
    "conns n2 = set cs \<union> conns n1" "{n. nodeExists n2 n} = ends_of (set cs) \<union> {n. nodeExists n1 n}"
    unfolding set_simps insert_subset by blast
  have "conns n2 = set (c # cs) \<union> conns ng" unfolding n2(3) n1(3) by auto
  moreover have "{n. nodeExists n2 n} = ends_of (set (c # cs)) \<union> {n. nodeExists ng n}"
    unfolding n2(4) n1(4) ends_of_def by auto
  ultimately show ?case using n1(1) n2(1,2) by simp
qed

section \<open>Branches\<close>

text \<open>\<open>chain d cs t\<close>: the connections \<open>cs\<close> lead backwards from \<open>d\<close> to \<open>t\<close>.\<close>

fun chain :: "INode \<Rightarrow> GraphConnection list \<Rightarrow> INode \<Rightarrow> bool" where
  "chain d [] t = (d = t)"
| "chain d (c # cs) t = (to_node c = d \<and> chain (from_node c) cs t)"

lemma chain_snoc: "chain d (cs @ [c]) t \<longleftrightarrow> chain d cs (to_node c) \<and> from_node c = t"
  by (induction cs arbitrary: d) auto

definition main_conns :: "DirectedGraph \<Rightarrow> GraphConnection set" where
  "main_conns g = {c \<in> conns g. conn_type c = Main}"

lemma chain_reaches:
  "chain d cs t \<Longrightarrow> set cs \<subseteq> main_conns g \<Longrightarrow>
     (t, d) \<in> (main_edge g)\<^sup>* \<and> (\<forall>n \<in> ends_of (set cs). (n, d) \<in> (main_edge g)\<^sup>*)"
proof (induction cs arbitrary: d)
  case Nil
  then show ?case by (simp add: ends_of_def)
next
  case (Cons c cs)
  from Cons.prems have e: "(from_node c, d) \<in> main_edge g" by (auto simp: main_conns_def main_edge_def)
  from Cons.IH [of "from_node c"] Cons.prems have
    "(t, from_node c) \<in> (main_edge g)\<^sup>*" "\<forall>n \<in> ends_of (set cs). (n, from_node c) \<in> (main_edge g)\<^sup>*" by simp_all
  moreover have "ends_of (set (c # cs)) = {from_node c, d} \<union> ends_of (set cs)"
    using Cons.prems(1) by (auto simp: ends_of_def)
  ultimately show ?case using e by (auto intro: rtrancl_into_rtrancl)
qed

text \<open>What one call adds.\<close>

definition leads_to :: "DirectedGraph \<Rightarrow> INode \<Rightarrow> INode set" where
  "leads_to g d = {n. (n, d) \<in> (main_edge g)\<^sup>*}"

definition sub_grows :: "DirectedGraph \<Rightarrow> INode \<Rightarrow> DirectedGraph \<Rightarrow> DirectedGraph \<Rightarrow> bool" where
  "sub_grows g d ng ng' \<longleftrightarrow>
     conns ng \<subseteq> conns ng' \<and> conns ng' \<subseteq> conns ng \<union> {c \<in> main_conns g. to_node c \<in> leads_to g d} \<and>
     {n. nodeExists ng n} \<subseteq> {n. nodeExists ng' n} \<and> {n. nodeExists ng' n} \<subseteq> {n. nodeExists ng n} \<union> leads_to g d"

lemma sub_grows_refl: "sub_grows g d ng ng"
  by (simp add: sub_grows_def)

lemma sub_grows_trans: "sub_grows g d a b \<Longrightarrow> sub_grows g d b c \<Longrightarrow> sub_grows g d a c"
  unfolding sub_grows_def by blast

lemma keepBranch_grows:
  assumes "wf_graph g" "sub_of g ng" "chain d branch x" "set branch \<subseteq> main_conns g"
  shows "\<exists>ng'. keepBranch branch ng = Inr ng' \<and> sub_of g ng' \<and> sub_grows g d ng ng' \<and> set branch \<subseteq> conns ng'"
proof -
  have "set branch \<subseteq> conns g" using assms(4) by (auto simp: main_conns_def)
  from keepConnections [OF assms(1,2) this] obtain ng' where
    ng': "keepBranch branch ng = Inr ng'" "sub_of g ng'" "conns ng' = set branch \<union> conns ng"
    "{n. nodeExists ng' n} = ends_of (set branch) \<union> {n. nodeExists ng n}"
    unfolding keepBranch_def by blast
  have "ends_of (set branch) \<subseteq> leads_to g d"
    using chain_reaches [OF assms(3,4)] unfolding leads_to_def by blast
  moreover have "to_node ` set branch \<subseteq> ends_of (set branch)" by (simp add: ends_of_def)
  ultimately have "sub_grows g d ng ng'"
    unfolding sub_grows_def ng'(3,4) using assms(4) by blast
  with ng' show ?thesis by blast
qed

text \<open>A backward path over \<open>main\<close> connections from \<open>x\<close> to the trigger that extends the branch
  without entering a node twice and touches the trigger at its end only.\<close>

definition extends :: "DirectedGraph \<Rightarrow> INode \<Rightarrow> GraphConnection list \<Rightarrow> INode \<Rightarrow> GraphConnection list \<Rightarrow> bool" where
  "extends g trigger branch x cs \<longleftrightarrow> chain x cs trigger \<and> set cs \<subseteq> main_conns g \<and>
     distinct (map to_node (branch @ cs)) \<and> trigger \<notin> to_node ` set cs"

lemma findSubgraphRecursive_correct:
  assumes "wf_graph g" "sub_of g ng" "nodeExists g x" "nodeExists g trigger"
    and "chain d branch x" "set branch \<subseteq> main_conns g"
  shows "\<exists>ng'. findSubgraphRecursive g d x trigger ng branch = Inr ng' \<and> sub_of g ng' \<and> sub_grows g d ng ng' \<and>
    (\<forall>cs. extends g trigger branch x cs \<longrightarrow> set (branch @ cs) \<subseteq> conns ng' \<and> nodeExists ng' trigger)"
  using assms
proof (induction g d x trigger ng branch rule: findSubgraphRecursive.induct)
  case (1 g d x trigger ng branch)
  note wf = "1.prems"(1) and sub = "1.prems"(2) and ch = "1.prems"(5,6)
  let ?done = "\<lambda>b y ng'. \<forall>cs. extends g trigger b y cs \<longrightarrow> set (b @ cs) \<subseteq> conns ng' \<and> nodeExists ng' trigger"
  let ?ps = "filter (\<lambda>c. to_node c = x) (allConnections g)"
  have ps: "getDirectParentConnections g x = Inr ?ps" using "1.prems"(3) by (simp add: getDirectParentConnections_Inr)
  consider (trig) "x = trigger" | (noparent) "x \<noteq> trigger" "?ps = []"
    | (visited) "x \<noteq> trigger" "?ps \<noteq> []" "x \<in> to_node ` set branch"
    | (rec) "x \<noteq> trigger" "?ps \<noteq> []" "x \<notin> to_node ` set branch" by blast
  then show ?case
  proof cases
    case trig
    have lead: "trigger \<in> leads_to g d"
      using chain_reaches [OF ch] trig by (simp add: leads_to_def)
    note a = addNode_sub [OF sub "1.prems"(4)]
    from keepBranch_grows [OF wf a(1) ch] obtain ng' where
      ng': "keepBranch branch (addNode trigger ng) = Inr ng'" "sub_of g ng'"
      "sub_grows g d (addNode trigger ng) ng'" "set branch \<subseteq> conns ng'" by blast
    have "sub_grows g d ng (addNode trigger ng)"
      unfolding sub_grows_def a(2,3) using lead by blast
    from sub_grows_trans [OF this ng'(3)] have gr: "sub_grows g d ng ng'" .
    have "cs = []" if "extends g trigger branch x cs" for cs
      using that trig by (cases cs) (auto simp: extends_def)
    moreover have "nodeExists ng' trigger" using ng'(3) a(2) unfolding sub_grows_def by blast
    ultimately have "?done branch x ng'" using ng'(4) by fastforce
    with ng' gr trig show ?thesis by (subst findSubgraphRecursive.simps) simp
  next
    case noparent
    have "\<not> extends g trigger branch x cs" for cs
      using noparent by (cases cs) (auto simp: extends_def main_conns_def filter_empty_conv)
    moreover have "findSubgraphRecursive g d x trigger ng branch = Inr ng"
      using noparent ps by (subst findSubgraphRecursive.simps) simp
    ultimately show ?thesis using sub sub_grows_refl by blast
  next
    case visited
    have no: "\<not> extends g trigger branch x cs" for cs
      using visited by (cases cs) (auto simp: extends_def)
    show ?thesis
    proof (cases "x = d")
      case True
      with visited ps have "findSubgraphRecursive g d x trigger ng branch = Inr ng"
        by (subst findSubgraphRecursive.simps) auto
      with no sub sub_grows_refl show ?thesis by blast
    next
      case False
      with visited ps have "findSubgraphRecursive g d x trigger ng branch = keepBranch branch ng"
        by (subst findSubgraphRecursive.simps) auto
      with no keepBranch_grows [OF wf sub ch] show ?thesis by auto
    qed
  next
    case rec
    define body where "body = (\<lambda>(p :: GraphConnection) ng. if conn_type p \<noteq> Main then Inr ng
      else findSubgraphRecursive g d (from_node p) trigger ng (branch @ [p]))"
    define Q where "Q = (\<lambda>(p :: GraphConnection) ng'. conn_type p = Main \<longrightarrow> ?done (branch @ [p]) (from_node p) ng')"
    have cyc: "\<not> (x = d \<and> (\<exists>c \<in> set branch. to_node c = d))" "\<not> (\<exists>c \<in> set branch. to_node c = x)"
      using rec(3) by auto
    have step: "\<exists>s'. body p s = Inr s' \<and> sub_of g s' \<and> sub_grows g d s s' \<and> Q p s'"
      if p: "p \<in> set ?ps" and s: "sub_of g s" for p s
    proof (cases "conn_type p = Main")
      case False
      then show ?thesis using s sub_grows_refl by (simp add: body_def Q_def)
    next
      case True
      have "nodeExists g (from_node p)" using wf_graphD(3) [OF wf] p by simp
      moreover have "chain d (branch @ [p]) (from_node p)" using ch(1) p by (simp add: chain_snoc)
      moreover have "set (branch @ [p]) \<subseteq> main_conns g" using ch(2) p True by (simp add: main_conns_def)
      moreover have "\<not> conn_type p \<noteq> Main" using True by simp
      ultimately have "\<exists>s'. findSubgraphRecursive g d (from_node p) trigger s (branch @ [p]) = Inr s' \<and>
          sub_of g s' \<and> sub_grows g d s s' \<and> ?done (branch @ [p]) (from_node p) s'"
        using "1.IH" [OF rec(1) ps rec(2) cyc p] wf s "1.prems"(4) by blast
      then show ?thesis using True unfolding body_def Q_def by simp
    qed
    have "\<exists>s'. rfold body ?ps ng = Inr s' \<and> sub_of g s' \<and> sub_grows g d ng s' \<and> (\<forall>p \<in> set ?ps. Q p s')"
    proof (rule rfold_grows [where I = "sub_of g"])
      show "Q p t" if "Q p s" "sub_grows g d s t" for p s t
        using that unfolding Q_def sub_grows_def by blast
    qed (use step sub sub_grows_refl sub_grows_trans in blast)+
    then obtain s' where s': "rfold body ?ps ng = Inr s'" "sub_of g s'" "sub_grows g d ng s'" "\<forall>p \<in> set ?ps. Q p s'"
      by blast
    have "set (branch @ cs) \<subseteq> conns s' \<and> nodeExists s' trigger" if ex: "extends g trigger branch x cs" for cs
    proof (cases cs)
      case Nil
      with ex rec(1) show ?thesis by (simp add: extends_def)
    next
      case (Cons c cs')
      with ex have "extends g trigger (branch @ [c]) (from_node c) cs'" "c \<in> set ?ps" "conn_type c = Main"
        by (auto simp: extends_def main_conns_def)
      with s'(4) have "set ((branch @ [c]) @ cs') \<subseteq> conns s' \<and> nodeExists s' trigger"
        unfolding Q_def by blast
      then show ?thesis unfolding Cons by simp
    qed
    moreover have "findSubgraphRecursive g d x trigger ng branch = Inr s'"
      by (subst findSubgraphRecursive.simps)
        (simp only: if_not_P [OF rec(1)] if_not_P [OF rec(2)] if_not_P [OF cyc(1)] if_not_P [OF cyc(2)]
           ps rbind_simps s'(1) [unfolded body_def])
    ultimately show ?thesis using s'(2,3) by blast
  qed
qed

section \<open>Sub-nodes\<close>

definition sub_node_grows :: "DirectedGraph \<Rightarrow> DirectedGraph \<Rightarrow> DirectedGraph \<Rightarrow> bool" where
  "sub_node_grows g ng ng' \<longleftrightarrow> conns ng \<subseteq> conns ng' \<and>
     conns ng' \<subseteq> conns ng \<union> {c \<in> conns g. conn_type c \<noteq> Main} \<and>
     {n. nodeExists ng n} \<subseteq> {n. nodeExists ng' n}"

lemma sub_node_grows_trans: "sub_node_grows g a b \<Longrightarrow> sub_node_grows g b c \<Longrightarrow> sub_node_grows g a c"
  unfolding sub_node_grows_def by blast

lemma rfold_filter:
  "rfold (\<lambda>x s. if P x then Inr s else f x s) xs s = rfold f (filter (\<lambda>x. \<not> P x) xs) s"
  by (induction xs arbitrary: s) (auto simp: rbind_def split: sum.splits)

lemma addSubNodes_correct:
  assumes "wf_graph g" "sub_of g sg" "nodeExists g n"
  shows "\<exists>sg'. addSubNodes g n sg = Inr sg' \<and> sub_of g sg' \<and> sub_node_grows g sg sg' \<and>
    {c \<in> conns g. conn_type c \<noteq> Main \<and> (to_node c, n) \<in> (edge g)\<^sup>*} \<subseteq> conns sg'"
proof -
  from getParentConnections_correct [OF assms(1,3)] obtain ps where
    ps: "getParentConnections g n = Inr ps" "set ps = {c \<in> conns g. (to_node c, n) \<in> (edge g)\<^sup>*}" by blast
  let ?ps = "filter (\<lambda>c. conn_type c \<noteq> Main) ps"
  have "set ?ps \<subseteq> conns g" using ps(2) by auto
  from keepConnections [OF assms(1,2) this] obtain sg' where
    sg': "rfold (\<lambda>c ng. addConnection (as_input c) (addNodes [from_node c, to_node c] ng)) ?ps sg = Inr sg'"
    "sub_of g sg'" "conns sg' = set ?ps \<union> conns sg" "{n. nodeExists sg' n} = ends_of (set ?ps) \<union> {n. nodeExists sg n}" by blast
  have "addSubNodes g n sg = Inr sg'"
    using sg'(1) by (simp add: addSubNodes_def ps(1) rfold_filter)
  moreover have "sub_node_grows g sg sg'" unfolding sub_node_grows_def sg'(3,4) using ps(2) by auto
  moreover have "{c \<in> conns g. conn_type c \<noteq> Main \<and> (to_node c, n) \<in> (edge g)\<^sup>*} \<subseteq> conns sg'"
    unfolding sg'(3) using ps(2) by auto
  ultimately show ?thesis using sg'(2) by blast
qed

lemma findSubgraph_two_phases:
  assumes "wf_graph g" "nodeExists g destination" "nodeExists g trigger"
  obtains s1 sg where
    "findSubgraphRecursive g destination destination trigger emptyGraph [] = Inr s1" "sub_of g s1"
    "sub_grows g destination emptyGraph s1"
    "\<And>cs. extends g trigger [] destination cs \<Longrightarrow> set cs \<subseteq> conns s1 \<and> nodeExists s1 trigger"
    "findSubgraph g destination trigger = Inr sg" "sub_of g sg" "sub_node_grows g s1 sg"
    "\<And>n. nodeExists s1 n \<Longrightarrow> {c \<in> conns g. conn_type c \<noteq> Main \<and> (to_node c, n) \<in> (edge g)\<^sup>*} \<subseteq> conns sg"
proof -
  from findSubgraphRecursive_correct [OF assms(1) sub_of_empty assms(2,3), of destination "[]"] obtain s1 where
    s1: "findSubgraphRecursive g destination destination trigger emptyGraph [] = Inr s1" "sub_of g s1"
    "sub_grows g destination emptyGraph s1"
    "\<forall>cs. extends g trigger [] destination cs \<longrightarrow> set ([] @ cs) \<subseteq> conns s1 \<and> nodeExists s1 trigger" by auto
  have in_g: "nodeExists g n" if "n \<in> set (getNodes s1)" for n
    using s1(2) that nodeExists_iff unfolding sub_of_def by blast
  have "\<exists>sg. rfold (addSubNodes g) (getNodes s1) s1 = Inr sg \<and> sub_of g sg \<and> sub_node_grows g s1 sg \<and>
    (\<forall>n \<in> set (getNodes s1). {c \<in> conns g. conn_type c \<noteq> Main \<and> (to_node c, n) \<in> (edge g)\<^sup>*} \<subseteq> conns sg)"
  proof (rule rfold_grows [where I = "sub_of g"])
    show "sub_node_grows g s s" for s by (simp add: sub_node_grows_def)
    show "{c \<in> conns g. conn_type c \<noteq> Main \<and> (to_node c, x) \<in> (edge g)\<^sup>*} \<subseteq> conns t"
      if "{c \<in> conns g. conn_type c \<noteq> Main \<and> (to_node c, x) \<in> (edge g)\<^sup>*} \<subseteq> conns s" "sub_node_grows g s t" for x s t
      using that unfolding sub_node_grows_def by blast
  qed (use addSubNodes_correct [OF assms(1)] in_g s1(2) sub_node_grows_trans in blast)+
  then obtain sg where sg: "rfold (addSubNodes g) (getNodes s1) s1 = Inr sg" "sub_of g sg" "sub_node_grows g s1 sg"
    "\<forall>n \<in> set (getNodes s1). {c \<in> conns g. conn_type c \<noteq> Main \<and> (to_node c, n) \<in> (edge g)\<^sup>*} \<subseteq> conns sg"
    by blast
  have f: "findSubgraph g destination trigger = Inr sg" using s1(1) sg(1) by (simp add: findSubgraph_def)
  show ?thesis
  proof (rule that [OF s1(1-3) _ f sg(2,3)])
    show "set cs \<subseteq> conns s1 \<and> nodeExists s1 trigger" if "extends g trigger [] destination cs" for cs
      using s1(4) that by simp
    show "{c \<in> conns g. conn_type c \<noteq> Main \<and> (to_node c, n) \<in> (edge g)\<^sup>*} \<subseteq> conns sg" if "nodeExists s1 n" for n
      using sg(4) that s1(2) nodeExists_iff unfolding sub_of_def by blast
  qed
qed

text \<open>A path over \<open>main\<close> connections from the trigger to the destination, listed backwards, that
  enters no node twice and never enters the trigger.\<close>

definition simple_path :: "DirectedGraph \<Rightarrow> INode \<Rightarrow> INode \<Rightarrow> GraphConnection list \<Rightarrow> bool" where
  "simple_path g trigger destination cs \<longleftrightarrow> chain destination cs trigger \<and> set cs \<subseteq> main_conns g \<and>
     distinct (map to_node cs) \<and> trigger \<notin> to_node ` set cs"

text \<open>C37: \<open>findSubgraph\<close> never fails on nodes of a well-formed graph and returns a well-formed part of
  it in which every \<open>main\<close> connection lies on a path to the destination. It contains every simple path
  from the trigger to the destination, together with all connections of other types into the nodes of
  such a path.\<close>

theorem findSubgraph_paths:
  assumes "wf_graph g" "nodeExists g destination" "nodeExists g trigger"
  shows "\<exists>sg. findSubgraph g destination trigger = Inr sg \<and> wf_graph sg \<and>
    set (getConnections sg None) \<subseteq> set (getConnections g None) \<and>
    (\<forall>c \<in> set (getConnections sg None). conn_type c = Main \<longrightarrow> (to_node c, destination) \<in> (main_edge g)\<^sup>*) \<and>
    (\<forall>cs. simple_path g trigger destination cs \<longrightarrow>
       nodeExists sg trigger \<and> set cs \<subseteq> set (getConnections sg None) \<and>
       (\<forall>n \<in> insert trigger (ends_of (set cs)).
          {c \<in> set (getConnections g None). to_node c = n \<and> conn_type c \<noteq> Main} \<subseteq> set (getConnections sg None)))"
  unfolding getConnections_all
proof -
  obtain s1 sg where
    "findSubgraphRecursive g destination destination trigger emptyGraph [] = Inr s1" and
    s1: "sub_of g s1" "sub_grows g destination emptyGraph s1"
    "\<And>cs. extends g trigger [] destination cs \<Longrightarrow> set cs \<subseteq> conns s1 \<and> nodeExists s1 trigger" and
    sg: "findSubgraph g destination trigger = Inr sg" "sub_of g sg" "sub_node_grows g s1 sg"
    "\<And>n. nodeExists s1 n \<Longrightarrow> {c \<in> conns g. conn_type c \<noteq> Main \<and> (to_node c, n) \<in> (edge g)\<^sup>*} \<subseteq> conns sg"
    by (rule findSubgraph_two_phases [OF assms]) blast
  have "conns s1 \<subseteq> {c \<in> main_conns g. to_node c \<in> leads_to g destination}"
    using s1(2) unfolding sub_grows_def by (simp add: allConnections_def emptyGraph_def)
  with sg(3) have main: "(to_node c, destination) \<in> (main_edge g)\<^sup>*" if "c \<in> conns sg" "conn_type c = Main" for c
    using that unfolding sub_node_grows_def leads_to_def by blast
  have path: "nodeExists sg trigger \<and> set cs \<subseteq> conns sg \<and>
      (\<forall>n \<in> insert trigger (ends_of (set cs)). {c \<in> conns g. to_node c = n \<and> conn_type c \<noteq> Main} \<subseteq> conns sg)"
    if "simple_path g trigger destination cs" for cs
  proof -
    have "extends g trigger [] destination cs" using that by (simp add: simple_path_def extends_def)
    from s1(3) [OF this] have cs: "set cs \<subseteq> conns s1" "nodeExists s1 trigger" by simp_all
    have "nodeExists s1 n" if "n \<in> ends_of (set cs)" for n
      using that cs(1) s1(1) wf_graphD(3) [of s1] unfolding ends_of_def sub_of_def by blast
    with cs(2) have "nodeExists s1 n" if "n \<in> insert trigger (ends_of (set cs))" for n using that by blast
    with sg(4) have "\<forall>n \<in> insert trigger (ends_of (set cs)). {c \<in> conns g. to_node c = n \<and> conn_type c \<noteq> Main} \<subseteq> conns sg"
      by blast
    with cs sg(3) show ?thesis unfolding sub_node_grows_def by blast
  qed
  have "wf_graph sg" "conns sg \<subseteq> conns g" using sg(2) by (simp_all add: sub_of_def)
  with sg(1) main path show "\<exists>sg. findSubgraph g destination trigger = Inr sg \<and> wf_graph sg \<and> conns sg \<subseteq> conns g \<and>
    (\<forall>c \<in> conns sg. conn_type c = Main \<longrightarrow> (to_node c, destination) \<in> (main_edge g)\<^sup>*) \<and>
    (\<forall>cs. simple_path g trigger destination cs \<longrightarrow> nodeExists sg trigger \<and> set cs \<subseteq> conns sg \<and>
      (\<forall>n \<in> insert trigger (ends_of (set cs)). {c \<in> conns g. to_node c = n \<and> conn_type c \<noteq> Main} \<subseteq> conns sg))"
    by (intro exI [of _ sg] conjI ballI impI allI) blast+
qed

text \<open>\<open>A\<close> to \<open>B\<close>; \<open>C\<close> and \<open>E\<close> form a cycle that also leads to \<open>B\<close> but that \<open>A\<close> does not reach.\<close>

definition nE :: INode where "nE = plainNode 6 ''E'' ''set''"

definition sideCycle :: DirectedGraph where
  "sideCycle = graph_of [nA, nB, nC, nE] [link nA nB, link nC nE, link nE nC, link nC nB]"

lemma findSubgraph_paths_witness:
  "\<exists>sg c. findSubgraph sideCycle nB nA = Inr sg \<and> wf_graph sg \<and> from_node c = nA \<and> to_node c = nB \<and>
     c \<in> set (getConnections sg None)"
proof -
  define c where "c = \<lparr>from_node = nA, to_node = nB, conn_type = Main, outputIndex = 0, inputIndex = 0\<rparr>"
  have 1: "wf_graph sideCycle" "nodeExists sideCycle nB" "nodeExists sideCycle nA" by code_simp+
  have "c \<in> set (allConnections sideCycle)" unfolding c_def by code_simp
  then have p: "simple_path sideCycle nA nB [c]"
    by (auto simp: simple_path_def main_conns_def c_def nA_def nB_def plainNode_def)
  from findSubgraph_paths [OF 1] obtain sg where sg: "findSubgraph sideCycle nB nA = Inr sg" "wf_graph sg"
    "\<forall>cs. simple_path sideCycle nA nB cs \<longrightarrow> nodeExists sg nA \<and> set cs \<subseteq> set (getConnections sg None) \<and>
       (\<forall>n \<in> insert nA (ends_of (set cs)).
          {c \<in> set (getConnections sideCycle None). to_node c = n \<and> conn_type c \<noteq> Main} \<subseteq> set (getConnections sg None))"
    by (elim exE conjE) (rule that)
  from sg(3) p have "c \<in> set (getConnections sg None)" by (metis insert_subset list.simps(15))
  moreover have "from_node c = nA" "to_node c = nB" by (simp_all add: c_def)
  ultimately show ?thesis using sg(1,2) by (intro exI conjI)
qed

text \<open>The subgraph is not limited to nodes that the trigger leads to: a cycle before the
  destination is kept although the trigger does not reach it.\<close>

theorem findSubgraph_keeps_unreachable_cycle:
  "map_sum id (\<lambda>sg. map name (getNodes sg)) (findSubgraph sideCycle nB nA) = Inr [''A'', ''B'', ''C'', ''E''] \<and>
   getChildren sideCycle nA = Inr [nB]"
  by (intro conjI) code_simp+

end
