(* ===== verification/CycleProps.thy ===== *)
theory CycleProps
  imports PartialExecution GraphTheorems
begin

text \<open>
  \<open>getStronglyConnectedComponents\<close> always returns, its components are disjoint, and \<open>handleCycles\<close>
  of \<^verbatim>\<open>handle-cycles.ts\<close> replaces the start nodes inside a component by the node where the trigger
  enters it.
\<close>

section \<open>The component search\<close>

definition tarjan_inv :: "DirectedGraph \<Rightarrow> TarjanState \<Rightarrow> bool" where
  "tarjan_inv g st \<longleftrightarrow>
     (\<forall>n \<in> set (visited st). map_of (ids st) n \<noteq> None \<and> map_of (lowLinkValues st) n \<noteq> None \<and> nodeExists g n) \<and>
     distinct (concat (components st) @ stack st) \<and> [] \<notin> set (components st) \<and>
     set (concat (components st) @ stack st) \<subseteq> set (visited st)"

lemma tarjan_inv_init: "tarjan_inv g initTarjan"
  by (simp add: tarjan_inv_def initTarjan_def)

lemma tarjan_inv_enter:
  "tarjan_inv g st \<Longrightarrow> nodeExists g n \<Longrightarrow> n \<notin> set (visited st) \<Longrightarrow> tarjan_inv g (enterNode n st)"
  unfolding tarjan_inv_def enterNode_def by (auto simp: amap.get_put)

lemma tarjan_inv_lower:
  assumes "tarjan_inv g st" "n \<in> set (visited st)" "child \<in> set (visited st)"
  shows "\<exists>st'. lowerLink n child st = Inr st' \<and> tarjan_inv g st' \<and> visited st' = visited st"
  using assms unfolding tarjan_inv_def lowerLink_def by (auto simp: amap.get_put split: option.splits)

lemma fold_set_add_distinct: "distinct (ys @ xs) \<Longrightarrow> fold set_add xs ys = ys @ xs"
  by (induction xs arbitrary: ys) (simp_all add: set_add_def)

lemma tarjan_inv_close:
  assumes inv: "tarjan_inv g st" and n: "n \<in> set (visited st)"
  shows "\<exists>st'. closeComponent n st = Inr st' \<and> tarjan_inv g st' \<and> visited st' = visited st"
proof -
  obtain i l where il: "map_of (ids st) n = Some i" "map_of (lowLinkValues st) n = Some l"
    using inv n unfolding tarjan_inv_def by blast
  show ?thesis
  proof (cases "i = l")
    case False
    with il inv show ?thesis by (simp add: closeComponent_def)
  next
    case True
    let ?P = "\<lambda>m. map_of (lowLinkValues st) m = Some i"
    define popped where "popped = takeWhile ?P (stack st)"
    define rest where "rest = dropWhile ?P (stack st)"
    have stack: "stack st = popped @ rest" by (simp add: popped_def rest_def)
    have d: "distinct (concat (components st) @ popped @ rest)"
      "set (concat (components st) @ popped @ rest) \<subseteq> set (visited st)"
      using inv unfolding tarjan_inv_def stack by simp_all
    have "fold set_add popped [] = popped" using d(1) by (intro fold_set_add_distinct [of "[]", simplified]) simp
    then have "closeComponent n st = Inr (if popped \<noteq> [] then st\<lparr>stack := rest, components := components st @ [popped]\<rparr>
        else st\<lparr>stack := rest\<rparr>)"
      using il True by (simp add: closeComponent_def Let_def popped_def rest_def)
    moreover have "tarjan_inv g (if popped \<noteq> [] then st\<lparr>stack := rest, components := components st @ [popped]\<rparr>
        else st\<lparr>stack := rest\<rparr>)"
      using inv d unfolding tarjan_inv_def by auto
    ultimately show ?thesis by simp
  qed
qed

lemma follow_total:
  "wf_graph g \<Longrightarrow> tarjan_inv g st \<Longrightarrow> nodeExists g n \<Longrightarrow>
     \<exists>st'. followNode g n st = Inr st' \<and> tarjan_inv g st' \<and> set (visited st) \<subseteq> set (visited st') \<and> n \<in> set (visited st')"
  "wf_graph g \<Longrightarrow> tarjan_inv g st \<Longrightarrow> n \<in> set (visited st) \<Longrightarrow> list_all (nodeExists g) cs \<Longrightarrow>
     \<exists>st'. followChildren g n cs st = Inr st' \<and> tarjan_inv g st' \<and> set (visited st) \<subseteq> set (visited st')"
proof (induction g n st and g n cs st rule: followNode_followChildren.induct)
  case (1 g n st)
  show ?case
  proof (cases "n \<in> set (visited st)")
    case True
    with "1.prems" show ?thesis by auto
  next
    case False
    let ?cs = "filter (\<lambda>c. from_node c = n) (allConnections g)"
    have cs: "getDirectChildConnections g n = Inr ?cs" using "1.prems"(3) by (simp add: getDirectChildConnections_Inr)
    have "list_all (nodeExists g) (map to_node ?cs)"
      using wf_graphD(3) [OF "1.prems"(1)] by (auto simp: list_all_iff)
    with "1.IH" [OF False cs "1.prems"(1) tarjan_inv_enter [OF "1.prems"(2,3) False]]
    obtain st1 where st1: "followChildren g n (map to_node ?cs) (enterNode n st) = Inr st1" "tarjan_inv g st1"
      "insert n (set (visited st)) \<subseteq> set (visited st1)" by auto
    then have "n \<in> set (visited st1)" by blast
    from tarjan_inv_close [OF st1(2) this] st1 False cs show ?thesis by auto
  qed
next
  case (2 g n st)
  then show ?case by simp
next
  case (3 g n child cs st)
  then obtain st1 where st1: "followNode g child st = Inr st1" "tarjan_inv g st1"
    "set (visited st) \<subseteq> set (visited st1)" "child \<in> set (visited st1)" by auto
  with "3.prems"(3) tarjan_inv_lower [OF st1(2), of n child] obtain st2 where
    st2: "lowerLink n child st1 = Inr st2" "tarjan_inv g st2" "visited st2 = visited st1" by blast
  have n2: "n \<in> set (visited st2)" using "3.prems"(3) st1(3) st2(3) by auto
  have "list_all (nodeExists g) cs" using "3.prems"(4) by simp
  from "3.IH"(2) [OF st1(1) st2(1) "3.prems"(1) st2(2) n2 this] obtain st3 where
    "followChildren g n cs st2 = Inr st3" "tarjan_inv g st3" "set (visited st2) \<subseteq> set (visited st3)" by blast
  with st1 st2 show ?case by auto
qed

lemma getStronglyConnectedComponents_total:
  assumes "wf_graph g"
  shows "\<exists>cs. getStronglyConnectedComponents g = Inr cs \<and> distinct (concat cs) \<and> [] \<notin> set cs \<and>
    set (concat cs) \<subseteq> set (getNodes g)"
proof -
  have "\<exists>st. rfold (followNode g) (getNodes g) initTarjan = Inr st \<and> tarjan_inv g st"
    by (rule rfold_invariant)
      (use follow_total(1) [OF assms] nodeExists_iff [OF assms] tarjan_inv_init in blast)+
  then obtain st where st: "rfold (followNode g) (getNodes g) initTarjan = Inr st" "tarjan_inv g st" by blast
  have "set (concat (components st)) \<subseteq> set (getNodes g)"
    using st(2) nodeExists_iff [OF assms] unfolding tarjan_inv_def by auto
  with st show ?thesis by (auto simp: getStronglyConnectedComponents_def tarjan_inv_def)
qed

section \<open>Replacing start nodes\<close>

lemma concat_disjoint:
  "distinct (concat cs) \<Longrightarrow> [] \<notin> set cs \<Longrightarrow> c \<in> set cs \<Longrightarrow> d \<in> set cs \<Longrightarrow> x \<in> set c \<Longrightarrow> x \<in> set d \<Longrightarrow> c = d"
  by (induction cs) auto

text \<open>The node where a search from the trigger enters a component.\<close>

definition entry :: "DirectedGraph \<Rightarrow> INode \<Rightarrow> INode list \<Rightarrow> INode" where
  "entry g trigger c = (case depthFirstSearch g trigger (\<lambda>n. n \<in> set c) of Inr (Some f) \<Rightarrow> f | _ \<Rightarrow> hd c)"

lemma entry_search:
  assumes "wf_graph g" "nodeExists g trigger" "s \<in> set c" "(trigger, s) \<in> (edge g)\<^sup>*"
  shows "depthFirstSearch g trigger (\<lambda>n. n \<in> set c) = Inr (Some (entry g trigger c))"
    "entry g trigger c \<in> set c" "(trigger, entry g trigger c) \<in> (edge g)\<^sup>*"
proof -
  from depthFirstSearch_correct [OF assms(1,2), of "\<lambda>n. n \<in> set c"] obtain r where
    r: "depthFirstSearch g trigger (\<lambda>n. n \<in> set c) = Inr r"
    "case r of Some m \<Rightarrow> m \<in> set c \<and> (trigger, m) \<in> (edge g)\<^sup>* | None \<Rightarrow> \<forall>m. (trigger, m) \<in> (edge g)\<^sup>* \<longrightarrow> m \<notin> set c"
    by blast
  with assms(3,4) obtain f where "r = Some f" by (cases r) auto
  with r show "depthFirstSearch g trigger (\<lambda>n. n \<in> set c) = Inr (Some (entry g trigger c))"
    "entry g trigger c \<in> set c" "(trigger, entry g trigger c) \<in> (edge g)\<^sup>*"
    by (simp_all add: entry_def)
qed

text \<open>The start nodes after one of them, and after the set \<open>P\<close> of them has been looked at.\<close>

definition moved :: "DirectedGraph \<Rightarrow> INode \<Rightarrow> INode list list \<Rightarrow> INode \<Rightarrow> INode set \<Rightarrow> INode set" where
  "moved g trigger cs s A =
     (if s \<in> set (concat cs) then (A - {s}) \<union> entry g trigger ` {c \<in> set cs. s \<in> set c} else A)"

definition replaced :: "DirectedGraph \<Rightarrow> INode \<Rightarrow> INode list list \<Rightarrow> INode set \<Rightarrow> INode set \<Rightarrow> INode set" where
  "replaced g trigger cs S P = (S - P \<inter> set (concat cs)) \<union> entry g trigger ` {c \<in> set cs. set c \<inter> P \<noteq> {}}"

lemma moved_Cons_other: "s \<notin> set c \<Longrightarrow> moved g trigger (c # cs) s A = moved g trigger cs s A"
proof -
  assume "s \<notin> set c"
  moreover from this have "{d \<in> set (c # cs). s \<in> set d} = {d \<in> set cs. s \<in> set d}" by auto
  ultimately show ?thesis unfolding moved_def by simp
qed

lemma moved_Cons_here:
  assumes "s \<in> set c" "s \<notin> set (concat cs)"
  shows "moved g trigger (c # cs) s A = insert (entry g trigger c) (A - {s})" "moved g trigger cs s B = B"
proof -
  have "{d \<in> set (c # cs). s \<in> set d} = {c}" using assms by auto
  then show "moved g trigger (c # cs) s A = insert (entry g trigger c) (A - {s})"
    using assms(1) unfolding moved_def by simp
  show "moved g trigger cs s B = B" using assms(2) unfolding moved_def by (rule if_not_P)
qed

lemma replaceStart_cycles:
  assumes "wf_graph g" "nodeExists g trigger" "(trigger, s) \<in> (edge g)\<^sup>*"
  shows "distinct (concat cs) \<Longrightarrow> distinct new \<Longrightarrow>
    \<exists>new'. rfold (replaceStart g trigger s) cs new = Inr new' \<and> distinct new' \<and> set new' = moved g trigger cs s (set new)"
proof (induction cs arbitrary: new)
  case Nil
  then show ?case by (simp add: moved_def)
next
  case (Cons c cs)
  have dist: "distinct (concat cs)" using Cons.prems(1) by simp
  show ?case
  proof (cases "s \<in> set c")
    case False
    then have "replaceStart g trigger s c new = Inr new" by (simp add: replaceStart_def)
    with Cons.IH [OF dist Cons.prems(2)] show ?thesis unfolding moved_Cons_other [OF False] by simp
  next
    case True
    with Cons.prems(1) have no: "s \<notin> set (concat cs)" by auto
    define n1 where "n1 = set_add (entry g trigger c) (set_remove s new)"
    have "replaceStart g trigger s c new = Inr n1"
      using True entry_search(1) [OF assms(1,2) True assms(3)] by (simp add: replaceStart_def n1_def)
    moreover have d1: "distinct n1" and "set n1 = insert (entry g trigger c) (set new - {s})"
      using Cons.prems(2) by (simp_all add: n1_def)
    ultimately show ?thesis
      using Cons.IH [OF dist d1] unfolding moved_Cons_here [OF True no] by simp
  qed
qed

lemma swap_entry:
  assumes "s \<in> C" "\<And>x. x \<in> E \<Longrightarrow> x = s \<Longrightarrow> x = e"
  shows "((S - P \<inter> C) \<union> E - {s}) \<union> {e} = (S - insert s P \<inter> C) \<union> insert e E"
  using assms by blast

lemma replaced_step:
  assumes "wf_graph g" "nodeExists g trigger" "distinct (concat cs)" "[] \<notin> set cs"
    and reach: "\<And>p. p \<in> P \<Longrightarrow> (trigger, p) \<in> (edge g)\<^sup>*" and "s \<in> S" "s \<notin> P"
  shows "moved g trigger cs s (replaced g trigger cs S P) = replaced g trigger cs S (insert s P)"
proof (cases "s \<in> set (concat cs)")
  case False
  then have "{c \<in> set cs. set c \<inter> insert s P \<noteq> {}} = {c \<in> set cs. set c \<inter> P \<noteq> {}}"
    "insert s P \<inter> set (concat cs) = P \<inter> set (concat cs)" by auto
  with False show ?thesis unfolding moved_def replaced_def by (simp only: if_False)
next
  case True
  then obtain c where c: "c \<in> set cs" "s \<in> set c" by auto
  have only: "d = c" if "d \<in> set cs" "s \<in> set d" for d
    using concat_disjoint [OF assms(3,4) that(1) c(1) that(2) c(2)] .
  have hit: "{d \<in> set cs. set d \<inter> insert s P \<noteq> {}} = insert c {d \<in> set cs. set d \<inter> P \<noteq> {}}"
    using c only by blast
  have one: "{d \<in> set cs. s \<in> set d} = {c}" using c only by blast
  have "x = entry g trigger c" if x: "x \<in> entry g trigger ` {d \<in> set cs. set d \<inter> P \<noteq> {}}" "x = s" for x
  proof -
    from x obtain d p where d: "d \<in> set cs" "entry g trigger d = s" and p: "p \<in> set d" "p \<in> P" by blast
    from entry_search(2) [OF assms(1,2) p(1) reach [OF p(2)]] d(2) have "s \<in> set d" by simp
    with only [OF d(1)] d(2) x(2) show ?thesis by blast
  qed
  from swap_entry [OF True this, where S = S and P = P] True show ?thesis
    unfolding moved_def replaced_def hit one by (simp only: if_True image_insert image_empty)
qed

lemma handleCycles_loop:
  assumes "wf_graph g" "nodeExists g trigger" "distinct (concat cs)" "[] \<notin> set cs"
    and "\<And>s. s \<in> set S0 \<Longrightarrow> (trigger, s) \<in> (edge g)\<^sup>*"
  shows "distinct S \<Longrightarrow> distinct new \<Longrightarrow> set new = replaced g trigger cs (set S0) P \<Longrightarrow> set S \<subseteq> set S0 \<Longrightarrow>
    P \<subseteq> set S0 \<Longrightarrow> P \<inter> set S = {} \<Longrightarrow>
    \<exists>new'. rfold (\<lambda>s. rfold (replaceStart g trigger s) cs) S new = Inr new' \<and> distinct new' \<and>
      set new' = replaced g trigger cs (set S0) (P \<union> set S)"
proof (induction S arbitrary: P new)
  case Nil
  then show ?case by simp
next
  case (Cons s S)
  have s: "s \<in> set S0" "s \<notin> P" using Cons.prems(4,6) by auto
  from replaceStart_cycles [OF assms(1,2) assms(5) [OF s(1)] assms(3) Cons.prems(2)] obtain n1 where
    n1: "rfold (replaceStart g trigger s) cs new = Inr n1" "distinct n1" "set n1 = moved g trigger cs s (set new)"
    by blast
  have "set n1 = replaced g trigger cs (set S0) (insert s P)"
    unfolding n1(3) Cons.prems(3)
    by (rule replaced_step [OF assms(1-4) _ s]) (use assms(5) Cons.prems(5) in blast)
  from Cons.IH [OF _ n1(2) this] Cons.prems have
    "\<exists>new'. rfold (\<lambda>s. rfold (replaceStart g trigger s) cs) S n1 = Inr new' \<and> distinct new' \<and>
      set new' = replaced g trigger cs (set S0) (insert s P \<union> set S)" by simp
  with n1(1) show ?case by simp
qed

text \<open>\<open>getStronglyConnectedComponents\<close> never fails on a well-formed graph, and the components it
  returns are non-empty, duplicate-free, pairwise disjoint and made of nodes of the graph.\<close>

theorem getStronglyConnectedComponents_disjoint:
  assumes "wf_graph g"
  shows "\<exists>cs. getStronglyConnectedComponents g = Inr cs \<and> [] \<notin> set cs \<and> distinct (concat cs) \<and>
    set (concat cs) \<subseteq> set (getNodes g)"
  using getStronglyConnectedComponents_total [OF assms] by blast

definition loopGraph :: DirectedGraph where
  "loopGraph = graph_of [nA, nB, nC] [link nA nB, link nB nC, link nC nB]"

lemma getStronglyConnectedComponents_disjoint_witness:
  "getStronglyConnectedComponents loopGraph = Inr [[nC, nB], [nA]] \<and> distinct (concat [[nC, nB], [nA]])"
proof -
  have "wf_graph loopGraph" by code_simp
  moreover have e: "getStronglyConnectedComponents loopGraph = Inr [[nC, nB], [nA]]" by code_simp
  ultimately show ?thesis using getStronglyConnectedComponents_disjoint [of loopGraph] by simp
qed

text \<open>When the trigger reaches every start node, \<open>handleCycles\<close> does not fail, keeps the start
  nodes outside all components and replaces those inside a component by the one node at which the
  search from the trigger enters it, which belongs to that component and is reachable.\<close>

theorem handleCycles_enters_cycles:
  assumes "wf_graph g" "nodeExists g trigger" "distinct S"
    and "list_all (\<lambda>s. (trigger, s) \<in> (edge g)\<^sup>*) S" "getStronglyConnectedComponents g = Inr cs"
  shows "\<exists>S'. handleCycles g S trigger = Inr S' \<and> distinct S' \<and>
    set S' = {s \<in> set S. s \<notin> set (concat cs)} \<union> entry g trigger ` {c \<in> set cs. set c \<inter> set S \<noteq> {}} \<and>
    {c \<in> set cs. set c \<inter> set S \<noteq> {}} \<subseteq>
      {c. depthFirstSearch g trigger (\<lambda>n. n \<in> set c) = Inr (Some (entry g trigger c)) \<and> entry g trigger c \<in> set c}"
proof -
  have reach: "(trigger, s) \<in> (edge g)\<^sup>*" if "s \<in> set S" for s using assms(4) that by (simp add: list_all_iff)
  from getStronglyConnectedComponents_total [OF assms(1)] assms(5) have
    cs: "distinct (concat cs)" "[] \<notin> set cs" by simp_all
  have "length c \<ge> 1" if "c \<in> set cs" for c using cs(2) that by (cases c) auto
  then have f: "filter (\<lambda>c. length c \<ge> 1) cs = cs" by (simp add: filter_id_conv)
  have r0: "set S = replaced g trigger cs (set S) {}" by (simp add: replaced_def)
  from handleCycles_loop [OF assms(1,2) cs reach assms(3,3) r0 order_refl empty_subsetI] obtain S' where
    S': "rfold (\<lambda>s. rfold (replaceStart g trigger s) cs) S S = Inr S'" "distinct S'"
    "set S' = replaced g trigger cs (set S) (set S)" by auto
  have h: "handleCycles g S trigger = Inr S'"
  proof (cases cs)
    case Nil
    have "rfold (\<lambda>s. rfold (replaceStart g trigger s) []) T x = Inr x" for T x by (induction T) simp_all
    with S'(1) Nil show ?thesis by (simp add: handleCycles_def assms(5))
  next
    case (Cons c cs')
    then have "\<not> length cs = 0" by simp
    then show ?thesis unfolding handleCycles_def assms(5) rbind_simps Let_def f using S'(1) by simp
  qed
  have "{c \<in> set cs. set c \<inter> set S \<noteq> {}} \<subseteq>
      {c. depthFirstSearch g trigger (\<lambda>n. n \<in> set c) = Inr (Some (entry g trigger c)) \<and> entry g trigger c \<in> set c}"
    using entry_search(1,2) [OF assms(1,2) _ reach] by blast
  moreover have "set S - set S \<inter> set (concat cs) = {s \<in> set S. s \<notin> set (concat cs)}" by blast
  ultimately show ?thesis using h S'(2,3) unfolding replaced_def by simp
qed

lemma handleCycles_enters_cycles_witness:
  "handleCycles loopGraph [nC] nA = Inr [nB] \<and> entry loopGraph nA [nC, nB] \<in> {nB}"
proof -
  have 1: "wf_graph loopGraph" "nodeExists loopGraph nA" by code_simp+
  have "getChildren loopGraph nA = Inr [nB, nC]" by code_simp
  with getChildren_correct [OF 1] have "(nA, nC) \<in> (edge loopGraph)\<^sup>+" by auto
  then have 2: "list_all (\<lambda>s. (nA, s) \<in> (edge loopGraph)\<^sup>*) [nC]" by simp
  have 3: "getStronglyConnectedComponents loopGraph = Inr [[nC, nB], [nA]]" by code_simp
  have 4: "handleCycles loopGraph [nC] nA = Inr [nB]" by code_simp
  have "distinct [nC]" by simp
  from handleCycles_enters_cycles [OF 1 this 2 3] 4 show ?thesis by auto
qed

section \<open>Roots with run data\<close>

text \<open>\<open>anyReachableRootHasRunData\<close> answers whether some node without incoming connections that
  leads to the destination over at least one connection has run data.\<close>

theorem anyReachableRootHasRunData_iff:
  assumes "wf_graph g"
  shows "anyReachableRootHasRunData g nm rd =
    Inr (\<exists>d r. map_of (nodes g) nm = Some d \<and> (r, d) \<in> (edge g)\<^sup>+ \<and>
      r \<notin> Range (edge g) \<and> map_of rd (name r) \<noteq> None)"
proof (cases "map_of (nodes g) nm")
  case None
  then show ?thesis by (simp add: anyReachableRootHasRunData_def)
next
  case (Some d)
  have d: "nodeExists g d"
    using Some wf_graphD(5) [OF assms, of nm d] by (simp add: nodeExists_def map_of_SomeD)
  from getParentConnections_correct [OF assms d] obtain pcs where
    pcs: "getParentConnections g d = Inr pcs" "set pcs = {c \<in> set (allConnections g). (to_node c, d) \<in> (edge g)\<^sup>*}" by blast
  define parents where "parents = fold (\<lambda>c. set_add (from_node c)) pcs []"
  have par: "set parents = from_node ` set pcs"
  proof -
    have "set (fold (\<lambda>c. set_add (from_node c)) cs xs) = set xs \<union> from_node ` set cs" for cs :: "GraphConnection list" and xs
      by (induction cs arbitrary: xs) auto
    then show ?thesis by (simp add: parents_def)
  qed
  have ex: "nodeExists g p" if "p \<in> set parents" for p
    using that wf_graphD(3) [OF assms] unfolding par pcs(2) by auto
  have "rfold (\<lambda>p roots. rbind (getDirectParentConnections g p) (\<lambda>ps.
      Inr (if \<not> length ps > 0 then set_add p roots else roots))) parents [] =
      Inr (fold (\<lambda>p roots. if p \<in> Range (edge g) then roots else set_add p roots) parents [])"
  proof (rule rfold_pure)
    fix p roots assume p: "p \<in> set parents"
    have "filter (\<lambda>c. to_node c = p) (allConnections g) = [] \<longleftrightarrow> p \<notin> Range (edge g)"
      by (auto simp: filter_empty_conv edge_def)
    with parentConnections_eq ex [OF p] show "rbind (getDirectParentConnections g p) (\<lambda>ps.
      Inr (if \<not> length ps > 0 then set_add p roots else roots)) =
      Inr (if p \<in> Range (edge g) then roots else set_add p roots)" by simp
  qed
  moreover have "set (fold (\<lambda>p roots. if p \<in> Range (edge g) then roots else set_add p roots) ps xs) =
      set xs \<union> {p \<in> set ps. p \<notin> Range (edge g)}" for ps xs
    by (induction ps arbitrary: xs) auto
  ultimately have a: "anyReachableRootHasRunData g nm rd =
      Inr (\<exists>r \<in> {p \<in> set parents. p \<notin> Range (edge g)}. map_of rd (name r) \<noteq> None)"
    unfolding anyReachableRootHasRunData_def by (simp add: Some pcs(1) Let_def parents_def [symmetric])
  have "from_node ` set pcs = {r. (r, d) \<in> (edge g)\<^sup>+}"
  proof (rule set_eqI, rule iffI)
    fix r assume "r \<in> from_node ` set pcs"
    then show "r \<in> {r. (r, d) \<in> (edge g)\<^sup>+}" unfolding pcs(2) using edgeI by (auto intro: rtrancl_into_trancl2)
  next
    fix r assume "r \<in> {r. (r, d) \<in> (edge g)\<^sup>+}"
    then obtain m where "(r, m) \<in> edge g" "(m, d) \<in> (edge g)\<^sup>*" by (auto dest: tranclD)
    then show "r \<in> from_node ` set pcs" unfolding pcs(2) by (force simp: edge_def)
  qed
  with a par show ?thesis by (auto simp: Some)
qed

lemma anyReachableRootHasRunData_iff_witness:
  "anyReachableRootHasRunData loopGraph ''C'' [(''A'', [])] = Inr True \<and>
   (\<exists>d r. map_of (nodes loopGraph) ''C'' = Some d \<and> (r, d) \<in> (edge loopGraph)\<^sup>+)"
proof -
  have 1: "wf_graph loopGraph" by code_simp
  have 2: "anyReachableRootHasRunData loopGraph ''C'' [(''A'', [])] = Inr True" by code_simp
  from anyReachableRootHasRunData_iff [OF 1, of "''C''" "[(''A'', [])]"] 2 have
    "\<exists>d r. map_of (nodes loopGraph) ''C'' = Some d \<and> (r, d) \<in> (edge loopGraph)\<^sup>+" by auto
  with 2 show ?thesis by simp
qed

end
