(* ===== verification/SourceGroups.thy ===== *)
theory SourceGroups
  imports DirectedGraph "HOL-Library.Multiset"
begin

text \<open>
  Grouping the incoming connections of a node into sets of inputs, from
  \<^verbatim>\<open>get-source-data-groups.ts\<close> of \<^verbatim>\<open>partial-execution-utils\<close>. \<open>String.prototype.localeCompare\<close>
  depends on the locale and is the parameter \<open>localeCompare\<close> of the model.
\<close>

section \<open>Sorting\<close>

text \<open>\<open>Array.prototype.sort\<close> with a consistent comparison function is a stable sort.\<close>

fun insort_cmp :: "('a \<Rightarrow> 'a \<Rightarrow> int) \<Rightarrow> 'a \<Rightarrow> 'a list \<Rightarrow> 'a list" where
  "insort_cmp cmp x [] = [x]"
| "insort_cmp cmp x (y # ys) = (if cmp x y \<le> 0 then x # y # ys else y # insort_cmp cmp x ys)"

definition sort_cmp :: "('a \<Rightarrow> 'a \<Rightarrow> int) \<Rightarrow> 'a list \<Rightarrow> 'a list" where
  "sort_cmp cmp xs = foldr (insort_cmp cmp) xs []"

lemma mset_insort_cmp [simp]: "mset (insort_cmp cmp x xs) = add_mset x (mset xs)"
  by (induction xs) auto

lemma mset_sort_cmp [simp]: "mset (sort_cmp cmp xs) = mset xs"
  unfolding sort_cmp_def by (induction xs) auto

lemma set_sort_cmp [simp]: "set (sort_cmp cmp xs) = set xs"
  by (metis mset_sort_cmp set_mset_mset)

definition sortByInputIndexThenByName ::
  "(string \<Rightarrow> string \<Rightarrow> int) \<Rightarrow> GraphConnection \<Rightarrow> GraphConnection \<Rightarrow> int" where
  "sortByInputIndexThenByName localeCompare c1 c2 =
     (if inputIndex c1 = inputIndex c2 then localeCompare (name (from_node c1)) (name (from_node c2))
      else int (inputIndex c1) - int (inputIndex c2))"

section \<open>Groups\<close>

record SourceConnectionGroup =
  complete :: bool
  grp_connections :: "GraphConnection list"

definition newGroup :: SourceConnectionGroup where
  "newGroup = \<lparr>complete = True, grp_connections = []\<rparr>"

definition sourceHasData :: "IRunData \<Rightarrow> IPinData \<Rightarrow> GraphConnection \<Rightarrow> bool" where
  "sourceHasData runData pinnedData c \<longleftrightarrow>
     map_of runData (name (from_node c)) \<noteq> None \<or> map_of pinnedData (name (from_node c)) \<noteq> None"

text \<open>\<open>findIndex\<close> followed by \<open>splice\<close>.\<close>

fun takeFirst :: "('a \<Rightarrow> bool) \<Rightarrow> 'a list \<Rightarrow> ('a \<times> 'a list) option" where
  "takeFirst P [] = None"
| "takeFirst P (x # xs) =
     (if P x then Some (x, xs) else map_option (\<lambda>(y, ys). (y, x # ys)) (takeFirst P xs))"

lemma takeFirst_Some:
  "takeFirst P xs = Some (y, ys) \<Longrightarrow> P y \<and> mset xs = add_mset y (mset ys) \<and> Suc (length ys) = length xs"
  by (induction xs arbitrary: ys) (auto split: if_splits)

lemma takeFirst_length: "takeFirst P xs = Some (y, ys) \<Longrightarrow> length xs = Suc (length ys)"
  using takeFirst_Some by metis

lemma takeFirst_None: "takeFirst P xs = None \<longleftrightarrow> (\<forall>x \<in> set xs. \<not> P x)"
  by (induction xs) auto

definition minInputIndex :: "GraphConnection list \<Rightarrow> GraphConnection list \<Rightarrow> int" where
  "minInputIndex withData withoutData =
     Min (set (map (\<lambda>c. int (inputIndex c)) (withData @ withoutData)))"

lemma minInputIndex_hit:
  assumes "withData \<noteq> [] \<or> withoutData \<noteq> []"
  shows "\<exists>c \<in> set withData \<union> set withoutData. int (inputIndex c) = minInputIndex withData withoutData"
proof -
  have "minInputIndex withData withoutData \<in> set (map (\<lambda>c. int (inputIndex c)) (withData @ withoutData))"
    unfolding minInputIndex_def using assms by (intro Min_in) auto
  then show ?thesis by auto
qed

text \<open>
  The \<open>while\<close> loop. When no connection is left for the next input, the group is closed and the
  index moves to the smallest input left, which is then found.
\<close>

function groupsLoop ::
  "GraphConnection list \<Rightarrow> GraphConnection list \<Rightarrow> int \<Rightarrow> SourceConnectionGroup
     \<Rightarrow> SourceConnectionGroup list \<Rightarrow> SourceConnectionGroup list" where
  "groupsLoop withData withoutData currentInputIndex currentGroup groups =
     (if withData = [] \<and> withoutData = [] then groups @ [currentGroup]
      else let i = currentInputIndex + 1 in
        case takeFirst (\<lambda>c. int (inputIndex c) = i) withData of
          Some (c, withData') \<Rightarrow>
            groupsLoop withData' withoutData i
              (currentGroup\<lparr>grp_connections := grp_connections currentGroup @ [c]\<rparr>) groups
        | None \<Rightarrow>
            (case takeFirst (\<lambda>c. int (inputIndex c) = i) withoutData of
               Some (c, withoutData') \<Rightarrow>
                 groupsLoop withData withoutData' i
                   (currentGroup\<lparr>grp_connections := grp_connections currentGroup @ [c], complete := False\<rparr>) groups
             | None \<Rightarrow>
                 groupsLoop withData withoutData (minInputIndex withData withoutData - 1) newGroup
                   (groups @ [currentGroup])))"
  by pat_completeness auto

termination groupsLoop
proof (relation "measure (\<lambda>(w, wo, i, cur, gs).
    2 * (length w + length wo) + (if i + 1 = minInputIndex w wo then 0 else 1))", goal_cases)
  case 1
  show ?case by simp
next
  case (2 w wo i cur gs j)
  then have "\<forall>c \<in> set w \<union> set wo. int (inputIndex c) \<noteq> i + 1" by (auto simp: takeFirst_None)
  with minInputIndex_hit [of w wo] 2(1) have "i + 1 \<noteq> minInputIndex w wo" by auto
  then show ?case by simp
next
  case (3 w wo i cur gs j p c wo')
  then have "length wo = Suc (length wo')" by (metis takeFirst_length)
  then show ?case by simp
next
  case (4 w wo i cur gs j p c w')
  then have "length w = Suc (length w')" by (metis takeFirst_length)
  then show ?case by simp
qed

declare groupsLoop.simps [simp del]

definition getSourceDataGroups ::
  "(string \<Rightarrow> string \<Rightarrow> int) \<Rightarrow> DirectedGraph \<Rightarrow> INode \<Rightarrow> IRunData \<Rightarrow> IPinData \<Rightarrow> SourceConnectionGroup list" where
  "getSourceDataGroups localeCompare g n runData pinnedData =
     (let conns = getConnections g (Some n);
          withData = filter (sourceHasData runData pinnedData) conns;
          withoutData = filter (\<lambda>c. \<not> sourceHasData runData pinnedData c \<and> conn_type c = Main) conns
      in if length withData = 0 \<and> length withoutData = 0 then []
         else let w = sort_cmp (sortByInputIndexThenByName localeCompare) withData;
                  wo = sort_cmp (sortByInputIndexThenByName localeCompare) withoutData
              in groupsLoop w wo (minInputIndex w wo - 1) newGroup [])"

section \<open>Lemmas\<close>

text \<open>A group over consecutive inputs, complete exactly when all its connections satisfy \<open>D\<close>.\<close>

fun consecutive :: "GraphConnection list \<Rightarrow> bool" where
  "consecutive (c # d # cs) \<longleftrightarrow> inputIndex d = Suc (inputIndex c) \<and> consecutive (d # cs)"
| "consecutive _ \<longleftrightarrow> True"

lemma consecutive_snoc:
  "consecutive (cs @ [d]) \<longleftrightarrow> consecutive cs \<and> (cs \<noteq> [] \<longrightarrow> inputIndex d = Suc (inputIndex (last cs)))"
  by (induction cs rule: consecutive.induct) auto

lemma consecutive_index: "consecutive cs \<Longrightarrow> i < length cs \<Longrightarrow> inputIndex (cs ! i) = inputIndex (hd cs) + i"
proof (induction cs arbitrary: i rule: consecutive.induct)
  case (1 c d cs)
  then show ?case by (cases i) auto
qed auto

definition good_group :: "(GraphConnection \<Rightarrow> bool) \<Rightarrow> SourceConnectionGroup \<Rightarrow> bool" where
  "good_group D grp \<longleftrightarrow> consecutive (grp_connections grp) \<and>
     (complete grp \<longleftrightarrow> (\<forall>c \<in> set (grp_connections grp). D c))"

definition group_conns :: "SourceConnectionGroup list \<Rightarrow> GraphConnection multiset" where
  "group_conns gs = (\<Sum>grp \<leftarrow> gs. mset (grp_connections grp))"

lemma group_conns_simps [simp]:
  "group_conns [] = {#}" "group_conns (grp # gs) = mset (grp_connections grp) + group_conns gs"
  "group_conns (gs @ hs) = group_conns gs + group_conns hs"
  by (simp_all add: group_conns_def)

definition loop_state :: "(GraphConnection \<Rightarrow> bool) \<Rightarrow> GraphConnection list \<Rightarrow> GraphConnection list \<Rightarrow> int
    \<Rightarrow> SourceConnectionGroup \<Rightarrow> bool" where
  "loop_state D w wo i cur \<longleftrightarrow> good_group D cur \<and> (\<forall>c \<in> set w. D c) \<and> (\<forall>c \<in> set wo. \<not> D c) \<and>
     (if grp_connections cur = [] then (w \<noteq> [] \<or> wo \<noteq> []) \<and> i + 1 = minInputIndex w wo
      else i = int (inputIndex (last (grp_connections cur))))"

lemma loop_state_add:
  assumes "loop_state D w wo i cur" "int (inputIndex c) = i + 1" "b = (complete cur \<and> D c)"
    "\<forall>c \<in> set w'. D c" "\<forall>c \<in> set wo'. \<not> D c"
  shows "loop_state D w' wo' (i + 1) (cur\<lparr>grp_connections := grp_connections cur @ [c], complete := b\<rparr>)"
  using assms unfolding loop_state_def good_group_def by (auto simp: consecutive_snoc split: if_splits)

lemma loop_state_new:
  assumes "loop_state D w wo i cur" "w \<noteq> [] \<or> wo \<noteq> []"
  shows "loop_state D w wo (minInputIndex w wo - 1) newGroup"
  using assms by (auto simp: loop_state_def good_group_def newGroup_def)

lemma groupsLoop_correct:
  "loop_state D w wo i cur \<Longrightarrow>
     (\<forall>grp \<in> set gs. good_group D grp \<and> grp_connections grp \<noteq> []) \<Longrightarrow>
     (\<forall>grp \<in> set (groupsLoop w wo i cur gs). good_group D grp \<and> grp_connections grp \<noteq> []) \<and>
     group_conns (groupsLoop w wo i cur gs) = group_conns gs + mset (grp_connections cur) + mset w + mset wo"
proof (induction w wo i cur gs rule: groupsLoop.induct)
  case (1 w wo i cur gs)
  show ?case
  proof (cases "w = [] \<and> wo = []")
    case True
    then have "groupsLoop w wo i cur gs = gs @ [cur]" by (subst groupsLoop.simps) simp
    moreover have "good_group D cur" "grp_connections cur \<noteq> []"
      using "1.prems"(1) True by (auto simp: loop_state_def split: if_splits)
    ultimately show ?thesis using "1.prems"(2) True by auto
  next
    case ne: False
    let ?P = "\<lambda>c. int (inputIndex c) = i + 1"
    have D: "\<forall>c \<in> set w. D c" "\<forall>c \<in> set wo. \<not> D c" using "1.prems"(1) by (simp_all add: loop_state_def)
    show ?thesis
    proof (cases "takeFirst ?P w")
      case (Some p)
      obtain c w' where p: "p = (c, w')" by force
      let ?cur = "cur\<lparr>grp_connections := grp_connections cur @ [c]\<rparr>"
      note t = takeFirst_Some [OF Some [unfolded p]]
      have sub: "set w = insert c (set w')" using t by (metis set_mset_add_mset_insert set_mset_mset)
      have e: "groupsLoop w wo i cur gs = groupsLoop w' wo (i + 1) ?cur gs"
        by (subst groupsLoop.simps) (simp add: if_not_P [OF ne] Some p)
      have "loop_state D w' wo (i + 1) (cur\<lparr>grp_connections := grp_connections cur @ [c], complete := complete cur\<rparr>)"
        by (rule loop_state_add [OF "1.prems"(1)]) (use t D sub in auto)
      then have "loop_state D w' wo (i + 1) ?cur" by simp
      from "1.IH"(3) [OF ne refl Some p [symmetric] this "1.prems"(2)] t show ?thesis unfolding e by simp
    next
      case none: None
      show ?thesis
      proof (cases "takeFirst ?P wo")
        case (Some p)
        obtain c wo' where p: "p = (c, wo')" by force
        let ?cur = "cur\<lparr>grp_connections := grp_connections cur @ [c], complete := False\<rparr>"
        note t = takeFirst_Some [OF Some [unfolded p]]
        have sub: "set wo = insert c (set wo')" using t by (metis set_mset_add_mset_insert set_mset_mset)
        have e: "groupsLoop w wo i cur gs = groupsLoop w wo' (i + 1) ?cur gs"
          by (subst groupsLoop.simps) (simp add: if_not_P [OF ne] none Some p)
        have "loop_state D w wo' (i + 1) ?cur"
          by (rule loop_state_add [OF "1.prems"(1)]) (use t D sub in auto)
        from "1.IH"(2) [OF ne refl none Some p [symmetric] this "1.prems"(2)] t show ?thesis unfolding e by simp
      next
        case None
        have e: "groupsLoop w wo i cur gs = groupsLoop w wo (minInputIndex w wo - 1) newGroup (gs @ [cur])"
          by (subst groupsLoop.simps) (simp add: if_not_P [OF ne] none None)
        have "i + 1 \<noteq> minInputIndex w wo"
        proof
          assume "i + 1 = minInputIndex w wo"
          with minInputIndex_hit [of w wo] ne obtain c where "c \<in> set w \<union> set wo" "int (inputIndex c) = i + 1" by auto
          with none None show False by (auto simp: takeFirst_None)
        qed
        with "1.prems"(1) have "good_group D cur" "grp_connections cur \<noteq> []"
          by (auto simp: loop_state_def split: if_splits)
        with "1.prems"(2) have "\<forall>grp \<in> set (gs @ [cur]). good_group D grp \<and> grp_connections grp \<noteq> []" by auto
        from "1.IH"(1) [OF ne refl none None loop_state_new [OF "1.prems"(1)] this] ne show ?thesis
          unfolding e by (simp add: newGroup_def)
      qed
    qed
  qed
qed

lemma getSourceDataGroups_correct:
  fixes lc g n rd pd
  defines "groups \<equiv> getSourceDataGroups lc g n rd pd"
  shows "(\<forall>grp \<in> set groups. good_group (sourceHasData rd pd) grp \<and> grp_connections grp \<noteq> [])"
    "group_conns groups = mset (filter (\<lambda>c. sourceHasData rd pd c \<or> conn_type c = Main) (getConnections g (Some n)))"
proof -
  let ?cs = "getConnections g (Some n)" and ?D = "sourceHasData rd pd"
  define w where "w = sort_cmp (sortByInputIndexThenByName lc) (filter ?D ?cs)"
  define wo where "wo = sort_cmp (sortByInputIndexThenByName lc) (filter (\<lambda>c. \<not> ?D c \<and> conn_type c = Main) ?cs)"
  have split: "mset (filter ?D cs) + mset (filter (\<lambda>c. \<not> ?D c \<and> conn_type c = Main) cs) =
      mset (filter (\<lambda>c. ?D c \<or> conn_type c = Main) cs)" for cs
    by (induction cs) auto
  have "(\<forall>grp \<in> set groups. good_group ?D grp \<and> grp_connections grp \<noteq> []) \<and> group_conns groups = mset w + mset wo"
  proof (cases "filter ?D ?cs = [] \<and> filter (\<lambda>c. \<not> ?D c \<and> conn_type c = Main) ?cs = []")
    case True
    then show ?thesis by (simp add: groups_def getSourceDataGroups_def w_def wo_def sort_cmp_def Let_def)
  next
    case False
    have e: "groups = groupsLoop w wo (minInputIndex w wo - 1) newGroup []"
      using False by (auto simp: groups_def getSourceDataGroups_def w_def wo_def Let_def)
    have "mset w \<noteq> {#} \<or> mset wo \<noteq> {#}" using False by (auto simp: w_def wo_def filter_empty_conv)
    then have "w \<noteq> [] \<or> wo \<noteq> []" by auto
    moreover have "\<forall>c \<in> set w. ?D c" "\<forall>c \<in> set wo. \<not> ?D c" by (simp_all add: w_def wo_def)
    ultimately have "loop_state ?D w wo (minInputIndex w wo - 1) newGroup"
      by (simp add: loop_state_def good_group_def newGroup_def)
    from groupsLoop_correct [OF this, of "[]"] show ?thesis by (simp add: e newGroup_def)
  qed
  then show "(\<forall>grp \<in> set groups. good_group ?D grp \<and> grp_connections grp \<noteq> [])"
    "group_conns groups = mset (filter (\<lambda>c. ?D c \<or> conn_type c = Main) ?cs)"
    using split [of ?cs] by (simp_all add: w_def wo_def)
qed

end
