(* ===== verification/ExecutionStack.thy ===== *)
theory ExecutionStack
  imports PartialExecution SourceGroups GraphTheorems
begin

text \<open>
  \<^verbatim>\<open>recreate-node-execution-stack.ts\<close> of \<^verbatim>\<open>partial-execution-utils\<close>: the execution stack and the
  waiting executions a partial execution starts from.
\<close>

section \<open>Waiting executions\<close>

definition addWaitingExecution ::
  "string \<Rightarrow> nat \<Rightarrow> NodeConnectionType \<Rightarrow> nat \<Rightarrow> INodeExecutionData list cell \<Rightarrow> IWaitingForExecution \<Rightarrow> IWaitingForExecution"
where
  "addWaitingExecution nodeName runIndex inputType inputIdx executionData w =
     (let waitingExecutionObject = obj_get w nodeName;
          taskDataConnections = obj_get waitingExecutionObject runIndex;
          executionDataList = arr_set inputIdx executionData (list_get taskDataConnections inputType)
      in AList.update nodeName (AList.update runIndex
           (AList.update inputType executionDataList taskDataConnections) waitingExecutionObject) w)"

definition addWaitingExecutionSource ::
  "string \<Rightarrow> nat \<Rightarrow> NodeConnectionType \<Rightarrow> nat \<Rightarrow> ISourceData cell \<Rightarrow> IWaitingForExecutionSource \<Rightarrow> IWaitingForExecutionSource"
where
  "addWaitingExecutionSource nodeName runIndex inputType inputIdx sourceData w =
     (let waitingExecutionSourceObject = obj_get w nodeName;
          taskDataConnectionsSource = obj_get waitingExecutionSourceObject runIndex;
          sourceDataList = arr_set inputIdx sourceData (list_get taskDataConnectionsSource inputType)
      in AList.update nodeName (AList.update runIndex
           (AList.update inputType sourceDataList taskDataConnectionsSource) waitingExecutionSourceObject) w)"

text \<open>\<open>waiting[nodeName][runIndex][inputType][inputIndex]\<close>\<close>

definition waiting_at ::
  "(string \<times> (nat \<times> (NodeConnectionType \<times> 'a cell list) list) list) list
     \<Rightarrow> string \<Rightarrow> nat \<Rightarrow> NodeConnectionType \<Rightarrow> nat \<Rightarrow> 'a cell" where
  "waiting_at w nodeName runIndex inputType inputIdx =
     arr_get (list_get (obj_get (obj_get w nodeName) runIndex) inputType) inputIdx"

lemma waiting_at_add:
  "waiting_at (addWaitingExecution nm r t i d w) nm' r' t' i' =
     (if (nm', r', t', i') = (nm, r, t, i) then d else waiting_at w nm' r' t' i')"
  by (auto simp: waiting_at_def addWaitingExecution_def Let_def obj_get_update list_get_update arr_get_set)

lemma waiting_at_addSource:
  "waiting_at (addWaitingExecutionSource nm r t i d w) nm' r' t' i' =
     (if (nm', r', t', i') = (nm, r, t, i) then d else waiting_at w nm' r' t' i')"
  by (auto simp: waiting_at_def addWaitingExecutionSource_def Let_def obj_get_update list_get_update arr_get_set)

section \<open>The stack\<close>

record StackState =
  nodeExecutionStack :: "IExecuteData list"
  waitingExecution :: IWaitingForExecution
  waitingExecutionSource :: IWaitingForExecutionSource

definition emptyStack :: StackState where
  "emptyStack = \<lparr>nodeExecutionStack = [], waitingExecution = [], waitingExecutionSource = []\<rparr>"

definition executeData :: "INode \<Rightarrow> INodeExecutionData list list \<Rightarrow> ISourceData list option \<Rightarrow> IExecuteData" where
  "executeData n incomingData sources =
     \<lparr>ed_node = n, ed_data = [(Main, map Val incomingData)],
      ed_source = map_option (\<lambda>s. [(Main, map Val s)]) sources, ed_runIndex = None, ed_metadata = None\<rparr>"

definition sourceOf :: "GraphConnection \<Rightarrow> nat \<Rightarrow> ISourceData" where
  "sourceOf c runIndex = \<lparr>previousNode = name (from_node c), previousNodeOutput = Some (outputIndex c),
     previousNodeRun = Some runIndex\<rparr>"

text \<open>One connection of a complete group: pinned data first, then the data of some run.\<close>

definition addIncoming ::
  "IRunData \<Rightarrow> IPinData \<Rightarrow> GraphConnection \<Rightarrow> INodeExecutionData list list \<times> ISourceData list
     \<Rightarrow> js_error + (INodeExecutionData list list \<times> ISourceData list)" where
  "addIncoming runData pinData c s =
     (case s of (incomingData, sources) \<Rightarrow>
       (case map_of pinData (name (from_node c)) of
          Some d \<Rightarrow> Inr (incomingData @ [d], sources @ [sourceOf c 0])
        | None \<Rightarrow>
            if map_of runData (name (from_node c)) = None then Inl AssertionError
            else rbind (getIncomingDataFromAnyRun runData (name (from_node c)) (conn_type c) (outputIndex c))
              (\<lambda>r. case r of
                 Some (d, runIndex) \<Rightarrow> Inr (incomingData @ [d], sources @ [sourceOf c runIndex])
               | None \<Rightarrow> Inr (incomingData, sources @ [sourceOf c 0]))))"

text \<open>One connection of an incomplete group; only run data counts here.\<close>

definition addWaiting ::
  "IRunData \<Rightarrow> string \<Rightarrow> nat \<Rightarrow> GraphConnection \<Rightarrow> StackState \<Rightarrow> js_error + StackState" where
  "addWaiting runData nodeName nextRunIndex c st =
     rbind (getIncomingDataFromAnyRun runData (name (from_node c)) (conn_type c) (outputIndex c)) (\<lambda>r.
       case r of
         None \<Rightarrow> Inr st
       | Some (d, _) \<Rightarrow> Inr (st
           \<lparr>waitingExecution := addWaitingExecution nodeName nextRunIndex (conn_type c) (inputIndex c) (Val d)
              (waitingExecution st),
            waitingExecutionSource := addWaitingExecutionSource nodeName nextRunIndex (conn_type c) (inputIndex c)
              (Val (sourceOf c nextRunIndex)) (waitingExecutionSource st)\<rparr>))"

definition addGroup ::
  "IRunData \<Rightarrow> IPinData \<Rightarrow> INode \<Rightarrow> SourceConnectionGroup \<Rightarrow> StackState \<Rightarrow> js_error + StackState" where
  "addGroup runData pinData startNode grp st =
     (if complete grp then
        rbind (rfold (addIncoming runData pinData) (grp_connections grp) ([], [])) (\<lambda>(incomingData, sources).
          Inr (st\<lparr>nodeExecutionStack := nodeExecutionStack st @ [executeData startNode incomingData (Some sources)]\<rparr>))
      else
        let nextRunIndex = (case map_of (waitingExecution st) (name startNode) of None \<Rightarrow> 0 | Some w \<Rightarrow> length w)
        in rfold (addWaiting runData (name startNode) nextRunIndex) (grp_connections grp) st)"

definition addStartNode ::
  "(string \<Rightarrow> string \<Rightarrow> int) \<Rightarrow> DirectedGraph \<Rightarrow> IRunData \<Rightarrow> IPinData \<Rightarrow> INode \<Rightarrow> StackState \<Rightarrow> js_error + StackState"
where
  "addStartNode localeCompare g runData pinData startNode st =
     rbind (getDirectParentConnections g startNode) (\<lambda>parents.
       let incoming = filter (\<lambda>c. conn_type c = Main) parents in
       if length incoming = 0 then
         Inr (st\<lparr>nodeExecutionStack := nodeExecutionStack st @ [executeData startNode [[plainItem []]] None]\<rparr>)
       else rfold (addGroup runData pinData startNode)
              (getSourceDataGroups localeCompare g startNode runData pinData) st)"

definition recreateNodeExecutionStack ::
  "(string \<Rightarrow> string \<Rightarrow> int) \<Rightarrow> DirectedGraph \<Rightarrow> INode list \<Rightarrow> IRunData \<Rightarrow> IPinData \<Rightarrow> js_error + StackState" where
  "recreateNodeExecutionStack localeCompare g startNodes runData pinData =
     (if \<exists>n \<in> set (getNodes g). isDisabled n then Inl AssertionError
      else rfold (addStartNode localeCompare g runData pinData) startNodes emptyStack)"

section \<open>What ends up on the stack\<close>

text \<open>The data and source of one connection; \<open>None\<close> when the source has run without output.\<close>

definition incoming_of :: "IRunData \<Rightarrow> IPinData \<Rightarrow> GraphConnection \<Rightarrow> (INodeExecutionData list \<times> nat) option" where
  "incoming_of rd pd c =
     (case map_of pd (name (from_node c)) of Some d \<Rightarrow> Some (d, 0)
      | None \<Rightarrow> (case getIncomingDataFromAnyRun rd (name (from_node c)) (conn_type c) (outputIndex c) of
                  Inr r \<Rightarrow> r | Inl _ \<Rightarrow> None))"

definition source_run :: "IRunData \<Rightarrow> IPinData \<Rightarrow> GraphConnection \<Rightarrow> nat" where
  "source_run rd pd c = (case incoming_of rd pd c of Some (_, k) \<Rightarrow> k | None \<Rightarrow> 0)"

definition reads_ok :: "IRunData \<Rightarrow> GraphConnection \<Rightarrow> bool" where
  "reads_ok rd c \<longleftrightarrow>
     (\<exists>r. getIncomingDataFromAnyRun rd (name (from_node c)) (conn_type c) (outputIndex c) = Inr r)"

lemma addIncoming_eq:
  assumes "sourceHasData rd pd c" "reads_ok rd c"
  shows "addIncoming rd pd c (inc, src) =
    Inr (inc @ (case incoming_of rd pd c of Some (d, _) \<Rightarrow> [d] | None \<Rightarrow> []), src @ [sourceOf c (source_run rd pd c)])"
  using assms unfolding reads_ok_def
  by (auto simp: addIncoming_def incoming_of_def source_run_def sourceHasData_def split: option.splits)

definition group_data :: "IRunData \<Rightarrow> IPinData \<Rightarrow> GraphConnection list \<Rightarrow> INodeExecutionData list list" where
  "group_data rd pd cs = concat (map (\<lambda>c. case incoming_of rd pd c of Some (d, _) \<Rightarrow> [d] | None \<Rightarrow> []) cs)"

lemma addIncoming_all:
  assumes "\<And>c. c \<in> set cs \<Longrightarrow> sourceHasData rd pd c \<and> reads_ok rd c"
  shows "rfold (addIncoming rd pd) cs (inc, src) =
    Inr (inc @ group_data rd pd cs, src @ map (\<lambda>c. sourceOf c (source_run rd pd c)) cs)"
  using assms
  by (induction cs arbitrary: inc src) (simp_all add: group_data_def addIncoming_eq)

text \<open>The stack entry of a complete group.\<close>

definition group_entry :: "IRunData \<Rightarrow> IPinData \<Rightarrow> INode \<Rightarrow> SourceConnectionGroup \<Rightarrow> IExecuteData" where
  "group_entry rd pd n grp = executeData n (group_data rd pd (grp_connections grp))
     (Some (map (\<lambda>c. sourceOf c (source_run rd pd c)) (grp_connections grp)))"

lemma addWaiting_all:
  assumes "\<And>c. c \<in> set cs \<Longrightarrow> reads_ok rd c"
  shows "\<exists>st'. rfold (addWaiting rd nm r) cs st = Inr st' \<and> nodeExecutionStack st' = nodeExecutionStack st"
proof (rule rfold_invariant [where I = "\<lambda>s :: StackState. nodeExecutionStack s = nodeExecutionStack st"])
  fix c and s :: StackState assume "c \<in> set cs" "nodeExecutionStack s = nodeExecutionStack st"
  with assms [of c] show "\<exists>s'. addWaiting rd nm r c s = Inr s' \<and> nodeExecutionStack s' = nodeExecutionStack st"
    by (auto simp: addWaiting_def reads_ok_def split: option.splits)
qed simp

lemma addGroup_eq:
  assumes "good_group (sourceHasData rd pd) grp" "\<And>c. c \<in> set (grp_connections grp) \<Longrightarrow> reads_ok rd c"
  shows "\<exists>st'. addGroup rd pd n grp st = Inr st' \<and>
    nodeExecutionStack st' = nodeExecutionStack st @ (if complete grp then [group_entry rd pd n grp] else [])"
proof (cases "complete grp")
  case True
  with assms have "\<And>c. c \<in> set (grp_connections grp) \<Longrightarrow> sourceHasData rd pd c \<and> reads_ok rd c"
    by (simp add: good_group_def)
  from addIncoming_all [OF this, of "grp_connections grp" "[]" "[]"] True show ?thesis
    by (simp add: addGroup_def group_entry_def)
next
  case False
  with addWaiting_all [OF assms(2)] show ?thesis by (simp add: addGroup_def Let_def)
qed

lemma addGroups_eq:
  assumes "\<And>grp. grp \<in> set gs \<Longrightarrow> good_group (sourceHasData rd pd) grp \<and> (\<forall>c \<in> set (grp_connections grp). reads_ok rd c)"
  shows "\<exists>st'. rfold (addGroup rd pd n) gs st = Inr st' \<and>
    nodeExecutionStack st' = nodeExecutionStack st @ map (group_entry rd pd n) (filter complete gs)"
  using assms
proof (induction gs arbitrary: st)
  case Nil
  then show ?case by simp
next
  case (Cons grp gs)
  from addGroup_eq [of rd pd grp n st] Cons.prems [of grp] obtain st1 where
    st1: "addGroup rd pd n grp st = Inr st1"
    "nodeExecutionStack st1 = nodeExecutionStack st @ (if complete grp then [group_entry rd pd n grp] else [])" by auto
  from Cons.IH [of st1] Cons.prems obtain st2 where "rfold (addGroup rd pd n) gs st1 = Inr st2"
    "nodeExecutionStack st2 = nodeExecutionStack st1 @ map (group_entry rd pd n) (filter complete gs)" by auto
  with st1 show ?case by simp
qed

text \<open>The stack entries of one start node.\<close>

definition node_entries ::
  "(string \<Rightarrow> string \<Rightarrow> int) \<Rightarrow> DirectedGraph \<Rightarrow> IRunData \<Rightarrow> IPinData \<Rightarrow> INode \<Rightarrow> IExecuteData list" where
  "node_entries lc g rd pd n =
     (if \<exists>c \<in> set (allConnections g). to_node c = n \<and> conn_type c = Main
      then map (group_entry rd pd n) (filter complete (getSourceDataGroups lc g n rd pd))
      else [executeData n [[plainItem []]] None])"

lemma group_conns_member: "grp \<in> set gs \<Longrightarrow> c \<in> set (grp_connections grp) \<Longrightarrow> c \<in># group_conns gs"
  by (induction gs) auto

lemma group_connection_in_graph:
  assumes "grp \<in> set (getSourceDataGroups lc g n rd pd)" "c \<in> set (grp_connections grp)"
  shows "c \<in> set (allConnections g)"
proof -
  from group_conns_member [OF assms] have "c \<in> set (getConnections g (Some n))"
    unfolding getSourceDataGroups_correct(2) by (simp add: set_mset_filter)
  then show ?thesis by (simp add: getConnections_def allConnections_def)
qed

lemma addStartNode_eq:
  assumes "nodeExists g n" "\<And>c. c \<in> set (allConnections g) \<Longrightarrow> reads_ok rd c"
  shows "\<exists>st'. addStartNode lc g rd pd n st = Inr st' \<and>
    nodeExecutionStack st' = nodeExecutionStack st @ node_entries lc g rd pd n"
proof (cases "\<exists>c \<in> set (allConnections g). to_node c = n \<and> conn_type c = Main")
  case False
  with assms(1) have "filter (\<lambda>c. conn_type c = Main) (filter (\<lambda>c. to_node c = n) (allConnections g)) = []"
    by (auto simp: filter_empty_conv)
  with assms(1) have "addStartNode lc g rd pd n st =
      Inr (st\<lparr>nodeExecutionStack := nodeExecutionStack st @ [executeData n [[plainItem []]] None]\<rparr>)"
    by (simp add: addStartNode_def parentConnections_eq Let_def)
  then show ?thesis unfolding node_entries_def if_not_P [OF False] by simp
next
  case True
  then have "filter (\<lambda>c. conn_type c = Main) (filter (\<lambda>c. to_node c = n) (allConnections g)) \<noteq> []"
    by (auto simp: filter_empty_conv)
  then have e: "addStartNode lc g rd pd n st = rfold (addGroup rd pd n) (getSourceDataGroups lc g n rd pd) st"
    using assms(1) by (simp add: addStartNode_def parentConnections_eq Let_def)
  have "\<exists>st'. rfold (addGroup rd pd n) (getSourceDataGroups lc g n rd pd) st = Inr st' \<and>
    nodeExecutionStack st' = nodeExecutionStack st @
      map (group_entry rd pd n) (filter complete (getSourceDataGroups lc g n rd pd))"
  proof (rule addGroups_eq)
    fix grp assume grp: "grp \<in> set (getSourceDataGroups lc g n rd pd)"
    with getSourceDataGroups_correct(1) have "good_group (sourceHasData rd pd) grp" by blast
    moreover have "\<forall>c \<in> set (grp_connections grp). reads_ok rd c"
      using group_connection_in_graph [OF grp] assms(2) by blast
    ultimately show "good_group (sourceHasData rd pd) grp \<and> (\<forall>c \<in> set (grp_connections grp). reads_ok rd c)" by blast
  qed
  with True show ?thesis by (simp add: e node_entries_def)
qed

lemma addStartNodes_eq:
  assumes "\<And>c. c \<in> set (allConnections g) \<Longrightarrow> reads_ok rd c" "\<And>n. n \<in> set ns \<Longrightarrow> nodeExists g n"
  shows "\<exists>st'. rfold (addStartNode lc g rd pd) ns st = Inr st' \<and>
    nodeExecutionStack st' = nodeExecutionStack st @ concat (map (node_entries lc g rd pd) ns)"
  using assms(2)
proof (induction ns arbitrary: st)
  case Nil
  then show ?case by simp
next
  case (Cons n ns)
  from addStartNode_eq [of g n rd lc pd st] assms(1) Cons.prems [of n] obtain st1 where
    st1: "addStartNode lc g rd pd n st = Inr st1"
    "nodeExecutionStack st1 = nodeExecutionStack st @ node_entries lc g rd pd n" by auto
  from Cons.IH [of st1] Cons.prems obtain st2 where "rfold (addStartNode lc g rd pd) ns st1 = Inr st2"
    "nodeExecutionStack st2 = nodeExecutionStack st1 @ concat (map (node_entries lc g rd pd) ns)" by auto
  with st1 show ?case by simp
qed

section \<open>Properties\<close>

text \<open>\<open>getSourceDataGroups\<close> partitions the incoming connections: every connection whose source
  has data, and every other \<open>main\<close> connection, is in exactly one group, once; no group is empty; the
  connections of a group are for consecutive inputs, one each; and a group is marked complete exactly
  when all its sources have run data or pinned data.\<close>

theorem getSourceDataGroups_partition:
  fixes localeCompare g n rd pd
  defines "groups \<equiv> getSourceDataGroups localeCompare g n rd pd"
  shows "mset (concat (map grp_connections groups)) =
      mset (filter (\<lambda>c. sourceHasData rd pd c \<or> conn_type c = Main) (getConnections g (Some n))) \<and>
    list_all (\<lambda>grp. grp_connections grp \<noteq> [] \<and>
      map inputIndex (grp_connections grp) =
        [inputIndex (hd (grp_connections grp))..<inputIndex (hd (grp_connections grp)) + length (grp_connections grp)] \<and>
      complete grp = list_all (sourceHasData rd pd) (grp_connections grp)) groups"
proof -
  have "mset (concat (map grp_connections gs)) = group_conns gs" for gs
    by (induction gs) auto
  moreover have "map inputIndex cs = [inputIndex (hd cs)..<inputIndex (hd cs) + length cs]" if "consecutive cs" for cs
    by (rule nth_equalityI) (use consecutive_index [OF that] in auto)
  ultimately show ?thesis
    using getSourceDataGroups_correct [of localeCompare g n rd pd] unfolding groups_def
    by (auto simp: list_all_iff good_group_def)
qed

lemma addStartNodes_missing:
  assumes "\<And>c. c \<in> set (allConnections g) \<Longrightarrow> reads_ok rd c" "\<exists>n \<in> set ns. \<not> nodeExists g n"
  shows "rfold (addStartNode lc g rd pd) ns st = Inl AssertionError"
  using assms(2)
proof (induction ns arbitrary: st)
  case (Cons n ns)
  show ?case
  proof (cases "nodeExists g n")
    case True
    from addStartNode_eq [OF this assms(1), of lc pd st] obtain st1 where "addStartNode lc g rd pd n st = Inr st1" by auto
    with Cons True show ?thesis by simp
  next
    case False
    then show ?thesis by (simp add: addStartNode_def getDirectParentConnections_def)
  qed
qed simp

text \<open>C38: when the run data can be read, that is when every run with data has data of the type of the connections that lead
  from its node, \<open>recreateNodeExecutionStack\<close> fails exactly when a node of the graph is disabled or a start node is not in the
  graph, and then with the assertion about it: the one about missing data never fails. Otherwise the stack gets, for
  each start node in order, one entry per complete group of its inputs, or a single entry with one empty item when
  no \<open>main\<close> connection leads to it. An entry names the source connections of its group in order.\<close>

theorem recreateNodeExecutionStack_entries:
  assumes "list_all (reads_ok rd) (getConnections g None)"
  shows "if list_all (\<lambda>n. \<not> isDisabled n) (getNodes g) \<and> list_all (nodeExists g) startNodes
    then \<exists>st. recreateNodeExecutionStack localeCompare g startNodes rd pd = Inr st \<and>
      nodeExecutionStack st = concat (map (\<lambda>n.
        if list_ex (\<lambda>c. to_node c = n \<and> conn_type c = Main) (getConnections g None)
        then map (group_entry rd pd n) (filter complete (getSourceDataGroups localeCompare g n rd pd))
        else [executeData n [[plainItem []]] None]) startNodes)
    else recreateNodeExecutionStack localeCompare g startNodes rd pd = Inl AssertionError"
proof -
  have cs: "getConnections g None = allConnections g" by (simp add: getConnections_def allConnections_def)
  have reads: "\<And>c. c \<in> set (allConnections g) \<Longrightarrow> reads_ok rd c" using assms by (simp add: cs list_all_iff)
  show ?thesis
  proof (cases "(\<exists>n \<in> set (getNodes g). isDisabled n) \<or> (\<exists>n \<in> set startNodes. \<not> nodeExists g n)")
    case True
    then have "recreateNodeExecutionStack localeCompare g startNodes rd pd = Inl AssertionError"
      using addStartNodes_missing [of g rd startNodes localeCompare pd emptyStack, OF reads] by (auto simp: recreateNodeExecutionStack_def)
    with True show ?thesis by (auto simp: list_all_iff)
  next
    case False
    then have "\<And>n. n \<in> set startNodes \<Longrightarrow> nodeExists g n" by blast
    from addStartNodes_eq [OF reads this, of startNodes localeCompare pd emptyStack] obtain st where
      st: "rfold (addStartNode localeCompare g rd pd) startNodes emptyStack = Inr st"
      "nodeExecutionStack st = concat (map (node_entries localeCompare g rd pd) startNodes)"
      by (auto simp: emptyStack_def)
    have "recreateNodeExecutionStack localeCompare g startNodes rd pd = Inr st"
      using False st(1) by (auto simp: recreateNodeExecutionStack_def)
    with st(2) False show ?thesis
      unfolding node_entries_def [abs_def] cs list_ex_iff list_all_iff by auto
  qed
qed

text \<open>A comparison of strings by code points, to instantiate the parameter.\<close>

fun codePointCompare :: "string \<Rightarrow> string \<Rightarrow> int" where
  "codePointCompare [] [] = 0"
| "codePointCompare [] (_ # _) = -1"
| "codePointCompare (_ # _) [] = 1"
| "codePointCompare (x # xs) (y # ys) =
     (let a = int (of_char x); b = int (of_char y) in if a = b then codePointCompare xs ys else a - b)"

definition linkTo :: "INode \<Rightarrow> INode \<Rightarrow> nat \<Rightarrow> ConnectionInput" where
  "linkTo a b i = (link a b)\<lparr>in_inputIndex := Some i\<rparr>"

definition runs_of :: "string list \<Rightarrow> IRunData" where
  "runs_of nms = map (\<lambda>nm. (nm, [run_of [plainItem [(''from'', JStr nm)]]])) nms"

definition mergeGraph :: DirectedGraph where
  "mergeGraph = graph_of [nA, nB, nC] [linkTo nA nC 0, linkTo nB nC 1]"

lemma recreateNodeExecutionStack_entries_witness:
  "\<exists>st. recreateNodeExecutionStack codePointCompare mergeGraph [nC] (runs_of [''A'', ''B'']) [] = Inr st \<and>
     map ed_node (nodeExecutionStack st) = [nC]"
proof -
  have 1: "list_all (\<lambda>n. \<not> isDisabled n) (getNodes mergeGraph)" "list_all (nodeExists mergeGraph) [nC]" by code_simp+
  have "list_all (\<lambda>c. \<not> isl (getIncomingDataFromAnyRun (runs_of [''A'', ''B'']) (name (from_node c)) (conn_type c) (outputIndex c)))
    (getConnections mergeGraph None)" by code_simp
  then have 2: "list_all (reads_ok (runs_of [''A'', ''B''])) (getConnections mergeGraph None)"
    unfolding list_all_iff reads_ok_def by (metis sum.collapse(2))
  have 3: "list_ex (\<lambda>c. to_node c = nC \<and> conn_type c = Main) (getConnections mergeGraph None)" by code_simp
  have 4: "length (filter complete (getSourceDataGroups codePointCompare mergeGraph nC (runs_of [''A'', ''B'']) [])) = 1" by code_simp
  from recreateNodeExecutionStack_entries [OF 2, of "[nC]" codePointCompare "[]"] 1 obtain st where
    st: "recreateNodeExecutionStack codePointCompare mergeGraph [nC] (runs_of [''A'', ''B'']) [] = Inr st"
    "nodeExecutionStack st = map (group_entry (runs_of [''A'', ''B'']) [] nC)
       (filter complete (getSourceDataGroups codePointCompare mergeGraph nC (runs_of [''A'', ''B'']) []))"
    unfolding if_P [OF conjI [OF 1]] list.map concat.simps append_Nil2 if_P [OF 3] by (elim exE conjE) (rule that)
  have r: "map ed_node (map (group_entry rd pd n) gs) = replicate (length gs) n" for rd pd n gs
    by (induction gs) (simp_all add: group_entry_def executeData_def)
  have "map ed_node (nodeExecutionStack st) = [nC]" unfolding st(2) r 4 by simp
  with st(1) show ?thesis by (intro exI conjI)
qed

definition gapGraph :: DirectedGraph where
  "gapGraph = graph_of [nA, nB, nC] [linkTo nA nC 0, linkTo nB nC 2]"

text \<open>A node whose connected inputs leave a gap is put on the stack once per side of the gap: with
  data for the inputs 0 and 2 of \<open>C\<close> there are two entries, each with data for one input only, and in
  the second one the data for input 2 stands at input 0.\<close>

theorem recreateNodeExecutionStack_splits_at_gap:
  "map_sum id (\<lambda>st. map ed_data (nodeExecutionStack st))
     (recreateNodeExecutionStack codePointCompare gapGraph [nC] (runs_of [''A'', ''B'']) []) =
   Inr [[(Main, [Val [plainItem [(''from'', JStr ''A'')]]])], [(Main, [Val [plainItem [(''from'', JStr ''B'')]]])]]"
  by code_simp

text \<open>In an incomplete group pinned data is lost: input 0 of \<open>C\<close> has pinned data and input 1 has
  none, yet nothing waits at input 0, whereas the same items as run data do wait there.\<close>

theorem recreateNodeExecutionStack_drops_pinned_data:
  "map_sum id (\<lambda>st. (nodeExecutionStack st, waitingExecution st))
     (recreateNodeExecutionStack codePointCompare mergeGraph [nC] [] [(''A'', [plainItem []])]) = Inr ([], []) \<and>
   map_sum id (\<lambda>st. (nodeExecutionStack st, waitingExecution st))
     (recreateNodeExecutionStack codePointCompare mergeGraph [nC] [(''A'', [run_of [plainItem []]])] []) =
       Inr ([], [(''C'', [(0, [(Main, [Val [plainItem []]])])])])"
  by (intro conjI) code_simp+

end
