(* ===== verification/WorkflowGraph.thy ===== *)
theory WorkflowGraph
  imports WorkflowTypes
begin

text \<open>
  The connections of a workflow and the walks over them: \<^verbatim>\<open>packages/workflow/src/common\<close> and the
  graph methods of the class \<open>Workflow\<close> of \<^verbatim>\<open>packages/workflow/src/workflow.ts\<close>. Plain objects are
  association lists; names that collide with properties of \<open>Object.prototype\<close> and names made of digits
  only, which JavaScript enumerates first, are outside the model.
\<close>

section \<open>Connected nodes\<close>

text \<open>All connections of an output array, in order.\<close>

definition flat :: "NodeInputConnections \<Rightarrow> IConnection list" where
  "flat outs = concat (map (cell_or []) outs)"

datatype ConnectionFilter = OfType NodeConnectionType | AllTypes | AllNonMain

definition typesOf :: "ConnectionFilter \<Rightarrow> INodeConnections \<Rightarrow> NodeConnectionType list" where
  "typesOf ct m = (case ct of
     AllTypes \<Rightarrow> map fst m | AllNonMain \<Rightarrow> filter (\<lambda>t. t \<noteq> Main) (map fst m) | OfType t \<Rightarrow> [t])"

text \<open>The inner \<open>for\<close> loop: from the last found node to the first, move it to the front.\<close>

definition mergeNodes :: "string list \<Rightarrow> string list \<Rightarrow> string list" where
  "mergeNodes found returnNodes = foldr (\<lambda>p ret. p # remove1 p ret) found returnNodes"

function getConnectedNodes ::
  "IConnections \<Rightarrow> string \<Rightarrow> ConnectionFilter \<Rightarrow> int \<Rightarrow> string list \<Rightarrow> string list" where
  "getConnectedNodes conns nodeName ct depth checkedIncoming =
     (let newDepth = (if depth = -1 then depth else depth - 1) in
      if depth = 0 then []
      else case map_of conns nodeName of
        None \<Rightarrow> []
      | Some m \<Rightarrow>
          fold (\<lambda>t returnNodes.
            case map_of m t of
              None \<Rightarrow> returnNodes
            | Some outs \<Rightarrow>
                if nodeName \<in> set checkedIncoming then returnNodes
                else let checked = checkedIncoming @ [nodeName] in
                  fold (\<lambda>c returnNodes.
                    if c_node c \<in> set checked then returnNodes
                    else mergeNodes (getConnectedNodes conns (c_node c) ct newDepth checked) (c_node c # returnNodes))
                  (flat outs) returnNodes)
          (typesOf ct m) [])"
  by pat_completeness auto

termination getConnectedNodes
proof (relation "measure (\<lambda>(conns, nodeName, ct, depth, checked). card (fst ` set conns - set checked))", goal_cases)
  case 1
  show ?case by simp
next
  case (2 conns nodeName ct depth checkedIncoming newDepth m t ret outs checked c ret')
  then have "nodeName \<in> fst ` set conns" by (force dest: map_of_SomeD)
  with 2 card_visit [of "fst ` set conns" nodeName "set checkedIncoming"] show ?case by simp
qed

declare getConnectedNodes.simps [simp del]

definition getChildNodes :: "IConnections \<Rightarrow> string \<Rightarrow> ConnectionFilter \<Rightarrow> int \<Rightarrow> string list" where
  "getChildNodes connectionsBySource nodeName ct depth = getConnectedNodes connectionsBySource nodeName ct depth []"

definition getParentNodes :: "IConnections \<Rightarrow> string \<Rightarrow> ConnectionFilter \<Rightarrow> int \<Rightarrow> string list" where
  "getParentNodes connectionsByDestination nodeName ct depth =
     getConnectedNodes connectionsByDestination nodeName ct depth []"

definition getNodeByName :: "INode list \<Rightarrow> string \<Rightarrow> INode option" where
  "getNodeByName ns nm = List.find (\<lambda>n. name n = nm) ns"

section \<open>Connections by destination\<close>

definition addDestination ::
  "string \<Rightarrow> NodeConnectionType \<Rightarrow> nat \<Rightarrow> IConnection \<Rightarrow> IConnections \<Rightarrow> IConnections" where
  "addDestination sourceNode t inputIdx c ret =
     (let m = obj_get ret (c_node c);
          l = list_get m (c_type c);
          l1 = l @ replicate (Suc (c_index c) - length l) (Val []);
          entry = \<lparr>c_node = sourceNode, c_type = t, c_index = inputIdx\<rparr>;
          l2 = l1[c_index c := (case l1 ! c_index c of Val xs \<Rightarrow> Val (xs @ [entry]) | x \<Rightarrow> x)]
      in AList.update (c_node c) (AList.update (c_type c) l2 m) ret)"

definition mapConnectionsByDestination :: "IConnections \<Rightarrow> IConnections" where
  "mapConnectionsByDestination conns =
     fold (\<lambda>(sourceNode, m). fold (\<lambda>(t, outs). fold (\<lambda>(i, cell).
       fold (addDestination sourceNode t i) (cell_or [] cell)) (with_index outs)) m) conns []"

text \<open>The class \<open>Workflow\<close> has the same loops a second time, as a static method.\<close>

definition getConnectionsByDestination :: "IConnections \<Rightarrow> IConnections" where
  "getConnectionsByDestination conns = mapConnectionsByDestination conns"

section \<open>The class Workflow\<close>

record INodeType =
  nt_name :: string
  nt_trigger :: bool
  nt_poll :: bool
  nt_group_trigger :: bool

text \<open>\<open>nodeTypes\<close> is the registry of node types, code outside the repository part modelled here: the
  methods that use it take it as an argument.\<close>

record Workflow =
  wf_nodes :: "(string \<times> INode) list"
  connectionsBySourceNode :: IConnections
  connectionsByDestinationNode :: IConnections
  wf_pinData :: "IPinData option"

definition setNodes :: "INode list \<Rightarrow> Workflow \<Rightarrow> Workflow" where
  "setNodes ns w = w\<lparr>wf_nodes := fold (\<lambda>n. AList.update (name n) n) ns []\<rparr>"

definition setConnections :: "IConnections \<Rightarrow> Workflow \<Rightarrow> Workflow" where
  "setConnections conns w = w\<lparr>connectionsBySourceNode := conns,
     connectionsByDestinationNode := mapConnectionsByDestination conns\<rparr>"

definition setPinData :: "IPinData option \<Rightarrow> Workflow \<Rightarrow> Workflow" where
  "setPinData pd w = w\<lparr>wf_pinData := pd\<rparr>"

definition newWorkflow :: "INode list \<Rightarrow> IConnections \<Rightarrow> IPinData option \<Rightarrow> Workflow" where
  "newWorkflow ns conns pd = setPinData pd (setConnections conns (setNodes ns
     \<lparr>wf_nodes = [], connectionsBySourceNode = [], connectionsByDestinationNode = [], wf_pinData = None\<rparr>))"

definition queryNodes :: "(INode \<Rightarrow> INodeType option) \<Rightarrow> (INodeType \<Rightarrow> bool) \<Rightarrow> Workflow \<Rightarrow> INode list" where
  "queryNodes nodeTypes checkFunction w =
     filter (\<lambda>n. disabled n \<noteq> Some True \<and> (case nodeTypes n of None \<Rightarrow> False | Some t \<Rightarrow> checkFunction t))
       (map snd (wf_nodes w))"

definition getTriggerNodes :: "(INode \<Rightarrow> INodeType option) \<Rightarrow> Workflow \<Rightarrow> INode list" where
  "getTriggerNodes nodeTypes w = queryNodes nodeTypes nt_trigger w"

definition getPollNodes :: "(INode \<Rightarrow> INodeType option) \<Rightarrow> Workflow \<Rightarrow> INode list" where
  "getPollNodes nodeTypes w = queryNodes nodeTypes nt_poll w"

definition getNode :: "Workflow \<Rightarrow> string \<Rightarrow> INode option" where
  "getNode w nodeName = map_of (wf_nodes w) nodeName"

definition getNodesOf :: "Workflow \<Rightarrow> string list \<Rightarrow> INode list" where
  "getNodesOf w nodeNames = List.map_filter (getNode w) nodeNames"

definition getPinDataOfNode :: "Workflow \<Rightarrow> string \<Rightarrow> INodeExecutionData list option" where
  "getPinDataOfNode w nodeName = (case wf_pinData w of None \<Rightarrow> None | Some pd \<Rightarrow> map_of pd nodeName)"

text \<open>
  \<open>renameNode\<close>, without the expressions inside the node parameters, which are not part of the model.
  \<open>toLower\<close> is \<open>String.prototype.toLowerCase\<close>, of which only the letters of the keys matter.
\<close>

definition restrictedKeys :: "string list" where
  "restrictedKeys = [''hasOwnProperty'', ''isPrototypeOf'', ''propertyIsEnumerable'', ''toLocaleString'',
     ''toString'', ''valueOf'', ''constructor'', ''prototype'', ''__proto__'', ''__defineGetter__'',
     ''__defineSetter__'', ''__lookupGetter__'', ''__lookupSetter__'']"

definition lower_char :: "char \<Rightarrow> char" where
  "lower_char c = (let n = of_char c in if 65 \<le> n \<and> n \<le> (90 :: nat) then char_of (n + 32) else c)"

definition renameOwn :: "string \<Rightarrow> string \<Rightarrow> Workflow \<Rightarrow> Workflow" where
  "renameOwn currentName newName w = (case map_of (wf_nodes w) currentName of
     None \<Rightarrow> w
   | Some n \<Rightarrow> w\<lparr>wf_nodes := AList.delete currentName (AList.update newName (n\<lparr>name := newName\<rparr>) (wf_nodes w))\<rparr>)"

definition renameSources :: "string \<Rightarrow> string \<Rightarrow> Workflow \<Rightarrow> Workflow" where
  "renameSources currentName newName w = (case map_of (connectionsBySourceNode w) currentName of
     None \<Rightarrow> w
   | Some m \<Rightarrow> w\<lparr>connectionsBySourceNode := AList.delete currentName (AList.update newName m (connectionsBySourceNode w))\<rparr>)"

definition renameTargets :: "string \<Rightarrow> string \<Rightarrow> Workflow \<Rightarrow> Workflow" where
  "renameTargets currentName newName w =
     (let renameTarget = (\<lambda>c. if c_node c = currentName then c\<lparr>c_node := newName\<rparr> else c);
          renameCell = (\<lambda>cell. case cell of Val cs \<Rightarrow> Val (map renameTarget cs) | x \<Rightarrow> x)
      in w\<lparr>connectionsBySourceNode :=
           map (\<lambda>(k, m). (k, map (\<lambda>(t, outs). (t, map renameCell outs)) m)) (connectionsBySourceNode w)\<rparr>)"

definition renameNode :: "string \<Rightarrow> string \<Rightarrow> Workflow \<Rightarrow> js_error + Workflow" where
  "renameNode currentName newName w =
     (if map lower_char newName \<in> set (map (map lower_char) restrictedKeys) then Inl (UserError newName)
      else Inr (renameTargets currentName newName (renameSources currentName newName (renameOwn currentName newName w))))"

section \<open>Highest parents and start nodes\<close>

text \<open>
  \<open>getHighestNode\<close>: \<open>highestLoop\<close> is the body of both loops over the connections of one node, with
  the shared array \<open>checkedNodes\<close> threaded. The recursive call of the source is unfolded once, so that
  the loop calls itself on the connections of the parent.
\<close>

definition ownHighest :: "Workflow \<Rightarrow> string \<Rightarrow> string list" where
  "ownHighest w nodeName =
     (case map_of (wf_nodes w) nodeName of None \<Rightarrow> [] | Some n \<Rightarrow> if disabled n = Some False then [nodeName] else [])"

definition mainInputs :: "Workflow \<Rightarrow> string \<Rightarrow> NodeInputConnections option" where
  "mainInputs w nodeName = (case map_of (connectionsByDestinationNode w) nodeName of
     None \<Rightarrow> None | Some m \<Rightarrow> map_of m Main)"

definition orParent :: "Workflow \<Rightarrow> string \<Rightarrow> string list \<Rightarrow> string list" where
  "orParent w parent found =
     (if found \<noteq> [] then found
      else case map_of (wf_nodes w) parent of
        Some n \<Rightarrow> if disabled n \<noteq> Some True then [parent] else [] | None \<Rightarrow> [])"

function highestLoop :: "Workflow \<Rightarrow> IConnection list \<Rightarrow> string list \<Rightarrow> string list \<Rightarrow> string list \<times> string list" where
  "highestLoop w [] ret checked = (ret, checked)"
| "highestLoop w (c # cs) ret checked =
     (if c_node c \<in> set checked then highestLoop w cs ret checked
      else if map_of (wf_nodes w) (c_node c) = None then highestLoop w cs ret checked
      else case mainInputs w (c_node c) of
        None \<Rightarrow> highestLoop w cs (fold set_add (orParent w (c_node c) (ownHighest w (c_node c))) ret) checked
      | Some ins \<Rightarrow>
          (case highestLoop w (flat ins) [] (checked @ [c_node c]) of (found, checked') \<Rightarrow>
             highestLoop w cs (fold set_add (orParent w (c_node c) found) ret) checked'))"
  by pat_completeness auto

lemma highestLoop_grows_dom:
  "highestLoop_dom (w, cs, ret, checked) \<Longrightarrow> highestLoop w cs ret checked = (ret', checked') \<Longrightarrow>
     set checked \<subseteq> set checked'"
proof (induction w cs ret checked arbitrary: ret' checked' rule: highestLoop.pinduct)
  case (1 w ret checked)
  then show ?case by (simp add: highestLoop.psimps)
next
  case (2 w c cs ret checked)
  note run = "2.prems" [unfolded highestLoop.psimps(2) [OF "2.hyps"]]
  show ?case
  proof (cases "c_node c \<in> set checked")
    case True
    with run "2.IH"(1) show ?thesis by simp
  next
    case new: False
    show ?thesis
    proof (cases "map_of (wf_nodes w) (c_node c)")
      case None
      with run new "2.IH"(2) show ?thesis by simp
    next
      case (Some n)
      then have known: "map_of (wf_nodes w) (c_node c) \<noteq> None" by simp
      show ?thesis
      proof (cases "mainInputs w (c_node c)")
        case None
        with run new Some have
          "highestLoop w cs (fold set_add (orParent w (c_node c) (ownHighest w (c_node c))) ret) checked = (ret', checked')"
          by simp
        then show ?thesis by (rule "2.IH"(3) [OF new known None])
      next
        case ins: (Some ins)
        obtain found ch1 where 1: "highestLoop w (flat ins) [] (checked @ [c_node c]) = (found, ch1)" by force
        with run new Some ins have
          2: "highestLoop w cs (fold set_add (orParent w (c_node c) found) ret) ch1 = (ret', checked')" by simp
        have "set (checked @ [c_node c]) \<subseteq> set ch1" by (rule "2.IH"(4) [OF new known ins 1])
        moreover have "set ch1 \<subseteq> set checked'"
          by (rule "2.IH"(5) [OF new known ins 1 [symmetric] 2])
        ultimately show ?thesis by auto
      qed
    qed
  qed
qed

termination highestLoop
proof (relation "measures [\<lambda>(w, cs, ret, checked). card (fst ` set (wf_nodes w) - set checked),
    \<lambda>(w, cs, ret, checked). length cs]", goal_cases)
  case 1
  show ?case by simp
next
  case (5 w c cs ret checked ins)
  then have "c_node c \<in> fst ` set (wf_nodes w)" by (force dest: map_of_SomeD)
  with 5 card_visit [of "fst ` set (wf_nodes w)" "c_node c" "set checked"] show ?case by simp
next
  case (6 w c cs ret checked ins found checked')
  from highestLoop_grows_dom [OF 6(5) 6(4) [symmetric]] have "set checked \<subseteq> set checked'" by simp
  then have "card (fst ` set (wf_nodes w) - set checked') \<le> card (fst ` set (wf_nodes w) - set checked)"
    by (intro card_mono) auto
  then show ?case by auto
qed auto

declare highestLoop.simps [simp del]

text \<open>The connections the method looks at when a connection index is given.\<close>

definition chosenInputs :: "nat option \<Rightarrow> NodeInputConnections \<Rightarrow> IConnection list" where
  "chosenInputs nodeConnectionIndex ins = (case nodeConnectionIndex of
     None \<Rightarrow> flat ins | Some i \<Rightarrow> cell_or [] (arr_get ins i))"

definition getHighestNode :: "Workflow \<Rightarrow> string \<Rightarrow> nat option \<Rightarrow> js_error + string list" where
  "getHighestNode w nodeName nodeConnectionIndex =
     (if map_of (wf_nodes w) nodeName = None then Inl TypeError
      else case mainInputs w nodeName of
        None \<Rightarrow> Inr (ownHighest w nodeName)
      | Some ins \<Rightarrow> Inr (fst (highestLoop w (chosenInputs nodeConnectionIndex ins) [] [nodeName])))"

section \<open>Breadth-first searches\<close>

record IConnectedNode =
  cn_name :: string
  indicies :: "nat list"
  cn_depth :: nat

text \<open>
  \<open>searchNodesBFS\<close>. The objects in \<open>returnConns\<close> are those in \<open>visited\<close>; the model keeps their
  names in \<open>bfs_return\<close> and looks them up at the end, so that a later change of \<open>indicies\<close> shows.
\<close>

record BfsState =
  bfs_visited :: "(string \<times> IConnectedNode) list"
  bfs_return :: "string list"
  bfs_queue :: "IConnectedNode list"

definition dedupe :: "'a list \<Rightarrow> 'a list" where
  "dedupe xs = fold set_add xs []"

definition mainTargets :: "IConnections \<Rightarrow> string \<Rightarrow> IConnection list" where
  "mainTargets conns nm = flat (list_get (obj_get conns nm) Main)"

definition visitBFS :: "IConnections \<Rightarrow> string \<Rightarrow> nat \<Rightarrow> IConnectedNode \<Rightarrow> BfsState \<Rightarrow> BfsState" where
  "visitBFS conns sourceNode depth cur st =
     (case map_of (bfs_visited st) (cn_name cur) of
        Some v \<Rightarrow> st\<lparr>bfs_visited := AList.update (cn_name cur)
          (v\<lparr>indicies := dedupe (indicies v @ indicies cur)\<rparr>) (bfs_visited st)\<rparr>
      | None \<Rightarrow> st\<lparr>bfs_visited := AList.update (cn_name cur) cur (bfs_visited st),
          bfs_return := (if cn_name cur \<noteq> sourceNode then bfs_return st @ [cn_name cur] else bfs_return st),
          bfs_queue := bfs_queue st @ map (\<lambda>c. \<lparr>cn_name = c_node c, indicies = [c_index c], cn_depth = depth\<rparr>)
            (mainTargets conns (cn_name cur))\<rparr>)"

definition levelBFS :: "IConnections \<Rightarrow> string \<Rightarrow> nat \<Rightarrow> BfsState \<Rightarrow> BfsState" where
  "levelBFS conns sourceNode depth st =
     fold (visitBFS conns sourceNode depth) (bfs_queue st) (st\<lparr>bfs_queue := []\<rparr>)"

text \<open>All names a connection leads to.\<close>

definition targets :: "IConnections \<Rightarrow> string set" where
  "targets conns = (\<Union>(k, m) \<in> set conns. c_node ` set (mainTargets conns k))"

lemma mainTargets_targets: "c \<in> set (mainTargets conns nm) \<Longrightarrow> c_node c \<in> targets conns"
proof -
  assume c: "c \<in> set (mainTargets conns nm)"
  then have "obj_get conns nm \<noteq> []" by (auto simp: mainTargets_def flat_def list_get_def)
  then obtain m where "map_of conns nm = Some m" by (auto simp: obj_get_def split: option.splits)
  then have "(nm, m) \<in> set conns" by (rule map_of_SomeD)
  with c show ?thesis unfolding targets_def by blast
qed

lemma finite_targets: "finite (targets conns)"
  unfolding targets_def by auto

lemma visitBFS_sets:
  "fst ` set (bfs_visited (visitBFS conns s d q st)) = insert (cn_name q) (fst ` set (bfs_visited st))"
  "cn_name ` set (bfs_queue (visitBFS conns s d q st)) \<subseteq> cn_name ` set (bfs_queue st) \<union> targets conns"
  "map_of (bfs_visited st) (cn_name q) \<noteq> None \<Longrightarrow> bfs_queue (visitBFS conns s d q st) = bfs_queue st"
  by (auto simp: visitBFS_def dom_update image_iff intro: mainTargets_targets split: option.splits)

lemma levelBFS_sets:
  "fst ` set (bfs_visited (fold (visitBFS conns s d) qs st)) = cn_name ` set qs \<union> fst ` set (bfs_visited st)"
  "cn_name ` set (bfs_queue (fold (visitBFS conns s d) qs st)) \<subseteq> cn_name ` set (bfs_queue st) \<union> targets conns"
  "cn_name ` set qs \<subseteq> fst ` set (bfs_visited st) \<Longrightarrow> bfs_queue (fold (visitBFS conns s d) qs st) = bfs_queue st"
proof (induction qs arbitrary: st)
  case (Cons q qs)
  {
    case 1
    then show ?case using Cons.IH(1) by (simp add: visitBFS_sets(1))
  next
    case 2
    then show ?case using Cons.IH(2) [of "visitBFS conns s d q st"] visitBFS_sets(2) [of conns s d q st] by auto
  next
    case 3
    then have "map_of (bfs_visited st) (cn_name q) \<noteq> None" by (auto simp: map_of_eq_None_iff)
    with 3 Cons.IH(3) [of "visitBFS conns s d q st"] show ?case by (auto simp: visitBFS_sets(1,3))
  }
qed auto

definition unvisited :: "IConnections \<Rightarrow> BfsState \<Rightarrow> string set" where
  "unvisited conns st = (targets conns \<union> cn_name ` set (bfs_queue st)) - fst ` set (bfs_visited st)"

lemma levelBFS_measure:
  assumes "bfs_queue st \<noteq> []"
  shows "(levelBFS conns s d st, st) \<in> measures [\<lambda>st. card (unvisited conns st), \<lambda>st. length (bfs_queue st)]"
proof -
  let ?st = "levelBFS conns s d st" and ?names = "cn_name ` set (bfs_queue st)"
  have v: "fst ` set (bfs_visited ?st) = ?names \<union> fst ` set (bfs_visited st)"
    and q: "cn_name ` set (bfs_queue ?st) \<subseteq> targets conns"
    using levelBFS_sets(1,2) [of conns s d "bfs_queue st" "st\<lparr>bfs_queue := []\<rparr>"] by (auto simp: levelBFS_def)
  have fin: "finite (unvisited conns st)" by (simp add: unvisited_def finite_targets)
  have sub: "unvisited conns ?st \<subseteq> unvisited conns st - ?names"
    using q unfolding unvisited_def v by auto
  show ?thesis
  proof (cases "?names \<subseteq> fst ` set (bfs_visited st)")
    case True
    then have "bfs_queue ?st = []" using levelBFS_sets(3) [of "bfs_queue st" "st\<lparr>bfs_queue := []\<rparr>"] by (simp add: levelBFS_def)
    moreover have "card (unvisited conns ?st) \<le> card (unvisited conns st)" using sub fin by (intro card_mono) auto
    ultimately show ?thesis using assms by auto
  next
    case False
    then obtain x where "x \<in> ?names" "x \<in> unvisited conns st" unfolding unvisited_def by blast
    with sub have "unvisited conns ?st \<subset> unvisited conns st" by blast
    from psubset_card_mono [OF fin this] show ?thesis by simp
  qed
qed

function bfsLoop :: "IConnections \<Rightarrow> string \<Rightarrow> int \<Rightarrow> nat \<Rightarrow> BfsState \<Rightarrow> BfsState" where
  "bfsLoop conns sourceNode maxDepth depth st =
     (if bfs_queue st = [] then st
      else if maxDepth \<noteq> -1 \<and> int depth > maxDepth then st
      else bfsLoop conns sourceNode maxDepth (Suc depth) (levelBFS conns sourceNode (Suc depth) st))"
  by pat_completeness auto

termination bfsLoop
proof (relation "inv_image (measures [\<lambda>(conns, st). card (unvisited conns st), \<lambda>(conns, st). length (bfs_queue st)])
    (\<lambda>(conns, s, m, d, st). (conns, st))", goal_cases)
  case 1
  show ?case by simp
next
  case (2 conns s m d st)
  from levelBFS_measure [OF 2(1), of conns s "Suc d"] show ?case by simp
qed

declare bfsLoop.simps [simp del]

definition searchNodesBFS :: "IConnections \<Rightarrow> string \<Rightarrow> int \<Rightarrow> IConnectedNode list" where
  "searchNodesBFS conns sourceNode maxDepth =
     (let st = bfsLoop conns sourceNode maxDepth 0 \<lparr>bfs_visited = [], bfs_return = [],
            bfs_queue = [\<lparr>cn_name = sourceNode, indicies = [], cn_depth = 0\<rparr>]\<rparr>
      in List.map_filter (map_of (bfs_visited st)) (bfs_return st))"

definition getParentNodesByDepth :: "Workflow \<Rightarrow> string \<Rightarrow> int \<Rightarrow> IConnectedNode list" where
  "getParentNodesByDepth w nodeName maxDepth = searchNodesBFS (connectionsByDestinationNode w) nodeName maxDepth"

text \<open>
  \<open>getNodeConnectionIndexes\<close>: the inner loops over the inputs of one node stop at the first
  connection from the wanted parent (\<open>Inl\<close>) or leave a longer queue (\<open>Inr\<close>).
\<close>

record INodeConnection =
  sourceIndex :: nat
  destinationIndex :: nat

fun scanInputs ::
  "string \<Rightarrow> string list \<Rightarrow> (nat \<times> IConnection) list \<Rightarrow> string list \<Rightarrow> INodeConnection + string list" where
  "scanInputs parent visited [] queue = Inr queue"
| "scanInputs parent visited ((i, c) # cs) queue =
     (if parent = c_node c then Inl \<lparr>sourceIndex = c_index c, destinationIndex = i\<rparr>
      else scanInputs parent visited cs (if c_node c \<in> set visited then queue else queue @ [c_node c]))"

definition indexedInputs :: "NodeInputConnections \<Rightarrow> (nat \<times> IConnection) list" where
  "indexedInputs ins = concat (map (\<lambda>cell. with_index (cell_or [] cell)) ins)"

definition typedTargets :: "IConnections \<Rightarrow> NodeConnectionType \<Rightarrow> string \<Rightarrow> IConnection list" where
  "typedTargets conns t nm = flat (list_get (obj_get conns nm) t)"

definition allTargets :: "IConnections \<Rightarrow> NodeConnectionType \<Rightarrow> string set" where
  "allTargets conns t = (\<Union>(k, m) \<in> set conns. c_node ` set (typedTargets conns t k))"

lemma snd_indexedInputs: "map snd (indexedInputs ins) = flat ins"
  by (induction ins) (simp_all add: indexedInputs_def flat_def with_index_def)

lemma scanInputs_queue:
  "scanInputs parent visited cs queue = Inr queue' \<Longrightarrow> set queue' \<subseteq> set queue \<union> c_node ` snd ` set cs"
  by (induction parent visited cs queue rule: scanInputs.induct) (auto split: if_splits)

lemma typedTargets_all: "c \<in> set (typedTargets conns t nm) \<Longrightarrow> c_node c \<in> allTargets conns t"
proof -
  assume c: "c \<in> set (typedTargets conns t nm)"
  then have "obj_get conns nm \<noteq> []" by (auto simp: typedTargets_def flat_def list_get_def)
  then obtain m where "map_of conns nm = Some m" by (auto simp: obj_get_def split: option.splits)
  then have "(nm, m) \<in> set conns" by (rule map_of_SomeD)
  with c show ?thesis unfolding allTargets_def by blast
qed

lemma finite_allTargets: "finite (allTargets conns t)"
  unfolding allTargets_def by auto

function connectionSearch ::
  "IConnections \<Rightarrow> NodeConnectionType \<Rightarrow> string \<Rightarrow> string list \<Rightarrow> string list \<Rightarrow> INodeConnection option" where
  "connectionSearch byDest t parent visited [] = None"
| "connectionSearch byDest t parent visited (q # queue) =
     (if q \<in> set visited then connectionSearch byDest t parent visited queue
      else case scanInputs parent (visited @ [q]) (indexedInputs (list_get (obj_get byDest q) t)) queue of
        Inl r \<Rightarrow> Some r
      | Inr queue' \<Rightarrow> connectionSearch byDest t parent (visited @ [q]) queue')"
  by pat_completeness auto

termination connectionSearch
proof (relation "measures [\<lambda>(byDest, t, parent, visited, queue). card ((allTargets byDest t \<union> set queue) - set visited),
    \<lambda>(byDest, t, parent, visited, queue). length queue]", goal_cases)
  case 1
  show ?case by simp
next
  case (2 byDest t parent visited q queue)
  then have "card ((allTargets byDest t \<union> set queue) - set visited) \<le>
      card ((allTargets byDest t \<union> set (q # queue)) - set visited)"
    by (intro card_mono) (auto simp: finite_allTargets)
  then show ?case by auto
next
  case (3 byDest t parent visited q queue queue')
  let ?ins = "list_get (obj_get byDest q) t"
  from 3(2) have "set queue' \<subseteq> set queue \<union> c_node ` snd ` set (indexedInputs ?ins)" by (rule scanInputs_queue)
  moreover have "snd ` set (indexedInputs ?ins) = set (typedTargets byDest t q)"
    by (simp add: typedTargets_def flip: set_map snd_indexedInputs)
  ultimately have "set queue' \<subseteq> set queue \<union> allTargets byDest t" using typedTargets_all by force
  then have "card ((allTargets byDest t \<union> set queue') - set (visited @ [q])) <
      card ((allTargets byDest t \<union> set (q # queue)) - set visited)"
    using 3(1) by (intro psubset_card_mono) (auto simp: finite_allTargets)
  then show ?case by simp
qed

declare connectionSearch.simps [simp del]

definition getNodeConnectionIndexes ::
  "Workflow \<Rightarrow> string \<Rightarrow> string \<Rightarrow> NodeConnectionType \<Rightarrow> INodeConnection option" where
  "getNodeConnectionIndexes w nodeName parentNodeName t =
     (if getNode w parentNodeName = None then None
      else connectionSearch (connectionsByDestinationNode w) t parentNodeName [] [nodeName])"

section \<open>Start nodes\<close>

definition STARTING_NODE_TYPES :: "string list" where
  "STARTING_NODE_TYPES = [''n8n-nodes-base.manualTrigger'', ''n8n-nodes-base.executeWorkflowTrigger'',
     ''n8n-nodes-base.errorTrigger'', ''n8n-nodes-base.evaluationTrigger'', ''n8n-nodes-base.formTrigger'']"

definition MANUAL_CHAT_TRIGGER_LANGCHAIN_NODE_TYPE :: string where
  "MANUAL_CHAT_TRIGGER_LANGCHAIN_NODE_TYPE = ''@n8n/n8n-nodes-langchain.manualChatTrigger''"

text \<open>The first loop of \<open>__getStartNode\<close>; reading a property of a missing node or type throws.\<close>

fun firstTrigger :: "(INode \<Rightarrow> INodeType option) \<Rightarrow> Workflow \<Rightarrow> string list \<Rightarrow> js_error + INode option" where
  "firstTrigger nodeTypes w [] = Inr None"
| "firstTrigger nodeTypes w (nm # nms) =
     (case map_of (wf_nodes w) nm of
        None \<Rightarrow> Inl TypeError
      | Some n \<Rightarrow>
          (case nodeTypes n of
             None \<Rightarrow> Inl TypeError
           | Some t \<Rightarrow>
               if nt_name t = MANUAL_CHAT_TRIGGER_LANGCHAIN_NODE_TYPE then firstTrigger nodeTypes w nms
               else if nt_trigger t \<or> nt_poll t then
                 (if disabled n = Some True then firstTrigger nodeTypes w nms else Inr (Some n))
               else firstTrigger nodeTypes w nms))"

fun index_of :: "'a list \<Rightarrow> 'a \<Rightarrow> int" where
  "index_of [] y = -1"
| "index_of (x # xs) y = (if x = y then 0 else (let i = index_of xs y in if i = -1 then -1 else i + 1))"

definition sortByStartType :: "INode list \<Rightarrow> INode list" where
  "sortByStartType ns = sort_key (\<lambda>n. index_of STARTING_NODE_TYPES (node_type n)) ns"

definition getStartNodeFrom ::
  "(INode \<Rightarrow> INodeType option) \<Rightarrow> Workflow \<Rightarrow> string list \<Rightarrow> js_error + INode option" where
  "getStartNodeFrom nodeTypes w nodeNames =
     (let single = (case nodeNames of [nm] \<Rightarrow> map_of (wf_nodes w) nm | _ \<Rightarrow> None) in
      case (case single of Some n \<Rightarrow> if disabled n = Some True then None else Some n | None \<Rightarrow> None) of
        Some n \<Rightarrow> Inr (Some n)
      | None \<Rightarrow>
          rbind (firstTrigger nodeTypes w nodeNames) (\<lambda>t.
            case t of Some n \<Rightarrow> Inr (Some n)
            | None \<Rightarrow> Inr (List.find (\<lambda>n. node_type n \<in> set STARTING_NODE_TYPES \<and> disabled n \<noteq> Some True)
                (sortByStartType (map snd (wf_nodes w))))))"

definition getStartNode ::
  "(INode \<Rightarrow> INodeType option) \<Rightarrow> Workflow \<Rightarrow> string option \<Rightarrow> js_error + INode option" where
  "getStartNode nodeTypes w destinationNode =
     (case destinationNode of
        None \<Rightarrow> getStartNodeFrom nodeTypes w (map fst (wf_nodes w))
      | Some d \<Rightarrow>
          if d = [] then getStartNodeFrom nodeTypes w (map fst (wf_nodes w))
          else rbind (getHighestNode w d None) (\<lambda>highest.
            let nodeNames = (if length highest = 0 then highest @ [d] else highest) in
            rbind (getStartNodeFrom nodeTypes w nodeNames) (\<lambda>n.
              case n of Some n \<Rightarrow> Inr (Some n) | None \<Rightarrow> Inr (map_of (wf_nodes w) (hd nodeNames)))))"

definition getConnectionsBetweenNodes ::
  "Workflow \<Rightarrow> string list \<Rightarrow> string list \<Rightarrow> (IConnection \<times> IConnection) list" where
  "getConnectionsBetweenNodes w sources targetNames =
     concat (map (\<lambda>source.
       concat (map (\<lambda>(t, outs).
         concat (map (\<lambda>(i, cell).
           map (\<lambda>c. (\<lparr>c_node = source, c_type = t, c_index = i\<rparr>, c))
             (filter (\<lambda>c. c_node c \<in> set targetNames) (cell_or [] cell))) (with_index outs)))
         (obj_get (connectionsBySourceNode w) source))) sources)"

end
