(* ===== verification/WorkflowProps.thy ===== *)
theory WorkflowProps
  imports WorkflowGraph
begin

text \<open>
  What the walks over the connections of a workflow return, stated over the relation the connections
  describe, and the correspondence between connections by source and by destination.
\<close>

section \<open>Connected nodes\<close>

text \<open>One step over a connection of a type the filter selects.\<close>

definition conn_step :: "IConnections \<Rightarrow> ConnectionFilter \<Rightarrow> string rel" where
  "conn_step conns ct = {(n, c_node c) |n m t c.
     map_of conns n = Some m \<and> t \<in> set (typesOf ct m) \<and> c \<in> set (flat (list_get m t))}"

text \<open>Steps into nodes outside \<open>A\<close>.\<close>

definition entering :: "'a set \<Rightarrow> 'a rel \<Rightarrow> 'a rel" where
  "entering A R = {(x, y) \<in> R. y \<notin> A}"

lemma entering_last_visit:
  assumes "(z, n) \<in> (entering A R)\<^sup>*"
  shows "(z, n) \<in> (entering (insert x A) R)\<^sup>* \<or> n = x \<or>
    (\<exists>y. (x, y) \<in> R \<and> y \<notin> insert x A \<and> (y, n) \<in> (entering (insert x A) R)\<^sup>*)"
  using assms
proof (induction rule: rtrancl_induct)
  case (step y n)
  then have n: "(y, n) \<in> R" "n \<notin> A" by (simp_all add: entering_def)
  show ?case
  proof (cases "n = x")
    case False
    then have e: "(y, n) \<in> entering (insert x A) R" using n by (simp add: entering_def)
    from step.IH consider "(z, y) \<in> (entering (insert x A) R)\<^sup>*" | "y = x"
      | y' where "(x, y') \<in> R" "y' \<notin> insert x A" "(y', y) \<in> (entering (insert x A) R)\<^sup>*" by blast
    then show ?thesis
    proof cases
      case 1
      with e show ?thesis by (blast intro: rtrancl_into_rtrancl)
    next
      case 2
      with n False show ?thesis by blast
    next
      case 3
      with e show ?thesis by (blast intro: rtrancl_into_rtrancl)
    qed
  qed simp
qed simp

text \<open>The nodes a search that has checked \<open>A\<close> finds from \<open>x\<close>.\<close>

definition found_from :: "'a rel \<Rightarrow> 'a set \<Rightarrow> 'a \<Rightarrow> 'a set" where
  "found_from R A x = {n. \<exists>y. (x, y) \<in> R \<and> y \<notin> insert x A \<and> (y, n) \<in> (entering (insert x A) R)\<^sup>*}"

lemma entering_mono: "A \<subseteq> B \<Longrightarrow> (x, y) \<in> (entering B R)\<^sup>* \<Longrightarrow> (x, y) \<in> (entering A R)\<^sup>*"
  by (rule subsetD [OF rtrancl_mono]) (auto simp: entering_def)

lemma found_from_unfold:
  "found_from R A x = (\<Union>y \<in> {y. (x, y) \<in> R \<and> y \<notin> insert x A}. insert y (found_from R (insert x A) y))"
proof (rule set_eqI, rule iffI)
  fix n assume "n \<in> found_from R A x"
  then obtain y where y: "(x, y) \<in> R" "y \<notin> insert x A" "(y, n) \<in> (entering (insert x A) R)\<^sup>*"
    unfolding found_from_def by blast
  let ?B = "insert y (insert x A)"
  have "n = y \<or> n \<in> found_from R (insert x A) y"
    using entering_last_visit [OF y(3), of y]
  proof (elim disjE)
    assume "(y, n) \<in> (entering ?B R)\<^sup>*"
    then show ?thesis
    proof (rule converse_rtranclE)
      fix z assume "(y, z) \<in> entering ?B R" "(z, n) \<in> (entering ?B R)\<^sup>*"
      then show ?thesis unfolding found_from_def entering_def by blast
    qed simp
  next
    assume "\<exists>z. (y, z) \<in> R \<and> z \<notin> ?B \<and> (z, n) \<in> (entering ?B R)\<^sup>*"
    then show ?thesis unfolding found_from_def by blast
  qed simp
  with y(1,2) show "n \<in> (\<Union>y \<in> {y. (x, y) \<in> R \<and> y \<notin> insert x A}. insert y (found_from R (insert x A) y))" by blast
next
  fix n assume "n \<in> (\<Union>y \<in> {y. (x, y) \<in> R \<and> y \<notin> insert x A}. insert y (found_from R (insert x A) y))"
  then obtain y where y: "(x, y) \<in> R" "y \<notin> insert x A" "n = y \<or> n \<in> found_from R (insert x A) y" by blast
  from y(3) have "(y, n) \<in> (entering (insert x A) R)\<^sup>*"
  proof
    assume "n \<in> found_from R (insert x A) y"
    then obtain z where z: "(y, z) \<in> R" "z \<notin> insert y (insert x A)" "(z, n) \<in> (entering (insert y (insert x A)) R)\<^sup>*"
      unfolding found_from_def by blast
    then have "(y, z) \<in> entering (insert x A) R" by (simp add: entering_def)
    moreover have "(z, n) \<in> (entering (insert x A) R)\<^sup>*" using z(3) by (rule entering_mono [rotated]) blast
    ultimately show ?thesis by (rule converse_rtrancl_into_rtrancl)
  qed simp
  with y(1,2) show "n \<in> found_from R A x" unfolding found_from_def by blast
qed

lemma found_from_start: "found_from R {} x = {n. n \<noteq> x \<and> (x, n) \<in> R\<^sup>+}"
proof (rule set_eqI, rule iffI)
  fix n assume "n \<in> found_from R {} x"
  then obtain y where y: "(x, y) \<in> R" "y \<noteq> x" "(y, n) \<in> (entering {x} R)\<^sup>*" unfolding found_from_def by blast
  from y(3) have "n \<noteq> x" by (rule rtranclE) (use y(2) in \<open>auto simp: entering_def\<close>)
  moreover have "(y, n) \<in> R\<^sup>*" using y(3) by (rule subsetD [OF rtrancl_mono, rotated]) (auto simp: entering_def)
  ultimately show "n \<in> {n. n \<noteq> x \<and> (x, n) \<in> R\<^sup>+}" using y(1) by (simp add: rtrancl_into_trancl2)
next
  fix n assume "n \<in> {n. n \<noteq> x \<and> (x, n) \<in> R\<^sup>+}"
  then have n: "n \<noteq> x" "(x, n) \<in> (entering {} R)\<^sup>*" by (simp_all add: entering_def trancl_into_rtrancl)
  from entering_last_visit [OF n(2), of x] n(1) show "n \<in> found_from R {} x"
  proof (elim disjE)
    assume "(x, n) \<in> (entering {x} R)\<^sup>*"
    with n(1) obtain y where "(x, y) \<in> entering {x} R" "(y, n) \<in> (entering {x} R)\<^sup>*" by (blast elim: converse_rtranclE)
    then show ?thesis unfolding found_from_def entering_def by blast
  qed (unfold found_from_def, blast+)
qed

lemma set_mergeNodes: "set (mergeNodes found ret) = set found \<union> set ret"
proof -
  have "insert p (set (remove1 p xs)) = insert p (set xs)" for p :: string and xs by (induction xs) auto
  then show ?thesis unfolding mergeNodes_def by (induction found) auto
qed

lemma set_fold_union:
  assumes "\<And>x s. x \<in> set xs \<Longrightarrow> set (f x s) = set s \<union> F x"
  shows "set (fold f xs s) = set s \<union> (\<Union>x \<in> set xs. F x)"
  using assms by (induction xs arbitrary: s) auto

lemma getConnectedNodes_set:
  "nodeName \<notin> set checked \<Longrightarrow>
     set (getConnectedNodes conns nodeName ct (-1) checked) = found_from (conn_step conns ct) (set checked) nodeName"
proof (induction conns nodeName ct "-1 :: int" checked rule: getConnectedNodes.induct)
  case (1 conns x ct checked)
  let ?R = "conn_step conns ct"
  show ?case
  proof (cases "map_of conns x")
    case None
    then show ?thesis
      by (subst getConnectedNodes.simps) (simp add: found_from_def conn_step_def)
  next
    case (Some m)
    define visit where "visit = (\<lambda>(c :: IConnection) ret.
      if c_node c \<in> set (checked @ [x]) then ret
      else mergeNodes (getConnectedNodes conns (c_node c) ct (-1) (checked @ [x])) (c_node c # ret))"
    define V where "V = (\<lambda>(c :: IConnection). if c_node c \<in> insert x (set checked) then {}
      else insert (c_node c) (found_from ?R (insert x (set checked)) (c_node c)))"
    have visit: "set (visit c ret) = set ret \<union> V c" if "map_of m t = Some outs" "t \<in> set (typesOf ct m)" "c \<in> set (flat outs)"
      for t outs c ret
    proof (cases "c_node c \<in> insert x (set checked)")
      case True
      then show ?thesis by (auto simp: visit_def V_def)
    next
      case False
      then have c: "c_node c \<notin> set (checked @ [x])" by simp
      have "set (getConnectedNodes conns (c_node c) ct (-1) (checked @ [x])) =
          found_from ?R (set (checked @ [x])) (c_node c)"
        by (rule "1.hyps" [OF _ _ Some that(2,1) "1.prems" refl that(3) c c]) simp_all
      moreover have "set (checked @ [x]) = insert x (set checked)" by simp
      ultimately have "set (getConnectedNodes conns (c_node c) ct (-1) (checked @ [x])) =
          found_from ?R (insert x (set checked)) (c_node c)" by (simp only:)
      with False show ?thesis by (simp add: visit_def V_def set_mergeNodes Un_commute)
    qed
    have per_type: "set (case map_of m t of None \<Rightarrow> ret | Some outs \<Rightarrow> fold visit (flat outs) ret) =
        set ret \<union> (\<Union>c \<in> set (flat (list_get m t)). V c)" if "t \<in> set (typesOf ct m)" for t ret
    proof (cases "map_of m t")
      case None
      then show ?thesis by (simp add: list_get_def flat_def)
    next
      case (Some outs)
      then show ?thesis using set_fold_union [of "flat outs" visit V ret] visit [OF Some that] by (simp add: list_get_def)
    qed
    have "getConnectedNodes conns x ct (-1) checked =
        fold (\<lambda>t ret. case map_of m t of None \<Rightarrow> ret | Some outs \<Rightarrow> fold visit (flat outs) ret) (typesOf ct m) []"
      using "1.prems" Some by (subst getConnectedNodes.simps) (simp add: visit_def Let_def if_not_P cong: if_cong option.case_cong)
    then have "set (getConnectedNodes conns x ct (-1) checked) =
        (\<Union>t \<in> set (typesOf ct m). \<Union>c \<in> set (flat (list_get m t)). V c)"
      using set_fold_union [of "typesOf ct m" "\<lambda>t ret. case map_of m t of None \<Rightarrow> ret | Some outs \<Rightarrow> fold visit (flat outs) ret"
        "\<lambda>t. \<Union>c \<in> set (flat (list_get m t)). V c" "[]"] per_type by simp
    also have "\<dots> = (\<Union>y \<in> {y. (x, y) \<in> ?R \<and> y \<notin> insert x (set checked)}. insert y (found_from ?R (insert x (set checked)) y))"
      (is "?A = ?B")
    proof (rule set_eqI, rule iffI)
      fix n assume "n \<in> ?A"
      then obtain t c where t: "t \<in> set (typesOf ct m)" "c \<in> set (flat (list_get m t))" "n \<in> V c" by blast
      then have "(x, c_node c) \<in> ?R" using Some unfolding conn_step_def by blast
      with t(3) show "n \<in> ?B" unfolding V_def by (auto split: if_splits)
    next
      fix n assume "n \<in> ?B"
      then obtain y where y: "(x, y) \<in> ?R" "y \<notin> insert x (set checked)" "n \<in> insert y (found_from ?R (insert x (set checked)) y)" by blast
      then obtain t c where t: "t \<in> set (typesOf ct m)" "c \<in> set (flat (list_get m t))" "y = c_node c"
        using Some unfolding conn_step_def by auto
      with y(2,3) have "n \<in> V c" by (simp add: V_def)
      with t(1,2) show "n \<in> ?A" by blast
    qed
    finally show ?thesis by (simp only: found_from_unfold [of ?R "set checked" x])
  qed
qed

text \<open>With unlimited depth \<open>getConnectedNodes\<close> returns exactly the other nodes that connections of
  the selected types lead to, over any number of steps; a node is never among its own connected nodes.\<close>

theorem getConnectedNodes_reachable:
  "set (getConnectedNodes conns nodeName ct (-1) []) = {n. n \<noteq> nodeName \<and> (nodeName, n) \<in> (conn_step conns ct)\<^sup>+}"
  using getConnectedNodes_set [of nodeName "[]" conns ct] by (simp add: found_from_start)

definition mainTo :: "string list list \<Rightarrow> INodeConnections" where
  "mainTo outs = [(Main, map (\<lambda>nms. Val (map (\<lambda>nm. \<lparr>c_node = nm, c_type = Main, c_index = 0\<rparr>) nms)) outs)]"

text \<open>The result can name a node twice: a direct child is put at the front without looking for it,
  so a node connected over two outputs is returned two times.\<close>

theorem getConnectedNodes_duplicates:
  "getConnectedNodes [(''A'', mainTo [[''B''], [''B'']])] ''A'' (OfType Main) (-1) [] = [''B'', ''B'']"
  by code_simp

section \<open>Connections by destination\<close>

text \<open>All connections with the place they come from: source node, type, output index.\<close>

definition all_links :: "IConnections \<Rightarrow> (string \<times> NodeConnectionType \<times> nat \<times> IConnection) list" where
  "all_links conns = concat (map (\<lambda>(src, m). concat (map (\<lambda>(t, outs). concat (map (\<lambda>(i, cell).
     map (\<lambda>c. (src, t, i, c)) (cell_or [] cell)) (with_index outs))) m)) conns)"

definition dest_list :: "IConnections \<Rightarrow> string \<Rightarrow> NodeConnectionType \<Rightarrow> nat \<Rightarrow> IConnection list" where
  "dest_list ret tgt t i = cell_or [] (arr_get (list_get (obj_get ret tgt) t) i)"

definition all_arrays :: "IConnections \<Rightarrow> bool" where
  "all_arrays ret \<longleftrightarrow> (\<forall>k t. \<forall>cell \<in> set (list_get (obj_get ret k) t). \<exists>xs. cell = Val xs)"

lemma fold_concat_map: "fold f (concat xss) = fold (fold f) xss"
  by (induction xss) auto

lemma mapConnections_links:
  "mapConnectionsByDestination conns = fold (\<lambda>(src, t, i, c). addDestination src t i c) (all_links conns) []"
  unfolding mapConnectionsByDestination_def all_links_def
  by (simp add: fold_concat_map fold_map o_def split_def)

lemma padded:
  assumes "\<forall>cell \<in> set l. \<exists>xs. cell = Val xs"
  shows "cell_or [] (arr_get (l @ replicate n (Val [])) j) = cell_or [] (arr_get l j)"
    "\<forall>cell \<in> set (l @ replicate n (Val [])). \<exists>xs. cell = Val xs"
  using assms by (auto simp: arr_get_def nth_append)

lemma addDestination_step:
  assumes "all_arrays ret"
  shows "all_arrays (addDestination src t i c ret)"
    "dest_list (addDestination src t i c ret) tgt t' j = dest_list ret tgt t' j @
       (if c_node c = tgt \<and> c_type c = t' \<and> c_index c = j then [\<lparr>c_node = src, c_type = t, c_index = i\<rparr>] else [])"
proof -
  define l where "l = list_get (obj_get ret (c_node c)) (c_type c)"
  define l1 where "l1 = l @ replicate (Suc (c_index c) - length l) (Val [])"
  define l2 where "l2 = l1[c_index c :=
    (case l1 ! c_index c of Val xs \<Rightarrow> Val (xs @ [\<lparr>c_node = src, c_type = t, c_index = i\<rparr>]) | x \<Rightarrow> x)]"
  have l: "\<forall>cell \<in> set l. \<exists>xs. cell = Val xs" using assms by (simp add: all_arrays_def l_def)
  have l1: "\<forall>cell \<in> set l1. \<exists>xs. cell = Val xs" "c_index c < length l1"
    "\<And>j. cell_or [] (arr_get l1 j) = cell_or [] (arr_get l j)"
    unfolding l1_def by (rule padded(2) [OF l]) (simp, rule padded(1) [OF l])
  obtain xs where xs: "l1 ! c_index c = Val xs" using l1(1,2) nth_mem by blast
  have l2: "l2 = l1[c_index c := Val (xs @ [\<lparr>c_node = src, c_type = t, c_index = i\<rparr>])]" by (simp add: l2_def xs)
  have ret': "addDestination src t i c ret = AList.update (c_node c) (AList.update (c_type c) l2 (obj_get ret (c_node c))) ret"
    by (simp add: addDestination_def Let_def l2_def l1_def l_def)
  have arr2: "\<forall>cell \<in> set l2. \<exists>xs. cell = Val xs"
    using l1(1) set_update_subset_insert unfolding l2 by (metis insert_iff subsetD)
  show "all_arrays (addDestination src t i c ret)"
    using assms arr2 unfolding all_arrays_def ret' by (simp add: obj_get_update list_get_update)
  have "cell_or [] (arr_get l2 j) = cell_or [] (arr_get l j) @
      (if c_index c = j then [\<lparr>c_node = src, c_type = t, c_index = i\<rparr>] else [])"
  proof (cases "c_index c = j")
    case True
    have "cell_or [] (arr_get l j) = xs" using l1(2) l1(3) [of j] xs True by (simp add: arr_get_def)
    with True l1(2) show ?thesis by (simp add: l2 arr_get_def)
  next
    case False
    then have "arr_get l2 j = arr_get l1 j" by (simp add: l2 arr_get_def)
    with False l1(3) show ?thesis by simp
  qed
  then show "dest_list (addDestination src t i c ret) tgt t' j = dest_list ret tgt t' j @
       (if c_node c = tgt \<and> c_type c = t' \<and> c_index c = j then [\<lparr>c_node = src, c_type = t, c_index = i\<rparr>] else [])"
    unfolding dest_list_def ret' by (simp add: obj_get_update list_get_update l_def)
qed

lemma addDestinations:
  "all_arrays ret \<Longrightarrow>
     dest_list (fold (\<lambda>(src, t, i, c). addDestination src t i c) ls ret) tgt t' j = dest_list ret tgt t' j @
       map (\<lambda>(src, t, i, c). \<lparr>c_node = src, c_type = t, c_index = i\<rparr>)
         (filter (\<lambda>(src, t, i, c). c_node c = tgt \<and> c_type c = t' \<and> c_index c = j) ls)"
proof (induction ls arbitrary: ret)
  case (Cons l ls)
  obtain src t i c where l: "l = (src, t, i, c)" using prod_cases4 by blast
  show ?case
    using Cons.IH [OF addDestination_step(1) [OF Cons.prems, of src t i c]]
      addDestination_step(2) [OF Cons.prems, of src t i c tgt t' j] by (simp add: l)
qed simp

text \<open>\<open>mapConnectionsByDestination\<close> is the exact inverse index: at target, type and input index it
  lists, in order, the places of all connections of the workflow to that input, and nothing else.\<close>

theorem mapConnectionsByDestination_inverse:
  "dest_list (mapConnectionsByDestination conns) target type inputIdx =
     map (\<lambda>(source, t, i, c). \<lparr>c_node = source, c_type = t, c_index = i\<rparr>)
       (filter (\<lambda>(source, t, i, c). c_node c = target \<and> c_type c = type \<and> c_index c = inputIdx) (all_links conns))"
proof -
  have "all_arrays []" by (simp add: all_arrays_def obj_get_def list_get_def)
  from addDestinations [OF this] show ?thesis
    unfolding mapConnections_links by (simp add: dest_list_def obj_get_def list_get_def arr_get_def)
qed

section \<open>Renaming\<close>

definition wAB :: Workflow where
  "wAB = newWorkflow [plainNode 1 ''A'' ''set'', plainNode 2 ''B'' ''set''] [(''A'', mainTo [[''B'']])] None"

text \<open>Renaming a node leaves \<open>connectionsByDestinationNode\<close> as it was, so the parents of another
  node still carry the old name and the node under its new name has no parents; and renaming to a name
  in use replaces the node of that name.\<close>

theorem renameNode_stale_destinations:
  "map_sum id (\<lambda>w. (getChildNodes (connectionsBySourceNode w) ''X'' (OfType Main) (-1),
       getParentNodes (connectionsByDestinationNode w) ''B'' (OfType Main) (-1))) (renameNode ''A'' ''X'' wAB) =
     Inr ([''B''], [''A'']) \<and>
   map_sum id (\<lambda>w. (map fst (wf_nodes w), getNode w ''B'')) (renameNode ''A'' ''B'' wAB) =
     Inr ([''B''], Some (plainNode 1 ''B'' ''set''))"
  by (intro conjI) code_simp+

end
