(* ===== verification/WorkflowSearch.thy ===== *)
theory WorkflowSearch
  imports WorkflowProps
begin

text \<open>
  The breadth-first searches of the class \<open>Workflow\<close>: \<open>searchNodesBFS\<close> finds shortest distances and
  \<open>getNodeConnectionIndexes\<close> finds a connection from an ancestor whenever there is one; and the nodes
  \<open>getHighestNode\<close> returns.
\<close>

section \<open>Breadth-first levels\<close>

definition bfs_step :: "IConnections \<Rightarrow> string rel" where
  "bfs_step conns = {(n, c_node c) |n c. c \<in> set (mainTargets conns n)}"

definition shortest :: "'a rel \<Rightarrow> 'a \<Rightarrow> 'a \<Rightarrow> nat \<Rightarrow> bool" where
  "shortest R s n k \<longleftrightarrow> (s, n) \<in> R ^^ k \<and> (\<forall>j < k. (s, n) \<notin> R ^^ j)"

definition before :: "'a rel \<Rightarrow> 'a \<Rightarrow> nat \<Rightarrow> 'a set" where
  "before R s d = {n. \<exists>k < d. (s, n) \<in> R ^^ k}"

lemma before_Suc: "before R s (Suc d) = before R s d \<union> {n. (s, n) \<in> R ^^ d}"
  unfolding before_def less_Suc_eq by blast

lemma before_step: "n \<in> before R s d \<Longrightarrow> (n, m) \<in> R \<Longrightarrow> m \<in> before R s (Suc d)"
  unfolding before_def mem_Collect_eq by (metis Suc_less_eq relcompI relpow.simps(2))

definition visited_names :: "BfsState \<Rightarrow> string set" where
  "visited_names st = fst ` set (bfs_visited st)"

text \<open>What holds of the state whenever the nodes in \<open>V\<close> have been visited.\<close>

definition bfs_ok :: "string rel \<Rightarrow> string \<Rightarrow> BfsState \<Rightarrow> bool" where
  "bfs_ok R s st \<longleftrightarrow>
     (\<forall>n v. map_of (bfs_visited st) n = Some v \<longrightarrow> cn_name v = n \<and> shortest R s n (cn_depth v)) \<and>
     distinct (bfs_return st) \<and> set (bfs_return st) = visited_names st - {s}"

lemma visited_names_iff: "n \<in> visited_names st \<longleftrightarrow> map_of (bfs_visited st) n \<noteq> None"
  by (simp add: visited_names_def map_of_eq_None_iff)

lemma visitBFS_known:
  assumes ok: "bfs_ok R s st" and q: "cn_name q \<in> visited_names st"
  shows "bfs_ok R s (visitBFS conns s d q st)" "visited_names (visitBFS conns s d q st) = visited_names st"
    "bfs_queue (visitBFS conns s d q st) = bfs_queue st"
proof -
  obtain v where v: "map_of (bfs_visited st) (cn_name q) = Some v" using q visited_names_iff by blast
  let ?v = "v\<lparr>indicies := dedupe (indicies v @ indicies q)\<rparr>"
  have e: "visitBFS conns s d q st = st\<lparr>bfs_visited := AList.update (cn_name q) ?v (bfs_visited st)\<rparr>"
    by (simp add: visitBFS_def v)
  show n: "visited_names (visitBFS conns s d q st) = visited_names st"
    using q by (auto simp: e visited_names_def dom_update)
  show "bfs_ok R s (visitBFS conns s d q st)"
    using ok v unfolding bfs_ok_def n by (auto simp: e amap.get_put)
  show "bfs_queue (visitBFS conns s d q st) = bfs_queue st" by (simp add: e)
qed

lemma visitBFS_new:
  assumes ok: "bfs_ok R s st" and q: "cn_name q \<notin> visited_names st" "shortest R s (cn_name q) (cn_depth q)"
  shows "bfs_ok R s (visitBFS conns s d q st)"
    "visited_names (visitBFS conns s d q st) = insert (cn_name q) (visited_names st)"
    "bfs_queue (visitBFS conns s d q st) = bfs_queue st @
       map (\<lambda>c. \<lparr>cn_name = c_node c, indicies = [c_index c], cn_depth = d\<rparr>) (mainTargets conns (cn_name q))"
proof -
  have none: "map_of (bfs_visited st) (cn_name q) = None" using q(1) visited_names_iff by blast
  let ?r = "if cn_name q \<noteq> s then bfs_return st @ [cn_name q] else bfs_return st"
  let ?st = "visitBFS conns s d q st"
  have e: "bfs_visited ?st = AList.update (cn_name q) q (bfs_visited st)" "bfs_return ?st = ?r"
    and "bfs_queue ?st = bfs_queue st @
      map (\<lambda>c. \<lparr>cn_name = c_node c, indicies = [c_index c], cn_depth = d\<rparr>) (mainTargets conns (cn_name q))"
    by (simp_all add: visitBFS_def none)
  then show "bfs_queue ?st = bfs_queue st @
      map (\<lambda>c. \<lparr>cn_name = c_node c, indicies = [c_index c], cn_depth = d\<rparr>) (mainTargets conns (cn_name q))" by simp
  show n: "visited_names ?st = insert (cn_name q) (visited_names st)"
    by (simp add: e(1) visited_names_def dom_update)
  have "distinct ?r" "set ?r = insert (cn_name q) (visited_names st) - {s}"
    using ok q(1) by (auto simp: bfs_ok_def)
  then show "bfs_ok R s ?st"
    using ok q(2) unfolding bfs_ok_def n e by (auto simp: amap.get_put)
qed

text \<open>One level: every queued node is at distance \<open>d\<close> from the start, unless it is nearer and known.\<close>

lemma level_correct:
  assumes "\<And>q. q \<in> set qs \<Longrightarrow> cn_depth q = d \<and> (s, cn_name q) \<in> R ^^ d"
    and "bfs_ok R s st" "before R s d \<subseteq> visited_names st" "visited_names st \<subseteq> before R s (Suc d)"
    and "\<And>q. q \<in> set (bfs_queue st) \<Longrightarrow> cn_depth q = Suc d \<and> (s, cn_name q) \<in> R ^^ Suc d"
    and "\<And>n m. n \<in> visited_names st \<Longrightarrow> n \<notin> before R s d \<Longrightarrow> (n, m) \<in> R \<Longrightarrow> m \<in> cn_name ` set (bfs_queue st)"
    and R: "R = bfs_step conns"
  shows "let st' = fold (visitBFS conns s (Suc d)) qs st in
    bfs_ok R s st' \<and> visited_names st' = visited_names st \<union> cn_name ` set qs \<and>
    (\<forall>q \<in> set (bfs_queue st'). cn_depth q = Suc d \<and> (s, cn_name q) \<in> R ^^ Suc d) \<and>
    (\<forall>n m. n \<in> visited_names st' \<longrightarrow> n \<notin> before R s d \<longrightarrow> (n, m) \<in> R \<longrightarrow> m \<in> cn_name ` set (bfs_queue st'))"
  using assms(1-6)
proof (induction qs arbitrary: st)
  case Nil
  then show ?case unfolding Let_def fold_Nil id_apply by auto
next
  case (Cons q qs)
  let ?st = "visitBFS conns s (Suc d) q st"
  have q: "cn_depth q = d" "(s, cn_name q) \<in> R ^^ d" using Cons.prems(1) by simp_all
  have rest: "\<And>p. p \<in> set qs \<Longrightarrow> cn_depth p = d \<and> (s, cn_name p) \<in> R ^^ d" using Cons.prems(1) by simp
  show ?case
  proof (cases "cn_name q \<in> visited_names st")
    case True
    note k = visitBFS_known [OF Cons.prems(2) True, where conns = conns and d = "Suc d"]
    have "let st' = fold (visitBFS conns s (Suc d)) qs ?st in
      bfs_ok R s st' \<and> visited_names st' = visited_names ?st \<union> cn_name ` set qs \<and>
      (\<forall>q \<in> set (bfs_queue st'). cn_depth q = Suc d \<and> (s, cn_name q) \<in> R ^^ Suc d) \<and>
      (\<forall>n m. n \<in> visited_names st' \<longrightarrow> n \<notin> before R s d \<longrightarrow> (n, m) \<in> R \<longrightarrow> m \<in> cn_name ` set (bfs_queue st'))"
      by (rule Cons.IH [OF rest k(1)]) (use Cons.prems(3-6) in \<open>simp_all only: k(2,3)\<close>)
    moreover have "visited_names ?st \<union> cn_name ` set qs = visited_names st \<union> cn_name ` set (q # qs)"
      using True by (auto simp: k(2))
    ultimately show ?thesis unfolding Let_def fold_Cons comp_apply by simp
  next
    case False
    then have "cn_name q \<notin> before R s d" using Cons.prems(3) by blast
    with q have sh: "shortest R s (cn_name q) (cn_depth q)" unfolding shortest_def before_def by blast
    note k = visitBFS_new [OF Cons.prems(2) False sh, where conns = conns and d = "Suc d"]
    have step: "(cn_name q, m) \<in> R \<longleftrightarrow> m \<in> c_node ` set (mainTargets conns (cn_name q))" for m
      unfolding R bfs_step_def by blast
    have "let st' = fold (visitBFS conns s (Suc d)) qs ?st in
      bfs_ok R s st' \<and> visited_names st' = visited_names ?st \<union> cn_name ` set qs \<and>
      (\<forall>q \<in> set (bfs_queue st'). cn_depth q = Suc d \<and> (s, cn_name q) \<in> R ^^ Suc d) \<and>
      (\<forall>n m. n \<in> visited_names st' \<longrightarrow> n \<notin> before R s d \<longrightarrow> (n, m) \<in> R \<longrightarrow> m \<in> cn_name ` set (bfs_queue st'))"
    proof (rule Cons.IH [OF rest k(1)])
      show "before R s d \<subseteq> visited_names ?st" "visited_names ?st \<subseteq> before R s (Suc d)"
        using Cons.prems(3,4) q(2) unfolding k(2) before_Suc by blast+
      show "cn_depth p = Suc d \<and> (s, cn_name p) \<in> R ^^ Suc d" if "p \<in> set (bfs_queue ?st)" for p
      proof (cases "p \<in> set (bfs_queue st)")
        case True
        then show ?thesis using Cons.prems(5) by blast
      next
        case False
        with that obtain c where "c \<in> set (mainTargets conns (cn_name q))" "cn_name p = c_node c" "cn_depth p = Suc d"
          unfolding k(3) by auto
        with step q(2) show ?thesis by (auto intro: relcompI)
      qed
      show "m \<in> cn_name ` set (bfs_queue ?st)"
        if "n \<in> visited_names ?st" "n \<notin> before R s d" "(n, m) \<in> R" for n m
      proof (cases "n = cn_name q")
        case True
        with that(3) step obtain c where "c \<in> set (mainTargets conns (cn_name q))" "m = c_node c" by blast
        then show ?thesis unfolding k(3) by (force simp: image_Un image_image)
      next
        case False
        with that(1) have "n \<in> visited_names st" unfolding k(2) by blast
        from Cons.prems(6) [OF this that(2,3)] show ?thesis unfolding k(3) by auto
      qed
    qed
    then show ?thesis unfolding Let_def fold_Cons comp_apply k(2) by simp
  qed
qed

definition bfs_inv :: "string rel \<Rightarrow> string \<Rightarrow> nat \<Rightarrow> BfsState \<Rightarrow> bool" where
  "bfs_inv R s d st \<longleftrightarrow> bfs_ok R s st \<and> visited_names st = before R s d \<and>
     (\<forall>q \<in> set (bfs_queue st). cn_depth q = d \<and> (s, cn_name q) \<in> R ^^ d) \<and>
     {n. (s, n) \<in> R ^^ d} \<subseteq> visited_names st \<union> cn_name ` set (bfs_queue st)"

lemma bfs_inv_level:
  assumes inv: "bfs_inv R s d st" and R: "R = bfs_step conns"
  shows "bfs_inv R s (Suc d) (levelBFS conns s (Suc d) st)"
proof -
  let ?st0 = "st\<lparr>bfs_queue := []\<rparr>"
  define st' where "st' = levelBFS conns s (Suc d) st"
  have v0: "visited_names ?st0 = visited_names st" by (simp add: visited_names_def)
  have "bfs_ok R s ?st0" using inv by (simp add: bfs_inv_def bfs_ok_def v0)
  then have st': "bfs_ok R s st'" "visited_names st' = visited_names st \<union> cn_name ` set (bfs_queue st)"
    "\<forall>q \<in> set (bfs_queue st'). cn_depth q = Suc d \<and> (s, cn_name q) \<in> R ^^ Suc d"
    "\<forall>n m. n \<in> visited_names st' \<longrightarrow> n \<notin> before R s d \<longrightarrow> (n, m) \<in> R \<longrightarrow> m \<in> cn_name ` set (bfs_queue st')"
    using level_correct [of "bfs_queue st" d s R ?st0, OF _ _ _ _ _ _ R] inv
    unfolding bfs_inv_def v0 before_Suc Let_def levelBFS_def [symmetric] st'_def by auto
  have vis: "visited_names st' = before R s (Suc d)"
    unfolding st'(2) before_Suc using inv unfolding bfs_inv_def by auto
  have "m \<in> visited_names st' \<union> cn_name ` set (bfs_queue st')" if "(s, m) \<in> R ^^ Suc d" for m
  proof -
    from that obtain n where n: "(s, n) \<in> R ^^ d" "(n, m) \<in> R" by auto
    show ?thesis
    proof (cases "n \<in> before R s d")
      case True
      from before_step [OF this n(2)] show ?thesis unfolding vis by blast
    next
      case False
      moreover have "n \<in> visited_names st'" unfolding vis before_Suc using n(1) by blast
      ultimately show ?thesis using st'(4) n(2) by blast
    qed
  qed
  with st'(1,3) vis show ?thesis unfolding bfs_inv_def st'_def by blast
qed

lemma bfsLoop_inv:
  assumes R: "R = bfs_step conns"
  shows "bfs_inv R s d st \<Longrightarrow> m = -1 \<Longrightarrow>
    \<exists>d'. bfs_inv R s d' (bfsLoop conns s m d st) \<and> bfs_queue (bfsLoop conns s m d st) = []"
  using R
proof (induction conns s m d st rule: bfsLoop.induct)
  case (1 conns s m d st)
  show ?case
  proof (cases "bfs_queue st = []")
    case True
    then have "bfsLoop conns s m d st = st" by (subst bfsLoop.simps) simp
    with True "1.prems"(1) show ?thesis by auto
  next
    case False
    then have e: "bfsLoop conns s m d st = bfsLoop conns s m (Suc d) (levelBFS conns s (Suc d) st)"
      using "1.prems"(2) by (subst bfsLoop.simps) simp
    have "\<not> (m \<noteq> -1 \<and> int d > m)" using "1.prems"(2) by simp
    from "1.IH" [OF False this bfs_inv_level [OF "1.prems"(1,3)] "1.prems"(2,3)] show ?thesis unfolding e .
  qed
qed

lemma bfs_done:
  assumes "bfs_inv R s d st" "bfs_queue st = []"
  shows "visited_names st = {n. (s, n) \<in> R\<^sup>*}"
proof -
  have vis: "visited_names st = before R s d" and closed: "{n. (s, n) \<in> R ^^ d} \<subseteq> before R s d"
    using assms by (auto simp: bfs_inv_def)
  have "n \<in> before R s d" if "(s, n) \<in> R ^^ k" for n k
    using that
  proof (induction k arbitrary: n)
    case 0
    show ?case
    proof (cases d)
      case 0
      with closed \<open>(s, n) \<in> R ^^ 0\<close> show ?thesis by auto
    next
      case (Suc e)
      with 0 show ?thesis unfolding before_def by blast
    qed
  next
    case (Suc k)
    then obtain m where m: "(s, m) \<in> R ^^ k" "(m, n) \<in> R" by auto
    from before_step [OF Suc.IH [OF m(1)] m(2)] closed show ?case unfolding before_Suc by blast
  qed
  then show ?thesis unfolding vis before_def rtrancl_power by blast
qed

text \<open>C4: \<open>searchNodesBFS\<close> without a depth limit returns every node other than the start that \<open>main\<close>
  connections lead to, each once, with its distance from the start as \<open>depth\<close>.\<close>

theorem searchNodesBFS_distances:
  "distinct (map cn_name (searchNodesBFS conns s (-1))) \<and>
   set (map cn_name (searchNodesBFS conns s (-1))) = {n. n \<noteq> s \<and> (s, n) \<in> (bfs_step conns)\<^sup>*} \<and>
   list_all (\<lambda>r. cn_depth r = (LEAST k. (s, cn_name r) \<in> bfs_step conns ^^ k)) (searchNodesBFS conns s (-1))"
proof -
  let ?R = "bfs_step conns" and ?init = "\<lparr>bfs_visited = [], bfs_return = [],
    bfs_queue = [\<lparr>cn_name = s, indicies = [], cn_depth = 0\<rparr>]\<rparr>"
  have "bfs_inv ?R s 0 ?init"
    by (simp add: bfs_inv_def bfs_ok_def visited_names_def before_def)
  from bfsLoop_inv [OF refl this refl] obtain d st where
    st: "st = bfsLoop conns s (-1) 0 ?init" "bfs_inv ?R s d st" "bfs_queue st = []" by blast
  note vis = bfs_done [OF st(2,3)]
  have ok: "\<And>n v. map_of (bfs_visited st) n = Some v \<Longrightarrow> cn_name v = n \<and> shortest ?R s n (cn_depth v)"
    "distinct (bfs_return st)" "set (bfs_return st) = visited_names st - {s}"
    using st(2) by (auto simp: bfs_inv_def bfs_ok_def)
  have names: "map cn_name (List.map_filter (map_of (bfs_visited st)) xs) = xs" if "set xs \<subseteq> visited_names st" for xs
    using that by (induction xs) (auto simp: visited_names_iff ok(1))
  have res: "searchNodesBFS conns s (-1) = List.map_filter (map_of (bfs_visited st)) (bfs_return st)"
    by (simp add: searchNodesBFS_def Let_def st(1))
  have least: "cn_depth r = (LEAST k. (s, cn_name r) \<in> ?R ^^ k)" if "r \<in> set (searchNodesBFS conns s (-1))" for r
  proof -
    from that obtain n where "map_of (bfs_visited st) n = Some r" unfolding res by (auto simp: map_filter_def)
    from ok(1) [OF this] have "shortest ?R s (cn_name r) (cn_depth r)" by auto
    then show ?thesis unfolding shortest_def by (intro Least_equality [symmetric]) (auto simp: not_less [symmetric])
  qed
  have m: "map cn_name (searchNodesBFS conns s (-1)) = bfs_return st" unfolding res by (rule names) (use ok(3) in blast)
  show ?thesis
    unfolding m ok(3) vis list_all_iff using ok(2) least by blast
qed

section \<open>Connection indexes\<close>

definition input_step :: "IConnections \<Rightarrow> NodeConnectionType \<Rightarrow> string rel" where
  "input_step byDest t = {(n, c_node c) |n c. c \<in> set (typedTargets byDest t n)}"

lemma input_step_indexed:
  "(n, m) \<in> input_step byDest t \<longleftrightarrow>
     (\<exists>i c. (i, c) \<in> set (indexedInputs (list_get (obj_get byDest n) t)) \<and> m = c_node c)"
proof -
  have "set (typedTargets byDest t n) = snd ` set (indexedInputs (list_get (obj_get byDest n) t))"
    by (simp add: typedTargets_def flip: set_map snd_indexedInputs)
  then show ?thesis unfolding input_step_def by (auto simp: image_iff) force+
qed

lemma scanInputs_Inl:
  "scanInputs parent visited cs queue = Inl r \<Longrightarrow>
     \<exists>i c. (i, c) \<in> set cs \<and> c_node c = parent \<and> r = \<lparr>sourceIndex = c_index c, destinationIndex = i\<rparr>"
  by (induction parent visited cs queue rule: scanInputs.induct) (auto split: if_splits)

lemma scanInputs_Inr:
  "scanInputs parent visited cs queue = Inr queue' \<Longrightarrow>
     (\<forall>(i, c) \<in> set cs. c_node c \<noteq> parent \<and> c_node c \<in> set visited \<union> set queue') \<and>
     set queue \<subseteq> set queue' \<and> set queue' \<subseteq> set queue \<union> c_node ` snd ` set cs"
proof (induction parent visited cs queue rule: scanInputs.induct)
  case (2 parent visited i c cs queue)
  then have "parent \<noteq> c_node c" by (auto split: if_splits)
  with 2 show ?case by (auto split: if_splits)
qed auto

definition search_inv :: "string rel \<Rightarrow> string \<Rightarrow> string \<Rightarrow> string list \<Rightarrow> string list \<Rightarrow> bool" where
  "search_inv R start parent visited queue \<longleftrightarrow>
     set visited \<union> set queue \<subseteq> {n. (start, n) \<in> R\<^sup>*} \<and> start \<in> set visited \<union> set queue \<and>
     (\<forall>n \<in> set visited. \<forall>m. (n, m) \<in> R \<longrightarrow> m \<noteq> parent \<and> m \<in> set visited \<union> set queue)"

lemma search_inv_step:
  assumes inv: "search_inv (input_step byDest t) start parent visited (q # queue)" and q: "q \<notin> set visited"
    and scan: "scanInputs parent (visited @ [q]) (indexedInputs (list_get (obj_get byDest q) t)) queue = Inr queue'"
  shows "search_inv (input_step byDest t) start parent (visited @ [q]) queue'"
proof -
  let ?R = "input_step byDest t"
  note s = scanInputs_Inr [OF scan]
  have reach: "set visited \<union> set (q # queue) \<subseteq> {n. (start, n) \<in> ?R\<^sup>*}" using inv by (simp add: search_inv_def)
  have new: "c_node ` snd ` set (indexedInputs (list_get (obj_get byDest q) t)) \<subseteq> {n. (q, n) \<in> ?R}"
    unfolding input_step_indexed by force
  have "set queue' \<subseteq> {n. (start, n) \<in> ?R\<^sup>*}"
  proof
    fix n assume "n \<in> set queue'"
    with s new have "n \<in> set queue \<or> (q, n) \<in> ?R" by blast
    with reach show "n \<in> {n. (start, n) \<in> ?R\<^sup>*}" by (auto intro: rtrancl_into_rtrancl)
  qed
  moreover have "m \<noteq> parent \<and> m \<in> set (visited @ [q]) \<union> set queue'" if "n \<in> set (visited @ [q])" "(n, m) \<in> ?R" for n m
  proof (cases "n = q")
    case True
    with that(2) s show ?thesis unfolding input_step_indexed by auto
  next
    case False
    with that(1) have "n \<in> set visited" by simp
    with inv that(2) have "m \<noteq> parent" "m \<in> set visited \<union> set (q # queue)" unfolding search_inv_def by blast+
    with s show ?thesis by auto
  qed
  moreover have "set (visited @ [q]) \<subseteq> {n. (start, n) \<in> ?R\<^sup>*}" using reach by auto
  moreover have "start \<in> set (visited @ [q]) \<union> set queue'" using inv s unfolding search_inv_def by auto
  ultimately show ?thesis unfolding search_inv_def by blast
qed

lemma connectionSearch_correct:
  "search_inv (input_step byDest t) start parent visited queue \<Longrightarrow>
     (case connectionSearch byDest t parent visited queue of
        None \<Rightarrow> (start, parent) \<notin> (input_step byDest t)\<^sup>+
      | Some r \<Rightarrow> \<exists>n i c. (start, n) \<in> (input_step byDest t)\<^sup>* \<and>
          (i, c) \<in> set (indexedInputs (list_get (obj_get byDest n) t)) \<and> c_node c = parent \<and>
          r = \<lparr>sourceIndex = c_index c, destinationIndex = i\<rparr>)"
proof (induction byDest t parent visited queue rule: connectionSearch.induct)
  case (1 byDest t parent visited)
  let ?R = "input_step byDest t"
  have "n \<in> set visited" if "(start, n) \<in> ?R\<^sup>*" for n
    using that by (induction rule: rtrancl_induct) (use 1 in \<open>auto simp: search_inv_def\<close>)
  then have "(start, parent) \<notin> ?R\<^sup>+" using 1 unfolding search_inv_def by (blast dest: tranclD2)
  then show ?case by (simp add: connectionSearch.simps)
next
  case (2 byDest t parent visited q queue)
  let ?R = "input_step byDest t" and ?ins = "indexedInputs (list_get (obj_get byDest q) t)"
  show ?case
  proof (cases "q \<in> set visited")
    case True
    with "2.prems" have "search_inv ?R start parent visited queue" unfolding search_inv_def by auto
    from "2.IH"(1) [OF True this] True show ?thesis by (simp add: connectionSearch.simps(2))
  next
    case False
    show ?thesis
    proof (cases "scanInputs parent (visited @ [q]) ?ins queue")
      case (Inl r)
      have "(start, q) \<in> ?R\<^sup>*" using "2.prems" by (simp add: search_inv_def)
      with scanInputs_Inl [OF Inl] have "\<exists>n i c. (start, n) \<in> ?R\<^sup>* \<and>
          (i, c) \<in> set (indexedInputs (list_get (obj_get byDest n) t)) \<and> c_node c = parent \<and>
          r = \<lparr>sourceIndex = c_index c, destinationIndex = i\<rparr>" by blast
      with False Inl show ?thesis by (simp add: connectionSearch.simps(2))
    next
      case (Inr queue')
      from "2.IH"(2) [OF False Inr search_inv_step [OF "2.prems" False Inr]] False Inr show ?thesis
        by (simp add: connectionSearch.simps(2))
    qed
  qed
qed

text \<open>For a node of the workflow as parent, \<open>getNodeConnectionIndexes\<close> returns nothing exactly when
  no chain of connections of the type leads from the parent to the node. Otherwise it returns the output
  index of a connection of the parent, together with the position of that connection in the list of
  connections at one input of the node itself or of an ancestor of it.\<close>

theorem getNodeConnectionIndexes_iff:
  assumes "getNode w parent \<noteq> None"
  shows "case getNodeConnectionIndexes w nodeName parent t of
      None \<Rightarrow> (nodeName, parent) \<notin> (input_step (connectionsByDestinationNode w) t)\<^sup>+
    | Some r \<Rightarrow> \<exists>n i c. (nodeName, n) \<in> (input_step (connectionsByDestinationNode w) t)\<^sup>* \<and>
        (i, c) \<in> set (indexedInputs (list_get (obj_get (connectionsByDestinationNode w) n) t)) \<and> c_node c = parent \<and>
        r = \<lparr>sourceIndex = c_index c, destinationIndex = i\<rparr>"
proof -
  have "search_inv (input_step (connectionsByDestinationNode w) t) nodeName parent [] [nodeName]"
    by (simp add: search_inv_def)
  from connectionSearch_correct [OF this] show ?thesis
    unfolding getNodeConnectionIndexes_def if_not_P [OF assms] .
qed

lemma getNodeConnectionIndexes_iff_witness:
  "getNodeConnectionIndexes wAB ''B'' ''A'' Main = Some \<lparr>sourceIndex = 0, destinationIndex = 0\<rparr> \<and>
   (''B'', ''A'') \<in> (input_step (connectionsByDestinationNode wAB) Main)\<^sup>+"
proof -
  have 1: "getNode wAB ''A'' \<noteq> None" by code_simp
  have 2: "getNodeConnectionIndexes wAB ''B'' ''A'' Main = Some \<lparr>sourceIndex = 0, destinationIndex = 0\<rparr>" by code_simp
  from getNodeConnectionIndexes_iff [OF 1, of "''B''" Main] 2 obtain n i c where
    "(''B'', n) \<in> (input_step (connectionsByDestinationNode wAB) Main)\<^sup>*"
    "(i, c) \<in> set (indexedInputs (list_get (obj_get (connectionsByDestinationNode wAB) n) Main))" "c_node c = ''A''"
    by (simp only: option.case) (elim exE conjE, rule that)
  then have "(''B'', ''A'') \<in> (input_step (connectionsByDestinationNode wAB) Main)\<^sup>+"
    using input_step_indexed rtrancl_into_trancl1 by metis
  with 2 show ?thesis by simp
qed

section \<open>Highest parents\<close>

definition parent_step :: "Workflow \<Rightarrow> string rel" where
  "parent_step w = {(n, c_node c) |n ins c. mainInputs w n = Some ins \<and> c \<in> set (flat ins)}"

definition enabled_ancestors :: "Workflow \<Rightarrow> string \<Rightarrow> string set" where
  "enabled_ancestors w n = {m. (n, m) \<in> (parent_step w)\<^sup>* \<and>
     (\<exists>node. map_of (wf_nodes w) m = Some node \<and> disabled node \<noteq> Some True)}"

lemma ownHighest_enabled: "set (ownHighest w n) \<subseteq> enabled_ancestors w n"
  by (cases "map_of (wf_nodes w) n") (auto simp: ownHighest_def enabled_ancestors_def split: option.splits if_splits)

lemma orParent_enabled: "set found \<subseteq> enabled_ancestors w n \<Longrightarrow> set (orParent w n found) \<subseteq> enabled_ancestors w n"
  by (cases "map_of (wf_nodes w) n") (auto simp: orParent_def enabled_ancestors_def split: option.splits if_splits)

lemma enabled_ancestors_step: "(n, m) \<in> parent_step w \<Longrightarrow> enabled_ancestors w m \<subseteq> enabled_ancestors w n"
  by (auto simp: enabled_ancestors_def intro: converse_rtrancl_into_rtrancl)

lemma highestLoop_sound:
  "highestLoop w cs ret checked = (ret', checked') \<Longrightarrow>
     set ret' \<subseteq> set ret \<union> (\<Union>c \<in> set cs. enabled_ancestors w (c_node c)) \<and> (distinct ret \<longrightarrow> distinct ret')"
proof (induction w cs ret checked arbitrary: ret' checked' rule: highestLoop.induct)
  case (1 w ret checked)
  then show ?case by (simp add: highestLoop.simps)
next
  case (2 w c cs ret checked)
  note run = "2.prems" [unfolded highestLoop.simps(2)]
  consider (checked) "c_node c \<in> set checked"
    | (unknown) "c_node c \<notin> set checked" "map_of (wf_nodes w) (c_node c) = None"
    | (top) "c_node c \<notin> set checked" "map_of (wf_nodes w) (c_node c) \<noteq> None" "mainInputs w (c_node c) = None"
    | (rec) ins where "c_node c \<notin> set checked" "map_of (wf_nodes w) (c_node c) \<noteq> None" "mainInputs w (c_node c) = Some ins"
    by blast
  then show ?case
  proof cases
    case checked
    with run "2.IH"(1) show ?thesis by auto
  next
    case unknown
    with run "2.IH"(2) show ?thesis by auto
  next
    case top
    let ?add = "orParent w (c_node c) (ownHighest w (c_node c))"
    have "highestLoop w cs (fold set_add ?add ret) checked = (ret', checked')" using run top by simp
    from "2.IH"(3) [OF top this] orParent_enabled [OF ownHighest_enabled, of w "c_node c"] show ?thesis by auto
  next
    case rec
    obtain found ch where f: "highestLoop w (flat ins) [] (checked @ [c_node c]) = (found, ch)" by force
    let ?add = "orParent w (c_node c) found"
    have r: "highestLoop w cs (fold set_add ?add ret) ch = (ret', checked')" using run rec f by simp
    have "(c_node c, c_node d) \<in> parent_step w" if "d \<in> set (flat ins)" for d
      using rec(3) that unfolding parent_step_def by blast
    then have "(\<Union>d \<in> set (flat ins). enabled_ancestors w (c_node d)) \<subseteq> enabled_ancestors w (c_node c)"
      using enabled_ancestors_step by blast
    with "2.IH"(4) [OF rec f] have "set found \<subseteq> enabled_ancestors w (c_node c)" by auto
    from orParent_enabled [OF this] "2.IH"(5) [OF rec f [symmetric] r] show ?thesis by auto
  qed
qed

text \<open>The names \<open>getHighestNode\<close> returns are distinct, belong to nodes of the workflow that are not
  disabled, and are the node itself or nodes it depends on over \<open>main\<close> connections; the call fails only
  for a name that is not in the workflow.\<close>

theorem getHighestNode_enabled_ancestors:
  "case getHighestNode w nodeName idx of
     Inl e \<Rightarrow> e = TypeError \<and> getNode w nodeName = None
   | Inr names \<Rightarrow> getNode w nodeName \<noteq> None \<and> distinct names \<and>
       set names \<subseteq> {m. (nodeName, m) \<in> (parent_step w)\<^sup>*} \<inter>
         {m. \<exists>node. getNode w m = Some node \<and> disabled node \<noteq> Some True}"
proof (cases "map_of (wf_nodes w) nodeName = None \<or> mainInputs w nodeName = None")
  case True
  moreover have "distinct (ownHighest w nodeName)" by (simp add: ownHighest_def split: option.splits)
  ultimately show ?thesis
    using ownHighest_enabled [of w nodeName] by (auto simp: getHighestNode_def getNode_def enabled_ancestors_def)
next
  case False
  then obtain ins where ins: "mainInputs w nodeName = Some ins" and n: "map_of (wf_nodes w) nodeName \<noteq> None" by blast
  obtain names ch where h: "highestLoop w (chosenInputs idx ins) [] [nodeName] = (names, ch)" by force
  have "set (chosenInputs idx ins) \<subseteq> set (flat ins)"
    by (auto simp: chosenInputs_def flat_def arr_get_def cell_or_def split: option.splits cell.splits if_splits)
      (metis cell.simps(10) nth_mem)+
  moreover have "(nodeName, c_node c) \<in> parent_step w" if "c \<in> set (flat ins)" for c
    using ins that unfolding parent_step_def by blast
  ultimately have "(\<Union>c \<in> set (chosenInputs idx ins). enabled_ancestors w (c_node c)) \<subseteq> enabled_ancestors w nodeName"
    using enabled_ancestors_step by blast
  with highestLoop_sound [OF h] have "set names \<subseteq> enabled_ancestors w nodeName" "distinct names" by auto
  then show ?thesis using n by (auto simp: getHighestNode_def ins h getNode_def enabled_ancestors_def)
qed

end
