(* ===== verification/WorkflowConversion.thy ===== *)
theory WorkflowConversion
  imports SubgraphProps WorkflowProps
begin

text \<open>
  Between the class \<open>Workflow\<close> and the graph of a partial execution: \<open>fromWorkflow\<close> and \<open>toWorkflow\<close>
  of \<^verbatim>\<open>directed-graph.ts\<close>, and the choice of the trigger in
  \<^verbatim>\<open>find-trigger-for-partial-execution.ts\<close>.
\<close>

section \<open>Conversion\<close>

definition fromWorkflow :: "Workflow \<Rightarrow> js_error + DirectedGraph" where
  "fromWorkflow w = rfold (importNodeConnections (getNode w)) (connectionsBySourceNode w)
     (addNodes (map snd (wf_nodes w)) emptyGraph)"

definition toWorkflow :: "IPinData option \<Rightarrow> DirectedGraph \<Rightarrow> js_error + Workflow" where
  "toWorkflow pinData g = rbind (toIConnections g) (\<lambda>conns. Inr (newWorkflow (getNodes g) conns pinData))"

section \<open>Choice of the trigger\<close>

definition hasSuffix :: "string \<Rightarrow> string \<Rightarrow> bool" where
  "hasSuffix suffix s \<longleftrightarrow> length suffix \<le> length s \<and> drop (length s - length suffix) s = suffix"

definition isWebhook :: "INode \<Rightarrow> bool" where
  "isWebhook n = hasSuffix ''webhook'' (node_type n)"

text \<open>Reading \<open>description\<close> of an unknown node type throws.\<close>

definition isTriggerNode :: "(INode \<Rightarrow> INodeType option) \<Rightarrow> INode \<Rightarrow> js_error + bool" where
  "isTriggerNode nodeTypes n = (case nodeTypes n of None \<Rightarrow> Inl TypeError | Some t \<Rightarrow> Inr (nt_group_trigger t))"

definition findAllParentTriggers :: "(INode \<Rightarrow> INodeType option) \<Rightarrow> Workflow \<Rightarrow> string \<Rightarrow> js_error + INode list" where
  "findAllParentTriggers nodeTypes w destinationNodeName =
     rbind (rfold (\<lambda>nm ns. case getNode w nm of None \<Rightarrow> Inl AssertionError | Some n \<Rightarrow> Inr (ns @ [n]))
         (getParentNodes (connectionsByDestinationNode w) destinationNodeName (OfType Main) (-1)) [])
       (\<lambda>parentNodes. rfold (\<lambda>n ns. rbind (isTriggerNode nodeTypes n) (\<lambda>b. Inr (if b then ns @ [n] else ns))) parentNodes [])"

text \<open>
  The comparison function of the sort calls every webhook smaller than every node, other webhooks
  included. The source says what the sort does with it: webhooks come first, in reverse order.
\<close>

definition webhooksFirst :: "INode list \<Rightarrow> INode list" where
  "webhooksFirst ns = rev (filter isWebhook ns) @ filter (\<lambda>n. \<not> isWebhook n) ns"

definition findTriggerForPartialExecution ::
  "(INode \<Rightarrow> INodeType option) \<Rightarrow> Workflow \<Rightarrow> string \<Rightarrow> IRunData \<Rightarrow> js_error + INode option" where
  "findTriggerForPartialExecution nodeTypes w destinationNodeName runData =
     (case getNode w destinationNodeName of
        None \<Rightarrow> Inr None
      | Some destinationNode \<Rightarrow>
          rbind (isTriggerNode nodeTypes destinationNode) (\<lambda>isTrigger.
            if isTrigger \<and> disabled destinationNode \<noteq> Some True then Inr (Some destinationNode)
            else rbind (findAllParentTriggers nodeTypes w destinationNodeName) (\<lambda>triggers.
              let parentTriggers = filter (\<lambda>n. disabled n \<noteq> Some True) triggers in
              case List.find (\<lambda>n. map_of runData (name n) \<noteq> None) parentTriggers of
                Some n \<Rightarrow> Inr (Some n)
              | None \<Rightarrow>
                  let pinnedTriggers = webhooksFirst (filter (\<lambda>n. getPinDataOfNode w (name n) \<noteq> None) parentTriggers);
                      webhookTriggers = filter isWebhook parentTriggers
                  in Inr (if length pinnedTriggers > 0 then Some (hd pinnedTriggers)
                          else if length webhookTriggers > 0 then Some (hd webhookTriggers)
                          else arr_at parentTriggers 0))))"

section \<open>Round trip\<close>

definition importLink ::
  "(string \<Rightarrow> INode option) \<Rightarrow> string \<times> NodeConnectionType \<times> nat \<times> IConnection \<Rightarrow> DirectedGraph \<Rightarrow> js_error + DirectedGraph" where
  "importLink nodeMap lk ng = (case lk of (k, t, i, c) \<Rightarrow>
     (case nodeMap k of None \<Rightarrow> Inl AssertionError | Some from \<Rightarrow> importConnection nodeMap from t i c ng))"

lemma rfold_concat: "rfold f (concat xss) = rfold (rfold f) xss"
proof
  show "rfold f (concat xss) s = rfold (rfold f) xss s" for s
    by (induction xss arbitrary: s) (auto simp: rfold_append rbind_def split: sum.splits)
qed

lemma rfold_map: "rfold f (map g xs) = rfold (\<lambda>x. f (g x)) xs"
proof
  show "rfold f (map g xs) s = rfold (\<lambda>x. f (g x)) xs s" for s
    by (induction xs arbitrary: s) (auto simp: rbind_def split: sum.splits)
qed

lemma importLink_known: "nodeMap k = Some n \<Longrightarrow> importLink nodeMap (k, t, i, c) = importConnection nodeMap n t i c"
  by (simp add: importLink_def fun_eq_iff)

lemma import_links:
  assumes "\<And>k m. (k, m) \<in> set r \<Longrightarrow> nodeMap k \<noteq> None"
  shows "rfold (importNodeConnections nodeMap) r ng = rfold (importLink nodeMap) (all_links r) ng"
proof -
  have "rfold (importNodeConnections nodeMap) r ng = rfold (\<lambda>(k, m). rfold (importLink nodeMap)
      (concat (map (\<lambda>(t, outs). concat (map (\<lambda>(i, cell). map (\<lambda>c. (k, t, i, c)) (cell_or [] cell)) (with_index outs))) m))) r ng"
  proof (rule rfold_cong [OF refl refl])
    fix e s assume "e \<in> set r"
    obtain k m where km: "e = (k, m)" by force
    with \<open>e \<in> set r\<close> assms obtain from_n where "nodeMap k = Some from_n" by blast
    with km show "importNodeConnections nodeMap e s = (case e of (k, m) \<Rightarrow> rfold (importLink nodeMap)
      (concat (map (\<lambda>(t, outs). concat (map (\<lambda>(i, cell). map (\<lambda>c. (k, t, i, c)) (cell_or [] cell)) (with_index outs))) m))) s"
      by (simp add: importNodeConnections_def rfold_concat rfold_map split_def importLink_known)
  qed
  then show ?thesis by (simp add: all_links_def rfold_concat rfold_map split_def)
qed

text \<open>The place of a connection of the graph in the exported object.\<close>

definition link_of :: "GraphConnection \<Rightarrow> string \<times> NodeConnectionType \<times> nat \<times> IConnection" where
  "link_of d = (name (from_node d), conn_type d, outputIndex d, exported d)"

lemma link_of_inj:
  assumes "wf_graph g" "d \<in> conns g" "e \<in> conns g" "link_of d = link_of e"
  shows "d = e"
proof -
  have "from_node d = from_node e" "to_node d = to_node e"
    using nodeExists_name [of g] wf_graphD(3) [OF assms(1)] assms(2-4) by (auto simp: link_of_def exported_def)
  with assms(4) show ?thesis by (cases d; cases e) (simp add: link_of_def exported_def)
qed

lemma importLink_link_of:
  assumes "\<And>n. nodeExists g n \<Longrightarrow> nodeMap (name n) = Some n" "wf_graph g" "d \<in> conns g"
  shows "importLink nodeMap (link_of d) ng = addConnection (as_input d) ng"
proof -
  have "nodeMap (name (from_node d)) = Some (from_node d)" "nodeMap (name (to_node d)) = Some (to_node d)"
    using assms wf_graphD(3) by blast+
  then show ?thesis by (simp add: importLink_def link_of_def importConnection_def exported_def as_input_def)
qed

lemma set_all_links:
  assumes "distinct_keys r" "exports cs r"
  shows "set (all_links r) = link_of ` set cs"
proof -
  have mem: "l \<in> set (all_links r) \<longleftrightarrow> (\<exists>k m t outs i cell c. (k, m) \<in> set r \<and> (t, outs) \<in> set m \<and>
      (i, cell) \<in> set (with_index outs) \<and> c \<in> set (cell_or [] cell) \<and> l = (k, t, i, c))" for l
    unfolding all_links_def by fastforce
  have cellmem: "(\<exists>cell. (i, cell) \<in> set (with_index outs) \<and> c \<in> set (cell_or [] cell)) \<longleftrightarrow> c \<in> set (cell_or [] (arr_get outs i))" for i outs and c :: IConnection
    unfolding set_with_index arr_get_def by auto
  show ?thesis
  proof (rule set_eqI, rule iffI)
    fix l assume "l \<in> set (all_links r)"
    then obtain k m t outs i cell c where l: "(k, m) \<in> set r" "(t, outs) \<in> set m"
      "(i, cell) \<in> set (with_index outs)" "c \<in> set (cell_or [] cell)" "l = (k, t, i, c)" unfolding mem by blast
    from l(1) have "map_of r k = Some m" using assms(1) by (simp add: map_of_entry [symmetric])
    from exportsD [OF assms(2) this] obtain t' outs' where
      m: "m = [(t', outs')]" "exports_at cs k (Some [(t', outs')])" .
    with l(2) have eq: "t' = t" "outs' = outs" by simp_all
    from l(3,4) cellmem have "c \<in> set (cell_or [] (arr_get outs i))" by blast
    with m(2) eq obtain d where "d \<in> set cs" "name (from_node d) = k" "outputIndex d = i" "c = exported d" "conn_type d = t" by auto
    then show "l \<in> link_of ` set cs" unfolding l(5) link_of_def by force
  next
    fix l assume "l \<in> link_of ` set cs"
    then obtain d where d: "d \<in> set cs" "l = link_of d" by blast
    let ?k = "name (from_node d)"
    obtain m where k: "map_of r ?k = Some m" using exportsD_None [OF assms(2)] d(1) by (cases "map_of r ?k") blast+
    from exportsD [OF assms(2) this] obtain t outs where
      m: "m = [(t, outs)]" "exports_at cs ?k (Some [(t, outs)])" .
    from m(2) d(1) have t: "conn_type d = t" and
      "exported d \<in> set (cell_or [] (arr_get outs (outputIndex d)))" by auto
    with cellmem obtain cell where "(outputIndex d, cell) \<in> set (with_index outs)" "exported d \<in> set (cell_or [] cell)" by blast
    moreover have "(?k, m) \<in> set r" using k by (rule map_of_SomeD)
    moreover have "(t, outs) \<in> set m" "l = (?k, t, outputIndex d, exported d)" using m(1) t by (simp_all add: d(2) link_of_def)
    ultimately show "l \<in> set (all_links r)" unfolding mem by blast
  qed
qed

lemma addAll:
  assumes "wf_graph g"
  shows "wf_graph ng \<Longrightarrow> nodes ng = nodes g \<Longrightarrow> conns ng \<subseteq> conns g \<Longrightarrow> set ds \<subseteq> conns g \<Longrightarrow>
    \<exists>ng'. rfold (\<lambda>d. addConnection (as_input d)) ds ng = Inr ng' \<and> wf_graph ng' \<and> nodes ng' = nodes g \<and>
      conns ng' = conns ng \<union> set ds"
proof (induction ds arbitrary: ng)
  case Nil
  then show ?case by simp
next
  case (Cons d ds)
  have d: "d \<in> conns g" using Cons.prems(4) by simp
  have ex: "nodeExists ng (from_node d)" "nodeExists ng (to_node d)"
    using wf_graphD(3) [OF assms d] Cons.prems(2) by (simp_all add: nodeExists_def)
  define n1 where "n1 = setConnection d ng"
  have n1: "addConnection (as_input d) ng = Inr n1" "wf_graph n1" "nodes n1 = nodes g"
    using ex Cons.prems(1,2) wf_setConnection by (simp_all add: addConnection_as_input n1_def)
  have "e = d" if "e \<in> conns ng" "makeKey e = makeKey d" for e
    using same_key [OF assms] that Cons.prems(3) d by blast
  then have c1: "conns n1 = insert d (conns ng)"
    unfolding n1_def allConnections_setConnection [OF Cons.prems(1)] by blast
  have "conns n1 \<subseteq> conns g" "set ds \<subseteq> conns g" using c1 d Cons.prems(3,4) by auto
  from Cons.IH [OF n1(2,3) this] n1(1) c1 show ?case by auto
qed

lemma keys_exportConnection:
  assumes "distinct_keys r" "exportConnection c r = Inr r'"
  shows "distinct_keys r' \<and> set (map fst r') = insert (name (from_node c)) (set (map fst r))"
proof -
  from assms(2) obtain m where "r' = AList.update (name (from_node c)) m r"
    by (auto simp: exportConnection_def Let_def split: option.splits)
  with assms(1) show ?thesis by (simp add: distinct_update keys_update del: set_map)
qed

lemma keys_exports:
  "distinct_keys r \<Longrightarrow> rfold exportConnection cs r = Inr r' \<Longrightarrow>
     distinct_keys r' \<and> set (map fst r') = set (map fst r) \<union> (\<lambda>c. name (from_node c)) ` set cs"
proof (induction cs arbitrary: r)
  case (Cons c cs)
  then obtain r1 where r1: "exportConnection c r = Inr r1" "rfold exportConnection cs r1 = Inr r'" by (auto simp: rbind_eq_Inr)
  from keys_exportConnection [OF Cons.prems(1) r1(1)] Cons.IH [OF _ r1(2)] show ?case by auto
qed simp

lemma set_same_connections:
  assumes "wf_graph g" "wf_graph h" "conns g = conns h"
  shows "set (connections g) = set (connections h)"
proof -
  have "set (connections k) = (\<lambda>c. (makeKey c, c)) ` conns k" if "wf_graph k" for k
    using wf_graphD(4) [OF that] by (force simp: allConnections_def)
  with assms show ?thesis by metis
qed

lemma wf_workflow_nodes:
  assumes "wf_graph g"
  shows "fold (\<lambda>n. AList.update (name n) n) (getNodes g) [] = nodes g"
proof -
  have "fold (\<lambda>n. AList.update (name n) n) ns m = put_all (map (\<lambda>n. (name n, n)) ns) m" for ns :: "INode list" and m
    by (induction ns arbitrary: m) simp_all
  moreover have "map (\<lambda>n. (name n, n)) (getNodes g) = nodes g"
    unfolding getNodes_def by (rule entries_by_name) (use wf_graphD(5) [OF assms] in auto)
  ultimately show ?thesis using put_all_fresh [of "[]" "nodes g"] wf_graphD(1) [OF assms] by simp
qed

lemma export_import:
  assumes "wf_graph g" "one_type_per_source (getConnections g None)"
  shows "\<exists>w g'. toWorkflow pinData g = Inr w \<and> fromWorkflow w = Inr g' \<and> wf_graph g' \<and>
    nodes g' = nodes g \<and> set (connections g') = set (connections g)"
proof -
  from exportConnections [of "allConnections g"] assms(2) obtain r where
    r: "rfold exportConnection (allConnections g) [] = Inr r" "exports (allConnections g) r"
    unfolding getConnections_all by blast
  define w where "w = newWorkflow (getNodes g) r pinData"
  have w: "toWorkflow pinData g = Inr w" using r(1) by (simp add: toWorkflow_def toIConnections_def w_def)
  have wn: "wf_nodes w = nodes g" "connectionsBySourceNode w = r"
    by (simp_all add: w_def newWorkflow_def setPinData_def setConnections_def setNodes_def wf_workflow_nodes [OF assms(1)])
  have look: "getNode w (name n) = Some n" if "nodeExists g n" for n
    using that by (simp add: getNode_def wn nodeExists_def)
  note keys = keys_exports [OF _ r(1)]
  have links: "set (all_links r) = link_of ` conns g" using set_all_links [OF _ r(2)] keys by simp
  have "getNode w k \<noteq> None" if "(k, m) \<in> set r" for k m
  proof -
    from that keys have "k \<in> (\<lambda>c. name (from_node c)) ` conns g" by force
    then obtain d where "d \<in> conns g" "k = name (from_node d)" by blast
    with look wf_graphD(3) [OF assms(1)] show ?thesis by simp
  qed
  from import_links [OF this] have from_w: "fromWorkflow w = rfold (importLink (getNode w)) (all_links r)
      (addNodes (getNodes g) emptyGraph)"
    by (simp add: fromWorkflow_def wn getNodes_def)
  have "\<forall>l \<in> set (all_links r). \<exists>d. d \<in> conns g \<and> l = link_of d" using links by blast
  from bchoice [OF this] obtain f where f: "\<forall>l \<in> set (all_links r). f l \<in> conns g \<and> l = link_of (f l)" by blast
  let ?ds = "map f (all_links r)"
  have ds: "set ?ds = conns g"
  proof (rule set_eqI, rule iffI)
    fix d assume d: "d \<in> conns g"
    with links have l: "link_of d \<in> set (all_links r)" by blast
    with f have "f (link_of d) \<in> conns g" "link_of (f (link_of d)) = link_of d" by auto
    with link_of_inj [OF assms(1) _ d] have "f (link_of d) = d" by blast
    with l show "d \<in> set ?ds" by force
  qed (use f in auto)
  have "rfold (importLink (getNode w)) (all_links r) s = rfold (\<lambda>d. addConnection (as_input d)) ?ds s" for s
    unfolding rfold_map
  proof (rule rfold_cong [OF refl refl])
    fix l s assume "l \<in> set (all_links r)"
    with f have "f l \<in> conns g" "l = link_of (f l)" by blast+
    with importLink_link_of [OF look assms(1), of "f l" s] show "importLink (getNode w) l s = addConnection (as_input (f l)) s"
      by metis
  qed
  moreover have base: "wf_graph \<lparr>nodes = nodes g, connections = []\<rparr>"
    using assms(1) by (simp add: wf_graph_def)
  moreover have "addNodes (getNodes g) emptyGraph = \<lparr>nodes = nodes g, connections = []\<rparr>"
    using put_all_fresh [of "[]" "nodes g"] entries_by_name [of "nodes g" name] wf_graphD(1,5) [OF assms(1)]
    by (simp add: addNodes_eq emptyGraph_def getNodes_def)
  moreover from addAll [OF assms(1) base, of ?ds] ds obtain g' where
    "rfold (\<lambda>d. addConnection (as_input d)) ?ds \<lparr>nodes = nodes g, connections = []\<rparr> = Inr g'" "wf_graph g'"
    "nodes g' = nodes g" "conns g' = conns g" by (auto simp: allConnections_def)
  ultimately have "fromWorkflow w = Inr g'" "set (connections g') = set (connections g)"
    using set_same_connections [OF _ assms(1)] by (simp_all add: from_w)
  with w \<open>wf_graph g'\<close> \<open>nodes g' = nodes g\<close> show ?thesis by blast
qed

text \<open>C40: a well-formed graph is exported to a workflow exactly when the connections out of each node have one type, and
  then to import the workflow again gives back the same nodes and the same set of connections; otherwise the
  export throws a \<open>TypeError\<close>.\<close>

theorem fromWorkflow_toWorkflow:
  assumes "wf_graph g"
  shows "if one_type_per_source (getConnections g None)
    then \<exists>w g'. toWorkflow pinData g = Inr w \<and> fromWorkflow w = Inr g' \<and> wf_graph g' \<and>
      nodes g' = nodes g \<and> set (connections g') = set (connections g)
    else toWorkflow pinData g = Inl TypeError"
proof (cases "one_type_per_source (getConnections g None)")
  case True
  with export_import [OF assms True, of pinData] show ?thesis by simp
next
  case False
  with exportConnections [of "getConnections g None"] show ?thesis
    by (simp add: toWorkflow_def toIConnections_def getConnections_all)
qed

lemma fromWorkflow_toWorkflow_witness:
  "\<exists>w g'. toWorkflow None chainGraph = Inr w \<and> fromWorkflow w = Inr g' \<and> nodes g' = nodes chainGraph"
proof -
  have "one_type_per_source (getConnections chainGraph None)" by code_simp
  from fromWorkflow_toWorkflow [OF chainGraph_wf(1), of None, unfolded if_P [OF this]] show ?thesis
    by (elim exE conjE) (intro exI conjI)
qed

section \<open>The trigger\<close>

lemma rfold_filter_ok:
  "rfold (\<lambda>n ns. rbind (f n) (\<lambda>b. Inr (if b then ns @ [n] else ns))) xs ys = Inr zs \<Longrightarrow>
     zs = ys @ filter (\<lambda>n. f n = Inr True) xs"
proof (induction xs arbitrary: ys)
  case (Cons x xs)
  then obtain b where b: "f x = Inr b" "rfold (\<lambda>n ns. rbind (f n) (\<lambda>b. Inr (if b then ns @ [n] else ns)))
      xs (if b then ys @ [x] else ys) = Inr zs" by (auto simp: rbind_eq_Inr)
  from Cons.IH [OF b(2)] b(1) show ?case by (cases b) simp_all
qed simp

lemma rfold_lookup_ok:
  "rfold (\<lambda>nm ns. case f nm of None \<Rightarrow> Inl AssertionError | Some n \<Rightarrow> Inr (ns @ [n])) xs ys = Inr zs \<Longrightarrow>
     zs = ys @ List.map_filter f xs"
proof (induction xs arbitrary: ys)
  case (Cons x xs)
  then obtain n where n: "f x = Some n" "rfold (\<lambda>nm ns. case f nm of None \<Rightarrow> Inl AssertionError | Some n \<Rightarrow> Inr (ns @ [n]))
      xs (ys @ [n]) = Inr zs" by (auto split: option.splits)
  from Cons.IH [OF n(2)] n(1) show ?case by simp
qed simp

lemma chosen_in:
  assumes "Some n = (if length xs > 0 then Some (hd xs) else if length ys > 0 then Some (hd ys) else arr_at ps 0)"
    and "set xs \<subseteq> set ps" "set ys \<subseteq> set ps"
  shows "n \<in> set ps"
  using assms by (cases xs; cases ys) (auto simp: arr_at_def split: if_splits)

text \<open>The trigger \<open>findTriggerForPartialExecution\<close> returns is an enabled trigger node of the
  workflow: the destination itself, or a node whose output leads to it. If an enabled trigger before the
  destination has run data, the one returned has run data, unless the destination is a trigger itself.\<close>

theorem findTriggerForPartialExecution_trigger:
  assumes "findTriggerForPartialExecution nodeTypes w destination rd = Inr (Some n)"
    and "list_all (\<lambda>(k, m). name m = k) (wf_nodes w)"
  shows "disabled n \<noteq> Some True \<and> isTriggerNode nodeTypes n = Inr True \<and> getNode w (name n) = Some n \<and>
    (name n = destination \<or> (destination, name n) \<in> (conn_step (connectionsByDestinationNode w) (OfType Main))\<^sup>+) \<and>
    (name n = destination \<or> map_of rd (name n) \<noteq> None \<or>
     filter (\<lambda>p. map_of rd (name p) \<noteq> None \<and> disabled p \<noteq> Some True \<and> isTriggerNode nodeTypes p = Inr True)
       (List.map_filter (getNode w) (getParentNodes (connectionsByDestinationNode w) destination (OfType Main) (-1))) = [])"
proof -
  let ?byDest = "connectionsByDestinationNode w"
  let ?parents = "List.map_filter (getNode w) (getParentNodes ?byDest destination (OfType Main) (-1))"
  have key: "name m = k" if "getNode w k = Some m" for k m
    using that assms(2) by (auto simp: getNode_def list_all_iff dest!: map_of_SomeD)
  from assms(1) obtain d where d: "getNode w destination = Some d"
    by (auto simp: findTriggerForPartialExecution_def split: option.splits)
  with assms(1) obtain b where b: "isTriggerNode nodeTypes d = Inr b"
    by (auto simp: findTriggerForPartialExecution_def rbind_eq_Inr)
  show ?thesis
  proof (cases "b \<and> disabled d \<noteq> Some True")
    case True
    with assms(1) d b have "n = d" by (simp add: findTriggerForPartialExecution_def)
    with True b d key [OF d] show ?thesis by auto
  next
    case False
    with assms(1) d b obtain ts where ts: "findAllParentTriggers nodeTypes w destination = Inr ts"
      by (auto simp: findTriggerForPartialExecution_def rbind_eq_Inr)
    then have ts_eq: "ts = filter (\<lambda>p. isTriggerNode nodeTypes p = Inr True) ?parents"
      unfolding findAllParentTriggers_def rbind_eq_Inr
      by (elim exE conjE) (drule rfold_lookup_ok, drule rfold_filter_ok, simp)
    define ps where "ps = filter (\<lambda>p. disabled p \<noteq> Some True) ts"
    have n: "n \<in> set ps \<and> (map_of rd (name n) \<noteq> None \<or> (\<forall>p \<in> set ps. map_of rd (name p) = None))"
    proof (cases "List.find (\<lambda>p. map_of rd (name p) \<noteq> None) ps")
      case (Some m)
      with assms(1) d b False ts have "n = m" by (auto simp: findTriggerForPartialExecution_def ps_def Let_def split: if_splits)
      with Some show ?thesis by (auto simp: find_Some_iff)
    next
      case None
      let ?pinned = "webhooksFirst (filter (\<lambda>p. getPinDataOfNode w (name p) \<noteq> None) ps)"
      have "findTriggerForPartialExecution nodeTypes w destination rd = Inr (if length ?pinned > 0 then Some (hd ?pinned)
          else if length (filter isWebhook ps) > 0 then Some (hd (filter isWebhook ps)) else arr_at ps 0)"
        unfolding findTriggerForPartialExecution_def d option.case b rbind_simps if_not_P [OF False] ts Let_def
          ps_def [symmetric] None ..
      from trans [OF assms(1) [symmetric] this] have sel: "Some n = (if length ?pinned > 0 then Some (hd ?pinned)
          else if length (filter isWebhook ps) > 0 then Some (hd (filter isWebhook ps)) else arr_at ps 0)"
        by (rule sum.inject(2) [THEN iffD1])
      have "set ?pinned \<subseteq> set ps" "set (filter isWebhook ps) \<subseteq> set ps" by (auto simp: webhooksFirst_def)
      from chosen_in [OF sel this] have "n \<in> set ps" .
      with None show ?thesis unfolding find_None_iff by blast
    qed
    then have n1: "disabled n \<noteq> Some True" "isTriggerNode nodeTypes n = Inr True" "n \<in> set ?parents"
      by (auto simp: ps_def ts_eq)
    from n1(3) obtain k where k: "k \<in> set (getParentNodes ?byDest destination (OfType Main) (-1))" "getNode w k = Some n"
      by (auto simp: map_filter_def)
    from k(1) have "(destination, k) \<in> (conn_step ?byDest (OfType Main))\<^sup>+"
      unfolding getParentNodes_def
      using getConnectedNodes_set [of destination "[]" ?byDest "OfType Main"] by (auto simp: found_from_start)
    with n1 n k(2) key [OF k(2)] show ?thesis
      by (auto simp: ps_def ts_eq filter_empty_conv)
  qed
qed

text \<open>A trigger \<open>A\<close> before \<open>B\<close>.\<close>

definition triggerTypes :: "INode \<Rightarrow> INodeType option" where
  "triggerTypes n = Some \<lparr>nt_name = node_type n, nt_trigger = name n = ''A'', nt_poll = False, nt_group_trigger = name n = ''A''\<rparr>"

lemma findTriggerForPartialExecution_trigger_witness:
  "findTriggerForPartialExecution triggerTypes wAB ''B'' [] = Inr (Some (plainNode 1 ''A'' ''set'')) \<and>
   isTriggerNode triggerTypes (plainNode 1 ''A'' ''set'') = Inr True"
proof -
  have 1: "findTriggerForPartialExecution triggerTypes wAB ''B'' [] = Inr (Some (plainNode 1 ''A'' ''set''))" by code_simp
  have 2: "list_all (\<lambda>(k, m). name m = k) (wf_nodes wAB)" by code_simp
  from findTriggerForPartialExecution_trigger [OF 1 2] 1 show ?thesis by simp
qed

end
