(* ===== verification/EngineState.thy ===== *)
theory EngineState
  imports ExecutionStack WorkflowGraph
begin

text \<open>
  The state of \<^verbatim>\<open>packages/core/src/execution-engine/workflow-execute.ts\<close> and its operation
  \<open>addNodeToBeExecuted\<close>: how the output of a node becomes an entry of the execution stack, or waits in
  \<open>waitingExecution\<close> for the other inputs of its destination.

  The fields of \<open>RunExecution\<close> are those of \<open>IRunExecutionData\<close> the engine reads or writes, with the
  workflow, whose node objects the engine also changes. An entry of the stack or of \<open>waitingExecution\<close>
  without a node, or without \<open>main\<close> data where the code reads it, is the \<open>TypeError\<close> of reading a
  property of \<open>undefined\<close>. The keys of \<open>waitingExecution[node]\<close> are array indexes, which JavaScript
  enumerates in ascending order.
\<close>

section \<open>State\<close>

record RunExecution = StackState +
  workflow :: Workflow
  executionOrder :: "string option"
  resultRunData :: IRunData
  resultPinData :: "IPinData option"
  lastNodeExecuted :: "string option"
  resultError :: "ExecutionError option"
  startDestination :: "IDestinationNode option"
  runNodeFilter :: "string list option"
  waitTill :: "nat option"
  nodeMetadata :: "(string \<times> ITaskMetadata list) list option"
  currentNodeExecutionIndex :: nat

definition newExecution :: "Workflow \<Rightarrow> string option \<Rightarrow> RunExecution" where
  "newExecution w order = \<lparr>nodeExecutionStack = [], waitingExecution = [], waitingExecutionSource = [],
     workflow = w, executionOrder = order, resultRunData = [], resultPinData = None,
     lastNodeExecuted = None, resultError = None, startDestination = None, runNodeFilter = None,
     waitTill = None, nodeMetadata = None, currentNodeExecutionIndex = 0\<rparr>"

definition isLegacyExecutionOrder :: "RunExecution \<Rightarrow> bool" where
  "isLegacyExecutionOrder st \<longleftrightarrow> executionOrder st \<noteq> Some ''v1''"

text \<open>\<open>nodeExecutionStack[enqueueFn](item)\<close>\<close>

definition enqueue :: "IExecuteData \<Rightarrow> RunExecution \<Rightarrow> RunExecution" where
  "enqueue item st = st\<lparr>nodeExecutionStack :=
     (if executionOrder st = Some ''v1'' then item # nodeExecutionStack st else nodeExecutionStack st @ [item])\<rparr>"

definition destinations :: "RunExecution \<Rightarrow> IConnections" where
  "destinations st = connectionsByDestinationNode (workflow st)"

definition numberOfInputs :: "RunExecution \<Rightarrow> string \<Rightarrow> nat" where
  "numberOfInputs st nm = (case mainInputs (workflow st) nm of None \<Rightarrow> 0 | Some ins \<Rightarrow> length ins)"

section \<open>Empty inputs\<close>

text \<open>\<open>get(runData, [node, runIndex, 'data', 'main', index])\<close>\<close>

definition mainOutput :: "IRunData \<Rightarrow> string \<Rightarrow> nat \<Rightarrow> nat \<Rightarrow> INodeExecutionData list cell" where
  "mainOutput rd nm runIndex i =
     (case arr_at (list_get rd nm) runIndex of None \<Rightarrow> Undef
      | Some run \<Rightarrow> (case td_data run of None \<Rightarrow> Undef | Some d \<Rightarrow> arr_get (list_get d Main) i))"

fun incomingConnectionIsEmpty :: "IRunData \<Rightarrow> IConnection list \<Rightarrow> nat \<Rightarrow> js_error + bool" where
  "incomingConnectionIsEmpty rd [] runIndex = Inr True"
| "incomingConnectionIsEmpty rd (c # cs) runIndex =
     (case mainOutput rd (c_node c) runIndex (c_index c) of
        Undef \<Rightarrow> incomingConnectionIsEmpty rd cs runIndex
      | Null \<Rightarrow> Inl TypeError
      | Val items \<Rightarrow> if length items \<noteq> 0 then Inr False else incomingConnectionIsEmpty rd cs runIndex)"

text \<open>\<open>connectionsByDestinationNode[nm].main[0] ?? []\<close>\<close>

definition firstInput :: "RunExecution \<Rightarrow> string \<Rightarrow> js_error + IConnection list" where
  "firstInput st nm = (case mainInputs (workflow st) nm of
     None \<Rightarrow> Inl TypeError | Some ins \<Rightarrow> Inr (cell_or [] (arr_get ins 0)))"

section \<open>Waiting entries\<close>

definition resetEntry :: "string \<Rightarrow> nat \<Rightarrow> nat \<Rightarrow> (string \<times> (nat \<times> (NodeConnectionType \<times> 'a cell list) list) list) list
    \<Rightarrow> (string \<times> (nat \<times> (NodeConnectionType \<times> 'a cell list) list) list) list" where
  "resetEntry nm n i m = AList.update nm (AList.update i [(Main, replicate n Null)] (obj_get m nm)) m"

definition prepareWaitingToExecution :: "string \<Rightarrow> nat \<Rightarrow> nat \<Rightarrow> RunExecution \<Rightarrow> RunExecution" where
  "prepareWaitingToExecution nodeName numberOfConnections runIndex st =
     st\<lparr>waitingExecution := resetEntry nodeName numberOfConnections runIndex (waitingExecution st),
        waitingExecutionSource := resetEntry nodeName numberOfConnections runIndex (waitingExecutionSource st)\<rparr>"

text \<open>\<open>m[nm][i].main\<close>, and the assignment to one of its cells.\<close>

definition entryMain :: "(string \<times> (nat \<times> (NodeConnectionType \<times> 'a cell list) list) list) list
    \<Rightarrow> string \<Rightarrow> nat \<Rightarrow> js_error + 'a cell list" where
  "entryMain m nm i = (case map_of m nm of None \<Rightarrow> Inl TypeError
     | Some es \<Rightarrow> (case map_of es i of None \<Rightarrow> Inl TypeError
     | Some d \<Rightarrow> (case map_of d Main of None \<Rightarrow> Inl TypeError | Some cells \<Rightarrow> Inr cells)))"

definition setEntryCell :: "string \<Rightarrow> nat \<Rightarrow> nat \<Rightarrow> 'a cell
    \<Rightarrow> (string \<times> (nat \<times> (NodeConnectionType \<times> 'a cell list) list) list) list
    \<Rightarrow> js_error + (string \<times> (nat \<times> (NodeConnectionType \<times> 'a cell list) list) list) list" where
  "setEntryCell nm i inputIdx v m = rbind (entryMain m nm i) (\<lambda>cells.
     Inr (AList.update nm (AList.update i
       (AList.update Main (arr_set inputIdx v cells) (obj_get (obj_get m nm) i)) (obj_get m nm)) m))"

text \<open>\<open>delete m[nm][i]\<close>, and of the node when nothing is left for it.\<close>

definition deleteEntry :: "string \<Rightarrow> nat \<Rightarrow> (string \<times> (nat \<times> 'e) list) list \<Rightarrow> (string \<times> (nat \<times> 'e) list) list" where
  "deleteEntry nm i m = AList.update nm (AList.delete i (obj_get m nm)) m"

definition removeWaiting :: "string \<Rightarrow> nat \<Rightarrow> RunExecution \<Rightarrow> RunExecution" where
  "removeWaiting nm i st =
     (let w = deleteEntry nm i (waitingExecution st); s = deleteEntry nm i (waitingExecutionSource st)
      in if obj_get w nm = []
         then st\<lparr>waitingExecution := AList.delete nm w, waitingExecutionSource := AList.delete nm s\<rparr>
         else st\<lparr>waitingExecution := w, waitingExecutionSource := s\<rparr>)"

text \<open>The first waiting entry, by index, that has no data for the input.\<close>

fun freeEntry :: "(nat \<times> ITaskDataConnections) list \<Rightarrow> nat \<Rightarrow> nat list \<Rightarrow> js_error + nat option" where
  "freeEntry es inputIdx [] = Inr None"
| "freeEntry es inputIdx (k # ks) =
     (case map_of (obj_get es k) Main of None \<Rightarrow> Inl TypeError
      | Some cells \<Rightarrow> (case arr_get cells inputIdx of
          Val _ \<Rightarrow> freeEntry es inputIdx ks | _ \<Rightarrow> Inr (Some k)))"

definition createNode :: "string \<Rightarrow> RunExecution \<Rightarrow> RunExecution" where
  "createNode nm st = (if map_of (waitingExecution st) nm = None
     then st\<lparr>waitingExecution := AList.update nm [] (waitingExecution st),
             waitingExecutionSource := AList.update nm [] (waitingExecutionSource st)\<rparr>
     else st)"

definition chooseEntry :: "IConnection \<Rightarrow> RunExecution \<Rightarrow> js_error + nat \<times> RunExecution" where
  "chooseEntry c st =
     (let es = obj_get (waitingExecution st) (c_node c)
      in rbind (freeEntry es (c_index c) (sort (map fst es))) (\<lambda>free.
        case free of
          Some k \<Rightarrow> Inr (k, st)
        | None \<Rightarrow> Inr (length es, prepareWaitingToExecution (c_node c) (numberOfInputs st (c_node c)) (length es) st)))"

text \<open>The output data of the node that just ran: \<open>None\<close> is \<open>null\<close>.\<close>

type_synonym NodeOutput = "INodeExecutionData list cell list option"

definition outputCell :: "NodeOutput \<Rightarrow> nat \<Rightarrow> INodeExecutionData list cell" where
  "outputCell data outIndex = (case data of None \<Rightarrow> Null | Some outs \<Rightarrow> arr_get outs outIndex)"

definition sourceFrom :: "string \<Rightarrow> nat \<Rightarrow> nat \<Rightarrow> ISourceData" where
  "sourceFrom parent outIndex runIndex =
     \<lparr>previousNode = parent, previousNodeOutput = Some outIndex, previousNodeRun = Some runIndex\<rparr>"

definition storeInput ::
  "IConnection \<Rightarrow> nat \<Rightarrow> nat \<Rightarrow> string \<Rightarrow> NodeOutput \<Rightarrow> nat \<Rightarrow> RunExecution \<Rightarrow> js_error + RunExecution" where
  "storeInput c entry outIndex parent data runIndex st =
     rbind (setEntryCell (c_node c) entry (c_index c) (outputCell data outIndex) (waitingExecution st)) (\<lambda>w.
     rbind (setEntryCell (c_node c) entry (c_index c)
         (if data = None then Null else Val (sourceFrom parent outIndex runIndex)) (waitingExecutionSource st)) (\<lambda>s.
     Inr (st\<lparr>waitingExecution := w, waitingExecutionSource := s\<rparr>)))"

text \<open>Every input of the entry has data: the node goes on the stack and the entry is removed.\<close>

definition completeEntry :: "IConnection \<Rightarrow> nat \<Rightarrow> RunExecution \<Rightarrow> js_error + RunExecution" where
  "completeEntry c entry st =
     (case getNode (workflow st) (c_node c) of
        None \<Rightarrow> Inl TypeError
      | Some n \<Rightarrow> Inr (removeWaiting (c_node c) entry (enqueue
          \<lparr>ed_node = n, ed_data = obj_get (obj_get (waitingExecution st) (c_node c)) entry,
           ed_source = map_of (obj_get (waitingExecutionSource st) (c_node c)) entry,
           ed_runIndex = None, ed_metadata = None\<rparr> st)))"

section \<open>Pulling in the other inputs (legacy execution order)\<close>

definition checkOutputNodes :: "RunExecution \<Rightarrow> string \<Rightarrow> js_error + string list" where
  "checkOutputNodes st parent = (case map_of (connectionsBySourceNode (workflow st)) parent of
     None \<Rightarrow> Inl TypeError | Some m \<Rightarrow> Inr (map c_node (flat (list_get m Main))))"

definition stackNames :: "RunExecution \<Rightarrow> string list" where
  "stackNames st = map (\<lambda>e. name (ed_node e)) (nodeExecutionStack st)"

definition isProcessed :: "RunExecution \<Rightarrow> string \<Rightarrow> bool" where
  "isProcessed st nm \<longleftrightarrow> map_of (resultRunData st) nm \<noteq> None"

text \<open>From the input node upwards: the last node before one that already ran, or none when one of them
  is about to run.\<close>

fun chooseNodeToAdd :: "RunExecution \<Rightarrow> string list \<Rightarrow> string \<Rightarrow> string \<Rightarrow> string list \<Rightarrow> string option" where
  "chooseNodeToAdd st outs inputNode nodeToAdd [] = Some nodeToAdd"
| "chooseNodeToAdd st outs inputNode nodeToAdd (p # ps) =
     (if inputNode \<noteq> p \<and> p \<in> set outs then None
      else if p \<in> set (stackNames st) then None
      else if isProcessed st p then Some nodeToAdd
      else chooseNodeToAdd st outs inputNode p ps)"

definition allParents :: "RunExecution \<Rightarrow> string \<Rightarrow> string list" where
  "allParents st nm = getParentNodes (destinations st) nm (OfType Main) (-1)"

text \<open>A child of the node that just ran is not pulled in when that node had no data for it.\<close>

definition dropEmptyChild ::
  "string \<Rightarrow> nat \<Rightarrow> NodeOutput \<Rightarrow> RunExecution \<Rightarrow> string option \<Rightarrow> js_error + string option" where
  "dropEmptyChild parent outIndex data st nodeToAdd =
     (case nodeToAdd of None \<Rightarrow> Inr None
      | Some nm \<Rightarrow>
          if parent \<in> set (allParents st nm) then
            (case outputCell data outIndex of Val items \<Rightarrow> Inr (if length items = 0 then None else Some nm)
             | _ \<Rightarrow> Inl TypeError)
          else Inr (Some nm))"

definition addEmptyItem :: "RunExecution \<Rightarrow> string \<Rightarrow> nat \<Rightarrow> js_error + bool" where
  "addEmptyItem st nm runIndex =
     (if map_of (destinations st) nm = None then Inr True
      else rbind (firstInput st nm) (\<lambda>ins. incomingConnectionIsEmpty (resultRunData st) ins runIndex))"

definition pullInput ::
  "nat \<Rightarrow> string \<Rightarrow> NodeOutput \<Rightarrow> nat \<Rightarrow> string list \<Rightarrow> string \<Rightarrow> RunExecution \<Rightarrow> js_error + RunExecution" where
  "pullInput outIndex parent data runIndex outs inputNode st =
     (let chosen = chooseNodeToAdd st outs inputNode inputNode (rev (allParents st inputNode @ [inputNode]))
      in rbind (dropEmptyChild parent outIndex data st chosen) (\<lambda>nodeToAdd.
        case nodeToAdd of None \<Rightarrow> Inr st
        | Some nm \<Rightarrow> rbind (addEmptyItem st nm runIndex) (\<lambda>empty.
            if \<not> empty then Inr st
            else case getNode (workflow st) nm of
              None \<Rightarrow> Inl TypeError
            | Some n \<Rightarrow> Inr (enqueue \<lparr>ed_node = n, ed_data = [(Main, [Val [plainItem []]])],
                ed_source = Some [(Main, [Val (sourceFrom parent outIndex runIndex)])],
                ed_runIndex = None, ed_metadata = None\<rparr> st))))"

definition checkInput ::
  "nat \<Rightarrow> string \<Rightarrow> NodeOutput \<Rightarrow> nat \<Rightarrow> string list \<Rightarrow> IConnection \<Rightarrow> RunExecution \<Rightarrow> js_error + RunExecution" where
  "checkInput outIndex parent data runIndex outs inputData st =
     (let inputNode = c_node inputData in
      if inputNode = parent then Inr st
      else rbind (if inputNode \<in> set outs
                  then rbind (firstInput st inputNode) (\<lambda>ins. incomingConnectionIsEmpty (resultRunData st) ins runIndex)
                  else Inr True) (\<lambda>goOn.
        if \<not> goOn then Inr st
        else if inputNode \<in> set (stackNames st) then Inr st
        else if isProcessed st inputNode then Inr st
        else if \<not> isLegacyExecutionOrder st then Inr st
        else pullInput outIndex parent data runIndex outs inputNode st))"

definition checkSiblings ::
  "IConnection \<Rightarrow> nat \<Rightarrow> string \<Rightarrow> NodeOutput \<Rightarrow> nat \<Rightarrow> RunExecution \<Rightarrow> js_error + RunExecution" where
  "checkSiblings c outIndex parent data runIndex st =
     rbind (checkOutputNodes st parent) (\<lambda>outs.
       case mainInputs (workflow st) (c_node c) of
         None \<Rightarrow> Inl TypeError
       | Some ins \<Rightarrow> rfold (checkInput outIndex parent data runIndex outs) (flat ins) st)"

section \<open>addNodeToBeExecuted\<close>

text \<open>Data is still missing: the entry is written again with the array it already holds.\<close>

definition keepWaiting ::
  "IConnection \<Rightarrow> nat \<Rightarrow> nat \<Rightarrow> NodeOutput \<Rightarrow> RunExecution \<Rightarrow> js_error + RunExecution" where
  "keepWaiting c entry outIndex data st =
     rbind (entryMain (waitingExecution st) (c_node c) entry) (\<lambda>cells.
     rbind (entryMain (waitingExecutionSource st) (c_node c) entry) (\<lambda>sources.
       let st' = prepareWaitingToExecution (c_node c) (numberOfInputs st (c_node c)) entry st
       in Inr (st'\<lparr>waitingExecution := AList.update (c_node c) (AList.update entry
                [(Main, arr_set (c_index c) (outputCell data outIndex) cells)]
                (obj_get (waitingExecution st') (c_node c))) (waitingExecution st'),
              waitingExecutionSource := AList.update (c_node c) (AList.update entry [(Main, sources)]
                (obj_get (waitingExecutionSource st') (c_node c))) (waitingExecutionSource st')\<rparr>)))"

definition addDirectly ::
  "IConnection \<Rightarrow> nat \<Rightarrow> string \<Rightarrow> NodeOutput \<Rightarrow> nat \<Rightarrow> nat option \<Rightarrow> ITaskMetadata option \<Rightarrow> RunExecution \<Rightarrow> RunExecution" where
  "addDirectly c outIndex parent data runIndex newRunIndex metadata st =
     (case getNode (workflow st) (c_node c) of
        None \<Rightarrow> st
      | Some n \<Rightarrow> enqueue \<lparr>ed_node = n,
          ed_data = [(Main, arr_set (c_index c) (outputCell data outIndex) (replicate (Suc (c_index c)) Null))],
          ed_source = Some [(Main, [Val (sourceFrom parent outIndex runIndex)])],
          ed_runIndex = newRunIndex, ed_metadata = metadata\<rparr> st)"

definition addToWaiting ::
  "IConnection \<Rightarrow> nat \<Rightarrow> string \<Rightarrow> NodeOutput \<Rightarrow> nat \<Rightarrow> RunExecution \<Rightarrow> js_error + RunExecution" where
  "addToWaiting c outIndex parent data runIndex st =
     (let nodeWasWaiting = (map_of (waitingExecution st) (c_node c) \<noteq> None) in
      rbind (chooseEntry c (createNode (c_node c) st)) (\<lambda>(entry, st1).
      rbind (storeInput c entry outIndex parent data runIndex st1) (\<lambda>st2.
      rbind (entryMain (waitingExecution st2) (c_node c) entry) (\<lambda>cells.
        if Null \<notin> set cells then completeEntry c entry st2
        else rbind (if nodeWasWaiting then Inr st2 else checkSiblings c outIndex parent data runIndex st2)
          (keepWaiting c entry outIndex data)))))"

definition addNodeToBeExecuted ::
  "IConnection \<Rightarrow> nat \<Rightarrow> string \<Rightarrow> NodeOutput \<Rightarrow> nat \<Rightarrow> nat option \<Rightarrow> ITaskMetadata option \<Rightarrow> RunExecution
     \<Rightarrow> js_error + RunExecution" where
  "addNodeToBeExecuted c outIndex parent data runIndex newRunIndex metadata st =
     (if numberOfInputs st (c_node c) > 1
      then addToWaiting c outIndex parent data runIndex st
      else Inr (addDirectly c outIndex parent data runIndex newRunIndex metadata st))"

end
