(* ===== verification/EngineNode.thy ===== *)
theory EngineNode
  imports EngineState
begin

text \<open>
  Running one node, from \<^verbatim>\<open>workflow-execute.ts\<close>: the choice of what to call (\<open>runNode\<close>), the
  preparation of its input, and what is done to its output before the engine uses it.

  The implementation of a node is code outside the engine: \<open>NodeCalls\<close> has one field per kind of
  call, each a parameter that returns an outcome for the input it is given.
\<close>

section \<open>Node types and their calls\<close>

datatype RequiredInputs = InputIndexes "nat list" | InputCount nat

text \<open>\<open>nt_requiredInputs\<close> is the value after the evaluation of an expression, \<open>nt_inputsLength\<close> is
  \<open>description.inputs.length\<close>.\<close>

record EngineNodeType = INodeType +
  nt_execute :: bool
  nt_webhook :: bool
  nt_requestDefaults :: bool
  nt_requiredInputs :: "RequiredInputs option"
  nt_inputsLength :: nat
  nt_mainOutputs :: nat

record EngineRequest =
  rq_actions :: "EngineAction list"
  rq_metadata :: json

record EngineResponse =
  er_actionResponses :: "(EngineAction \<times> ITaskData) list"
  er_metadata :: json

definition makeEngineResponse :: EngineResponse where
  "makeEngineResponse = \<lparr>er_actionResponses = [], er_metadata = JObj []\<rparr>"

text \<open>\<open>data\<close> of a response: \<open>Undef\<close> and \<open>Null\<close> are \<open>undefined\<close> and \<open>null\<close>.\<close>

type_synonym ResponseData = "INodeExecutionData list cell list cell"

datatype NodeOutcome =
    Returned ResponseData
  | Requested EngineRequest
  | Threw ExecutionError

definition isEngineRequest :: "NodeOutcome \<Rightarrow> bool" where
  "isEngineRequest x = (case x of Requested _ \<Rightarrow> True | _ \<Rightarrow> False)"

datatype TriggerResponse = NoTrigger | TriggerItems "INodeExecutionData list cell list"

record NodeCalls =
  call_execute :: "INodeExecutionData list \<Rightarrow> ITaskDataConnections \<Rightarrow> EngineResponse \<Rightarrow> NodeOutcome"
  call_poll :: NodeOutcome
  call_trigger :: "ExecutionError + TriggerResponse"
  call_declarative :: "INodeExecutionData list \<Rightarrow> ITaskDataConnections \<Rightarrow> NodeOutcome"

section \<open>Input\<close>

definition mainArray :: "ITaskDataConnections \<Rightarrow> INodeExecutionData list cell list cell" where
  "mainArray d = (case map_of d Main of None \<Rightarrow> Undef | Some cells \<Rightarrow> Val cells)"

text \<open>A disabled node passes its first main input through.\<close>

definition handleDisabledNode :: "ITaskDataConnections \<Rightarrow> NodeOutcome" where
  "handleDisabledNode inputData =
     (case map_of inputData Main of
        Some (first # rest) \<Rightarrow> Returned (if first = Null then Undef else Val [first])
      | _ \<Rightarrow> Returned Undef)"

definition hasItems :: "INodeExecutionData list cell \<Rightarrow> bool" where
  "hasItems c = (case c of Val items \<Rightarrow> items \<noteq> [] | _ \<Rightarrow> False)"

text \<open>\<open>None\<close> is \<open>null\<close>: the node is not called.\<close>

definition prepareConnectionInputData ::
  "bool \<Rightarrow> EngineNodeType \<Rightarrow> bool \<Rightarrow> ITaskDataConnections \<Rightarrow> INodeExecutionData list option" where
  "prepareConnectionInputData v1 t customOperation inputData =
     (if nt_execute t \<or> customOperation \<or> (\<not> nt_poll t \<and> \<not> nt_trigger t \<and> \<not> nt_webhook t) then
        case map_of inputData Main of
          Some (first # rest) \<Rightarrow>
            (let connectionInputData =
               (if v1 then (case List.find hasItems (first # rest) of Some c \<Rightarrow> c | None \<Rightarrow> first) else first)
             in case connectionInputData of Val items \<Rightarrow> (if items = [] then None else Some items) | _ \<Rightarrow> None)
        | _ \<Rightarrow> None
      else Some [])"

text \<open>The error of the last execution of this node is thrown again; \<open>None\<close> is no error.\<close>

definition rethrowLastNodeError :: "RunExecution \<Rightarrow> INode \<Rightarrow> ExecutionError option" where
  "rethrowLastNodeError st n =
     (if lastNodeExecuted st = Some (name n) then
        (case resultError st of None \<Rightarrow> None
         | Some e \<Rightarrow> Some (if err_name e = ''NodeOperationError'' \<or> err_name e = ''NodeApiError'' then e
                          else \<lparr>err_name = ''Error'', err_message = err_message e\<rparr>))
      else None)"

fun map_cell :: "('a \<Rightarrow> 'b) \<Rightarrow> 'a cell \<Rightarrow> 'b cell" where
  "map_cell f Undef = Undef"
| "map_cell f Null = Null"
| "map_cell f (Val x) = Val (f x)"

definition handleExecuteOnce :: "INode \<Rightarrow> ITaskDataConnections \<Rightarrow> ITaskDataConnections" where
  "handleExecuteOnce n inputData =
     (if executeOnce n = Some True then map (\<lambda>(t, cells). (t, map (map_cell (take 1)) cells)) inputData
      else inputData)"

section \<open>The call\<close>

definition executePollNode :: "bool \<Rightarrow> NodeCalls \<Rightarrow> ITaskDataConnections \<Rightarrow> NodeOutcome" where
  "executePollNode manual calls inputData = (if manual then call_poll calls else Returned (mainArray inputData))"

definition executeTriggerNode :: "bool \<Rightarrow> NodeCalls \<Rightarrow> ITaskDataConnections \<Rightarrow> NodeOutcome" where
  "executeTriggerNode manual calls inputData =
     (if manual then
        (case call_trigger calls of
           Inl e \<Rightarrow> Threw e
         | Inr NoTrigger \<Rightarrow> Returned Null
         | Inr (TriggerItems outs) \<Rightarrow> Returned (if length outs = 0 then Null else Val outs))
      else Returned (mainArray inputData))"

definition runNode ::
  "(INode \<Rightarrow> EngineNodeType option) \<Rightarrow> (INode \<Rightarrow> NodeCalls) \<Rightarrow> bool \<Rightarrow> bool \<Rightarrow> IExecuteData \<Rightarrow> RunExecution
     \<Rightarrow> EngineResponse \<Rightarrow> NodeOutcome" where
  "runNode nodeTypes impl customOperation manual executionData st subNodeExecutionResults =
     (let n = ed_node executionData; inputData = ed_data executionData; calls = impl n in
      if disabled n = Some True then handleDisabledNode inputData
      else case nodeTypes n of
        None \<Rightarrow> Threw \<lparr>err_name = ''TypeError'', err_message = []\<rparr>
      | Some t \<Rightarrow>
          (case prepareConnectionInputData (executionOrder st = Some ''v1'') t customOperation inputData of
             None \<Rightarrow> Returned Undef
           | Some connectionInputData \<Rightarrow>
               (case rethrowLastNodeError st n of
                  Some e \<Rightarrow> Threw e
                | None \<Rightarrow>
                    let inputData = handleExecuteOnce n inputData in
                    if nt_execute t \<or> customOperation
                    then call_execute calls connectionInputData inputData subNodeExecutionResults
                    else if nt_poll t then executePollNode manual calls inputData
                    else if nt_trigger t then executeTriggerNode manual calls inputData
                    else if nt_webhook t \<and> \<not> nt_requestDefaults t then Returned (mainArray inputData)
                    else call_declarative calls connectionInputData inputData)))"

section \<open>Paired items\<close>

definition resolveSourceOverwrite :: "INodeExecutionData \<Rightarrow> IExecuteData \<Rightarrow> ISourceData option" where
  "resolveSourceOverwrite item executionData =
     (case ed_metadata executionData of
        None \<Rightarrow> None
      | Some m \<Rightarrow>
          if preserveSourceOverwrite m \<noteq> Some True then None
          else case preservedSourceOverwrite m of
            Some s \<Rightarrow> Some s
          | None \<Rightarrow> (case pairedItem item of Some (PairedOne p) \<Rightarrow> pi_sourceOverwrite p | _ \<Rightarrow> None))"

definition pairedInput :: "nat \<Rightarrow> nat option" where
  "pairedInput inputIdx = (if inputIdx = 0 then None else Some inputIdx)"

text \<open>Before a node runs, each input item is paired with its own position.\<close>

definition setPairedItems :: "IExecuteData \<Rightarrow> ITaskDataConnections" where
  "setPairedItems executionData =
     map (\<lambda>(t, cells). (t, map (\<lambda>(inputIdx, cell). map_cell (\<lambda>items.
       map (\<lambda>(itemIndex, item). item\<lparr>pairedItem := Some (PairedOne
         \<lparr>pi_item = itemIndex, pi_input = pairedInput inputIdx, pi_sourceOverwrite = resolveSourceOverwrite item executionData\<rparr>)\<rparr>)
         (with_index items)) cell) (with_index cells))) (ed_data executionData)"

text \<open>\<open>assignPairedItems\<close>: the loops stop at the first item that cannot be paired (\<open>False\<close>).\<close>

definition pairOne :: "nat \<Rightarrow> INodeExecutionData \<Rightarrow> INodeExecutionData" where
  "pairOne i item = item\<lparr>pairedItem := Some (PairedOne \<lparr>pi_item = i, pi_input = None, pi_sourceOverwrite = None\<rparr>)\<rparr>"

fun pairItems :: "bool \<Rightarrow> bool \<Rightarrow> nat \<Rightarrow> INodeExecutionData list \<Rightarrow> bool \<times> INodeExecutionData list" where
  "pairItems single same i [] = (True, [])"
| "pairItems single same i (item # items) =
     (if pairedItem item \<noteq> None then map_prod id (Cons item) (pairItems single same (Suc i) items)
      else if single then map_prod id (Cons (pairOne 0 item)) (pairItems single same (Suc i) items)
      else if same then map_prod id (Cons (pairOne i item)) (pairItems single same (Suc i) items)
      else (False, item # items))"

fun pairOutputs :: "bool \<Rightarrow> bool \<Rightarrow> INodeExecutionData list cell list \<Rightarrow> js_error + INodeExecutionData list cell list" where
  "pairOutputs single same [] = Inr []"
| "pairOutputs single same (Undef # outs) = Inl TypeError"
| "pairOutputs single same (Null # outs) = rbind (pairOutputs single same outs) (\<lambda>r. Inr (Null # r))"
| "pairOutputs single same (Val items # outs) =
     (case pairItems single same 0 items of
        (True, items') \<Rightarrow> rbind (pairOutputs single same outs) (\<lambda>r. Inr (Val items' # r))
      | (False, items') \<Rightarrow> Inr (Val items' # outs))"

definition cell_length :: "'a list cell \<Rightarrow> nat option" where
  "cell_length c = map_option length (cell_opt c)"

text \<open>\<open>nodeSuccessData[0].length\<close> is read only when there is one output and one input.\<close>

definition assignPairedItems :: "ResponseData \<Rightarrow> IExecuteData \<Rightarrow> js_error + NodeOutput" where
  "assignPairedItems nodeSuccessData executionData =
     (case nodeSuccessData of
        Val [] \<Rightarrow> Inr (Some [])
      | Val outs \<Rightarrow>
          (case map_of (ed_data executionData) Main of
             None \<Rightarrow> Inl TypeError
           | Some ins \<Rightarrow>
               let single = (length ins = 1 \<and> cell_length (arr_get ins 0) = Some 1) in
               if length outs = 1 \<and> length ins = 1 \<and> cell_opt (hd outs) = None then Inl TypeError
               else rbind (pairOutputs single (length outs = 1 \<and> length ins = 1 \<and>
                      cell_length (arr_get ins 0) = cell_length (hd outs)) outs) (\<lambda>r. Inr (Some r)))
      | _ \<Rightarrow> Inr None)"

text \<open>With \<open>alwaysOutputData\<close> an empty output becomes one empty item, paired with every input item.\<close>

definition allPairedItems :: "INodeExecutionData list cell list \<Rightarrow> IPairedItemData list" where
  "allPairedItems ins = concat (map (\<lambda>(i, cell). map (\<lambda>j. \<lparr>pi_item = j, pi_input = Some i, pi_sourceOverwrite = None\<rparr>)
     [0..<length (cell_or [] cell)]) (with_index ins))"

definition isEmptyOutput :: "NodeOutput \<Rightarrow> bool" where
  "isEmptyOutput data = (case data of None \<Rightarrow> True | Some outs \<Rightarrow> \<not> hasItems (arr_get outs 0))"

definition ensureOutputData :: "NodeOutput \<Rightarrow> IExecuteData \<Rightarrow> js_error + NodeOutput" where
  "ensureOutputData data executionData =
     (if isEmptyOutput data \<and> alwaysOutputData (ed_node executionData) = Some True then
        case map_of (ed_data executionData) Main of
          None \<Rightarrow> Inl TypeError
        | Some ins \<Rightarrow> Inr (Some (arr_set 0 (Val [\<lparr>item_json = [], item_error = None,
             pairedItem = Some (PairedMany (allPairedItems ins))\<rparr>]) (case data of None \<Rightarrow> [] | Some outs \<Rightarrow> outs)))
      else Inr data)"

section \<open>The error output\<close>

definition isErrorItem :: "INodeExecutionData \<Rightarrow> bool" where
  "isErrorItem item \<longleftrightarrow> item_error item \<noteq> None
     \<or> hasTruthy (item_json item) ''error'' \<and> length (item_json item) = 1
     \<or> hasTruthy (item_json item) ''error'' \<and> hasTruthy (item_json item) ''message'' \<and> length (item_json item) = 2"

definition firstPaired :: "INodeExecutionData \<Rightarrow> IPairedItemData option" where
  "firstPaired item = (case pairedItem item of
     Some (PairedOne p) \<Rightarrow> Some p | Some (PairedMany ps) \<Rightarrow> arr_at ps 0 | _ \<Rightarrow> None)"

text \<open>\<open>{...a, ...b}\<close>\<close>

definition spread :: "(string \<times> 'v) list \<Rightarrow> (string \<times> 'v) list \<Rightarrow> (string \<times> 'v) list" where
  "spread a b = fold (\<lambda>(k, v). AList.update k v) b a"

text \<open>\<open>getPairedItem\<close> is the method \<open>$getPairedItem\<close> of the workflow data proxy, which may throw.\<close>

definition errorItem ::
  "(ISourceData \<Rightarrow> IPairedItemData \<Rightarrow> js_error + INodeExecutionData option) \<Rightarrow> IExecuteData \<Rightarrow> INodeExecutionData
     \<Rightarrow> js_error + INodeExecutionData" where
  "errorItem getPairedItem executionData item =
     (case (ed_source executionData, firstPaired item) of
        (Some src, Some p) \<Rightarrow>
          (case map_of src Main of
             None \<Rightarrow> Inl TypeError
           | Some sources \<Rightarrow>
               (case arr_get sources (case pi_input p of Some i \<Rightarrow> i | None \<Rightarrow> 0) of
                  Val s \<Rightarrow> rbind (getPairedItem s p) (\<lambda>constPairedItem. case constPairedItem of
                      None \<Rightarrow> Inr item
                    | Some origin \<Rightarrow> Inr (item\<lparr>item_json := spread (item_json origin) (item_json item)\<rparr>))
                | _ \<Rightarrow> Inl TypeError))
      | _ \<Rightarrow> Inr item)"

text \<open>The items are shifted out of the output they are on, so an exception leaves those that were not looked at.\<close>

fun splitErrors ::
  "(INodeExecutionData \<Rightarrow> js_error + INodeExecutionData) \<Rightarrow> INodeExecutionData list
     \<Rightarrow> INodeExecutionData list \<Rightarrow> INodeExecutionData list
     \<Rightarrow> INodeExecutionData list \<times> INodeExecutionData list \<times> INodeExecutionData list \<times> js_error option" where
  "splitErrors f [] successItems errorItems = ([], successItems, errorItems, None)"
| "splitErrors f (item # items) successItems errorItems =
     (if isErrorItem item
      then (case f item of
          Inl e \<Rightarrow> (items, successItems, errorItems, Some e)
        | Inr x \<Rightarrow> splitErrors f items successItems (errorItems @ [x]))
      else splitErrors f items (successItems @ [item]) errorItems)"

definition outputItems :: "INodeExecutionData list cell list \<Rightarrow> nat \<Rightarrow> INodeExecutionData list" where
  "outputItems outs i = cell_or [] (arr_get outs i)"

fun splitOutputs ::
  "(INodeExecutionData \<Rightarrow> js_error + INodeExecutionData) \<Rightarrow> nat list \<Rightarrow> INodeExecutionData list cell list
     \<Rightarrow> INodeExecutionData list \<Rightarrow> INodeExecutionData list cell list \<times> INodeExecutionData list \<times> js_error option" where
  "splitOutputs f [] outs errorItems = (outs, errorItems, None)"
| "splitOutputs f (outIndex # outIndexes) outs errorItems =
     (case splitErrors f (outputItems outs outIndex) [] errorItems of
        (rest, successItems, errorItems', None) \<Rightarrow>
          splitOutputs f outIndexes (arr_set outIndex (Val successItems) outs) errorItems'
      | (rest, successItems, errorItems', Some e) \<Rightarrow> (arr_set outIndex (Val rest) outs, errorItems', Some e))"

definition handleNodeErrorOutput ::
  "(ISourceData \<Rightarrow> IPairedItemData \<Rightarrow> js_error + INodeExecutionData option) \<Rightarrow> nat \<Rightarrow> IExecuteData
     \<Rightarrow> INodeExecutionData list cell list \<Rightarrow> INodeExecutionData list cell list \<times> js_error option" where
  "handleNodeErrorOutput getPairedItem mainOutputs executionData nodeSuccessData =
     (case splitOutputs (errorItem getPairedItem executionData) [0..<mainOutputs - 1] nodeSuccessData [] of
        (outs, errorItems, Some e) \<Rightarrow> (outs, Some e)
      | (outs, errorItems, None) \<Rightarrow>
          (if mainOutputs = 0 then outs else arr_set (mainOutputs - 1) (Val errorItems) outs, None))"

end
