(* ===== verification/EngineRequests.thy ===== *)
theory EngineRequests
  imports EngineNode
begin

text \<open>
  \<^verbatim>\<open>packages/core/src/execution-engine/requests-response.ts\<close>: a node (an AI agent) asks the engine to
  run other nodes (its tools) and to call it again with their results. The run data is changed before
  an error is thrown, so the functions return it beside the result. A node of the run data has at least one
  run, so the index of its last run is not negative.
\<close>

record NodeToBeExecuted =
  inputConnectionData :: IConnection
  parentOutputIndex :: nat
  parentNode :: string
  parentOutputData :: "INodeExecutionData list cell list"
  nb_runIndex :: nat
  nodeRunIndex :: nat
  nb_metadata :: ITaskMetadata

definition buildParentOutputData ::
  "(string \<times> json) list \<Rightarrow> nat \<Rightarrow> nat \<Rightarrow> string \<Rightarrow> INodeExecutionData list cell list" where
  "buildParentOutputData j parentRunIndex outIndex parentSourceNode =
     [Val [\<lparr>item_json = j, item_error = None, pairedItem = Some (PairedOne
        \<lparr>pi_item = parentRunIndex, pi_input = Some outIndex,
         pi_sourceOverwrite = Some (sourceFrom parentSourceNode outIndex parentRunIndex)\<rparr>)\<rparr>]]"

text \<open>A new entry in the run data of the node; the result is its index.\<close>

definition initializeNodeRunData ::
  "IRunData \<Rightarrow> string \<Rightarrow> string \<Rightarrow> nat \<Rightarrow> nat \<Rightarrow> bool \<Rightarrow> nat \<Rightarrow> INodeExecutionData list cell list \<Rightarrow> IRunData \<times> nat" where
  "initializeNodeRunData rd nodeName parent outIndex parentRunIndex hasParentName runIndex outputData =
     (AList.update nodeName (list_get rd nodeName @
        [\<lparr>startTime = 0, executionIndex = Some 0,
          source = [Val (sourceFrom parent outIndex (if hasParentName then parentRunIndex else runIndex))],
          executionTime = 0, executionStatus = None, td_data = None, inputOverride = Some [(AiTool, outputData)],
          td_error = None, td_metadata = None\<rparr>]) rd,
      length (list_get rd nodeName))"

text \<open>\<open>executionData.source?.main?.[i]\<close>\<close>

definition mainSource :: "IExecuteData \<Rightarrow> nat \<Rightarrow> ISourceData option" where
  "mainSource executionData i = (case ed_source executionData of None \<Rightarrow> None
     | Some src \<Rightarrow> cell_opt (arr_get (list_get src Main) i))"

text \<open>A name is truthy when it is not empty.\<close>

definition customParent :: "EngineAction \<Rightarrow> string option" where
  "customParent action = (case ea_parentNodeName action of Some nm \<Rightarrow> if nm = [] then None else Some nm | None \<Rightarrow> None)"

text \<open>\<open>executionData.data.main?.[0]?.[itemIndex]\<close>\<close>

definition agentItem :: "IExecuteData \<Rightarrow> nat \<Rightarrow> INodeExecutionData option" where
  "agentItem executionData i = arr_at (cell_or [] (arr_get (list_get (ed_data executionData) Main) 0)) i"

definition parentRun :: "IExecuteData \<Rightarrow> nat \<Rightarrow> EngineAction \<Rightarrow> string \<Rightarrow> IRunData \<Rightarrow> nat" where
  "parentRun executionData runIndex action parent rd =
     (if customParent action \<noteq> None
      then (case map_of rd parent of None \<Rightarrow> 0 | Some runs \<Rightarrow> length runs - 1)
      else case mainSource executionData runIndex of None \<Rightarrow> 0
      | Some s \<Rightarrow> (case previousNodeRun s of None \<Rightarrow> 0 | Some r \<Rightarrow> r))"

definition defaultOutputIndex :: "IExecuteData \<Rightarrow> nat \<Rightarrow> nat" where
  "defaultOutputIndex executionData runIndex = (case mainSource executionData runIndex of None \<Rightarrow> 0
     | Some s \<Rightarrow> (case previousNodeOutput s of None \<Rightarrow> 0 | Some i \<Rightarrow> i))"

definition defaultSourceNode :: "IExecuteData \<Rightarrow> INode \<Rightarrow> nat \<Rightarrow> string" where
  "defaultSourceNode executionData currentNode runIndex =
     (case mainSource executionData runIndex of None \<Rightarrow> name currentNode | Some s \<Rightarrow> previousNode s)"

definition requestMetadata :: "IExecuteData \<Rightarrow> string \<Rightarrow> nat \<Rightarrow> nat \<Rightarrow> ITaskMetadata" where
  "requestMetadata executionData sourceNode outIndex parentRunIndex =
     \<lparr>subNodeExecutionData = None, preserveSourceOverwrite = Some True,
      preservedSourceOverwrite =
        (case Option.bind (ed_metadata executionData) preservedSourceOverwrite of
           Some s \<Rightarrow> Some s | None \<Rightarrow> Some (sourceFrom sourceNode outIndex parentRunIndex)),
      nodeWasResumed = None\<rparr>"

text \<open>One action: the node to run with its input, and what the agent has to read afterwards.\<close>

definition prepareAction ::
  "INode \<Rightarrow> nat \<Rightarrow> IExecuteData \<Rightarrow> EngineAction \<Rightarrow> string \<Rightarrow> IRunData
     \<Rightarrow> IRunData \<times> NodeToBeExecuted \<times> SubNodeExecutionDataAction" where
  "prepareAction currentNode runIndex executionData action nodeName rd =
     (let parent = (case ea_parentNodeName action of Some nm \<Rightarrow> nm | None \<Rightarrow> name currentNode);
          parentRunIndex = parentRun executionData runIndex action parent rd;
          outIndex = defaultOutputIndex executionData runIndex;
          sourceNode = defaultSourceNode executionData currentNode runIndex;
          hasParentName = (customParent action \<noteq> None);
          itemJson = (case agentItem executionData (case ea_itemIndex action of Some i \<Rightarrow> i | None \<Rightarrow> 0) of
            None \<Rightarrow> [] | Some item \<Rightarrow> item_json item);
          mergedJson = AList.update ''toolCallId'' (JStr (ea_id action)) (spread itemJson (ea_input action));
          outputData = buildParentOutputData mergedJson parentRunIndex outIndex sourceNode
      in case initializeNodeRunData rd nodeName parent outIndex parentRunIndex hasParentName runIndex outputData of
        (rd', index) \<Rightarrow>
          (rd', \<lparr>inputConnectionData = \<lparr>c_node = ea_nodeName action, c_type = ea_type action, c_index = 0\<rparr>,
                 parentOutputIndex = 0, parentNode = parent, parentOutputData = outputData,
                 nb_runIndex = (if hasParentName then parentRunIndex else runIndex), nodeRunIndex = index,
                 nb_metadata = requestMetadata executionData sourceNode outIndex parentRunIndex\<rparr>,
            \<lparr>sn_nodeName = ea_nodeName action, sn_runIndex = index, sn_action = action\<rparr>))"

text \<open>\<open>node.rewireOutputLogTo = type\<close> changes the node object, which the entries of the stack share.\<close>

definition rewireNode :: "INode \<Rightarrow> NodeConnectionType \<Rightarrow> RunExecution \<Rightarrow> RunExecution" where
  "rewireNode n t st =
     (let change = (\<lambda>m. if ref m = ref n then m\<lparr>rewireOutputLogTo := Some t\<rparr> else m)
      in st\<lparr>workflow := (workflow st)\<lparr>wf_nodes := map (\<lambda>(k, m). (k, change m)) (wf_nodes (workflow st))\<rparr>,
            nodeExecutionStack := map (\<lambda>e. e\<lparr>ed_node := change (ed_node e)\<rparr>) (nodeExecutionStack st)\<rparr>)"

fun prepareRequestedNodesForExecution ::
  "INode \<Rightarrow> nat \<Rightarrow> IExecuteData \<Rightarrow> EngineAction list \<Rightarrow> RunExecution
     \<Rightarrow> RunExecution \<times> (js_error + NodeToBeExecuted list \<times> SubNodeExecutionDataAction list)" where
  "prepareRequestedNodesForExecution currentNode runIndex executionData [] st = (st, Inr ([], []))"
| "prepareRequestedNodesForExecution currentNode runIndex executionData (action # actions) st =
     (case getNode (workflow st) (ea_nodeName action) of
        None \<Rightarrow> (st, Inl (UnexpectedError (ea_nodeName action)))
      | Some n \<Rightarrow>
          (case prepareAction currentNode runIndex executionData action (name n) (resultRunData st) of
             (rd, toRun, sub) \<Rightarrow>
               (case prepareRequestedNodesForExecution currentNode runIndex executionData actions
                  ((rewireNode n (ea_type action) st)\<lparr>resultRunData := rd\<rparr>) of
                  (st', Inl e) \<Rightarrow> (st', Inl e)
                | (st', Inr (toRuns, subs)) \<Rightarrow> (st', Inr (toRun # toRuns, sub # subs)))))"

text \<open>\<open>None\<close>: the request is ignored, because the agent has no input.\<close>

definition prepareRequestingNodeForResuming ::
  "IExecuteData \<Rightarrow> (IConnection \<times> string \<times> ITaskMetadata) option" where
  "prepareRequestingNodeForResuming executionData =
     (case mainSource executionData 0 of
        None \<Rightarrow> None
      | Some s \<Rightarrow>
          if previousNode s = [] then None
          else Some (\<lparr>c_node = name (ed_node executionData), c_type = AiTool, c_index = 0\<rparr>, previousNode s,
            (let preserved = Option.bind (ed_metadata executionData) preservedSourceOverwrite;
                 keep = (Option.bind (ed_metadata executionData) preserveSourceOverwrite = Some True)
             in \<lparr>subNodeExecutionData = None, preserveSourceOverwrite = (if preserved \<noteq> None \<and> keep then Some True else None),
                 preservedSourceOverwrite = (if keep then preserved else None), nodeWasResumed = None\<rparr>)))"

definition handleRequest ::
  "INode \<Rightarrow> EngineRequest \<Rightarrow> nat \<Rightarrow> IExecuteData \<Rightarrow> RunExecution
     \<Rightarrow> RunExecution \<times> (js_error + NodeToBeExecuted list)" where
  "handleRequest currentNode request runIndex executionData st =
     (case prepareRequestedNodesForExecution currentNode runIndex executionData (rq_actions request) st of
        (st', Inl e) \<Rightarrow> (st', Inl e)
      | (st', Inr (nodesToBeExecuted, actions)) \<Rightarrow>
          (case prepareRequestingNodeForResuming executionData of
             None \<Rightarrow> (st', Inr [])
           | Some (connectionData, parent, metadata) \<Rightarrow>
               (st', Inr (\<lparr>inputConnectionData = connectionData, parentOutputIndex = 0, parentNode = parent,
                   parentOutputData = list_get (ed_data executionData) Main, nb_runIndex = runIndex,
                   nodeRunIndex = runIndex,
                   nb_metadata = metadata\<lparr>nodeWasResumed := Some True,
                     subNodeExecutionData := Some (actions, rq_metadata request)\<rparr>\<rparr> # nodesToBeExecuted))))"

text \<open>The method \<open>handleEngineRequest\<close> of the engine schedules them.\<close>

definition scheduleRequested :: "NodeToBeExecuted \<Rightarrow> RunExecution \<Rightarrow> js_error + RunExecution" where
  "scheduleRequested nb = addNodeToBeExecuted (inputConnectionData nb) (parentOutputIndex nb) (parentNode nb)
     (Some (parentOutputData nb)) (nb_runIndex nb) (Some (nodeRunIndex nb)) (Some (nb_metadata nb))"

definition handleEngineRequest ::
  "INode \<Rightarrow> EngineRequest \<Rightarrow> nat \<Rightarrow> IExecuteData \<Rightarrow> RunExecution \<Rightarrow> RunExecution \<times> js_error option" where
  "handleEngineRequest currentNode request runIndex executionData st =
     (case handleRequest currentNode request runIndex executionData st of
        (st', Inl e) \<Rightarrow> (st', Some e)
      | (st', Inr toRuns) \<Rightarrow>
          (case rfold scheduleRequested toRuns st' of Inl e \<Rightarrow> (st', Some e) | Inr st'' \<Rightarrow> (st'', None)))"

end
