(* ===== verification/EngineTries.thy ===== *)
theory EngineTries
  imports EngineRequests
begin

text \<open>
  One node of the execution stack is run, again when it fails: the retry loop inside
  \<open>processRunExecutionData\<close> of \<^verbatim>\<open>workflow-execute.ts\<close>.

  What happens outside the engine is in \<open>EngineEnv\<close>: the registry of node types, the answer of the
  \<open>k\<close>-th call of a node (counted over the whole execution) and whether that call puts the execution to
  wait, the clock, and whether the execution was cancelled or ran out of time by the moment the counter of
  executed nodes has a value: before an iteration, or when the loop has ended. Sleeping between two tries,
  hooks, reports and the conversion of binary data have no part in the state and are left out. An exception inside the \<open>try\<close> block leaves the changes of \<open>addNodeToBeExecuted\<close> that preceded it out of
  the state.
\<close>

datatype StopReason = TimedOut | CancelledByUser

record EngineEnv =
  env_nodeTypes :: "INode \<Rightarrow> EngineNodeType option"
  env_calls :: "nat \<Rightarrow> INode \<Rightarrow> NodeCalls"
  env_waits :: "nat \<Rightarrow> nat option"
  env_customOperation :: "INode \<Rightarrow> bool"
  env_manual :: bool
  env_getPairedItem :: "ISourceData \<Rightarrow> IPairedItemData \<Rightarrow> js_error + INodeExecutionData option"
  env_clock :: "nat \<Rightarrow> nat \<times> nat"
  env_stopped :: "nat \<Rightarrow> StopReason option"

section \<open>Bounds on the tries\<close>

text \<open>\<open>x || d\<close> on an optional number\<close>

definition number_or :: "int option \<Rightarrow> int \<Rightarrow> int" where
  "number_or x d = (case x of None \<Rightarrow> d | Some n \<Rightarrow> if n = 0 then d else n)"

definition maxTriesOf :: "INode \<Rightarrow> nat" where
  "maxTriesOf n = (if retryOnFail n = Some True then nat (min 5 (max 2 (number_or (maxTries n) 3))) else 1)"

definition waitBetweenTriesOf :: "INode \<Rightarrow> nat" where
  "waitBetweenTriesOf n = (if retryOnFail n = Some True then nat (min 5000 (max 0 (number_or (waitBetweenTries n) 1000))) else 0)"

section \<open>One try\<close>

record TryState =
  ts_exec :: RunExecution
  ts_calls :: nat
  ts_response :: EngineResponse
  ts_data :: ResponseData
  ts_error :: "ExecutionError option"

definition errorOf :: "js_error \<Rightarrow> ExecutionError" where
  "errorOf e = (case e of
     AssertionError \<Rightarrow> \<lparr>err_name = ''AssertionError'', err_message = []\<rparr>
   | TypeError \<Rightarrow> \<lparr>err_name = ''TypeError'', err_message = []\<rparr>
   | ApplicationError msg \<Rightarrow> \<lparr>err_name = ''ApplicationError'', err_message = msg\<rparr>
   | UserError msg \<Rightarrow> \<lparr>err_name = ''UserError'', err_message = msg\<rparr>
   | UnexpectedError msg \<Rightarrow> \<lparr>err_name = ''UnexpectedError'', err_message = msg\<rparr>
   | OperationalError msg \<Rightarrow> \<lparr>err_name = ''OperationalError'', err_message = msg\<rparr>)"

definition pinnedData :: "RunExecution \<Rightarrow> INode \<Rightarrow> INodeExecutionData list option" where
  "pinnedData st n = (if disabled n = Some True then None
     else case resultPinData st of None \<Rightarrow> None | Some pd \<Rightarrow> map_of pd (name n))"

text \<open>The results of the sub-nodes are pushed to a response that lives as long as the node is retried.\<close>

definition collectResponses :: "IExecuteData \<Rightarrow> IRunData \<Rightarrow> EngineResponse \<Rightarrow> EngineResponse" where
  "collectResponses executionData rd response =
     (case Option.bind (ed_metadata executionData) subNodeExecutionData of
        None \<Rightarrow> response
      | Some (actions, md) \<Rightarrow>
          \<lparr>er_actionResponses = er_actionResponses response @ List.map_filter (\<lambda>a.
             map_option (\<lambda>run. (sn_action a, run)) (arr_at (list_get rd (sn_nodeName a)) (sn_runIndex a))) actions,
           er_metadata = md\<rparr>)"

definition callNode :: "EngineEnv \<Rightarrow> IExecuteData \<Rightarrow> EngineResponse \<Rightarrow> TryState \<Rightarrow> NodeOutcome \<times> TryState" where
  "callNode env executionData response ts =
     (runNode (env_nodeTypes env) (env_calls env (ts_calls ts)) (env_customOperation env (ed_node executionData))
        (env_manual env) executionData (ts_exec ts) response,
      ts\<lparr>ts_calls := Suc (ts_calls ts),
         ts_exec := (case env_waits env (ts_calls ts) of None \<Rightarrow> ts_exec ts | Some t \<Rightarrow> (ts_exec ts)\<lparr>waitTill := Some t\<rparr>)\<rparr>)"

text \<open>\<open>runNodeData.data?.[0]?.[0]?.json?.error !== undefined\<close>\<close>

definition nodeFailed :: "NodeOutcome \<Rightarrow> bool" where
  "nodeFailed x = (case x of
     Returned (Val outs) \<Rightarrow> (case arr_get outs 0 of
        Val (item # _) \<Rightarrow> map_of (item_json item) ''error'' \<noteq> None | _ \<Rightarrow> False)
   | _ \<Rightarrow> False)"

text \<open>
  The inner loop calls the node again without the responses while its data says that it failed. A call
  that throws leaves the loop before the counter is increased. The condition is
  \<open>tryIndex !== maxTries - 1\<close> in the source, where \<open>tryIndex < maxTries\<close> holds.
\<close>

function retryFailed ::
  "EngineEnv \<Rightarrow> nat \<Rightarrow> IExecuteData \<Rightarrow> nat \<Rightarrow> NodeOutcome \<Rightarrow> TryState \<Rightarrow> NodeOutcome \<times> nat \<times> TryState" where
  "retryFailed env tries executionData tryIndex runNodeData ts =
     (if nodeFailed runNodeData \<and> Suc tryIndex < tries then
        (case callNode env executionData makeEngineResponse ts of
           (Threw e, ts') \<Rightarrow> (Threw e, tryIndex, ts')
         | (outcome, ts') \<Rightarrow> retryFailed env tries executionData (Suc tryIndex) outcome ts')
      else (runNodeData, tryIndex, ts))"
  by pat_completeness auto

termination retryFailed
  by (relation "measure (\<lambda>(env, tries, ed, tryIndex, x, ts). tries - tryIndex)") auto

declare retryFailed.simps [simp del]

datatype TryResult = Finished | SkipNode | Failed ExecutionError

text \<open>What the engine does with the data of a node that did not throw.\<close>

definition finishTry :: "IExecuteData \<Rightarrow> TryState \<Rightarrow> TryResult \<times> TryState" where
  "finishTry executionData ts =
     (case assignPairedItems (ts_data ts) executionData of
        Inl e \<Rightarrow> (Failed (errorOf e), ts)
      | Inr data \<Rightarrow>
          (let ts1 = ts\<lparr>ts_data := (case data of None \<Rightarrow> Null | Some outs \<Rightarrow> Val outs),
                 ts_exec := (if data = None then ts_exec ts
                   else (ts_exec ts)\<lparr>lastNodeExecuted := Some (name (ed_node executionData))\<rparr>)\<rparr>
           in case ensureOutputData data executionData of
                Inl e \<Rightarrow> (Failed (errorOf e), ts1)
              | Inr None \<Rightarrow> ((if waitTill (ts_exec ts1) = None then SkipNode else Finished), ts1\<lparr>ts_data := Null\<rparr>)
              | Inr (Some outs) \<Rightarrow> (Finished, ts1\<lparr>ts_data := Val outs\<rparr>)))"

definition routeErrors :: "EngineEnv \<Rightarrow> IExecuteData \<Rightarrow> ResponseData \<Rightarrow> ResponseData \<times> js_error option" where
  "routeErrors env executionData data =
     (case data of
        Val outs \<Rightarrow>
          if onError (ed_node executionData) = Some ContinueErrorOutput then
            (case env_nodeTypes env (ed_node executionData) of
               None \<Rightarrow> (data, Some TypeError)
             | Some t \<Rightarrow> (case handleNodeErrorOutput (env_getPairedItem env) (nt_mainOutputs t) executionData outs of
                 (outs', e) \<Rightarrow> (Val outs', e)))
          else (data, None)
      | _ \<Rightarrow> (data, None))"

definition runOnce :: "EngineEnv \<Rightarrow> nat \<Rightarrow> IExecuteData \<Rightarrow> nat \<Rightarrow> nat \<Rightarrow> TryState \<Rightarrow> TryResult \<times> nat \<times> TryState" where
  "runOnce env tries executionData runIndex tryIndex ts =
     (case pinnedData (ts_exec ts) (ed_node executionData) of
        Some items \<Rightarrow> (case finishTry executionData (ts\<lparr>ts_data := Val [Val items]\<rparr>) of (r, ts') \<Rightarrow> (r, tryIndex, ts'))
      | None \<Rightarrow>
          (let ts1 = ts\<lparr>ts_response := collectResponses executionData (resultRunData (ts_exec ts)) (ts_response ts)\<rparr>;
               (first, ts2) = callNode env executionData (ts_response ts1) ts1;
               (outcome, tryIndex', ts3) = retryFailed env tries executionData tryIndex first ts2
           in case outcome of
                Threw e \<Rightarrow> (Failed e, tryIndex', ts3)
              | Requested request \<Rightarrow>
                  (case handleEngineRequest (ed_node executionData) request runIndex executionData (ts_exec ts3) of
                     (st, None) \<Rightarrow> (SkipNode, tryIndex', ts3\<lparr>ts_exec := st\<rparr>)
                   | (st, Some e) \<Rightarrow> (Failed (errorOf e), tryIndex', ts3\<lparr>ts_exec := st\<rparr>))
              | Returned data \<Rightarrow>
                  (case routeErrors env executionData data of
                     (data', Some e) \<Rightarrow> (Failed (errorOf e), tryIndex', ts3\<lparr>ts_data := data'\<rparr>)
                   | (data', None) \<Rightarrow>
                       (case finishTry executionData (ts3\<lparr>ts_data := data'\<rparr>) of (r, ts') \<Rightarrow> (r, tryIndex', ts')))))"

lemma retryFailed_index: "tryIndex \<le> fst (snd (retryFailed env tries ed tryIndex x ts))"
proof (induction env tries ed tryIndex x ts rule: retryFailed.induct)
  case (1 env tries ed tryIndex x ts)
  show ?case
  proof (cases "nodeFailed x \<and> Suc tryIndex < tries")
    case True
    obtain y ts' where y: "callNode env ed makeEngineResponse ts = (y, ts')" by force
    from "1.IH"(1) [OF True y [symmetric]] "1.IH"(2) [OF True y [symmetric]] True y show ?thesis
      by (cases y) (simp_all add: retryFailed.simps [of env tries ed tryIndex])
  next
    case False
    then show ?thesis by (subst retryFailed.simps) (simp only: if_False fst_conv snd_conv le_refl)
  qed
qed

lemma runOnce_index: "tryIndex \<le> fst (snd (runOnce env tries ed r tryIndex ts))"
proof (cases "pinnedData (ts_exec ts) (ed_node ed)")
  case None
  let ?ts1 = "ts\<lparr>ts_response := collectResponses ed (resultRunData (ts_exec ts)) (ts_response ts)\<rparr>"
  obtain x ts2 where x: "callNode env ed (ts_response ?ts1) ?ts1 = (x, ts2)" by force
  obtain y k ts3 where y: "retryFailed env tries ed tryIndex x ts2 = (y, k, ts3)" by (metis prod_cases3)
  have "tryIndex \<le> k" using retryFailed_index [of tryIndex env tries ed x ts2] y by simp
  moreover have "fst (snd (runOnce env tries ed r tryIndex ts)) = k"
    using None x y unfolding runOnce_def by (simp split: NodeOutcome.splits prod.splits option.splits sum.splits)
  ultimately show ?thesis by simp
qed (simp add: runOnce_def split: prod.splits)

text \<open>The \<open>for\<close> loop: a failed try is followed by another until \<open>maxTries\<close> is reached.\<close>

function tryLoop :: "EngineEnv \<Rightarrow> nat \<Rightarrow> IExecuteData \<Rightarrow> nat \<Rightarrow> nat \<Rightarrow> TryState \<Rightarrow> bool \<times> TryState" where
  "tryLoop env tries executionData runIndex tryIndex ts =
     (if tryIndex < tries then
        (case runOnce env tries executionData runIndex tryIndex
             (if tryIndex \<noteq> 0 then ts\<lparr>ts_error := None\<rparr> else ts) of
           (Finished, _, ts') \<Rightarrow> (True, ts')
         | (SkipNode, _, ts') \<Rightarrow> (False, ts')
         | (Failed e, tryIndex', ts') \<Rightarrow> tryLoop env tries executionData runIndex (Suc tryIndex')
             (ts'\<lparr>ts_error := Some e,
                  ts_exec := (ts_exec ts')\<lparr>lastNodeExecuted := Some (name (ed_node executionData))\<rparr>\<rparr>))
      else (True, ts))"
  by pat_completeness auto

termination tryLoop
proof (relation "measure (\<lambda>(env, tries, ed, r, tryIndex, ts). tries - tryIndex)", goal_cases)
  case 1
  show ?case by simp
next
  case (2 env tries ed r tryIndex ts x y e k ts')
  let ?ts = "if tryIndex \<noteq> 0 then ts\<lparr>ts_error := None\<rparr> else ts"
  have "runOnce env tries ed r tryIndex ?ts = (Failed e, k, ts')" using 2(2) [symmetric] 2(3,4) by simp
  with runOnce_index [of tryIndex env tries ed r ?ts] have "tryIndex \<le> k" by simp
  with 2(1) show ?case by simp
qed

declare tryLoop.simps [simp del]

end
