(* ===== verification/EngineLoop.thy ===== *)
theory EngineLoop
  imports EngineTries "HOL-Library.Product_Lexorder" "HOL-Library.List_Lexorder" "HOL-Library.Char_ord"
begin

text \<open>
  The main loop of \<open>processRunExecutionData\<close> in \<^verbatim>\<open>workflow-execute.ts\<close>: take the next node from the
  stack, run it, record its run, put the nodes it is connected to on the stack, and, when the stack is
  empty, start a node that still waits for data. \<open>iteration\<close> is the body of the loop; an exception that
  leaves it ends the execution (\<open>Inl\<close>).
\<close>

section \<open>Is there input data\<close>

fun missingInput :: "RunExecution \<Rightarrow> INode \<Rightarrow> IExecuteData \<Rightarrow> nat list \<Rightarrow> js_error + bool" where
  "missingInput st n executionData [] = Inr False"
| "missingInput st n executionData (i # is) =
     rbind (getHighestNode (workflow st) (name n) (Some i)) (\<lambda>highestNodes.
       if length highestNodes = 0 then Inr False
       else case map_of (ed_data executionData) Main of
         None \<Rightarrow> Inr True
       | Some cells \<Rightarrow>
           if isLegacyExecutionOrder st \<and> (length cells < i \<or> arr_get cells i = Null) then Inr True
           else missingInput st n executionData is)"

text \<open>When data is missing, the entry goes to the end of the stack.\<close>

definition ensureInputData :: "INode \<Rightarrow> IExecuteData \<Rightarrow> RunExecution \<Rightarrow> js_error + bool \<times> RunExecution" where
  "ensureInputData n executionData st =
     rbind (missingInput st n executionData [0..<numberOfInputs st (name n)]) (\<lambda>missing.
       Inr (if missing then (False, st\<lparr>nodeExecutionStack := nodeExecutionStack st @ [executionData]\<rparr>) else (True, st)))"

section \<open>Recording a run\<close>

definition runIndexOf :: "IExecuteData \<Rightarrow> IRunData \<Rightarrow> nat" where
  "runIndexOf executionData rd = (case ed_runIndex executionData of
     Some r \<Rightarrow> r | None \<Rightarrow> length (list_get rd (name (ed_node executionData))))"

definition mergeTask :: "ITaskData \<Rightarrow> ITaskData \<Rightarrow> ITaskData" where
  "mergeTask old new = new\<lparr>
     td_data := (if td_data new = None then td_data old else td_data new),
     inputOverride := (if inputOverride new = None then inputOverride old else inputOverride new),
     td_error := (if td_error new = None then td_error old else td_error new)\<rparr>"

text \<open>The run is merged into an entry that exists at its index (\<open>Object.assign\<close>), or pushed.\<close>

definition recordTask :: "string \<Rightarrow> nat \<Rightarrow> ITaskData \<Rightarrow> IRunData \<Rightarrow> IRunData" where
  "recordTask nm r task rd =
     (let runs = list_get rd nm
      in AList.update nm (if r < length runs then runs[r := mergeTask (runs ! r) task] else runs @ [task]) rd)"

definition existingOverride :: "IRunData \<Rightarrow> string \<Rightarrow> nat \<Rightarrow> ITaskDataConnections" where
  "existingOverride rd nm r = (case Option.bind (arr_at (list_get rd nm) r) inputOverride of None \<Rightarrow> [] | Some d \<Rightarrow> d)"

text \<open>\<open>$error\<close> and \<open>error\<close> of an output item become its \<open>error\<close> and replace its data.\<close>

fun jsonField :: "json \<Rightarrow> string \<Rightarrow> json option" where
  "jsonField (JObj kvs) k = map_of kvs k"
| "jsonField _ k = None"

fun jsonString :: "json option \<Rightarrow> string" where
  "jsonString (Some (JStr s)) = s"
| "jsonString _ = []"

definition mergeErrorItem :: "INodeExecutionData \<Rightarrow> js_error + INodeExecutionData" where
  "mergeErrorItem item =
     (case (map_of (item_json item) ''$error'', map_of (item_json item) ''$json'') of
        (Some e, Some _) \<Rightarrow>
          if e = JNull then Inl TypeError
          else Inr (item\<lparr>item_error := Some \<lparr>err_name = jsonString (jsonField e ''name''), err_message = jsonString (jsonField e ''message'')\<rparr>,
                 item_json := (case jsonField e ''message'' of None \<Rightarrow> [] | Some m \<Rightarrow> [(''error'', m)])\<rparr>)
      | _ \<Rightarrow> (case item_error item of None \<Rightarrow> Inr item
             | Some e \<Rightarrow> Inr (item\<lparr>item_json := [(''error'', JStr (err_message e))]\<rparr>)))"

fun rmap :: "('a \<Rightarrow> 'e + 'b) \<Rightarrow> 'a list \<Rightarrow> 'e + 'b list" where
  "rmap f [] = Inr []"
| "rmap f (x # xs) = rbind (f x) (\<lambda>y. rbind (rmap f xs) (\<lambda>ys. Inr (y # ys)))"

definition mergeErrors :: "ResponseData \<Rightarrow> js_error + INodeExecutionData list cell list" where
  "mergeErrors data = (case data of
     Val outs \<Rightarrow> rmap (\<lambda>cell. case cell of
       Val items \<Rightarrow> rbind (rmap mergeErrorItem items) (\<lambda>items. Inr (Val items)) | _ \<Rightarrow> Inl TypeError) outs
   | _ \<Rightarrow> Inl TypeError)"

section \<open>The nodes that run next\<close>

record NodeToAdd =
  na_position :: "int \<times> int"
  na_connection :: IConnection
  na_output :: nat

definition outgoing :: "Workflow \<Rightarrow> string \<Rightarrow> (nat \<times> IConnection) list" where
  "outgoing w nm = concat (map (\<lambda>(i, cell). map (Pair i) (cell_or [] cell))
     (with_index (list_get (obj_get (connectionsBySourceNode w) nm) Main)))"

definition receivesData :: "RunExecution \<Rightarrow> INodeExecutionData list cell list \<Rightarrow> nat \<times> IConnection \<Rightarrow> bool" where
  "receivesData st outs = (\<lambda>(i, c). case arr_get outs i of
     Val items \<Rightarrow> length items \<noteq> 0 \<or> (c_index c > 0 \<and> isLegacyExecutionOrder st) | _ \<Rightarrow> False)"

definition checkDestination :: "RunExecution \<Rightarrow> nat \<times> IConnection \<Rightarrow> js_error + unit" where
  "checkDestination st = (\<lambda>(i, c). if getNode (workflow st) (c_node c) = None
     then Inl (ApplicationError ''Destination node not found'') else Inr ())"

text \<open>
  Top-left first: the comparison function puts the larger \<open>y\<close>, then the larger \<open>x\<close>, in front, and each
  node is then added at the top of the stack.
\<close>

definition sortNodesToAdd :: "NodeToAdd list \<Rightarrow> NodeToAdd list" where
  "sortNodesToAdd ns = sort_key (\<lambda>n. (- snd (na_position n), - fst (na_position n))) ns"

definition addNext ::
  "string \<Rightarrow> INodeExecutionData list cell list \<Rightarrow> nat \<Rightarrow> nat \<times> IConnection \<Rightarrow> RunExecution \<Rightarrow> js_error + RunExecution" where
  "addNext nm outs runIndex = (\<lambda>(i, c). addNodeToBeExecuted c i nm (Some outs) runIndex None None)"

definition scheduleLegacy ::
  "string \<Rightarrow> INodeExecutionData list cell list \<Rightarrow> nat \<Rightarrow> RunExecution \<Rightarrow> js_error + RunExecution" where
  "scheduleLegacy nm outs runIndex st =
     rfold (\<lambda>ic st. rbind (checkDestination st ic) (\<lambda>_.
       if receivesData st outs ic then addNext nm outs runIndex ic st else Inr st)) (outgoing (workflow st) nm) st"

definition nodesToAdd :: "string \<Rightarrow> INodeExecutionData list cell list \<Rightarrow> RunExecution \<Rightarrow> NodeToAdd list" where
  "nodesToAdd nm outs st = map (\<lambda>(i, c). \<lparr>na_position = (case getNode (workflow st) (c_node c) of None \<Rightarrow> (0, 0) | Some n \<Rightarrow> position n),
     na_connection = c, na_output = i\<rparr>) (filter (receivesData st outs) (outgoing (workflow st) nm))"

definition scheduleV1 ::
  "string \<Rightarrow> INodeExecutionData list cell list \<Rightarrow> nat \<Rightarrow> RunExecution \<Rightarrow> js_error + RunExecution" where
  "scheduleV1 nm outs runIndex st =
     rbind (rmap (checkDestination st) (outgoing (workflow st) nm)) (\<lambda>_.
       rfold (\<lambda>n. addNext nm outs runIndex (na_output n, na_connection n)) (sortNodesToAdd (nodesToAdd nm outs st)) st)"

definition scheduleNext ::
  "string \<Rightarrow> INodeExecutionData list cell list \<Rightarrow> nat \<Rightarrow> RunExecution \<Rightarrow> js_error + RunExecution" where
  "scheduleNext nm outs runIndex st =
     (if executionOrder st = Some ''v1'' then scheduleV1 nm outs runIndex st else scheduleLegacy nm outs runIndex st)"

section \<open>Waiting nodes\<close>

text \<open>\<open>Object.keys(entries).sort()\<close>: the indexes are compared as strings.\<close>

definition firstRunIndex :: "(nat \<times> 'e) list \<Rightarrow> nat option" where
  "firstRunIndex entries = (case sort_key nat_str (map fst entries) of [] \<Rightarrow> None | k # _ \<Rightarrow> Some k)"

definition requiredInputsOf :: "RunExecution \<Rightarrow> EngineNodeType \<Rightarrow> RequiredInputs option" where
  "requiredInputsOf st t = (if executionOrder st = Some ''v1'' then nt_requiredInputs t else None)"

definition allRequired :: "EngineNodeType \<Rightarrow> RequiredInputs option \<Rightarrow> bool" where
  "allRequired t r = (case r of None \<Rightarrow> False
     | Some (InputIndexes is) \<Rightarrow> length is = nt_inputsLength t | Some (InputCount k) \<Rightarrow> k = nt_inputsLength t)"

definition inputsWithData :: "INodeExecutionData list cell list \<Rightarrow> nat list" where
  "inputsWithData cells = map fst (filter (\<lambda>(i, c). cell_opt c \<noteq> None) (with_index cells))"

definition requiredMissing :: "RequiredInputs option \<Rightarrow> nat list \<Rightarrow> bool" where
  "requiredMissing r present = (case r of None \<Rightarrow> False
     | Some (InputIndexes is) \<Rightarrow> list_ex (\<lambda>i. i \<notin> set present) is | Some (InputCount k) \<Rightarrow> length present < k)"

definition taskDataMain :: "INodeExecutionData list cell list \<Rightarrow> INodeExecutionData list cell list" where
  "taskDataMain cells = map (\<lambda>c. if c = Null then Val [] else c) cells"

definition padInputs :: "nat \<Rightarrow> INodeExecutionData list cell list \<Rightarrow> INodeExecutionData list cell list" where
  "padInputs k cells = cells @ replicate (k - length cells) (Val [])"

datatype WaitingStep = TryNext | Started RunExecution | Emptied RunExecution

definition startWaiting ::
  "(INode \<Rightarrow> EngineNodeType option) \<Rightarrow> string list \<Rightarrow> string \<Rightarrow> RunExecution \<Rightarrow> js_error + WaitingStep" where
  "startWaiting nodeTypes waitingNodes nm st =
     (case getNode (workflow st) nm of
        None \<Rightarrow> Inr TryNext
      | Some n \<Rightarrow>
          (case nodeTypes n of
             None \<Rightarrow> Inl TypeError
           | Some t \<Rightarrow>
               let required = requiredInputsOf st t in
               if allRequired t required then Inr TryNext
               else if list_ex (\<lambda>p. p \<in> set waitingNodes) (allParents st nm) then Inr TryNext
               else case firstRunIndex (obj_get (waitingExecution st) nm) of
                 None \<Rightarrow> Inl TypeError
               | Some k \<Rightarrow> rbind (entryMain (waitingExecution st) nm k) (\<lambda>cells.
                   if requiredMissing required (inputsWithData cells) then Inr TryNext
                   else case map_of (waitingExecutionSource st) nm of
                     None \<Rightarrow> Inl TypeError
                   | Some sources \<Rightarrow>
                       let main = taskDataMain cells in
                       Inr (if list_ex hasItems main
                         then Started (removeWaiting nm k (st\<lparr>nodeExecutionStack := nodeExecutionStack st @
                            [\<lparr>ed_node = n, ed_data = [(Main, padInputs (nt_inputsLength t) main)], ed_source = map_of sources k,
                              ed_runIndex = None, ed_metadata = None\<rparr>]\<rparr>))
                         else Emptied (removeWaiting nm k st)))))"

text \<open>Each entry that is removed empty starts the search again, so it ends.\<close>

definition entryCount :: "RunExecution \<Rightarrow> nat" where
  "entryCount st = length (concat (map snd (waitingExecution st)))"

lemma entries_update:
  "map_of m k = Some v \<Longrightarrow> length (concat (map snd (AList.update k u m))) + length v = length (concat (map snd m)) + length u"
  by (induction m) auto

lemma entries_delete: "length (concat (map snd (AList.delete k m))) \<le> length (concat (map snd m))"
  by (induction m) (auto simp: AList.delete_eq)

lemma length_delete_key: "k \<in> fst ` set es \<Longrightarrow> length (AList.delete k es) < length es"
proof (induction es)
  case (Cons e es)
  then show ?case by (cases "fst e = k") (auto simp: AList.delete_eq less_Suc_eq_le intro: length_filter_le)
qed simp

lemma firstRunIndex_mem: "firstRunIndex es = Some k \<Longrightarrow> k \<in> fst ` set es"
proof -
  assume "firstRunIndex es = Some k"
  then obtain ks where "sort_key nat_str (map fst es) = k # ks"
    by (auto simp: firstRunIndex_def split: list.splits)
  then have "k \<in> set (sort_key nat_str (map fst es))" by simp
  then show ?thesis by simp
qed

lemma removeWaiting_entryCount:
  assumes "k \<in> fst ` set (obj_get (waitingExecution st) nm)"
  shows "entryCount (removeWaiting nm k st) < entryCount st"
proof -
  let ?m = "waitingExecution st" and ?u = "AList.delete k (obj_get (waitingExecution st) nm)"
  obtain es where es: "map_of ?m nm = Some es" "obj_get ?m nm = es"
    using assms by (cases "map_of ?m nm") (simp_all add: obj_get_def)
  from entries_update [OF es(1), of ?u] length_delete_key [OF assms] es(2)
  have 1: "length (concat (map snd (AList.update nm ?u ?m))) < entryCount st" by (simp add: entryCount_def)
  with entries_delete [of nm "AList.update nm ?u ?m"] show ?thesis
    by (simp add: removeWaiting_def deleteEntry_def entryCount_def Let_def)
qed

lemma startWaiting_Emptied:
  "startWaiting nodeTypes ws nm st = Inr (Emptied st') \<Longrightarrow> entryCount st' < entryCount st"
  by (auto simp: startWaiting_def Let_def rbind_eq_Inr split: option.splits if_splits
    intro!: removeWaiting_entryCount firstRunIndex_mem)

function startWaitingNodes ::
  "(INode \<Rightarrow> EngineNodeType option) \<Rightarrow> string list \<Rightarrow> string list \<Rightarrow> RunExecution \<Rightarrow> js_error + RunExecution" where
  "startWaitingNodes nodeTypes waitingNodes [] st = Inr st"
| "startWaitingNodes nodeTypes waitingNodes (nm # rest) st =
     (case startWaiting nodeTypes waitingNodes nm st of
        Inl e \<Rightarrow> Inl e
      | Inr TryNext \<Rightarrow> startWaitingNodes nodeTypes waitingNodes rest st
      | Inr (Started st') \<Rightarrow> Inr st'
      | Inr (Emptied st') \<Rightarrow> startWaitingNodes nodeTypes (map fst (waitingExecution st')) (map fst (waitingExecution st')) st')"
  by pat_completeness auto

termination startWaitingNodes
  by (relation "measures [\<lambda>(t, ws, rest, st). entryCount st, \<lambda>(t, ws, rest, st). length rest]")
    (auto dest: startWaiting_Emptied)

declare startWaitingNodes.simps [simp del]

section \<open>One iteration\<close>

text \<open>\<open>ls_error\<close> is the variable \<open>executionError\<close>, which is reset when an iteration starts and read after the loop.\<close>

record LoopState =
  ls_exec :: RunExecution
  ls_calls :: nat
  ls_lastTry :: string
  ls_error :: "ExecutionError option"
  ls_stopped :: "StopReason option"

datatype LoopStep = Continue LoopState | Stop LoopState

definition tryName :: "string \<Rightarrow> nat \<Rightarrow> string" where
  "tryName nm r = nm @ '':'' @ nat_str r"

definition continuesOnError :: "INode \<Rightarrow> bool" where
  "continuesOnError n \<longleftrightarrow> continueOnFail n = Some True \<or> onError n \<in> {Some ContinueRegularOutput, Some ContinueErrorOutput}"

text \<open>After an error with which the workflow goes on, the first main input is passed through.\<close>

definition passThrough :: "IExecuteData \<Rightarrow> ResponseData \<Rightarrow> ResponseData" where
  "passThrough executionData data = (case map_of (ed_data executionData) Main of
     Some (first # _) \<Rightarrow> if first = Null then data else Val [first] | _ \<Rightarrow> data)"

definition failedTask :: "INode \<Rightarrow> nat \<Rightarrow> ExecutionError \<Rightarrow> ITaskData \<Rightarrow> IRunData \<Rightarrow> ITaskData" where
  "failedTask n r e task rd = (case rewireOutputLogTo n of
     None \<Rightarrow> task
   | Some t \<Rightarrow> task\<lparr>inputOverride := Some (existingOverride rd (name n) r),
       td_data := Some [(t, [Val [plainItem [(''error'', JStr (err_message e))]]])]\<rparr>)"

definition successTask :: "INode \<Rightarrow> nat \<Rightarrow> INodeExecutionData list cell list \<Rightarrow> ITaskData \<Rightarrow> IRunData \<Rightarrow> ITaskData" where
  "successTask n r outs task rd = (case rewireOutputLogTo n of
     None \<Rightarrow> task\<lparr>td_data := Some [(Main, outs)]\<rparr>
   | Some t \<Rightarrow> task\<lparr>inputOverride := Some (existingOverride rd (name n) r), td_data := Some [(t, outs)]\<rparr>)"

definition requeue :: "IExecuteData \<Rightarrow> RunExecution \<Rightarrow> RunExecution" where
  "requeue executionData st = st\<lparr>nodeExecutionStack := executionData # nodeExecutionStack st\<rparr>"

text \<open>What follows the tries, once the run has been recorded.\<close>

definition afterSuccess ::
  "EngineEnv \<Rightarrow> IExecuteData \<Rightarrow> nat \<Rightarrow> INodeExecutionData list cell list \<Rightarrow> LoopState \<Rightarrow> js_error + LoopStep" where
  "afterSuccess env executionData r outs ls =
     (let st = ls_exec ls; n = ed_node executionData in
      if waitTill st \<noteq> None then Inr (Stop (ls\<lparr>ls_exec := requeue executionData st\<rparr>))
      else if map_option dest_nodeName (startDestination st) = Some (name n) then Inr (Continue ls)
      else rbind (scheduleNext (name n) outs r st) (\<lambda>st1.
        rbind (if nodeExecutionStack st1 = []
               then startWaitingNodes (env_nodeTypes env) (map fst (waitingExecution st1)) (map fst (waitingExecution st1)) st1
               else Inr st1) (\<lambda>st2. Inr (Continue (ls\<lparr>ls_exec := st2\<rparr>)))))"

definition newTask :: "EngineEnv \<Rightarrow> nat \<Rightarrow> IExecuteData \<Rightarrow> RunExecution \<Rightarrow> ExecutionError option \<Rightarrow> ITaskData" where
  "newTask env index executionData st e =
     \<lparr>startTime = fst (env_clock env index), executionIndex = Some index,
      source = (case ed_source executionData of None \<Rightarrow> [] | Some src \<Rightarrow> list_get src Main),
      executionTime = snd (env_clock env index),
      executionStatus = Some (if e \<noteq> None then ErrorStatus else if waitTill st \<noteq> None then Waiting else Success),
      td_data = None, inputOverride = None, td_error = e, td_metadata = ed_metadata executionData\<rparr>"

definition afterTries ::
  "EngineEnv \<Rightarrow> nat \<Rightarrow> IExecuteData \<Rightarrow> nat \<Rightarrow> ResponseData \<Rightarrow> ExecutionError option \<Rightarrow> LoopState \<Rightarrow> js_error + LoopStep" where
  "afterTries env index executionData r data e ls =
     (let st = ls_exec ls; n = ed_node executionData; rd = resultRunData st; task = newTask env index executionData st e in
      case (e, continuesOnError n) of
        (Some err, False) \<Rightarrow>
          Inr (Stop (ls\<lparr>ls_exec := requeue executionData
            (st\<lparr>resultRunData := recordTask (name n) r (failedTask n r err task rd) rd\<rparr>)\<rparr>))
      | _ \<Rightarrow>
          rbind (mergeErrors (if e = None then data else passThrough executionData data)) (\<lambda>outs.
            afterSuccess env executionData r outs
              (ls\<lparr>ls_exec := st\<lparr>resultRunData := recordTask (name n) r (successTask n r outs task rd) rd\<rparr>\<rparr>)))"

text \<open>The node at the top of the stack, with its run index and its name for the check against loops.\<close>

definition runTop :: "EngineEnv \<Rightarrow> nat \<Rightarrow> IExecuteData \<Rightarrow> nat \<Rightarrow> LoopState \<Rightarrow> js_error + LoopStep" where
  "runTop env index executionData r ls =
     (case tryLoop env (maxTriesOf (ed_node executionData)) executionData r 0
        \<lparr>ts_exec = ls_exec ls, ts_calls = ls_calls ls, ts_response = makeEngineResponse, ts_data = Null, ts_error = None\<rparr> of
        (goOn, ts) \<Rightarrow>
          (let ls' = ls\<lparr>ls_exec := ts_exec ts, ls_calls := ts_calls ts, ls_error := ts_error ts\<rparr> in
           if goOn then afterTries env index executionData r (ts_data ts) (ts_error ts) ls' else Inr (Continue ls')))"

definition skipped :: "RunExecution \<Rightarrow> INode \<Rightarrow> bool" where
  "skipped st n = (case runNodeFilter st of None \<Rightarrow> False | Some names \<Rightarrow> name n \<notin> set names)"

definition iteration :: "EngineEnv \<Rightarrow> LoopState \<Rightarrow> js_error + LoopStep" where
  "iteration env ls =
     (let st0 = ls_exec ls; index = currentNodeExecutionIndex st0 in
      case nodeExecutionStack st0 of
        [] \<Rightarrow> Inr (Stop ls)
      | entry # others \<Rightarrow>
          if env_stopped env index \<noteq> None then Inr (Stop (ls\<lparr>ls_stopped := env_stopped env index\<rparr>))
          else
            (let st = st0\<lparr>nodeExecutionStack := others, currentNodeExecutionIndex := Suc index\<rparr>;
                 n = ed_node entry; executionData = entry\<lparr>ed_data := setPairedItems entry\<rparr>;
                 r = runIndexOf entry (resultRunData st); currentTry = tryName (name n) r; ls = ls\<lparr>ls_error := None\<rparr>
             in if currentTry = ls_lastTry ls then Inl (ApplicationError ''Stopped execution because it seems to be in an endless loop'')
                else if skipped st n then Inr (Continue (ls\<lparr>ls_exec := st\<rparr>))
                else rbind (ensureInputData n executionData st) (\<lambda>(hasInputData, st1).
                  if hasInputData then runTop env index executionData r (ls\<lparr>ls_exec := st1\<rparr>)
                  else Inr (Continue (ls\<lparr>ls_exec := st1, ls_lastTry := currentTry\<rparr>)))))"

section \<open>The loop\<close>

text \<open>The loop need not end, so it takes fuel; \<open>None\<close> is running out of it.\<close>

fun executionLoop :: "EngineEnv \<Rightarrow> nat \<Rightarrow> LoopState \<Rightarrow> (js_error + LoopState) option" where
  "executionLoop env 0 ls = None"
| "executionLoop env (Suc fuel) ls =
     (case iteration env ls of
        Inl e \<Rightarrow> Some (Inl e)
      | Inr (Stop ls') \<Rightarrow> Some (Inr ls')
      | Inr (Continue ls') \<Rightarrow> executionLoop env fuel ls')"

text \<open>The same as a step relation.\<close>

inductive engine_step :: "EngineEnv \<Rightarrow> LoopState \<Rightarrow> LoopState \<Rightarrow> bool" for env where
  step: "iteration env ls = Inr (Continue ls') \<Longrightarrow> engine_step env ls ls'"

inductive_cases engine_stepE: "engine_step env ls ls'"
inductive_simps engine_step_iff: "engine_step env ls ls'"

inductive engine_stops :: "EngineEnv \<Rightarrow> LoopState \<Rightarrow> js_error + LoopState \<Rightarrow> bool" for env where
  stop: "iteration env ls = Inr (Stop ls') \<Longrightarrow> engine_stops env ls (Inr ls')"
| throw: "iteration env ls = Inl e \<Longrightarrow> engine_stops env ls (Inl e)"
| more: "engine_step env ls ls' \<Longrightarrow> engine_stops env ls' res \<Longrightarrow> engine_stops env ls res"

end
