(* ===== verification/EngineStart.thy ===== *)
theory EngineStart
  imports EngineLoop WorkflowConversion
begin

text \<open>
  The ends of an execution, from \<^verbatim>\<open>workflow-execute.ts\<close>: \<open>run\<close> and \<open>runPartialWorkflow2\<close>, which build
  the state the loop starts from, \<open>processRunExecutionData\<close> around the loop, and
  \<open>processSuccessExecution\<close>, which turns its last state into the result. \<open>isTool\<close>, \<open>parameterIssues\<close> and
  \<open>localeCompare\<close> stand for \<open>NodeHelpers.isTool\<close>, \<open>NodeHelpers.getNodeParametersIssues\<close> and the method
  of strings.
\<close>

section \<open>createRunExecutionData\<close>

definition createRunExecutionData ::
  "Workflow \<Rightarrow> string option \<Rightarrow> IDestinationNode option \<Rightarrow> string list option \<Rightarrow> StackState \<Rightarrow> IRunData \<Rightarrow> IPinData option
     \<Rightarrow> nat \<Rightarrow> RunExecution" where
  "createRunExecutionData w order destination nodeFilter stackState rd pd index =
     (newExecution w order)\<lparr>nodeExecutionStack := nodeExecutionStack stackState,
        waitingExecution := waitingExecution stackState, waitingExecutionSource := waitingExecutionSource stackState,
        startDestination := destination, runNodeFilter := nodeFilter, resultRunData := rd, resultPinData := pd,
        currentNodeExecutionIndex := index\<rparr>"

section \<open>run\<close>

text \<open>The nodes that lead to the destination, with the destination itself when it is inclusive.\<close>

definition destinationFilter :: "Workflow \<Rightarrow> IDestinationNode \<Rightarrow> string list \<Rightarrow> string list" where
  "destinationFilter w d additional =
     getParentNodes (connectionsByDestinationNode w) (dest_nodeName d) (OfType Main) (-1)
       @ (if dest_mode d = Inclusive then [dest_nodeName d] else []) @ additional"

definition chooseStart ::
  "(INode \<Rightarrow> INodeType option) \<Rightarrow> Workflow \<Rightarrow> INode option \<Rightarrow> IDestinationNode option \<Rightarrow> js_error + INode option" where
  "chooseStart nodeTypes w startNode destination = (case startNode of
     Some n \<Rightarrow> Inr (Some n) | None \<Rightarrow> getStartNode nodeTypes w (map_option dest_nodeName destination))"

definition runWorkflow ::
  "(INode \<Rightarrow> INodeType option) \<Rightarrow> Workflow \<Rightarrow> string option \<Rightarrow> INode option \<Rightarrow> IDestinationNode option \<Rightarrow> IPinData option
     \<Rightarrow> ITaskDataConnections option \<Rightarrow> string list \<Rightarrow> nat \<Rightarrow> js_error + RunExecution" where
  "runWorkflow nodeTypes w order startNode destination pd triggerData additional index =
     rbind (chooseStart nodeTypes w startNode destination) (\<lambda>start.
       case start of
         None \<Rightarrow> Inl (ApplicationError ''No node to start the workflow from could be found'')
       | Some n \<Rightarrow> Inr (createRunExecutionData w order destination
           (map_option (\<lambda>d. destinationFilter w d additional) destination)
           (emptyStack\<lparr>nodeExecutionStack := [\<lparr>ed_node = n,
             ed_data = (case triggerData of Some d \<Rightarrow> d | None \<Rightarrow> [(Main, [Val [plainItem []]])]),
             ed_source = None, ed_runIndex = None, ed_metadata = None\<rparr>]\<rparr>) [] pd index))"

section \<open>runPartialWorkflow2\<close>

definition rewireTool ::
  "nat \<Rightarrow> (INode \<Rightarrow> bool) \<Rightarrow> Workflow \<Rightarrow> IDestinationNode \<Rightarrow> INode \<Rightarrow> DirectedGraph
     \<Rightarrow> js_error + DirectedGraph \<times> Workflow \<times> INode \<times> IDestinationNode" where
  "rewireTool newRef isTool w d destination g =
     (if isTool destination then
        rbind (rewireGraph newRef destination g) (\<lambda>g'.
        rbind (toWorkflow (wf_pinData w) g') (\<lambda>w'.
          case getNode w' TOOL_EXECUTOR_NODE_NAME of
            None \<Rightarrow> Inl (OperationalError ''ToolExecutor can not be found'')
          | Some t \<Rightarrow> Inr (g', w', t, \<lparr>dest_nodeName = name t, dest_mode = Inclusive\<rparr>)))
      else Inr (g, w, destination, d))"

text \<open>Without a trigger, the closest parent with run data is where the execution starts.\<close>

definition partialTrigger ::
  "(INode \<Rightarrow> INodeType option) \<Rightarrow> Workflow \<Rightarrow> string \<Rightarrow> IRunData \<Rightarrow> js_error + INode" where
  "partialTrigger nodeTypes w destinationName rd =
     rbind (findTriggerForPartialExecution nodeTypes w destinationName rd) (\<lambda>trigger.
       case trigger of
         Some t \<Rightarrow> Inr t
       | None \<Rightarrow>
           (case Option.bind (List.find (\<lambda>nm. map_of rd nm \<noteq> None)
               (getParentNodes (connectionsByDestinationNode w) destinationName (OfType Main) (-1))) (getNode w) of
              None \<Rightarrow> Inl (UserError ''Connect a trigger to run this node'')
            | Some n \<Rightarrow> Inr n))"

text \<open>Steps 2 to 7 on the graph: what to start with, on which run data, in which part of the workflow.\<close>

definition planPartial ::
  "(string \<Rightarrow> string \<Rightarrow> int) \<Rightarrow> DirectedGraph \<Rightarrow> INode \<Rightarrow> INode \<Rightarrow> IRunData \<Rightarrow> IPinData \<Rightarrow> string list
     \<Rightarrow> js_error + DirectedGraph \<times> IRunData \<times> StackState" where
  "planPartial localeCompare g trigger destination rd pd dirtyNames =
     rbind (filterDisabledNodes g) (\<lambda>enabled.
     rbind (findSubgraph enabled destination trigger) (\<lambda>sub.
     rbind (cleanRunData rd sub (getNodesByNames sub dirtyNames)) (\<lambda>rd1.
     rbind (findStartNodes sub trigger destination pd rd1) (\<lambda>starts.
     rbind (handleCycles sub starts trigger) (\<lambda>starts1.
     rbind (cleanRunData rd1 sub starts1) (\<lambda>rd2.
     rbind (recreateNodeExecutionStack localeCompare sub starts1 rd2 pd) (\<lambda>stackState.
       Inr (sub, rd2, stackState))))))))"

definition runPartialWorkflow2 ::
  "(string \<Rightarrow> string \<Rightarrow> int) \<Rightarrow> (INode \<Rightarrow> INodeType option) \<Rightarrow> (INode \<Rightarrow> bool) \<Rightarrow> nat \<Rightarrow> Workflow \<Rightarrow> string option
     \<Rightarrow> IRunData \<Rightarrow> IPinData \<Rightarrow> string list \<Rightarrow> IDestinationNode \<Rightarrow> js_error + RunExecution" where
  "runPartialWorkflow2 localeCompare nodeTypes isTool newRef w order rd pd dirtyNames d =
     (case getNode w (dest_nodeName d) of
        None \<Rightarrow> Inl AssertionError
      | Some destination \<Rightarrow>
          rbind (fromWorkflow w) (\<lambda>g.
          if nodeTypes destination = None then Inl TypeError
          else rbind (rewireTool newRef isTool w d destination g) (\<lambda>(g1, w1, destination1, d1).
          rbind (partialTrigger nodeTypes w1 (dest_nodeName d1) rd) (\<lambda>trigger.
          rbind (planPartial localeCompare g1 trigger destination1 rd pd dirtyNames) (\<lambda>(sub, rd1, stackState).
            Inr (createRunExecutionData w1 order (Some d1) (Some (map name (getNodes sub))) stackState rd1 (Some pd)
              (getNextExecutionIndex rd1)))))))"

section \<open>Before the loop\<close>

datatype NodeIssues = TypeUnknown | ParameterIssues json

definition nodesToCheck :: "Workflow \<Rightarrow> string option \<Rightarrow> IDestinationNode option \<Rightarrow> string list" where
  "nodesToCheck w startNode destination = (case destination of
     Some d \<Rightarrow> destinationFilter w d []
   | None \<Rightarrow> (case startNode of
       Some s \<Rightarrow> if s = [] then [] else getChildNodes (connectionsBySourceNode w) s (OfType Main) (-1) @ [s]
     | None \<Rightarrow> []))"

definition nodeIssues ::
  "(INode \<Rightarrow> EngineNodeType option) \<Rightarrow> (INode \<Rightarrow> string list \<Rightarrow> json option) \<Rightarrow> string list \<Rightarrow> INode \<Rightarrow> NodeIssues option" where
  "nodeIssues nodeTypes parameterIssues pinned n = (case nodeTypes n of
     None \<Rightarrow> Some TypeUnknown | Some t \<Rightarrow> map_option ParameterIssues (parameterIssues n pinned))"

definition checkReadyForExecution ::
  "(INode \<Rightarrow> EngineNodeType option) \<Rightarrow> (INode \<Rightarrow> string list \<Rightarrow> json option) \<Rightarrow> Workflow \<Rightarrow> string option
     \<Rightarrow> IDestinationNode option \<Rightarrow> string list \<Rightarrow> (string \<times> NodeIssues) list option" where
  "checkReadyForExecution nodeTypes parameterIssues w startNode destination pinned =
     (let issues = fold (\<lambda>nm found. case map_of (wf_nodes w) nm of
            None \<Rightarrow> found
          | Some n \<Rightarrow> if disabled n = Some True then found
              else (case nodeIssues nodeTypes parameterIssues pinned n of
                      None \<Rightarrow> found | Some i \<Rightarrow> AList.update (name n) i found))
          (nodesToCheck w startNode destination) []
      in if issues = [] then None else Some issues)"

definition checkForWorkflowIssues ::
  "(INode \<Rightarrow> EngineNodeType option) \<Rightarrow> (INode \<Rightarrow> string list \<Rightarrow> json option) \<Rightarrow> RunExecution \<Rightarrow> bool" where
  "checkForWorkflowIssues nodeTypes parameterIssues st \<longleftrightarrow>
     checkReadyForExecution nodeTypes parameterIssues (workflow st)
       (case nodeExecutionStack st of [] \<Rightarrow> None | e # _ \<Rightarrow> Some (name (ed_node e)))
       (startDestination st) (case resultPinData st of None \<Rightarrow> [] | Some pd \<Rightarrow> map fst pd) = None"

text \<open>
  An execution that waited goes on: the node on the stack is disabled, wherever it is shared, and its
  run is taken out of the run data.
\<close>

definition disableNode :: "INode \<Rightarrow> RunExecution \<Rightarrow> RunExecution" where
  "disableNode n st =
     (let change = (\<lambda>m. if ref m = ref n then m\<lparr>disabled := Some True\<rparr> else m)
      in st\<lparr>workflow := (workflow st)\<lparr>wf_nodes := map (\<lambda>(k, m). (k, change m)) (wf_nodes (workflow st))\<rparr>,
            nodeExecutionStack := map (\<lambda>e. e\<lparr>ed_node := change (ed_node e)\<rparr>) (nodeExecutionStack st)\<rparr>)"

definition handleWaitingState :: "RunExecution \<Rightarrow> js_error + RunExecution" where
  "handleWaitingState st =
     (if waitTill st = None then Inr st
      else case nodeExecutionStack st of
        [] \<Rightarrow> Inl TypeError
      | e # _ \<Rightarrow>
          (case lastNodeExecuted st of
             None \<Rightarrow> Inl TypeError
           | Some nm \<Rightarrow>
               (case map_of (resultRunData st) nm of
                  None \<Rightarrow> Inl TypeError
                | Some runs \<Rightarrow> Inr (disableNode (ed_node e)
                    (st\<lparr>waitTill := None, resultRunData := AList.update nm (butlast runs) (resultRunData st)\<rparr>)))))"

section \<open>After the loop\<close>

definition mergeMetadata :: "ITaskMetadata option \<Rightarrow> ITaskMetadata \<Rightarrow> ITaskMetadata" where
  "mergeMetadata old new = (case old of None \<Rightarrow> new
   | Some m \<Rightarrow>
       \<lparr>subNodeExecutionData = (if subNodeExecutionData new = None then subNodeExecutionData m else subNodeExecutionData new),
        preserveSourceOverwrite = (if preserveSourceOverwrite new = None then preserveSourceOverwrite m else preserveSourceOverwrite new),
        preservedSourceOverwrite = (if preservedSourceOverwrite new = None then preservedSourceOverwrite m else preservedSourceOverwrite new),
        nodeWasResumed = (if nodeWasResumed new = None then nodeWasResumed m else nodeWasResumed new)\<rparr>)"

definition moveRunMetadata :: "string \<Rightarrow> nat \<times> ITaskMetadata \<Rightarrow> IRunData \<Rightarrow> IRunData" where
  "moveRunMetadata nm = (\<lambda>(i, md) rd. case arr_at (list_get rd nm) i of
     None \<Rightarrow> rd
   | Some task \<Rightarrow> AList.update nm ((list_get rd nm)[i := task\<lparr>td_metadata := Some (mergeMetadata (td_metadata task) md)\<rparr>]) rd)"

definition moveNodeMetadata :: "RunExecution \<Rightarrow> RunExecution" where
  "moveNodeMetadata st = (case nodeMetadata st of
     None \<Rightarrow> st
   | Some metadata \<Rightarrow> st\<lparr>resultRunData :=
       fold (\<lambda>(nm, ms). fold (moveRunMetadata nm) (with_index ms)) metadata (resultRunData st)\<rparr>)"

definition updateTaskStatusesToCancelled :: "RunExecution \<Rightarrow> RunExecution" where
  "updateTaskStatusesToCancelled st = st\<lparr>resultRunData := map (\<lambda>(nm, runs). (nm, map (\<lambda>task.
     if executionStatus task = Some Running then task\<lparr>executionStatus := Some Canceled\<rparr> else task) runs)) (resultRunData st)\<rparr>"

definition containsText :: "string \<Rightarrow> string \<Rightarrow> bool" where
  "containsText pattern s = list_ex (\<lambda>i. take (length pattern) (drop i s) = pattern) [0..<Suc (length s)]"

definition cancellation :: "StopReason \<Rightarrow> ExecutionError" where
  "cancellation r = (case r of
     TimedOut \<Rightarrow> \<lparr>err_name = ''TimeoutExecutionCancelledError'', err_message = ''The execution was cancelled because it timed out''\<rparr>
   | CancelledByUser \<Rightarrow> \<lparr>err_name = ''ManualExecutionCancelledError'', err_message = ''The execution was cancelled manually''\<rparr>)"

record RunResult =
  rr_data :: RunExecution
  rr_status :: ExecutionStatus
  rr_finished :: bool
  rr_waitTill :: "nat option"

definition finalStatus :: "ExecutionError option \<Rightarrow> RunExecution \<Rightarrow> ExecutionStatus" where
  "finalStatus e st = (case e of
     Some err \<Rightarrow> if containsText ''canceled'' (err_message err) \<or> containsText ''Cancelled'' (err_name err) then Canceled else ErrorStatus
   | None \<Rightarrow> if waitTill st \<noteq> None then Waiting else Success)"

definition processSuccessExecution :: "RunExecution \<Rightarrow> ExecutionError option \<Rightarrow> RunResult" where
  "processSuccessExecution st executionError =
     (let st1 = moveNodeMetadata st in
      \<lparr>rr_data = (case executionError of None \<Rightarrow> st1 | Some e \<Rightarrow> st1\<lparr>resultError := Some e\<rparr>),
       rr_status = finalStatus executionError st,
       rr_finished = (executionError = None \<and> waitTill st = None),
       rr_waitTill = (if executionError = None then waitTill st else None)\<rparr>)"

text \<open>
  A user may cancel while a node runs. When the loop ends after that the status is already that of a cancelled execution,
  even if no iteration comes any more that would look at it; the timeout is only looked at before an iteration.
\<close>

definition stopReason :: "EngineEnv \<Rightarrow> LoopState \<Rightarrow> StopReason option" where
  "stopReason env ls = (case ls_stopped ls of
     Some r \<Rightarrow> Some r
   | None \<Rightarrow> if env_stopped env (currentNodeExecutionIndex (ls_exec ls)) = Some CancelledByUser then Some CancelledByUser else None)"

text \<open>The result when the loop ended, and when it threw: the status is then still the one it had.\<close>

definition endOfLoop :: "EngineEnv \<Rightarrow> LoopState \<Rightarrow> RunResult" where
  "endOfLoop env ls = processSuccessExecution (ls_exec ls)
     (case (ls_error ls, stopReason env ls) of (None, Some r) \<Rightarrow> Some (cancellation r) | (e, _) \<Rightarrow> e)"

definition startOfLoop :: "RunExecution \<Rightarrow> LoopState" where
  "startOfLoop st = \<lparr>ls_exec = st, ls_calls = 0, ls_lastTry = [], ls_error = None, ls_stopped = None\<rparr>"

text \<open>\<open>None\<close>: out of fuel. \<open>Inl\<close>: rejected before the loop, or thrown out of it.\<close>

definition processRunExecutionData ::
  "EngineEnv \<Rightarrow> (INode \<Rightarrow> string list \<Rightarrow> json option) \<Rightarrow> nat \<Rightarrow> RunExecution \<Rightarrow> (js_error + RunResult) option" where
  "processRunExecutionData env parameterIssues fuel st =
     (if \<not> checkForWorkflowIssues (env_nodeTypes env) parameterIssues st
      then Some (Inl (ApplicationError ''The workflow has issues and cannot be executed for that reason. Please fix them first.''))
      else case handleWaitingState st of
        Inl e \<Rightarrow> Some (Inl e)
      | Inr st1 \<Rightarrow> map_option (map_sum id (endOfLoop env)) (executionLoop env fuel (startOfLoop st1)))"

end
