(* ===== verification/EngineRetry.thy ===== *)
theory EngineRetry
  imports EngineStart
begin

text \<open>
  How often a node is called, and what its retries see: properties of the retry loop.
\<close>

lemma callNode_calls: "ts_calls (snd (callNode env ed resp ts)) = Suc (ts_calls ts)"
  by (simp add: callNode_def)

text \<open>The calls a run of \<open>retryFailed\<close> makes: one per step of the counter, and one more that throws.\<close>

lemma retryFailed_calls:
  assumes "tryIndex < tries" "retryFailed env tries ed tryIndex x ts = (y, k, ts')"
  shows "tryIndex \<le> k \<and> k < tries \<and>
    ts_calls ts' + tryIndex \<le> ts_calls ts + k + (if Suc k < tries then 1 else 0)"
  using assms
proof (induction env tries ed tryIndex x ts arbitrary: y k ts' rule: retryFailed.induct)
  case (1 env tries ed tryIndex x ts)
  show ?case
  proof (cases "nodeFailed x \<and> Suc tryIndex < tries")
    case True
    obtain z ts1 where z: "callNode env ed makeEngineResponse ts = (z, ts1)" by force
    with callNode_calls [of env ed makeEngineResponse ts] have calls: "ts_calls ts1 = Suc (ts_calls ts)" by simp
    show ?thesis
    proof (cases "\<exists>e. z = Threw e")
      case threw: True
      with "1.prems" True z calls show ?thesis by (auto simp: retryFailed.simps [of env tries ed tryIndex])
    next
      case False
      have rec: "retryFailed env tries ed (Suc tryIndex) z ts1 = (y, k, ts')"
      proof (cases z)
        case (Threw e)
        with False show ?thesis by simp
      qed (use "1.prems"(2) True z in \<open>simp_all add: retryFailed.simps [of env tries ed tryIndex]\<close>)
      have "Suc tryIndex \<le> k \<and> k < tries \<and> ts_calls ts' + Suc tryIndex \<le> ts_calls ts1 + k + (if Suc k < tries then 1 else 0)"
      proof (cases z)
        case (Returned d)
        show ?thesis by (rule "1.IH"(1) [OF True z [symmetric] Returned]) (use True rec Returned in simp_all)
      next
        case (Requested q)
        show ?thesis by (rule "1.IH"(2) [OF True z [symmetric] Requested]) (use True rec Requested in simp_all)
      next
        case (Threw e)
        with False show ?thesis by simp
      qed
      with calls show ?thesis by auto
    qed
  next
    case False
    have "retryFailed env tries ed tryIndex x ts = (x, tryIndex, ts)"
      by (subst retryFailed.simps) (simp only: False if_False)
    with "1.prems" show ?thesis by simp
  qed
qed

lemma finishTry_calls [simp]: "ts_calls (snd (finishTry ed ts)) = ts_calls ts"
  by (simp add: finishTry_def Let_def split: sum.splits option.splits)

lemma runOnce_calls:
  assumes "tryIndex < tries" "runOnce env tries ed r tryIndex ts = (res, k, ts')"
  shows "tryIndex \<le> k \<and> k < tries \<and>
    ts_calls ts' + tryIndex \<le> ts_calls ts + Suc k + (if Suc k < tries then 1 else 0)"
proof (cases "pinnedData (ts_exec ts) (ed_node ed)")
  case (Some items)
  then obtain t' where "finishTry ed (ts\<lparr>ts_data := Val [Val items]\<rparr>) = (res, t')" "k = tryIndex" "ts' = t'"
    using assms(2) by (auto simp: runOnce_def split: prod.splits)
  with finishTry_calls [of ed "ts\<lparr>ts_data := Val [Val items]\<rparr>"] assms(1) show ?thesis by simp
next
  case None
  let ?ts1 = "ts\<lparr>ts_response := collectResponses ed (resultRunData (ts_exec ts)) (ts_response ts)\<rparr>"
  obtain x ts2 where x: "callNode env ed (ts_response ?ts1) ?ts1 = (x, ts2)" by force
  obtain y k' ts3 where y: "retryFailed env tries ed tryIndex x ts2 = (y, k', ts3)" by (metis prod_cases3)
  from callNode_calls [of env ed "ts_response ?ts1" ?ts1] x have c2: "ts_calls ts2 = Suc (ts_calls ts)" by simp
  have "k = k'" "ts_calls ts' = ts_calls ts3"
    using assms(2) None x y finishTry_calls unfolding runOnce_def
    by (auto split: NodeOutcome.splits prod.splits option.splits sum.splits) (metis finishTry_calls snd_conv TryState.select_convs TryState.surjective TryState.update_convs(4) TryState.ext_inject)+
  with retryFailed_calls [OF assms(1) y] c2 show ?thesis by simp
qed

lemma tryLoop_calls:
  "tryIndex < tries \<Longrightarrow>
     ts_calls (snd (tryLoop env tries ed r tryIndex ts)) + 1 \<le> ts_calls ts + 2 * (tries - tryIndex)"
proof (induction env tries ed r tryIndex ts rule: tryLoop.induct)
  case (1 env tries ed r tryIndex ts)
  let ?ts = "if tryIndex \<noteq> 0 then ts\<lparr>ts_error := None\<rparr> else ts"
  obtain res k ts1 where run: "runOnce env tries ed r tryIndex ?ts = (res, k, ts1)" by (metis prod_cases3)
  have "ts_calls ?ts = ts_calls ts" by simp
  with runOnce_calls [OF "1.prems" run] have b: "tryIndex \<le> k" "k < tries"
    "ts_calls ts1 + tryIndex \<le> ts_calls ts + Suc k + (if Suc k < tries then 1 else 0)"
    by (simp_all only:)
  show ?case
  proof (cases res)
    case (Failed e)
    let ?ts1 = "ts1\<lparr>ts_error := Some e, ts_exec := (ts_exec ts1)\<lparr>lastNodeExecuted := Some (name (ed_node ed))\<rparr>\<rparr>"
    have rec: "tryLoop env tries ed r tryIndex ts = tryLoop env tries ed r (Suc k) ?ts1"
      using "1.prems" run Failed by (subst tryLoop.simps) simp
    show ?thesis
    proof (cases "Suc k < tries")
      case True
      from "1.IH" [OF "1.prems" run [symmetric] Failed refl] True
      have "ts_calls (snd (tryLoop env tries ed r (Suc k) ?ts1)) + 1 \<le> ts_calls ts1 + 2 * (tries - Suc k)" by simp
      with rec b True show ?thesis by (simp only: if_True)
    next
      case False
      then have "tryLoop env tries ed r (Suc k) ?ts1 = (True, ?ts1)" by (subst tryLoop.simps) simp
      with rec b False show ?thesis by simp
    qed
  next
    case Finished
    then have "tryLoop env tries ed r tryIndex ts = (True, ts1)" using "1.prems" run by (subst tryLoop.simps) simp
    with b show ?thesis by (simp split: if_splits)
  next
    case SkipNode
    then have "tryLoop env tries ed r tryIndex ts = (False, ts1)" using "1.prems" run by (subst tryLoop.simps) simp
    with b show ?thesis by (simp split: if_splits)
  qed
qed

lemma maxTriesOf_bounds: "1 \<le> maxTriesOf n" "maxTriesOf n \<le> 5" "retryOnFail n \<noteq> Some True \<Longrightarrow> maxTriesOf n = 1"
  by (auto simp: maxTriesOf_def)

section \<open>Properties\<close>

text \<open>An engine whose nodes all have an \<open>execute\<close> method and answer as given.\<close>

definition executeType :: EngineNodeType where
  "executeType = \<lparr>nt_name = ''set'', nt_trigger = False, nt_poll = False, nt_group_trigger = False, nt_execute = True,
     nt_webhook = False, nt_requestDefaults = False, nt_requiredInputs = None, nt_inputsLength = 1, nt_mainOutputs = 1\<rparr>"

definition envOf :: "(nat \<Rightarrow> EngineResponse \<Rightarrow> NodeOutcome) \<Rightarrow> EngineEnv" where
  "envOf answer = \<lparr>env_nodeTypes = (\<lambda>n. Some executeType),
     env_calls = (\<lambda>k n. \<lparr>call_execute = (\<lambda>items inputs response. answer k response), call_poll = Returned Null,
       call_trigger = Inr NoTrigger, call_declarative = (\<lambda>items inputs. Returned Null)\<rparr>),
     env_waits = (\<lambda>k. None), env_customOperation = (\<lambda>n. False), env_manual = False, env_getPairedItem = (\<lambda>s p. Inr None),
     env_clock = (\<lambda>i. (i, 0)), env_stopped = (\<lambda>i. None)\<rparr>"

definition retryNode :: INode where
  "retryNode = (plainNode 1 ''A'' ''set'')\<lparr>retryOnFail := Some True, maxTries := Some 2\<rparr>"

definition entryOf :: "INode \<Rightarrow> ITaskMetadata option \<Rightarrow> IExecuteData" where
  "entryOf n md = \<lparr>ed_node = n, ed_data = [(Main, [Val [plainItem []]])], ed_source = None, ed_runIndex = None, ed_metadata = md\<rparr>"

definition firstTry :: "RunExecution \<Rightarrow> TryState" where
  "firstTry st = \<lparr>ts_exec = st, ts_calls = 0, ts_response = makeEngineResponse, ts_data = Null, ts_error = None\<rparr>"

definition itemsOf :: "(string \<times> json) list list \<Rightarrow> NodeOutcome" where
  "itemsOf js = Returned (Val [Val (map plainItem js)])"

definition boom :: ExecutionError where
  "boom = \<lparr>err_name = ''Error'', err_message = ''boom''\<rparr>"

lemma exceeds_maxTries:
  "maxTriesOf retryNode = 2"
  "ts_calls (snd (tryLoop (envOf (\<lambda>k response. if k = 0 then itemsOf [[(''error'', JStr ''soft'')]] else if k = 1 then Threw boom else itemsOf [[]]))
     (maxTriesOf retryNode) (entryOf retryNode None) 0 0 (firstTry (newExecution wAB (Some ''v1''))))) = 3"
  by code_simp+

text \<open>C5: one turn of the engine calls a node less than twice its number of tries, and that number is
  between 1 and 5, so the retry loop ends after at most 9 calls whatever the node does. More calls than
  tries do happen: a call that throws inside the inner retry loop does not count, so that a node with two
  tries can be called three times.\<close>

theorem tryLoop_call_bound:
  "ts_calls (snd (tryLoop env (maxTriesOf (ed_node ed)) ed r 0 ts)) < ts_calls ts + 2 * maxTriesOf (ed_node ed) \<and>
   maxTriesOf (ed_node ed) \<in> {1..5} \<and>
   (\<exists>env st. maxTriesOf retryNode = 2 \<and>
     ts_calls (snd (tryLoop env (maxTriesOf retryNode) (entryOf retryNode None) 0 0 (firstTry st))) = 3)"
proof -
  have "0 < maxTriesOf (ed_node ed)" using maxTriesOf_bounds(1) [of "ed_node ed"] by linarith
  from tryLoop_calls [OF this, of env ed r ts] maxTriesOf_bounds [of "ed_node ed"] exceeds_maxTries
  show ?thesis by (intro conjI exI) simp_all
qed

text \<open>An agent that is called again with the result of its tool, run 0 of \<open>T\<close>; it answers with the number of
  results it is given.\<close>

definition agentMetadata :: ITaskMetadata where
  "agentMetadata = \<lparr>subNodeExecutionData = Some ([\<lparr>sn_nodeName = ''T'', sn_runIndex = 0, sn_action =
       \<lparr>ea_nodeName = ''T'', ea_input = [], ea_type = AiTool, ea_id = ''1'', ea_parentNodeName = None, ea_itemIndex = None\<rparr>\<rparr>], JObj []),
     preserveSourceOverwrite = None, preservedSourceOverwrite = None, nodeWasResumed = Some True\<rparr>"

definition countResponses :: "EngineResponse \<Rightarrow> NodeOutcome" where
  "countResponses response = itemsOf [[(''results'', JNum (int (length (er_actionResponses response))))]]"

definition resumedAgent :: "(nat \<Rightarrow> EngineResponse \<Rightarrow> NodeOutcome) \<Rightarrow> (string \<times> json) list list" where
  "resumedAgent answer =
     map item_json (cell_or [] (arr_get (cell_or [] (ts_data (snd (tryLoop (envOf answer) 2 (entryOf retryNode (Some agentMetadata)) 0 0
       (firstTry ((newExecution wAB (Some ''v1''))\<lparr>resultRunData := [(''T'', [run_of []])]\<rparr>)))))) 0))"

text \<open>A retry does not see the results of its tools the way the first try does. The agent has one
  result; the first try gets it once, a second try after an exception gets it twice, and a second try after a
  returned error gets none.\<close>

theorem retry_loses_and_duplicates_responses:
  "resumedAgent (\<lambda>k. countResponses) = [[(''results'', JNum 1)]] \<and>
   resumedAgent (\<lambda>k response. if k = 0 then Threw boom else countResponses response) = [[(''results'', JNum 2)]] \<and>
   resumedAgent (\<lambda>k response. if k = 0 then itemsOf [[(''error'', JStr ''soft'')]] else countResponses response) = [[(''results'', JNum 0)]]"
  by (intro conjI) code_simp+

end
