(* ===== verification/EngineInvariant.thy ===== *)
theory EngineInvariant
  imports EngineRetry "HOL-Library.Sublist"
begin

text \<open>
  What every step of the engine keeps: the index of every recorded run is below the index the next node will
  get, and the runs a partial execution was planned with stay as they are, in front of those it adds.
\<close>

section \<open>Step systems\<close>

locale step_invariant =
  fixes step :: "'s \<Rightarrow> 's \<Rightarrow> bool" and invar :: "'s \<Rightarrow> bool"
  assumes preserved: "step s t \<Longrightarrow> invar s \<Longrightarrow> invar t"
begin

lemma reachable: "step\<^sup>*\<^sup>* s t \<Longrightarrow> invar s \<Longrightarrow> invar t"
  by (induction rule: rtranclp_induct) (auto intro: preserved)

end

section \<open>Indexes of runs\<close>

definition indexes_below :: "nat \<Rightarrow> IRunData \<Rightarrow> bool" where
  "indexes_below k rd \<longleftrightarrow> (\<forall>nm. \<forall>run \<in> set (list_get rd nm). \<forall>i. executionIndex run = Some i \<longrightarrow> i < k)"

lemma indexes_below_mono: "indexes_below k rd \<Longrightarrow> k \<le> l \<Longrightarrow> indexes_below l rd"
  by (fastforce simp: indexes_below_def)

lemma recordTask_below:
  assumes "indexes_below k rd" "\<And>i. executionIndex task = Some i \<Longrightarrow> i < k"
  shows "indexes_below k (recordTask nm r task rd)"
proof -
  have "i < k" if "run \<in> set ((list_get rd nm)[r := mergeTask (list_get rd nm ! r) task])" "executionIndex run = Some i" for run i
    using set_update_subset_insert [of "list_get rd nm" r "mergeTask (list_get rd nm ! r) task"] that assms
    by (auto simp: indexes_below_def mergeTask_def)
  with assms show ?thesis by (auto simp: indexes_below_def recordTask_def list_get_update Let_def)
qed

lemma rbind_InrE: "rbind m f = Inr y \<Longrightarrow> (\<And>x. m = Inr x \<Longrightarrow> f x = Inr y \<Longrightarrow> P) \<Longrightarrow> P"
  by (auto simp: rbind_eq_Inr)

section \<open>What the queue changes\<close>

text \<open>
  A relation between states that holds when entries without a run index of their own go to the stack, or
  when the waiting entries change, holds for everything the engine does with its queue.
\<close>

locale queue_relation =
  fixes R :: "RunExecution \<Rightarrow> RunExecution \<Rightarrow> bool"
  assumes same: "R st st"
    and trans: "R st st' \<Longrightarrow> R st' st'' \<Longrightarrow> R st st''"
    and stack: "ed_runIndex item = None \<Longrightarrow> set es \<subseteq> insert item (set (nodeExecutionStack st)) \<Longrightarrow>
      R st (st\<lparr>nodeExecutionStack := es\<rparr>)"
    and waiting: "R st (st\<lparr>waitingExecution := w, waitingExecutionSource := s\<rparr>)"
begin

lemma enqueue_rel: "ed_runIndex item = None \<Longrightarrow> R st (enqueue item st)"
  unfolding enqueue_def by (rule stack [of item]) auto

lemma prepare_rel: "R st (prepareWaitingToExecution nm k i st)"
  by (simp add: prepareWaitingToExecution_def waiting)

lemma create_rel: "R st (createNode nm st)"
  by (simp add: createNode_def waiting same)

lemma remove_rel: "R st (removeWaiting nm i st)"
  by (simp add: removeWaiting_def waiting Let_def)

lemma rfold_rel:
  "(\<And>x s s'. x \<in> set xs \<Longrightarrow> f x s = Inr s' \<Longrightarrow> R s s') \<Longrightarrow> rfold f xs st = Inr st' \<Longrightarrow> R st st'"
proof (induction xs arbitrary: st)
  case (Cons x xs)
  from Cons.prems(2) obtain s1 where s1: "f x st = Inr s1" "rfold f xs s1 = Inr st'"
    by (auto simp: rbind_eq_Inr)
  have "R st s1" by (rule Cons.prems(1) [OF _ s1(1)]) simp
  moreover have "R s1 st'" by (rule Cons.IH [OF _ s1(2)]) (rule Cons.prems(1); simp)
  ultimately show ?case by (rule trans)
qed (simp add: same)

lemma chooseEntry_rel: "chooseEntry c st = Inr (k, st') \<Longrightarrow> R st st'"
  unfolding chooseEntry_def Let_def by (erule rbind_InrE) (auto split: option.splits intro: same prepare_rel)

lemma storeInput_rel: "storeInput c k i p d r st = Inr st' \<Longrightarrow> R st st'"
  unfolding storeInput_def by (elim rbind_InrE) (auto intro: waiting)

lemma keepWaiting_rel: "keepWaiting c k i d st = Inr st' \<Longrightarrow> R st st'"
  unfolding keepWaiting_def Let_def
  by (elim rbind_InrE) (auto intro: trans [OF prepare_rel [of st] waiting])

lemma completeEntry_rel: "completeEntry c k st = Inr st' \<Longrightarrow> R st st'"
  by (auto simp: completeEntry_def split: option.splits intro: trans [OF enqueue_rel remove_rel])

lemma pullInput_rel: "pullInput i p d r outs nm st = Inr st' \<Longrightarrow> R st st'"
  unfolding pullInput_def Let_def rbind_def by (auto split: sum.splits option.splits if_splits intro: same enqueue_rel)

lemma checkInput_rel: "checkInput i p d r outs c st = Inr st' \<Longrightarrow> R st st'"
  unfolding checkInput_def Let_def rbind_def by (auto split: sum.splits if_splits dest: pullInput_rel intro: same)

lemma checkSiblings_rel: "checkSiblings c i p d r st = Inr st' \<Longrightarrow> R st st'"
  unfolding checkSiblings_def by (erule rbind_InrE) (auto split: option.splits elim!: rfold_rel [rotated] intro: checkInput_rel)

lemma addToWaiting_rel:
  assumes "addToWaiting c i p d r st = Inr st'"
  shows "R st st'"
proof -
  let ?last = "\<lambda>k s2 (cells :: INodeExecutionData list cell list). if Null \<notin> set cells then completeEntry c k s2
      else rbind (if map_of (waitingExecution st) (c_node c) \<noteq> None then Inr s2 else checkSiblings c i p d r s2)
        (keepWaiting c k i d)"
  from assms have "rbind (chooseEntry c (createNode (c_node c) st)) (\<lambda>(k, s1).
      rbind (storeInput c k i p d r s1) (\<lambda>s2. rbind (entryMain (waitingExecution s2) (c_node c) k) (?last k s2))) = Inr st'"
    by (simp only: addToWaiting_def Let_def)
  then obtain e where 1: "chooseEntry c (createNode (c_node c) st) = Inr e"
    "(\<lambda>(k, s1). rbind (storeInput c k i p d r s1) (\<lambda>s2. rbind (entryMain (waitingExecution s2) (c_node c) k) (?last k s2))) e = Inr st'"
    by (rule rbind_InrE)
  obtain k s1 where e: "e = (k, s1)" by force
  note s1 = 1(1) [unfolded e]
  from 1(2) [unfolded e prod.case] obtain s2 where s2: "storeInput c k i p d r s1 = Inr s2"
    "rbind (entryMain (waitingExecution s2) (c_node c) k) (?last k s2) = Inr st'" by (rule rbind_InrE)
  from s2(2) obtain cells where last: "?last k s2 cells = Inr st'" by (rule rbind_InrE)
  have "R st s2"
    using create_rel chooseEntry_rel [OF s1] storeInput_rel [OF s2(1)] by (blast intro: trans)
  moreover have "R s2 st'"
  proof (cases "Null \<in> set cells")
    case False
    with last show ?thesis by (simp add: completeEntry_rel)
  next
    case True
    with last have "rbind (if map_of (waitingExecution st) (c_node c) \<noteq> None then Inr s2 else checkSiblings c i p d r s2)
        (keepWaiting c k i d) = Inr st'" by (simp only: not_True_eq_False if_False)
    then obtain s3 where s3: "(if map_of (waitingExecution st) (c_node c) \<noteq> None then Inr s2 else checkSiblings c i p d r s2) = Inr s3"
      "keepWaiting c k i d s3 = Inr st'" by (rule rbind_InrE)
    from s3(1) have "R s2 s3" by (cases "map_of (waitingExecution st) (c_node c)") (simp_all add: checkSiblings_rel same)
    with keepWaiting_rel [OF s3(2)] show ?thesis by (blast intro: trans)
  qed
  ultimately show ?thesis by (rule trans)
qed

lemma addNodeToBeExecuted_rel: "addNodeToBeExecuted c i p d r None md st = Inr st' \<Longrightarrow> R st st'"
  by (auto simp: addNodeToBeExecuted_def addDirectly_def split: if_splits option.splits
    intro: addToWaiting_rel enqueue_rel same)

lemma scheduleNext_rel: "scheduleNext nm outs r st = Inr st' \<Longrightarrow> R st st'"
proof -
  assume run: "scheduleNext nm outs r st = Inr st'"
  have next': "addNext nm outs r ic s = Inr s' \<Longrightarrow> R s s'" for ic s s'
    by (auto simp: addNext_def split: prod.splits dest: addNodeToBeExecuted_rel)
  have legacy: "rbind (checkDestination s ic) (\<lambda>_. if receivesData s outs ic then addNext nm outs r ic s else Inr s) = Inr s'
      \<Longrightarrow> R s s'" for ic s s'
    by (erule rbind_InrE) (auto split: if_splits dest: next' intro: same)
  show ?thesis
  proof (cases "executionOrder st = Some ''v1''")
    case True
    with run have "scheduleV1 nm outs r st = Inr st'" by (simp add: scheduleNext_def)
    then have "rfold (\<lambda>n. addNext nm outs r (na_output n, na_connection n)) (sortNodesToAdd (nodesToAdd nm outs st)) st = Inr st'"
      unfolding scheduleV1_def by (rule rbind_InrE)
    then show ?thesis by (rule rfold_rel [rotated]) (rule next')
  next
    case False
    with run have "scheduleLegacy nm outs r st = Inr st'" by (simp add: scheduleNext_def)
    then show ?thesis unfolding scheduleLegacy_def by (rule rfold_rel [rotated]) (rule legacy)
  qed
qed

lemma startWaiting_rel:
  "startWaiting nodeTypes ws nm st = Inr (Started st') \<Longrightarrow> R st st'"
  "startWaiting nodeTypes ws nm st = Inr (Emptied st') \<Longrightarrow> R st st'"
proof -
  have push: "R st (removeWaiting nm k (st\<lparr>nodeExecutionStack := nodeExecutionStack st @ [item]\<rparr>))" if "ed_runIndex item = None" for k item
    by (rule trans [OF stack [OF that] remove_rel]) auto
  show "startWaiting nodeTypes ws nm st = Inr (Started st') \<Longrightarrow> R st st'"
    unfolding startWaiting_def Let_def
    by (auto split: option.splits if_splits elim!: rbind_InrE intro!: push)
  show "startWaiting nodeTypes ws nm st = Inr (Emptied st') \<Longrightarrow> R st st'"
    unfolding startWaiting_def Let_def
    by (auto split: option.splits if_splits elim!: rbind_InrE intro: remove_rel)
qed

lemma startWaitingNodes_rel: "startWaitingNodes nodeTypes ws rest st = Inr st' \<Longrightarrow> R st st'"
proof (induction nodeTypes ws rest st rule: startWaitingNodes.induct)
  case (1 nodeTypes ws st)
  then show ?case by (simp add: startWaitingNodes.simps same)
next
  case (2 nodeTypes ws nm rest st)
  note run = "2.prems" [unfolded startWaitingNodes.simps(2)]
  show ?case
  proof (cases "startWaiting nodeTypes ws nm st")
    case (Inl e)
    with run show ?thesis by simp
  next
    case (Inr w)
    show ?thesis
    proof (cases w)
      case TryNext
      with run Inr "2.IH"(1) show ?thesis by simp
    next
      case (Started s)
      with run Inr startWaiting_rel(1) show ?thesis by auto
    next
      case (Emptied s)
      have "R s st'" by (rule "2.IH"(2) [OF Inr Emptied]) (use run Inr Emptied in simp)
      with startWaiting_rel(2) [OF Inr [unfolded Emptied]] show ?thesis by (rule trans)
    qed
  qed
qed

text \<open>After a run the next nodes are scheduled, or the entry goes back to the stack of an execution that waits.\<close>

lemma afterSuccess_rel:
  assumes "afterSuccess env ed r outs ls = Inr res"
  shows "case res of Continue ls' \<Rightarrow> R (ls_exec ls) (ls_exec ls') | Stop ls' \<Rightarrow> ls_exec ls' = requeue ed (ls_exec ls)"
proof -
  have "R (ls_exec ls) st2"
    if 1: "scheduleNext nm outs r (ls_exec ls) = Inr st1" and
      2: "(if nodeExecutionStack st1 = [] then startWaitingNodes nt ws ws' st1 else Inr st1) = Inr st2" for nm nt ws ws' st1 st2
    using scheduleNext_rel [OF 1] 2 by (auto split: if_splits dest: startWaitingNodes_rel intro: trans)
  with assms show ?thesis
    unfolding afterSuccess_def Let_def by (auto split: if_splits elim!: rbind_InrE intro: same)
qed

end

section \<open>What the run of an entry changes\<close>

text \<open>
  A relation that also holds when the entry \<open>ed\<close> goes back to the stack, when it asks for other nodes to be
  run, and when its run is recorded at the index \<open>r\<close>, holds from the moment the entry was taken from the stack until
  the next one is taken.
\<close>

locale run_relation = queue_relation R for R +
  fixes ed :: IExecuteData and r i :: nat
  assumes waits: "R st (st\<lparr>waitTill := t\<rparr>)"
    and last: "R st (st\<lparr>lastNodeExecuted := nm\<rparr>)"
    and again: "set es \<subseteq> insert ed (set (nodeExecutionStack st)) \<Longrightarrow> R st (st\<lparr>nodeExecutionStack := es\<rparr>)"
    and request: "handleEngineRequest (ed_node ed) q r ed st = (st', e) \<Longrightarrow> R st st'"
    and recorded: "executionIndex task = Some i \<Longrightarrow>
      R st (st\<lparr>resultRunData := recordTask (name (ed_node ed)) r task (resultRunData st)\<rparr>)"
begin

lemma requeue_rel: "R st (requeue ed st)"
  unfolding requeue_def by (rule again) auto

lemma callNode_rel: "callNode env ed' resp ts = (x, ts') \<Longrightarrow> R (ts_exec ts) (ts_exec ts')"
  by (auto simp: callNode_def same waits split: option.splits)

lemma retryFailed_rel: "retryFailed env tries ed' k x ts = (y, k', ts') \<Longrightarrow> R (ts_exec ts) (ts_exec ts')"
proof (induction env tries ed' k x ts arbitrary: y k' ts' rule: retryFailed.induct)
  case (1 env tries ed' k x ts)
  show ?case
  proof (cases "nodeFailed x \<and> Suc k < tries")
    case False
    have "retryFailed env tries ed' k x ts = (x, k, ts)" by (subst retryFailed.simps) (simp only: False if_False)
    with "1.prems" show ?thesis by (simp add: same)
  next
    case True
    obtain z ts1 where z: "callNode env ed' makeEngineResponse ts = (z, ts1)" by force
    note run = "1.prems" [unfolded retryFailed.simps [of env tries ed' k] if_P [OF True] z prod.case]
    show ?thesis
    proof (cases z)
      case (Threw e)
      with run callNode_rel [OF z] show ?thesis by simp
    next
      case (Returned d)
      with run "1.IH"(1) [OF True z [symmetric] Returned] callNode_rel [OF z] show ?thesis by (auto intro: trans)
    next
      case (Requested q)
      with run "1.IH"(2) [OF True z [symmetric] Requested] callNode_rel [OF z] show ?thesis by (auto intro: trans)
    qed
  qed
qed

lemma finishTry_rel: "finishTry ed' (ts\<lparr>ts_data := d\<rparr>) = (res, ts') \<Longrightarrow> R (ts_exec ts) (ts_exec ts')"
  by (auto simp: finishTry_def Let_def same last split: sum.splits option.splits if_splits)

lemma runOnce_rel: "runOnce env tries ed r k ts = (res, k', ts') \<Longrightarrow> R (ts_exec ts) (ts_exec ts')"
proof -
  assume run: "runOnce env tries ed r k ts = (res, k', ts')"
  show ?thesis
  proof (cases "pinnedData (ts_exec ts) (ed_node ed)")
    case (Some items)
    with run show ?thesis by (auto simp: runOnce_def split: prod.splits dest: finishTry_rel)
  next
    case None
    let ?ts1 = "ts\<lparr>ts_response := collectResponses ed (resultRunData (ts_exec ts)) (ts_response ts)\<rparr>"
    obtain x ts2 where x: "callNode env ed (ts_response ?ts1) ?ts1 = (x, ts2)" by force
    obtain y k1 ts3 where y: "retryFailed env tries ed k x ts2 = (y, k1, ts3)" by (metis prod_cases3)
    from callNode_rel [OF x] retryFailed_rel [OF y] have 1: "R (ts_exec ts) (ts_exec ts3)" by (auto intro: trans)
    have run': "(case y of Threw e \<Rightarrow> (Failed e, k1, ts3)
        | Requested q \<Rightarrow> (case handleEngineRequest (ed_node ed) q r ed (ts_exec ts3) of
             (st, None) \<Rightarrow> (SkipNode, k1, ts3\<lparr>ts_exec := st\<rparr>) | (st, Some e) \<Rightarrow> (Failed (errorOf e), k1, ts3\<lparr>ts_exec := st\<rparr>))
        | Returned d \<Rightarrow> (case routeErrors env ed d of (d', Some e) \<Rightarrow> (Failed (errorOf e), k1, ts3\<lparr>ts_data := d'\<rparr>)
             | (d', None) \<Rightarrow> (case finishTry ed (ts3\<lparr>ts_data := d'\<rparr>) of (res, ts') \<Rightarrow> (res, k1, ts')))) = (res, k', ts')"
      using run None x y by (simp add: runOnce_def)
    have "R (ts_exec ts3) (ts_exec ts')"
      using run' by (auto split: NodeOutcome.splits prod.splits option.splits sum.splits
        dest: request finishTry_rel intro: same)
    with 1 show ?thesis by (rule trans)
  qed
qed

lemma tryLoop_rel: "tryLoop env tries ed r k ts = (goOn, ts') \<Longrightarrow> R (ts_exec ts) (ts_exec ts')"
proof (induction "tries - k" arbitrary: k ts rule: less_induct)
  case less
  let ?ts = "if k \<noteq> 0 then ts\<lparr>ts_error := None\<rparr> else ts"
  show ?case
  proof (cases "k < tries")
    case False
    with less.prems show ?thesis by (simp add: tryLoop.simps [of env tries ed r k] same)
  next
    case True
    obtain res k' ts1 where run: "runOnce env tries ed r k ?ts = (res, k', ts1)" by (metis prod_cases3)
    have "k \<le> k'" using runOnce_index [of k env tries ed r ?ts] run by simp
    with True have shorter: "tries - Suc k' < tries - k" by simp
    have e: "R (ts_exec ts) (ts_exec ts1)" using runOnce_rel [OF run] by (simp split: if_splits)
    note eq = less.prems [unfolded tryLoop.simps [of env tries ed r k] if_P [OF True] run prod.case]
    show ?thesis
    proof (cases res)
      case (Failed err)
      let ?s = "(ts_exec ts1)\<lparr>lastNodeExecuted := Some (name (ed_node ed))\<rparr>"
      have "R ?s (ts_exec ts')"
        using less.hyps [OF shorter, of "ts1\<lparr>ts_error := Some err, ts_exec := ?s\<rparr>"] eq Failed by simp
      with e last show ?thesis by (blast intro: trans)
    qed (use eq e in simp_all)
  qed
qed

lemma afterTries_rel:
  assumes "afterTries env i ed r data e ls = Inr res" "res = Continue ls' \<or> res = Stop ls'"
  shows "R (ls_exec ls) (ls_exec ls')"
proof -
  let ?st = "ls_exec ls" and ?n = "ed_node ed"
  let ?task = "newTask env i ed ?st e"
  let ?put = "\<lambda>t. ?st\<lparr>resultRunData := recordTask (name ?n) r t (resultRunData ?st)\<rparr>"
  have index: "executionIndex (failedTask ?n r err ?task rd) = Some i"
    "executionIndex (successTask ?n r outs ?task rd) = Some i" for err outs rd
    by (simp_all add: newTask_def failedTask_def successTask_def split: option.splits)
  show ?thesis
  proof (cases "e \<noteq> None \<and> \<not> continuesOnError ?n")
    case True
    then obtain err where e: "e = Some err" "continuesOnError ?n = False" by auto
    have "ls_exec ls' = requeue ed (?put (failedTask ?n r err ?task (resultRunData ?st)))"
      using assms(1,2) e by (auto simp: afterTries_def Let_def)
    with trans [OF recorded [OF index(1)] requeue_rel] show ?thesis by simp
  next
    case False
    have "rbind (mergeErrors (if e = None then data else passThrough ed data)) (\<lambda>outs. afterSuccess env ed r outs
        (ls\<lparr>ls_exec := ?put (successTask ?n r outs ?task (resultRunData ?st))\<rparr>)) = Inr res"
      using assms(1) False by (cases e; cases "continuesOnError ?n") (simp_all add: afterTries_def Let_def)
    then obtain outs where after: "afterSuccess env ed r outs
        (ls\<lparr>ls_exec := ?put (successTask ?n r outs ?task (resultRunData ?st))\<rparr>) = Inr res"
      by (rule rbind_InrE)
    have "R (?put (successTask ?n r outs ?task (resultRunData ?st))) (ls_exec ls')"
      using afterSuccess_rel [OF after] assms(2) by (auto split: LoopStep.splits simp: requeue_rel)
    with recorded [OF index(2)] show ?thesis by (rule trans)
  qed
qed

lemma runTop_rel:
  assumes "runTop env i ed r ls = Inr res" "res = Continue ls' \<or> res = Stop ls'"
  shows "R (ls_exec ls) (ls_exec ls')"
proof -
  let ?ts = "\<lparr>ts_exec = ls_exec ls, ts_calls = ls_calls ls, ts_response = makeEngineResponse, ts_data = Null, ts_error = None\<rparr>"
  obtain goOn ts where t: "tryLoop env (maxTriesOf (ed_node ed)) ed r 0 ?ts = (goOn, ts)" by force
  from tryLoop_rel [OF t] have 1: "R (ls_exec ls) (ts_exec ts)" by simp
  show ?thesis
  proof (cases goOn)
    case True
    with assms(1) t have "afterTries env i ed r (ts_data ts) (ts_error ts)
        (ls\<lparr>ls_exec := ts_exec ts, ls_calls := ts_calls ts, ls_error := ts_error ts\<rparr>) = Inr res"
      by (simp add: runTop_def Let_def)
    from afterTries_rel [OF this assms(2)] have "R (ts_exec ts) (ls_exec ls')" by simp
    with 1 show ?thesis by (rule trans)
  next
    case False
    with assms t 1 show ?thesis by (auto simp: runTop_def Let_def)
  qed
qed

lemma ensureInputData_rel: "ensureInputData n ed st = Inr (b, st') \<Longrightarrow> R st st'"
  unfolding ensureInputData_def by (erule rbind_InrE) (auto intro: same again split: if_splits)

lemma entry_rel:
  assumes "rbind (ensureInputData n ed st) (\<lambda>(b, st1). if b then runTop env i ed r (ls\<lparr>ls_exec := st1\<rparr>)
      else Inr (Continue (ls\<lparr>ls_exec := st1, ls_lastTry := t\<rparr>))) = Inr res"
    and "res = Continue ls' \<or> res = Stop ls'"
  shows "R st (ls_exec ls')"
proof -
  from assms(1) obtain b st1 where 1: "ensureInputData n ed st = Inr (b, st1)" and
    2: "(if b then runTop env i ed r (ls\<lparr>ls_exec := st1\<rparr>) else Inr (Continue (ls\<lparr>ls_exec := st1, ls_lastTry := t\<rparr>))) = Inr res"
    by (auto elim: rbind_InrE)
  have "R st1 (ls_exec ls')"
    using 2 assms(2) runTop_rel [of env "ls\<lparr>ls_exec := st1\<rparr>" res ls'] by (auto split: if_splits intro: same)
  with ensureInputData_rel [OF 1] show ?thesis by (rule trans)
qed

end

section \<open>Iterations\<close>

text \<open>The state after the entry at the top has been taken from the stack.\<close>

definition popped :: "RunExecution \<Rightarrow> RunExecution" where
  "popped st = st\<lparr>nodeExecutionStack := tl (nodeExecutionStack st),
     currentNodeExecutionIndex := Suc (currentNodeExecutionIndex st)\<rparr>"

text \<open>An iteration, also the last one, leaves the state as it is or runs the entry at the top.\<close>

lemma iteration_cases:
  assumes "iteration env ls = Inr res" "res = Continue ls' \<or> res = Stop ls'"
  obtains (same) "ls_exec ls' = ls_exec ls"
  | (run) e es where "nodeExecutionStack (ls_exec ls) = e # es"
      "\<And>R. run_relation R (e\<lparr>ed_data := setPairedItems e\<rparr>) (runIndexOf e (resultRunData (ls_exec ls)))
         (currentNodeExecutionIndex (ls_exec ls)) \<Longrightarrow> R (popped (ls_exec ls)) (ls_exec ls')"
proof (cases "nodeExecutionStack (ls_exec ls) = [] \<or> env_stopped env (currentNodeExecutionIndex (ls_exec ls)) \<noteq> None")
  case True
  with assms have "ls_exec ls' = ls_exec ls" by (auto simp: iteration_def Let_def split: list.splits)
  then show ?thesis by (rule that(1))
next
  case False
  then obtain e es where es: "nodeExecutionStack (ls_exec ls) = e # es" by (cases "nodeExecutionStack (ls_exec ls)") auto
  let ?i = "currentNodeExecutionIndex (ls_exec ls)" and ?st = "popped (ls_exec ls)"
  let ?ed = "e\<lparr>ed_data := setPairedItems e\<rparr>" and ?r = "runIndexOf e (resultRunData (ls_exec ls))"
  have st: "(ls_exec ls)\<lparr>nodeExecutionStack := es, currentNodeExecutionIndex := Suc ?i\<rparr> = ?st"
    "resultRunData ?st = resultRunData (ls_exec ls)" by (simp_all add: popped_def es)
  have "R ?st (ls_exec ls')" if R: "run_relation R ?ed ?r ?i" for R
  proof (cases "skipped ?st (ed_node e)")
    case True
    with assms es False st have "ls_exec ls' = ?st" by (auto simp: iteration_def Let_def split: if_splits)
    with R show ?thesis by (simp add: run_relation_def queue_relation_def)
  next
    case False
    let ?r' = "runIndexOf e (resultRunData ?st)"
    from False assms(1) es \<open>\<not> (_ \<or> _)\<close> st(1) have "rbind (ensureInputData (ed_node e) ?ed ?st) (\<lambda>(b, st1).
        if b then runTop env ?i ?ed ?r' ((ls\<lparr>ls_error := None\<rparr>)\<lparr>ls_exec := st1\<rparr>)
        else Inr (Continue ((ls\<lparr>ls_error := None\<rparr>)\<lparr>ls_exec := st1, ls_lastTry := tryName (name (ed_node e)) ?r'\<rparr>))) = Inr res"
      by (simp add: iteration_def Let_def split: if_splits)
    from run_relation.entry_rel [OF R this [unfolded st(2)] assms(2)] show ?thesis .
  qed
  with es show ?thesis by (rule that(2))
qed

section \<open>Invariants of the run of an entry\<close>

text \<open>
  What has to be shown of an invariant, and of the entries that go to the stack, so that it holds after every iteration.
  The entries scheduled for a request carry the index of the run they belong to.
\<close>

locale run_invariant =
  fixes invar :: "RunExecution \<Rightarrow> bool" and ok :: "IExecuteData \<Rightarrow> bool" and due :: "NodeToBeExecuted \<Rightarrow> bool"
    and ed :: IExecuteData and r i :: nat
  assumes stack: "invar st \<Longrightarrow> (\<And>x. x \<in> set es \<Longrightarrow> x \<in> set (nodeExecutionStack st) \<or> ok x) \<Longrightarrow>
      invar (st\<lparr>nodeExecutionStack := es\<rparr>)"
    and waiting: "invar st \<Longrightarrow> invar (st\<lparr>waitingExecution := w, waitingExecutionSource := s\<rparr>)"
    and waits: "invar st \<Longrightarrow> invar (st\<lparr>waitTill := t\<rparr>)"
    and last: "invar st \<Longrightarrow> invar (st\<lparr>lastNodeExecuted := nm\<rparr>)"
    and fresh: "ed_runIndex item = None \<Longrightarrow> ok item"
    and entry: "invar st \<Longrightarrow> ok ed"
    and action: "invar st \<Longrightarrow> getNode (workflow st) (ea_nodeName a) = Some m \<Longrightarrow>
      prepareAction n r ed a (name m) (resultRunData st) = (rd, nb, sub) \<Longrightarrow>
      due nb \<and> invar ((rewireNode m (ea_type a) st)\<lparr>resultRunData := rd\<rparr>)"
    and resuming: "invar st \<Longrightarrow> c_node (inputConnectionData nb) = name (ed_node ed) \<Longrightarrow> nodeRunIndex nb = r \<Longrightarrow> due nb"
    and scheduled: "invar st \<Longrightarrow> due nb \<Longrightarrow> getNode (workflow st) (c_node (inputConnectionData nb)) = Some (ed_node item) \<Longrightarrow>
      ed_runIndex item = Some (nodeRunIndex nb) \<Longrightarrow> ok item"
    and recorded: "invar st \<Longrightarrow> executionIndex task = Some i \<Longrightarrow>
      invar (st\<lparr>resultRunData := recordTask (name (ed_node ed)) r task (resultRunData st)\<rparr>)"

sublocale run_invariant \<subseteq> queue: queue_relation "\<lambda>st st'. invar st \<longrightarrow> invar st'"
  by unfold_locales (auto intro!: stack waiting dest: fresh)

context run_invariant begin

lemma prepareRequested_invar:
  "invar st \<Longrightarrow> prepareRequestedNodesForExecution n r ed actions st = (st', res) \<Longrightarrow>
    invar st' \<and> (\<forall>nbs subs. res = Inr (nbs, subs) \<longrightarrow> list_all due nbs)"
proof (induction actions arbitrary: st st' res)
  case (Cons a actions)
  show ?case
  proof (cases "getNode (workflow st) (ea_nodeName a)")
    case None
    with Cons.prems show ?thesis by auto
  next
    case (Some m)
    obtain rd nb sub where p: "prepareAction n r ed a (name m) (resultRunData st) = (rd, nb, sub)" by (metis prod_cases3)
    let ?s = "(rewireNode m (ea_type a) st)\<lparr>resultRunData := rd\<rparr>"
    from action [OF Cons.prems(1) Some p] have 1: "due nb" "invar ?s" by simp_all
    obtain s2 res2 where rec: "prepareRequestedNodesForExecution n r ed actions ?s = (s2, res2)" by force
    from Cons.IH [OF 1(2) rec] Cons.prems(2) Some p rec 1(1) show ?thesis by (cases res2) auto
  qed
qed auto

lemma handleRequest_invar:
  assumes "invar st" "handleRequest (ed_node ed) q r ed st = (st', res)"
  shows "invar st' \<and> (\<forall>nbs. res = Inr nbs \<longrightarrow> list_all due nbs)"
proof -
  obtain s1 x where 1: "prepareRequestedNodesForExecution (ed_node ed) r ed (rq_actions q) st = (s1, x)" by force
  note inv = prepareRequested_invar [OF assms(1) 1]
  show ?thesis
  proof (cases x)
    case (Inl e)
    with assms(2) 1 inv show ?thesis by (auto simp: handleRequest_def)
  next
    case (Inr y)
    obtain nbs subs where y: "y = (nbs, subs)" by force
    show ?thesis
    proof (cases "prepareRequestingNodeForResuming ed")
      case None
      with assms(2) 1 inv Inr y show ?thesis by (auto simp: handleRequest_def)
    next
      case (Some z)
      obtain c p md where z: "z = (c, p, md)" by (metis prod_cases3)
      with Some have c: "c_node c = name (ed_node ed)"
        by (auto simp: prepareRequestingNodeForResuming_def Let_def split: option.splits if_splits)
      have st': "st' = s1" and "\<exists>nb. res = Inr (nb # nbs) \<and> inputConnectionData nb = c \<and> nodeRunIndex nb = r"
        using assms(2) 1 Inr y Some z by (auto simp: handleRequest_def)
      then obtain nb where nb: "res = Inr (nb # nbs)" "inputConnectionData nb = c" "nodeRunIndex nb = r" by blast
      with inv Inr y st' c resuming [of s1 nb] show ?thesis by auto
    qed
  qed
qed

lemma scheduleRequested_invar:
  assumes "invar st" "due nb" "scheduleRequested nb st = Inr st'"
  shows "invar st'"
proof (cases "numberOfInputs st (c_node (inputConnectionData nb)) > 1")
  case True
  with assms(1,3) queue.addToWaiting_rel show ?thesis
    by (auto simp: scheduleRequested_def addNodeToBeExecuted_def)
next
  case False
  show ?thesis
  proof (cases "getNode (workflow st) (c_node (inputConnectionData nb))")
    case None
    with assms(1,3) False show ?thesis by (simp add: scheduleRequested_def addNodeToBeExecuted_def addDirectly_def)
  next
    case (Some m)
    obtain item where item: "ed_node item = m" "ed_runIndex item = Some (nodeRunIndex nb)" "st' = enqueue item st"
      using assms(3) False Some by (force simp: scheduleRequested_def addNodeToBeExecuted_def addDirectly_def)
    with scheduled [OF assms(1,2)] Some have "ok item" by simp
    with assms(1) show ?thesis unfolding item(3) enqueue_def by (intro stack) (auto split: if_splits)
  qed
qed

lemma scheduleAll_invar:
  "invar st \<Longrightarrow> list_all due nbs \<Longrightarrow> rfold scheduleRequested nbs st = Inr st' \<Longrightarrow> invar st'"
proof (induction nbs arbitrary: st)
  case (Cons nb nbs)
  from Cons.prems(3) obtain s1 where "scheduleRequested nb st = Inr s1" "rfold scheduleRequested nbs s1 = Inr st'"
    by (auto simp: rbind_eq_Inr)
  with Cons scheduleRequested_invar show ?case by auto
qed simp

lemma handleEngineRequest_invar:
  assumes "invar st" "handleEngineRequest (ed_node ed) q r ed st = (st', e)"
  shows "invar st'"
proof -
  obtain s1 res where 1: "handleRequest (ed_node ed) q r ed st = (s1, res)" by force
  from handleRequest_invar [OF assms(1) 1] 1 assms(2) scheduleAll_invar [of s1] show ?thesis
    by (auto simp: handleEngineRequest_def split: sum.splits)
qed

end

sublocale run_invariant \<subseteq> run: run_relation "\<lambda>st st'. invar st \<longrightarrow> invar st'"
proof unfold_locales
  fix es and st :: RunExecution assume "set es \<subseteq> insert ed (set (nodeExecutionStack st))"
  then show "invar st \<longrightarrow> invar (st\<lparr>nodeExecutionStack := es\<rparr>)" by (auto intro!: stack dest: entry)
qed (simp_all add: waits last handleEngineRequest_invar recorded)

context run_invariant begin

lemma keeps: "run_relation (\<lambda>st st'. invar st \<longrightarrow> invar st') ed r i"
  by unfold_locales

end

text \<open>After an iteration, also the last one, the invariant of the entry that was run holds, if one was.\<close>

lemma iteration_invar:
  assumes "iteration env ls = Inr res" "res = Continue ls' \<or> res = Stop ls'"
    and "\<And>e es. nodeExecutionStack (ls_exec ls) = e # es \<Longrightarrow>
      run_invariant (invar e) ok due (e\<lparr>ed_data := setPairedItems e\<rparr>) (runIndexOf e (resultRunData (ls_exec ls)))
        (currentNodeExecutionIndex (ls_exec ls)) \<and> invar e (popped (ls_exec ls))"
  shows "ls_exec ls' = ls_exec ls \<or> (\<exists>e. invar e (ls_exec ls'))"
  using assms(1,2)
proof (cases rule: iteration_cases)
  case (run e es)
  from assms(3) [OF run(1)] run(2) [OF run_invariant.keeps] show ?thesis by blast
qed simp

section \<open>Indexes stay below the next one\<close>

definition index_invar :: "nat \<Rightarrow> nat \<Rightarrow> RunExecution \<Rightarrow> bool" where
  "index_invar i k st \<longleftrightarrow> i < k \<and> currentNodeExecutionIndex st = k \<and> indexes_below k (resultRunData st)"

lemma prepareAction_runs:
  assumes "prepareAction n r ed a nm rd = (rd', nb, sub)"
  obtains task where "rd' = AList.update nm (list_get rd nm @ [task]) rd" "executionIndex task = Some 0"
    "c_node (inputConnectionData nb) = ea_nodeName a" "nodeRunIndex nb = length (list_get rd nm)"
  using assms by (auto simp: prepareAction_def initializeNodeRunData_def Let_def)

lemma rewireNode_runs [simp]:
  "resultRunData (rewireNode n t st) = resultRunData st"
  "currentNodeExecutionIndex (rewireNode n t st) = currentNodeExecutionIndex st"
  by (simp_all add: rewireNode_def Let_def)

interpretation indexes: run_invariant "index_invar i k" "\<lambda>ed. True" "\<lambda>nb. True" ed r i for i k ed r
proof unfold_locales
  fix st a n rd nb sub and m :: INode
  assume inv: "index_invar i k st" and p: "prepareAction n r ed a (name m) (resultRunData st) = (rd, nb, sub)"
  from p show "True \<and> index_invar i k ((rewireNode m (ea_type a) st)\<lparr>resultRunData := rd\<rparr>)"
    by (rule prepareAction_runs) (use inv in \<open>auto simp: index_invar_def indexes_below_def list_get_update\<close>)
next
  fix st and task :: ITaskData assume "index_invar i k st" "executionIndex task = Some i"
  then show "index_invar i k (st\<lparr>resultRunData := recordTask (name (ed_node ed)) r task (resultRunData st)\<rparr>)"
    by (auto simp: index_invar_def intro!: recordTask_below)
qed (auto simp: index_invar_def)

section \<open>Earlier runs stay as they are\<close>

text \<open>
  Every list of runs starts with the runs in \<open>base\<close>. The entries of the stack that have a run index of their own, the
  nodes an agent asked for and the agent itself, have one behind those runs; that the name of a node is the key
  it is stored under makes the index refer to the runs of that node.
\<close>

definition runs_kept :: "IRunData \<Rightarrow> IRunData \<Rightarrow> bool" where
  "runs_kept base rd \<longleftrightarrow> (\<forall>nm. prefix (list_get base nm) (list_get rd nm))"

definition named :: "Workflow \<Rightarrow> bool" where
  "named w \<longleftrightarrow> (\<forall>k n. map_of (wf_nodes w) k = Some n \<longrightarrow> name n = k)"

definition late :: "IRunData \<Rightarrow> IExecuteData \<Rightarrow> bool" where
  "late base ed \<longleftrightarrow> (\<forall>k. ed_runIndex ed = Some k \<longrightarrow> length (list_get base (name (ed_node ed))) \<le> k)"

definition late_request :: "IRunData \<Rightarrow> NodeToBeExecuted \<Rightarrow> bool" where
  "late_request base nb \<longleftrightarrow> length (list_get base (c_node (inputConnectionData nb))) \<le> nodeRunIndex nb"

definition safe :: "IRunData \<Rightarrow> RunExecution \<Rightarrow> bool" where
  "safe base st \<longleftrightarrow> runs_kept base (resultRunData st) \<and> named (workflow st) \<and> list_all (late base) (nodeExecutionStack st)"

definition safe_run :: "IRunData \<Rightarrow> IExecuteData \<Rightarrow> nat \<Rightarrow> RunExecution \<Rightarrow> bool" where
  "safe_run base ed r st \<longleftrightarrow> late base ed \<and> length (list_get base (name (ed_node ed))) \<le> r \<and> safe base st"

lemma runs_kept_length: "runs_kept base rd \<Longrightarrow> length (list_get base nm) \<le> length (list_get rd nm)"
  by (simp add: runs_kept_def prefix_length_le)

lemma prefix_list_update: "prefix xs ys \<Longrightarrow> length xs \<le> k \<Longrightarrow> prefix xs (ys[k := y])"
  by (auto simp: prefix_def list_update_append)

lemma runs_kept_record:
  "runs_kept base rd \<Longrightarrow> length (list_get base nm) \<le> r \<Longrightarrow> runs_kept base (recordTask nm r task rd)"
  by (simp add: runs_kept_def recordTask_def list_get_update Let_def prefix_list_update)

lemma runs_kept_push: "runs_kept base rd \<Longrightarrow> runs_kept base (AList.update nm (list_get rd nm @ [task]) rd)"
  by (simp add: runs_kept_def list_get_update)

lemma named_map:
  assumes "named w" "\<And>n. name (f n) = name n"
  shows "named (w\<lparr>wf_nodes := map (\<lambda>(k, m). (k, f m)) (wf_nodes w)\<rparr>)"
  using assms by (auto simp: named_def map_of_map)

lemma safe_rewire: "safe base st \<Longrightarrow> safe base (rewireNode m t st)"
  by (auto simp: safe_def rewireNode_def Let_def late_def list_all_iff intro!: named_map)

interpretation safety: run_invariant "safe_run base ed r" "late base" "late_request base" ed r i for base ed r i
proof unfold_locales
  fix st a n rd nb sub and m :: INode
  assume inv: "safe_run base ed r st" and m: "getNode (workflow st) (ea_nodeName a) = Some m"
    and p: "prepareAction n r ed a (name m) (resultRunData st) = (rd, nb, sub)"
  from inv m have nm: "name m = ea_nodeName a" by (simp add: safe_run_def safe_def named_def getNode_def)
  from p show "late_request base nb \<and> safe_run base ed r ((rewireNode m (ea_type a) st)\<lparr>resultRunData := rd\<rparr>)"
  proof (rule prepareAction_runs)
    fix task assume rd: "rd = AList.update (name m) (list_get (resultRunData st) (name m) @ [task]) (resultRunData st)"
      and nb: "c_node (inputConnectionData nb) = ea_nodeName a" "nodeRunIndex nb = length (list_get (resultRunData st) (name m))"
    from inv have kept: "runs_kept base (resultRunData st)" by (simp add: safe_run_def safe_def)
    with nb nm have "late_request base nb" by (simp add: late_request_def runs_kept_length)
    moreover from inv have "safe base (rewireNode m (ea_type a) st)" by (simp add: safe_run_def safe_rewire)
    ultimately show ?thesis using inv kept by (simp add: safe_run_def safe_def rd runs_kept_push)
  qed
next
  fix st nb and item :: IExecuteData
  assume "safe_run base ed r st" "late_request base nb"
    "getNode (workflow st) (c_node (inputConnectionData nb)) = Some (ed_node item)" "ed_runIndex item = Some (nodeRunIndex nb)"
  then show "late base item" by (auto simp: safe_run_def safe_def named_def getNode_def late_def late_request_def)
next
  fix st and task :: ITaskData assume "safe_run base ed r st"
  then show "safe_run base ed r (st\<lparr>resultRunData := recordTask (name (ed_node ed)) r task (resultRunData st)\<rparr>)"
    by (simp add: safe_run_def safe_def runs_kept_record)
qed (auto simp: safe_run_def safe_def late_def late_request_def list_all_iff)

section \<open>Reachable states\<close>

text \<open>One turn of the loop, the last one included.\<close>

definition turn :: "EngineEnv \<Rightarrow> LoopState \<Rightarrow> LoopState \<Rightarrow> bool" where
  "turn env ls ls' \<longleftrightarrow> iteration env ls = Inr (Continue ls') \<or> iteration env ls = Inr (Stop ls')"

definition indexed :: "LoopState \<Rightarrow> bool" where
  "indexed ls \<longleftrightarrow> indexes_below (currentNodeExecutionIndex (ls_exec ls)) (resultRunData (ls_exec ls))"

interpretation engine_index: step_invariant "turn env" indexed for env
proof unfold_locales
  fix ls ls' assume "turn env ls ls'" "indexed ls"
  then obtain res where it: "iteration env ls = Inr res" "res = Continue ls' \<or> res = Stop ls'" by (auto simp: turn_def)
  let ?i = "currentNodeExecutionIndex (ls_exec ls)"
  have "index_invar ?i (Suc ?i) (popped (ls_exec ls))"
    using \<open>indexed ls\<close> by (auto simp: index_invar_def popped_def indexed_def intro: indexes_below_mono)
  with iteration_invar [OF it, of "\<lambda>e. index_invar ?i (Suc ?i)"] indexes.run_invariant_axioms
  have "ls_exec ls' = ls_exec ls \<or> index_invar ?i (Suc ?i) (ls_exec ls')" by blast
  with \<open>indexed ls\<close> show "indexed ls'" by (auto simp: indexed_def index_invar_def)
qed

interpretation engine_safety: step_invariant "turn env" "\<lambda>ls. safe base (ls_exec ls)" for env base
proof unfold_locales
  fix ls ls' assume "turn env ls ls'" and safe: "safe base (ls_exec ls)"
  then obtain res where it: "iteration env ls = Inr res" "res = Continue ls' \<or> res = Stop ls'" by (auto simp: turn_def)
  let ?inv = "\<lambda>e. safe_run base (e\<lparr>ed_data := setPairedItems e\<rparr>) (runIndexOf e (resultRunData (ls_exec ls)))"
  have "?inv e (popped (ls_exec ls))" if "nodeExecutionStack (ls_exec ls) = e # es" for e es
    using safe that runs_kept_length [of base "resultRunData (ls_exec ls)"]
    by (auto simp: safe_run_def safe_def popped_def late_def runIndexOf_def split: option.splits)
  with iteration_invar [OF it, of ?inv] safety.run_invariant_axioms
  have "ls_exec ls' = ls_exec ls \<or> (\<exists>e. ?inv e (ls_exec ls'))" by blast
  with safe show "safe base (ls_exec ls')" by (auto simp: safe_run_def)
qed

lemma getNextExecutionIndex_below: "indexes_below (getNextExecutionIndex rd) rd"
proof -
  let ?prev = "List.map_filter executionIndex (concat (map snd rd))"
  have "i < getNextExecutionIndex rd" if "run \<in> set (list_get rd nm)" "executionIndex run = Some i" for nm run i
  proof -
    from that(1) obtain runs where "map_of rd nm = Some runs" "run \<in> set runs" by (cases "map_of rd nm") (auto simp: list_get_def)
    then have "run \<in> set (concat (map snd rd))" by (force dest: map_of_SomeD)
    with that(2) have i: "i \<in> set ?prev" by (auto simp: map_filter_def image_iff)
    then have ne: "?prev \<noteq> []" by (cases ?prev) simp_all
    then have "rd \<noteq> []" by (auto simp: map_filter_def)
    with ne have "getNextExecutionIndex rd = Max (insert 0 (set ?prev)) + 1" by (simp add: getNextExecutionIndex_def fold_max)
    moreover have "i \<le> Max (insert 0 (set ?prev))" using i by (intro Max_ge) auto
    ultimately show ?thesis by simp
  qed
  then show ?thesis by (simp add: indexes_below_def)
qed

text \<open>What a partial execution starts from.\<close>

definition fresh_stack :: "'a StackState_scheme \<Rightarrow> bool" where
  "fresh_stack st \<longleftrightarrow> list_all (\<lambda>ed. ed_runIndex ed = None) (nodeExecutionStack st)"

lemma rfold_keeps:
  "(\<And>x s s'. f x s = Inr s' \<Longrightarrow> P s \<Longrightarrow> P s') \<Longrightarrow> rfold f xs s = Inr s' \<Longrightarrow> P s \<Longrightarrow> P s'"
  by (induction xs arbitrary: s) (auto simp: rbind_eq_Inr)

lemma addGroup_fresh: "addGroup rd pd n grp st = Inr st' \<Longrightarrow> fresh_stack st \<Longrightarrow> fresh_stack st'"
proof -
  assume run: "addGroup rd pd n grp st = Inr st'" and fresh: "fresh_stack st"
  have wait: "addWaiting rd nm k c s = Inr s' \<Longrightarrow> fresh_stack s \<Longrightarrow> fresh_stack s'" for nm k c and s s' :: StackState
    by (auto simp: addWaiting_def fresh_stack_def rbind_eq_Inr split: option.splits)
  show ?thesis
  proof (cases "complete grp")
    case True
    with run fresh show ?thesis
      by (auto simp: addGroup_def fresh_stack_def executeData_def rbind_eq_Inr)
  next
    case False
    with run have "rfold (addWaiting rd (name n) (case map_of (waitingExecution st) (name n) of None \<Rightarrow> 0 | Some w \<Rightarrow> length w))
        (grp_connections grp) st = Inr st'" by (simp add: addGroup_def Let_def)
    then show ?thesis by (rule rfold_keeps [where P = fresh_stack, rotated]) (use wait fresh in simp_all)
  qed
qed

lemma addStartNode_fresh: "addStartNode cmp g rd pd n st = Inr st' \<Longrightarrow> fresh_stack st \<Longrightarrow> fresh_stack st'"
proof -
  assume run: "addStartNode cmp g rd pd n st = Inr st'" and fresh: "fresh_stack st"
  from run obtain parents :: "GraphConnection list" where p: "(let incoming = filter (\<lambda>c. conn_type c = Main) parents in
       if length incoming = 0 then Inr (st\<lparr>nodeExecutionStack := nodeExecutionStack st @ [executeData n [[plainItem []]] None]\<rparr>)
       else rfold (addGroup rd pd n) (getSourceDataGroups cmp g n rd pd) st) = Inr st'"
    unfolding addStartNode_def by (rule rbind_InrE)
  show ?thesis
  proof (cases "filter (\<lambda>c. conn_type c = Main) parents = []")
    case True
    with p fresh show ?thesis by (auto simp: fresh_stack_def executeData_def)
  next
    case False
    with p have "rfold (addGroup rd pd n) (getSourceDataGroups cmp g n rd pd) st = Inr st'" by (simp add: Let_def)
    then show ?thesis by (rule rfold_keeps [where P = fresh_stack, rotated]) (use addGroup_fresh fresh in simp_all)
  qed
qed

lemma planPartial_fresh:
  assumes "planPartial cmp g trigger destination rd pd dirty = Inr (sub, rd', stackState)"
  shows "fresh_stack stackState"
proof -
  from assms obtain g' starts rd2 where "recreateNodeExecutionStack cmp g' starts rd2 pd = Inr stackState"
    by (auto simp: planPartial_def elim!: rbind_InrE)
  then have "rfold (addStartNode cmp g' rd2 pd) starts emptyStack = Inr stackState"
    by (simp add: recreateNodeExecutionStack_def split: if_splits)
  then show ?thesis by (rule rfold_keeps [where P = fresh_stack, rotated]) (use addStartNode_fresh in \<open>simp_all add: fresh_stack_def emptyStack_def\<close>)
qed

lemma newWorkflow_named: "named (newWorkflow ns cs pd)"
proof -
  define P where "P m \<longleftrightarrow> (\<forall>k n. map_of m k = Some n \<longrightarrow> name n = k)" for m :: "(string \<times> INode) list"
  have "P (fold (\<lambda>n. AList.update (name n) n) ns [])"
  proof (rule fold_invariant [where Q = "\<lambda>n. True"])
    fix n and m assume "P m"
    then show "P (AList.update (name n) n m)" unfolding P_def update_conv' by (metis fun_upd_apply option.inject)
  qed (simp_all add: P_def)
  moreover have "wf_nodes (newWorkflow ns cs pd) = fold (\<lambda>n. AList.update (name n) n) ns []"
    by (simp add: newWorkflow_def setNodes_def setConnections_def setPinData_def)
  ultimately show ?thesis unfolding named_def P_def by (simp only:)
qed

lemma rewireTool_named: "rewireTool newRef isTool w d n g = Inr (g', w', n', d') \<Longrightarrow> named w \<Longrightarrow> named w'"
  by (auto simp: rewireTool_def toWorkflow_def newWorkflow_named split: if_splits option.splits elim!: rbind_InrE)

lemma runPartialWorkflow2_start:
  assumes "runPartialWorkflow2 cmp nodeTypes isTool newRef w order rd pd dirty d = Inr st" "named w"
  shows "indexed (startOfLoop st) \<and> safe (resultRunData st) st"
proof -
  from assms(1) obtain dest where "getNode w (dest_nodeName d) = Some dest"
    by (auto simp: runPartialWorkflow2_def split: option.splits)
  with assms(1) obtain g g1 w1 n1 d1 f trigger sub stackState rd1 where
    tool: "rewireTool newRef isTool w d dest g = Inr (g1, w1, n1, d1)" and
    plan: "planPartial cmp g1 trigger n1 rd pd dirty = Inr (sub, rd1, stackState)" and
    st: "st = createRunExecutionData w1 order (Some d1) f stackState rd1 (Some pd) (getNextExecutionIndex rd1)"
    by (auto simp: runPartialWorkflow2_def split: if_splits elim!: rbind_InrE)
  have "indexed (startOfLoop st)"
    by (simp add: st indexed_def startOfLoop_def createRunExecutionData_def newExecution_def getNextExecutionIndex_below)
  moreover have "list_all (late rd1) (nodeExecutionStack stackState)"
    using planPartial_fresh [OF plan] by (auto simp: fresh_stack_def late_def list_all_iff)
  then have "safe (resultRunData st) st"
    using rewireTool_named [OF tool assms(2)]
    by (simp add: st safe_def runs_kept_def createRunExecutionData_def newExecution_def)
  ultimately show ?thesis ..
qed

text \<open>C3: a partial execution never reuses an execution index and keeps the runs it was planned with: in every state the
  engine reaches and in the one it ends with, each recorded run has an index below the next one, and the runs of each node
  start with those the node had when the execution was planned, unchanged and in their order. Nodes are stored under
  their names, as the constructor of a workflow stores them.\<close>

theorem partial_execution_runs:
  assumes "runPartialWorkflow2 cmp nodeTypes isTool newRef w order rd pd dirty d = Inr st"
    and "\<forall>k n. map_of (wf_nodes w) k = Some n \<longrightarrow> name n = k"
    and "(engine_step env)\<^sup>*\<^sup>* (startOfLoop st) ls'"
    and "ls = ls' \<or> iteration env ls' = Inr (Stop ls)"
  shows "\<forall>nm. list_all (\<lambda>run. \<forall>i. executionIndex run = Some i \<longrightarrow> i < currentNodeExecutionIndex (ls_exec ls))
      (list_get (resultRunData (ls_exec ls)) nm) \<and>
    prefix (list_get (resultRunData st) nm) (list_get (resultRunData (ls_exec ls)) nm)"
proof -
  from assms(3) have "(turn env)\<^sup>*\<^sup>* (startOfLoop st) ls'"
    by (rule rtranclp_mono [THEN predicate2D, rotated]) (auto simp: turn_def engine_step_iff)
  with assms(4) have turns: "(turn env)\<^sup>*\<^sup>* (startOfLoop st) ls"
    by (auto simp: turn_def intro: rtranclp.rtrancl_into_rtrancl)
  from assms(2) have "named w" by (simp add: named_def)
  note start = runPartialWorkflow2_start [OF assms(1) this]
  from engine_index.reachable [OF turns] start
  have "indexes_below (currentNodeExecutionIndex (ls_exec ls)) (resultRunData (ls_exec ls))" by (simp add: indexed_def)
  moreover from engine_safety.reachable [OF turns, of "resultRunData st"] start
  have "runs_kept (resultRunData st) (resultRunData (ls_exec ls))" by (simp add: startOfLoop_def safe_def)
  ultimately show ?thesis by (simp add: indexes_below_def runs_kept_def list_all_iff)
qed

definition typesAB :: "INode \<Rightarrow> INodeType option" where
  "typesAB n = Some \<lparr>nt_name = node_type n, nt_trigger = (name n = ''A''), nt_poll = False, nt_group_trigger = (name n = ''A'')\<rparr>"

text \<open>A partial execution of \<open>B\<close> after its trigger \<open>A\<close> has run, and one step of it.\<close>

definition partialAB :: "js_error + RunExecution" where
  "partialAB = runPartialWorkflow2 codePointCompare typesAB (\<lambda>n. False) 9 wAB (Some ''v1'')
     [(''A'', [run_of [plainItem []]])] [] [] \<lparr>dest_nodeName = ''B'', dest_mode = Inclusive\<rparr>"

definition setItems :: EngineEnv where
  "setItems = envOf (\<lambda>k response. itemsOf [[]])"

definition stepped :: "js_error + RunExecution \<Rightarrow> LoopState option" where
  "stepped x = (case x of Inl _ \<Rightarrow> None | Inr st \<Rightarrow>
     (case iteration setItems (startOfLoop st) of Inr (Continue ls) \<Rightarrow> Some ls | _ \<Rightarrow> None))"

lemma stepped_step: "stepped x = Some ls \<Longrightarrow> \<exists>st. x = Inr st \<and> engine_step setItems (startOfLoop st) ls"
  by (auto simp: stepped_def split: sum.splits LoopStep.splits intro: engine_step.step)

lemma partial_execution_runs_witness:
  "\<exists>st ls run. partialAB = Inr st \<and> engine_step setItems (startOfLoop st) ls \<and>
     list_get (resultRunData (ls_exec ls)) ''B'' = [run] \<and> executionIndex run = Some 1 \<and>
     1 < currentNodeExecutionIndex (ls_exec ls) \<and> list_get (resultRunData st) ''A'' = [run_of [plainItem []]] \<and>
     prefix [run_of [plainItem []]] (list_get (resultRunData (ls_exec ls)) ''A'')"
proof -
  have "map_option (\<lambda>ls. map executionIndex (list_get (resultRunData (ls_exec ls)) ''B'')) (stepped partialAB) = Some [Some 1]"
    by code_simp
  then obtain ls run where ls: "stepped partialAB = Some ls" "list_get (resultRunData (ls_exec ls)) ''B'' = [run]"
    "executionIndex run = Some 1" by auto
  from stepped_step [OF ls(1)] obtain st where st: "partialAB = Inr st" "engine_step setItems (startOfLoop st) ls" by blast
  have "map_sum id (\<lambda>st. list_get (resultRunData st) ''A'') partialAB = Inr [run_of [plainItem []]]" by code_simp
  then have before: "list_get (resultRunData st) ''A'' = [run_of [plainItem []]]"
    by (simp only: st(1) map_sum.simps sum.inject)
  have "list_all (\<lambda>(k, n). name n = k) (wf_nodes wAB)" by code_simp
  then have named: "\<forall>k n. map_of (wf_nodes wAB) k = Some n \<longrightarrow> name n = k"
    by (auto simp: list_all_iff dest: map_of_SomeD)
  have steps: "(engine_step setItems)\<^sup>*\<^sup>* (startOfLoop st) ls" using st(2) by (rule r_into_rtranclp)
  note runs = partial_execution_runs [OF st(1) [unfolded partialAB_def] named steps disjI1 [OF refl], rule_format]
  from runs [of "''B''"] ls(2,3) have "1 < currentNodeExecutionIndex (ls_exec ls)" by simp
  with st ls(2,3) before conjunct2 [OF runs [of "''A''"]] show ?thesis by (intro exI conjI) simp_all
qed

end
