(* ===== verification/EngineQueue.thy ===== *)
theory EngineQueue
  imports EngineState WorkflowProps
begin

text \<open>
  What \<open>addNodeToBeExecuted\<close> guarantees: a node with several inputs waits until each has received
  data and is then put on the stack once, with the data of every input; and where it fails to.
\<close>

section \<open>Lemmas\<close>

lemma update_update_same: "AList.update k v (AList.update k u m) = AList.update k v m"
  by (induction m) auto

lemma delete_update_same: "AList.delete k (AList.update k v m) = AList.delete k m"
  by (induction m) (auto simp: AList.delete_eq)

lemma delete_absent: "map_of m k = None \<Longrightarrow> AList.delete k m = m"
  by (induction m) (auto simp: AList.delete_eq split: if_splits)

lemma obj_get_update_same [simp]: "obj_get (AList.update k v m) k = v"
  by (simp add: obj_get_update)

text \<open>The state in which the node \<open>nm\<close> has the waiting entries \<open>es\<close>, with the sources \<open>ss\<close>.\<close>

definition waitingFor :: "string \<Rightarrow> (nat \<times> ITaskDataConnections) list \<Rightarrow> (nat \<times> ITaskDataConnectionsSource) list
    \<Rightarrow> RunExecution \<Rightarrow> RunExecution" where
  "waitingFor nm es ss st = st\<lparr>waitingExecution := AList.update nm es (waitingExecution st),
     waitingExecutionSource := AList.update nm ss (waitingExecutionSource st)\<rparr>"

lemma waitingFor_sel [simp]:
  "workflow (waitingFor nm es ss st) = workflow st"
  "executionOrder (waitingFor nm es ss st) = executionOrder st"
  "resultRunData (waitingFor nm es ss st) = resultRunData st"
  "nodeExecutionStack (waitingFor nm es ss st) = nodeExecutionStack st"
  "numberOfInputs (waitingFor nm es ss st) n = numberOfInputs st n"
  "map_of (waitingExecution (waitingFor nm es ss st)) nm = Some es"
  "map_of (waitingExecutionSource (waitingFor nm es ss st)) nm = Some ss"
  "obj_get (waitingExecution (waitingFor nm es ss st)) nm = es"
  "obj_get (waitingExecutionSource (waitingFor nm es ss st)) nm = ss"
  by (simp_all add: waitingFor_def numberOfInputs_def amap.get_put)

lemma waitingFor_twice [simp]:
  "waitingFor nm es ss (waitingFor nm es' ss' st) = waitingFor nm es ss st"
  by (simp add: waitingFor_def update_update_same)

lemma createNode_fresh: "map_of (waitingExecution st) nm = None \<Longrightarrow> createNode nm st = waitingFor nm [] [] st"
  by (simp add: createNode_def waitingFor_def)

lemma createNode_known [simp]: "createNode nm (waitingFor nm es ss st) = waitingFor nm es ss st"
  by (simp add: createNode_def)

lemma prepareWaiting_waitingFor:
  "prepareWaitingToExecution nm k i (waitingFor nm es ss st) =
     waitingFor nm (AList.update i [(Main, replicate k Null)] es) (AList.update i [(Main, replicate k Null)] ss) st"
proof -
  have "obj_get (AList.update nm x m) nm = x" for x and m :: "(string \<times> ('c \<times> 'd) list) list" by simp
  then show ?thesis
    by (simp add: prepareWaitingToExecution_def resetEntry_def waitingFor_def update_update_same)
qed

lemma storeInput_waitingFor:
  assumes "map_of es i = Some [(Main, cells)]" "map_of ss i = Some [(Main, sources)]"
  shows "storeInput \<lparr>c_node = nm, c_type = t, c_index = j\<rparr> i outIndex parent (Some outs) r (waitingFor nm es ss st) =
    Inr (waitingFor nm (AList.update i [(Main, arr_set j (arr_get outs outIndex) cells)] es)
      (AList.update i [(Main, arr_set j (Val (sourceFrom parent outIndex r)) sources)] ss) st)"
proof -
  have es: "obj_get es i = [(Main, cells)]" and ss: "obj_get ss i = [(Main, sources)]"
    using assms by (simp_all add: obj_get_def)
  show ?thesis
    using assms es ss
    by (simp add: storeInput_def setEntryCell_def entryMain_def outputCell_def)
      (simp add: waitingFor_def update_update_same)
qed

lemma keepWaiting_waitingFor:
  assumes "map_of es i = Some [(Main, cells)]" "map_of ss i = Some [(Main, sources)]"
    and "arr_get cells j = arr_get outs outIndex" "j < length cells"
  shows "keepWaiting \<lparr>c_node = nm, c_type = t, c_index = j\<rparr> i outIndex (Some outs) (waitingFor nm es ss st) =
    Inr (waitingFor nm (AList.update i [(Main, cells)] es) (AList.update i [(Main, sources)] ss) st)"
proof -
  have "arr_set j (arr_get outs outIndex) cells = cells"
    using assms(3,4) by (simp add: arr_set_def arr_get_def list_update_same_conv)
  with assms(1,2) show ?thesis
    by (simp add: keepWaiting_def entryMain_def outputCell_def prepareWaiting_waitingFor update_update_same)
      (simp add: waitingFor_def update_update_same)
qed

lemma removeWaiting_last:
  assumes "map_of (waitingExecution st) nm = None" "map_of (waitingExecutionSource st) nm = None"
    and "map_of es i \<noteq> None" "length es = 1" "length ss = 1" "map_of ss i \<noteq> None"
  shows "removeWaiting nm i (waitingFor nm es ss st) = st"
proof -
  from assms(3,4) obtain d where e: "es = [(i, d)]" by (cases es) (auto split: if_splits)
  from assms(5,6) obtain s where s: "ss = [(i, s)]" by (cases ss) (auto split: if_splits)
  show ?thesis
    using assms(1,2) unfolding e s
    by (simp add: removeWaiting_def deleteEntry_def waitingFor_def update_update_same delete_update_same delete_absent)
qed

section \<open>Siblings in the execution order v1\<close>

text \<open>The destinations of the node are in the connections by destination, as
  \<open>mapConnectionsByDestination\<close> builds them.\<close>

definition siblingsReady :: "RunExecution \<Rightarrow> string \<Rightarrow> bool" where
  "siblingsReady st parent = (case map_of (connectionsBySourceNode (workflow st)) parent of
     None \<Rightarrow> False | Some m \<Rightarrow> list_all (\<lambda>c. mainInputs (workflow st) (c_node c) \<noteq> None) (flat (list_get m Main)))"

text \<open>No run has \<open>null\<close> instead of an output.\<close>

definition outputsPresent :: "IRunData \<Rightarrow> bool" where
  "outputsPresent rd = list_all (\<lambda>(nm, runs). list_all (\<lambda>run.
     case td_data run of None \<Rightarrow> True | Some d \<Rightarrow> list_all (\<lambda>c. c \<noteq> Null) (list_get d Main)) runs) rd"

lemma mainOutput_present: "outputsPresent rd \<Longrightarrow> mainOutput rd nm r i \<noteq> Null"
proof
  assume ok: "outputsPresent rd" and null: "mainOutput rd nm r i = Null"
  then obtain run d where run: "arr_at (list_get rd nm) r = Some run" "td_data run = Some d"
    "arr_get (list_get d Main) i = Null" unfolding mainOutput_def by (auto split: option.splits)
  then have mem: "run \<in> set (list_get rd nm)" "Null \<in> set (list_get d Main)"
    by (auto simp: arr_at_eq_Some arr_get_def split: if_splits) (metis nth_mem)
  from mem(1) obtain runs where "map_of rd nm = Some runs" "run \<in> set runs"
    by (cases "map_of rd nm") (auto simp: list_get_def)
  then have "(nm, runs) \<in> set rd" "run \<in> set runs" by (auto dest: map_of_SomeD)
  with ok run(2) mem(2) show False unfolding outputsPresent_def list_all_iff by fastforce
qed

lemma incomingConnectionIsEmpty_present:
  "outputsPresent rd \<Longrightarrow> incomingConnectionIsEmpty rd cs r =
     Inr (list_all (\<lambda>c. cell_or [] (mainOutput rd (c_node c) r (c_index c)) = []) cs)"
  by (induction cs) (auto simp: mainOutput_present split: cell.splits)

lemma checkInput_v1:
  assumes "executionOrder st = Some ''v1''" "outputsPresent (resultRunData st)"
    and "\<forall>x \<in> set outs. mainInputs (workflow st) x \<noteq> None"
  shows "checkInput outIndex parent data r outs i st = Inr st"
  using assms by (auto simp: checkInput_def Let_def isLegacyExecutionOrder_def firstInput_def
    incomingConnectionIsEmpty_present split: option.splits)

lemma checkSiblings_v1:
  assumes "executionOrder st = Some ''v1''" "outputsPresent (resultRunData st)"
    and "siblingsReady st parent" "mainInputs (workflow st) (c_node c) \<noteq> None"
  shows "checkSiblings c outIndex parent data r st = Inr st"
proof -
  from assms(3) obtain outs where outs: "checkOutputNodes st parent = Inr outs"
    "\<forall>x \<in> set outs. mainInputs (workflow st) x \<noteq> None"
    by (auto simp: siblingsReady_def checkOutputNodes_def list_all_iff split: option.splits)
  have "rfold (checkInput outIndex parent data r outs) xs st = Inr st" for xs
    by (induction xs) (simp_all add: checkInput_v1 [OF assms(1,2) outs(2)])
  with outs(1) assms(4) show ?thesis by (auto simp: checkSiblings_def)
qed

lemma siblingsReady_waitingFor: "siblingsReady (waitingFor nm es ss st) parent = siblingsReady st parent"
  unfolding siblingsReady_def waitingFor_sel by (rule refl)

section \<open>One arrival\<close>

record Arrival =
  a_input :: nat
  a_output :: nat
  a_parent :: string
  a_data :: "INodeExecutionData list cell list"
  a_run :: nat

definition arrive :: "string \<Rightarrow> Arrival \<Rightarrow> RunExecution \<Rightarrow> js_error + RunExecution" where
  "arrive nm a = addNodeToBeExecuted \<lparr>c_node = nm, c_type = Main, c_index = a_input a\<rparr>
     (a_output a) (a_parent a) (Some (a_data a)) (a_run a) None None"

definition a_cell :: "Arrival \<Rightarrow> INodeExecutionData list cell" where
  "a_cell a = arr_get (a_data a) (a_output a)"

definition a_source :: "Arrival \<Rightarrow> ISourceData cell" where
  "a_source a = Val (sourceFrom (a_parent a) (a_output a) (a_run a))"

lemma sort_single [simp]: "sort [x] = [x :: nat]"
  by (simp add: sort_key_def)

text \<open>The node has one waiting entry, and the input is still free there.\<close>

lemma arrive_waiting:
  fixes sources :: "ISourceData cell list"
  assumes "numberOfInputs st nm > 1"
    and free: "a_input a < length cells" "cells ! a_input a = Null" and val: "a_cell a \<noteq> Null"
  defines "cells' \<equiv> cells[a_input a := a_cell a]" and "sources' \<equiv> arr_set (a_input a) (a_source a) sources"
  shows "arrive nm a (waitingFor nm [(i, [(Main, cells)])] [(i, [(Main, sources)])] st) =
    (if Null \<in> set cells' then Inr (waitingFor nm [(i, [(Main, cells')])] [(i, [(Main, sources')])] st)
     else completeEntry \<lparr>c_node = nm, c_type = Main, c_index = a_input a\<rparr> i
       (waitingFor nm [(i, [(Main, cells')])] [(i, [(Main, sources')])] st))"
proof -
  let ?c = "\<lparr>c_node = nm, c_type = Main, c_index = a_input a\<rparr>"
  let ?s = "waitingFor nm [(i, [(Main, cells)])] [(i, [(Main, sources)])] st"
  let ?s' = "waitingFor nm [(i, [(Main, cells')])] [(i, [(Main, sources')])] st"
  have choose: "chooseEntry ?c ?s = Inr (i, ?s)"
    using free by (simp add: chooseEntry_def obj_get_def arr_get_def Let_def)
  have store: "storeInput ?c i (a_output a) (a_parent a) (Some (a_data a)) (a_run a) ?s = Inr ?s'"
    using storeInput_waitingFor [of "[(i, [(Main, cells)])]" i cells "[(i, [(Main, sources)])]" sources nm Main "a_input a"] free(1)
    by (simp add: cells'_def sources'_def a_cell_def a_source_def arr_set_def)
  have read: "entryMain (waitingExecution ?s') nm i = Inr cells'" by (simp add: entryMain_def)
  have keep: "keepWaiting ?c i (a_output a) (Some (a_data a)) ?s' = Inr ?s'"
    using keepWaiting_waitingFor [of "[(i, [(Main, cells')])]" i cells' "[(i, [(Main, sources')])]" sources' "a_input a"] free(1)
    by (simp add: cells'_def arr_get_def a_cell_def)
  show ?thesis
    using assms(1) by (simp add: arrive_def addNodeToBeExecuted_def addToWaiting_def choose store read keep)
qed

text \<open>The first arrival at a node that was not waiting.\<close>

lemma arrive_fresh:
  assumes "numberOfInputs st nm = k" "k > 1" "a_input a < k" "a_cell a \<noteq> Null"
    and "map_of (waitingExecution st) nm = None"
    and v1: "executionOrder st = Some ''v1''" "outputsPresent (resultRunData st)" "siblingsReady st (a_parent a)"
  defines "cells' \<equiv> (replicate k Null)[a_input a := a_cell a]"
    and "sources' \<equiv> (replicate k Null)[a_input a := a_source a]"
  shows "arrive nm a st = Inr (waitingFor nm [(0, [(Main, cells')])] [(0, [(Main, sources')])] st)"
proof -
  let ?c = "\<lparr>c_node = nm, c_type = Main, c_index = a_input a\<rparr>"
  let ?n = "[(0 :: nat, [(Main, replicate k Null)])]"
  let ?s' = "waitingFor nm [(0, [(Main, cells')])] [(0, [(Main, sources')])] st"
  have choose: "chooseEntry ?c (createNode nm st) = Inr (0, waitingFor nm ?n [(0, [(Main, replicate k Null)])] st)"
    using assms(1,5) by (simp add: createNode_fresh chooseEntry_def prepareWaiting_waitingFor sort_key_def)
  have store: "storeInput ?c 0 (a_output a) (a_parent a) (Some (a_data a)) (a_run a)
      (waitingFor nm ?n [(0, [(Main, replicate k Null)])] st) = Inr ?s'"
    using storeInput_waitingFor [of ?n 0 "replicate k Null" "[(0, [(Main, replicate k Null)])]" "replicate k Null" nm Main "a_input a"] assms(3)
    by (simp add: cells'_def sources'_def a_cell_def a_source_def arr_set_def)
  have read: "entryMain (waitingExecution ?s') nm 0 = Inr cells'" by (simp add: entryMain_def)
  have "cells' ! (if a_input a = 0 then 1 else 0) = Null" "(if a_input a = 0 then 1 else 0) < length cells'"
    using assms(2) by (auto simp: cells'_def)
  then have missing: "Null \<in> set cells'" by (metis nth_mem)
  have "mainInputs (workflow ?s') nm \<noteq> None"
    using assms(1,2) by (auto simp: numberOfInputs_def split: option.splits)
  then have sib: "checkSiblings ?c (a_output a) (a_parent a) (Some (a_data a)) (a_run a) ?s' = Inr ?s'"
    using v1 by (intro checkSiblings_v1) (simp_all add: siblingsReady_waitingFor)
  have keep: "keepWaiting ?c 0 (a_output a) (Some (a_data a)) ?s' = Inr ?s'"
    using keepWaiting_waitingFor [of "[(0, [(Main, cells')])]" 0 cells' "[(0, [(Main, sources')])]" sources' "a_input a"] assms(3)
    by (simp add: cells'_def arr_get_def a_cell_def)
  show ?thesis
    using assms(1,2,5) missing
    by (simp add: arrive_def addNodeToBeExecuted_def addToWaiting_def choose store read sib keep)
qed

section \<open>All arrivals\<close>

lemma enqueue_waitingFor: "enqueue item (waitingFor nm es ss st) = waitingFor nm es ss (enqueue item st)"
  by (simp add: enqueue_def waitingFor_def)

lemma completeEntry_waitingFor:
  assumes "getNode (workflow st) nm = Some n" "map_of (waitingExecution st) nm = None" "map_of (waitingExecutionSource st) nm = None"
  shows "completeEntry \<lparr>c_node = nm, c_type = t, c_index = j\<rparr> i (waitingFor nm [(i, d)] [(i, s)] st) =
    Inr (enqueue \<lparr>ed_node = n, ed_data = d, ed_source = Some s, ed_runIndex = None, ed_metadata = None\<rparr> st)"
proof -
  have "removeWaiting nm i (waitingFor nm [(i, d)] [(i, s)] (enqueue item st)) = enqueue item st" for item
    using assms(2,3) by (intro removeWaiting_last) (simp_all add: enqueue_def)
  with assms(1) show ?thesis by (simp add: completeEntry_def enqueue_waitingFor obj_get_def)
qed

definition fill :: "(Arrival \<Rightarrow> 'a) \<Rightarrow> Arrival list \<Rightarrow> 'a list \<Rightarrow> 'a list" where
  "fill f as xs = fold (\<lambda>a xs. xs[a_input a := f a]) as xs"

lemma length_fill [simp]: "length (fill f as xs) = length xs"
  unfolding fill_def by (induction as arbitrary: xs) simp_all

lemma nth_fill_other: "i \<notin> set (map a_input as) \<Longrightarrow> fill f as xs ! i = xs ! i"
  unfolding fill_def by (induction as arbitrary: xs) simp_all

lemma nth_fill:
  "distinct (map a_input as) \<Longrightarrow> set (map a_input as) \<subseteq> {..<length xs} \<Longrightarrow> a \<in> set as \<Longrightarrow>
     fill f as xs ! a_input a = f a"
proof (induction as arbitrary: xs)
  case (Cons b as)
  then show ?case
    using nth_fill_other [of "a_input b" as f "xs[a_input b := f b]"] by (auto simp: fill_def)
qed simp

lemma fill_Cons: "fill f (a # as) xs = fill f as (xs[a_input a := f a])"
  by (simp add: fill_def)

text \<open>From a state with one entry whose free inputs are those of the arrivals to come.\<close>

lemma arrivals_complete:
  assumes "getNode (workflow st) nm = Some n" "map_of (waitingExecution st) nm = None" "map_of (waitingExecutionSource st) nm = None"
    and "numberOfInputs st nm > 1"
  shows "distinct (map a_input as) \<Longrightarrow> as \<noteq> [] \<Longrightarrow> list_all (\<lambda>a. a_cell a \<noteq> Null) as \<Longrightarrow>
    {i. i < length cells \<and> cells ! i = Null} = set (map a_input as) \<Longrightarrow> length sources = length cells \<Longrightarrow>
    rfold (arrive nm) as (waitingFor nm [(i, [(Main, cells)])] [(i, [(Main, sources)])] st) =
      Inr (enqueue \<lparr>ed_node = n, ed_data = [(Main, fill a_cell as cells)], ed_source = Some [(Main, fill a_source as sources)],
        ed_runIndex = None, ed_metadata = None\<rparr> st)"
proof (induction as arbitrary: cells sources)
  case (Cons a as)
  let ?cells = "cells[a_input a := a_cell a]" and ?sources = "sources[a_input a := a_source a]"
  have in_free: "a_input a \<in> {i. i < length cells \<and> cells ! i = Null}" using Cons.prems(4) by simp
  then have free: "a_input a < length cells" "cells ! a_input a = Null" by simp_all
  have src: "arr_set (a_input a) (a_source a) sources = ?sources" using free(1) Cons.prems(5) by (simp add: arr_set_def)
  have val: "a_cell a \<noteq> Null" using Cons.prems(3) by simp
  note step = arrive_waiting [where i = i and sources = sources, OF assms(4) free val, unfolded src]
  have "{j. j < length ?cells \<and> ?cells ! j = Null} = {j. j < length cells \<and> cells ! j = Null} - {a_input a}"
    using free val by (auto simp: nth_list_update)
  also have "\<dots> = set (map a_input as)" unfolding Cons.prems(4) using Cons.prems(1) by auto
  finally have rest: "{j. j < length ?cells \<and> ?cells ! j = Null} = set (map a_input as)" .
  have null: "Null \<in> set ?cells \<longleftrightarrow> as \<noteq> []"
  proof -
    have "Null \<in> set ?cells \<longleftrightarrow> {j. j < length ?cells \<and> ?cells ! j = Null} \<noteq> {}"
      unfolding in_set_conv_nth by blast
    then show ?thesis unfolding rest by simp
  qed
  show ?case
  proof (cases "as = []")
    case True
    with step null completeEntry_waitingFor [OF assms(1-3)] show ?thesis by (simp add: fill_def)
  next
    case False
    have "rfold (arrive nm) as (waitingFor nm [(i, [(Main, ?cells)])] [(i, [(Main, ?sources)])] st) =
      Inr (enqueue \<lparr>ed_node = n, ed_data = [(Main, fill a_cell as ?cells)], ed_source = Some [(Main, fill a_source as ?sources)],
        ed_runIndex = None, ed_metadata = None\<rparr> st)"
      by (rule Cons.IH) (use Cons.prems rest False in simp_all)
    with step null False show ?thesis by (simp add: fill_Cons)
  qed
qed simp

lemma free_after_first:
  assumes "v \<noteq> Null"
  shows "{i. i < length ((replicate k Null)[x := v]) \<and> (replicate k Null)[x := v] ! i = Null} = {..<k} - {x}"
proof (rule set_eqI)
  fix i
  show "i \<in> {i. i < length ((replicate k Null)[x := v]) \<and> (replicate k Null)[x := v] ! i = Null} \<longleftrightarrow> i \<in> {..<k} - {x}"
    using assms by (cases "i < k"; cases "i = x") simp_all
qed

text \<open>C1: a node with several inputs is a join (execution order v1): when data arrives once for each input,
  in any order, the node goes on the stack exactly once, when the last input arrives, with the data and
  the source of every input at its index; nothing is left waiting and nothing else changes.\<close>

theorem addNodeToBeExecuted_joins:
  assumes "getNode (workflow st) nm = Some n" "numberOfInputs st nm = k" "k > 1"
    and "map_of (waitingExecution st) nm = None" "map_of (waitingExecutionSource st) nm = None"
    and "executionOrder st = Some ''v1''" "outputsPresent (resultRunData st)"
    and "distinct (map a_input as)" "set (map a_input as) = {..<k}"
    and "list_all (\<lambda>a. siblingsReady st (a_parent a) \<and> a_cell a \<noteq> Null) as"
  shows "\<exists>cells sources. rfold (arrive nm) as st = Inr (st\<lparr>nodeExecutionStack :=
        \<lparr>ed_node = n, ed_data = [(Main, cells)], ed_source = Some [(Main, sources)], ed_runIndex = None, ed_metadata = None\<rparr>
          # nodeExecutionStack st\<rparr>) \<and>
    length cells = k \<and> length sources = k \<and>
    list_all (\<lambda>a. cells ! a_input a = a_cell a \<and> sources ! a_input a = a_source a) as"
proof -
  from assms(3,9) obtain a rest where as: "as = a # rest" by (cases as) auto
  let ?cells = "(replicate k Null)[a_input a := a_cell a]" and ?sources = "(replicate k Null)[a_input a := a_source a]"
  have a: "a_input a < k" "a_cell a \<noteq> Null" "siblingsReady st (a_parent a)" using assms(9,10) unfolding as by auto
  have first: "arrive nm a st = Inr (waitingFor nm [(0, [(Main, ?cells)])] [(0, [(Main, ?sources)])] st)"
    by (rule arrive_fresh) (use assms a in simp_all)
  have new: "a_input a \<notin> set (map a_input rest)" using assms(8) unfolding as by simp
  have all: "{..<k} = insert (a_input a) (set (map a_input rest))" using assms(9) unfolding as by simp
  have "set (map a_input rest) = {..<k} - {a_input a}" unfolding all by (rule Diff_insert_absorb [OF new, symmetric])
  then have free: "{i. i < length ?cells \<and> ?cells ! i = Null} = set (map a_input rest)"
    by (simp only: free_after_first [OF a(2)])
  have "rest \<noteq> []"
  proof
    assume "rest = []"
    then have "card {..<k} = 1" unfolding all by simp
    with assms(3) show False by simp
  qed
  have many: "numberOfInputs st nm > 1" using assms(2,3) by simp
  have "rfold (arrive nm) rest (waitingFor nm [(0, [(Main, ?cells)])] [(0, [(Main, ?sources)])] st) =
      Inr (enqueue \<lparr>ed_node = n, ed_data = [(Main, fill a_cell rest ?cells)], ed_source = Some [(Main, fill a_source rest ?sources)],
        ed_runIndex = None, ed_metadata = None\<rparr> st)"
    by (rule arrivals_complete [OF assms(1,4,5) many]) (use assms(8,10) free \<open>rest \<noteq> []\<close> in \<open>simp_all add: as list_all_iff\<close>)
  then have "rfold (arrive nm) as st = Inr (enqueue \<lparr>ed_node = n, ed_data = [(Main, fill a_cell as (replicate k Null))],
      ed_source = Some [(Main, fill a_source as (replicate k Null))], ed_runIndex = None, ed_metadata = None\<rparr> st)"
    unfolding as rfold.simps(2) first rbind_simps(2) fill_Cons by assumption
  moreover have "list_all (\<lambda>a. fill a_cell as (replicate k Null) ! a_input a = a_cell a \<and>
      fill a_source as (replicate k Null) ! a_input a = a_source a) as"
    using assms(8,9) unfolding list_all_iff by (simp add: nth_fill)
  ultimately show ?thesis
    by (intro exI [of _ "fill a_cell as (replicate k Null)"] exI [of _ "fill a_source as (replicate k Null)"])
      (simp add: enqueue_def assms(6))
qed

text \<open>A node \<open>C\<close> with two inputs, fed by \<open>A\<close> and \<open>B\<close>.\<close>

definition toInput :: "string \<Rightarrow> nat \<Rightarrow> INodeConnections" where
  "toInput nm i = [(Main, [Val [\<lparr>c_node = nm, c_type = Main, c_index = i\<rparr>]])]"

definition mergeFlow :: Workflow where
  "mergeFlow = newWorkflow [plainNode 1 ''A'' ''set'', plainNode 2 ''B'' ''set'', plainNode 3 ''C'' ''merge'']
     [(''A'', toInput ''C'' 0), (''B'', toInput ''C'' 1)] None"

definition arrivalOf :: "nat \<Rightarrow> nat \<Rightarrow> INodeExecutionData list \<Rightarrow> Arrival" where
  "arrivalOf i r items = \<lparr>a_input = i, a_output = 0, a_parent = (if i = 0 then ''A'' else ''B''), a_data = [Val items], a_run = r\<rparr>"

lemma addNodeToBeExecuted_joins_witness:
  "\<exists>cells st. rfold (arrive ''C'') [arrivalOf 1 0 [plainItem []], arrivalOf 0 0 []] (newExecution mergeFlow (Some ''v1'')) = Inr st \<and>
     map ed_data (nodeExecutionStack st) = [[(Main, cells)]] \<and> cells ! 0 = Val [] \<and> cells ! 1 = Val [plainItem []]"
proof -
  let ?st = "newExecution mergeFlow (Some ''v1'')" and ?as = "[arrivalOf 1 0 [plainItem []], arrivalOf 0 0 []]"
  have 1: "getNode (workflow ?st) ''C'' = Some (plainNode 3 ''C'' ''merge'')" "numberOfInputs ?st ''C'' = 2" by code_simp+
  have 2: "map_of (waitingExecution ?st) ''C'' = None" "map_of (waitingExecutionSource ?st) ''C'' = None"
    "executionOrder ?st = Some ''v1''" "outputsPresent (resultRunData ?st)"
    by (simp_all add: newExecution_def outputsPresent_def)
  have 3: "distinct (map a_input ?as)" by (simp add: arrivalOf_def)
  have 4: "set (map a_input ?as) = {..<2}" by (auto simp: arrivalOf_def)
  have 5: "list_all (\<lambda>a. siblingsReady ?st (a_parent a) \<and> a_cell a \<noteq> Null) ?as" by code_simp
  have c: "a_input (arrivalOf i r x) = i" "a_cell (arrivalOf i r x) = Val x" for i r x
    by (simp_all add: arrivalOf_def a_cell_def arr_get_def)
  from addNodeToBeExecuted_joins [OF 1 _ 2 3 4 5] obtain cells sources where
    "rfold (arrive ''C'') ?as ?st = Inr (?st\<lparr>nodeExecutionStack :=
        \<lparr>ed_node = plainNode 3 ''C'' ''merge'', ed_data = [(Main, cells)], ed_source = Some [(Main, sources)],
          ed_runIndex = None, ed_metadata = None\<rparr> # nodeExecutionStack ?st\<rparr>)"
    "list_all (\<lambda>a. cells ! a_input a = a_cell a \<and> sources ! a_input a = a_source a) ?as" by auto
  then show ?thesis
    by (intro exI [of _ cells] exI) (auto simp: newExecution_def c)
qed

text \<open>The index of a new waiting entry is the number of entries, which need not be free. When input 0
  receives three runs and input 1 completes the first entry before the third arrives, the third run is
  written over the second: the data \<open>x1\<close> is neither on the stack nor waiting.\<close>

theorem addNodeToBeExecuted_overwrites_waiting:
  "map_sum id (\<lambda>st. (waitingExecution st, map ed_data (nodeExecutionStack st)))
     (rfold (arrive ''C'') [arrivalOf 0 0 x0, arrivalOf 0 1 x1, arrivalOf 1 0 y, arrivalOf 0 2 x2]
       (newExecution mergeFlow (Some ''v1''))) =
   Inr ([(''C'', [(1, [(Main, [Val x2, Null])])])], [[(Main, [Val x0, Val y])]])"
  by code_simp

end
