(* ===== verification/EngineProps.thy ===== *)
theory EngineProps
  imports EngineInvariant EngineQueue "HOL-Library.Multiset"
begin

text \<open>
  Properties of the main loop: what it puts on the stack and in which order, when it ends, what it does
  with waiting nodes, and what the result of an execution says.
\<close>

section \<open>The loop and its steps\<close>

inductive_cases engine_stopsE: "engine_stops env ls res"

lemma engine_stops_loop: "engine_stops env ls res \<Longrightarrow> \<exists>fuel. executionLoop env fuel ls = Some res"
proof (induction rule: engine_stops.induct)
  case (stop ls ls')
  then have "executionLoop env (Suc 0) ls = Some (Inr ls')" by simp
  then show ?case ..
next
  case (throw ls e)
  then have "executionLoop env (Suc 0) ls = Some (Inl e)" by simp
  then show ?case ..
next
  case (more ls ls' res)
  then obtain fuel where "executionLoop env fuel ls' = Some res" by blast
  with more.hyps(1) have "executionLoop env (Suc fuel) ls = Some res" by (simp add: engine_step_iff)
  then show ?case ..
qed

lemma loop_engine_stops: "executionLoop env fuel ls = Some res \<Longrightarrow> engine_stops env ls res"
proof (induction fuel arbitrary: ls)
  case (Suc fuel)
  then show ?case
    by (auto split: sum.splits LoopStep.splits intro: engine_stops.intros engine_step.step)
qed simp

lemma executionLoop_more_fuel: "executionLoop env n ls = Some res \<Longrightarrow> n \<le> m \<Longrightarrow> executionLoop env m ls = Some res"
proof (induction n arbitrary: ls m)
  case (Suc n)
  from Suc.prems(2) obtain m' where "m = Suc m'" "n \<le> m'" by (cases m) auto
  with Suc show ?case by (auto split: sum.splits LoopStep.splits)
qed simp

text \<open>The loop with fuel is the step relation: it returns a result for some fuel exactly when the steps
  from that state lead to it.\<close>

theorem executionLoop_iff_steps:
  "(\<exists>fuel. executionLoop env fuel ls = Some res) \<longleftrightarrow> engine_stops env ls res"
  using engine_stops_loop loop_engine_stops by blast

section \<open>Endless loops\<close>

definition forkFlow :: Workflow where
  "forkFlow = newWorkflow [plainNode 1 ''T'' ''set'', plainNode 2 ''A'' ''set'', plainNode 3 ''B'' ''set'']
     [(''T'', mainTo [[''A'', ''B'']])] None"

definition withoutData :: "nat \<Rightarrow> string \<Rightarrow> IExecuteData" where
  "withoutData r nm = (entryOf (plainNode r nm ''set'') None)\<lparr>ed_data := [(Main, [Null])]\<rparr>"

definition deferred :: "nat \<Rightarrow> IExecuteData list \<Rightarrow> string \<Rightarrow> LoopState" where
  "deferred k entries lastTry = (startOfLoop ((newExecution forkFlow None)\<lparr>nodeExecutionStack := entries,
     currentNodeExecutionIndex := k\<rparr>))\<lparr>ls_lastTry := lastTry\<rparr>"

lemma deferred_swap:
  "iteration setItems (deferred k [withoutData 2 ''A'', withoutData 3 ''B''] ''B:0'') =
     Inr (Continue (deferred (Suc k) [withoutData 3 ''B'', withoutData 2 ''A''] ''A:0''))"
  "iteration setItems (deferred k [withoutData 3 ''B'', withoutData 2 ''A''] ''A:0'') =
     Inr (Continue (deferred (Suc k) [withoutData 2 ''A'', withoutData 3 ''B''] ''B:0''))"
  by code_simp+

lemma deferred_forever:
  "executionLoop setItems fuel (deferred k [withoutData 2 ''A'', withoutData 3 ''B''] ''B:0'') = None \<and>
   executionLoop setItems fuel (deferred k [withoutData 3 ''B'', withoutData 2 ''A''] ''A:0'') = None"
  by (induction fuel arbitrary: k) (simp_all add: deferred_swap)

text \<open>The check against endless loops sees one node only. A single node without its input data is stopped
  at the second attempt; two such nodes take turns at the top of the stack and the engine never returns.\<close>

theorem endless_loop_check:
  "executionLoop setItems 2 (deferred k [withoutData 2 ''A''] []) =
     Some (Inl (ApplicationError ''Stopped execution because it seems to be in an endless loop'')) \<and>
   executionLoop setItems fuel (deferred k [withoutData 2 ''A'', withoutData 3 ''B''] ''B:0'') = None"
proof
  show "executionLoop setItems 2 (deferred k [withoutData 2 ''A''] []) =
     Some (Inl (ApplicationError ''Stopped execution because it seems to be in an endless loop''))" by code_simp
  show "executionLoop setItems fuel (deferred k [withoutData 2 ''A'', withoutData 3 ''B''] ''B:0'') = None"
    using deferred_forever by blast
qed

text \<open>In the legacy order an entry counts as complete although the array of its inputs is shorter than
  the number of inputs by one: the bound is compared with \<open><\<close>. With \<open>null\<close> in place of the missing element
  the same entry is put back.\<close>

theorem ensureInputData_off_by_one:
  "map_sum id fst (ensureInputData (plainNode 3 ''C'' ''merge'') (entryOf (plainNode 3 ''C'' ''merge'') None)
     (newExecution mergeFlow None)) = Inr True \<and>
   map_sum id fst (ensureInputData (plainNode 3 ''C'' ''merge'')
     ((entryOf (plainNode 3 ''C'' ''merge'') None)\<lparr>ed_data := [(Main, [Val [plainItem []], Null])]\<rparr>)
     (newExecution mergeFlow None)) = Inr False"
  by (intro conjI) code_simp+

section \<open>Top-left first\<close>

text \<open>The entry a connection from \<open>nm\<close> puts on the stack when its destination has one input.\<close>

definition nextEntry :: "RunExecution \<Rightarrow> string \<Rightarrow> INodeExecutionData list cell list \<Rightarrow> nat \<Rightarrow> nat \<times> IConnection \<Rightarrow> INode \<Rightarrow> IExecuteData" where
  "nextEntry st nm outs r = (\<lambda>(i, c) n. \<lparr>ed_node = n,
     ed_data = [(Main, arr_set (c_index c) (arr_get outs i) (replicate (Suc (c_index c)) Null))],
     ed_source = Some [(Main, [Val (sourceFrom nm i r)])], ed_runIndex = None, ed_metadata = None\<rparr>)"

definition destinationOf :: "RunExecution \<Rightarrow> nat \<times> IConnection \<Rightarrow> INode" where
  "destinationOf st = (\<lambda>(i, c). case getNode (workflow st) (c_node c) of Some n \<Rightarrow> n | None \<Rightarrow> plainNode 0 [] [])"

definition simpleTarget :: "RunExecution \<Rightarrow> nat \<times> IConnection \<Rightarrow> bool" where
  "simpleTarget st = (\<lambda>(i, c). getNode (workflow st) (c_node c) \<noteq> None \<and> numberOfInputs st (c_node c) \<le> 1)"

definition pushAll :: "IExecuteData list \<Rightarrow> RunExecution \<Rightarrow> RunExecution" where
  "pushAll es st = st\<lparr>nodeExecutionStack := rev es @ nodeExecutionStack st\<rparr>"

lemma addNext_simple:
  assumes "executionOrder st = Some ''v1''" "simpleTarget st ic"
  shows "addNext nm outs r ic (pushAll es st) = Inr (pushAll (es @ [nextEntry st nm outs r ic (destinationOf st ic)]) st)"
  using assms by (cases ic) (auto simp: addNext_def addNodeToBeExecuted_def simpleTarget_def numberOfInputs_def pushAll_def
    addDirectly_def enqueue_def nextEntry_def destinationOf_def outputCell_def)

lemma addNext_all:
  assumes "executionOrder st = Some ''v1''"
  shows "list_all (simpleTarget st) ics \<Longrightarrow>
    rfold (addNext nm outs r) ics (pushAll es st) = Inr (pushAll (es @ map (\<lambda>ic. nextEntry st nm outs r ic (destinationOf st ic)) ics) st)"
  by (induction ics arbitrary: es) (simp_all add: addNext_simple [OF assms])

lemma rmap_units: "list_all (\<lambda>x. f x = Inr ()) xs \<Longrightarrow> \<exists>us. rmap f xs = Inr us"
  by (induction xs) auto

definition targetKey :: "NodeToAdd \<Rightarrow> nat \<times> IConnection" where
  "targetKey n = (na_output n, na_connection n)"

lemma targetKey_nodesToAdd: "map targetKey (nodesToAdd nm outs st) = filter (receivesData st outs) (outgoing (workflow st) nm)"
  by (simp add: nodesToAdd_def targetKey_def o_def split_def)

lemma na_position_target:
  "n \<in> set (nodesToAdd nm outs st) \<Longrightarrow> list_all (simpleTarget st) (outgoing (workflow st) nm) \<Longrightarrow>
     na_position n = position (destinationOf st (targetKey n))"
  by (auto simp: nodesToAdd_def targetKey_def destinationOf_def simpleTarget_def list_all_iff split: option.splits)

lemma rfold_targetKey:
  "rfold (\<lambda>n. addNext nm outs r (na_output n, na_connection n)) ns st = rfold (addNext nm outs r) (map targetKey ns) st"
  by (induction ns arbitrary: st) (auto simp: targetKey_def rbind_def split: sum.splits)

text \<open>C2: in the order v1, when every destination of the node that ran exists and has at most one input, so that none has to
  wait for other data, the nodes that come next are at the top of the stack sorted by their position, from the top row
  down and from left to right in a row: exactly one entry for each connection that carries data, holding the data of its
  output, above what was on the stack.\<close>

theorem scheduleNext_top_left:
  assumes "executionOrder st = Some ''v1''" and "list_all (simpleTarget st) (outgoing (workflow st) nm)"
  shows "\<exists>added. scheduleNext nm outs r st = Inr (st\<lparr>nodeExecutionStack := added @ nodeExecutionStack st\<rparr>) \<and>
    mset added = image_mset (\<lambda>ic. nextEntry st nm outs r ic (destinationOf st ic))
      (mset (filter (receivesData st outs) (outgoing (workflow st) nm))) \<and>
    sorted (map (\<lambda>e. (snd (position (ed_node e)), fst (position (ed_node e)))) added)"
proof -
  let ?out = "outgoing (workflow st) nm" and ?ns = "nodesToAdd nm outs st"
  let ?sorted = "sortNodesToAdd ?ns" and ?entry = "\<lambda>ic. nextEntry st nm outs r ic (destinationOf st ic)"
  let ?added = "rev (map ?entry (map targetKey ?sorted))"
  have ms: "mset ?sorted = mset ?ns" by (simp add: sortNodesToAdd_def)
  have "list_all (\<lambda>ic. checkDestination st ic = Inr ()) ?out"
    using assms(2) by (auto simp: list_all_iff checkDestination_def simpleTarget_def)
  then obtain us where us: "rmap (checkDestination st) ?out = Inr us" using rmap_units by blast
  have keys: "mset (map targetKey ?sorted) = mset (filter (receivesData st outs) ?out)"
    by (simp flip: targetKey_nodesToAdd add: ms)
  then have "set (map targetKey ?sorted) \<subseteq> set ?out" by (metis filter_is_subset set_mset_mset)
  then have simple: "list_all (simpleTarget st) (map targetKey ?sorted)"
    using assms(2) unfolding list_all_iff by blast
  have "scheduleNext nm outs r st = rfold (addNext nm outs r) (map targetKey ?sorted) (pushAll [] st)"
    by (simp add: scheduleNext_def assms(1) scheduleV1_def us rfold_targetKey pushAll_def)
  also have "\<dots> = Inr (pushAll (map ?entry (map targetKey ?sorted)) st)"
    using addNext_all [OF assms(1) simple, of nm outs r "[]"] by simp
  finally have run: "scheduleNext nm outs r st = Inr (st\<lparr>nodeExecutionStack := ?added @ nodeExecutionStack st\<rparr>)"
    by (simp add: pushAll_def)
  have "mset ?added = image_mset ?entry (mset (map targetKey ?sorted))" by (simp only: mset_rev mset_map)
  then have content: "mset ?added = image_mset ?entry (mset (filter (receivesData st outs) ?out))" unfolding keys .
  have pos: "na_position n = position (ed_node (?entry (targetKey n)))" if "n \<in> set ?sorted" for n
    using that na_position_target [OF _ assms(2)] mset_eq_setD [OF ms] by (auto simp: nextEntry_def split: prod.splits)
  have "sorted (map (\<lambda>n. (- snd (na_position n), - fst (na_position n))) ?sorted)"
    unfolding sortNodesToAdd_def by (rule sorted_sort_key)
  then have "sorted_wrt (\<lambda>m n. (- snd (na_position m), - fst (na_position m)) \<le> (- snd (na_position n), - fst (na_position n))) ?sorted"
    unfolding sorted_map .
  then have "sorted_wrt (\<lambda>m n. (snd (na_position n), fst (na_position n)) \<le> (snd (na_position m), fst (na_position m))) ?sorted"
    by (rule sorted_wrt_mono_rel [rotated]) (auto simp: less_eq_prod_def)
  then have "sorted (rev (map (\<lambda>n. (snd (na_position n), fst (na_position n))) ?sorted))"
    by (simp add: sorted_wrt_rev sorted_wrt_map)
  moreover have "map (\<lambda>n. (snd (na_position n), fst (na_position n))) ?sorted =
      map (\<lambda>e. (snd (position (ed_node e)), fst (position (ed_node e)))) (map ?entry (map targetKey ?sorted))"
    using pos by simp
  ultimately have "sorted (map (\<lambda>e. (snd (position (ed_node e)), fst (position (ed_node e)))) ?added)"
    by (simp only: rev_map)
  with run content show ?thesis by (intro exI conjI)
qed

text \<open>A node \<open>T\<close> with two outputs into \<open>L\<close> (right of it, below) and \<open>R\<close> (above).\<close>

definition splitFlow :: Workflow where
  "splitFlow = newWorkflow [plainNode 1 ''T'' ''if'', (plainNode 2 ''L'' ''set'')\<lparr>position := (200, 300)\<rparr>,
     (plainNode 3 ''R'' ''set'')\<lparr>position := (200, 100)\<rparr>] [(''T'', mainTo [[''L''], [''R'']])] None"

lemma scheduleNext_top_left_witness:
  "\<exists>added. scheduleNext ''T'' [Val [plainItem []], Val [plainItem []]] 0 (newExecution splitFlow (Some ''v1'')) =
       Inr ((newExecution splitFlow (Some ''v1''))\<lparr>nodeExecutionStack := added\<rparr>) \<and>
     size (mset added) = 2 \<and>
     sorted (map (\<lambda>e. (snd (position (ed_node e)), fst (position (ed_node e)))) added)"
proof -
  let ?st = "newExecution splitFlow (Some ''v1'')" and ?outs = "[Val [plainItem []], Val [plainItem []]]"
  have 1: "executionOrder ?st = Some ''v1''" "list_all (simpleTarget ?st) (outgoing (workflow ?st) ''T'')" by code_simp+
  have 2: "length (filter (receivesData ?st ?outs) (outgoing (workflow ?st) ''T'')) = 2" by code_simp
  have 3: "nodeExecutionStack ?st = []" by (simp add: newExecution_def)
  from scheduleNext_top_left [OF 1, of ?outs 0] obtain added where a:
    "scheduleNext ''T'' ?outs 0 ?st = Inr (?st\<lparr>nodeExecutionStack := added @ nodeExecutionStack ?st\<rparr>)"
    "mset added = image_mset (\<lambda>ic. nextEntry ?st ''T'' ?outs 0 ic (destinationOf ?st ic))
      (mset (filter (receivesData ?st ?outs) (outgoing (workflow ?st) ''T'')))"
    "sorted (map (\<lambda>e. (snd (position (ed_node e)), fst (position (ed_node e)))) added)" by (elim exE conjE)
  have "size (mset added) = 2" unfolding a(2) size_image_mset size_mset by (rule 2)
  with a(1,3) show ?thesis unfolding 3 append_Nil2 by (intro exI conjI)
qed

section \<open>Nodes that wait\<close>

lemma nat_str_less_10: "k < 10 \<Longrightarrow> l < 10 \<Longrightarrow> nat_str k \<le> nat_str l \<longleftrightarrow> k \<le> l"
proof -
  have "\<forall>k \<in> set [0..<10]. \<forall>l \<in> set [0..<10]. nat_str k \<le> nat_str l \<longleftrightarrow> k \<le> l" by code_simp
  then show "k < 10 \<Longrightarrow> l < 10 \<Longrightarrow> nat_str k \<le> nat_str l \<longleftrightarrow> k \<le> l" by simp
qed

text \<open>Of several waiting runs the one with the smallest index is meant to be started first. That is so
  while the indexes have one digit; they are sorted as strings, so run 10 is started before run 2.\<close>

theorem firstRunIndex_lexicographic:
  "firstRunIndex [(2, x), (10, y)] = Some 10 \<and>
   (list_ex (\<lambda>(k, _). k \<ge> 10) entries \<or> entries = [] \<or> firstRunIndex entries = Some (Min (fst ` set entries)))"
proof
  have "nat_str 10 = ''10''" "nat_str 2 = ''2''" by code_simp+
  then have "sort_key nat_str [2, 10] = [10, 2]" by (simp add: sort_key_def)
  then show "firstRunIndex [(2, x), (10, y)] = Some 10" by (simp add: firstRunIndex_def)
  show "list_ex (\<lambda>(k, _). k \<ge> 10) entries \<or> entries = [] \<or> firstRunIndex entries = Some (Min (fst ` set entries))"
  proof (cases "list_ex (\<lambda>(k, _). k \<ge> 10) entries \<or> entries = []")
    case True
    then show ?thesis by blast
  next
    case False
    then have small: "\<not> list_ex (\<lambda>(k, _). k \<ge> 10) entries" and ne: "entries \<noteq> []" by blast+
    from ne obtain k ks where k: "sort_key nat_str (map fst entries) = k # ks"
      by (metis length_greater_0_conv length_map length_sort list.exhaust)
    have mem: "set (k # ks) = fst ` set entries" by (simp flip: k)
    have less: "l < 10" if "l \<in> fst ` set entries" for l using that small by (force simp: list_ex_iff)
    have "sorted (map nat_str (k # ks))" by (simp flip: k)
    then have "nat_str k \<le> nat_str l" if "l \<in> set ks" for l using that by simp
    moreover have "k < 10" by (rule less) (simp flip: mem)
    moreover have "l < 10" if "l \<in> set ks" for l by (rule less) (simp flip: mem add: that)
    ultimately have "k \<le> l" if "l \<in> set (k # ks)" for l
      using that nat_str_less_10 [of k l] by auto
    then have "Min (fst ` set entries) = k" by (intro Min_eqI) (auto simp flip: mem)
    then have "firstRunIndex entries = Some (Min (fst ` set entries))" by (simp add: firstRunIndex_def k)
    then show ?thesis by blast
  qed
qed

end
