(* ===== verification/EngineRuns.thy ===== *)
theory EngineRuns
  imports EngineProps
begin

text \<open>
  Whole executions: what the planning of a partial execution, the queue and the loop do together, and
  what the result of an execution says about it.
\<close>

section \<open>A merge in a partial execution\<close>

text \<open>\<open>C\<close> merges \<open>A\<close>, \<open>B\<close> and \<open>D\<close>, which all follow the trigger \<open>T\<close>.\<close>

definition mergeThree :: Workflow where
  "mergeThree = newWorkflow [plainNode 1 ''T'' ''set'', plainNode 2 ''A'' ''set'', plainNode 3 ''B'' ''set'',
       plainNode 4 ''D'' ''set'', plainNode 5 ''C'' ''merge'']
     [(''T'', mainTo [[''A'', ''B'', ''D'']]), (''A'', toInput ''C'' 0), (''B'', toInput ''C'' 1), (''D'', toInput ''C'' 2)] None"

definition typesT :: "INode \<Rightarrow> INodeType option" where
  "typesT n = Some \<lparr>nt_name = node_type n, nt_trigger = (name n = ''T''), nt_poll = False, nt_group_trigger = (name n = ''T'')\<rparr>"

text \<open>For each run of \<open>nm\<close> the nodes its inputs came from (\<open>None\<close> for an input without data).\<close>

definition sourcesOf :: "string \<Rightarrow> js_error + RunExecution \<Rightarrow> string option list list option" where
  "sourcesOf nm start = (case start of Inl _ \<Rightarrow> None
   | Inr st \<Rightarrow> (case processRunExecutionData setItems (\<lambda>n pinned. None) 20 st of
       Some (Inr r) \<Rightarrow> Some (map (\<lambda>run. map (\<lambda>c. map_option previousNode (cell_opt c)) (source run))
         (list_get (resultRunData (rr_data r)) nm))
     | _ \<Rightarrow> None))"

text \<open>A partial execution can run a merge on part of its inputs. A full execution runs \<open>C\<close> once, on the data
  of \<open>A\<close>, \<open>B\<close> and \<open>D\<close>. When \<open>A\<close> has run before, the recreated waiting entry of \<open>C\<close> is an array that ends with
  the data of \<open>A\<close>; after \<open>B\<close> it has no \<open>null\<close>, so \<open>C\<close> runs without \<open>D\<close>, and then again on \<open>D\<close> alone.\<close>

theorem partial_execution_runs_merge_early:
  "sourcesOf ''C'' (runWorkflow typesT mergeThree (Some ''v1'') None None None None [] 0) =
     Some [[Some ''A'', Some ''B'', Some ''D'']] \<and>
   sourcesOf ''C'' (runPartialWorkflow2 codePointCompare typesT (\<lambda>n. False) 9 mergeThree (Some ''v1'')
       [(''T'', [run_of [plainItem []]]), (''A'', [run_of [plainItem []]])] [] []
       \<lparr>dest_nodeName = ''C'', dest_mode = Inclusive\<rparr>) =
     Some [[Some ''A'', Some ''B''], [None, None, Some ''D'']]"
  by (intro conjI) code_simp+

section \<open>The result\<close>

lemma cancellation_status: "finalStatus (Some (cancellation r)) st = Canceled"
proof -
  have "containsText ''Cancelled'' ''TimeoutExecutionCancelledError''" "containsText ''Cancelled'' ''ManualExecutionCancelledError''"
    by code_simp+
  then show ?thesis by (cases r) (simp_all add: finalStatus_def cancellation_def)
qed

text \<open>The status of an execution whose loop has ended.\<close>

lemma endOfLoop_status:
  "(rr_status (endOfLoop env ls) = Success \<longleftrightarrow> ls_error ls = None \<and> stopReason env ls = None \<and> waitTill (ls_exec ls) = None) \<and>
   rr_finished (endOfLoop env ls) = (rr_status (endOfLoop env ls) = Success) \<and>
   (rr_status (endOfLoop env ls) = Waiting \<longleftrightarrow> ls_error ls = None \<and> stopReason env ls = None \<and> waitTill (ls_exec ls) \<noteq> None) \<and>
   (rr_status (endOfLoop env ls) = Canceled \<longleftrightarrow> (case ls_error ls of
      Some e \<Rightarrow> containsText ''canceled'' (err_message e) \<or> containsText ''Cancelled'' (err_name e)
    | None \<Rightarrow> stopReason env ls \<noteq> None))"
proof (cases "ls_error ls")
  case (Some e)
  then show ?thesis by (simp add: endOfLoop_def processSuccessExecution_def Let_def finalStatus_def)
next
  case None
  show ?thesis
  proof (cases "stopReason env ls")
    case (Some r)
    with None show ?thesis by (simp add: endOfLoop_def processSuccessExecution_def Let_def cancellation_status)
  next
    case stopped: None
    with None show ?thesis by (simp add: endOfLoop_def processSuccessExecution_def Let_def finalStatus_def)
  qed
qed

text \<open>Why a loop stops.\<close>

definition stopsFor :: "LoopState \<Rightarrow> bool" where
  "stopsFor ls \<longleftrightarrow> nodeExecutionStack (ls_exec ls) = [] \<or> ls_stopped ls \<noteq> None \<or> ls_error ls \<noteq> None \<or> waitTill (ls_exec ls) \<noteq> None"

lemma afterSuccess_stops: "afterSuccess env ed r outs ls = Inr (Stop ls') \<Longrightarrow> stopsFor ls'"
  by (auto simp: afterSuccess_def Let_def rbind_eq_Inr stopsFor_def requeue_def split: if_splits)

lemma afterTries_stops: "afterTries env i ed r data e ls = Inr (Stop ls') \<Longrightarrow> ls_error ls = e \<Longrightarrow> stopsFor ls'"
  by (cases e; cases "continuesOnError (ed_node ed)")
    (auto simp: afterTries_def Let_def rbind_eq_Inr stopsFor_def dest: afterSuccess_stops [unfolded stopsFor_def])

lemma runTop_stops: "runTop env i ed r ls = Inr (Stop ls') \<Longrightarrow> stopsFor ls'"
  by (auto simp: runTop_def Let_def split: prod.splits if_splits dest!: afterTries_stops)

lemma iteration_stops: "iteration env ls = Inr (Stop ls') \<Longrightarrow> stopsFor ls'"
  by (auto simp: iteration_def Let_def rbind_eq_Inr stopsFor_def split: list.splits if_splits
    dest: runTop_stops [unfolded stopsFor_def])

lemma executionLoop_stops: "executionLoop env fuel ls = Some (Inr ls') \<Longrightarrow> stopsFor ls'"
  by (induction fuel arbitrary: ls) (auto split: sum.splits LoopStep.splits dest: iteration_stops)

lemma moveNodeMetadata_frame [simp]:
  "nodeExecutionStack (moveNodeMetadata st) = nodeExecutionStack st" "waitTill (moveNodeMetadata st) = waitTill st"
  "currentNodeExecutionIndex (moveNodeMetadata st) = currentNodeExecutionIndex st"
  by (simp_all add: moveNodeMetadata_def split: option.split)

lemma endOfLoop_frame:
  "nodeExecutionStack (rr_data (endOfLoop env ls)) = nodeExecutionStack (ls_exec ls)"
  "waitTill (rr_data (endOfLoop env ls)) = waitTill (ls_exec ls)"
  "currentNodeExecutionIndex (rr_data (endOfLoop env ls)) = currentNodeExecutionIndex (ls_exec ls)"
  by (simp_all add: endOfLoop_def processSuccessExecution_def Let_def split: option.split)

text \<open>C10: An execution is finished exactly when its status is a success, and then nothing was left to do: the stack is empty,
  no node put the execution to wait, and the user had not cancelled it when the loop ended, not even while its last node ran.\<close>

theorem finished_executions:
  assumes "processRunExecutionData env parameterIssues fuel st = Some (Inr r)"
  shows "(rr_finished r \<longleftrightarrow> rr_status r = Success) \<and>
    (rr_finished r \<longrightarrow> nodeExecutionStack (rr_data r) = [] \<and> waitTill (rr_data r) = None \<and>
       env_stopped env (currentNodeExecutionIndex (rr_data r)) \<noteq> Some CancelledByUser)"
proof -
  obtain ls where ls: "stopsFor ls" "r = endOfLoop env ls"
    using assms executionLoop_stops [of env fuel]
    by (auto simp: processRunExecutionData_def split: if_splits sum.splits) (metis Inl_Inr_False map_sum.simps(1) map_sum.simps(2) old.sum.exhaust sum.inject(2))
  note e = endOfLoop_status [of env ls]
  have "nodeExecutionStack (ls_exec ls) = [] \<and> waitTill (ls_exec ls) = None \<and>
      env_stopped env (currentNodeExecutionIndex (ls_exec ls)) \<noteq> Some CancelledByUser" if "rr_status r = Success"
  proof -
    from e that ls(2) have s: "ls_error ls = None" "stopReason env ls = None" "waitTill (ls_exec ls) = None" by simp_all
    then show ?thesis using ls(1) by (auto simp: stopsFor_def stopReason_def split: option.splits if_splits)
  qed
  with e ls(2) show ?thesis by (simp add: endOfLoop_frame)
qed

text \<open>\<open>A\<close> and then \<open>B\<close>, both set to go on after an error; call \<open>k\<close> fails with the message \<open>msg\<close>.\<close>

definition continueAB :: Workflow where
  "continueAB = newWorkflow [(plainNode 1 ''A'' ''set'')\<lparr>continueOnFail := Some True\<rparr>,
     (plainNode 2 ''B'' ''set'')\<lparr>continueOnFail := Some True\<rparr>] [(''A'', mainTo [[''B'']])] None"

definition failing :: "nat \<Rightarrow> string \<Rightarrow> EngineEnv" where
  "failing k msg = envOf (\<lambda>i response. if i = k then Threw \<lparr>err_name = ''Error'', err_message = msg\<rparr> else itemsOf [[]])"

definition statusOf :: "EngineEnv \<Rightarrow> Workflow \<Rightarrow> ExecutionStatus option" where
  "statusOf env w = (case runWorkflow typesAB w (Some ''v1'') None None None None [] 0 of Inl _ \<Rightarrow> None
   | Inr st \<Rightarrow> (case processRunExecutionData env (\<lambda>n pinned. None) 20 st of Some (Inr r) \<Rightarrow> Some (rr_status r) | _ \<Rightarrow> None))"

lemma finished_executions_witness:
  "\<exists>st r. runWorkflow typesAB continueAB (Some ''v1'') None None None None [] 0 = Inr st \<and>
     processRunExecutionData (failing 0 ''boom'') (\<lambda>n pinned. None) 20 st = Some (Inr r) \<and>
     rr_finished r \<and> nodeExecutionStack (rr_data r) = []"
proof -
  have "statusOf (failing 0 ''boom'') continueAB = Some Success" by code_simp
  then obtain st r where r: "runWorkflow typesAB continueAB (Some ''v1'') None None None None [] 0 = Inr st"
    "processRunExecutionData (failing 0 ''boom'') (\<lambda>n pinned. None) 20 st = Some (Inr r)" "rr_status r = Success"
    by (auto simp: statusOf_def split: sum.splits option.splits)
  from finished_executions [OF r(2)] r show ?thesis by auto
qed

text \<open>A user who cancels while the last node runs gets a cancelled execution, although no iteration looks at it.\<close>

definition cancelledAt :: "nat \<Rightarrow> EngineEnv" where
  "cancelledAt k = setItems\<lparr>env_stopped := (\<lambda>i. if k \<le> i then Some CancelledByUser else None)\<rparr>"

lemma cancelled_in_last_node:
  "statusOf (cancelledAt 2) continueAB = Some Canceled" "statusOf (cancelledAt 3) continueAB = Some Success"
  by code_simp+

text \<open>An error after which the workflow goes on counts only in the last node: \<open>executionError\<close> is reset by
  the next node but still set when the loop ends, so the same error gives a success in \<open>A\<close> and a failed
  execution in \<open>B\<close>. And a failed node whose message contains ``canceled'' makes a cancelled execution.\<close>

theorem status_of_continued_errors:
  "statusOf (failing 0 ''boom'') continueAB = Some Success \<and>
   statusOf (failing 1 ''boom'') continueAB = Some ErrorStatus \<and>
   statusOf (failing 1 ''boom'') wAB = Some ErrorStatus \<and>
   statusOf (failing 1 ''order canceled'') wAB = Some Canceled"
  by (intro conjI) code_simp+

section \<open>Resuming an execution that waits\<close>

text \<open>A resumed execution does not run the waiting node again: the node at the top of the stack is
  disabled, so whatever its implementation is its main input is passed through, the run it left when it
  began to wait is taken back, and the execution waits no longer.\<close>

theorem handleWaitingState_skips_node:
  assumes "handleWaitingState st = Inr st'" and "waitTill st \<noteq> None" and "lastNodeExecuted st = Some nm"
  shows "waitTill st' = None \<and> list_get (resultRunData st') nm = butlast (list_get (resultRunData st) nm) \<and>
    (\<exists>e es. nodeExecutionStack st' = e # es \<and> ed_data e = ed_data (hd (nodeExecutionStack st)) \<and>
      runNode nodeTypes impl custom manual (e\<lparr>ed_data := setPairedItems e\<rparr>) st' response = handleDisabledNode (setPairedItems e))"
proof -
  from assms obtain e es runs where e: "nodeExecutionStack st = e # es" "map_of (resultRunData st) nm = Some runs"
    and st': "st' = disableNode (ed_node e) (st\<lparr>waitTill := None, resultRunData := AList.update nm (butlast runs) (resultRunData st)\<rparr>)"
    by (auto simp: handleWaitingState_def split: list.splits option.splits)
  have "disabled (ed_node (e\<lparr>ed_node := (ed_node e)\<lparr>disabled := Some True\<rparr>\<rparr>)) = Some True" by simp
  with e st' show ?thesis
    by (simp add: disableNode_def Let_def list_get_def amap.get_put runNode_def)
qed

definition waitingAB :: RunExecution where
  "waitingAB = (newExecution wAB (Some ''v1''))\<lparr>nodeExecutionStack := [entryOf (plainNode 1 ''A'' ''set'') None],
     resultRunData := [(''A'', [run_of []])], lastNodeExecuted := Some ''A'', waitTill := Some 7\<rparr>"

lemma handleWaitingState_skips_node_witness:
  "\<exists>st'. handleWaitingState waitingAB = Inr st' \<and> waitTill st' = None \<and> list_get (resultRunData st') ''A'' = []"
proof -
  have "\<not> isl (handleWaitingState waitingAB)" by code_simp
  then obtain st' where st': "handleWaitingState waitingAB = Inr st'" by (cases "handleWaitingState waitingAB") auto
  have 2: "waitTill waitingAB \<noteq> None" "lastNodeExecuted waitingAB = Some ''A''" "butlast (list_get (resultRunData waitingAB) ''A'') = []"
    by (simp_all add: waitingAB_def list_get_def)
  from handleWaitingState_skips_node [OF st' 2(1,2)] 2(3) st' show ?thesis by simp
qed

section \<open>Tools of an agent\<close>

definition agentEntry :: IExecuteData where
  "agentEntry = (entryOf (plainNode 2 ''B'' ''agent'') None)\<lparr>ed_source := Some [(Main, [Val (sourceFrom ''A'' 0 0)])]\<rparr>"

definition toolCall :: EngineAction where
  "toolCall = \<lparr>ea_nodeName = ''T'', ea_input = [], ea_type = AiTool, ea_id = ''1'', ea_parentNodeName = None, ea_itemIndex = None\<rparr>"

definition toolSource :: "nat \<Rightarrow> string list" where
  "toolSource r = (case prepareAction (plainNode 2 ''B'' ''agent'') r agentEntry toolCall ''T'' [] of (rd, toRun, sub) \<Rightarrow>
     map (\<lambda>item. case Option.bind (firstPaired item) pi_sourceOverwrite of Some s \<Rightarrow> previousNode s | None \<Rightarrow> [])
       (cell_or [] (arr_get (parentOutputData toRun) 0)))"

text \<open>The input of a tool points to the node before the agent only in the first run of the agent: the
  sources of the agent's input are indexed by its run, and from the second run on the tool's item says that
  it came from the agent itself, although the agent is resumed with the source at index 0.\<close>

theorem prepareAction_second_run_source:
  "toolSource 0 = [''A''] \<and> toolSource 1 = [''B''] \<and>
   map_option (\<lambda>(c, parent, md). parent) (prepareRequestingNodeForResuming agentEntry) = Some ''A''"
  by (intro conjI) code_simp+

section \<open>The error output\<close>

text \<open>What the loop over the items of one output leaves, and what that over the outputs leaves.\<close>

definition goodItems :: "INodeExecutionData list \<Rightarrow> INodeExecutionData list" where
  "goodItems items = filter (\<lambda>item. \<not> isErrorItem item) items"

definition splitResult :: "(INodeExecutionData \<Rightarrow> js_error + INodeExecutionData) \<Rightarrow> INodeExecutionData list \<Rightarrow>
    INodeExecutionData list \<Rightarrow> js_error option \<Rightarrow> bool" where
  "splitResult f errors converted result = (case result of
     None \<Rightarrow> list_all2 (\<lambda>e x. f e = Inr x) errors converted
   | Some err \<Rightarrow> \<exists>before e after. errors = before @ e # after \<and> list_all2 (\<lambda>e x. f e = Inr x) before converted \<and> f e = Inl err)"

lemma splitResult_SomeI:
  "errors = before @ e # after \<Longrightarrow> list_all2 (\<lambda>e x. f e = Inr x) before xs \<Longrightarrow> f e = Inl err \<Longrightarrow> splitResult f errors xs (Some err)"
  by (auto simp: splitResult_def)

lemma splitErrors_result:
  "splitErrors f items good bad = (rest, good', bad', result) \<Longrightarrow>
     \<exists>xs. bad' = bad @ xs \<and> splitResult f (filter isErrorItem items) xs result \<and>
       (result = None \<longrightarrow> good' = good @ goodItems items)"
proof (induction f items good bad rule: splitErrors.induct)
  case (1 f good bad)
  then show ?case by (auto simp: splitResult_def goodItems_def)
next
  case (2 f item items good bad)
  show ?case
  proof (cases "isErrorItem item")
    case False
    with 2 show ?thesis by (auto simp: goodItems_def)
  next
    case True
    show ?thesis
    proof (cases "f item")
      case (Inl e)
      with 2 True show ?thesis by (auto simp: splitResult_def intro!: exI [of _ "[] :: INodeExecutionData list"])
    next
      case (Inr x)
      with "2.IH"(1) [OF True Inr] "2.prems" True obtain xs where
        xs: "bad' = (bad @ [x]) @ xs" "splitResult f (filter isErrorItem items) xs result"
        "result = None \<longrightarrow> good' = good @ goodItems items" by auto
      have "splitResult f (item # filter isErrorItem items) (x # xs) result"
      proof (cases result)
        case None
        with xs(2) Inr show ?thesis by (simp add: splitResult_def)
      next
        case (Some err)
        with xs(2) obtain before e after where "filter isErrorItem items = before @ e # after"
          "list_all2 (\<lambda>e x. f e = Inr x) before xs" "f e = Inl err" by (auto simp: splitResult_def)
        with Inr have "item # filter isErrorItem items = (item # before) @ e # after"
          "list_all2 (\<lambda>e x. f e = Inr x) (item # before) (x # xs)" "f e = Inl err" by simp_all
        with Some show ?thesis by (metis splitResult_SomeI)
      qed
      with xs True show ?thesis by (auto simp: goodItems_def)
    qed
  qed
qed

lemma splitResult_append:
  assumes "splitResult f errors xs None" "splitResult f errors' ys result"
  shows "splitResult f (errors @ errors') (xs @ ys) result"
proof (cases result)
  case None
  with assms show ?thesis by (simp add: splitResult_def list_all2_appendI)
next
  case (Some err)
  with assms(2) obtain before e after where "errors' = before @ e # after"
    "list_all2 (\<lambda>e x. f e = Inr x) before ys" "f e = Inl err" by (auto simp: splitResult_def)
  with assms(1) have "errors @ errors' = (errors @ before) @ e # after"
    "list_all2 (\<lambda>e x. f e = Inr x) (errors @ before) (xs @ ys)" "f e = Inl err"
    by (simp_all add: splitResult_def list_all2_appendI)
  with Some show ?thesis by (metis splitResult_SomeI)
qed

lemma splitResult_stop: "splitResult f errors xs (Some err) \<Longrightarrow> splitResult f (errors @ errors') xs (Some err)"
  by (fastforce simp: splitResult_def)

lemma outputItems_set: "outputItems (arr_set i (Val items) outs) j = (if j = i then items else outputItems outs j)"
  by (simp add: outputItems_def arr_get_set)

definition errorsOf :: "nat list \<Rightarrow> INodeExecutionData list cell list \<Rightarrow> INodeExecutionData list" where
  "errorsOf is outs = concat (map (\<lambda>i. filter isErrorItem (outputItems outs i)) is)"

lemma splitOutputs_result:
  "distinct is \<Longrightarrow> splitOutputs f is outs bad = (outs', bad', result) \<Longrightarrow>
     \<exists>xs. bad' = bad @ xs \<and> splitResult f (errorsOf is outs) xs result \<and>
       (result = None \<longrightarrow> (\<forall>j. outputItems outs' j = (if j \<in> set is then goodItems (outputItems outs j) else outputItems outs j)))"
proof (induction "is" arbitrary: outs bad)
  case Nil
  then show ?case by (simp add: splitResult_def errorsOf_def)
next
  case (Cons i "is")
  obtain rest good bad1 r where split: "splitErrors f (outputItems outs i) [] bad = (rest, good, bad1, r)" by (metis prod_cases4)
  from splitErrors_result [OF split] obtain xs where
    xs: "bad1 = bad @ xs" "splitResult f (filter isErrorItem (outputItems outs i)) xs r"
    "r = None \<longrightarrow> good = goodItems (outputItems outs i)" by auto
  show ?case
  proof (cases r)
    case (Some err)
    with Cons.prems split xs(2) have "result = Some err" "bad' = bad1"
      "splitResult f (errorsOf (i # is) outs) xs (Some err)" by (auto simp: errorsOf_def intro: splitResult_stop)
    with xs(1) show ?thesis by blast
  next
    case None
    let ?o = "arr_set i (Val good) outs"
    have run: "splitOutputs f is ?o bad1 = (outs', bad', result)" using Cons.prems(2) split None by simp
    have same: "outputItems ?o j = outputItems outs j" if "j \<in> set is" for j
      using that Cons.prems(1) by (auto simp: outputItems_set)
    then have errors: "errorsOf is ?o = errorsOf is outs" unfolding errorsOf_def by (metis (no_types, lifting) map_cong)
    from Cons.IH [OF _ run] Cons.prems(1) obtain ys where ys: "bad' = bad1 @ ys" "splitResult f (errorsOf is outs) ys result"
      "result = None \<longrightarrow> (\<forall>j. outputItems outs' j = (if j \<in> set is then goodItems (outputItems ?o j) else outputItems ?o j))"
      unfolding errors by auto
    have "splitResult f (errorsOf (i # is) outs) (xs @ ys) result"
      using splitResult_append [OF xs(2) [unfolded None] ys(2)] by (simp add: errorsOf_def)
    moreover have "outputItems outs' j = (if j \<in> set (i # is) then goodItems (outputItems outs j) else outputItems outs j)"
      if "result = None" for j
      using ys(3) that xs(3) None Cons.prems(1) by (auto simp: outputItems_set)
    ultimately show ?thesis using xs(1) ys(1) by (intro exI [of _ "xs @ ys"]) simp
  qed
qed

text \<open>C11: The error output of a node with \<open>k + 1\<close> main outputs is a partition. When no error item fails to be converted, outputs
  0 to \<open>k - 1\<close> keep exactly their items without an error, in order; the last output gets the others, output by output, each as
  \<open>errorItem\<close> makes it, whatever the node had put there; further outputs stay. Otherwise the error is that of the first item,
  in this order, that cannot be converted.\<close>

theorem handleNodeErrorOutput_partition:
  "case handleNodeErrorOutput getPairedItem (Suc k) ed outs of
     (outs', None) \<Rightarrow>
       list_all2 (\<lambda>e x. errorItem getPairedItem ed e = Inr x) (errorsOf [0..<k] outs) (outputItems outs' k) \<and>
       (\<forall>i < k. outputItems outs' i = goodItems (outputItems outs i)) \<and> (\<forall>i > k. outputItems outs' i = outputItems outs i)
   | (outs', Some err) \<Rightarrow>
       \<exists>before e after. errorsOf [0..<k] outs = before @ e # after \<and>
         (\<forall>x \<in> set before. \<not> isl (errorItem getPairedItem ed x)) \<and> errorItem getPairedItem ed e = Inl err"
proof -
  let ?f = "errorItem getPairedItem ed"
  obtain outs1 bad result where run: "splitOutputs ?f [0..<k] outs [] = (outs1, bad, result)" by (metis prod_cases3)
  from splitOutputs_result [OF _ run] have r: "splitResult ?f (errorsOf [0..<k] outs) bad result"
    "result = None \<longrightarrow> (\<forall>j. outputItems outs1 j = (if j < k then goodItems (outputItems outs j) else outputItems outs j))" by simp_all
  show ?thesis
  proof (cases result)
    case None
    with run r show ?thesis by (auto simp: handleNodeErrorOutput_def splitResult_def outputItems_set)
  next
    case (Some err)
    with r(1) obtain before e after where b: "errorsOf [0..<k] outs = before @ e # after"
      "list_all2 (\<lambda>e x. ?f e = Inr x) before bad" "?f e = Inl err" by (auto simp: splitResult_def)
    from b(2) have "\<forall>x \<in> set before. \<not> isl (?f x)" by (induction rule: list_all2_induct) auto
    with b(1,3) Some run show ?thesis by (auto simp: handleNodeErrorOutput_def)
  qed
qed

text \<open>One item with an error that comes from the item of the input, whose data it gets, and one without.\<close>

lemma handleNodeErrorOutput_partition_witness:
  "\<exists>outs' x. handleNodeErrorOutput (\<lambda>s p. Inr (Some (plainItem [(''id'', JNum 7)]))) 2
       ((entryOf retryNode None)\<lparr>ed_source := Some [(Main, [Val (sourceFrom ''A'' 0 0)])]\<rparr>)
       [Val [(plainItem [(''error'', JStr ''x'')])\<lparr>pairedItem := Some (PairedOne \<lparr>pi_item = 0, pi_input = None, pi_sourceOverwrite = None\<rparr>)\<rparr>,
         plainItem [(''id'', JNum 1)]]] = (outs', None) \<and>
     outputItems outs' 1 = [x] \<and> item_json x = [(''id'', JNum 7), (''error'', JStr ''x'')] \<and>
     outputItems outs' 0 = [plainItem [(''id'', JNum 1)]]"
proof -
  let ?gp = "\<lambda>s p. Inr (Some (plainItem [(''id'', JNum 7)]))"
  let ?ed = "(entryOf retryNode None)\<lparr>ed_source := Some [(Main, [Val (sourceFrom ''A'' 0 0)])]\<rparr>"
  let ?e = "(plainItem [(''error'', JStr ''x'')])\<lparr>pairedItem := Some (PairedOne \<lparr>pi_item = 0, pi_input = None, pi_sourceOverwrite = None\<rparr>)\<rparr>"
  let ?outs = "[Val [?e, plainItem [(''id'', JNum 1)]]]"
  have err: "isErrorItem ?e" "\<not> isErrorItem (plainItem [(''id'', JNum 1)])" by code_simp+
  have f: "errorItem ?gp ?ed ?e = Inr (?e\<lparr>item_json := [(''id'', JNum 7), (''error'', JStr ''x'')]\<rparr>)" by code_simp
  have items: "outputItems ?outs 0 = [?e, plainItem [(''id'', JNum 1)]]" by (simp add: outputItems_def arr_get_def)
  then have errors: "errorsOf [0..<1] ?outs = [?e]" and good: "goodItems (outputItems ?outs 0) = [plainItem [(''id'', JNum 1)]]"
    using err by (simp_all add: errorsOf_def goodItems_def)
  obtain outs' result where run: "handleNodeErrorOutput ?gp (Suc 1) ?ed ?outs = (outs', result)" by force
  from handleNodeErrorOutput_partition [where getPairedItem = ?gp and k = 1 and ed = ?ed and outs = ?outs, unfolded run prod.case errors] f good show ?thesis
    using run by (cases result) (auto simp: list_all2_Cons1 numeral_2_eq_2 Cons_eq_append_conv)
qed

end
