(* ===== verification/Concurrency.thy ===== *)
theory Concurrency
  imports Prelude
begin

text \<open>
  Limiting the executions that run at once: \<^verbatim>\<open>packages/cli/src/concurrency/concurrency-queue.ts\<close> and
  \<^verbatim>\<open>concurrency-control.service.ts\<close>. A promise is the number of the call that awaits it, so that
  calling \<open>resolve\<close> is an entry of the list of numbers an operation returns. Logging and telemetry are left
  out, but not the events they listen to; of the debounced event every request is an event.
\<close>

section \<open>The queue\<close>

datatype QueueEvent = ConcurrencyCheck int | ExecutionThrottled string | ExecutionReleased string

record QueueItem =
  qi_executionId :: string
  qi_resolve :: nat

record ConcurrencyQueue =
  capacity :: int
  queue :: "QueueItem list"

definition newConcurrencyQueue :: "int \<Rightarrow> ConcurrencyQueue" where
  "newConcurrencyQueue c = \<lparr>capacity = c, queue = []\<rparr>"

text \<open>What an operation returns: the queue, the events it emits and the promises it resolves.\<close>

type_synonym QueueResult = "ConcurrencyQueue \<times> QueueEvent list \<times> nat list"

text \<open>Without capacity the promise of the call stays open; otherwise it is resolved at once.\<close>

definition cq_enqueue :: "string \<Rightarrow> nat \<Rightarrow> ConcurrencyQueue \<Rightarrow> QueueResult" where
  "cq_enqueue executionId call q =
     (let c = capacity q - 1 in
      if c < 0
      then (q\<lparr>capacity := c, queue := queue q @ [\<lparr>qi_executionId = executionId, qi_resolve = call\<rparr>]\<rparr>,
            [ConcurrencyCheck c, ExecutionThrottled executionId], [])
      else (q\<lparr>capacity := c\<rparr>, [ConcurrencyCheck c], [call]))"

definition cq_resolveNext :: "ConcurrencyQueue \<Rightarrow> QueueResult" where
  "cq_resolveNext q = (case queue q of
     [] \<Rightarrow> (q, [], [])
   | item # items \<Rightarrow> (q\<lparr>queue := items\<rparr>, [ExecutionReleased (qi_executionId item)], [qi_resolve item]))"

definition cq_dequeue :: "ConcurrencyQueue \<Rightarrow> QueueResult" where
  "cq_dequeue q = cq_resolveNext (q\<lparr>capacity := capacity q + 1\<rparr>)"

text \<open>\<open>findIndex\<close> and \<open>splice\<close>: the first item with the id goes.\<close>

fun spliceFirst :: "('a \<Rightarrow> bool) \<Rightarrow> 'a list \<Rightarrow> 'a list option" where
  "spliceFirst p [] = None"
| "spliceFirst p (x # xs) = (if p x then Some xs else map_option (Cons x) (spliceFirst p xs))"

definition cq_remove :: "string \<Rightarrow> ConcurrencyQueue \<Rightarrow> QueueResult" where
  "cq_remove executionId q = (case spliceFirst (\<lambda>item. qi_executionId item = executionId) (queue q) of
     None \<Rightarrow> (q, [], [])
   | Some items \<Rightarrow> cq_resolveNext (q\<lparr>queue := items, capacity := capacity q + 1\<rparr>))"

definition cq_getAll :: "ConcurrencyQueue \<Rightarrow> string list" where
  "cq_getAll q = fold set_add (map qi_executionId (queue q)) []"

definition cq_has :: "string \<Rightarrow> ConcurrencyQueue \<Rightarrow> bool" where
  "cq_has executionId q \<longleftrightarrow> list_ex (\<lambda>item. qi_executionId item = executionId) (queue q)"

section \<open>The service\<close>

datatype WorkflowExecuteMode =
    CliMode | ErrorMode | IntegratedMode | InternalMode | ManualMode | RetryMode
  | TriggerMode | WebhookMode | EvaluationMode | ChatMode

datatype ConcurrencyQueueType = Production | Evaluation

datatype ExecutionsMode = RegularExecutions | QueueExecutions

datatype ConcurrencyError = InvalidConcurrencyLimitError int

record ConcurrencyControl =
  isEnabled :: bool
  limits :: "(ConcurrencyQueueType \<times> int) list"
  queues :: "(ConcurrencyQueueType \<times> ConcurrencyQueue) list"

text \<open>\<open>queues\<close> is not set when the service is disabled from the start; no method reads it then.\<close>

definition checkLimit :: "ConcurrencyQueueType \<times> int \<Rightarrow> ConcurrencyError + (ConcurrencyQueueType \<times> int)" where
  "checkLimit = (\<lambda>(t, limit).
     if limit = 0 then Inl (InvalidConcurrencyLimitError limit) else Inr (t, if limit < -1 then -1 else limit))"

definition newConcurrencyControl :: "int \<Rightarrow> int \<Rightarrow> ExecutionsMode \<Rightarrow> ConcurrencyError + ConcurrencyControl" where
  "newConcurrencyControl productionLimit evaluationLimit mode =
     rbind (checkLimit (Production, productionLimit)) (\<lambda>p.
     rbind (checkLimit (Evaluation, evaluationLimit)) (\<lambda>e.
       Inr (if list_all (\<lambda>(t, limit). limit = -1) [p, e] \<or> mode = QueueExecutions
            then \<lparr>isEnabled = False, limits = [p, e], queues = []\<rparr>
            else \<lparr>isEnabled = True, limits = [p, e],
                  queues = map (\<lambda>(t, limit). (t, newConcurrencyQueue limit)) (filter (\<lambda>(t, limit). limit > 0) [p, e])\<rparr>)))"

text \<open>\<open>getQueue\<close> throws for an unknown mode; \<open>WorkflowExecuteMode\<close> has no other.\<close>

fun queueOf :: "WorkflowExecuteMode \<Rightarrow> ConcurrencyQueueType option" where
  "queueOf WebhookMode = Some Production"
| "queueOf TriggerMode = Some Production"
| "queueOf ChatMode = Some Production"
| "queueOf EvaluationMode = Some Evaluation"
| "queueOf _ = None"

definition getQueue :: "WorkflowExecuteMode \<Rightarrow> ConcurrencyControl \<Rightarrow> (ConcurrencyQueueType \<times> ConcurrencyQueue) option" where
  "getQueue mode cc = Option.bind (queueOf mode) (\<lambda>t. map_option (Pair t) (map_of (queues cc) t))"

definition isUnlimited :: "WorkflowExecuteMode \<Rightarrow> ConcurrencyControl \<Rightarrow> bool" where
  "isUnlimited mode cc \<longleftrightarrow> getQueue mode cc = None"

definition hasQueued :: "string \<Rightarrow> ConcurrencyControl \<Rightarrow> bool" where
  "hasQueued executionId cc \<longleftrightarrow> isEnabled cc \<and> list_ex (\<lambda>(t, q). cq_has executionId q) (queues cc)"

type_synonym ControlResult = "ConcurrencyControl \<times> QueueEvent list \<times> nat list"

text \<open>An operation on the queue of a mode, skipped without a queue.\<close>

definition onQueue :: "WorkflowExecuteMode \<Rightarrow> (ConcurrencyQueue \<Rightarrow> QueueResult) \<Rightarrow> ConcurrencyControl \<Rightarrow> ControlResult \<Rightarrow> ControlResult" where
  "onQueue mode f cc skip =
     (if \<not> isEnabled cc \<or> isUnlimited mode cc then skip
      else case getQueue mode cc of
        None \<Rightarrow> skip
      | Some (t, q) \<Rightarrow> (case f q of (q', evs, done) \<Rightarrow> (cc\<lparr>queues := AList.update t q' (queues cc)\<rparr>, evs, done)))"

text \<open>\<open>throttle\<close> resolves the promise of its caller when the queue does, and at once without a queue.\<close>

definition throttle :: "WorkflowExecuteMode \<Rightarrow> string \<Rightarrow> nat \<Rightarrow> ConcurrencyControl \<Rightarrow> ControlResult" where
  "throttle mode executionId call cc = onQueue mode (cq_enqueue executionId call) cc (cc, [], [call])"

definition releaseCapacity :: "WorkflowExecuteMode \<Rightarrow> ConcurrencyControl \<Rightarrow> ControlResult" where
  "releaseCapacity mode cc = onQueue mode cq_dequeue cc (cc, [], [])"

definition removeQueued :: "WorkflowExecuteMode \<Rightarrow> string \<Rightarrow> ConcurrencyControl \<Rightarrow> ControlResult" where
  "removeQueued mode executionId cc = onQueue mode (cq_remove executionId) cc (cc, [], [])"

text \<open>\<open>forEach\<close> over the ids of a queue, which were collected before the first one is removed.\<close>

definition drainQueue :: "ConcurrencyQueue \<Rightarrow> QueueResult" where
  "drainQueue q = fold (\<lambda>executionId (q, evs, done).
     case cq_remove executionId q of (q', evs', done') \<Rightarrow> (q', evs @ evs', done @ done')) (cq_getAll q) (q, [], [])"

text \<open>The second result are the executions \<open>cancelMany\<close> of the repository is called with.\<close>

definition removeAll_queued :: "string list \<Rightarrow> ConcurrencyControl \<Rightarrow> ControlResult \<times> string list option" where
  "removeAll_queued executionIdsToCancel cc =
     (if \<not> isEnabled cc then ((cc, [], []), None)
      else (fold (\<lambda>(t, q) (cc, evs, done). case drainQueue q of (q', evs', done') \<Rightarrow>
                (cc\<lparr>queues := AList.update t q' (queues cc)\<rparr>, evs @ evs', done @ done')) (queues cc) (cc, [], []),
            if executionIdsToCancel = [] then None else Some executionIdsToCancel))"

definition disableControl :: "ConcurrencyControl \<Rightarrow> ConcurrencyControl" where
  "disableControl cc = cc\<lparr>isEnabled := False\<rparr>"

end
