(* ===== verification/ActiveExecutions.thy ===== *)
theory ActiveExecutions
  imports Concurrency WorkflowTypes
begin

text \<open>
  The executions of a process: \<^verbatim>\<open>packages/cli/src/active-executions.ts\<close>, with the capacity reservation of
  \<^verbatim>\<open>concurrency-capacity-reservation.ts\<close> and \<open>stopInRegularMode\<close> of \<^verbatim>\<open>executions/execution.service.ts\<close>.
  A call of the asynchronous \<open>add\<close> is a record with the place it has reached; what happens between two
  places is one event of the system. The answers of the database and the end of an execution are events of
  the environment. Response promises, streams and the wait tracker are left out.
\<close>

section \<open>The state\<close>

text \<open>
  \<open>Reserving\<close> awaits the capacity, \<open>Reserved\<close> the database; \<open>Executing\<close> has registered the execution;
  \<open>Settled\<close> has its promise settled and its \<open>finally\<close> still to run.
\<close>

datatype CallPhase = Reserving | Reserved | Executing | Settled | Closed | AddFailed

text \<open>\<open>ac_reservation\<close> is whether \<open>acquiredReservation\<close> is set, \<open>ac_status\<close> the status of the execution object.\<close>

record AddCall =
  ac_executionId :: string
  ac_mode :: WorkflowExecuteMode
  ac_phase :: CallPhase
  ac_reservation :: bool
  ac_status :: ExecutionStatus

text \<open>\<open>activeExecutions\<close> maps an id to the call whose object it holds; \<open>cancelled\<close> logs the calls of \<open>cancelMany\<close>.\<close>

record ActiveSystem =
  control :: ConcurrencyControl
  calls :: "AddCall list"
  activeExecutions :: "(string \<times> nat) list"
  cancelled :: "string list list"

definition newActiveSystem :: "ConcurrencyControl \<Rightarrow> ActiveSystem" where
  "newActiveSystem cc = \<lparr>control = cc, calls = [], activeExecutions = [], cancelled = []\<rparr>"

definition changeCall :: "nat \<Rightarrow> (AddCall \<Rightarrow> AddCall) \<Rightarrow> AddCall list \<Rightarrow> AddCall list" where
  "changeCall i f cs = (if i < length cs then cs[i := f (cs ! i)] else cs)"

definition callIn :: "CallPhase \<Rightarrow> nat \<Rightarrow> ActiveSystem \<Rightarrow> bool" where
  "callIn p i s \<longleftrightarrow> i < length (calls s) \<and> ac_phase (calls s ! i) = p"

section \<open>Reservations\<close>

text \<open>The promise of \<open>throttle\<close> is resolved: \<open>reserve\<close> goes on and keeps the reservation.\<close>

definition resumeCall :: "AddCall \<Rightarrow> AddCall" where
  "resumeCall c = (if ac_phase c = Reserving then c\<lparr>ac_phase := Reserved, ac_reservation := True\<rparr> else c)"

definition resumeCalls :: "nat list \<Rightarrow> AddCall list \<Rightarrow> AddCall list" where
  "resumeCalls done cs = fold (\<lambda>i. changeCall i resumeCall) done cs"

definition applyControl :: "ControlResult \<Rightarrow> ActiveSystem \<Rightarrow> ActiveSystem" where
  "applyControl r s = (case r of (cc, evs, done) \<Rightarrow> s\<lparr>control := cc, calls := resumeCalls done (calls s)\<rparr>)"

definition releaseReservation :: "nat \<Rightarrow> ActiveSystem \<Rightarrow> ActiveSystem" where
  "releaseReservation i s =
     (if i < length (calls s) \<and> ac_reservation (calls s ! i)
      then applyControl (releaseCapacity (ac_mode (calls s ! i)) (control s))
             (s\<lparr>calls := changeCall i (\<lambda>c. c\<lparr>ac_reservation := False\<rparr>) (calls s)\<rparr>)
      else s)"

section \<open>Adding an execution\<close>

text \<open>\<open>add\<close> up to \<open>throttle\<close>: a new execution has its id from the database by then.\<close>

definition addExecution :: "string \<Rightarrow> WorkflowExecuteMode \<Rightarrow> bool \<Rightarrow> ActiveSystem \<Rightarrow> ActiveSystem" where
  "addExecution executionId mode existing s =
     applyControl (throttle mode executionId (length (calls s)) (control s))
       (s\<lparr>calls := calls s @ [\<lparr>ac_executionId = executionId, ac_mode = mode, ac_phase = Reserving,
           ac_reservation = False, ac_status = (if existing then Running else New)\<rparr>]\<rparr>)"

text \<open>
  \<open>setRunning\<close> or \<open>updateExistingExecution\<close> has returned, or it has failed: the latter too when another
  process resumes the execution already.
\<close>

definition databaseDone :: "nat \<Rightarrow> bool \<Rightarrow> ActiveSystem \<Rightarrow> ActiveSystem" where
  "databaseDone i ok s =
     (if \<not> callIn Reserved i s then s
      else if ok
      then s\<lparr>calls := changeCall i (\<lambda>c. c\<lparr>ac_phase := Executing, ac_status := Running\<rparr>) (calls s),
             activeExecutions := AList.update (ac_executionId (calls s ! i)) i (activeExecutions s)\<rparr>
      else releaseReservation i (s\<lparr>calls := changeCall i (\<lambda>c. c\<lparr>ac_phase := AddFailed\<rparr>) (calls s)\<rparr>))"

section \<open>The end of an execution\<close>

definition hasExecution :: "string \<Rightarrow> ActiveSystem \<Rightarrow> bool" where
  "hasExecution executionId s \<longleftrightarrow> map_of (activeExecutions s) executionId \<noteq> None"

text \<open>Resolving or rejecting \<open>postExecutePromise\<close>; only the first time counts.\<close>

definition settle :: "nat \<Rightarrow> ActiveSystem \<Rightarrow> ActiveSystem" where
  "settle i s = (if callIn Executing i s then s\<lparr>calls := changeCall i (\<lambda>c. c\<lparr>ac_phase := Settled\<rparr>) (calls s)\<rparr> else s)"

definition finalizeExecution :: "string \<Rightarrow> ActiveSystem \<Rightarrow> ActiveSystem" where
  "finalizeExecution executionId s = (case map_of (activeExecutions s) executionId of None \<Rightarrow> s | Some i \<Rightarrow> settle i s)"

definition removeExecution :: "string \<Rightarrow> ActiveSystem \<Rightarrow> ActiveSystem" where
  "removeExecution executionId s = s\<lparr>activeExecutions := AList.delete executionId (activeExecutions s)\<rparr>"

definition stopExecution :: "string \<Rightarrow> ActiveSystem \<Rightarrow> ActiveSystem" where
  "stopExecution executionId s = (case map_of (activeExecutions s) executionId of
     None \<Rightarrow> s
   | Some i \<Rightarrow> if ac_status (calls s ! i) = Waiting then removeExecution executionId s else settle i s)"

text \<open>The \<open>finally\<close> that \<open>add\<close> attaches to the promise.\<close>

definition runFinally :: "nat \<Rightarrow> ActiveSystem \<Rightarrow> ActiveSystem" where
  "runFinally i s =
     (if \<not> callIn Settled i s then s
      else let c = calls s ! i;
               s1 = releaseReservation i (s\<lparr>calls := changeCall i (\<lambda>c. c\<lparr>ac_phase := Closed\<rparr>) (calls s)\<rparr>)
           in if ac_status c = Waiting then s1 else removeExecution (ac_executionId c) s1)"

definition getExecutionOrFail :: "string \<Rightarrow> ActiveSystem \<Rightarrow> js_error + nat" where
  "getExecutionOrFail executionId s = (case map_of (activeExecutions s) executionId of
     None \<Rightarrow> Inl (UnexpectedError ''No active execution found'') | Some i \<Rightarrow> Inr i)"

definition getStatus :: "string \<Rightarrow> ActiveSystem \<Rightarrow> js_error + ExecutionStatus" where
  "getStatus executionId s = rbind (getExecutionOrFail executionId s) (\<lambda>i. Inr (ac_status (calls s ! i)))"

definition setStatus :: "string \<Rightarrow> ExecutionStatus \<Rightarrow> ActiveSystem \<Rightarrow> js_error + ActiveSystem" where
  "setStatus executionId st s = rbind (getExecutionOrFail executionId s) (\<lambda>i.
     Inr (s\<lparr>calls := changeCall i (\<lambda>c. c\<lparr>ac_status := st\<rparr>) (calls s)\<rparr>))"

definition getActiveExecutions :: "ActiveSystem \<Rightarrow> (string \<times> WorkflowExecuteMode \<times> ExecutionStatus) list" where
  "getActiveExecutions s = map (\<lambda>(executionId, i). (executionId, ac_mode (calls s ! i), ac_status (calls s ! i))) (activeExecutions s)"

text \<open>A stop by the user, in regular mode: an execution that still waits for capacity leaves the queue.\<close>

definition stopInRegularMode :: "string \<Rightarrow> WorkflowExecuteMode \<Rightarrow> ActiveSystem \<Rightarrow> ActiveSystem" where
  "stopInRegularMode executionId mode s =
     (if hasQueued executionId (control s) then applyControl (removeQueued mode executionId (control s)) s
      else if hasExecution executionId s then stopExecution executionId s else s)"

section \<open>Shutdown\<close>

definition shutdownOne :: "bool \<Rightarrow> bool \<Rightarrow> string \<Rightarrow> ActiveSystem \<times> string list \<Rightarrow> ActiveSystem \<times> string list" where
  "shutdownOne isRegularMode cancelAll executionId = (\<lambda>(s, toCancel).
     (case map_of (activeExecutions s) executionId of
        None \<Rightarrow> (s, toCancel)
      | Some i \<Rightarrow>
          if isRegularMode \<and> cancelAll then (stopExecution executionId s, toCancel @ [executionId])
          else if ac_status (calls s ! i) \<in> {Waiting, New} then (removeExecution executionId s, toCancel)
          else (s, toCancel)))"

text \<open>\<open>shutdown\<close> up to the loop that waits until \<open>activeExecutions\<close> is empty.\<close>

definition shutdown :: "ExecutionsMode \<Rightarrow> bool \<Rightarrow> ActiveSystem \<Rightarrow> ActiveSystem" where
  "shutdown mode cancelAll s =
     (let isRegularMode = (mode = RegularExecutions);
          s1 = (if isRegularMode then s\<lparr>control := disableControl (control s)\<rparr> else s);
          (s2, toCancel) = fold (shutdownOne isRegularMode cancelAll) (map fst (activeExecutions s1)) (s1, []);
          (r, cancelMany) = removeAll_queued toCancel (control s2);
          s3 = applyControl r s2
      in case cancelMany of None \<Rightarrow> s3 | Some ids \<Rightarrow> s3\<lparr>cancelled := cancelled s3 @ [ids]\<rparr>)"

section \<open>Events\<close>

datatype ActiveEvent =
    Add string WorkflowExecuteMode bool
  | DatabaseDone nat bool
  | Finalize string
  | StopRunning string
  | Finally nat
  | SetStatus string ExecutionStatus
  | StopByUser string WorkflowExecuteMode

fun perform :: "ActiveEvent \<Rightarrow> ActiveSystem \<Rightarrow> ActiveSystem" where
  "perform (Add executionId mode existing) s = addExecution executionId mode existing s"
| "perform (DatabaseDone i ok) s = databaseDone i ok s"
| "perform (Finalize executionId) s = finalizeExecution executionId s"
| "perform (StopRunning executionId) s = stopExecution executionId s"
| "perform (Finally i) s = runFinally i s"
| "perform (SetStatus executionId st) s = (case setStatus executionId st s of Inl e \<Rightarrow> s | Inr s' \<Rightarrow> s')"
| "perform (StopByUser executionId mode) s = stopInRegularMode executionId mode s"

end
