(* ===== verification/ConcurrencyProps.thy ===== *)
theory ConcurrencyProps
  imports ActiveExecutions
begin

text \<open>
  What the queue promises: it is a counting semaphore whose waiters are served in order. The contract of a
  queue is a locale, on which the invariant of the executions of a process rests; removing a waiter keeps
  the account of the capacity but not the limit.
\<close>

section \<open>The contract of a queue\<close>

text \<open>The free capacity is the limit less those that hold and those that wait; somebody waits only at the limit.\<close>

definition balanced :: "int \<Rightarrow> nat \<Rightarrow> int \<Rightarrow> 'w list \<Rightarrow> bool" where
  "balanced limit held free waiting \<longleftrightarrow>
     free = limit - int held - int (length waiting) \<and> (waiting = [] \<or> limit \<le> int held)"

locale capacity_queue =
  fixes free :: "'q \<Rightarrow> int"
    and waiting :: "'q \<Rightarrow> 'w list"
    and enq :: "'w \<Rightarrow> 'q \<Rightarrow> 'q \<times> 'w list"
    and deq :: "'q \<Rightarrow> 'q \<times> 'w list"
  assumes enq_free: "free (fst (enq w q)) = free q - 1"
    and enq_starts: "free q > 0 \<Longrightarrow> snd (enq w q) = [w] \<and> waiting (fst (enq w q)) = waiting q"
    and enq_waits: "free q \<le> 0 \<Longrightarrow> snd (enq w q) = [] \<and> waiting (fst (enq w q)) = waiting q @ [w]"
    and deq_free: "free (fst (deq q)) = free q + 1"
    and deq_next: "snd (deq q) @ waiting (fst (deq q)) = waiting q"
    and deq_one: "length (snd (deq q)) = min 1 (length (waiting q))"
begin

lemma balanced_enq:
  assumes "balanced limit held (free q) (waiting q)"
  shows "balanced limit (held + length (snd (enq w q))) (free (fst (enq w q))) (waiting (fst (enq w q)))"
proof (cases "free q > 0")
  case True
  with assms enq_starts [OF True, of w] show ?thesis
    by (auto simp: balanced_def enq_free)
next
  case False
  then have "free q \<le> 0" by simp
  from assms enq_waits [OF this, of w] False show ?thesis
    by (auto simp: balanced_def enq_free)
qed

lemma balanced_deq:
  assumes "balanced limit (Suc held) (free q) (waiting q)"
  shows "balanced limit (held + length (snd (deq q))) (free (fst (deq q))) (waiting (fst (deq q)))"
proof (cases "waiting q")
  case Nil
  with assms deq_one [of q] deq_next [of q] show ?thesis by (auto simp: balanced_def deq_free)
next
  case (Cons w ws)
  then have 1: "length (snd (deq q)) = 1" using deq_one [of q] by simp
  with deq_next [of q] have "length (waiting (fst (deq q))) + 1 = length (waiting q)"
    by (metis add.commute length_append)
  with assms 1 Cons show ?thesis by (auto simp: balanced_def deq_free)
qed

text \<open>Starting needs a free place, so that the limit is kept.\<close>

lemma enq_limit:
  assumes "balanced limit held (free q) (waiting q)" "snd (enq w q) \<noteq> []"
  shows "int (held + length (snd (enq w q))) \<le> limit"
proof -
  have "free q > 0" using assms(2) enq_waits [of q w] by (cases "free q > 0") auto
  with enq_starts [OF this, of w] assms(1) show ?thesis by (auto simp: balanced_def)
qed

end

locale cancellable_queue = capacity_queue +
  fixes cancel :: "'x \<Rightarrow> 'q \<Rightarrow> 'q \<times> 'w list"
  assumes cancel_same: "free (fst (cancel x q)) = free q \<Longrightarrow> cancel x q = (q, [])"
    and cancel_free: "free (fst (cancel x q)) = free q \<or> free (fst (cancel x q)) = free q + 1"
    and cancel_one: "free (fst (cancel x q)) = free q + 1 \<Longrightarrow>
      Suc (length (snd (cancel x q)) + length (waiting (fst (cancel x q)))) = length (waiting q)"
begin

lemma balanced_cancel:
  assumes "balanced limit held (free q) (waiting q)"
  shows "balanced limit (held + length (snd (cancel x q))) (free (fst (cancel x q))) (waiting (fst (cancel x q)))"
proof (cases "free (fst (cancel x q)) = free q")
  case True
  with cancel_same [OF True] assms show ?thesis by simp
next
  case False
  then have f: "free (fst (cancel x q)) = free q + 1" using cancel_free by blast
  from cancel_one [OF f] have "waiting q \<noteq> []" by auto
  with assms f cancel_one [OF f, symmetric] show ?thesis by (auto simp: balanced_def)
qed

end

section \<open>The code keeps the contract\<close>

abbreviation waitingCalls :: "ConcurrencyQueue \<Rightarrow> nat list" where
  "waitingCalls q \<equiv> map qi_resolve (queue q)"

definition withoutEvents :: "QueueResult \<Rightarrow> ConcurrencyQueue \<times> nat list" where
  "withoutEvents r = (fst r, snd (snd r))"

lemma spliceFirst_length: "spliceFirst p xs = Some ys \<Longrightarrow> length xs = Suc (length ys)"
  by (induction xs arbitrary: ys) (auto split: if_splits)

lemma spliceFirst_set: "spliceFirst p xs = Some ys \<Longrightarrow> set ys \<subseteq> set xs"
  by (induction xs arbitrary: ys) (auto split: if_splits)

lemma spliceFirst_distinct: "spliceFirst p xs = Some ys \<Longrightarrow> distinct (map f xs) \<Longrightarrow> distinct (map f ys)"
proof (induction xs arbitrary: ys)
  case (Cons x xs)
  show ?case
  proof (cases "p x")
    case False
    with Cons.prems obtain zs where zs: "spliceFirst p xs = Some zs" "ys = x # zs" by auto
    with Cons.IH [OF zs(1)] Cons.prems(2) spliceFirst_set [OF zs(1)] show ?thesis by auto
  qed (use Cons.prems in auto)
qed simp

interpretation cq: cancellable_queue capacity waitingCalls "\<lambda>c q. withoutEvents (cq_enqueue executionId c q)"
    "\<lambda>q. withoutEvents (cq_dequeue q)" "\<lambda>x q. withoutEvents (cq_remove x q)" for executionId
  by unfold_locales
    (auto simp: withoutEvents_def cq_enqueue_def cq_dequeue_def cq_resolveNext_def cq_remove_def Let_def
      split: list.splits option.splits dest: spliceFirst_length)

section \<open>Refinement of a semaphore\<close>

text \<open>The abstract semaphore: who holds it and who waits for it, without a counter.\<close>

datatype SemaphoreOp = Acquire string nat | Release nat

fun semaphore :: "int \<Rightarrow> SemaphoreOp \<Rightarrow> nat list \<times> nat list \<Rightarrow> nat list \<times> nat list" where
  "semaphore limit (Acquire executionId c) (held, waiting) =
     (if int (length held) < limit then (held @ [c], waiting) else (held, waiting @ [c]))"
| "semaphore limit (Release c) (held, waiting) =
     (if c \<notin> set held then (held, waiting)
      else (remove1 c held @ take 1 waiting, drop 1 waiting))"

text \<open>The queue with the calls it has let through.\<close>

fun queueStep :: "SemaphoreOp \<Rightarrow> ConcurrencyQueue \<times> nat list \<Rightarrow> ConcurrencyQueue \<times> nat list" where
  "queueStep (Acquire executionId c) (q, held) = (case cq_enqueue executionId c q of (q', evs, done) \<Rightarrow> (q', held @ done))"
| "queueStep (Release c) (q, held) =
     (if c \<notin> set held then (q, held)
      else case cq_dequeue q of (q', evs, done) \<Rightarrow> (q', remove1 c held @ done))"

lemma queueStep_refines:
  assumes "balanced limit (length held) (capacity q) (waitingCalls q)"
    and "queueStep op (q, held) = (q', held')"
  shows "balanced limit (length held') (capacity q') (waitingCalls q') \<and>
    (held', waitingCalls q') = semaphore limit op (held, waitingCalls q)"
proof (cases op)
  case (Acquire e c)
  with assms(2) have h: "q' = fst (withoutEvents (cq_enqueue e c q))" "held' = held @ snd (withoutEvents (cq_enqueue e c q))"
    by (auto simp: withoutEvents_def split: prod.splits)
  have "capacity q > 0 \<longleftrightarrow> int (length held) < limit" using assms(1) by (auto simp: balanced_def)
  with cq.enq_starts [of q e c] cq.enq_waits [of q e c] cq.balanced_enq [OF assms(1), of e c] Acquire h show ?thesis
    by (cases "capacity q > 0") auto
next
  case (Release c)
  show ?thesis
  proof (cases "c \<in> set held")
    case True
    let ?r = "withoutEvents (cq_dequeue q)"
    from True Release assms(2) have h: "q' = fst ?r" "held' = remove1 c held @ snd ?r"
      by (auto simp: withoutEvents_def split: prod.splits)
    from True have l: "length held = Suc (length (remove1 c held))"
      by (metis One_nat_def Suc_pred length_pos_if_in_set length_remove1)
    have "balanced limit (Suc (length (remove1 c held))) (capacity q) (waitingCalls q)"
      using assms(1) l by simp
    from cq.balanced_deq [OF this] h have b: "balanced limit (length held') (capacity q') (waitingCalls q')" by simp
    have "snd ?r = take 1 (waitingCalls q)" "waitingCalls (fst ?r) = drop 1 (waitingCalls q)"
      by (auto simp: withoutEvents_def cq_dequeue_def cq_resolveNext_def split: list.splits)
    with b h True Release show ?thesis by simp
  next
    case False
    with Release assms show ?thesis by auto
  qed
qed

lemma newConcurrencyQueue_queue: "queue (newConcurrencyQueue limit) = []"
  by (simp add: newConcurrencyQueue_def)

lemma queueSteps_refine:
  assumes "balanced limit (length held) (capacity q) (waitingCalls q)"
    and "fold queueStep ops (q, held) = (q', held')"
  shows "balanced limit (length held') (capacity q') (waitingCalls q') \<and>
    (held', waitingCalls q') = fold (semaphore limit) ops (held, waitingCalls q)"
  using assms
proof (induction ops arbitrary: q held)
  case Nil
  then show ?case by simp
next
  case (Cons op ops)
  obtain q1 held1 where s: "queueStep op (q, held) = (q1, held1)" by force
  from queueStep_refines [OF Cons.prems(1) s] have b: "balanced limit (length held1) (capacity q1) (waitingCalls q1)"
    and eq: "(held1, waitingCalls q1) = semaphore limit op (held, waitingCalls q)" by auto
  from Cons.prems(2) s have "fold queueStep ops (q1, held1) = (q', held')" by simp
  from Cons.IH [OF b this] show ?case by (simp add: eq)
qed

text \<open>C7: Whatever the sequence of calls of \<open>enqueue\<close> and of ends of executions, the queue lets through and
  keeps waiting exactly the calls a semaphore with the limit as its number of places does, first come first
  served, and its capacity is the limit less the calls it has let through and those that wait.\<close>

theorem queue_refines_semaphore:
  "(case fold queueStep ops (newConcurrencyQueue limit, []) of
      (q, held) \<Rightarrow> (held, waitingCalls q) = fold (semaphore limit) ops ([], []) \<and>
        capacity q = limit - int (length held) - int (length (queue q)))"
proof -
  obtain q held where f: "fold queueStep ops (newConcurrencyQueue limit, []) = (q, held)" by force
  have "balanced limit (length []) (capacity (newConcurrencyQueue limit)) (waitingCalls (newConcurrencyQueue limit))"
    by (simp add: balanced_def newConcurrencyQueue_def)
  from queueSteps_refine [OF this f] show ?thesis by (simp add: f balanced_def newConcurrencyQueue_queue)
qed

end
