(* ===== verification/CapacityProps.thy ===== *)
theory CapacityProps
  imports ConcurrencyProps
begin

text \<open>
  The executions of a process and the limit of the queues: the capacity accounts for every call of \<open>add\<close> in
  every state the events of the process lead to, and only a stop of a queued execution exceeds the limit.
\<close>

section \<open>The executions of a process\<close>

text \<open>The calls of \<open>add\<close> that hold a reservation of a queue.\<close>

definition holds :: "ConcurrencyQueueType \<Rightarrow> AddCall \<Rightarrow> bool" where
  "holds t c \<longleftrightarrow> ac_reservation c \<and> queueOf (ac_mode c) = Some t"

definition holders :: "ConcurrencyQueueType \<Rightarrow> AddCall list \<Rightarrow> nat" where
  "holders t cs = length (filter (holds t) cs)"

definition waitsFor :: "ConcurrencyQueueType \<Rightarrow> AddCall list \<Rightarrow> nat \<Rightarrow> bool" where
  "waitsFor t cs i \<longleftrightarrow> i < length cs \<and> ac_phase (cs ! i) = Reserving \<and> \<not> ac_reservation (cs ! i) \<and>
     queueOf (ac_mode (cs ! i)) = Some t"

lemma holders_change:
  assumes "i < length cs"
  shows "holders t (changeCall i f cs) + (if holds t (cs ! i) then 1 else 0) =
    holders t cs + (if holds t (f (cs ! i)) then 1 else 0)"
  using length_filter_update [OF assms] assms by (simp add: holders_def changeCall_def)

lemma holders_change_same:
  "(\<And>c. holds t (f c) = holds t c) \<Longrightarrow> holders t (changeCall i f cs) = holders t cs"
  using holders_change [of i cs t f] by (cases "i < length cs") (simp_all add: changeCall_def)

lemma waitsFor_change:
  "waitsFor t cs j \<Longrightarrow> i \<noteq> j \<Longrightarrow> waitsFor t (changeCall i f cs) j"
  by (auto simp: waitsFor_def changeCall_def)

lemma resume_holders:
  assumes "waitsFor t cs i"
  shows "holders t' (changeCall i resumeCall cs) = holders t' cs + (if t' = t then 1 else 0)"
  using holders_change [of i cs t' resumeCall] assms
  by (auto simp: waitsFor_def resumeCall_def holds_def)

text \<open>A queue and the calls of its mode fit together.\<close>

definition queueOk :: "int \<Rightarrow> nat \<Rightarrow> ConcurrencyQueueType \<Rightarrow> AddCall list \<Rightarrow> ConcurrencyQueue \<Rightarrow> bool" where
  "queueOk limit n t cs q \<longleftrightarrow> balanced limit (holders t cs) (capacity q) (waitingCalls q) \<and>
     int (holders t cs) \<le> limit + int n \<and>
     distinct (waitingCalls q) \<and> (\<forall>i \<in> set (waitingCalls q). waitsFor t cs i)"

text \<open>What an operation on one queue leaves for the calls it resumes and for those that go on waiting.\<close>

lemma queueOk_resume:
  assumes "balanced limit (holders t cs + length done) (capacity q) (waitingCalls q)"
    and "int (holders t cs + length done) \<le> limit + int n"
    and "distinct (done @ waitingCalls q)" "length done \<le> 1"
    and "\<And>i. i \<in> set (done @ waitingCalls q) \<Longrightarrow> waitsFor t cs i"
  shows "queueOk limit n t (resumeCalls done cs) q"
proof (cases "done")
  case Nil
  with assms show ?thesis by (auto simp: queueOk_def resumeCalls_def)
next
  case (Cons i js)
  with assms(4) have d: "done = [i]" by (cases js) auto
  with assms show ?thesis
    by (auto simp: queueOk_def resumeCalls_def resume_holders [of t cs i t] intro!: waitsFor_change)
qed

lemma queueOk_unrelated:
  assumes "queueOk limit n t cs q" "length done \<le> 1"
    and "\<And>i. i \<in> set done \<Longrightarrow> i < length cs \<Longrightarrow> queueOf (ac_mode (cs ! i)) \<noteq> Some t"
  shows "queueOk limit n t (resumeCalls done cs) q"
proof (cases "done")
  case Nil
  with assms show ?thesis by (simp add: resumeCalls_def)
next
  case (Cons i js)
  with assms(2) have d: "done = [i]" by (cases js) auto
  with assms(3) have m: "queueOf (ac_mode (cs ! i)) \<noteq> Some t" if "i < length cs" using that by simp
  then have "holders t (changeCall i resumeCall cs) = holders t cs"
    using holders_change [of i cs t resumeCall]
    by (cases "i < length cs") (auto simp: holds_def resumeCall_def changeCall_def)
  moreover have "waitsFor t (changeCall i resumeCall cs) j" if "waitsFor t cs j" for j
  proof (rule waitsFor_change [OF that])
    show "i \<noteq> j" using that m by (auto simp: waitsFor_def)
  qed
  ultimately show ?thesis using assms(1) d by (auto simp: queueOk_def resumeCalls_def)
qed

section \<open>The system\<close>

definition queuesOk :: "(ConcurrencyQueueType \<Rightarrow> int) \<Rightarrow> nat \<Rightarrow> (ConcurrencyQueueType \<times> ConcurrencyQueue) list \<Rightarrow> AddCall list \<Rightarrow> bool" where
  "queuesOk limit n qs cs \<longleftrightarrow> (\<forall>t q. map_of qs t = Some q \<longrightarrow> queueOk (limit t) n t cs q)"

definition sameModes :: "AddCall list \<Rightarrow> AddCall list \<Rightarrow> bool" where
  "sameModes cs cs' \<longleftrightarrow> map ac_mode cs' = map ac_mode cs"

text \<open>
  An operation on the queue of a mode: the other queues need only be all right before it; the queue itself
  gets what the operation leaves.
\<close>

lemma onQueue_ok:
  assumes en: "isEnabled cc"
    and others: "\<And>t q. map_of (queues cc) t = Some q \<Longrightarrow> queueOf mode \<noteq> Some t \<Longrightarrow> queueOk (limit t) n t cs q"
    and own: "\<And>t q q' evs done. map_of (queues cc) t = Some q \<Longrightarrow> queueOf mode = Some t \<Longrightarrow> f q = (q', evs, done) \<Longrightarrow>
        balanced (limit t) (holders t cs + length done) (capacity q') (waitingCalls q') \<and>
        int (holders t cs + length done) \<le> limit t + int n \<and> distinct (done @ waitingCalls q') \<and>
        length done \<le> 1 \<and> (\<forall>i \<in> set (done @ waitingCalls q'). waitsFor t cs i)"
    and skip: "length d \<le> 1" "\<And>i. i \<in> set d \<Longrightarrow> i < length cs \<Longrightarrow> ac_mode (cs ! i) = mode"
    and res: "onQueue mode f cc (cc, e, d) = (cc', evs', done')"
  shows "isEnabled cc' \<and> queuesOk limit n (queues cc') (resumeCalls done' cs)"
proof (cases "getQueue mode cc")
  case None
  with res have r: "cc' = cc" "done' = d" by (auto simp: onQueue_def isUnlimited_def)
  have "queueOk (limit t) n t (resumeCalls d cs) q" if "map_of (queues cc) t = Some q" for t q
  proof -
    from None that have "queueOf mode \<noteq> Some t" by (auto simp: getQueue_def)
    with others [OF that] skip show ?thesis by (intro queueOk_unrelated) auto
  qed
  with r en show ?thesis by (simp add: queuesOk_def)
next
  case (Some tq)
  then obtain t q where t: "queueOf mode = Some t" "map_of (queues cc) t = Some q" "getQueue mode cc = Some (t, q)"
    by (auto simp: getQueue_def bind_eq_Some_conv)
  obtain q' evs dn where f: "f q = (q', evs, dn)" by (metis prod_cases3)
  with res t en have r: "cc' = cc\<lparr>queues := AList.update t q' (queues cc)\<rparr>" "done' = dn"
    by (auto simp: onQueue_def isUnlimited_def)
  note o = own [OF t(2,1) f]
  have "queueOk (limit t') n t' (resumeCalls dn cs) q2" if m: "map_of (AList.update t q' (queues cc)) t' = Some q2" for t' q2
  proof (cases "t' = t")
    case True
    with m o show ?thesis by (auto simp: update_conv' intro!: queueOk_resume)
  next
    case False
    with m others [of t' q2] t(1) have "queueOk (limit t') n t' cs q2" by (simp add: update_conv')
    with o False show ?thesis by (intro queueOk_unrelated) (auto simp: waitsFor_def)
  qed
  with r en show ?thesis by (simp add: queuesOk_def)
qed

text \<open>What the three operations of a queue leave, in the form \<open>onQueue_ok\<close> asks for.\<close>

definition leaves :: "int \<Rightarrow> nat \<Rightarrow> ConcurrencyQueueType \<Rightarrow> AddCall list \<Rightarrow> QueueResult \<Rightarrow> bool" where
  "leaves limit n t cs r \<longleftrightarrow> (case r of (q', evs, done) \<Rightarrow>
     balanced limit (holders t cs + length done) (capacity q') (waitingCalls q') \<and>
     int (holders t cs + length done) \<le> limit + int n \<and> distinct (done @ waitingCalls q') \<and>
     length done \<le> 1 \<and> (\<forall>i \<in> set (done @ waitingCalls q'). waitsFor t cs i))"

lemma leaves_enqueue:
  assumes ok: "queueOk limit n t cs q" and w: "waitsFor t cs call" "call \<notin> set (waitingCalls q)"
  shows "leaves limit n t cs (cq_enqueue executionId call q)"
proof (cases "capacity q > 0")
  case True
  with ok cq.balanced_enq [of limit "holders t cs" q executionId call] cq.enq_limit [of limit "holders t cs" q executionId call] w
  show ?thesis by (auto simp: leaves_def queueOk_def withoutEvents_def cq_enqueue_def Let_def)
next
  case False
  with ok cq.balanced_enq [of limit "holders t cs" q executionId call] w
  show ?thesis by (auto simp: leaves_def queueOk_def withoutEvents_def cq_enqueue_def Let_def)
qed

lemma leaves_dequeue:
  assumes b: "balanced limit (Suc (holders t cs)) (capacity q) (waitingCalls q)"
    and n: "int (Suc (holders t cs)) \<le> limit + int n"
    and w: "distinct (waitingCalls q)" "\<And>i. i \<in> set (waitingCalls q) \<Longrightarrow> waitsFor t cs i"
  shows "leaves limit n t cs (cq_dequeue q)"
proof (cases "queue q")
  case Nil
  with cq.balanced_deq [OF b] n show ?thesis
    by (simp add: leaves_def withoutEvents_def cq_dequeue_def cq_resolveNext_def)
next
  case (Cons x xs)
  with cq.balanced_deq [OF b] n w show ?thesis
    by (simp add: leaves_def withoutEvents_def cq_dequeue_def cq_resolveNext_def)
qed

lemma leaves_remove:
  assumes ok: "queueOk limit n t cs q"
  shows "leaves limit (Suc n) t cs (cq_remove executionId q)"
proof (cases "spliceFirst (\<lambda>item. qi_executionId item = executionId) (queue q)")
  case None
  with ok show ?thesis by (auto simp: leaves_def queueOk_def cq_remove_def)
next
  case (Some items)
  have b: "balanced limit (holders t cs) (capacity q) (waitingCalls q)" using ok by (simp add: queueOk_def)
  have d: "distinct (map qi_resolve items)" "\<forall>i \<in> qi_resolve ` set items. waitsFor t cs i"
    using ok spliceFirst_distinct [OF Some] spliceFirst_set [OF Some] by (auto simp: queueOk_def)
  show ?thesis
  proof (cases items)
    case Nil
    with Some cq.balanced_cancel [OF b, of executionId] ok show ?thesis
      by (simp add: leaves_def queueOk_def withoutEvents_def cq_remove_def cq_resolveNext_def)
  next
    case (Cons x xs)
    with Some cq.balanced_cancel [OF b, of executionId] ok d show ?thesis
      by (simp add: leaves_def queueOk_def withoutEvents_def cq_remove_def cq_resolveNext_def)
  qed
qed

text \<open>The invariant of the system after \<open>n\<close> stops by the user.\<close>

definition systemOk :: "(ConcurrencyQueueType \<Rightarrow> int) \<Rightarrow> nat \<Rightarrow> ActiveSystem \<Rightarrow> bool" where
  "systemOk limit n s \<longleftrightarrow> isEnabled (control s) \<and> queuesOk limit n (queues (control s)) (calls s)"

lemma queueOk_mono: "queueOk limit n t cs q \<Longrightarrow> n \<le> m \<Longrightarrow> queueOk limit m t cs q"
  by (auto simp: queueOk_def)

lemma applyControl_ok:
  assumes "isEnabled (control s)"
    and "\<And>t q. map_of (queues (control s)) t = Some q \<Longrightarrow> queueOf mode \<noteq> Some t \<Longrightarrow> queueOk (limit t) n t (calls s) q"
    and "\<And>t q. map_of (queues (control s)) t = Some q \<Longrightarrow> queueOf mode = Some t \<Longrightarrow> leaves (limit t) n t (calls s) (f q)"
    and "length d \<le> 1" "\<And>i. i \<in> set d \<Longrightarrow> i < length (calls s) \<Longrightarrow> ac_mode (calls s ! i) = mode"
    and c: "c = control s"
  shows "systemOk limit n (applyControl (onQueue mode f c (c, e, d)) s)"
proof -
  obtain cc' evs' done' where r: "onQueue mode f (control s) (control s, e, d) = (cc', evs', done')"
    by (metis prod_cases3)
  have "isEnabled cc' \<and> queuesOk limit n (queues cc') (resumeCalls done' (calls s))"
    by (rule onQueue_ok [OF assms(1,2) _ assms(4,5) r]) (use assms(3) in \<open>fastforce simp: leaves_def\<close>)+
  with r c show ?thesis by (simp add: systemOk_def applyControl_def)
qed

section \<open>The events keep the invariant\<close>

lemma queueOk_append:
  assumes "queueOk limit n t cs q" "\<not> ac_reservation c"
  shows "queueOk limit n t (cs @ [c]) q"
proof -
  have "waitsFor t (cs @ [c]) i" if "waitsFor t cs i" for i
    using that by (auto simp: waitsFor_def nth_append)
  with assms show ?thesis by (auto simp: queueOk_def holders_def holds_def)
qed

lemma queueOk_change:
  assumes "queueOk limit n t cs q"
    and "i < length cs \<Longrightarrow> holds t (f (cs ! i)) = holds t (cs ! i)"
    and "waitsFor t cs i \<Longrightarrow> waitsFor t (changeCall i f cs) i"
  shows "queueOk limit n t (changeCall i f cs) q"
proof -
  have "holders t (changeCall i f cs) = holders t cs"
    using holders_change [of i cs t f] assms(2) by (cases "i < length cs") (auto simp: changeCall_def split: if_splits)
  moreover have "waitsFor t (changeCall i f cs) j" if "waitsFor t cs j" for j
    using that assms(3) waitsFor_change [OF that, of i f] by (cases "i = j") auto
  ultimately show ?thesis using assms(1) by (auto simp: queueOk_def)
qed

lemma systemOk_change:
  assumes "systemOk limit n s"
    and "\<And>t. i < length (calls s) \<Longrightarrow> holds t (f (calls s ! i)) = holds t (calls s ! i)"
    and "\<And>t. waitsFor t (calls s) i \<Longrightarrow> waitsFor t (changeCall i f (calls s)) i"
  shows "systemOk limit n (s\<lparr>calls := changeCall i f (calls s)\<rparr>)"
  using assms queueOk_change [OF _ assms(2,3)] by (simp add: systemOk_def queuesOk_def)

lemma addExecution_ok:
  assumes "systemOk limit n s"
  shows "systemOk limit n (addExecution executionId mode existing s)"
proof -
  let ?c = "\<lparr>ac_executionId = executionId, ac_mode = mode, ac_phase = Reserving, ac_reservation = False,
      ac_status = (if existing then Running else New)\<rparr>"
  let ?s = "s\<lparr>calls := calls s @ [?c]\<rparr>"
  have q: "queueOk (limit t) n t (calls ?s) q" if "map_of (queues (control s)) t = Some q" for t q
    using that assms queueOk_append [of "limit t" n t "calls s" q ?c] by (simp add: systemOk_def queuesOk_def)
  have new: "length (calls s) \<notin> set (waitingCalls q)" if "map_of (queues (control s)) t = Some q" for t q
  proof -
    have "\<not> waitsFor t (calls s) (length (calls s))" by (simp add: waitsFor_def)
    with that assms show ?thesis unfolding systemOk_def queuesOk_def queueOk_def by blast
  qed
  have "systemOk limit n (applyControl (onQueue mode (cq_enqueue executionId (length (calls s))) (control s)
      (control s, [], [length (calls s)])) ?s)"
  proof (rule applyControl_ok)
    fix t q assume m: "map_of (queues (control ?s)) t = Some q" "queueOf mode = Some t"
    from m(2) have "waitsFor t (calls ?s) (length (calls s))" by (simp add: waitsFor_def)
    with q new m(1) show "leaves (limit t) n t (calls ?s) (cq_enqueue executionId (length (calls s)) q)"
      by (intro leaves_enqueue) auto
  qed (use assms q in \<open>auto simp: systemOk_def\<close>)
  then show ?thesis by (simp add: addExecution_def throttle_def)
qed

lemma releaseReservation_ok:
  assumes "systemOk limit n s"
  shows "systemOk limit n (releaseReservation i s)"
proof (cases "i < length (calls s) \<and> ac_reservation (calls s ! i)")
  case True
  let ?f = "\<lambda>c. c\<lparr>ac_reservation := False\<rparr>"
  let ?s = "s\<lparr>calls := changeCall i ?f (calls s)\<rparr>" and ?mode = "ac_mode (calls s ! i)"
  have q: "queueOk (limit t) n t (calls s) q" if "map_of (queues (control s)) t = Some q" for t q
    using that assms by (simp add: systemOk_def queuesOk_def)
  have nw: "\<not> waitsFor t (calls s) i" for t using True by (simp add: waitsFor_def)
  have "systemOk limit n (applyControl (onQueue ?mode cq_dequeue (control s) (control s, [], [])) ?s)"
  proof (rule applyControl_ok)
    fix t q assume m: "map_of (queues (control ?s)) t = Some q" "queueOf ?mode \<noteq> Some t"
    then show "queueOk (limit t) n t (calls ?s) q"
      using nw q [of t q] by (auto intro!: queueOk_change simp: holds_def)
  next
    fix t q assume m: "map_of (queues (control ?s)) t = Some q" "queueOf ?mode = Some t"
    from m(2) True holders_change [of i "calls s" t ?f]
    have h: "holders t (calls s) = Suc (holders t (calls ?s))" by (simp add: holds_def)
    from q [of t q] m(1) have ok: "queueOk (limit t) n t (calls s) q" by simp
    then have "waitsFor t (calls ?s) j" if "j \<in> set (waitingCalls q)" for j
      using that nw by (auto simp: queueOk_def intro!: waitsFor_change)
    with ok h show "leaves (limit t) n t (calls ?s) (cq_dequeue q)"
      by (intro leaves_dequeue) (auto simp: queueOk_def)
  qed (use assms in \<open>auto simp: systemOk_def\<close>)
  with True show ?thesis by (simp add: releaseReservation_def releaseCapacity_def)
next
  case False
  with assms show ?thesis by (auto simp: releaseReservation_def)
qed

lemma systemOk_active: "systemOk limit n (s\<lparr>activeExecutions := a\<rparr>) = systemOk limit n s"
  by (simp add: systemOk_def)

lemma databaseDone_ok:
  assumes "systemOk limit n s"
  shows "systemOk limit n (databaseDone i ok s)"
proof (cases "callIn Reserved i s")
  case True
  then have nw: "\<not> waitsFor t (calls s) i" for t by (simp add: callIn_def waitsFor_def)
  have c: "systemOk limit n (s\<lparr>calls := changeCall i f (calls s)\<rparr>)" if "\<And>t c. holds t (f c) = holds t c" for f
    using assms that nw by (intro systemOk_change) auto
  from c [of "\<lambda>c. c\<lparr>ac_phase := AddFailed\<rparr>"] c [of "\<lambda>c. c\<lparr>ac_phase := Executing, ac_status := Running\<rparr>"] True
  show ?thesis
    by (auto simp: databaseDone_def holds_def systemOk_active intro!: releaseReservation_ok)
next
  case False
  with assms show ?thesis by (simp add: databaseDone_def)
qed

lemma settle_ok: "systemOk limit n s \<Longrightarrow> systemOk limit n (settle i s)"
  by (auto simp: settle_def callIn_def waitsFor_def holds_def intro!: systemOk_change)

lemma removeExecution_ok: "systemOk limit n (removeExecution executionId s) = systemOk limit n s"
  by (simp add: removeExecution_def systemOk_active)

lemma stopExecution_ok: "systemOk limit n s \<Longrightarrow> systemOk limit n (stopExecution executionId s)"
  by (auto simp: stopExecution_def removeExecution_ok settle_ok split: option.splits)

lemma runFinally_ok:
  assumes "systemOk limit n s"
  shows "systemOk limit n (runFinally i s)"
proof (cases "callIn Settled i s")
  case True
  then have nw: "\<not> waitsFor t (calls s) i" for t by (simp add: callIn_def waitsFor_def)
  have "systemOk limit n (s\<lparr>calls := changeCall i (\<lambda>c. c\<lparr>ac_phase := Closed\<rparr>) (calls s)\<rparr>)"
    using assms nw by (intro systemOk_change) (auto simp: holds_def)
  from releaseReservation_ok [OF this, of i] show ?thesis
    by (simp add: runFinally_def Let_def removeExecution_ok assms)
next
  case False
  with assms show ?thesis by (simp add: runFinally_def)
qed

lemma setStatus_ok: "systemOk limit n s \<Longrightarrow> setStatus executionId st s = Inr s' \<Longrightarrow> systemOk limit n s'"
proof -
  assume ok: "systemOk limit n s" and "setStatus executionId st s = Inr s'"
  then obtain i where s': "s' = s\<lparr>calls := changeCall i (\<lambda>c. c\<lparr>ac_status := st\<rparr>) (calls s)\<rparr>"
    by (auto simp: setStatus_def rbind_eq_Inr)
  show ?thesis unfolding s'
    by (rule systemOk_change [OF ok]) (auto simp: holds_def waitsFor_def changeCall_def)
qed

lemma stopInRegularMode_ok:
  assumes "systemOk limit n s"
  shows "systemOk limit (Suc n) (stopInRegularMode executionId mode s)"
proof -
  have q: "queueOk (limit t) n t (calls s) q" if "map_of (queues (control s)) t = Some q" for t q
    using that assms by (simp add: systemOk_def queuesOk_def)
  have "systemOk limit (Suc n) (applyControl (onQueue mode (cq_remove executionId) (control s) (control s, [], [])) s)"
  proof (rule applyControl_ok)
    fix t q assume "map_of (queues (control s)) t = Some q"
    from q [OF this] show "queueOk (limit t) (Suc n) t (calls s) q" by (rule queueOk_mono) simp
  next
    fix t q assume "map_of (queues (control s)) t = Some q"
    from q [OF this] show "leaves (limit t) (Suc n) t (calls s) (cq_remove executionId q)" by (rule leaves_remove)
  qed (use assms in \<open>auto simp: systemOk_def\<close>)
  moreover have "systemOk limit (Suc n) s"
    using assms queueOk_mono [of _ n _ "calls s" _ "Suc n"] by (auto simp: systemOk_def queuesOk_def)
  ultimately show ?thesis by (simp add: stopInRegularMode_def removeQueued_def stopExecution_ok)
qed

lemmas event_ok = addExecution_ok databaseDone_ok settle_ok stopExecution_ok runFinally_ok

fun isStopByUser :: "ActiveEvent \<Rightarrow> bool" where
  "isStopByUser (StopByUser executionId mode) = True"
| "isStopByUser _ = False"

lemma perform_ok:
  "systemOk limit n s \<Longrightarrow> systemOk limit (if isStopByUser ev then Suc n else n) (perform ev s)"
  by (cases ev)
    (auto simp: finalizeExecution_def event_ok stopInRegularMode_ok split: option.splits sum.splits intro: setStatus_ok)

lemma performs_ok:
  "systemOk limit n s \<Longrightarrow> systemOk limit (n + length (filter isStopByUser evs)) (fold perform evs s)"
proof (induction evs arbitrary: n s)
  case (Cons ev evs)
  from Cons.IH [OF perform_ok [OF Cons.prems, of ev]] show ?case by (cases "isStopByUser ev") simp_all
qed simp

section \<open>The limit\<close>

lemma newActiveSystem_ok:
  assumes "newConcurrencyControl productionLimit evaluationLimit mode = Inr cc" and "isEnabled cc"
  shows "systemOk (\<lambda>t. the (map_of (limits cc) t)) 0 (newActiveSystem cc)"
proof -
  have q: "queueOk limit 0 t [] (newConcurrencyQueue limit)" if "0 < limit" for limit t
    using that by (simp add: queueOk_def balanced_def holders_def newConcurrencyQueue_def)
  from assms show ?thesis
    by (auto simp: newConcurrencyControl_def checkLimit_def rbind_eq_Inr systemOk_def queuesOk_def
        newActiveSystem_def intro!: q split: if_splits)
qed

text \<open>C6: In every state the events of a process lead to, the capacity of a queue is its limit less the
  executions that hold a reservation and those that wait; nobody waits while the limit is not reached; and the
  executions that hold a reservation exceed the limit at most by the number of stops by the user.\<close>

theorem concurrency_limit:
  assumes "newConcurrencyControl productionLimit evaluationLimit mode = Inr cc" and "isEnabled cc"
    and "map_of (queues (control (fold perform evs (newActiveSystem cc)))) t = Some q"
    and "map_of (limits cc) t = Some limit"
  shows "capacity q = limit - int (holders t (calls (fold perform evs (newActiveSystem cc)))) - int (length (queue q)) \<and>
    (queue q = [] \<or> limit \<le> int (holders t (calls (fold perform evs (newActiveSystem cc))))) \<and>
    int (holders t (calls (fold perform evs (newActiveSystem cc)))) \<le> limit + int (length (filter isStopByUser evs))"
proof -
  have "queueOk limit (length (filter isStopByUser evs)) t (calls (fold perform evs (newActiveSystem cc))) q"
    using performs_ok [OF newActiveSystem_ok [OF assms(1,2)], of evs] assms(3,4)
    by (fastforce simp: systemOk_def queuesOk_def)
  then show ?thesis by (simp add: queueOk_def balanced_def)
qed

text \<open>The scenario of the test \<open>should limit concurrency\<close>, with the first execution still running.\<close>

definition oneProduction :: ConcurrencyControl where
  "oneProduction = \<lparr>isEnabled = True, limits = [(Production, 1), (Evaluation, -1)],
     queues = [(Production, newConcurrencyQueue 1)]\<rparr>"

definition stopQueued :: "ActiveEvent list" where
  "stopQueued = [Add ''3'' WebhookMode False, DatabaseDone 0 True, Add ''4'' WebhookMode False,
     Add ''5'' WebhookMode False, StopByUser ''4'' WebhookMode, DatabaseDone 2 True]"

lemma concurrency_limit_witness:
  "newConcurrencyControl 1 (-1) RegularExecutions = Inr oneProduction \<and>
   holders Production (calls (fold perform stopQueued (newActiveSystem oneProduction))) = 2 \<and>
   int (holders Production (calls (fold perform stopQueued (newActiveSystem oneProduction)))) \<le>
     1 + int (length (filter isStopByUser stopQueued))"
proof -
  let ?s = "fold perform stopQueued (newActiveSystem oneProduction)"
  have n: "newConcurrencyControl 1 (-1) RegularExecutions = Inr oneProduction" by code_simp
  have q: "map_of (queues (control ?s)) Production = Some \<lparr>capacity = -1, queue = []\<rparr>" by code_simp
  have h: "holders Production (calls ?s) = 2" by code_simp
  have e: "isEnabled oneProduction" "map_of (limits oneProduction) Production = Some 1"
    by (simp_all add: oneProduction_def)
  from concurrency_limit [OF n e(1) q e(2)] n h show ?thesis by simp
qed

text \<open>Stopping an execution that waits starts the next one although nothing has ended, so that two
  executions run with a limit of one; the capacity stays below zero, and the call of the stopped one is left
  awaiting its turn without a place in the queue.\<close>

theorem stop_of_queued_exceeds_limit:
  "(let s = fold perform stopQueued (newActiveSystem oneProduction) in
     map ac_phase (calls s) = [Executing, Reserving, Executing] \<and>
     holders Production (calls s) = 2 \<and> hasQueued ''4'' (control s) = False \<and>
     map_of (queues (control s)) Production = Some \<lparr>capacity = -1, queue = []\<rparr>)"
  by code_simp

text \<open>Emptying a queue with \<open>removeAll\<close> starts every second execution instead.\<close>

lemma removeAll_starts_every_second:
  "drainQueue \<lparr>capacity = -4, queue = [\<lparr>qi_executionId = ''a'', qi_resolve = 1\<rparr>, \<lparr>qi_executionId = ''b'', qi_resolve = 2\<rparr>,
     \<lparr>qi_executionId = ''c'', qi_resolve = 3\<rparr>, \<lparr>qi_executionId = ''d'', qi_resolve = 4\<rparr>]\<rparr> =
   (\<lparr>capacity = -2, queue = []\<rparr>, [ExecutionReleased ''b'', ExecutionReleased ''d''], [2, 4])"
  by code_simp

lemma shutdownOne_control: "control (fst (shutdownOne r c executionId (s, ids))) = control s"
  and shutdownOne_cancelled: "cancelled (fst (shutdownOne r c executionId (s, ids))) = cancelled s"
  by (auto simp: shutdownOne_def stopExecution_def removeExecution_def settle_def split: option.splits)

lemma shutdownOnes:
  "control (fst (fold (shutdownOne r c) es p)) = control (fst p) \<and> cancelled (fst (fold (shutdownOne r c) es p)) = cancelled (fst p)"
proof (induction es arbitrary: p)
  case (Cons e es)
  show ?case using Cons.IH [of "shutdownOne r c e p"] shutdownOne_control [of r c e "fst p" "snd p"]
      shutdownOne_cancelled [of r c e "fst p" "snd p"] by simp
qed simp

text \<open>A shutdown in regular mode cancels no execution in the database and leaves the queues as they are:
  \<open>disable\<close> comes before \<open>removeAll\<close>, which then returns at once.\<close>

theorem shutdown_cancels_nothing:
  "cancelled (shutdown RegularExecutions cancelAll s) = cancelled s \<and>
   queues (control (shutdown RegularExecutions cancelAll s)) = queues (control s)"
proof -
  let ?s1 = "s\<lparr>control := disableControl (control s)\<rparr>"
  obtain s2 ids where f: "fold (shutdownOne True cancelAll) (map fst (activeExecutions s)) (?s1, []) = (s2, ids)" by force
  with shutdownOnes [of True cancelAll "map fst (activeExecutions s)" "(?s1, [])"]
  have c: "control s2 = disableControl (control s)" "cancelled s2 = cancelled s" by simp_all
  then have "removeAll_queued ids (control s2) = ((control s2, [], []), None)"
    by (simp add: removeAll_queued_def disableControl_def)
  with f c show ?thesis by (simp add: shutdown_def applyControl_def Let_def disableControl_def)
qed

end
