(* ===== verification/TaskBroker.thy ===== *)
theory TaskBroker
  imports WorkflowTypes
begin

text \<open>
  The broker between the nodes that ask for a task and the runners that execute it:
  \<^verbatim>\<open>packages/cli/src/task-runners/task-broker/task-broker.service.ts\<close>.

  \<^item> A request is an object that the broker shares between its list and the calls of \<open>acceptOffer\<close>: the list
    holds references, the positions in the store \<open>requests\<close>.
  \<^item> A call of the asynchronous \<open>acceptOffer\<close> is a record with the promise it awaits. A handler settles the
    promise; the rest of the call is an event of its own.
  \<^item> Timers are kept with what they call; clearing one makes it inactive.
  \<^item> \<open>ids\<close> are the results of \<open>nanoid\<close>. The callbacks that send a message return at once and do not throw.
\<close>

section \<open>Messages\<close>

datatype RunnerMessage =
    RunnerTaskAccepted string
  | RunnerTaskRejected string string
  | RunnerTaskDeferred string
  | RunnerTaskOffer string string int
  | RunnerTaskDone string json
  | RunnerTaskError string json
  | RunnerTaskDataRequest string string json
  | RunnerNodeTypesRequest string string json
  | RunnerRpc string string string json
  | RunnerInfo

datatype RequesterMessage =
    RequesterTaskSettings string json
  | RequesterTaskCancel string string
  | RequesterTaskRequest string string
  | RequesterTaskDataResponse string string json
  | RequesterNodeTypesResponse string string json
  | RequesterRpcResponse string string string json

datatype BrokerToRunner =
    BrokerRunnerRegistered
  | BrokerTaskOfferAccept string string
  | BrokerTaskCancel string string
  | BrokerTaskSettings string json
  | BrokerTaskDataResponse string string json
  | BrokerNodeTypes string string json
  | BrokerRpcResponse string string string json

datatype BrokerToRequester =
    BrokerTaskReady string string
  | BrokerTaskDone string json
  | BrokerTaskError string json
  | BrokerRequestExpired string string
  | BrokerTaskDataRequest string string json
  | BrokerNodeTypesRequest string string json
  | BrokerRpc string string string json

datatype Sent = ToRunner string BrokerToRunner | ToRequester string BrokerToRequester | RunnerTimedOutDuringTask

section \<open>The state\<close>

record TaskRunner =
  tr_id :: string
  tr_taskTypes :: "string list"

record Task =
  task_id :: string
  task_runnerId :: string
  task_requesterId :: string
  task_taskType :: string
  task_timeout :: "nat option"

record TaskOffer =
  of_offerId :: string
  of_runnerId :: string
  of_taskType :: string
  of_validFor :: int
  of_validUntil :: int

record TaskRequest =
  rq_requestId :: string
  rq_requesterId :: string
  rq_taskType :: string
  rq_timeout :: nat
  rq_acceptInProgress :: bool

text \<open>How the promise of the runner and that of the requester are settled.\<close>

datatype RunnerAnswer = RunnerAccepted | RunnerRejected string | RunnerDeferred | RunnerAcceptTimeout

datatype RequesterAnswer = RequesterAccepted json | RequesterRejected string | RequesterTimeout

datatype AcceptPhase =
    AwaitsRunner "RunnerAnswer option"
  | AwaitsRequester "RequesterAnswer option"
  | AcceptEnded bool

text \<open>\<open>AcceptEnded\<close> tells whether the runner had accepted.\<close>

record AcceptOffer =
  ao_offer :: TaskOffer
  ao_request :: nat
  ao_taskId :: string
  ao_state :: AcceptPhase

datatype BrokerTimer = RequestTimer string | RunnerAcceptTimer nat | RequesterAcceptTimer nat | TaskTimer string

datatype BrokerError = CannotFindTask string | CannotFindRunner string | RequesterTimedOut

datatype RunnerMode = InternalRunner | ExternalRunner

record TaskBroker =
  knownRunners :: "(string \<times> TaskRunner) list"
  requesters :: "string list"
  tasks :: "(string \<times> Task) list"
  runnerAcceptRejects :: "(string \<times> nat) list"
  requesterAcceptRejects :: "(string \<times> nat) list"
  pendingTaskOffers :: "TaskOffer list"
  pendingTaskRequests :: "nat list"
  requests :: "TaskRequest list"
  accepts :: "AcceptOffer list"
  timers :: "(BrokerTimer \<times> bool) list"
  now :: int
  sent :: "Sent list"
  unhandled :: "BrokerError list"
  broker_mode :: RunnerMode
  broker_taskTimeout :: int

definition newTaskBroker :: "int \<Rightarrow> RunnerMode \<Rightarrow> js_error + TaskBroker" where
  "newTaskBroker taskTimeout mode =
     (if taskTimeout \<le> 0 then Inl (UserError ''Task timeout must be greater than 0'')
      else Inr \<lparr>knownRunners = [], requesters = [], tasks = [], runnerAcceptRejects = [], requesterAcceptRejects = [],
        pendingTaskOffers = [], pendingTaskRequests = [], requests = [], accepts = [], timers = [], now = 0,
        sent = [], unhandled = [], broker_mode = mode,
        broker_taskTimeout = taskTimeout\<rparr>)"

section \<open>Timers and messages\<close>

definition startTimer :: "BrokerTimer \<Rightarrow> TaskBroker \<Rightarrow> TaskBroker" where
  "startTimer t b = b\<lparr>timers := timers b @ [(t, True)]\<rparr>"

definition clearTimer :: "nat \<Rightarrow> TaskBroker \<Rightarrow> TaskBroker" where
  "clearTimer i b = (if i < length (timers b) then b\<lparr>timers := (timers b)[i := (fst (timers b ! i), False)]\<rparr> else b)"

definition clearTaskTimer :: "nat option \<Rightarrow> TaskBroker \<Rightarrow> TaskBroker" where
  "clearTaskTimer t b = (case t of None \<Rightarrow> b | Some i \<Rightarrow> clearTimer i b)"

definition messageRunner :: "string \<Rightarrow> BrokerToRunner \<Rightarrow> TaskBroker \<Rightarrow> TaskBroker" where
  "messageRunner runnerId m b =
     (if map_of (knownRunners b) runnerId = None then b else b\<lparr>sent := sent b @ [ToRunner runnerId m]\<rparr>)"

definition messageRequester :: "string \<Rightarrow> BrokerToRequester \<Rightarrow> TaskBroker \<Rightarrow> TaskBroker" where
  "messageRequester requesterId m b =
     (if requesterId \<in> set (requesters b) then b\<lparr>sent := sent b @ [ToRequester requesterId m]\<rparr> else b)"

definition setRequest :: "nat \<Rightarrow> (TaskRequest \<Rightarrow> TaskRequest) \<Rightarrow> TaskBroker \<Rightarrow> TaskBroker" where
  "setRequest r f b = (if r < length (requests b) then b\<lparr>requests := (requests b)[r := f (requests b ! r)]\<rparr> else b)"

definition setAccept :: "nat \<Rightarrow> AcceptPhase \<Rightarrow> TaskBroker \<Rightarrow> TaskBroker" where
  "setAccept k p b = (if k < length (accepts b) then b\<lparr>accepts := (accepts b)[k := (accepts b ! k)\<lparr>ao_state := p\<rparr>]\<rparr> else b)"

text \<open>\<open>findIndex\<close> by the id of a request and \<open>splice\<close>: the first reference to a request with the id goes.\<close>

fun takeRequest :: "TaskRequest list \<Rightarrow> string \<Rightarrow> nat list \<Rightarrow> (nat \<times> nat list) option" where
  "takeRequest rs requestId [] = None"
| "takeRequest rs requestId (r # pending) =
     (if rq_requestId (rs ! r) = requestId then Some (r, pending)
      else map_option (\<lambda>(x, p). (x, r # p)) (takeRequest rs requestId pending))"

definition handleRequestTimeout :: "string \<Rightarrow> TaskBroker \<Rightarrow> TaskBroker" where
  "handleRequestTimeout requestId b = (case takeRequest (requests b) requestId (pendingTaskRequests b) of
     None \<Rightarrow> b
   | Some (r, pending) \<Rightarrow>
       messageRequester (rq_requesterId (requests b ! r)) (BrokerRequestExpired (rq_requestId (requests b ! r)) ''timeout'')
         (clearTimer (rq_timeout (requests b ! r)) (b\<lparr>pendingTaskRequests := pending\<rparr>)))"

section \<open>Tasks\<close>

definition cancelTask :: "string \<Rightarrow> string \<Rightarrow> TaskBroker \<Rightarrow> TaskBroker" where
  "cancelTask taskId reason b = (case map_of (tasks b) taskId of
     None \<Rightarrow> b
   | Some t \<Rightarrow> messageRunner (task_runnerId t) (BrokerTaskCancel taskId reason) (b\<lparr>tasks := AList.delete taskId (tasks b)\<rparr>))"

definition failTask :: "string \<Rightarrow> json \<Rightarrow> TaskBroker \<Rightarrow> TaskBroker" where
  "failTask taskId error b = (case map_of (tasks b) taskId of
     None \<Rightarrow> b
   | Some t \<Rightarrow> messageRequester (task_requesterId t) (BrokerTaskError taskId error) (b\<lparr>tasks := AList.delete taskId (tasks b)\<rparr>))"

text \<open>The error values; their messages name the task or the runner.\<close>

definition brokerErrorJson :: "BrokerError \<Rightarrow> json" where
  "brokerErrorJson e = (case e of
     CannotFindTask taskId \<Rightarrow> JStr (''Cannot find runner, failed to find task ('' @ taskId @ '')'')
   | CannotFindRunner runnerId \<Rightarrow> JStr (''Cannot find runner, failed to find runner ('' @ runnerId @ '')'')
   | RequesterTimedOut \<Rightarrow> JStr ''Requester timed out'')"

definition getRunnerOrFailTask :: "string \<Rightarrow> TaskBroker \<Rightarrow> (BrokerError + TaskRunner) \<times> TaskBroker" where
  "getRunnerOrFailTask taskId b = (case map_of (tasks b) taskId of
     None \<Rightarrow> (Inl (CannotFindTask taskId), b)
   | Some t \<Rightarrow>
       (case map_of (knownRunners b) (task_runnerId t) of
          None \<Rightarrow> (let e = CannotFindRunner (task_runnerId t) in (Inl e, failTask taskId (brokerErrorJson e) b))
        | Some runner \<Rightarrow> (Inr runner, b)))"

text \<open>What the requester answers goes to the runner of the task.\<close>

definition forwardToRunner :: "string \<Rightarrow> BrokerToRunner \<Rightarrow> TaskBroker \<Rightarrow> BrokerError option \<times> TaskBroker" where
  "forwardToRunner taskId m b = (case getRunnerOrFailTask taskId b of
     (Inl e, b') \<Rightarrow> (Some e, b') | (Inr runner, b') \<Rightarrow> (None, messageRunner (tr_id runner) m b'))"

text \<open>What the runner asks for goes to the requester of the task.\<close>

definition forwardToRequester :: "string \<Rightarrow> BrokerToRequester \<Rightarrow> TaskBroker \<Rightarrow> TaskBroker" where
  "forwardToRequester taskId m b = (case map_of (tasks b) taskId of
     None \<Rightarrow> b | Some t \<Rightarrow> messageRequester (task_requesterId t) m b)"

text \<open>\<open>handleResponse\<close> hands the id of the requester to \<open>messageRunner\<close>.\<close>

definition handleResponse :: "string \<Rightarrow> string \<Rightarrow> json \<Rightarrow> TaskBroker \<Rightarrow> TaskBroker" where
  "handleResponse taskId requestId data b = (case map_of (tasks b) taskId of
     None \<Rightarrow> b | Some t \<Rightarrow> messageRunner (task_requesterId t) (BrokerTaskDataResponse taskId requestId data) b)"

definition sendTaskSettings :: "string \<Rightarrow> json \<Rightarrow> TaskBroker \<Rightarrow> BrokerError option \<times> TaskBroker" where
  "sendTaskSettings taskId settings b = (case getRunnerOrFailTask taskId b of
     (Inl e, b') \<Rightarrow> (Some e, b')
   | (Inr runner, b') \<Rightarrow>
       (case map_of (tasks b') taskId of
          None \<Rightarrow> (None, b')
        | Some t \<Rightarrow> (None, messageRunner (tr_id runner) (BrokerTaskSettings taskId settings)
            (startTimer (TaskTimer taskId)
              (b'\<lparr>tasks := AList.update taskId (t\<lparr>task_timeout := Some (length (timers b'))\<rparr>) (tasks b')\<rparr>)))))"

definition endTask :: "string \<Rightarrow> (string \<Rightarrow> BrokerToRequester) \<Rightarrow> TaskBroker \<Rightarrow> TaskBroker" where
  "endTask taskId m b = (case map_of (tasks b) taskId of
     None \<Rightarrow> b
   | Some t \<Rightarrow>
       (let b1 = messageRequester (task_requesterId t) (m (task_id t)) (clearTaskTimer (task_timeout t) b)
        in b1\<lparr>tasks := AList.delete (task_id t) (tasks b1)\<rparr>))"

definition taskDoneHandler :: "string \<Rightarrow> json \<Rightarrow> TaskBroker \<Rightarrow> TaskBroker" where
  "taskDoneHandler taskId data b = endTask taskId (\<lambda>i. BrokerTaskDone i data) b"

definition taskErrorHandler :: "string \<Rightarrow> json \<Rightarrow> TaskBroker \<Rightarrow> TaskBroker" where
  "taskErrorHandler taskId error b = endTask taskId (\<lambda>i. BrokerTaskError i error) b"

text \<open>The message of \<open>TaskRunnerExecutionTimeoutError\<close>, without its description.\<close>

definition executionTimeoutError :: "int \<Rightarrow> json" where
  "executionTimeoutError t = JStr (''Task execution timed out after '' @ nat_str (nat t) @
     (if t = 1 then '' second'' else '' seconds''))"

definition handleTaskTimeout :: "string \<Rightarrow> TaskBroker \<Rightarrow> TaskBroker" where
  "handleTaskTimeout taskId b = (case map_of (tasks b) taskId of
     None \<Rightarrow> b
   | Some t \<Rightarrow> taskErrorHandler taskId (executionTimeoutError (broker_taskTimeout b))
       (case broker_mode b of
          InternalRunner \<Rightarrow> b\<lparr>sent := sent b @ [RunnerTimedOutDuringTask]\<rparr>
        | ExternalRunner \<Rightarrow> messageRunner (task_runnerId t) (BrokerTaskCancel taskId ''Task execution timed out'') b))"

section \<open>Answers\<close>

definition settleRunner :: "string \<Rightarrow> RunnerAnswer \<Rightarrow> TaskBroker \<Rightarrow> TaskBroker" where
  "settleRunner taskId a b = (case map_of (runnerAcceptRejects b) taskId of
     None \<Rightarrow> b
   | Some k \<Rightarrow>
       (if k < length (accepts b) \<and> ao_state (accepts b ! k) = AwaitsRunner None
        then setAccept k (AwaitsRunner (Some a)) b else b)
       \<lparr>runnerAcceptRejects := AList.delete taskId (runnerAcceptRejects b)\<rparr>)"

definition handleRunnerAccept :: "string \<Rightarrow> TaskBroker \<Rightarrow> TaskBroker" where
  "handleRunnerAccept taskId b = settleRunner taskId RunnerAccepted b"

definition handleRunnerReject :: "string \<Rightarrow> string \<Rightarrow> TaskBroker \<Rightarrow> TaskBroker" where
  "handleRunnerReject taskId reason b = settleRunner taskId (RunnerRejected reason) b"

definition handleRunnerDeferred :: "string \<Rightarrow> TaskBroker \<Rightarrow> TaskBroker" where
  "handleRunnerDeferred taskId b = settleRunner taskId RunnerDeferred b"

definition settleRequester :: "string \<Rightarrow> RequesterAnswer \<Rightarrow> TaskBroker \<Rightarrow> TaskBroker" where
  "settleRequester taskId a b = (case map_of (requesterAcceptRejects b) taskId of
     None \<Rightarrow> b
   | Some k \<Rightarrow>
       (if k < length (accepts b) \<and> ao_state (accepts b ! k) = AwaitsRequester None
        then setAccept k (AwaitsRequester (Some a)) b else b)
       \<lparr>requesterAcceptRejects := AList.delete taskId (requesterAcceptRejects b)\<rparr>)"

definition handleRequesterAccept :: "string \<Rightarrow> json \<Rightarrow> TaskBroker \<Rightarrow> TaskBroker" where
  "handleRequesterAccept taskId settings b = settleRequester taskId (RequesterAccepted settings) b"

definition handleRequesterReject :: "string \<Rightarrow> string \<Rightarrow> TaskBroker \<Rightarrow> TaskBroker" where
  "handleRequesterReject taskId reason b = settleRequester taskId (RequesterRejected reason) b"

section \<open>Accepting an offer\<close>

text \<open>\<open>acceptOffer\<close> up to the promise of the runner.\<close>

definition acceptOffer :: "(nat \<Rightarrow> string) \<Rightarrow> TaskOffer \<Rightarrow> nat \<Rightarrow> TaskBroker \<Rightarrow> TaskBroker" where
  "acceptOffer ids offer r b =
     (let k = length (accepts b); taskId = ids k in
      messageRunner (of_runnerId offer) (BrokerTaskOfferAccept (of_offerId offer) taskId)
        (startTimer (RunnerAcceptTimer k)
          (b\<lparr>accepts := accepts b @ [\<lparr>ao_offer = offer, ao_request = r, ao_taskId = taskId, ao_state = AwaitsRunner None\<rparr>],
             runnerAcceptRejects := AList.update taskId k (runnerAcceptRejects b)\<rparr>)))"

text \<open>The runner has not accepted: the request is free again. A deferred one is pushed to the list a second time.\<close>

definition runnerRefused :: "RunnerAnswer \<Rightarrow> nat \<Rightarrow> TaskBroker \<Rightarrow> TaskBroker" where
  "runnerRefused a r b =
     (let b1 = setRequest r (\<lambda>q. q\<lparr>rq_acceptInProgress := False\<rparr>) b in
      if a = RunnerDeferred
      then (let b2 = clearTimer (rq_timeout (requests b1 ! r)) b1;
                b3 = setRequest r (\<lambda>q. q\<lparr>rq_timeout := length (timers b2)\<rparr>) b2
            in (startTimer (RequestTimer (rq_requestId (requests b1 ! r))) b3)
                 \<lparr>pendingTaskRequests := pendingTaskRequests b1 @ [r]\<rparr>)
      else b1)"

text \<open>The runner has accepted: the task exists from here on, even if its request is no longer pending.\<close>

definition runnerAccepted :: "nat \<Rightarrow> AcceptOffer \<Rightarrow> TaskBroker \<Rightarrow> TaskBroker" where
  "runnerAccepted k a b =
     (let request = requests b ! ao_request a;
          b1 = clearTimer (rq_timeout request) b;
          task = \<lparr>task_id = ao_taskId a, task_runnerId = of_runnerId (ao_offer a), task_requesterId = rq_requesterId request,
            task_taskType = of_taskType (ao_offer a), task_timeout = None\<rparr>;
          b2 = b1\<lparr>tasks := AList.update (ao_taskId a) task (tasks b1)\<rparr>
      in case takeRequest (requests b2) (rq_requestId request) (pendingTaskRequests b2) of
           None \<Rightarrow> setAccept k (AcceptEnded True) b2
         | Some (r, pending) \<Rightarrow>
             messageRequester (rq_requesterId request) (BrokerTaskReady (rq_requestId request) (ao_taskId a))
               (startTimer (RequesterAcceptTimer k)
                 ((setAccept k (AwaitsRequester None) b2)
                    \<lparr>pendingTaskRequests := pending,
                     requesterAcceptRejects := AList.update (ao_taskId a) k (requesterAcceptRejects b2)\<rparr>)))"

definition requesterAnswered :: "RequesterAnswer \<Rightarrow> string \<Rightarrow> TaskBroker \<Rightarrow> TaskBroker" where
  "requesterAnswered a taskId b = (case a of
     RequesterAccepted settings \<Rightarrow>
       (case sendTaskSettings taskId settings b of
          (None, b') \<Rightarrow> b'
        | (Some e, b') \<Rightarrow> (cancelTask taskId ''Unknown reason'' b')\<lparr>unhandled := unhandled b @ [e]\<rparr>)
   | RequesterRejected reason \<Rightarrow> cancelTask taskId reason b
   | RequesterTimeout \<Rightarrow> (cancelTask taskId ''Unknown reason'' b)\<lparr>unhandled := unhandled b @ [RequesterTimedOut]\<rparr>)"

text \<open>A call of \<open>acceptOffer\<close> goes on after the promise it awaits is settled.\<close>

definition resumeAccept :: "nat \<Rightarrow> TaskBroker \<Rightarrow> TaskBroker" where
  "resumeAccept k b =
     (if \<not> k < length (accepts b) then b
      else let a = accepts b ! k in
        case ao_state a of
          AwaitsRunner (Some RunnerAccepted) \<Rightarrow> runnerAccepted k a b
        | AwaitsRunner (Some answer) \<Rightarrow> runnerRefused answer (ao_request a) (setAccept k (AcceptEnded False) b)
        | AwaitsRequester (Some answer) \<Rightarrow> requesterAnswered answer (ao_taskId a) (setAccept k (AcceptEnded True) b)
        | _ \<Rightarrow> b)"

section \<open>Matching offers and requests\<close>

definition expired :: "int \<Rightarrow> TaskOffer \<Rightarrow> bool" where
  "expired t offer \<longleftrightarrow> of_validFor offer \<noteq> -1 \<and> of_validUntil offer < t"

definition expireTasks :: "TaskBroker \<Rightarrow> TaskBroker" where
  "expireTasks b = b\<lparr>pendingTaskOffers := filter (\<lambda>offer. \<not> expired (now b) offer) (pendingTaskOffers b)\<rparr>"

fun takeOffer :: "string \<Rightarrow> TaskOffer list \<Rightarrow> (TaskOffer \<times> TaskOffer list) option" where
  "takeOffer ty [] = None"
| "takeOffer ty (offer # offers) =
     (if of_taskType offer = ty then Some (offer, offers)
      else map_option (\<lambda>(x, os). (x, offer # os)) (takeOffer ty offers))"

definition settleOne :: "(nat \<Rightarrow> string) \<Rightarrow> nat \<Rightarrow> TaskBroker \<Rightarrow> TaskBroker" where
  "settleOne ids r b =
     (let request = requests b ! r in
      if rq_acceptInProgress request then b
      else case takeOffer (rq_taskType request) (pendingTaskOffers b) of
        None \<Rightarrow> b
      | Some (offer, offers) \<Rightarrow>
          acceptOffer ids offer r
            ((setRequest r (\<lambda>q. q\<lparr>rq_acceptInProgress := True\<rparr>) b)\<lparr>pendingTaskOffers := offers\<rparr>))"

definition settleTasks :: "(nat \<Rightarrow> string) \<Rightarrow> TaskBroker \<Rightarrow> TaskBroker" where
  "settleTasks ids b = fold (settleOne ids) (pendingTaskRequests b) (expireTasks b)"

definition taskRequested :: "(nat \<Rightarrow> string) \<Rightarrow> TaskRequest \<Rightarrow> TaskBroker \<Rightarrow> TaskBroker" where
  "taskRequested ids request b = settleTasks ids
     (b\<lparr>requests := requests b @ [request], pendingTaskRequests := pendingTaskRequests b @ [length (requests b)]\<rparr>)"

definition taskOffered :: "(nat \<Rightarrow> string) \<Rightarrow> TaskOffer \<Rightarrow> TaskBroker \<Rightarrow> TaskBroker" where
  "taskOffered ids offer b = settleTasks ids (b\<lparr>pendingTaskOffers := pendingTaskOffers b @ [offer]\<rparr>)"

section \<open>Runners and requesters\<close>

definition registerRunner :: "TaskRunner \<Rightarrow> TaskBroker \<Rightarrow> TaskBroker" where
  "registerRunner runner b =
     messageRunner (tr_id runner) BrokerRunnerRegistered (b\<lparr>knownRunners := AList.update (tr_id runner) runner (knownRunners b)\<rparr>)"

definition failTaskOf :: "string \<Rightarrow> string \<Rightarrow> string \<times> Task \<Rightarrow> TaskBroker \<Rightarrow> TaskBroker" where
  "failTaskOf runnerId message = (\<lambda>(key, t) b.
     if task_runnerId t = runnerId
     then handleRunnerReject (task_id t) (''The Task Runner ('' @ runnerId @ '') has disconnected: '' @ message)
            (failTask (task_id t) (JStr message) b)
     else b)"

definition deregisterRunner :: "string \<Rightarrow> string \<Rightarrow> TaskBroker \<Rightarrow> TaskBroker" where
  "deregisterRunner runnerId message b =
     (let b1 = b\<lparr>knownRunners := AList.delete runnerId (knownRunners b),
                 pendingTaskOffers := filter (\<lambda>offer. of_runnerId offer \<noteq> runnerId) (pendingTaskOffers b)\<rparr>
      in fold (failTaskOf runnerId message) (tasks b1) b1)"

definition registerRequester :: "string \<Rightarrow> TaskBroker \<Rightarrow> TaskBroker" where
  "registerRequester requesterId b = b\<lparr>requesters := set_add requesterId (requesters b)\<rparr>"

definition deregisterRequester :: "string \<Rightarrow> TaskBroker \<Rightarrow> TaskBroker" where
  "deregisterRequester requesterId b = b\<lparr>requesters := set_remove requesterId (requesters b)\<rparr>"

section \<open>Messages to the broker\<close>

definition newOffer :: "string \<Rightarrow> string \<Rightarrow> string \<Rightarrow> int \<Rightarrow> int \<Rightarrow> TaskOffer" where
  "newOffer runnerId ty offerId validFor t = \<lparr>of_offerId = offerId, of_runnerId = runnerId, of_taskType = ty,
     of_validFor = validFor, of_validUntil = (if validFor = -1 then 0 else t + validFor * 1000000)\<rparr>"

definition onRunnerMessage :: "(nat \<Rightarrow> string) \<Rightarrow> string \<Rightarrow> RunnerMessage \<Rightarrow> TaskBroker \<Rightarrow> TaskBroker" where
  "onRunnerMessage ids runnerId message b =
     (if map_of (knownRunners b) runnerId = None then b
      else case message of
        RunnerTaskAccepted taskId \<Rightarrow> handleRunnerAccept taskId b
      | RunnerTaskRejected taskId reason \<Rightarrow> handleRunnerReject taskId reason b
      | RunnerTaskDeferred taskId \<Rightarrow> handleRunnerDeferred taskId b
      | RunnerTaskOffer ty offerId validFor \<Rightarrow> taskOffered ids (newOffer runnerId ty offerId validFor (now b)) b
      | RunnerTaskDone taskId data \<Rightarrow> taskDoneHandler taskId data b
      | RunnerTaskError taskId error \<Rightarrow> taskErrorHandler taskId error b
      | RunnerTaskDataRequest taskId requestId params \<Rightarrow> forwardToRequester taskId (BrokerTaskDataRequest taskId requestId params) b
      | RunnerNodeTypesRequest taskId requestId params \<Rightarrow> forwardToRequester taskId (BrokerNodeTypesRequest taskId requestId params) b
      | RunnerRpc taskId callId nm params \<Rightarrow> forwardToRequester taskId (BrokerRpc taskId callId nm params) b
      | RunnerInfo \<Rightarrow> b)"

text \<open>The object of a request, with the timer that starts together with it.\<close>

definition newRequest :: "string \<Rightarrow> string \<Rightarrow> string \<Rightarrow> nat \<Rightarrow> TaskRequest" where
  "newRequest requesterId requestId ty timer = \<lparr>rq_requestId = requestId, rq_requesterId = requesterId, rq_taskType = ty,
     rq_timeout = timer, rq_acceptInProgress = False\<rparr>"

definition onRequesterMessage ::
  "(nat \<Rightarrow> string) \<Rightarrow> string \<Rightarrow> RequesterMessage \<Rightarrow> TaskBroker \<Rightarrow> BrokerError option \<times> TaskBroker" where
  "onRequesterMessage ids requesterId message b = (case message of
     RequesterTaskSettings taskId settings \<Rightarrow> (None, handleRequesterAccept taskId settings b)
   | RequesterTaskCancel taskId reason \<Rightarrow> (None, cancelTask taskId reason b)
   | RequesterTaskRequest requestId ty \<Rightarrow>
       (None, taskRequested ids (newRequest requesterId requestId ty (length (timers b))) (startTimer (RequestTimer requestId) b))
   | RequesterTaskDataResponse taskId requestId data \<Rightarrow> forwardToRunner taskId (BrokerTaskDataResponse taskId requestId data) b
   | RequesterNodeTypesResponse taskId requestId nodeTypes \<Rightarrow> forwardToRunner taskId (BrokerNodeTypes taskId requestId nodeTypes) b
   | RequesterRpcResponse taskId callId status data \<Rightarrow> forwardToRunner taskId (BrokerRpcResponse taskId callId status data) b)"

section \<open>Events\<close>

text \<open>A timer that is still active fires once.\<close>

definition timerCallback :: "BrokerTimer \<Rightarrow> TaskBroker \<Rightarrow> TaskBroker" where
  "timerCallback t b = (case t of
     RequestTimer requestId \<Rightarrow> handleRequestTimeout requestId b
   | RunnerAcceptTimer k \<Rightarrow>
       (if k < length (accepts b) \<and> ao_state (accepts b ! k) = AwaitsRunner None
        then setAccept k (AwaitsRunner (Some RunnerAcceptTimeout)) b else b)
   | RequesterAcceptTimer k \<Rightarrow>
       (if k < length (accepts b) \<and> ao_state (accepts b ! k) = AwaitsRequester None
        then setAccept k (AwaitsRequester (Some RequesterTimeout)) b else b)
   | TaskTimer taskId \<Rightarrow> handleTaskTimeout taskId b)"

definition fireTimer :: "nat \<Rightarrow> TaskBroker \<Rightarrow> TaskBroker" where
  "fireTimer i b = (if i < length (timers b) \<and> snd (timers b ! i) then timerCallback (fst (timers b ! i)) (clearTimer i b) else b)"

datatype BrokerEvent =
    Tick nat
  | RegisterRunner TaskRunner
  | DeregisterRunner string string
  | RegisterRequester string
  | DeregisterRequester string
  | FromRunner string RunnerMessage
  | FromRequester string RequesterMessage
  | FireTimer nat
  | ResumeAccept nat

fun brokerStep :: "(nat \<Rightarrow> string) \<Rightarrow> BrokerEvent \<Rightarrow> TaskBroker \<Rightarrow> TaskBroker" where
  "brokerStep ids (Tick n) b = b\<lparr>now := now b + int n\<rparr>"
| "brokerStep ids (RegisterRunner runner) b = registerRunner runner b"
| "brokerStep ids (DeregisterRunner runnerId message) b = deregisterRunner runnerId message b"
| "brokerStep ids (RegisterRequester requesterId) b = registerRequester requesterId b"
| "brokerStep ids (DeregisterRequester requesterId) b = deregisterRequester requesterId b"
| "brokerStep ids (FromRunner runnerId message) b = onRunnerMessage ids runnerId message b"
| "brokerStep ids (FromRequester requesterId message) b = snd (onRequesterMessage ids requesterId message b)"
| "brokerStep ids (FireTimer i) b = fireTimer i b"
| "brokerStep ids (ResumeAccept k) b = resumeAccept k b"

text \<open>The states of a broker.\<close>

inductive broker_reachable :: "(nat \<Rightarrow> string) \<Rightarrow> TaskBroker \<Rightarrow> bool" for ids where
  start: "newTaskBroker taskTimeout mode = Inr b \<Longrightarrow> broker_reachable ids b"
| step: "broker_reachable ids b \<Longrightarrow> broker_reachable ids (brokerStep ids ev b)"

end
