(* ===== verification/BrokerProps.thy ===== *)
theory BrokerProps
  imports TaskBroker
begin

text \<open>
  Matching offers and requests, and what holds of the broker in every state its events lead to.
\<close>

section \<open>What the helpers leave alone\<close>

named_theorems broker_frame \<open>fields an operation does not change\<close>

lemma messageRunner_frame [broker_frame]:
  "accepts (messageRunner i m b) = accepts b" "requests (messageRunner i m b) = requests b"
  "pendingTaskRequests (messageRunner i m b) = pendingTaskRequests b" "tasks (messageRunner i m b) = tasks b"
  "runnerAcceptRejects (messageRunner i m b) = runnerAcceptRejects b"
  "pendingTaskOffers (messageRunner i m b) = pendingTaskOffers b"
  by (simp_all add: messageRunner_def)

lemma messageRequester_frame [broker_frame]:
  "accepts (messageRequester i mq b) = accepts b" "requests (messageRequester i mq b) = requests b"
  "pendingTaskRequests (messageRequester i mq b) = pendingTaskRequests b" "tasks (messageRequester i mq b) = tasks b"
  "runnerAcceptRejects (messageRequester i mq b) = runnerAcceptRejects b"
  "pendingTaskOffers (messageRequester i mq b) = pendingTaskOffers b"
  by (simp_all add: messageRequester_def)

lemma timer_frame [broker_frame]:
  "accepts (startTimer t b) = accepts b" "requests (startTimer t b) = requests b"
  "pendingTaskRequests (startTimer t b) = pendingTaskRequests b" "tasks (startTimer t b) = tasks b"
  "runnerAcceptRejects (startTimer t b) = runnerAcceptRejects b"
  "pendingTaskOffers (startTimer t b) = pendingTaskOffers b"
  "accepts (clearTimer i b) = accepts b" "requests (clearTimer i b) = requests b"
  "pendingTaskRequests (clearTimer i b) = pendingTaskRequests b" "tasks (clearTimer i b) = tasks b"
  "runnerAcceptRejects (clearTimer i b) = runnerAcceptRejects b"
  "pendingTaskOffers (clearTimer i b) = pendingTaskOffers b"
  by (simp_all add: startTimer_def clearTimer_def)

lemma clearTaskTimer_frame [broker_frame]:
  "accepts (clearTaskTimer t b) = accepts b" "requests (clearTaskTimer t b) = requests b"
  "pendingTaskRequests (clearTaskTimer t b) = pendingTaskRequests b" "tasks (clearTaskTimer t b) = tasks b"
  "runnerAcceptRejects (clearTaskTimer t b) = runnerAcceptRejects b"
  by (simp_all add: clearTaskTimer_def broker_frame split: option.splits)

lemma setRequest_frame [broker_frame]:
  "accepts (setRequest r f b) = accepts b" "pendingTaskRequests (setRequest r f b) = pendingTaskRequests b"
  "tasks (setRequest r f b) = tasks b" "runnerAcceptRejects (setRequest r f b) = runnerAcceptRejects b"
  "pendingTaskOffers (setRequest r f b) = pendingTaskOffers b" "length (requests (setRequest r f b)) = length (requests b)"
  by (simp_all add: setRequest_def)

lemma setRequest_requests:
  "r < length (requests b) \<Longrightarrow> requests (setRequest r f b) = (requests b)[r := f (requests b ! r)]"
  by (simp add: setRequest_def)

lemma setAccept_frame [broker_frame]:
  "requests (setAccept k p b) = requests b" "pendingTaskRequests (setAccept k p b) = pendingTaskRequests b"
  "tasks (setAccept k p b) = tasks b" "runnerAcceptRejects (setAccept k p b) = runnerAcceptRejects b"
  "length (accepts (setAccept k p b)) = length (accepts b)"
  by (simp_all add: setAccept_def)

lemma setAccept_accepts:
  "k < length (accepts b) \<Longrightarrow> accepts (setAccept k p b) = (accepts b)[k := (accepts b ! k)\<lparr>ao_state := p\<rparr>]"
  by (simp add: setAccept_def)

lemma acceptOffer_frame [broker_frame]:
  "requests (acceptOffer ids offer r b) = requests b" "pendingTaskRequests (acceptOffer ids offer r b) = pendingTaskRequests b"
  "tasks (acceptOffer ids offer r b) = tasks b" "pendingTaskOffers (acceptOffer ids offer r b) = pendingTaskOffers b"
  "accepts (acceptOffer ids offer r b) = accepts b @
     [\<lparr>ao_offer = offer, ao_request = r, ao_taskId = ids (length (accepts b)), ao_state = AwaitsRunner None\<rparr>]"
  "runnerAcceptRejects (acceptOffer ids offer r b) =
     AList.update (ids (length (accepts b))) (length (accepts b)) (runnerAcceptRejects b)"
  by (simp_all add: acceptOffer_def broker_frame Let_def)

text \<open>The operations on tasks change neither requests nor offers in progress, and add no task.\<close>

definition taskIds :: "TaskBroker \<Rightarrow> (string \<times> string) set" where
  "taskIds b = (\<lambda>(taskId, t). (taskId, task_id t)) ` set (tasks b)"

definition onlyTasks :: "TaskBroker \<Rightarrow> TaskBroker \<Rightarrow> bool" where
  "onlyTasks b b' \<longleftrightarrow> accepts b' = accepts b \<and> requests b' = requests b \<and> pendingTaskRequests b' = pendingTaskRequests b \<and>
     runnerAcceptRejects b' = runnerAcceptRejects b \<and> taskIds b' \<subseteq> taskIds b"

lemma onlyTasks_refl [simp]: "onlyTasks b b"
  by (simp add: onlyTasks_def)

lemma onlyTasks_trans: "onlyTasks b b' \<Longrightarrow> onlyTasks b' b'' \<Longrightarrow> onlyTasks b b''"
  unfolding onlyTasks_def by (metis subset_trans)

lemma delete_entries: "set (AList.delete k m) \<subseteq> set m"
  by (auto simp: AList.delete_eq)

lemma update_entries: "set (AList.update k v m) \<subseteq> insert (k, v) (set m)"
  by (induction m) auto

lemma cancelTask_only: "onlyTasks b (cancelTask taskId reason b)"
  using delete_entries [of taskId "tasks b"]
  by (auto simp: cancelTask_def onlyTasks_def taskIds_def broker_frame split: option.splits)

lemma failTask_only: "onlyTasks b (failTask taskId e b)"
  using delete_entries [of taskId "tasks b"]
  by (auto simp: failTask_def onlyTasks_def taskIds_def broker_frame split: option.splits)

lemma getRunnerOrFailTask_only: "getRunnerOrFailTask taskId b = (x, b') \<Longrightarrow> onlyTasks b b'"
  by (auto simp: getRunnerOrFailTask_def Let_def failTask_only split: option.splits)

lemma messageRunner_only: "onlyTasks b (messageRunner i m b)"
  and messageRequester_only: "onlyTasks b (messageRequester i mq b)"
  and timer_only: "onlyTasks b (startTimer t b)" "onlyTasks b (clearTimer n b)" "onlyTasks b (clearTaskTimer ot b)"
  by (simp_all add: onlyTasks_def taskIds_def broker_frame)

lemma forwardToRunner_only: "onlyTasks b (snd (forwardToRunner taskId m b))"
  by (auto simp: forwardToRunner_def dest: getRunnerOrFailTask_only intro: onlyTasks_trans messageRunner_only
      split: prod.splits sum.splits)

lemma forwardToRequester_only: "onlyTasks b (forwardToRequester taskId m b)"
  by (auto simp: forwardToRequester_def messageRequester_only split: option.splits)

lemma sendTaskSettings_only:
  assumes "sendTaskSettings taskId settings b = (e, b')"
  shows "onlyTasks b b'"
proof (cases "getRunnerOrFailTask taskId b")
  case (Pair x b1)
  note g = getRunnerOrFailTask_only [OF Pair]
  have "onlyTasks b1 b'"
  proof (cases x)
    case (Inl a)
    with assms Pair show ?thesis by (simp add: sendTaskSettings_def)
  next
    case (Inr runner)
    show ?thesis
    proof (cases "map_of (tasks b1) taskId")
      case None
      with assms Pair Inr show ?thesis by (simp add: sendTaskSettings_def)
    next
      case (Some t)
      let ?t = "t\<lparr>task_timeout := Some (length (timers b1))\<rparr>"
      from Some have "(taskId, t) \<in> set (tasks b1)" by (rule map_of_SomeD)
      then have "(taskId, task_id t) \<in> (\<lambda>(taskId, t). (taskId, task_id t)) ` set (tasks b1)" by force
      with image_mono [OF update_entries [of taskId ?t "tasks b1"], of "\<lambda>(taskId, t). (taskId, task_id t)"]
      have "(\<lambda>(taskId, t). (taskId, task_id t)) ` set (AList.update taskId ?t (tasks b1)) \<subseteq>
          (\<lambda>(taskId, t). (taskId, task_id t)) ` set (tasks b1)" by (simp add: insert_absorb)
      with assms Pair Inr Some show ?thesis
        by (clarsimp simp: sendTaskSettings_def onlyTasks_def taskIds_def broker_frame)
    qed
  qed
  with g show ?thesis by (rule onlyTasks_trans)
qed

lemma endTask_only: "onlyTasks b (endTask taskId m b)"
proof (cases "map_of (tasks b) taskId")
  case (Some t)
  with delete_entries [of "task_id t" "tasks b"] show ?thesis
    by (auto simp: endTask_def onlyTasks_def taskIds_def broker_frame Let_def)
qed (simp add: endTask_def)

lemma handleTaskTimeout_only: "onlyTasks b (handleTaskTimeout taskId b)"
proof -
  have "onlyTasks b (b\<lparr>sent := x\<rparr>)" for x by (simp add: onlyTasks_def taskIds_def)
  then show ?thesis
    by (auto simp: handleTaskTimeout_def taskErrorHandler_def split: option.splits RunnerMode.splits
        intro: onlyTasks_trans endTask_only messageRunner_only)
qed

lemma unhandled_only: "onlyTasks b b' \<Longrightarrow> onlyTasks b (b'\<lparr>unhandled := x\<rparr>)"
  by (simp add: onlyTasks_def taskIds_def)

lemma requesterAnswered_only: "onlyTasks b (requesterAnswered a taskId b)"
  by (auto simp: requesterAnswered_def split: RequesterAnswer.splits option.splits prod.splits
      intro!: unhandled_only intro: cancelTask_only sendTaskSettings_only onlyTasks_trans)

section \<open>Matching\<close>

text \<open>The elements of a list at their first occurrence.\<close>

fun firsts :: "'a list \<Rightarrow> 'a list" where
  "firsts [] = []"
| "firsts (x # xs) = x # filter (\<lambda>y. y \<noteq> x) (firsts xs)"

definition offersOf :: "string \<Rightarrow> TaskOffer list \<Rightarrow> TaskOffer list" where
  "offersOf ty offers = filter (\<lambda>offer. of_taskType offer = ty) offers"

definition idleOf :: "string \<Rightarrow> TaskRequest list \<Rightarrow> nat list \<Rightarrow> nat list" where
  "idleOf ty rs pending = filter (\<lambda>r. \<not> rq_acceptInProgress (rs ! r) \<and> rq_taskType (rs ! r) = ty) pending"

lemma takeOffer_None: "takeOffer ty offers = None \<longleftrightarrow> offersOf ty offers = []"
  by (induction offers) (auto simp: offersOf_def)

lemma takeOffer_Some:
  "takeOffer ty offers = Some (offer, rest) \<Longrightarrow>
     offersOf ty offers = offer # offersOf ty rest \<and> of_taskType offer = ty \<and> (ty' \<noteq> ty \<longrightarrow> offersOf ty' offers = offersOf ty' rest)"
proof (induction offers arbitrary: rest)
  case (Cons x xs)
  then show ?case
    by (cases "of_taskType x = ty") (auto simp: offersOf_def)
qed simp

text \<open>The pairs of the calls of \<open>acceptOffer\<close> that are new in a list of them.\<close>

definition pairsOf :: "string \<Rightarrow> AcceptOffer list \<Rightarrow> (TaskOffer \<times> nat) list" where
  "pairsOf ty as = map (\<lambda>a. (ao_offer a, ao_request a)) (filter (\<lambda>a. of_taskType (ao_offer a) = ty) as)"

lemma idleOf_taken:
  assumes "r < length rs" "rs' = rs[r := (rs ! r)\<lparr>rq_acceptInProgress := True\<rparr>]"
  shows "idleOf ty rs' pending = idleOf ty rs (filter (\<lambda>y. y \<noteq> r) pending)"
  using assms by (induction pending) (auto simp: idleOf_def nth_list_update)

lemma settle_matches:
  assumes "\<And>r. r \<in> set pending \<Longrightarrow> r < length (requests b)"
  shows "\<exists>new. accepts (fold (settleOne ids) pending b) = accepts b @ new \<and>
    pairsOf ty new = zip (offersOf ty (pendingTaskOffers b)) (idleOf ty (requests b) (firsts pending)) \<and>
    offersOf ty (pendingTaskOffers (fold (settleOne ids) pending b)) =
      drop (length (idleOf ty (requests b) (firsts pending))) (offersOf ty (pendingTaskOffers b))"
  using assms
proof (induction pending arbitrary: b)
  case Nil
  then show ?case by (simp add: pairsOf_def idleOf_def)
next
  case (Cons r pending)
  let ?q = "requests b ! r"
  have r: "r < length (requests b)" using Cons.prems by simp
  show ?case
  proof (cases "rq_acceptInProgress ?q \<or> takeOffer (rq_taskType ?q) (pendingTaskOffers b) = None")
    case True
    then have s: "settleOne ids r b = b" by (auto simp: settleOne_def Let_def)
    obtain new where new: "accepts (fold (settleOne ids) pending b) = accepts b @ new"
      "pairsOf ty new = zip (offersOf ty (pendingTaskOffers b)) (idleOf ty (requests b) (firsts pending))"
      "offersOf ty (pendingTaskOffers (fold (settleOne ids) pending b)) =
        drop (length (idleOf ty (requests b) (firsts pending))) (offersOf ty (pendingTaskOffers b))"
      using Cons.IH [of b] Cons.prems by auto
    show ?thesis
    proof (cases "offersOf ty (pendingTaskOffers b) = []")
      case True
      with new s show ?thesis by simp
    next
      case False
      with True have "rq_acceptInProgress ?q \<or> rq_taskType ?q \<noteq> ty" by (auto simp: takeOffer_None)
      then have "idleOf ty (requests b) (firsts (r # pending)) = idleOf ty (requests b) (firsts pending)"
        by (auto simp: idleOf_def intro: filter_cong)
      with new s show ?thesis by simp
    qed
  next
    case False
    then obtain offer offers where t: "takeOffer (rq_taskType ?q) (pendingTaskOffers b) = Some (offer, offers)"
      and idle: "\<not> rq_acceptInProgress ?q" by auto
    let ?b = "settleOne ids r b"
    from t idle r have b: "requests ?b = (requests b)[r := ?q\<lparr>rq_acceptInProgress := True\<rparr>]" "pendingTaskOffers ?b = offers"
      "accepts ?b = accepts b @ [\<lparr>ao_offer = offer, ao_request = r, ao_taskId = ids (length (accepts b)), ao_state = AwaitsRunner None\<rparr>]"
      by (simp_all add: settleOne_def Let_def broker_frame setRequest_requests)
    obtain new where new: "accepts (fold (settleOne ids) pending ?b) = accepts ?b @ new"
      "pairsOf ty new = zip (offersOf ty offers) (idleOf ty (requests ?b) (firsts pending))"
      "offersOf ty (pendingTaskOffers (fold (settleOne ids) pending ?b)) =
        drop (length (idleOf ty (requests ?b) (firsts pending))) (offersOf ty offers)"
      using Cons.IH [of ?b] Cons.prems b(1,2) by auto
    have i: "idleOf ty (requests ?b) (firsts pending) = idleOf ty (requests b) (filter (\<lambda>y. y \<noteq> r) (firsts pending))"
      by (rule idleOf_taken [OF r b(1)])
    note o = takeOffer_Some [OF t, of ty]
    show ?thesis
    proof (cases "rq_taskType ?q = ty")
      case True
      with new i o idle b(3) show ?thesis
        by (intro exI [of _ "\<lparr>ao_offer = offer, ao_request = r, ao_taskId = ids (length (accepts b)), ao_state = AwaitsRunner None\<rparr> # new"])
          (simp add: pairsOf_def idleOf_def)
    next
      case False
      with new i o idle b(3) show ?thesis
        by (intro exI [of _ "\<lparr>ao_offer = offer, ao_request = r, ao_taskId = ids (length (accepts b)), ao_state = AwaitsRunner None\<rparr> # new"])
          (simp add: pairsOf_def idleOf_def)
    qed
  qed
qed

section \<open>At most one task per request\<close>

text \<open>A call of \<open>acceptOffer\<close> the runner has not refused.\<close>

definition live :: "nat \<Rightarrow> AcceptOffer \<Rightarrow> bool" where
  "live r a \<longleftrightarrow> ao_request a = r \<and> ao_state a \<noteq> AcceptEnded False"

definition requestsOk :: "TaskBroker \<Rightarrow> bool" where
  "requestsOk b \<longleftrightarrow> (\<forall>r \<in> set (pendingTaskRequests b). r < length (requests b)) \<and>
     (\<forall>a \<in> set (accepts b). ao_request a < length (requests b)) \<and>
     (\<forall>r < length (requests b). length (filter (live r) (accepts b)) = (if rq_acceptInProgress (requests b ! r) then 1 else 0))"

text \<open>Operations that change none of the three fields, and those that only move a call between live states.\<close>

lemma requestsOk_cong:
  "requests b' = requests b \<Longrightarrow> accepts b' = accepts b \<Longrightarrow> pendingTaskRequests b' = pendingTaskRequests b \<Longrightarrow>
   requestsOk b' = requestsOk b"
  by (simp add: requestsOk_def)

lemma live_setAccept:
  assumes "k < length (accepts b)"
  shows "length (filter (live r) (accepts (setAccept k p b))) + (if live r (accepts b ! k) then 1 else 0) =
    length (filter (live r) (accepts b)) + (if ao_request (accepts b ! k) = r \<and> p \<noteq> AcceptEnded False then 1 else 0)"
  using length_filter_update [OF assms, of "live r" "(accepts b ! k)\<lparr>ao_state := p\<rparr>"] assms
  by (simp add: setAccept_def live_def)

lemma setAccept_request: "a \<in> set (accepts (setAccept k p b)) \<Longrightarrow> \<exists>a' \<in> set (accepts b). ao_request a = ao_request a'"
  by (auto simp: setAccept_def split: if_splits dest!: set_update_subset_insert [THEN subsetD])

lemma requestsOk_setAccept:
  assumes "requestsOk b" "k < length (accepts b)" "ao_state (accepts b ! k) \<noteq> AcceptEnded False" "p \<noteq> AcceptEnded False"
  shows "requestsOk (setAccept k p b)"
proof -
  have "ao_request a < length (requests b)" if "a \<in> set (accepts (setAccept k p b))" for a
    using setAccept_request [OF that] assms(1) by (auto simp: requestsOk_def)
  moreover have "length (filter (live r) (accepts (setAccept k p b))) = length (filter (live r) (accepts b))" for r
    using live_setAccept [OF assms(2), of r p] assms(3,4) by (auto simp: live_def split: if_splits)
  ultimately show ?thesis using assms(1) by (simp add: requestsOk_def broker_frame)
qed

lemma requestsOk_onlyTasks: "onlyTasks b b' \<Longrightarrow> requestsOk b' = requestsOk b"
  by (rule requestsOk_cong) (simp_all add: onlyTasks_def)

lemma requestsOk_pending:
  "requestsOk b \<Longrightarrow> requests b' = requests b \<Longrightarrow> accepts b' = accepts b \<Longrightarrow>
   set (pendingTaskRequests b') \<subseteq> set (pendingTaskRequests b) \<Longrightarrow> requestsOk b'"
  unfolding requestsOk_def by (metis subsetD)

lemma takeRequest_set: "takeRequest rs requestId pending = Some (r, rest) \<Longrightarrow> set rest \<subseteq> set pending \<and> r \<in> set pending"
  by (induction pending arbitrary: rest) (auto split: if_splits)

lemma handleRequestTimeout_ok: "requestsOk b \<Longrightarrow> requestsOk (handleRequestTimeout requestId b)"
proof (cases "takeRequest (requests b) requestId (pendingTaskRequests b)")
  case (Some p)
  assume ok: "requestsOk b"
  from Some takeRequest_set [of "requests b" requestId "pendingTaskRequests b" "fst p" "snd p"] show ?thesis
    by (intro requestsOk_pending [OF ok]) (auto simp: handleRequestTimeout_def broker_frame split: prod.splits)
qed (simp add: handleRequestTimeout_def)

lemma settleRunner_ok:
  assumes "requestsOk b"
  shows "requestsOk (settleRunner taskId a b)"
proof (cases "map_of (runnerAcceptRejects b) taskId")
  case (Some k)
  let ?b = "if k < length (accepts b) \<and> ao_state (accepts b ! k) = AwaitsRunner None then setAccept k (AwaitsRunner (Some a)) b else b"
  have "requestsOk ?b" using assms by (auto intro: requestsOk_setAccept)
  then have "requestsOk (?b\<lparr>runnerAcceptRejects := x\<rparr>)" for x by (rule requestsOk_cong [THEN iffD2, rotated -1]) simp_all
  with Some show ?thesis by (simp add: settleRunner_def)
qed (simp add: settleRunner_def assms)

lemma settleRequester_ok:
  assumes "requestsOk b"
  shows "requestsOk (settleRequester taskId a b)"
proof (cases "map_of (requesterAcceptRejects b) taskId")
  case (Some k)
  let ?b = "if k < length (accepts b) \<and> ao_state (accepts b ! k) = AwaitsRequester None then setAccept k (AwaitsRequester (Some a)) b else b"
  have "requestsOk ?b" using assms by (auto intro: requestsOk_setAccept)
  then have "requestsOk (?b\<lparr>requesterAcceptRejects := x\<rparr>)" for x by (rule requestsOk_cong [THEN iffD2, rotated -1]) simp_all
  with Some show ?thesis by (simp add: settleRequester_def)
qed (simp add: settleRequester_def assms)

lemma settleOne_ok:
  assumes ok: "requestsOk b" and r: "r < length (requests b)"
  shows "requestsOk (settleOne ids r b) \<and> length (requests (settleOne ids r b)) = length (requests b)"
proof (cases "rq_acceptInProgress (requests b ! r) \<or> takeOffer (rq_taskType (requests b ! r)) (pendingTaskOffers b) = None")
  case True
  then show ?thesis using ok by (auto simp: settleOne_def Let_def)
next
  case False
  then obtain offer offers where t: "takeOffer (rq_taskType (requests b ! r)) (pendingTaskOffers b) = Some (offer, offers)"
    and idle: "\<not> rq_acceptInProgress (requests b ! r)" by auto
  with ok r show ?thesis
    by (auto simp: requestsOk_def settleOne_def Let_def broker_frame setRequest_requests live_def nth_list_update)
qed

lemma settleTasks_ok:
  assumes "requestsOk b"
  shows "requestsOk (settleTasks ids b)"
proof -
  have "requestsOk (fold (settleOne ids) pending b')"
    if "requestsOk b'" "\<forall>r \<in> set pending. r < length (requests b')" for pending b'
    using that
  proof (induction pending arbitrary: b')
    case (Cons r pending)
    from settleOne_ok [OF Cons.prems(1), of r ids] Cons.prems(2) show ?case by (simp add: Cons.IH)
  qed simp
  moreover have "requestsOk (expireTasks b)" using assms by (simp add: expireTasks_def requestsOk_def)
  ultimately show ?thesis using assms by (simp add: settleTasks_def expireTasks_def requestsOk_def)
qed

lemma taskRequested_ok:
  assumes "requestsOk b" "\<not> rq_acceptInProgress request"
  shows "requestsOk (taskRequested ids request b)"
proof -
  have "filter (live (length (requests b))) (accepts b) = []"
    using assms(1) by (auto simp: requestsOk_def filter_empty_conv live_def)
  then have "requestsOk (b\<lparr>requests := requests b @ [request], pendingTaskRequests := pendingTaskRequests b @ [length (requests b)]\<rparr>)"
    using assms by (auto simp: requestsOk_def nth_append less_Suc_eq)
  then show ?thesis unfolding taskRequested_def by (rule settleTasks_ok)
qed

lemma taskOffered_ok: "requestsOk b \<Longrightarrow> requestsOk (taskOffered ids offer b)"
  unfolding taskOffered_def by (rule settleTasks_ok) (simp add: requestsOk_def)

text \<open>A refusal frees the request together with the call.\<close>

lemma live_one:
  assumes "requestsOk b" "k < length (accepts b)" "ao_state (accepts b ! k) \<noteq> AcceptEnded False"
  shows "length (filter (live (ao_request (accepts b ! k))) (accepts b)) = 1"
proof -
  let ?r = "ao_request (accepts b ! k)"
  have "accepts b ! k \<in> set (filter (live ?r) (accepts b))" using assms(2,3) by (simp add: live_def)
  then have "0 < length (filter (live ?r) (accepts b))" by (rule length_pos_if_in_set)
  moreover have "?r < length (requests b)" using assms(1,2) by (simp add: requestsOk_def)
  with assms(1) have "length (filter (live ?r) (accepts b)) \<le> 1" by (simp add: requestsOk_def)
  ultimately show ?thesis by linarith
qed

lemma freed_ok:
  assumes ok: "requestsOk b" and k: "k < length (accepts b)" "ao_state (accepts b ! k) \<noteq> AcceptEnded False"
  shows "requestsOk (setRequest (ao_request (accepts b ! k)) (\<lambda>q. q\<lparr>rq_acceptInProgress := False\<rparr>) (setAccept k (AcceptEnded False) b))"
proof -
  let ?r = "ao_request (accepts b ! k)" and ?b0 = "setAccept k (AcceptEnded False) b"
  let ?b1 = "setRequest ?r (\<lambda>q. q\<lparr>rq_acceptInProgress := False\<rparr>) ?b0"
  have r: "?r < length (requests b)" using ok k(1) by (simp add: requestsOk_def)
  have rs: "requests ?b1 = (requests b)[?r := (requests b ! ?r)\<lparr>rq_acceptInProgress := False\<rparr>]"
    using r by (simp add: setRequest_requests broker_frame)
  have cnt: "length (filter (live q) (accepts ?b1)) = (if q = ?r then 0 else length (filter (live q) (accepts b)))" for q
    using live_setAccept [OF k(1), of q "AcceptEnded False"] live_one [OF ok k] k(2)
    by (auto simp: live_def broker_frame split: if_splits)
  have "ao_request c < length (requests b)" if "c \<in> set (accepts ?b1)" for c
    using setAccept_request [of c k "AcceptEnded False" b] that ok by (auto simp: requestsOk_def broker_frame)
  moreover have "length (filter (live q) (accepts ?b1)) = (if rq_acceptInProgress (requests ?b1 ! q) then 1 else 0)"
    if "q < length (requests b)" for q
    using that ok r unfolding cnt rs by (simp add: requestsOk_def nth_list_update)
  ultimately show ?thesis using ok by (simp add: requestsOk_def rs broker_frame)
qed

lemma repushed_ok:
  assumes ok: "requestsOk b" and r: "r < length (requests b)"
    and b': "requests b' = (requests b)[r := (requests b ! r)\<lparr>rq_timeout := n\<rparr>]" "accepts b' = accepts b"
      "pendingTaskRequests b' = pendingTaskRequests b @ [r]"
  shows "requestsOk b'"
proof -
  have "rq_acceptInProgress (requests b' ! q) = rq_acceptInProgress (requests b ! q)" for q
    using r unfolding b'(1) by (cases "q = r") simp_all
  with ok r b' show ?thesis by (simp add: requestsOk_def)
qed

lemma deferred_ok:
  assumes "requestsOk b" "r < length (requests b)"
  shows "requestsOk ((startTimer t (setRequest r (\<lambda>q. q\<lparr>rq_timeout := m\<rparr>) (clearTimer n b)))
    \<lparr>pendingTaskRequests := pendingTaskRequests b @ [r]\<rparr>)"
  by (rule repushed_ok [OF assms, where n = m]) (simp_all add: broker_frame setRequest_requests assms(2))

lemma refused_ok:
  assumes ok: "requestsOk b" and k: "k < length (accepts b)" "ao_state (accepts b ! k) \<noteq> AcceptEnded False"
  shows "requestsOk (runnerRefused a (ao_request (accepts b ! k)) (setAccept k (AcceptEnded False) b))"
proof -
  let ?r = "ao_request (accepts b ! k)"
  have r: "?r < length (requests (setRequest ?r f (setAccept k p b)))" for f p
    using ok k(1) by (simp add: requestsOk_def broker_frame)
  show ?thesis
  proof (cases "a = RunnerDeferred")
    case True
    show ?thesis unfolding runnerRefused_def Let_def if_P [OF True]
      by (rule deferred_ok [OF freed_ok [OF ok k] r])
  next
    case False
    show ?thesis unfolding runnerRefused_def Let_def if_not_P [OF False] by (rule freed_ok [OF ok k])
  qed
qed

lemma runnerAccepted_ok:
  assumes ok: "requestsOk b" and k: "k < length (accepts b)" "ao_state (accepts b ! k) = AwaitsRunner (Some a)"
  shows "requestsOk (runnerAccepted k (accepts b ! k) b)"
proof -
  have s: "requestsOk (setAccept k p b)" if "p \<noteq> AcceptEnded False" for p
    by (rule requestsOk_setAccept [OF ok k(1)]) (use k(2) that in simp_all)
  let ?req = "requests b ! ao_request (accepts b ! k)"
  show ?thesis
  proof (cases "takeRequest (requests b) (rq_requestId ?req) (pendingTaskRequests b)")
    case None
    then show ?thesis
      by (intro requestsOk_pending [OF s [of "AcceptEnded True"]]) (simp_all add: runnerAccepted_def Let_def broker_frame setAccept_accepts k(1))
  next
    case (Some p)
    with takeRequest_set [of "requests b" "rq_requestId ?req" "pendingTaskRequests b" "fst p" "snd p"] show ?thesis
      by (intro requestsOk_pending [OF s [of "AwaitsRequester None"]])
        (auto simp: runnerAccepted_def Let_def broker_frame setAccept_accepts k(1) split: prod.splits)
  qed
qed

lemma resumeAccept_ok:
  assumes ok: "requestsOk b"
  shows "requestsOk (resumeAccept k b)"
proof (cases "k < length (accepts b)")
  case True
  show ?thesis
  proof (cases "ao_state (accepts b ! k)")
    case (AwaitsRunner ans)
    show ?thesis
    proof (cases ans)
      case None
      with AwaitsRunner True ok show ?thesis by (simp add: resumeAccept_def)
    next
      case (Some a)
      with AwaitsRunner True refused_ok [OF ok True, of a] runnerAccepted_ok [OF ok True, of a] show ?thesis
        by (cases a) (simp_all add: resumeAccept_def)
    qed
  next
    case (AwaitsRequester ans)
    have "requestsOk (setAccept k (AcceptEnded True) b)"
      by (rule requestsOk_setAccept [OF ok True]) (simp_all add: AwaitsRequester)
    with AwaitsRequester True ok show ?thesis
      by (cases ans) (simp_all add: resumeAccept_def requestsOk_onlyTasks [OF requesterAnswered_only])
  next
    case (AcceptEnded x)
    with True ok show ?thesis by (simp add: resumeAccept_def)
  qed
qed (simp add: resumeAccept_def ok)

lemma failTaskOf_ok: "requestsOk b \<Longrightarrow> requestsOk (failTaskOf runnerId message kt b)"
  by (cases kt) (simp add: failTaskOf_def handleRunnerReject_def settleRunner_ok requestsOk_onlyTasks [OF failTask_only])

lemma deregisterRunner_ok:
  assumes "requestsOk b"
  shows "requestsOk (deregisterRunner runnerId message b)"
proof -
  have "requestsOk (fold (failTaskOf runnerId message) kts b')" if "requestsOk b'" for kts b'
    using that by (induction kts arbitrary: b') (simp_all add: failTaskOf_ok)
  with assms show ?thesis by (simp add: deregisterRunner_def requestsOk_def)
qed

lemma onRunnerMessage_ok: "requestsOk b \<Longrightarrow> requestsOk (onRunnerMessage ids runnerId message b)"
  by (cases message)
    (simp_all add: onRunnerMessage_def handleRunnerAccept_def handleRunnerReject_def handleRunnerDeferred_def
      settleRunner_ok taskOffered_ok taskDoneHandler_def taskErrorHandler_def
      requestsOk_onlyTasks [OF endTask_only] requestsOk_onlyTasks [OF forwardToRequester_only])

lemma onRequesterMessage_ok:
  assumes "requestsOk b"
  shows "requestsOk (snd (onRequesterMessage ids requesterId message b))"
proof (cases message)
  case (RequesterTaskRequest requestId ty)
  have "requestsOk (startTimer (RequestTimer requestId) b)" using assms by (simp add: requestsOk_onlyTasks [OF timer_only(1)])
  with RequesterTaskRequest show ?thesis
    by (simp add: onRequesterMessage_def taskRequested_ok newRequest_def)
qed (use assms in \<open>simp_all add: onRequesterMessage_def handleRequesterAccept_def settleRequester_ok
      requestsOk_onlyTasks [OF cancelTask_only] requestsOk_onlyTasks [OF forwardToRunner_only]\<close>)

lemma timerCallback_ok: "requestsOk b \<Longrightarrow> requestsOk (timerCallback t b)"
  by (cases t)
    (auto simp: timerCallback_def handleRequestTimeout_ok requestsOk_onlyTasks [OF handleTaskTimeout_only]
      intro: requestsOk_setAccept)

lemma brokerStep_ok:
  assumes ok: "requestsOk b"
  shows "requestsOk (brokerStep ids ev b)"
proof (cases ev)
  case (FireTimer i)
  have "requestsOk (clearTimer i b)" using ok by (simp add: requestsOk_onlyTasks [OF timer_only(2)])
  with FireTimer ok show ?thesis by (simp add: fireTimer_def timerCallback_ok)
next
  case (RegisterRunner x)
  with ok show ?thesis by (simp add: registerRunner_def requestsOk_onlyTasks [OF messageRunner_only]) (simp add: requestsOk_def)
qed (use ok in \<open>simp_all add: deregisterRunner_ok onRunnerMessage_ok onRequesterMessage_ok resumeAccept_ok\<close>,
    simp_all add: requestsOk_def registerRequester_def deregisterRequester_def)

lemma reachable_ok: "broker_reachable ids b \<Longrightarrow> requestsOk b"
proof (induction rule: broker_reachable.induct)
  case (start taskTimeout mode b)
  then show ?case by (auto simp: newTaskBroker_def requestsOk_def split: if_splits)
qed (rule brokerStep_ok)

section \<open>Offers that wait for their runner\<close>

text \<open>
  An entry of \<open>runnerAcceptRejects\<close> belongs to a call the runner has not accepted, a task to one it has.
\<close>

fun unanswered :: "AcceptPhase \<Rightarrow> bool" where
  "unanswered (AwaitsRunner None) = True"
| "unanswered (AwaitsRunner (Some a)) = (a = RunnerAcceptTimeout)"
| "unanswered (AwaitsRequester a) = False"
| "unanswered (AcceptEnded accepted) = (\<not> accepted)"

fun acceptedPhase :: "AcceptPhase \<Rightarrow> bool" where
  "acceptedPhase (AwaitsRunner a) = False"
| "acceptedPhase (AwaitsRequester a) = True"
| "acceptedPhase (AcceptEnded accepted) = accepted"

lemma not_both: "unanswered p \<Longrightarrow> acceptedPhase p \<Longrightarrow> False"
  by (cases p) simp_all

definition promisesOk :: "(nat \<Rightarrow> string) \<Rightarrow> TaskBroker \<Rightarrow> bool" where
  "promisesOk ids b \<longleftrightarrow> (\<forall>k < length (accepts b). ao_taskId (accepts b ! k) = ids k) \<and>
     (\<forall>(taskId, k) \<in> set (runnerAcceptRejects b).
        k < length (accepts b) \<and> taskId = ids k \<and> unanswered (ao_state (accepts b ! k))) \<and>
     (\<forall>(taskId, i) \<in> taskIds b. i = taskId \<and>
        (\<exists>k < length (accepts b). taskId = ids k \<and> acceptedPhase (ao_state (accepts b ! k))))"

lemma promisesOk_onlyTasks:
  assumes "promisesOk ids b" "onlyTasks b b'"
  shows "promisesOk ids b'"
proof -
  from assms(2) have b': "accepts b' = accepts b" "runnerAcceptRejects b' = runnerAcceptRejects b" "taskIds b' \<subseteq> taskIds b"
    by (simp_all add: onlyTasks_def)
  from assms(1) b'(3) show ?thesis unfolding promisesOk_def b'(1,2) by blast
qed

lemma promisesOk_cong:
  "accepts b' = accepts b \<Longrightarrow> runnerAcceptRejects b' = runnerAcceptRejects b \<Longrightarrow> tasks b' = tasks b \<Longrightarrow>
   promisesOk ids b' = promisesOk ids b"
  by (simp add: promisesOk_def taskIds_def)

text \<open>A call goes on: nothing is lost if it stays unanswered, or accepted, or if its entry has gone.\<close>

lemma promisesOk_setAccept:
  assumes ok: "promisesOk ids b" and k: "k < length (accepts b)"
    and acc: "acceptedPhase (ao_state (accepts b ! k)) \<Longrightarrow> acceptedPhase p"
    and rej: "\<And>taskId. (taskId, k) \<in> set rejects \<Longrightarrow> unanswered (ao_state (accepts b ! k)) \<Longrightarrow> unanswered p"
    and sub: "set rejects \<subseteq> set (runnerAcceptRejects b)"
  shows "promisesOk ids ((setAccept k p b)\<lparr>runnerAcceptRejects := rejects\<rparr>)"
proof -
  let ?b = "(setAccept k p b)\<lparr>runnerAcceptRejects := rejects\<rparr>"
  have s: "ao_state (accepts ?b ! j) = (if j = k then p else ao_state (accepts b ! j))"
    and t: "ao_taskId (accepts ?b ! j) = ao_taskId (accepts b ! j)" for j
    using k by (simp_all add: setAccept_accepts nth_list_update)
  have l: "length (accepts ?b) = length (accepts b)" by (simp add: broker_frame)
  have "j < length (accepts b) \<and> taskId = ids j \<and> unanswered (ao_state (accepts ?b ! j))"
    if "(taskId, j) \<in> set rejects" for taskId j
  proof -
    from that sub have "(taskId, j) \<in> set (runnerAcceptRejects b)" by blast
    with ok have "j < length (accepts b)" "taskId = ids j" "unanswered (ao_state (accepts b ! j))"
      by (auto simp: promisesOk_def)
    with that rej [of taskId] show ?thesis unfolding s by auto
  qed
  moreover have "i = taskId \<and> (\<exists>j < length (accepts b). taskId = ids j \<and> acceptedPhase (ao_state (accepts ?b ! j)))"
    if m: "(taskId, i) \<in> taskIds ?b" for taskId i
  proof -
    from m have "(taskId, i) \<in> taskIds b" by (simp add: taskIds_def broker_frame)
    with ok obtain j where "i = taskId" "j < length (accepts b)" "taskId = ids j" "acceptedPhase (ao_state (accepts b ! j))"
      unfolding promisesOk_def by blast
    then show ?thesis using acc s by (intro conjI exI [of _ j]) auto
  qed
  ultimately show ?thesis using ok t l unfolding promisesOk_def by (auto simp: s)
qed

lemma setAccept_same: "(setAccept k p b)\<lparr>runnerAcceptRejects := runnerAcceptRejects b\<rparr> = setAccept k p b"
  by (simp add: setAccept_def)

lemma promises_settleRunner:
  assumes ok: "promisesOk ids b"
  shows "promisesOk ids (settleRunner taskId a b)"
proof (cases "map_of (runnerAcceptRejects b) taskId")
  case (Some k)
  then have "(taskId, k) \<in> set (runnerAcceptRejects b)" by (rule map_of_SomeD)
  with ok have k: "k < length (accepts b)" "taskId = ids k" by (auto simp: promisesOk_def)
  let ?rest = "AList.delete taskId (runnerAcceptRejects b)"
  have sub: "set ?rest \<subseteq> set (runnerAcceptRejects b)" by (rule delete_entries)
  have none: "(i, k) \<notin> set ?rest" for i
  proof
    assume "(i, k) \<in> set ?rest"
    then have "i \<noteq> taskId" "(i, k) \<in> set (runnerAcceptRejects b)" by (auto simp: AList.delete_eq)
    with ok k(2) show False by (auto simp: promisesOk_def)
  qed
  show ?thesis
  proof (cases "ao_state (accepts b ! k) = AwaitsRunner None")
    case True
    have "promisesOk ids ((setAccept k (AwaitsRunner (Some a)) b)\<lparr>runnerAcceptRejects := ?rest\<rparr>)"
      by (rule promisesOk_setAccept [OF ok k(1) _ _ sub]) (use none True in simp_all)
    with Some True k(1) show ?thesis by (simp add: settleRunner_def)
  next
    case False
    have "promisesOk ids (b\<lparr>runnerAcceptRejects := ?rest\<rparr>)"
      using ok sub by (auto simp: promisesOk_def taskIds_def)
    with Some False show ?thesis by (simp add: settleRunner_def)
  qed
qed (simp add: settleRunner_def ok)

lemma promises_setAccept:
  assumes "promisesOk ids b" "k < length (accepts b)"
    and "acceptedPhase (ao_state (accepts b ! k)) \<Longrightarrow> acceptedPhase p"
    and "unanswered (ao_state (accepts b ! k)) \<Longrightarrow> unanswered p"
  shows "promisesOk ids (setAccept k p b)"
  using promisesOk_setAccept [OF assms(1-3), of "runnerAcceptRejects b"] assms(4) by (simp add: setAccept_same)

lemma promises_settleRequester:
  assumes ok: "promisesOk ids b"
  shows "promisesOk ids (settleRequester taskId a b)"
proof (cases "map_of (requesterAcceptRejects b) taskId")
  case (Some k)
  let ?b = "if k < length (accepts b) \<and> ao_state (accepts b ! k) = AwaitsRequester None then setAccept k (AwaitsRequester (Some a)) b else b"
  have "promisesOk ids ?b" using ok by (auto intro!: promises_setAccept)
  then have "promisesOk ids (?b\<lparr>requesterAcceptRejects := x\<rparr>)" for x by (rule promisesOk_cong [THEN iffD2, rotated -1]) simp_all
  with Some show ?thesis by (simp add: settleRequester_def)
qed (simp add: settleRequester_def ok)

lemma promises_acceptOffer:
  assumes ok: "promisesOk ids b"
  shows "promisesOk ids (acceptOffer ids offer r b)"
proof -
  let ?k = "length (accepts b)" and ?b = "acceptOffer ids offer r b"
  have "(taskId, k) = (ids ?k, ?k) \<or> (taskId, k) \<in> set (runnerAcceptRejects b)"
    if "(taskId, k) \<in> set (runnerAcceptRejects ?b)" for taskId k
    using that update_entries [of "ids ?k" ?k "runnerAcceptRejects b"] by (auto simp: broker_frame)
  moreover have "taskIds ?b = taskIds b" by (simp add: taskIds_def broker_frame)
  ultimately show ?thesis using ok
    unfolding promisesOk_def by (fastforce simp: broker_frame nth_append less_Suc_eq)
qed

lemma promises_settleOne: "promisesOk ids b \<Longrightarrow> promisesOk ids (settleOne ids r b)"
proof -
  assume ok: "promisesOk ids b"
  have "promisesOk ids ((setRequest r f b)\<lparr>pendingTaskOffers := offers\<rparr>)" for f offers
    using ok by (rule promisesOk_cong [THEN iffD2, rotated -1]) (simp_all add: broker_frame)
  with ok show ?thesis by (auto simp: settleOne_def Let_def intro!: promises_acceptOffer split: option.splits)
qed

lemma promises_settleTasks:
  assumes "promisesOk ids b"
  shows "promisesOk ids (settleTasks ids b)"
proof -
  have "promisesOk ids (fold (settleOne ids) pending b')" if "promisesOk ids b'" for pending b'
    using that by (induction pending arbitrary: b') (simp_all add: promises_settleOne)
  moreover have "promisesOk ids (expireTasks b)" using assms by (simp add: expireTasks_def promisesOk_def taskIds_def)
  ultimately show ?thesis by (simp add: settleTasks_def)
qed

lemma promises_runnerRefused:
  assumes "promisesOk ids b"
  shows "promisesOk ids (runnerRefused a r b)"
  using assms by (rule promisesOk_cong [THEN iffD2, rotated -1]) (simp_all add: runnerRefused_def Let_def broker_frame)

lemma promises_runnerAccepted:
  assumes ok: "promisesOk ids b" and k: "k < length (accepts b)" "ao_state (accepts b ! k) = AwaitsRunner (Some RunnerAccepted)"
  shows "promisesOk ids (runnerAccepted k (accepts b ! k) b)"
proof -
  let ?a = "accepts b ! k" and ?b = "runnerAccepted k (accepts b ! k) b"
  let ?t = "\<lparr>task_id = ao_taskId ?a, task_runnerId = of_runnerId (ao_offer ?a),
    task_requesterId = rq_requesterId (requests b ! ao_request ?a), task_taskType = of_taskType (ao_offer ?a), task_timeout = None\<rparr>"
  obtain p t where p: "acceptedPhase p" "accepts ?b = (accepts b)[k := ?a\<lparr>ao_state := p\<rparr>]"
    and t: "task_id t = ao_taskId ?a" "tasks ?b = AList.update (ao_taskId ?a) t (tasks b)"
    and r: "runnerAcceptRejects ?b = runnerAcceptRejects b"
  proof (cases "takeRequest (requests b) (rq_requestId (requests b ! ao_request ?a)) (pendingTaskRequests b)")
    case None
    with that [of "AcceptEnded True" ?t] k(1) show ?thesis
      by (simp add: runnerAccepted_def Let_def broker_frame setAccept_accepts)
  next
    case (Some x)
    with that [of "AwaitsRequester None" ?t] k(1) show ?thesis
      by (cases x) (simp add: runnerAccepted_def Let_def broker_frame setAccept_accepts)
  qed
  have id: "ao_taskId ?a = ids k" using ok k(1) by (auto simp: promisesOk_def)
  have s: "ao_state (accepts ?b ! j) = (if j = k then p else ao_state (accepts b ! j))"
    and i: "ao_taskId (accepts ?b ! j) = ao_taskId (accepts b ! j)" for j
    using k(1) unfolding p(2) by (simp_all add: nth_list_update)
  have l: "length (accepts ?b) = length (accepts b)" unfolding p(2) by simp
  have rej: "j < length (accepts b) \<and> taskId = ids j \<and> unanswered (ao_state (accepts ?b ! j))"
    if "(taskId, j) \<in> set (runnerAcceptRejects b)" for taskId j
  proof -
    from that ok have j: "j < length (accepts b)" "taskId = ids j" "unanswered (ao_state (accepts b ! j))"
      by (auto simp: promisesOk_def)
    with k(2) have "j \<noteq> k" by auto
    with j s show ?thesis by simp
  qed
  have tsk: "x = taskId \<and> (\<exists>j < length (accepts b). taskId = ids j \<and> acceptedPhase (ao_state (accepts ?b ! j)))"
    if "(taskId, x) \<in> taskIds ?b" for taskId x
  proof -
    from that obtain t' where t': "(taskId, t') \<in> set (tasks ?b)" "x = task_id t'" by (auto simp: taskIds_def)
    from t' update_entries [of "ao_taskId ?a" t "tasks b"] t(2)
    consider "taskId = ids k" "t' = t" | "(taskId, t') \<in> set (tasks b)" by (auto simp: id)
    then show ?thesis
    proof cases
      case 1
      with t(1) t'(2) id k(1) s [of k] p(1) show ?thesis by auto
    next
      case 2
      with t'(2) have "(taskId, x) \<in> taskIds b" by (force simp: taskIds_def)
      with ok obtain j where j: "x = taskId" "j < length (accepts b)" "taskId = ids j" "acceptedPhase (ao_state (accepts b ! j))"
        unfolding promisesOk_def by blast
      with s [of j] p(1) show ?thesis by (intro conjI exI [of _ j]) auto
    qed
  qed
  show ?thesis using ok i l r rej tsk unfolding promisesOk_def by auto
qed

lemma promises_resumeAccept:
  assumes ok: "promisesOk ids b"
  shows "promisesOk ids (resumeAccept k b)"
proof (cases "k < length (accepts b)")
  case True
  show ?thesis
  proof (cases "ao_state (accepts b ! k)")
    case (AwaitsRunner ans)
    show ?thesis
    proof (cases ans)
      case None
      with AwaitsRunner True ok show ?thesis by (simp add: resumeAccept_def)
    next
      case (Some a)
      show ?thesis
      proof (cases "a = RunnerAccepted")
        case True
        with Some AwaitsRunner \<open>k < length (accepts b)\<close> promises_runnerAccepted [OF ok] show ?thesis
          by (simp add: resumeAccept_def)
      next
        case False
        have "promisesOk ids (setAccept k (AcceptEnded False) b)"
          by (rule promises_setAccept [OF ok True]) (simp_all add: AwaitsRunner)
        with False Some AwaitsRunner True show ?thesis
          by (cases a) (simp_all add: resumeAccept_def promises_runnerRefused)
      qed
    qed
  next
    case (AwaitsRequester ans)
    have "promisesOk ids (setAccept k (AcceptEnded True) b)"
      by (rule promises_setAccept [OF ok True]) (simp_all add: AwaitsRequester)
    with AwaitsRequester True ok promisesOk_onlyTasks [OF _ requesterAnswered_only] show ?thesis
      by (cases ans) (simp_all add: resumeAccept_def)
  next
    case (AcceptEnded x)
    with True ok show ?thesis by (simp add: resumeAccept_def)
  qed
qed (simp add: resumeAccept_def ok)

lemma promises_failTaskOf: "promisesOk ids b \<Longrightarrow> promisesOk ids (failTaskOf runnerId message kt b)"
  by (cases kt)
    (simp add: failTaskOf_def handleRunnerReject_def promises_settleRunner promisesOk_onlyTasks [OF _ failTask_only])

lemma promises_deregisterRunner:
  assumes "promisesOk ids b"
  shows "promisesOk ids (deregisterRunner runnerId message b)"
proof -
  have "promisesOk ids (fold (failTaskOf runnerId message) kts b')" if "promisesOk ids b'" for kts b'
    using that by (induction kts arbitrary: b') (simp_all add: promises_failTaskOf)
  with assms show ?thesis by (simp add: deregisterRunner_def promisesOk_def taskIds_def)
qed

lemma promises_onRunnerMessage: "promisesOk ids b \<Longrightarrow> promisesOk ids (onRunnerMessage ids runnerId message b)"
proof -
  assume ok: "promisesOk ids b"
  have "promisesOk ids (taskOffered ids offer b)" for offer
    unfolding taskOffered_def by (rule promises_settleTasks) (use ok in \<open>simp add: promisesOk_def taskIds_def\<close>)
  with ok show ?thesis
    by (cases message)
      (simp_all add: onRunnerMessage_def handleRunnerAccept_def handleRunnerReject_def handleRunnerDeferred_def
        promises_settleRunner taskDoneHandler_def taskErrorHandler_def
        promisesOk_onlyTasks [OF _ endTask_only] promisesOk_onlyTasks [OF _ forwardToRequester_only])
qed

lemma promises_onRequesterMessage: "promisesOk ids b \<Longrightarrow> promisesOk ids (snd (onRequesterMessage ids requesterId message b))"
proof -
  assume ok: "promisesOk ids b"
  have "promisesOk ids (taskRequested ids request (startTimer t b))" for request t
    unfolding taskRequested_def
    by (rule promises_settleTasks) (use ok in \<open>simp add: promisesOk_def taskIds_def broker_frame\<close>)
  with ok show ?thesis
    by (cases message)
      (simp_all add: onRequesterMessage_def handleRequesterAccept_def promises_settleRequester
        promisesOk_onlyTasks [OF _ cancelTask_only] promisesOk_onlyTasks [OF _ forwardToRunner_only])
qed

lemma promises_timerCallback:
  assumes ok: "promisesOk ids b"
  shows "promisesOk ids (timerCallback t b)"
proof (cases t)
  case (RequestTimer requestId)
  have "promisesOk ids (handleRequestTimeout requestId b)"
    using ok by (rule promisesOk_cong [THEN iffD2, rotated -1])
      (auto simp: handleRequestTimeout_def broker_frame split: option.splits)
  with RequestTimer show ?thesis by (simp add: timerCallback_def)
qed (use ok in \<open>auto simp: timerCallback_def intro: promises_setAccept promisesOk_onlyTasks [OF _ handleTaskTimeout_only]\<close>)

lemma promises_brokerStep:
  assumes ok: "promisesOk ids b"
  shows "promisesOk ids (brokerStep ids ev b)"
proof (cases ev)
  case (FireTimer i)
  with ok promises_timerCallback [OF promisesOk_onlyTasks [OF ok timer_only(2)]] show ?thesis by (simp add: fireTimer_def)
next
  case (RegisterRunner x)
  have "promisesOk ids (b\<lparr>knownRunners := y\<rparr>)" for y using ok by (simp add: promisesOk_def taskIds_def)
  from promisesOk_onlyTasks [OF this messageRunner_only] RegisterRunner show ?thesis by (simp add: registerRunner_def)
qed (use ok in \<open>simp_all add: promises_deregisterRunner promises_onRunnerMessage promises_onRequesterMessage promises_resumeAccept\<close>,
    simp_all add: promisesOk_def taskIds_def registerRequester_def deregisterRequester_def)

lemma reachable_promises: "broker_reachable ids b \<Longrightarrow> promisesOk ids b"
proof (induction rule: broker_reachable.induct)
  case (start taskTimeout mode b)
  then show ?case by (auto simp: newTaskBroker_def promisesOk_def taskIds_def split: if_splits)
qed (rule promises_brokerStep)

end
