(* ===== verification/BrokerRuns.thy ===== *)
theory BrokerRuns
  imports BrokerProps
begin

text \<open>
  The properties of the broker, and two runs in which a request and the answer of the runner cross.
\<close>

section \<open>Runs\<close>

definition emptyBroker :: TaskBroker where
  "emptyBroker = \<lparr>knownRunners = [], requesters = [], tasks = [], runnerAcceptRejects = [], requesterAcceptRejects = [],
     pendingTaskOffers = [], pendingTaskRequests = [], requests = [], accepts = [], timers = [], now = 0,
     sent = [], unhandled = [], broker_mode = InternalRunner, broker_taskTimeout = 300\<rparr>"

definition runBroker :: "BrokerEvent list \<Rightarrow> TaskBroker" where
  "runBroker evs = fold (brokerStep nat_str) evs emptyBroker"

lemma runBroker_reachable: "broker_reachable nat_str (runBroker evs)"
proof -
  have "broker_reachable nat_str (fold (brokerStep nat_str) evs b)" if "broker_reachable nat_str b" for b
    using that by (induction evs arbitrary: b) (simp_all add: broker_reachable.step)
  moreover have "broker_reachable nat_str emptyBroker"
    by (rule broker_reachable.start [of 300 InternalRunner]) (simp add: newTaskBroker_def emptyBroker_def)
  ultimately show ?thesis by (simp add: runBroker_def)
qed

text \<open>A runner, a requester, and two requests.\<close>

definition firstRequests :: "BrokerEvent list" where
  "firstRequests = [RegisterRunner \<lparr>tr_id = ''r'', tr_taskTypes = [''js'']\<rparr>, RegisterRequester ''q'',
     FromRequester ''q'' (RequesterTaskRequest ''x'' ''js''), FromRequester ''q'' (RequesterTaskRequest ''y'' ''js'')]"

definition offered :: "BrokerEvent list" where
  "offered = firstRequests @ [FromRunner ''r'' (RunnerTaskOffer ''js'' ''o'' 5000)]"

section \<open>Matching\<close>

text \<open>C9: \<open>settleTasks\<close> matches, for every task type, the offers that have not expired with the requests of the type
  that no runner is asked for yet, both in the order they came in, as far as the shorter of the two lists goes,
  and leaves the other offers of the type in their order.\<close>

theorem settleTasks_first_come_first_served:
  assumes "broker_reachable ids b"
  shows "pairsOf ty (drop (length (accepts b)) (accepts (settleTasks ids b))) =
      zip (offersOf ty (pendingTaskOffers (expireTasks b))) (idleOf ty (requests b) (firsts (pendingTaskRequests b))) \<and>
    offersOf ty (pendingTaskOffers (settleTasks ids b)) =
      drop (length (idleOf ty (requests b) (firsts (pendingTaskRequests b)))) (offersOf ty (pendingTaskOffers (expireTasks b)))"
proof -
  have r: "\<And>r. r \<in> set (pendingTaskRequests b) \<Longrightarrow> r < length (requests (expireTasks b))"
    using reachable_ok [OF assms] by (simp add: requestsOk_def expireTasks_def)
  from settle_matches [of "pendingTaskRequests b" "expireTasks b" ids ty, OF r] show ?thesis
    by (auto simp: settleTasks_def expireTasks_def)
qed

text \<open>
  A runner that refuses frees the request, but nothing matches it again: here request \<open>x\<close> and the second
  offer stay side by side until the next request or offer comes in.
\<close>

definition refused :: "BrokerEvent list" where
  "refused = [RegisterRunner \<lparr>tr_id = ''r'', tr_taskTypes = [''js'']\<rparr>, RegisterRequester ''q'',
     FromRequester ''q'' (RequesterTaskRequest ''x'' ''js''), FromRunner ''r'' (RunnerTaskOffer ''js'' ''o'' 5000),
     FromRunner ''r'' (RunnerTaskOffer ''js'' ''p'' 5000), FromRunner ''r'' (RunnerTaskRejected ''0'' ''busy''), ResumeAccept 0]"

lemma settleTasks_first_come_first_served_witness:
  "pendingTaskRequests (runBroker refused) = [0] \<and> map of_offerId (pendingTaskOffers (runBroker refused)) = [''p''] \<and>
   map (\<lambda>(offer, r). (of_offerId offer, r))
     (pairsOf ''js'' (drop (length (accepts (runBroker refused))) (accepts (settleTasks nat_str (runBroker refused))))) = [(''p'', 0)]"
proof -
  have o: "map of_offerId (offersOf ''js'' (pendingTaskOffers (expireTasks (runBroker refused)))) = [''p'']"
    and i: "idleOf ''js'' (requests (runBroker refused)) (firsts (pendingTaskRequests (runBroker refused))) = [0]"
    and p: "pendingTaskRequests (runBroker refused) = [0]" "map of_offerId (pendingTaskOffers (runBroker refused)) = [''p'']"
    by code_simp+
  from settleTasks_first_come_first_served [OF runBroker_reachable [of refused], of "''js''"] o i p show ?thesis
    by (auto simp: map_eq_Cons_conv)
qed

section \<open>One task per request\<close>

text \<open>C8: In every state of the broker a request is marked as being accepted exactly when there is one call of
  \<open>acceptOffer\<close> for it that no runner has refused, and there is never a second one: a request leads to at most
  one task, whatever the order of offers, answers, deferrals and timeouts.\<close>

theorem one_task_per_request:
  assumes "broker_reachable ids b" and "r < length (requests b)"
  shows "length (filter (\<lambda>a. ao_request a = r \<and> ao_state a \<noteq> AcceptEnded False) (accepts b)) =
    (if rq_acceptInProgress (requests b ! r) then 1 else 0)"
  using reachable_ok [OF assms(1)] assms(2) by (simp add: requestsOk_def live_def [abs_def])

lemma one_task_per_request_witness:
  "length (requests (runBroker offered)) = 2 \<and>
   length (filter (\<lambda>a. ao_request a = 0 \<and> ao_state a \<noteq> AcceptEnded False) (accepts (runBroker offered))) = 1"
proof -
  have r: "length (requests (runBroker offered)) = 2" "rq_acceptInProgress (requests (runBroker offered) ! 0)"
    by code_simp+
  then have "0 < length (requests (runBroker offered))" by simp
  from one_task_per_request [OF runBroker_reachable this] r show ?thesis by simp
qed

section \<open>Disconnected runners\<close>

lemma settleRunner_unknown: "map_of (runnerAcceptRejects b) taskId = None \<Longrightarrow> settleRunner taskId a b = b"
  by (simp add: settleRunner_def)

lemma tasks_answered:
  assumes ok: "promisesOk ids b" and inj: "inj ids" and t: "(taskId, i) \<in> taskIds b"
  shows "i = taskId \<and> map_of (runnerAcceptRejects b) taskId = None"
proof -
  from ok t obtain k where k: "i = taskId" "taskId = ids k" "acceptedPhase (ao_state (accepts b ! k))"
    unfolding promisesOk_def by blast
  have False if "map_of (runnerAcceptRejects b) taskId = Some j" for j
  proof -
    from that have "(taskId, j) \<in> set (runnerAcceptRejects b)" by (rule map_of_SomeD)
    with ok have "taskId = ids j" "unanswered (ao_state (accepts b ! j))" by (auto simp: promisesOk_def)
    with k inj show False by (metis injD not_both)
  qed
  with k(1) show ?thesis by (cases "map_of (runnerAcceptRejects b) taskId") auto
qed

text \<open>When a runner disconnects its tasks fail, but no offer that waits for the runner's answer is rejected:
  an entry of \<open>runnerAcceptRejects\<close> never belongs to a task, so \<open>handleRunnerReject\<close> has no effect in
  \<open>deregisterRunner\<close> and the request waits for the accept timeout.\<close>

theorem deregisterRunner_rejects_no_offer:
  assumes "broker_reachable ids b" and "inj ids"
  shows "runnerAcceptRejects (deregisterRunner runnerId message b) = runnerAcceptRejects b \<and>
    accepts (deregisterRunner runnerId message b) = accepts b"
proof -
  have "runnerAcceptRejects (fold (failTaskOf runnerId message) kts b') = runnerAcceptRejects b \<and>
      accepts (fold (failTaskOf runnerId message) kts b') = accepts b"
    if "runnerAcceptRejects b' = runnerAcceptRejects b" "accepts b' = accepts b" "set kts \<subseteq> set (tasks b)" for kts b'
    using that
  proof (induction kts arbitrary: b')
    case (Cons kt kts)
    obtain key t where kt: "kt = (key, t)" by force
    with Cons.prems(3) have "(key, task_id t) \<in> taskIds b" by (force simp: taskIds_def)
    from tasks_answered [OF reachable_promises [OF assms(1)] assms(2) this]
    have k: "map_of (runnerAcceptRejects b) (task_id t) = None" by simp
    have f: "runnerAcceptRejects (failTask i e b') = runnerAcceptRejects b" "accepts (failTask i e b') = accepts b" for i e
      using failTask_only [of b' i e] Cons.prems(1,2) by (simp_all add: onlyTasks_def)
    have "runnerAcceptRejects (failTaskOf runnerId message kt b') = runnerAcceptRejects b \<and>
        accepts (failTaskOf runnerId message kt b') = accepts b"
      using Cons.prems(1,2) k f by (simp add: kt failTaskOf_def handleRunnerReject_def settleRunner_unknown)
    with Cons.IH Cons.prems(3) show ?case by simp
  qed simp
  then show ?thesis by (simp add: deregisterRunner_def)
qed

lemma deregisterRunner_rejects_no_offer_witness:
  "map ao_state (accepts (deregisterRunner ''r'' ''gone'' (runBroker offered))) = [AwaitsRunner None]"
proof -
  have "inj nat_str" by (rule injI) (rule nat_str_inj)
  from deregisterRunner_rejects_no_offer [OF runBroker_reachable this]
  have "accepts (deregisterRunner ''r'' ''gone'' (runBroker offered)) = accepts (runBroker offered)" by blast
  moreover have "map ao_state (accepts (runBroker offered)) = [AwaitsRunner None]" by code_simp
  ultimately show ?thesis by simp
qed

section \<open>Requests that expire\<close>

text \<open>
  The timeout of request \<open>x\<close> fires while the runner is asked, and then the runner accepts; or the runner
  defers the offer first, the timeout fires and a second offer comes in.
\<close>

definition expiresWhileAsked :: "BrokerEvent list" where
  "expiresWhileAsked = offered @ [FireTimer 0, FromRunner ''r'' (RunnerTaskAccepted ''0''), ResumeAccept 0]"

definition expiresAfterDeferral :: "BrokerEvent list" where
  "expiresAfterDeferral = [RegisterRunner \<lparr>tr_id = ''r'', tr_taskTypes = [''js'']\<rparr>, RegisterRequester ''q'',
     FromRequester ''q'' (RequesterTaskRequest ''x'' ''js''), FromRunner ''r'' (RunnerTaskOffer ''js'' ''o'' 5000),
     FromRunner ''r'' (RunnerTaskDeferred ''0''), ResumeAccept 0, FireTimer 2,
     FromRunner ''r'' (RunnerTaskOffer ''js'' ''p'' 5000), FromRunner ''r'' (RunnerTaskAccepted ''1''), ResumeAccept 1]"

text \<open>A request that has expired can still become a task. If it expires while a runner is asked and the runner
  accepts, the task is kept although its requester never hears of it, nothing of it has a timer, and the runner
  waits for its settings; if it expires after a deferral, which lists it twice, the requester is told that it has
  expired and then that its task is ready.\<close>

theorem expired_request_gets_task:
  "map fst (tasks (runBroker expiresWhileAsked)) = [''0''] \<and>
   map ao_state (accepts (runBroker expiresWhileAsked)) = [AcceptEnded True] \<and>
   sent (runBroker expiresWhileAsked) = [ToRunner ''r'' BrokerRunnerRegistered,
     ToRunner ''r'' (BrokerTaskOfferAccept ''o'' ''0''), ToRequester ''q'' (BrokerRequestExpired ''x'' ''timeout'')] \<and>
   map (task_timeout \<circ> snd) (tasks (runBroker expiresWhileAsked)) = [None] \<and>
   sent (runBroker expiresAfterDeferral) = [ToRunner ''r'' BrokerRunnerRegistered,
     ToRunner ''r'' (BrokerTaskOfferAccept ''o'' ''0''), ToRequester ''q'' (BrokerRequestExpired ''x'' ''timeout''),
     ToRunner ''r'' (BrokerTaskOfferAccept ''p'' ''1''), ToRequester ''q'' (BrokerTaskReady ''x'' ''1'')]"
  by code_simp

text \<open>\<open>handleResponse\<close> reaches nobody unless a runner has the id of the requester.\<close>

lemma handleResponse_misses_requester:
  "map_of (tasks b) taskId = Some t \<Longrightarrow> map_of (knownRunners b) (task_requesterId t) = None \<Longrightarrow>
   handleResponse taskId requestId data b = b"
  by (simp add: handleResponse_def messageRunner_def)

end
