(* ===== verification/GraphUtils.thy ===== *)
theory GraphUtils
  imports WorkflowGraph
begin

text \<open>
  Which part of a workflow can be extracted into a workflow of its own:
  \<^verbatim>\<open>packages/workflow/src/graph/graph-utils.ts\<close>. Sets are duplicate-free lists in insertion order. The adjacency
  list maps a node to its connections; the connection objects of a workflow are pairwise different, so that a
  set of them is the list of them.
\<close>

type_synonym IConnectionAdjacencyList = "(string \<times> IConnection list) list"

section \<open>Sets\<close>

definition intersection :: "'a list \<Rightarrow> 'a list \<Rightarrow> 'a list" where
  "intersection a b = filter (\<lambda>x. x \<in> set b) a"

definition union_of :: "'a list \<Rightarrow> 'a list \<Rightarrow> 'a list" where
  "union_of a b = fold set_add b (fold set_add a [])"

definition difference :: "'a list \<Rightarrow> 'a list \<Rightarrow> 'a list" where
  "difference minuend subtrahend = fold set_remove subtrahend minuend"

lemma set_intersection [simp]: "set (intersection a b) = set a \<inter> set b"
  by (auto simp: intersection_def)

lemma set_union_of [simp]: "set (union_of a b) = set a \<union> set b"
  by (simp add: union_of_def)

lemma set_difference [simp]: "set (difference a b) = set a - set b"
  by (induction b arbitrary: a) (auto simp: difference_def)

lemma distinct_sets [simp]:
  "distinct a \<Longrightarrow> distinct (intersection a b)" "distinct (union_of a b)" "distinct a \<Longrightarrow> distinct (difference a b)"
  by (simp_all add: intersection_def union_of_def) (induction b arbitrary: a, simp_all add: difference_def)

text \<open>\<open>new Set(xs)\<close>\<close>

abbreviation new_set :: "'a list \<Rightarrow> 'a list" where
  "new_set xs \<equiv> fold set_add xs []"

section \<open>Edges\<close>

definition getInputEdges :: "string list \<Rightarrow> IConnectionAdjacencyList \<Rightarrow> (string \<times> IConnection) list" where
  "getInputEdges graphIds adj = concat (map (\<lambda>(f, tos).
     if f \<in> set graphIds then [] else map (Pair f) (filter (\<lambda>c. c_node c \<in> set graphIds) tos)) adj)"

definition getOutputEdges :: "string list \<Rightarrow> IConnectionAdjacencyList \<Rightarrow> (string \<times> IConnection) list" where
  "getOutputEdges graphIds adj = concat (map (\<lambda>(f, tos).
     if f \<notin> set graphIds then [] else map (Pair f) (filter (\<lambda>c. c_node c \<notin> set graphIds) tos)) adj)"

text \<open>The nodes a node leads to over main connections, without itself.\<close>

definition mainTargetsOf :: "IConnectionAdjacencyList \<Rightarrow> string \<Rightarrow> string list" where
  "mainTargetsOf adj nodeId = map c_node (filter (\<lambda>c. c_type c = Main) (list_get adj nodeId))"

definition otherTargets :: "IConnectionAdjacencyList \<Rightarrow> string \<Rightarrow> string list" where
  "otherTargets adj nodeId = map c_node (filter (\<lambda>c. c_type c = Main \<and> c_node c \<noteq> nodeId) (list_get adj nodeId))"

definition getRootNodes :: "string list \<Rightarrow> IConnectionAdjacencyList \<Rightarrow> string list" where
  "getRootNodes graphIds adj =
     difference graphIds (fold (\<lambda>nodeId inner. union_of inner (new_set (otherTargets adj nodeId))) graphIds [])"

definition getLeafNodes :: "string list \<Rightarrow> IConnectionAdjacencyList \<Rightarrow> string list" where
  "getLeafNodes graphIds adj =
     fold (\<lambda>nodeId res. if intersection (new_set (otherTargets adj nodeId)) graphIds = [] then set_add nodeId res else res) graphIds []"

section \<open>Paths\<close>

text \<open>
  The \<open>while (true)\<close> of \<open>hasPath\<close>: \<open>paths\<close> is the stack with its top first. A node may be on it several times and
  may be expanded again although it has been seen; only nodes that have not been seen are pushed.
\<close>

function hasPathLoop :: "IConnectionAdjacencyList \<Rightarrow> string \<Rightarrow> string list \<Rightarrow> string list \<Rightarrow> bool" where
  "hasPathLoop adj goal [] seen = False"
| "hasPathLoop adj goal (nxt # paths) seen =
     (if nxt = goal then True
      else let seen' = set_add nxt seen
           in hasPathLoop adj goal (rev (difference (new_set (mainTargetsOf adj nxt)) seen') @ paths) seen')"
  by pat_completeness auto

text \<open>
  Expanding a node that has been seen either shortens the stack or puts a node on top that has not been seen.
\<close>

definition adjTargets :: "IConnectionAdjacencyList \<Rightarrow> string set" where
  "adjTargets adj = (\<Union>(f, tos) \<in> set adj. c_node ` set tos)"

lemma mainTargetsOf_all: "set (mainTargetsOf adj n) \<subseteq> adjTargets adj"
proof (cases "map_of adj n")
  case (Some tos)
  then have "(n, tos) \<in> set adj" by (rule map_of_SomeD)
  with Some show ?thesis by (fastforce simp: mainTargetsOf_def adjTargets_def list_get_def)
qed (simp add: mainTargetsOf_def list_get_def)

lemma finite_adjTargets: "finite (adjTargets adj)"
  by (auto simp: adjTargets_def)

definition topSeen :: "string list \<Rightarrow> string list \<Rightarrow> nat" where
  "topSeen paths seen = (case paths of [] \<Rightarrow> 0 | p # ps \<Rightarrow> if p \<in> set seen then length paths else 0)"

lemma hasPathLoop_decreases:
  fixes adj :: IConnectionAdjacencyList
  defines "unseen \<equiv> \<lambda>paths seen. card ((set paths \<union> adjTargets adj) - set seen)"
  assumes push: "push = rev (difference (new_set (mainTargetsOf adj nxt)) (set_add nxt seen))"
  shows "unseen (push @ paths) (set_add nxt seen) < unseen (nxt # paths) seen \<or>
    unseen (push @ paths) (set_add nxt seen) = unseen (nxt # paths) seen \<and>
      topSeen (push @ paths) (set_add nxt seen) < topSeen (nxt # paths) seen"
proof -
  have p: "set push = set (mainTargetsOf adj nxt) - insert nxt (set seen)" by (simp add: push)
  then have sub: "set push \<subseteq> adjTargets adj" using mainTargetsOf_all [of adj nxt] by auto
  have fin: "finite ((set (nxt # paths) \<union> adjTargets adj) - set seen)" by (simp add: finite_adjTargets)
  show ?thesis
  proof (cases "nxt \<in> set seen")
    case True
    then have s: "set_add nxt seen = seen" by (simp add: set_add_def)
    have le: "unseen (push @ paths) seen \<le> unseen (nxt # paths) seen"
      unfolding unseen_def by (rule card_mono [OF fin]) (use sub in auto)
    have "topSeen (push @ paths) seen < topSeen (nxt # paths) seen"
    proof (cases push)
      case Nil
      with True show ?thesis by (simp add: topSeen_def split: list.splits)
    next
      case (Cons x xs)
      with p have "x \<notin> set seen" by auto
      with Cons True show ?thesis by (simp add: topSeen_def)
    qed
    with le s show ?thesis by auto
  next
    case False
    have "(set (push @ paths) \<union> adjTargets adj) - set (set_add nxt seen) \<subset> (set (nxt # paths) \<union> adjTargets adj) - set seen"
      using sub False by auto
    then have "unseen (push @ paths) (set_add nxt seen) < unseen (nxt # paths) seen"
      unfolding unseen_def by (rule psubset_card_mono [OF fin])
    then show ?thesis ..
  qed
qed

termination hasPathLoop
  by (relation "measures [\<lambda>(adj, goal, paths, seen). card ((set paths \<union> adjTargets adj) - set seen),
      \<lambda>(adj, goal, paths, seen). topSeen paths seen]")
    (use hasPathLoop_decreases in \<open>auto simp: Let_def\<close>)

declare hasPathLoop.simps [simp del]

definition hasPath :: "string \<Rightarrow> string \<Rightarrow> IConnectionAdjacencyList \<Rightarrow> bool" where
  "hasPath start goal adj = hasPathLoop adj goal [start] []"

section \<open>The adjacency list of a workflow\<close>

definition addOrCreate :: "string \<Rightarrow> IConnection \<Rightarrow> IConnectionAdjacencyList \<Rightarrow> IConnectionAdjacencyList" where
  "addOrCreate k v adj = AList.update k (list_get adj k @ [v]) adj"

definition buildAdjacencyList :: "IConnections \<Rightarrow> IConnectionAdjacencyList" where
  "buildAdjacencyList conns =
     fold (\<lambda>(sourceNode, m). fold (\<lambda>(t, outs). fold (addOrCreate sourceNode) (flat outs)) m) conns []"

section \<open>Selections that can be extracted\<close>

datatype ExtractableErrorResult =
    MultipleInputNodes "string list"
  | MultipleOutputNodes "string list"
  | InputEdgeToNonRootNode string
  | OutputEdgeFromNonLeafNode string
  | NoContinuousPathFromRootToLeaf string string

record ExtractableSubgraphData =
  sel_start :: "string option"
  sel_end :: "string option"

text \<open>\<open>start && end && ...\<close>: an empty name counts as missing.\<close>

definition pathErrors :: "string option \<Rightarrow> string option \<Rightarrow> IConnectionAdjacencyList \<Rightarrow> ExtractableErrorResult list" where
  "pathErrors s e adj = (case (s, e) of
     (Some a, Some b) \<Rightarrow> if a \<noteq> [] \<and> b \<noteq> [] \<and> \<not> hasPath a b adj then [NoContinuousPathFromRootToLeaf a b] else []
   | _ \<Rightarrow> [])"

definition firstOf :: "'a list \<Rightarrow> 'a option" where
  "firstOf xs = (case xs of [] \<Rightarrow> None | x # _ \<Rightarrow> Some x)"

definition inputNodesOf :: "string list \<Rightarrow> IConnectionAdjacencyList \<Rightarrow> string list" where
  "inputNodesOf graphIds adj =
     new_set (map (c_node \<circ> snd) (filter (\<lambda>x. c_type (snd x) = Main) (getInputEdges graphIds adj)))"

definition outputNodesOf :: "string list \<Rightarrow> IConnectionAdjacencyList \<Rightarrow> string list" where
  "outputNodesOf graphIds adj =
     new_set (map fst (filter (\<lambda>x. c_type (snd x) = Main) (getOutputEdges graphIds adj)))"

text \<open>The only input, or output, is tolerated as the root, or leaf, of a selection that has none.\<close>

definition orTolerated :: "string list \<Rightarrow> string list \<Rightarrow> string list" where
  "orTolerated own crossed = (if length own = 0 \<and> length crossed = 1 then crossed else own)"

definition parseExtractableSubgraphSelection ::
  "string list \<Rightarrow> IConnectionAdjacencyList \<Rightarrow> ExtractableErrorResult list + ExtractableSubgraphData" where
  "parseExtractableSubgraphSelection graphIds adj =
     (let inputNodes = inputNodesOf graphIds adj;
          rootNodes = orTolerated (getRootNodes graphIds adj) inputNodes;
          inputErrors = map InputEdgeToNonRootNode (difference inputNodes rootNodes);
          rootInputNodes = intersection rootNodes inputNodes;
          manyInputs = (if length rootInputNodes > 1 then [MultipleInputNodes rootInputNodes] else []);
          outputNodes = outputNodesOf graphIds adj;
          leafNodes = orTolerated (getLeafNodes graphIds adj) outputNodes;
          outputErrors = map OutputEdgeFromNonLeafNode (difference outputNodes leafNodes);
          leafOutputNodes = intersection leafNodes outputNodes;
          manyOutputs = (if length leafOutputNodes > 1 then [MultipleOutputNodes leafOutputNodes] else []);
          s = firstOf rootInputNodes;
          e = firstOf leafOutputNodes;
          errors = inputErrors @ manyInputs @ outputErrors @ manyOutputs @ pathErrors s e adj
      in if errors \<noteq> [] then Inl errors else Inr \<lparr>sel_start = s, sel_end = e\<rparr>)"

end
