(* ===== verification/SelectionProps.thy ===== *)
theory SelectionProps
  imports GraphUtils
begin

text \<open>
  The search for a path is exact, and so is the answer whether a selection can be extracted: it is entered in
  one root at most, left from one leaf at most, and then the way between them stays inside.
\<close>

section \<open>Paths\<close>

definition mainEdges :: "IConnectionAdjacencyList \<Rightarrow> (string \<times> string) set" where
  "mainEdges adj = {(a, b). b \<in> set (mainTargetsOf adj a)}"

lemma hasPathLoop_sound:
  "hasPathLoop adj goal paths seen \<Longrightarrow> \<exists>p \<in> set paths. (p, goal) \<in> (mainEdges adj)\<^sup>*"
proof (induction adj goal paths seen rule: hasPathLoop.induct)
  case (1 adj goal seen)
  then show ?case by (simp add: hasPathLoop.simps)
next
  case (2 adj goal nxt paths seen)
  show ?case
  proof (cases "nxt = goal")
    case False
    with "2.prems" "2.IH" [OF False refl]
    obtain p where p: "p \<in> set (rev (difference (new_set (mainTargetsOf adj nxt)) (set_add nxt seen)) @ paths)"
      "(p, goal) \<in> (mainEdges adj)\<^sup>*"
      by (auto simp: hasPathLoop.simps(2) [of adj goal nxt paths seen] Let_def)
    show ?thesis
    proof (cases "p \<in> set paths")
      case False
      with p(1) have "(nxt, p) \<in> mainEdges adj" by (auto simp: mainEdges_def)
      from this p(2) have "(nxt, goal) \<in> (mainEdges adj)\<^sup>*" by (rule converse_rtrancl_into_rtrancl)
      then show ?thesis by auto
    qed (use p(2) in auto)
  qed auto
qed

text \<open>When the search gives up, what it has seen is closed under the connections.\<close>

definition closedUnder :: "('a \<times> 'a) set \<Rightarrow> 'a set \<Rightarrow> bool" where
  "closedUnder R S \<longleftrightarrow> (\<forall>x y. x \<in> S \<longrightarrow> (x, y) \<in> R \<longrightarrow> y \<in> S)"

definition seenClosed :: "IConnectionAdjacencyList \<Rightarrow> string list \<Rightarrow> string list \<Rightarrow> bool" where
  "seenClosed adj paths seen \<longleftrightarrow> (\<forall>x y. x \<in> set seen \<longrightarrow> (x, y) \<in> mainEdges adj \<longrightarrow> y \<in> set seen \<union> set paths)"

lemma seenClosed_step:
  assumes "seenClosed adj (nxt # paths) seen"
  shows "seenClosed adj (rev (difference (new_set (mainTargetsOf adj nxt)) (set_add nxt seen)) @ paths) (set_add nxt seen)"
  unfolding seenClosed_def
proof (intro allI impI)
  fix x y
  assume x: "x \<in> set (set_add nxt seen)" and e: "(x, y) \<in> mainEdges adj"
  show "y \<in> set (set_add nxt seen) \<union> set (rev (difference (new_set (mainTargetsOf adj nxt)) (set_add nxt seen)) @ paths)"
  proof (cases "x = nxt")
    case True
    with e show ?thesis by (auto simp: mainEdges_def)
  next
    case False
    with x have "x \<in> set seen" by simp
    with assms e have "y \<in> set seen \<union> set (nxt # paths)" unfolding seenClosed_def by blast
    then show ?thesis by auto
  qed
qed

lemma hasPathLoop_complete:
  "\<not> hasPathLoop adj goal paths seen \<Longrightarrow> seenClosed adj paths seen \<Longrightarrow> goal \<notin> set seen \<Longrightarrow>
   \<exists>S. set seen \<union> set paths \<subseteq> S \<and> goal \<notin> S \<and> closedUnder (mainEdges adj) S"
proof (induction adj goal paths seen rule: hasPathLoop.induct)
  case (1 adj goal seen)
  then show ?case by (intro exI [of _ "set seen"]) (simp add: seenClosed_def closedUnder_def)
next
  case (2 adj goal nxt paths seen)
  let ?push = "rev (difference (new_set (mainTargetsOf adj nxt)) (set_add nxt seen))"
  have n: "nxt \<noteq> goal" "\<not> hasPathLoop adj goal (?push @ paths) (set_add nxt seen)"
    using "2.prems"(1) unfolding hasPathLoop.simps(2) [of adj goal nxt paths seen] Let_def by (simp_all split: if_splits)
  have g: "goal \<notin> set (set_add nxt seen)" using n(1) "2.prems"(3) by simp
  from "2.IH" [OF n(1) refl n(2) seenClosed_step [OF "2.prems"(2)] g]
  obtain S where S: "set (set_add nxt seen) \<union> set (?push @ paths) \<subseteq> S" "goal \<notin> S" "closedUnder (mainEdges adj) S"
    by blast
  from S(1) have "set seen \<union> set (nxt # paths) \<subseteq> S" by simp
  with S(2,3) show ?case by blast
qed

text \<open>C25: \<open>hasPath\<close> ends for every adjacency list, cycles included, and returns \<open>true\<close> exactly when the end can be
  reached from the start over main connections.\<close>

theorem hasPath_iff: "hasPath start goal adj \<longleftrightarrow> (start, goal) \<in> (mainEdges adj)\<^sup>*"
proof
  assume "hasPath start goal adj"
  then show "(start, goal) \<in> (mainEdges adj)\<^sup>*" using hasPathLoop_sound [of adj goal "[start]" "[]"] by (auto simp: hasPath_def)
next
  assume r: "(start, goal) \<in> (mainEdges adj)\<^sup>*"
  show "hasPath start goal adj"
  proof (rule ccontr)
    assume "\<not> hasPath start goal adj"
    then obtain S where S: "start \<in> S" "goal \<notin> S" "closedUnder (mainEdges adj) S"
      using hasPathLoop_complete [of adj goal "[start]" "[]"] by (auto simp: hasPath_def seenClosed_def)
    from r S(1,3) have "goal \<in> S" by (induction rule: rtrancl_induct) (auto simp: closedUnder_def)
    with S(2) show False by simp
  qed
qed

section \<open>Crossing the border of a selection\<close>

text \<open>The nodes of a selection that are entered, and those it is left from; its roots and its leaves.\<close>

definition enteredAt :: "string set \<Rightarrow> (string \<times> string) set \<Rightarrow> string set" where
  "enteredAt ids E = {b \<in> ids. \<exists>a. a \<notin> ids \<and> (a, b) \<in> E}"

definition leftFrom :: "string set \<Rightarrow> (string \<times> string) set \<Rightarrow> string set" where
  "leftFrom ids E = {a \<in> ids. \<exists>b. b \<notin> ids \<and> (a, b) \<in> E}"

definition rootsOf :: "string set \<Rightarrow> (string \<times> string) set \<Rightarrow> string set" where
  "rootsOf ids E = {b \<in> ids. \<forall>a \<in> ids. (a, b) \<in> E \<longrightarrow> a = b}"

definition leavesOf :: "string set \<Rightarrow> (string \<times> string) set \<Rightarrow> string set" where
  "leavesOf ids E = {a \<in> ids. \<forall>b \<in> ids. (a, b) \<in> E \<longrightarrow> a = b}"

lemma keys_addOrCreate: "distinct_keys adj \<Longrightarrow> distinct_keys (addOrCreate k v adj)"
  by (simp add: addOrCreate_def distinct_update)

lemma fold_distinct_keys:
  "(\<And>x adj. distinct_keys adj \<Longrightarrow> distinct_keys (f x adj)) \<Longrightarrow> distinct_keys adj \<Longrightarrow> distinct_keys (fold f xs adj)"
  by (induction xs arbitrary: adj) auto

lemma keys_buildAdjacencyList: "distinct_keys (buildAdjacencyList conns)"
  unfolding buildAdjacencyList_def
  by (intro fold_distinct_keys) (auto intro!: fold_distinct_keys keys_addOrCreate split: prod.splits)

lemma mainEdge_entry:
  assumes "distinct_keys adj"
  shows "(a, b) \<in> mainEdges adj \<longleftrightarrow> (\<exists>tos c. (a, tos) \<in> set adj \<and> c \<in> set tos \<and> c_type c = Main \<and> c_node c = b)"
  unfolding map_of_entry [OF assms]
  by (cases "map_of adj a") (auto simp: mainEdges_def mainTargetsOf_def list_get_def)

lemma inputEdge: "(f, c) \<in> set (getInputEdges ids adj) \<longleftrightarrow>
    (\<exists>tos. (f, tos) \<in> set adj \<and> f \<notin> set ids \<and> c \<in> set tos \<and> c_node c \<in> set ids)"
  unfolding getInputEdges_def by (auto split: if_splits)

lemma outputEdge: "(f, c) \<in> set (getOutputEdges ids adj) \<longleftrightarrow>
    (\<exists>tos. (f, tos) \<in> set adj \<and> f \<in> set ids \<and> c \<in> set tos \<and> c_node c \<notin> set ids)"
  unfolding getOutputEdges_def by (auto split: if_splits)

lemma set_inputNodesOf:
  assumes "distinct_keys adj"
  shows "set (inputNodesOf ids adj) = enteredAt (set ids) (mainEdges adj)"
proof -
  have "b \<in> set (inputNodesOf ids adj) \<longleftrightarrow> (\<exists>f c. (f, c) \<in> set (getInputEdges ids adj) \<and> c_type c = Main \<and> c_node c = b)" for b
    by (force simp: inputNodesOf_def)
  then have "b \<in> set (inputNodesOf ids adj) \<longleftrightarrow> b \<in> set ids \<and> (\<exists>f. f \<notin> set ids \<and> (f, b) \<in> mainEdges adj)" for b
    unfolding inputEdge mainEdge_entry [OF assms] by (auto simp: Bex_def)
  then show ?thesis unfolding enteredAt_def by blast
qed

lemma set_outputNodesOf:
  assumes "distinct_keys adj"
  shows "set (outputNodesOf ids adj) = leftFrom (set ids) (mainEdges adj)"
proof -
  have "a \<in> set (outputNodesOf ids adj) \<longleftrightarrow> (\<exists>c. (a, c) \<in> set (getOutputEdges ids adj) \<and> c_type c = Main)" for a
    by (force simp: outputNodesOf_def)
  then show ?thesis unfolding outputEdge leftFrom_def mainEdge_entry [OF assms] by blast
qed

lemma set_otherTargets: "set (otherTargets adj a) = {b. (a, b) \<in> mainEdges adj \<and> b \<noteq> a}"
  by (auto simp: otherTargets_def mainEdges_def mainTargetsOf_def)

lemma set_getRootNodes: "set (getRootNodes ids adj) = rootsOf (set ids) (mainEdges adj)"
proof -
  have "set (fold (\<lambda>nodeId inner. union_of inner (new_set (otherTargets adj nodeId))) xs inner) =
      set inner \<union> (\<Union>x \<in> set xs. set (otherTargets adj x))" for xs inner
    by (induction xs arbitrary: inner) auto
  then show ?thesis by (auto simp: getRootNodes_def rootsOf_def set_otherTargets)
qed

lemma set_getLeafNodes: "set (getLeafNodes ids adj) = leavesOf (set ids) (mainEdges adj)"
proof -
  have "set (fold (\<lambda>x res. if P x then set_add x res else res) xs res) = set res \<union> {x \<in> set xs. P x}" for P xs and res :: "string list"
    by (induction xs arbitrary: res) auto
  moreover have "intersection (new_set (otherTargets adj a)) ids = [] \<longleftrightarrow> (\<forall>b \<in> set ids. (a, b) \<in> mainEdges adj \<longrightarrow> a = b)" for a
    by (auto simp: intersection_def filter_empty_conv set_otherTargets)
  ultimately show ?thesis by (simp add: getLeafNodes_def leavesOf_def)
qed

lemma distinct_parts:
  "distinct (inputNodesOf ids adj)" "distinct (outputNodesOf ids adj)" "distinct (getLeafNodes ids adj)"
  "distinct ids \<Longrightarrow> distinct (getRootNodes ids adj)"
proof -
  have "distinct (fold (\<lambda>x res. if P x then set_add x res else res) xs res) = distinct res" for P xs and res :: "string list"
    by (induction xs arbitrary: res) auto
  then show "distinct (getLeafNodes ids adj)" by (simp add: getLeafNodes_def)
qed (simp_all add: inputNodesOf_def outputNodesOf_def getRootNodes_def)

text \<open>One side of the check, for the inputs as for the outputs.\<close>

lemma firstOf_only:
  assumes "distinct xs"
  shows "\<not> 1 < length xs \<and> firstOf xs = s \<longleftrightarrow> set xs = set_option s"
proof (cases xs)
  case Nil
  then show ?thesis by (cases s) (auto simp: firstOf_def)
next
  case (Cons x ys)
  with assms show ?thesis by (cases s; cases ys) (auto simp: firstOf_def)
qed

lemma crossing:
  assumes "distinct own" "distinct crossed"
  shows "difference crossed (orTolerated own crossed) = [] \<and> \<not> 1 < length (intersection (orTolerated own crossed) crossed) \<and>
      firstOf (intersection (orTolerated own crossed) crossed) = s \<longleftrightarrow>
    set crossed = set_option s \<and> (set crossed \<subseteq> set own \<or> own = [])"
proof -
  let ?t = "orTolerated own crossed"
  have d: "difference crossed ?t = [] \<longleftrightarrow> set crossed \<subseteq> set ?t"
    by (metis Diff_eq_empty_iff set_difference set_empty)
  have "distinct ?t" using assms by (simp add: orTolerated_def)
  then have i: "\<not> 1 < length (intersection ?t crossed) \<and> firstOf (intersection ?t crossed) = s \<longleftrightarrow> set ?t \<inter> set crossed = set_option s"
    using firstOf_only [of "intersection ?t crossed" s] by simp
  show ?thesis
  proof (cases "length own = 0 \<and> length crossed = 1")
    case True
    then have "?t = crossed" "own = []" by (simp_all add: orTolerated_def)
    with d i show ?thesis by auto
  next
    case False
    then have t: "?t = own" by (auto simp: orTolerated_def)
    have "crossed = []" if "own = []" "set crossed = set_option s"
    proof (rule ccontr)
      assume "crossed \<noteq> []"
      with that(2) firstOf_only [OF assms(2), of s] have "length crossed = 1" by (cases crossed) auto
      with False that(1) show False by simp
    qed
    with d i t show ?thesis by auto
  qed
qed

section \<open>The adjacency list holds every connection\<close>

lemma list_get_addOrCreates: "list_get (fold (addOrCreate k) cs adj) a = list_get adj a @ (if a = k then cs else [])"
  by (induction cs arbitrary: adj) (auto simp: addOrCreate_def list_get_update)

lemma list_get_addTypes:
  "list_get (fold (\<lambda>(t, outs). fold (addOrCreate k) (flat outs)) m adj) a =
     list_get adj a @ (if a = k then concat (map (flat \<circ> snd) m) else [])"
  by (induction m arbitrary: adj) (auto simp: list_get_addOrCreates)

lemma list_get_addSources:
  "distinct_keys conns \<Longrightarrow>
   list_get (fold (\<lambda>(sourceNode, m). fold (\<lambda>(t, outs). fold (addOrCreate sourceNode) (flat outs)) m) conns adj) a =
     list_get adj a @ concat (map (flat \<circ> snd) (obj_get conns a))"
proof (induction conns arbitrary: adj)
  case (Cons x conns)
  obtain k m where x: "x = (k, m)" by force
  have "map_of conns a = None" if "a = k" using Cons.prems x that by (simp add: map_of_eq_None_iff)
  with Cons x show ?case by (auto simp: list_get_addTypes obj_get_def comp_def)
qed (simp add: obj_get_def)

lemma list_get_buildAdjacencyList:
  "distinct_keys conns \<Longrightarrow> list_get (buildAdjacencyList conns) a = concat (map (flat \<circ> snd) (obj_get conns a))"
  by (simp add: buildAdjacencyList_def list_get_addSources) (simp add: list_get_def)

section \<open>Extractable selections\<close>

text \<open>A path to the only node a selection is left from does not leave it on the way.\<close>

lemma path_inside:
  assumes "leftFrom ids E \<subseteq> {e}" "e \<in> ids" "(x, e) \<in> E\<^sup>*" "x \<in> ids"
  shows "(x, e) \<in> (E \<inter> ids \<times> ids)\<^sup>*"
  using assms(3,4)
proof (induction rule: converse_rtrancl_induct)
  case (step x y)
  show ?case
  proof (cases "y \<in> ids")
    case True
    with step have "(x, y) \<in> E \<inter> ids \<times> ids" "(y, e) \<in> (E \<inter> ids \<times> ids)\<^sup>*" by auto
    then show ?thesis by (rule converse_rtrancl_into_rtrancl)
  next
    case False
    with step have "x \<in> leftFrom ids E" by (auto simp: leftFrom_def)
    with assms(1) show ?thesis by auto
  qed
qed simp

text \<open>C24: A selection can be extracted with a start and an end exactly when the start is the only node that is
  entered from outside over a main connection and the end the only one left, the start is a root and the end
  a leaf of the selection unless it has none, and the end can be reached from the start inside the selection.\<close>

theorem parseExtractableSubgraphSelection_iff:
  assumes "distinct_keys adj" and "distinct graphIds" and "[] \<notin> set graphIds"
  shows "parseExtractableSubgraphSelection graphIds adj = Inr \<lparr>sel_start = s, sel_end = e\<rparr> \<longleftrightarrow>
    enteredAt (set graphIds) (mainEdges adj) = set_option s \<and> leftFrom (set graphIds) (mainEdges adj) = set_option e \<and>
    (set_option s \<subseteq> rootsOf (set graphIds) (mainEdges adj) \<or> rootsOf (set graphIds) (mainEdges adj) = {}) \<and>
    (set_option e \<subseteq> leavesOf (set graphIds) (mainEdges adj) \<or> leavesOf (set graphIds) (mainEdges adj) = {}) \<and>
    (\<forall>a b. s = Some a \<and> e = Some b \<longrightarrow> (a, b) \<in> (mainEdges adj \<inter> set graphIds \<times> set graphIds)\<^sup>*)"
proof -
  let ?ids = "set graphIds" and ?E = "mainEdges adj"
  let ?in = "inputNodesOf graphIds adj" and ?out = "outputNodesOf graphIds adj"
  let ?R = "getRootNodes graphIds adj" and ?L = "getLeafNodes graphIds adj"
  note sets = set_inputNodesOf [OF assms(1)] set_outputNodesOf [OF assms(1)] set_getRootNodes set_getLeafNodes
  have paths: "pathErrors s e adj = [] \<longleftrightarrow> (\<forall>a b. s = Some a \<and> e = Some b \<longrightarrow> (a, b) \<in> (?E \<inter> ?ids \<times> ?ids)\<^sup>*)"
    if "enteredAt ?ids ?E = set_option s" "leftFrom ?ids ?E = set_option e"
  proof (cases "s = None \<or> e = None")
    case True
    then show ?thesis by (auto simp: pathErrors_def split: option.splits)
  next
    case False
    then obtain a b where ab: "s = Some a" "e = Some b" by auto
    with that have mem: "a \<in> ?ids" "b \<in> ?ids" "leftFrom ?ids ?E \<subseteq> {b}" by (auto simp: enteredAt_def leftFrom_def)
    with assms(3) have "a \<noteq> []" "b \<noteq> []" by auto
    moreover have "(a, b) \<in> ?E\<^sup>* \<longleftrightarrow> (a, b) \<in> (?E \<inter> ?ids \<times> ?ids)\<^sup>*"
      using path_inside [OF mem(3,2) _ mem(1)] rtrancl_mono [of "?E \<inter> ?ids \<times> ?ids" ?E] by blast
    ultimately show ?thesis using ab by (simp add: pathErrors_def hasPath_iff)
  qed
  have "parseExtractableSubgraphSelection graphIds adj = Inr \<lparr>sel_start = s, sel_end = e\<rparr> \<longleftrightarrow>
      (set ?in = set_option s \<and> (set ?in \<subseteq> set ?R \<or> ?R = [])) \<and>
      (set ?out = set_option e \<and> (set ?out \<subseteq> set ?L \<or> ?L = [])) \<and> pathErrors s e adj = []"
    unfolding crossing [OF distinct_parts(4) [OF assms(2)] distinct_parts(1), symmetric]
      crossing [OF distinct_parts(3,2), symmetric]
    by (auto simp: parseExtractableSubgraphSelection_def Let_def split: if_splits)
  also have "\<dots> \<longleftrightarrow> (enteredAt ?ids ?E = set_option s \<and> (set_option s \<subseteq> rootsOf ?ids ?E \<or> rootsOf ?ids ?E = {})) \<and>
      (leftFrom ?ids ?E = set_option e \<and> (set_option e \<subseteq> leavesOf ?ids ?E \<or> leavesOf ?ids ?E = {})) \<and>
      pathErrors s e adj = []"
    unfolding sets [symmetric] set_empty by auto
  finally show ?thesis using paths by blast
qed

text \<open>\<open>T\<close> leads to \<open>A\<close>, which loops with \<open>B\<close>, and \<open>B\<close> leads to \<open>D\<close>.\<close>

definition loopFlow :: IConnections where
  "loopFlow = (let c = (\<lambda>n. \<lparr>c_node = n, c_type = Main, c_index = 0\<rparr>) in
     [(''T'', [(Main, [Val [c ''A'']])]), (''A'', [(Main, [Val [c ''B'']])]), (''B'', [(Main, [Val [c ''A'', c ''C'']])]),
      (''C'', [(Main, [Val [c ''D'']])])])"

lemma parseExtractableSubgraphSelection_iff_witness:
  "leftFrom {''A'', ''B'', ''C''} (mainEdges (buildAdjacencyList loopFlow)) = {''C''} \<and>
   (''A'', ''C'') \<in> (mainEdges (buildAdjacencyList loopFlow) \<inter> {''A'', ''B'', ''C''} \<times> {''A'', ''B'', ''C''})\<^sup>*"
proof -
  have "parseExtractableSubgraphSelection [''A'', ''B'', ''C''] (buildAdjacencyList loopFlow) =
      Inr \<lparr>sel_start = Some ''A'', sel_end = Some ''C''\<rparr>" by code_simp
  with parseExtractableSubgraphSelection_iff [OF keys_buildAdjacencyList [of loopFlow], of "[''A'', ''B'', ''C'']" "Some ''A''" "Some ''C''"]
  show ?thesis by simp
qed

end
