(* ===== verification/ConnectionsDiff.thy ===== *)
theory ConnectionsDiff
  imports WorkflowGraph
begin

text \<open>
  The difference of the connections of two versions of a workflow:
  \<^verbatim>\<open>packages/workflow/src/connections-diff.ts\<close>. The key of a connection is its JSON text; connections are written
  with their fields in the same order, so that two keys are equal exactly when the connections are.
\<close>

section \<open>The comparison\<close>

record ConnectionEntry =
  ce_sourceIndex :: nat
  ce_index :: nat
  ce_connection :: IConnection

type_synonym INodeConnectionsDiff = "(NodeConnectionType \<times> ConnectionEntry list) list"
type_synonym ConnectionsDiffOf = "(string \<times> INodeConnectionsDiff) list"

text \<open>\<open>conns[node]?.[type]?.[index] ?? []\<close>\<close>

definition connectionsAt :: "IConnections \<Rightarrow> string \<Rightarrow> NodeConnectionType \<Rightarrow> nat \<Rightarrow> IConnection list" where
  "connectionsAt conns nodeName t i = cell_or [] (arr_get (list_get (obj_get conns nodeName) t) i)"

text \<open>The map from the key of a connection to its last index.\<close>

definition indexMap :: "IConnection list \<Rightarrow> (IConnection \<times> nat) list" where
  "indexMap cs = fold (\<lambda>(i, c). AList.update c i) (with_index cs) []"

definition pushEntry :: "string \<Rightarrow> NodeConnectionType \<Rightarrow> ConnectionEntry \<Rightarrow> ConnectionsDiffOf \<Rightarrow> ConnectionsDiffOf" where
  "pushEntry nodeName t entry d =
     AList.update nodeName (AList.update t (list_get (obj_get d nodeName) t @ [entry]) (obj_get d nodeName)) d"

text \<open>The loop over the entries of one map that the other has not.\<close>

definition pushMissing ::
  "string \<Rightarrow> NodeConnectionType \<Rightarrow> nat \<Rightarrow> (IConnection \<times> nat) list \<Rightarrow> (IConnection \<times> nat) list \<Rightarrow> ConnectionsDiffOf \<Rightarrow> ConnectionsDiffOf" where
  "pushMissing nodeName t srcIndex own other d = fold (\<lambda>(c, i) d.
     if map_of other c = None
     then pushEntry nodeName t \<lparr>ce_sourceIndex = srcIndex, ce_index = i, ce_connection = c\<rparr> d else d) own d"

definition compareAt :: "IConnections \<Rightarrow> IConnections \<Rightarrow> string \<Rightarrow> NodeConnectionType \<Rightarrow> nat \<Rightarrow>
    ConnectionsDiffOf \<times> ConnectionsDiffOf \<Rightarrow> ConnectionsDiffOf \<times> ConnectionsDiffOf" where
  "compareAt prv nxt nodeName t i = (\<lambda>(added, removed).
     (let prevMap = indexMap (connectionsAt prv nodeName t i);
          nextMap = indexMap (connectionsAt nxt nodeName t i)
      in (pushMissing nodeName t i nextMap prevMap added, pushMissing nodeName t i prevMap nextMap removed)))"

definition compareConnections :: "IConnections \<Rightarrow> IConnections \<Rightarrow> ConnectionsDiffOf \<times> ConnectionsDiffOf" where
  "compareConnections prv nxt =
     fold (\<lambda>nodeName.
       fold (\<lambda>t.
         fold (compareAt prv nxt nodeName t)
           [0..<max (length (list_get (obj_get prv nodeName) t)) (length (list_get (obj_get nxt nodeName) t))])
         (fold set_add (map fst (obj_get prv nodeName) @ map fst (obj_get nxt nodeName)) []))
       (fold set_add (map fst prv @ map fst nxt) []) ([], [])"

section \<open>What it finds\<close>

definition entriesOf :: "ConnectionsDiffOf \<Rightarrow> (string \<times> NodeConnectionType \<times> ConnectionEntry) set" where
  "entriesOf d = {(n, t, e). e \<in> set (list_get (obj_get d n) t)}"

text \<open>A connection that is in one version and not at the same place in the other, with the index of its last
  occurrence.\<close>

definition missingAt :: "IConnections \<Rightarrow> IConnections \<Rightarrow> string \<Rightarrow> NodeConnectionType \<Rightarrow> nat \<Rightarrow> ConnectionEntry set" where
  "missingAt own other n t i = {e. ce_sourceIndex e = i \<and> map_of (indexMap (connectionsAt own n t i)) (ce_connection e) = Some (ce_index e) \<and>
     ce_connection e \<notin> set (connectionsAt other n t i)}"

lemma entriesOf_push: "entriesOf (pushEntry n t e d) = insert (n, t, e) (entriesOf d)"
  by (auto simp: entriesOf_def pushEntry_def obj_get_update list_get_update split: if_splits)

lemma indexMap_snoc: "indexMap (cs @ [c]) = AList.update c (length cs) (indexMap cs)"
  by (simp add: indexMap_def with_index_def zip_append1)

lemma indexMap_keys: "distinct_keys (indexMap cs) \<and> fst ` set (indexMap cs) = set cs"
proof (induction cs rule: rev_induct)
  case (snoc c cs)
  have "set (map fst (indexMap (cs @ [c]))) = set (cs @ [c])"
    unfolding indexMap_snoc keys_update using snoc by simp
  with snoc show ?case by (simp add: indexMap_snoc distinct_update)
qed (simp add: indexMap_def with_index_def)

text \<open>The last occurrence: it is one, and none follows.\<close>

lemma indexMap_last:
  "map_of (indexMap cs) c = Some i \<longleftrightarrow> i < length cs \<and> cs ! i = c \<and> c \<notin> set (drop (Suc i) cs)"
proof (induction cs rule: rev_induct)
  case (snoc x cs)
  have m: "map_of (indexMap (cs @ [x])) c = (if c = x then Some (length cs) else map_of (indexMap cs) c)"
    by (simp add: indexMap_snoc update_conv')
  consider "i < length cs" | "i = length cs" | "i > length cs" by linarith
  then show ?case
  proof cases
    case 1
    then show ?thesis unfolding m by (cases "c = x") (simp_all add: nth_append snoc)
  next
    case 2
    with snoc show ?thesis unfolding m by auto
  next
    case 3
    with snoc show ?thesis unfolding m by auto
  qed
qed (simp add: indexMap_def with_index_def)

definition missingOf :: "string \<Rightarrow> NodeConnectionType \<Rightarrow> nat \<Rightarrow> (IConnection \<times> nat) list \<Rightarrow> (IConnection \<times> nat) list \<Rightarrow>
    (string \<times> NodeConnectionType \<times> ConnectionEntry) set" where
  "missingOf n t i own other = (\<lambda>(c, k). (n, t, \<lparr>ce_sourceIndex = i, ce_index = k, ce_connection = c\<rparr>)) `
     {x \<in> set own. map_of other (fst x) = None}"

lemma entriesOf_pushMissing:
  "entriesOf (pushMissing n t i own other d) = entriesOf d \<union> missingOf n t i own other"
proof (induction own arbitrary: d)
  case (Cons x own)
  obtain c k where x: "x = (c, k)" by force
  have s: "missingOf n t i (x # own) other = (if map_of other c = None
      then insert (n, t, \<lparr>ce_sourceIndex = i, ce_index = k, ce_connection = c\<rparr>) (missingOf n t i own other)
      else missingOf n t i own other)"
    by (auto simp: x missingOf_def)
  have "pushMissing n t i (x # own) other d = pushMissing n t i own other
      (if map_of other c = None then pushEntry n t \<lparr>ce_sourceIndex = i, ce_index = k, ce_connection = c\<rparr> d else d)"
    by (simp add: pushMissing_def x)
  then show ?case unfolding s by (simp add: Cons.IH entriesOf_push)
qed (simp add: pushMissing_def missingOf_def)

lemma entriesOf_missing:
  "entriesOf (pushMissing n t i (indexMap (connectionsAt own n t i)) (indexMap (connectionsAt other n t i)) d) =
     entriesOf d \<union> (\<lambda>e. (n, t, e)) ` missingAt own other n t i"
proof -
  let ?own = "indexMap (connectionsAt own n t i)" and ?other = "indexMap (connectionsAt other n t i)"
  have o: "map_of ?other c = None \<longleftrightarrow> c \<notin> set (connectionsAt other n t i)" for c
    using indexMap_keys [of "connectionsAt other n t i"] by (simp add: map_of_eq_None_iff)
  have k: "(c, x) \<in> set ?own \<longleftrightarrow> map_of ?own c = Some x" for c x
    using indexMap_keys by (intro map_of_entry) blast
  have "y \<in> missingOf n t i ?own ?other \<longleftrightarrow> y \<in> (\<lambda>e. (n, t, e)) ` missingAt own other n t i" for y
  proof
    assume "y \<in> missingOf n t i ?own ?other"
    then obtain c x where "(c, x) \<in> set ?own" "map_of ?other c = None"
      "y = (n, t, \<lparr>ce_sourceIndex = i, ce_index = x, ce_connection = c\<rparr>)" by (auto simp: missingOf_def)
    moreover from this have "\<lparr>ce_sourceIndex = i, ce_index = x, ce_connection = c\<rparr> \<in> missingAt own other n t i"
      by (simp add: missingAt_def k o)
    ultimately show "y \<in> (\<lambda>e. (n, t, e)) ` missingAt own other n t i" by blast
  next
    assume "y \<in> (\<lambda>e. (n, t, e)) ` missingAt own other n t i"
    then obtain e where e: "y = (n, t, e)" "e \<in> missingAt own other n t i" by blast
    then have "(ce_connection e, ce_index e) \<in> {x \<in> set ?own. map_of ?other (fst x) = None}"
      by (simp add: missingAt_def k o)
    moreover have "y = (\<lambda>(c, k). (n, t, \<lparr>ce_sourceIndex = i, ce_index = k, ce_connection = c\<rparr>)) (ce_connection e, ce_index e)"
      using e by (simp add: missingAt_def)
    ultimately show "y \<in> missingOf n t i ?own ?other" unfolding missingOf_def by (rule rev_image_eqI)
  qed
  then show ?thesis unfolding entriesOf_pushMissing by blast
qed

lemma entriesOf_fold:
  assumes "\<And>x d. entriesOf (sel (f x d)) = entriesOf (sel d) \<union> F x"
  shows "entriesOf (sel (fold f xs d)) = entriesOf (sel d) \<union> (\<Union>x \<in> set xs. F x)"
  by (induction xs arbitrary: d) (auto simp: assms)

lemma compareAt_entries:
  "entriesOf (fst (compareAt prv nxt n t i d)) = entriesOf (fst d) \<union> (\<lambda>e. (n, t, e)) ` missingAt nxt prv n t i"
  "entriesOf (snd (compareAt prv nxt n t i d)) = entriesOf (snd d) \<union> (\<lambda>e. (n, t, e)) ` missingAt prv nxt n t i"
  using entriesOf_missing [of n t i nxt prv "fst d"] entriesOf_missing [of n t i prv nxt "snd d"]
  by (simp_all add: compareAt_def Let_def case_prod_beta)

text \<open>Where there is a connection, the loops come by.\<close>

lemma connectionsAt_visited:
  assumes "connectionsAt conns n t i \<noteq> []"
  shows "n \<in> fst ` set conns" "t \<in> fst ` set (obj_get conns n)" "i < length (list_get (obj_get conns n) t)"
proof -
  show i: "i < length (list_get (obj_get conns n) t)"
    using assms by (auto simp: connectionsAt_def arr_get_def split: if_splits)
  then show t: "t \<in> fst ` set (obj_get conns n)"
    by (force simp: list_get_def split: option.splits dest: map_of_SomeD)
  show "n \<in> fst ` set conns"
  proof (cases "map_of conns n")
    case None
    with t show ?thesis by (simp add: obj_get_def)
  next
    case (Some m)
    then show ?thesis by (force dest: map_of_SomeD)
  qed
qed

lemma missingAt_visited: "e \<in> missingAt own other n t i \<Longrightarrow> connectionsAt own n t i \<noteq> [] \<and> ce_sourceIndex e = i"
  by (auto simp: missingAt_def indexMap_def with_index_def)

lemma compareConnections_entries:
  "entriesOf (fst (compareConnections prv nxt)) = {(n, t, e). e \<in> missingAt nxt prv n t (ce_sourceIndex e)} \<and>
   entriesOf (snd (compareConnections prv nxt)) = {(n, t, e). e \<in> missingAt prv nxt n t (ce_sourceIndex e)}"
proof -
  let ?names = "set (map fst prv @ map fst nxt)"
  let ?types = "\<lambda>n. set (map fst (obj_get prv n) @ map fst (obj_get nxt n))"
  let ?idx = "\<lambda>n t. {0..<max (length (list_get (obj_get prv n) t)) (length (list_get (obj_get nxt n) t))}"
  have all: "(\<Union>n \<in> ?names. \<Union>t \<in> ?types n. \<Union>i \<in> ?idx n t. (\<lambda>e. (n, t, e)) ` missingAt own other n t i) =
      {(n, t, e). e \<in> missingAt own other n t (ce_sourceIndex e)}"
    if "own = prv \<or> own = nxt" for own other
  proof -
    have "n \<in> ?names \<and> t \<in> ?types n \<and> ce_sourceIndex e \<in> ?idx n t"
      if "e \<in> missingAt own other n t (ce_sourceIndex e)" for n t e
      using missingAt_visited [OF that] connectionsAt_visited [of own n t "ce_sourceIndex e"] \<open>own = prv \<or> own = nxt\<close>
      by auto
    moreover have "e \<in> missingAt own other n t (ce_sourceIndex e)" if "e \<in> missingAt own other n t i" for n t e i
      using that missingAt_visited [OF that] by simp
    ultimately show ?thesis by fast
  qed
  have e: "entriesOf ([] :: ConnectionsDiffOf) = {}" by (simp add: entriesOf_def obj_get_def list_get_def)
  have "entriesOf (fst (compareConnections prv nxt)) =
      (\<Union>n \<in> ?names. \<Union>t \<in> ?types n. \<Union>i \<in> ?idx n t. (\<lambda>e. (n, t, e)) ` missingAt nxt prv n t i)"
    unfolding compareConnections_def
    by (subst entriesOf_fold [where sel = fst, OF entriesOf_fold [where sel = fst, OF entriesOf_fold [where sel = fst, OF compareAt_entries(1)]]])
      (simp add: e)
  moreover have "entriesOf (snd (compareConnections prv nxt)) =
      (\<Union>n \<in> ?names. \<Union>t \<in> ?types n. \<Union>i \<in> ?idx n t. (\<lambda>e. (n, t, e)) ` missingAt prv nxt n t i)"
    unfolding compareConnections_def
    by (subst entriesOf_fold [where sel = snd, OF entriesOf_fold [where sel = snd, OF entriesOf_fold [where sel = snd, OF compareAt_entries(2)]]])
      (simp add: e)
  ultimately show ?thesis using all [of nxt prv] all [of prv nxt] by simp
qed

text \<open>The list for a node and a type of connection: the loops append to it, one output after the other.\<close>

definition diffAt :: "ConnectionsDiffOf \<Rightarrow> string \<Rightarrow> NodeConnectionType \<Rightarrow> ConnectionEntry list" where
  "diffAt d n t = list_get (obj_get d n) t"

definition missingList :: "nat \<Rightarrow> (IConnection \<times> nat) list \<Rightarrow> (IConnection \<times> nat) list \<Rightarrow> ConnectionEntry list" where
  "missingList i own other = map (\<lambda>(c, k). \<lparr>ce_sourceIndex = i, ce_index = k, ce_connection = c\<rparr>)
     (filter (\<lambda>(c, k). map_of other c = None) own)"

lemma diffAt_pushEntry: "diffAt (pushEntry n t e d) n' t' = diffAt d n' t' @ (if n' = n \<and> t' = t then [e] else [])"
  by (auto simp: diffAt_def pushEntry_def obj_get_update list_get_update)

lemma diffAt_pushMissing:
  "diffAt (pushMissing n t i own other d) n' t' = diffAt d n' t' @ (if n' = n \<and> t' = t then missingList i own other else [])"
proof (induction own arbitrary: d)
  case (Cons x own)
  obtain c k where x: "x = (c, k)" by force
  let ?e = "\<lparr>ce_sourceIndex = i, ce_index = k, ce_connection = c\<rparr>"
  have "pushMissing n t i (x # own) other d =
      pushMissing n t i own other (if map_of other c = None then pushEntry n t ?e d else d)"
    by (simp add: pushMissing_def x)
  with Cons.IH show ?case by (simp add: x missingList_def diffAt_pushEntry)
qed (simp add: pushMissing_def missingList_def)

lemma diffAt_fold:
  assumes "\<And>x d. diffAt (sel (f x d)) n t = diffAt (sel d) n t @ F x"
  shows "diffAt (sel (fold f xs d)) n t = diffAt (sel d) n t @ concat (map F xs)"
  by (induction xs arbitrary: d) (auto simp: assms)

definition missingEntries :: "IConnections \<Rightarrow> IConnections \<Rightarrow> string \<Rightarrow> NodeConnectionType \<Rightarrow> nat \<Rightarrow> ConnectionEntry list" where
  "missingEntries own other n t i = missingList i (indexMap (connectionsAt own n t i)) (indexMap (connectionsAt other n t i))"

lemma diffAt_compareAt:
  "diffAt (fst (compareAt prv nxt n t i d)) n' t' = diffAt (fst d) n' t' @ (if n' = n \<and> t' = t then missingEntries nxt prv n t i else [])"
  "diffAt (snd (compareAt prv nxt n t i d)) n' t' = diffAt (snd d) n' t' @ (if n' = n \<and> t' = t then missingEntries prv nxt n t i else [])"
  by (simp_all add: compareAt_def Let_def case_prod_beta diffAt_pushMissing missingEntries_def)

lemma missingEntries_distinct: "distinct (missingEntries own other n t i)"
proof -
  have "distinct (map fst (filter (\<lambda>(c, k). map_of m c = None) (indexMap cs)))" for m cs
    using indexMap_keys [of cs] by (simp add: distinct_map inj_on_def)
  then have "distinct (map ce_connection (missingEntries own other n t i))"
    by (simp add: missingEntries_def missingList_def case_prod_beta comp_def)
  then show ?thesis by (simp add: distinct_map)
qed

lemma missingEntries_index: "e \<in> set (missingEntries own other n t i) \<Longrightarrow> ce_sourceIndex e = i"
  by (auto simp: missingEntries_def missingList_def)

text \<open>Lists for different outputs one after the other.\<close>

lemma outputs_distinct_sorted:
  assumes "\<And>i. distinct (F i)" "\<And>i e. e \<in> set (F i) \<Longrightarrow> ce_sourceIndex e = i"
  shows "distinct (concat (map F [0..<k])) \<and> sorted (map ce_sourceIndex (concat (map F [0..<k])))"
proof (induction k)
  case (Suc k)
  let ?A = "concat (map F [0..<k])"
  have less: "ce_sourceIndex e < k" if "e \<in> set ?A" for e using that assms(2) by auto
  have same: "map ce_sourceIndex (F k) = replicate (length (F k)) k"
    by (rule nth_equalityI) (simp_all add: assms(2) [OF nth_mem])
  have "set ?A \<inter> set (F k) = {}" using less assms(2) [of _ k] by blast
  then have "distinct (?A @ F k)" using Suc assms(1) by simp
  moreover have "sorted (map ce_sourceIndex ?A @ replicate (length (F k)) k)"
    using Suc less by (auto simp: sorted_append less_imp_le)
  ultimately show ?case by (simp add: same)
qed simp

lemma concat_single:
  "distinct xs \<Longrightarrow> concat (map (\<lambda>x. if P \<and> y = x then G x else []) xs) = (if P \<and> y \<in> set xs then G y else [])"
  by (induction xs) auto

lemma concat_if: "concat (map (\<lambda>x. if P then G x else []) xs) = (if P then concat (map G xs) else [])"
  by (induction xs) auto

lemma fold_compareAt:
  assumes step: "\<And>n t i d. diffAt (sel (f n t i d)) n' t' = diffAt (sel d) n' t' @ (if n' = n \<and> t' = t then E n t i else [])"
    and "distinct names" "\<And>n. distinct (types n)" "diffAt (sel d) n' t' = []"
  shows "\<exists>ks. diffAt (sel (fold (\<lambda>n. fold (\<lambda>t. fold (f n t) [0..<idx n t]) (types n)) names d)) n' t' = concat (map (E n' t') [0..<ks])"
proof -
  have 1: "diffAt (sel (fold (f n t) [0..<idx n t] d)) n' t' =
      diffAt (sel d) n' t' @ (if n' = n \<and> t' = t then concat (map (E n t) [0..<idx n t]) else [])" for n t d
    by (subst diffAt_fold [where f = "f n t" and sel = sel, OF step]) (simp add: concat_if)
  have 2: "diffAt (sel (fold (\<lambda>t. fold (f n t) [0..<idx n t]) (types n) d)) n' t' = diffAt (sel d) n' t' @
      (if n' = n \<and> t' \<in> set (types n) then concat (map (E n t') [0..<idx n t']) else [])" for n d
    by (subst diffAt_fold [where f = "\<lambda>t. fold (f n t) [0..<idx n t]" and sel = sel, OF 1])
      (simp only: concat_single [OF assms(3), of "n' = n" t' "\<lambda>t. concat (map (E n t) [0..<idx n t])" n])
  have "diffAt (sel (fold (\<lambda>n. fold (\<lambda>t. fold (f n t) [0..<idx n t]) (types n)) names d)) n' t' =
      (if t' \<in> set (types n') \<and> n' \<in> set names then concat (map (E n' t') [0..<idx n' t']) else [])"
    by (subst diffAt_fold [where f = "\<lambda>n. fold (\<lambda>t. fold (f n t) [0..<idx n t]) (types n)" and sel = sel, OF 2])
      (use concat_single [OF assms(2), of "t' \<in> set (types n')" n' "\<lambda>n. concat (map (E n t') [0..<idx n t'])"] in
        \<open>simp add: assms(4) conj_commute cong: if_cong conj_cong\<close>)
  then show ?thesis by (auto intro: exI [of _ "idx n' t'"] exI [of _ 0])
qed

lemma compareConnections_lists:
  "\<exists>ks. diffAt (fst (compareConnections prv nxt)) n t = concat (map (missingEntries nxt prv n t) [0..<ks])"
  "\<exists>ks. diffAt (snd (compareConnections prv nxt)) n t = concat (map (missingEntries prv nxt n t) [0..<ks])"
proof -
  have d: "distinct (fold set_add xs [])" for xs :: "'a list" by simp
  have e: "diffAt [] n t = []" by (simp add: diffAt_def obj_get_def list_get_def)
  show "\<exists>ks. diffAt (fst (compareConnections prv nxt)) n t = concat (map (missingEntries nxt prv n t) [0..<ks])"
    unfolding compareConnections_def
    by (rule fold_compareAt [where sel = fst and f = "\<lambda>n t. compareAt prv nxt n t"]) (simp_all add: diffAt_compareAt e)
  show "\<exists>ks. diffAt (snd (compareConnections prv nxt)) n t = concat (map (missingEntries prv nxt n t) [0..<ks])"
    unfolding compareConnections_def
    by (rule fold_compareAt [where sel = snd and f = "\<lambda>n t. compareAt prv nxt n t"]) (simp_all add: diffAt_compareAt e)
qed

lemma lists_distinct_sorted:
  assumes "\<exists>ks. xs = concat (map (missingEntries own other n t) [0..<ks])"
  shows "distinct xs \<and> sorted (map ce_sourceIndex xs)"
  using assms outputs_distinct_sorted [of "missingEntries own other n t"] missingEntries_distinct missingEntries_index by blast

lemma missingAt_iff:
  "e \<in> missingAt own other n t (ce_sourceIndex e) \<longleftrightarrow>
    (let cs = connectionsAt own n t (ce_sourceIndex e)
     in ce_index e < length cs \<and> cs ! ce_index e = ce_connection e \<and> ce_connection e \<notin> set (drop (Suc (ce_index e)) cs) \<and>
        ce_connection e \<notin> set (connectionsAt other n t (ce_sourceIndex e)))"
  by (auto simp: missingAt_def indexMap_last Let_def)

text \<open>C26: \<open>compareConnections\<close> lists as added, for each node and type, exactly the connections of the new version that the old
  one has not at the same output of the same node: each once, with the index of its last occurrence among the connections of the
  output, in the order of the outputs; and as removed those of the old version that the new one has not.\<close>

theorem compareConnections_exact:
  "(let added = diffAt (fst (compareConnections prv nxt)) n t in
     distinct added \<and> sorted (map ce_sourceIndex added) \<and>
     (\<forall>e. e \<in> set added \<longleftrightarrow>
       (let cs = connectionsAt nxt n t (ce_sourceIndex e)
        in ce_index e < length cs \<and> cs ! ce_index e = ce_connection e \<and> ce_connection e \<notin> set (drop (Suc (ce_index e)) cs) \<and>
           ce_connection e \<notin> set (connectionsAt prv n t (ce_sourceIndex e))))) \<and>
   (let removed = diffAt (snd (compareConnections prv nxt)) n t in
     distinct removed \<and> sorted (map ce_sourceIndex removed) \<and>
     (\<forall>e. e \<in> set removed \<longleftrightarrow>
       (let cs = connectionsAt prv n t (ce_sourceIndex e)
        in ce_index e < length cs \<and> cs ! ce_index e = ce_connection e \<and> ce_connection e \<notin> set (drop (Suc (ce_index e)) cs) \<and>
           ce_connection e \<notin> set (connectionsAt nxt n t (ce_sourceIndex e)))))"
proof -
  have mem: "e \<in> set (diffAt d n t) \<longleftrightarrow> (n, t, e) \<in> entriesOf d" for d e by (simp add: diffAt_def entriesOf_def)
  show ?thesis
    using lists_distinct_sorted [OF compareConnections_lists(1)] lists_distinct_sorted [OF compareConnections_lists(2)]
      compareConnections_entries [of prv nxt]
    unfolding mem missingAt_iff [symmetric] Let_def [of "diffAt d n t" for d] by auto
qed

end
