(* ===== verification/JsonValues.thy ===== *)
theory JsonValues
  imports WorkflowTypes
begin

text \<open>
  JSON values as the code compares and reads them: \<open>typeof\<close>, the own properties of objects and arrays, deep equality,
  and the documented behaviour of the functions of \<^verbatim>\<open>lodash\<close> the code relies on (\<open>pick\<close>, \<open>isEqual\<close>), which are
  parameters of the definitions that use them.
\<close>

section \<open>Reading a value\<close>

datatype js_type = TyString | TyNumber | TyBoolean | TyObject

fun js_typeof :: "json \<Rightarrow> js_type" where
  "js_typeof JNull = TyObject"
| "js_typeof (JBool _) = TyBoolean"
| "js_typeof (JNum _) = TyNumber"
| "js_typeof (JStr _) = TyString"
| "js_typeof (JArr _) = TyObject"
| "js_typeof (JObj _) = TyObject"

text \<open>\<open>Object.keys\<close>, and the own property of a name; an array also has \<open>length\<close>.\<close>

fun objectKeys :: "json \<Rightarrow> string list" where
  "objectKeys (JArr vs) = map nat_str [0..<length vs]"
| "objectKeys (JObj ps) = map fst ps"
| "objectKeys (JStr s) = map nat_str [0..<length s]"
| "objectKeys _ = []"

fun ownProperty :: "json \<Rightarrow> string \<Rightarrow> json option" where
  "ownProperty (JArr vs) k =
     (if k = ''length'' then Some (JNum (int (length vs))) else map_of (zip (map nat_str [0..<length vs]) vs) k)"
| "ownProperty (JObj ps) k = map_of ps k"
| "ownProperty _ k = None"

text \<open>No key occurs twice in an object, at any depth.\<close>

fun json_wf :: "json \<Rightarrow> bool" where
  "json_wf (JArr vs) = list_all json_wf vs"
| "json_wf (JObj ps) = (distinct_keys ps \<and> list_all (\<lambda>p. json_wf (snd p)) ps)"
| "json_wf _ = True"

section \<open>Deep equality\<close>

text \<open>Equality up to the order of the keys of objects.\<close>

fun json_eq :: "json \<Rightarrow> json \<Rightarrow> bool" where
  "json_eq (JArr vs) w = (case w of JArr ws \<Rightarrow> list_all2 json_eq vs ws | _ \<Rightarrow> False)"
| "json_eq (JObj ps) w = (case w of
     JObj qs \<Rightarrow> length ps = length qs \<and>
       list_all (\<lambda>p. case map_of qs (fst p) of None \<Rightarrow> False | Some v \<Rightarrow> json_eq (snd p) v) ps
   | _ \<Rightarrow> False)"
| "json_eq v w = (v = w)"

text \<open>What the documentation of \<^verbatim>\<open>lodash\<close> promises: \<open>pick\<close> keeps the properties of the given names, \<open>isEqual\<close> compares deeply.\<close>

type_synonym pick_fun = "(string \<times> json) list \<Rightarrow> string list \<Rightarrow> (string \<times> json) list"
type_synonym equal_fun = "(string \<times> json) list \<Rightarrow> (string \<times> json) list \<Rightarrow> bool"

definition lodash_pick :: "pick_fun \<Rightarrow> bool" where
  "lodash_pick pick \<longleftrightarrow> (\<forall>ob ks. distinct_keys ob \<longrightarrow>
     distinct_keys (pick ob ks) \<and> map_of (pick ob ks) = map_of ob |` set ks)"

definition lodash_isEqual :: "equal_fun \<Rightarrow> bool" where
  "lodash_isEqual isEqual \<longleftrightarrow> (\<forall>a b. isEqual a b = json_eq (JObj a) (JObj b))"

text \<open>The functions themselves, for concrete runs.\<close>

definition pickProps :: "pick_fun" where
  "pickProps ob ks = filter (\<lambda>p. fst p \<in> set ks) ob"

definition isEqualProps :: "equal_fun" where
  "isEqualProps a b = json_eq (JObj a) (JObj b)"

lemma map_of_filter_keys: "map_of (filter (\<lambda>p. fst p \<in> K) ob) = map_of ob |` K"
  by (induction ob) (auto simp: fun_eq_iff restrict_map_def)

lemma lodash_pick_pickProps: "lodash_pick pickProps"
  by (simp add: lodash_pick_def pickProps_def map_of_filter_keys distinct_map_filter)

lemma lodash_isEqual_isEqualProps: "lodash_isEqual isEqualProps"
  by (simp add: lodash_isEqual_def isEqualProps_def)

text \<open>Every value is equal to itself, and equal objects have the same properties.\<close>

lemma json_eq_refl: "json_wf v \<Longrightarrow> json_eq v v"
proof (induction v rule: json_wf.induct)
  case (1 vs)
  then show ?case by (auto simp: list_all_iff intro!: list.rel_refl_strong)
next
  case (2 ps)
  have "case map_of ps (fst p) of None \<Rightarrow> False | Some v \<Rightarrow> json_eq (snd p) v" if "p \<in> set ps" for p
  proof -
    have m: "map_of ps (fst p) = Some (snd p)" using that 2(2) by simp
    show ?thesis unfolding m using 2 that by (simp add: list_all_iff)
  qed
  then show ?case by (simp add: list_all_iff)
qed simp_all

lemma same_keys:
  assumes "distinct_keys ps" "length ps = length qs" "\<forall>p \<in> set ps. map_of qs (fst p) \<noteq> None"
  shows "fst ` set ps = fst ` set qs" "distinct_keys qs"
proof -
  have sub: "fst ` set ps \<subseteq> fst ` set qs"
    using assms(3) by (auto simp: map_of_eq_None_iff)
  have c: "card (fst ` set ps) = length ps"
    using distinct_card [OF assms(1)] by simp
  have d: "card (fst ` set qs) \<le> length qs"
    using card_length [of "map fst qs"] by simp
  then show eq: "fst ` set ps = fst ` set qs"
    using sub c assms(2) by (intro card_seteq) auto
  have "card (set (map fst qs)) = length (map fst qs)"
    using eq c assms(2) by simp
  then show "distinct_keys qs" by (rule card_distinct)
qed

lemma json_eq_JObj:
  "json_eq (JObj ps) (JObj qs) \<longleftrightarrow>
     length ps = length qs \<and> (\<forall>p \<in> set ps. \<exists>v. map_of qs (fst p) = Some v \<and> json_eq (snd p) v)"
  unfolding json_eq.simps(2) json.case list_all_iff by (fastforce split: option.splits)

lemma json_eq_objects:
  assumes "json_eq (JObj ps) (JObj qs)" "distinct_keys ps"
  shows "rel_option json_eq (map_of ps k) (map_of qs k)"
proof (cases "map_of ps k")
  case (Some v)
  then have "(k, v) \<in> set ps" by (rule map_of_SomeD)
  with assms(1) obtain w where "map_of qs k = Some w" "json_eq v w"
    unfolding json_eq_JObj by fastforce
  with Some show ?thesis by simp
next
  case None
  have l: "length ps = length qs" and a: "\<forall>p \<in> set ps. map_of qs (fst p) \<noteq> None"
    using assms(1) unfolding json_eq_JObj by fastforce+
  have "map_of qs k = None"
    using None same_keys(1) [OF assms(2) l a] by (simp add: map_of_eq_None_iff)
  with None show ?thesis by simp
qed

end
