(* ===== verification/WorkflowDiff.thy ===== *)
theory WorkflowDiff
  imports ConnectionsDiff JsonValues "HOL-Library.Sublist"
begin

text \<open>
  The versions of a workflow and the compaction of their history: \<^verbatim>\<open>packages/workflow/src/workflow-diff.ts\<close> and
  \<open>pruneHistory\<close> of \<^verbatim>\<open>packages/@n8n/db/src/repositories/workflow-history.repository.ts\<close>. A node is an object with an
  identifier, a name, parameters and other properties; \<open>pick\<close> and \<open>isEqual\<close> are the functions of \<^verbatim>\<open>lodash\<close>. Two versions
  are the same object exactly when their records are equal (\<open>dw_ref\<close>). Times are in milliseconds. A rule may throw an
  error, given by its message.
\<close>

section \<open>Comparing nodes\<close>

record DiffableNode =
  dn_id :: string
  dn_name :: string
  dn_parameters :: "(string \<times> json) list"
  dn_other :: "(string \<times> json) list"

definition nodeObject :: "DiffableNode \<Rightarrow> (string \<times> json) list" where
  "nodeObject n = [(''id'', JStr (dn_id n)), (''name'', JStr (dn_name n)), (''parameters'', JObj (dn_parameters n))] @ dn_other n"

definition propsToCompare :: "string list" where
  "propsToCompare = [''name'', ''type'', ''typeVersion'', ''webhookId'', ''credentials'', ''parameters'']"

definition compareNodes :: "pick_fun \<Rightarrow> equal_fun \<Rightarrow> DiffableNode option \<Rightarrow> DiffableNode option \<Rightarrow> bool" where
  "compareNodes pick isEqual base target =
     (let ob = (\<lambda>n. case n of None \<Rightarrow> [] | Some n \<Rightarrow> nodeObject n)
      in isEqual (pick (ob base) propsToCompare) (pick (ob target) propsToCompare))"

datatype NodeDiffStatus = NodeEq | NodeModified | NodeAdded | NodeDeleted

record NodeDiff =
  nd_status :: NodeDiffStatus
  nd_node :: DiffableNode

type_synonym NodesDiff = "(string \<times> NodeDiff) list"

definition nodesById :: "DiffableNode list \<Rightarrow> (string \<times> DiffableNode) list" where
  "nodesById ns = fold (\<lambda>n. AList.update (dn_id n) n) ns []"

definition compareWorkflowsNodes ::
  "(DiffableNode option \<Rightarrow> DiffableNode option \<Rightarrow> bool) \<Rightarrow> DiffableNode list \<Rightarrow> DiffableNode list \<Rightarrow> NodesDiff" where
  "compareWorkflowsNodes nodesEqual base target =
     (let baseNodes = nodesById base;
          targetNodes = nodesById target;
          diff = fold (\<lambda>(i, node). AList.update i \<lparr>nd_status =
             (if map_of targetNodes i = None then NodeDeleted
              else if \<not> nodesEqual (map_of baseNodes i) (map_of targetNodes i) then NodeModified
              else NodeEq), nd_node = node\<rparr>) baseNodes []
      in fold (\<lambda>(i, node) diff. if map_of baseNodes i = None
           then AList.update i \<lparr>nd_status = NodeAdded, nd_node = node\<rparr> diff else diff) targetNodes diff)"

record DiffableWorkflow =
  dw_ref :: nat
  dw_nodes :: "DiffableNode list"
  dw_connections :: IConnections
  dw_createdAt :: int
  dw_authors :: "string option"

record WorkflowChangeSet =
  cs_nodes :: NodesDiff
  cs_connections :: "ConnectionsDiffOf \<times> ConnectionsDiffOf"

definition workflowChangeSet ::
  "(DiffableNode option \<Rightarrow> DiffableNode option \<Rightarrow> bool) \<Rightarrow> 'a DiffableWorkflow_scheme \<Rightarrow> 'a DiffableWorkflow_scheme \<Rightarrow> WorkflowChangeSet" where
  "workflowChangeSet nodesEqual src target =
     (if src = target
      then \<lparr>cs_nodes = fold (\<lambda>n. AList.update (dn_id n) \<lparr>nd_status = NodeEq, nd_node = n\<rparr>) (dw_nodes src) [],
            cs_connections = ([], [])\<rparr>
      else \<lparr>cs_nodes = compareWorkflowsNodes nodesEqual (dw_nodes src) (dw_nodes target),
            cs_connections = compareConnections (dw_connections src) (dw_connections target)\<rparr>)"

section \<open>Comparing parameters\<close>

text \<open>The loop of \<open>stringContainsParts\<close>, from index \<open>i\<close> of the string on.\<close>

fun containsPartsFrom :: "int \<Rightarrow> string \<Rightarrow> string \<Rightarrow> nat \<Rightarrow> nat \<Rightarrow> bool" where
  "containsPartsFrom diffSize substr [] i marker = (marker \<ge> length substr)"
| "containsPartsFrom diffSize substr (c # s) i marker =
     (let marker = (if marker < length substr \<and> substr ! marker = c then marker + 1 else marker)
      in if int i - int marker > diffSize then False else containsPartsFrom diffSize substr s (i + 1) marker)"

definition stringContainsParts :: "string \<Rightarrow> string \<Rightarrow> bool" where
  "stringContainsParts s substr =
     (if length substr > length s then False
      else containsPartsFrom (int (length s) - int (length substr)) substr s 0 0)"

function (sequential) parametersAreSuperset :: "json \<Rightarrow> json \<Rightarrow> bool" where
  "parametersAreSuperset (JStr p) nxt = (case nxt of JStr q \<Rightarrow> stringContainsParts q p | _ \<Rightarrow> False)"
| "parametersAreSuperset (JArr vs) nxt = (case nxt of
     JArr ws \<Rightarrow> length vs = length ws \<and> list_all (\<lambda>(v, w). parametersAreSuperset v w) (zip vs ws)
   | _ \<Rightarrow> False)"
| "parametersAreSuperset (JObj ps) nxt =
     (if js_typeof nxt \<noteq> TyObject \<or> nxt = JNull then False
      else if length ps \<noteq> length (objectKeys nxt) then False
      else if list_ex (\<lambda>p. ownProperty nxt (fst p) = None) ps then False
      else list_all (\<lambda>p. case ownProperty nxt (fst p) of None \<Rightarrow> False | Some w \<Rightarrow> parametersAreSuperset (snd p) w) ps)"
| "parametersAreSuperset prv nxt = (prv = nxt)"
  by pat_completeness auto
termination
proof (relation "measure (\<lambda>(p, q). size p)", goal_cases)
  case (2 vs nxt ws x v w)
  then have "v \<in> set vs" by (metis set_zip_leftD)
  then have "size v < Suc (size_list size vs)"
    by (metis size_list_estimation' le_imp_less_Suc order_refl)
  with 2 show ?case by auto
next
  case (3 ps nxt p w)
  then have "size (snd p) \<le> size_list (size_prod (\<lambda>x. 0) size) ps"
    by (cases p) (auto intro: size_list_estimation')
  with 3 show ?case by simp
qed simp

definition nodeIsSuperset :: "(DiffableNode option \<Rightarrow> DiffableNode option \<Rightarrow> bool) \<Rightarrow> DiffableNode \<Rightarrow> DiffableNode \<Rightarrow> bool" where
  "nodeIsSuperset nodesEqual prevNode nextNode =
     (if \<not> nodesEqual (Some (prevNode\<lparr>dn_parameters := []\<rparr>)) (Some (nextNode\<lparr>dn_parameters := []\<rparr>)) then False
      else parametersAreSuperset (JObj (dn_parameters prevNode)) (JObj (dn_parameters nextNode)))"

section \<open>Rules\<close>

record DiffMetaData =
  workflowSizeScore :: "nat option"

type_synonym 'w DiffRule = "'w \<Rightarrow> 'w \<Rightarrow> WorkflowChangeSet \<Rightarrow> DiffMetaData \<Rightarrow> string + bool"

fun additiveNodes :: "(DiffableNode option \<Rightarrow> DiffableNode option \<Rightarrow> bool) \<Rightarrow> DiffableNode list \<Rightarrow> NodeDiff list \<Rightarrow> string + bool" where
  "additiveNodes nodesEqual nextNodes [] = Inr True"
| "additiveNodes nodesEqual nextNodes (d # ds) =
     (if nd_status d = NodeDeleted then Inr False
      else if nd_status d = NodeAdded then additiveNodes nodesEqual nextNodes ds
      else case List.find (\<lambda>x. dn_id x = dn_id (nd_node d)) nextNodes of
        None \<Rightarrow> Inl ''invariant broken - no next node''
      | Some nextNode \<Rightarrow>
          if nd_status d = NodeModified \<and> \<not> nodeIsSuperset nodesEqual (nd_node d) nextNode then Inr False
          else additiveNodes nodesEqual nextNodes ds)"

definition mergeAdditiveChanges ::
  "(DiffableNode option \<Rightarrow> DiffableNode option \<Rightarrow> bool) \<Rightarrow> 'a DiffableWorkflow_scheme DiffRule" where
  "mergeAdditiveChanges nodesEqual prv nxt diff metaData =
     rbind (additiveNodes nodesEqual (dw_nodes nxt) (map snd (cs_nodes diff))) (\<lambda>ok.
       if \<not> ok then Inr False
       else if length (snd (cs_connections diff)) > 0 then Inr False else Inr True)"

definition makeSkipTimeDifference :: "int \<Rightarrow> 'a DiffableWorkflow_scheme DiffRule" where
  "makeSkipTimeDifference timeDiffMs prv nxt diff metaData = Inr (\<bar>dw_createdAt nxt - dw_createdAt prv\<bar> > timeDiffMs)"

definition makeMergeShortTimeSpan :: "int \<Rightarrow> 'a DiffableWorkflow_scheme \<Rightarrow> 'a DiffableWorkflow_scheme \<Rightarrow> bool" where
  "makeMergeShortTimeSpan timeDiffMs prv nxt = (\<bar>dw_createdAt nxt - dw_createdAt prv\<bar> < timeDiffMs)"

text \<open>The pairs of a \<open>Map\<close> from minimum sizes to times, the largest size first.\<close>

definition sizePairs :: "(nat \<times> int) list \<Rightarrow> (nat \<times> int) list" where
  "sizePairs mapping = sort_key (\<lambda>p. - int (fst p)) mapping"

definition makeMergeDependingOnSizeRule :: "(nat \<times> int) list \<Rightarrow> 'a DiffableWorkflow_scheme DiffRule" where
  "makeMergeDependingOnSizeRule mapping prv nxt diff metaData = Inr (case workflowSizeScore metaData of
     None \<Rightarrow> False
   | Some score \<Rightarrow> (case List.find (\<lambda>p. score > fst p) (sizePairs mapping) of
       None \<Rightarrow> False
     | Some (count, time) \<Rightarrow> makeMergeShortTimeSpan time prv nxt))"

definition skipDifferentUsers :: "'a DiffableWorkflow_scheme DiffRule" where
  "skipDifferentUsers prv nxt diff metaData = Inr (dw_authors nxt \<noteq> dw_authors prv)"

fun determineNodeSize :: "json \<Rightarrow> nat" where
  "determineNodeSize (JStr s) = (if s = [] then 1 else length s)"
| "determineNodeSize (JArr vs) = fold (\<lambda>v acc. acc + determineNodeSize v) vs 1"
| "determineNodeSize (JObj ps) = fold (\<lambda>p acc. acc + determineNodeSize (snd p)) ps 1"
| "determineNodeSize _ = 1"

definition determineNodeParametersSize :: "'a DiffableWorkflow_scheme \<Rightarrow> nat" where
  "determineNodeParametersSize w = fold (\<lambda>x acc. acc + determineNodeSize (JObj (dn_parameters x))) (dw_nodes w) 0"

section \<open>Grouping\<close>

text \<open>The first rule that answers yes, or the error of one before.\<close>

fun anyRule :: "'w DiffRule list \<Rightarrow> 'w \<Rightarrow> 'w \<Rightarrow> WorkflowChangeSet \<Rightarrow> DiffMetaData \<Rightarrow> string + bool" where
  "anyRule [] prv nxt diff m = Inr False"
| "anyRule (r # rs) prv nxt diff m =
     rbind (r prv nxt diff m) (\<lambda>b. if b then Inr True else anyRule rs prv nxt diff m)"

text \<open>The body of the loop, which may be skipped.\<close>

definition shouldRemove ::
  "('w \<Rightarrow> 'w \<Rightarrow> WorkflowChangeSet) \<Rightarrow> 'w DiffRule list \<Rightarrow> 'w DiffRule list \<Rightarrow> DiffMetaData \<Rightarrow> 'w \<Rightarrow> 'w \<Rightarrow> string + bool" where
  "shouldRemove changes rules skipRules m prv nxt =
     (let wcs = changes prv nxt
      in rbind (anyRule skipRules prv nxt wcs m) (\<lambda>skip. if skip then Inr False else anyRule rules prv nxt wcs m))"

fun diffLoop :: "('w \<Rightarrow> 'w \<Rightarrow> string + bool) \<Rightarrow> nat \<Rightarrow> 'w list \<times> 'w list \<Rightarrow> string + 'w list \<times> 'w list" where
  "diffLoop removes 0 (removed, remaining) = Inr (removed, remaining)"
| "diffLoop removes (Suc i) (removed, remaining) =
     rbind (removes (remaining ! i) (remaining ! Suc i)) (\<lambda>b.
       diffLoop removes i
         (if b then (removed @ [remaining ! i], take i remaining @ drop (Suc i) remaining) else (removed, remaining)))"

definition sizeMetaData :: "bool \<Rightarrow> 'a DiffableWorkflow_scheme list \<Rightarrow> DiffMetaData" where
  "sizeMetaData wanted workflows = \<lparr>workflowSizeScore = (if wanted
     then Some (max (determineNodeParametersSize (workflows ! (length workflows div 2)))
                    (determineNodeParametersSize (workflows ! (length workflows - 1))))
     else None)\<rparr>"

definition groupWorkflows :: "(DiffableNode option \<Rightarrow> DiffableNode option \<Rightarrow> bool) \<Rightarrow>
    'a DiffableWorkflow_scheme list \<Rightarrow> 'a DiffableWorkflow_scheme DiffRule list \<Rightarrow> 'a DiffableWorkflow_scheme DiffRule list \<Rightarrow>
    bool \<Rightarrow> string + 'a DiffableWorkflow_scheme list \<times> 'a DiffableWorkflow_scheme list" where
  "groupWorkflows nodesEqual workflows rules skipRules wantSize =
     (if length workflows = 0 then Inr ([], [])
      else if length workflows = 1 then Inr ([], workflows)
      else diffLoop (shouldRemove (workflowChangeSet nodesEqual) rules skipRules (sizeMetaData wantSize workflows))
        (length workflows - 1) ([], workflows))"

section \<open>Differences of a save\<close>

definition hasNonPositionalChanges ::
  "(DiffableNode option \<Rightarrow> DiffableNode option \<Rightarrow> bool) \<Rightarrow> (IConnections \<Rightarrow> IConnections \<Rightarrow> bool) \<Rightarrow>
     DiffableNode list \<Rightarrow> DiffableNode list \<Rightarrow> IConnections \<Rightarrow> IConnections \<Rightarrow> bool" where
  "hasNonPositionalChanges nodesEqual isEqual oldNodes newNodes oldConnections newConnections =
     (if list_ex (\<lambda>d. nd_status (snd d) \<noteq> NodeEq) (compareWorkflowsNodes nodesEqual oldNodes newNodes) then True
      else if \<not> isEqual oldConnections newConnections then True
      else False)"

text \<open>The credentials of a node, an object from credential types to the identifier of the credential.\<close>

type_synonym INodeCredentials = "(string \<times> string option) list"

definition credentialsChanged :: "INodeCredentials \<Rightarrow> INodeCredentials \<Rightarrow> bool" where
  "credentialsChanged oldCreds newCreds =
     (if list_ex (\<lambda>(t, i). map_of newCreds t = None \<or> map_of newCreds t \<noteq> Some i) oldCreds then True
      else list_ex (\<lambda>(t, i). map_of oldCreds t = None) newCreds)"

definition hasCredentialChanges ::
  "(DiffableNode \<Rightarrow> INodeCredentials option) \<Rightarrow> DiffableNode list \<Rightarrow> DiffableNode list \<Rightarrow> bool" where
  "hasCredentialChanges creds oldNodes newNodes =
     list_ex (\<lambda>oldNode. case map_of (nodesById newNodes) (dn_id oldNode) of
       None \<Rightarrow> False
     | Some newNode \<Rightarrow> credentialsChanged (case creds oldNode of None \<Rightarrow> [] | Some c \<Rightarrow> c)
         (case creds newNode of None \<Rightarrow> [] | Some c \<Rightarrow> c)) oldNodes"

section \<open>Pruning the history\<close>

record WorkflowHistory = DiffableWorkflow +
  wh_versionId :: string
  wh_name :: "string option"
  wh_description :: "string option"

definition makeSkipActiveAndNamedVersionsRule :: "string list \<Rightarrow> WorkflowHistory DiffRule" where
  "makeSkipActiveAndNamedVersionsRule activeVersions prv nxt diff m =
     Inr (wh_name prv \<noteq> None \<or> wh_description prv \<noteq> None \<or> wh_versionId prv \<in> set activeVersions)"

text \<open>The versions found in the range of time, in the order of their times, are an argument, and so are the published
  versions; the result is the identifiers to delete, and the numbers of seen and deleted versions.\<close>

definition pruneHistory :: "(DiffableNode option \<Rightarrow> DiffableNode option \<Rightarrow> bool) \<Rightarrow> WorkflowHistory list \<Rightarrow> string list \<Rightarrow>
    WorkflowHistory DiffRule list \<Rightarrow> WorkflowHistory DiffRule list \<Rightarrow> bool \<Rightarrow> string + string list \<times> nat \<times> nat" where
  "pruneHistory nodesEqual workflows publishedVersions rules skipRules wantSize =
     rbind (groupWorkflows nodesEqual workflows rules
         (makeSkipActiveAndNamedVersionsRule publishedVersions # skipDifferentUsers # skipRules) wantSize)
       (\<lambda>(removed, remaining). Inr (map wh_versionId removed, length workflows, length removed))"

text \<open>The two rounds of the compaction service.\<close>

definition optimizeRules :: "(DiffableNode option \<Rightarrow> DiffableNode option \<Rightarrow> bool) \<Rightarrow> WorkflowHistory DiffRule list" where
  "optimizeRules nodesEqual = [mergeAdditiveChanges nodesEqual]"

definition optimizeSkipRules :: "WorkflowHistory DiffRule list" where
  "optimizeSkipRules = [makeSkipTimeDifference (20 * 60 * 1000)]"

definition trimmingSpans :: "(nat \<times> int) list" where
  "trimmingSpans = [(0, 60 * 1000), (100, 5 * 60 * 1000), (1000, 30 * 60 * 1000), (5000, 60 * 60 * 1000), (10000, 4 * 60 * 60 * 1000)]"

definition trimRules :: "WorkflowHistory DiffRule list" where
  "trimRules = [makeMergeDependingOnSizeRule trimmingSpans]"

end
