(* ===== verification/DiffProps.thy ===== *)
theory DiffProps
  imports WorkflowDiff
begin

text \<open>
  What the comparison of versions finds and what the compaction of the history keeps: \<open>stringContainsParts\<close> is the
  subsequence test, \<open>parametersAreSuperset\<close> a partial order, and \<open>groupWorkflows\<close> a division of the versions into blocks.
\<close>

section \<open>Texts\<close>

lemma containsPartsFrom_subseq:
  assumes "marker \<le> i + 1" "marker \<le> length substr"
  shows "containsPartsFrom (int (i + length s) - int (length substr)) substr s i marker \<longleftrightarrow> subseq (drop marker substr) s"
  using assms
proof (induction s arbitrary: i marker)
  case Nil
  then show ?case by (cases "drop marker substr") (auto dest: list_emb_Nil2)
next
  case (Cons c s)
  define m where "m = (if marker < length substr \<and> substr ! marker = c then marker + 1 else marker)"
  have step: "subseq (drop marker substr) (c # s) \<longleftrightarrow> subseq (drop m substr) s"
  proof (cases "marker < length substr")
    case True
    then have "drop marker substr = substr ! marker # drop (Suc marker) substr" by (simp add: Cons_nth_drop_Suc)
    then show ?thesis using True by (auto simp: m_def)
  next
    case False
    with Cons.prems show ?thesis by (simp add: m_def)
  qed
  have m: "m \<le> i + 1 + 1" "m \<le> length substr" using Cons.prems by (auto simp: m_def)
  have "\<not> subseq (drop m substr) s" if "int i - int m > int (i + length (c # s)) - int (length substr)"
  proof
    assume "subseq (drop m substr) s"
    then have "length (drop m substr) \<le> length s" by (rule list_emb_length)
    with that m show False by simp
  qed
  moreover have "containsPartsFrom (int (i + length (c # s)) - int (length substr)) substr (c # s) i marker \<longleftrightarrow>
      \<not> int i - int m > int (i + length (c # s)) - int (length substr) \<and>
      containsPartsFrom (int (i + 1 + length s) - int (length substr)) substr s (i + 1) m"
    by (simp add: m_def Let_def)
  ultimately show ?case unfolding step Cons.IH [OF m] by blast
qed

lemma containsParts_iff: "stringContainsParts s substr \<longleftrightarrow> subseq substr s"
proof (cases "length substr > length s")
  case True
  then have "\<not> subseq substr s" by (auto dest: list_emb_length)
  with True show ?thesis by (simp add: stringContainsParts_def)
next
  case False
  then show ?thesis using containsPartsFrom_subseq [of 0 0 substr s] by (simp add: stringContainsParts_def)
qed

section \<open>Parameters\<close>

abbreviation superset_le :: "json \<Rightarrow> json \<Rightarrow> bool" where
  "superset_le \<equiv> parametersAreSuperset"

definition container :: "json \<Rightarrow> bool" where
  "container w \<longleftrightarrow> js_typeof w = TyObject \<and> w \<noteq> JNull"

lemma container_cases: "container w \<Longrightarrow> (\<And>ws. w = JArr ws \<Longrightarrow> P) \<Longrightarrow> (\<And>qs. w = JObj qs \<Longrightarrow> P) \<Longrightarrow> P"
  by (cases w) (simp_all add: container_def)

lemma superset_JStr: "superset_le (JStr p) w \<longleftrightarrow> (\<exists>q. w = JStr q \<and> subseq p q)"
  by (cases w) (simp_all add: containsParts_iff)

lemma superset_JArr: "superset_le (JArr vs) w \<longleftrightarrow> (\<exists>ws. w = JArr ws \<and> list_all2 superset_le vs ws)"
  by (cases w) (simp_all add: list_all2_iff list_all_iff)

lemma superset_JObj:
  "superset_le (JObj ps) w \<longleftrightarrow> container w \<and> length ps = length (objectKeys w) \<and>
     (\<forall>p \<in> set ps. \<exists>u. ownProperty w (fst p) = Some u \<and> superset_le (snd p) u)"
proof -
  have "\<not> list_ex (\<lambda>p. ownProperty w (fst p) = None) ps \<and>
      list_all (\<lambda>p. case ownProperty w (fst p) of None \<Rightarrow> False | Some u \<Rightarrow> superset_le (snd p) u) ps \<longleftrightarrow>
      (\<forall>p \<in> set ps. \<exists>u. ownProperty w (fst p) = Some u \<and> superset_le (snd p) u)"
    unfolding list_ex_iff list_all_iff by (fastforce split: option.splits)
  then show ?thesis unfolding parametersAreSuperset.simps(3) container_def by argo
qed

declare parametersAreSuperset.simps(1-3) [simp del]

lemma index_property:
  "(\<exists>i < length vs. k = nat_str i \<and> u = vs ! i) \<longleftrightarrow> map_of (zip (map nat_str [0..<length vs]) vs) k = Some u"
proof -
  have d: "distinct (map nat_str [0..<length vs])"
    by (simp add: distinct_map inj_on_def nat_str_inj)
  then have "map_of (zip (map nat_str [0..<length vs]) vs) k = Some u \<longleftrightarrow>
      (k, u) \<in> set (zip (map nat_str [0..<length vs]) vs)"
    by (intro map_of_eq_Some_iff) simp
  also have "\<dots> \<longleftrightarrow> (\<exists>i. i < length vs \<and> map nat_str [0..<length vs] ! i = k \<and> vs ! i = u)"
    unfolding in_set_zip by auto
  also have "\<dots> \<longleftrightarrow> (\<exists>i < length vs. k = nat_str i \<and> u = vs ! i)"
    by (auto cong: conj_cong)
  finally show ?thesis by blast
qed

text \<open>An own property of a value is one of its supersets, and they have as many.\<close>

lemma superset_ownProperty:
  assumes le: "superset_le v w" and c: "container v" and k: "ownProperty v k = Some u"
  shows "\<exists>u'. ownProperty w k = Some u' \<and> superset_le u u'"
  using c
proof (rule container_cases)
  fix vs assume v: "v = JArr vs"
  with le obtain ws where w: "w = JArr ws" and a: "list_all2 superset_le vs ws" by (auto simp: superset_JArr)
  note len = list_all2_lengthD [OF a]
  show ?thesis
  proof (cases "k = ''length''")
    case True
    with k have "u = JNum (int (length vs))" by (simp add: v)
    with True show ?thesis by (simp add: w len)
  next
    case False
    with k have "map_of (zip (map nat_str [0..<length vs]) vs) k = Some u" by (simp add: v)
    then obtain i where i: "i < length vs" "k = nat_str i" "u = vs ! i" unfolding index_property [symmetric] by blast
    with len have "map_of (zip (map nat_str [0..<length ws]) ws) k = Some (ws ! i)"
      unfolding index_property [symmetric] by auto
    with False have "ownProperty w k = Some (ws ! i)" by (simp add: w)
    moreover have "superset_le u (ws ! i)" using i a by (simp add: list_all2_nthD)
    ultimately show ?thesis by blast
  qed
next
  fix qs assume v: "v = JObj qs"
  with k have "(k, u) \<in> set qs" by (simp add: map_of_SomeD)
  with le show ?thesis unfolding v superset_JObj by fastforce
qed

lemma superset_container: "superset_le v w \<Longrightarrow> container v \<Longrightarrow> container w \<and> length (objectKeys v) = length (objectKeys w)"
  by (erule container_cases)
    (auto simp: superset_JArr superset_JObj container_def dest: list_all2_lengthD)

lemma superset_trans: "superset_le u v \<Longrightarrow> superset_le v w \<Longrightarrow> superset_le u w"
proof (induction u arbitrary: v w)
  case (JStr s)
  then show ?case by (auto simp: superset_JStr intro: subseq_order.trans)
next
  case (JArr us)
  then obtain vs ws where w: "v = JArr vs" "w = JArr ws" "list_all2 superset_le us vs" "list_all2 superset_le vs ws"
    by (auto simp: superset_JArr)
  have "list_all2 superset_le us ws"
    using JArr.IH w(3,4) by (auto simp: list_all2_conv_all_nth)
  then show ?case by (simp add: superset_JArr w)
next
  case (JObj ps)
  then have c: "container v" by (simp add: superset_JObj)
  have "\<exists>x. ownProperty w (fst p) = Some x \<and> superset_le (snd p) x" if "p \<in> set ps" for p
  proof -
    from that JObj.prems(1) obtain y where y: "ownProperty v (fst p) = Some y" "superset_le (snd p) y"
      unfolding superset_JObj by blast
    with superset_ownProperty [OF JObj.prems(2) c] obtain x where "ownProperty w (fst p) = Some x" "superset_le y x"
      by blast
    moreover from this JObj.IH [of p "snd p" y x] that y(2) have "superset_le (snd p) x" by (cases p) simp
    ultimately show ?thesis by blast
  qed
  with JObj.prems superset_container [OF JObj.prems(2) c] show ?case by (simp add: superset_JObj)
qed auto

lemma superset_refl_eq: "json_wf v \<Longrightarrow> json_eq v w \<Longrightarrow> superset_le v w"
proof (induction v arbitrary: w)
  case (JStr s)
  then show ?case by (auto simp: superset_JStr)
next
  case (JArr vs)
  from JArr.prems(2) obtain ws where w: "w = JArr ws" "list_all2 json_eq vs ws" by (cases w) auto
  have "list_all2 superset_le vs ws"
    using JArr.IH JArr.prems(1) w(2) by (auto simp: list_all2_conv_all_nth list_all_iff)
  then show ?case by (simp add: superset_JArr w)
next
  case (JObj ps)
  from JObj.prems(2) obtain qs where w: "w = JObj qs" by (cases w) auto
  have "\<exists>x. map_of qs (fst p) = Some x \<and> superset_le (snd p) x" if "p \<in> set ps" for p
  proof -
    from that JObj.prems(2) obtain x where x: "map_of qs (fst p) = Some x" "json_eq (snd p) x"
      unfolding w json_eq_JObj by blast
    moreover from that JObj.prems(1) have "json_wf (snd p)" by (simp add: list_all_iff)
    ultimately show ?thesis using JObj.IH [of p "snd p" x] that by (cases p) auto
  qed
  moreover have "length ps = length qs" using JObj.prems(2) unfolding w json_eq_JObj by blast
  ultimately show ?case by (simp add: superset_JObj w container_def)
qed auto

lemma superset_antisym: "json_wf v \<Longrightarrow> superset_le v w \<Longrightarrow> superset_le w v \<Longrightarrow> json_eq v w"
proof (induction v arbitrary: w)
  case (JStr s)
  then show ?case by (auto simp: superset_JStr intro: subseq_order.antisym)
next
  case (JArr vs)
  then obtain ws where w: "w = JArr ws" "list_all2 superset_le vs ws" "list_all2 superset_le ws vs"
    by (auto simp: superset_JArr)
  have "list_all2 json_eq vs ws"
    using JArr.IH JArr.prems(1) w(2,3) by (auto simp: list_all2_conv_all_nth list_all_iff)
  then show ?case by (simp add: w)
next
  case (JObj ps)
  then have "container w" by (simp add: superset_JObj)
  moreover have "w \<noteq> JArr ws" for ws using JObj.prems(3) by (auto simp: superset_JArr)
  ultimately obtain qs where w: "w = JObj qs" by (auto elim: container_cases)
  have "\<exists>x. map_of qs (fst p) = Some x \<and> json_eq (snd p) x" if "p \<in> set ps" for p
  proof -
    from that JObj.prems(2) obtain x where x: "map_of qs (fst p) = Some x" "superset_le (snd p) x"
      unfolding w superset_JObj by auto
    then have "(fst p, x) \<in> set qs" by (simp add: map_of_SomeD)
    with JObj.prems(3) obtain y where "map_of ps (fst p) = Some y" "superset_le x y"
      unfolding w superset_JObj by fastforce
    moreover have "map_of ps (fst p) = Some (snd p)" using that JObj.prems(1) by simp
    ultimately have "superset_le x (snd p)" by simp
    moreover from that JObj.prems(1) have "json_wf (snd p)" by (simp add: list_all_iff)
    ultimately show ?thesis using JObj.IH [of p "snd p" x] that x by (cases p) auto
  qed
  moreover have "length ps = length qs" using JObj.prems(2) unfolding w superset_JObj by simp
  ultimately show ?case unfolding w json_eq_JObj by blast
qed auto

text \<open>C31: whether the parameters of a version contain those of an older one: \<open>parametersAreSuperset\<close> is a partial order on
  JSON values up to the order of keys, and on texts it is the subsequence test, although the loop stops as soon as too
  many characters are left over.\<close>

theorem parametersAreSuperset_order:
  "(json_wf u \<longrightarrow> parametersAreSuperset u u) \<and>
   (parametersAreSuperset u v \<longrightarrow> parametersAreSuperset v w \<longrightarrow> parametersAreSuperset u w) \<and>
   (json_wf u \<longrightarrow> parametersAreSuperset u v \<longrightarrow> parametersAreSuperset v u \<longrightarrow> json_eq u v) \<and>
   (parametersAreSuperset (JStr s) (JStr t) \<longleftrightarrow> subseq s t)"
  using superset_refl_eq json_eq_refl superset_trans superset_antisym superset_JStr by blast

text \<open>At concrete values: a longer text in a nested object, and an array that passes for a superset of an object.\<close>

lemma parametersAreSuperset_order_witness:
  "parametersAreSuperset (JObj [(''url'', JStr ''ab'')]) (JObj [(''url'', JStr ''axb'')]) \<and>
   parametersAreSuperset (JObj [(''url'', JStr ''ab'')]) (JObj [(''url'', JStr ''aybxb'')]) \<and>
   json_eq (JObj [(''url'', JStr ''ab'')]) (JObj [(''url'', JStr ''ab'')]) \<and>
   parametersAreSuperset (JObj [(''length'', JNum 1)]) (JArr [JNull])"
proof -
  have a: "parametersAreSuperset (JObj [(''url'', JStr ''ab'')]) (JObj [(''url'', JStr ''axb'')])"
    and b: "parametersAreSuperset (JObj [(''url'', JStr ''axb'')]) (JObj [(''url'', JStr ''aybxb'')])"
    and d: "parametersAreSuperset (JObj [(''length'', JNum 1)]) (JArr [JNull])"
    by code_simp+
  have w: "json_wf (JObj [(''url'', JStr ''ab'')])" by simp
  note o = parametersAreSuperset_order
  show ?thesis
    using a b d w o [of "JObj [(''url'', JStr ''ab'')]" "JObj [(''url'', JStr ''axb'')]" "JObj [(''url'', JStr ''aybxb'')]" "[]" "[]"]
      o [of "JObj [(''url'', JStr ''ab'')]" "JObj [(''url'', JStr ''ab'')]" JNull "[]" "[]"] by blast
qed

end
