(* ===== verification/CompactionProps.thy ===== *)
theory CompactionProps
  imports DiffProps
begin

text \<open>
  What the compaction of the history of a workflow deletes and keeps: the grouping of versions for any rules, and the
  two rounds of the service.
\<close>

text \<open>Versions of a workflow with one node.\<close>

definition sampleNode :: "string \<Rightarrow> DiffableNode" where
  "sampleNode url = \<lparr>dn_id = ''1'', dn_name = ''Http'', dn_parameters = [(''url'', JStr url)],
     dn_other = [(''type'', JStr ''http''), (''typeVersion'', JNum 4)]\<rparr>"

definition sampleVersion :: "string \<Rightarrow> int \<Rightarrow> string \<Rightarrow> WorkflowHistory" where
  "sampleVersion v t url = \<lparr>dw_ref = 0, dw_nodes = [sampleNode url], dw_connections = [], dw_createdAt = t,
     dw_authors = Some ''ann'', wh_versionId = v, wh_name = None, wh_description = None\<rparr>"

section \<open>Blocks of versions\<close>

text \<open>Consecutive versions that end in the one that is kept: the others are removed into it, and the kept version of a
  block is not removed into that of the next.\<close>

definition goodBlocks :: "('w \<Rightarrow> 'w \<Rightarrow> string + bool) \<Rightarrow> 'w list list \<Rightarrow> bool" where
  "goodBlocks removes blocks \<longleftrightarrow>
     list_all (\<lambda>b. b \<noteq> [] \<and> list_all (\<lambda>w. removes w (last b) = Inr True) (butlast b)) blocks \<and>
     list_all (\<lambda>(b, c). removes (last b) (last c) = Inr False) (zip blocks (tl blocks))"

lemma goodBlocks_Cons:
  "goodBlocks removes (b # blocks) \<longleftrightarrow> b \<noteq> [] \<and> (\<forall>w \<in> set (butlast b). removes w (last b) = Inr True) \<and>
     (blocks \<noteq> [] \<longrightarrow> removes (last b) (last (hd blocks)) = Inr False) \<and> goodBlocks removes blocks"
  by (cases blocks) (auto simp: goodBlocks_def list_all_iff)

lemma diffLoop_blocks:
  assumes "diffLoop removes i (removed, vs @ map last blocks) = Inr (removed', remaining)"
    and "i = length vs" "blocks \<noteq> []" "goodBlocks removes blocks" "removed = rev (concat (map butlast blocks))"
  shows "\<exists>blocks'. blocks' \<noteq> [] \<and> goodBlocks removes blocks' \<and> concat blocks' = vs @ concat blocks \<and>
    remaining = map last blocks' \<and> removed' = rev (concat (map butlast blocks'))"
  using assms
proof (induction i arbitrary: removed vs blocks)
  case 0
  then show ?case by auto
next
  case (Suc i)
  from Suc.prems(2) obtain us x where vs: "vs = us @ [x]" "i = length us"
    by (cases vs rule: rev_cases) auto
  obtain b bs where blocks: "blocks = b # bs" using Suc.prems(3) by (cases blocks) auto
  have b: "b \<noteq> []" using Suc.prems(4) by (simp add: blocks goodBlocks_Cons)
  define rem where "rem = removes x (last b)"
  have n: "(vs @ map last blocks) ! i = x" "(vs @ map last blocks) ! Suc i = last b"
    by (simp_all add: vs blocks nth_append)
  have cut: "take i (vs @ map last blocks) @ drop (Suc i) (vs @ map last blocks) = us @ map last blocks"
    by (simp add: vs)
  have run: "rbind rem (\<lambda>d. diffLoop removes i
      (if d then (removed @ [x], us @ map last blocks) else (removed, vs @ map last blocks))) = Inr (removed', remaining)"
    using Suc.prems(1) unfolding diffLoop.simps n cut rem_def .
  then obtain d where d: "rem = Inr d" by (cases rem) auto
  define blocks1 where "blocks1 = (if d then (x # b) # bs else [x] # blocks)"
  have good: "goodBlocks removes blocks1"
    using Suc.prems(4) d b by (auto simp: blocks1_def blocks goodBlocks_Cons rem_def)
  have "diffLoop removes i (rev (concat (map butlast blocks1)), us @ map last blocks1) = Inr (removed', remaining)"
    using run b Suc.prems(5) by (cases d) (simp_all add: d blocks1_def blocks vs)
  moreover have "blocks1 \<noteq> []" "concat blocks1 = x # concat blocks" by (simp_all add: blocks1_def blocks)
  ultimately show ?case using Suc.IH [of _ us blocks1] good vs by auto
qed

lemma groupWorkflows_blocks:
  assumes "groupWorkflows nodesEqual workflows rules skipRules wantSize = Inr (removed, remaining)"
  obtains blocks where
    "goodBlocks (shouldRemove (workflowChangeSet nodesEqual) rules skipRules (sizeMetaData wantSize workflows)) blocks"
    "workflows = concat blocks" "remaining = map last blocks" "removed = rev (concat (map butlast blocks))"
proof -
  define removes where "removes = shouldRemove (workflowChangeSet nodesEqual) rules skipRules (sizeMetaData wantSize workflows)"
  consider "workflows = []" | w where "workflows = [w]" | vs w where "workflows = vs @ [w]" "vs \<noteq> []"
    by (cases workflows rule: rev_cases) auto
  then have "\<exists>blocks. goodBlocks removes blocks \<and> workflows = concat blocks \<and> remaining = map last blocks \<and>
      removed = rev (concat (map butlast blocks))"
  proof cases
    case 1
    with assms show ?thesis by (intro exI [of _ "[]"]) (simp add: groupWorkflows_def goodBlocks_def)
  next
    case 2
    with assms show ?thesis by (intro exI [of _ "[[w]]"]) (auto simp: groupWorkflows_def goodBlocks_def)
  next
    case 3
    then have "diffLoop removes (length vs) ([], vs @ map last [[w]]) = Inr (removed, remaining)"
      using assms by (auto simp: groupWorkflows_def removes_def)
    from diffLoop_blocks [OF this] 3 show ?thesis by (auto simp: goodBlocks_def)
  qed
  then show thesis using that unfolding removes_def by blast
qed

text \<open>The loop fails only when a rule does.\<close>

lemma diffLoop_total:
  assumes "\<forall>v \<in> set remaining. \<forall>w \<in> set remaining. \<exists>b. removes v w = Inr b" "i < length remaining"
  shows "\<exists>r. diffLoop removes i (removed, remaining) = Inr r"
  using assms
proof (induction i arbitrary: removed remaining)
  case (Suc i)
  then obtain b where b: "removes (remaining ! i) (remaining ! Suc i) = Inr b" by (meson Suc_lessD nth_mem)
  have s: "set (take i remaining @ drop (Suc i) remaining) \<subseteq> set remaining"
    using set_take_subset set_drop_subset by fastforce
  show ?case
  proof (cases b)
    case True
    let ?rest = "take i remaining @ drop (Suc i) remaining"
    have "\<forall>v \<in> set ?rest. \<forall>w \<in> set ?rest. \<exists>b. removes v w = Inr b" using Suc.prems(1) s by blast
    then have "\<exists>r. diffLoop removes i (removed @ [remaining ! i], ?rest) = Inr r"
      using Suc.prems(2) by (intro Suc.IH) auto
    with b True show ?thesis by simp
  next
    case False
    have "\<exists>r. diffLoop removes i (removed, remaining) = Inr r"
      using Suc.prems by (intro Suc.IH) simp_all
    with b False show ?thesis by simp
  qed
qed simp

text \<open>C28: the grouping of the versions of a workflow, for any rules: the versions fall into consecutive blocks; the last
  version of each block remains, each other one is removed because a rule, and no skip rule, merges it into that last
  version; and no remaining version would be merged into the next one.\<close>

theorem groupWorkflows_division:
  assumes "groupWorkflows nodesEqual workflows rules skipRules wantSize = Inr (removed, remaining)"
  shows "\<exists>blocks. workflows = concat blocks \<and> remaining = map last blocks \<and> removed = rev (concat (map butlast blocks)) \<and>
    goodBlocks (shouldRemove (workflowChangeSet nodesEqual) rules skipRules (sizeMetaData wantSize workflows)) blocks"
  using groupWorkflows_blocks [OF assms] by blast

definition sampleVersions :: "WorkflowHistory list" where
  "sampleVersions = [sampleVersion ''a'' 0 ''http'', sampleVersion ''b'' 60000 ''x'', sampleVersion ''c'' 90000 ''xy'']"

lemma groupWorkflows_division_witness:
  "\<exists>blocks. sampleVersions = concat blocks \<and> [''b''] = map wh_versionId (rev (concat (map butlast blocks)))"
proof -
  let ?ne = "compareNodes pickProps isEqualProps"
  have "pruneHistory ?ne sampleVersions [''a''] (optimizeRules ?ne) [] False = Inr ([''b''], 3, 1)" by code_simp
  then obtain removed remaining where r: "groupWorkflows ?ne sampleVersions (optimizeRules ?ne)
      (makeSkipActiveAndNamedVersionsRule [''a''] # skipDifferentUsers # []) False = Inr (removed, remaining)"
    "[''b''] = map wh_versionId removed"
    unfolding pruneHistory_def rbind_eq_Inr by auto
  obtain blocks where b: "sampleVersions = concat blocks" "removed = rev (concat (map butlast blocks))"
    by (rule exE [OF groupWorkflows_division [OF r(1)]], elim conjE) (rule that)
  show ?thesis using b(1) r(2) unfolding b(2) by (intro exI [of _ blocks] conjI)
qed

section \<open>Pruning\<close>

lemma anyRule_True: "anyRule rs v w diff m = Inr True \<Longrightarrow> \<exists>r \<in> set rs. r v w diff m = Inr True"
  by (induction rs) (auto simp: rbind_eq_Inr split: if_splits)

lemma anyRule_False: "anyRule rs v w diff m = Inr False \<Longrightarrow> \<forall>r \<in> set rs. r v w diff m = Inr False"
  by (induction rs) (auto simp: rbind_eq_Inr split: if_splits)

lemma anyRule_total: "\<forall>r \<in> set rs. \<exists>b. r v w diff m = Inr b \<Longrightarrow> \<exists>b. anyRule rs v w diff m = Inr b"
  by (induction rs) force+

lemma shouldRemove_True:
  assumes "shouldRemove changes rules skipRules m v w = Inr True"
  shows "\<exists>r \<in> set rules. r v w (changes v w) m = Inr True" "\<forall>r \<in> set skipRules. r v w (changes v w) m = Inr False"
proof -
  from assms obtain skip where s: "anyRule skipRules v w (changes v w) m = Inr skip"
    and r: "(if skip then Inr False else anyRule rules v w (changes v w) m) = Inr True"
    by (auto simp: shouldRemove_def rbind_eq_Inr Let_def)
  then have "\<not> skip" by (cases skip) simp_all
  with s r show "\<exists>r \<in> set rules. r v w (changes v w) m = Inr True" "\<forall>r \<in> set skipRules. r v w (changes v w) m = Inr False"
    using anyRule_True anyRule_False by (metis (full_types))+
qed

lemma shouldRemove_total:
  assumes "\<forall>r \<in> set rules \<union> set skipRules. \<exists>b. r v w (changes v w) m = Inr b"
  shows "\<exists>b. shouldRemove changes rules skipRules m v w = Inr b"
proof -
  obtain s b where "anyRule skipRules v w (changes v w) m = Inr s" "anyRule rules v w (changes v w) m = Inr b"
    using assms anyRule_total [of skipRules] anyRule_total [of rules] by (metis Un_iff)
  then show ?thesis by (cases s) (auto simp: shouldRemove_def)
qed

text \<open>A version of a block that is not its last one stands before it.\<close>

lemma removed_in_block:
  assumes "w \<in> set (rev (concat (map butlast blocks)))"
  shows "\<exists>b us vs. b \<in> set blocks \<and> butlast b = us @ w # vs \<and> b = us @ w # vs @ [last b]"
proof -
  from assms obtain b where b: "b \<in> set blocks" "w \<in> set (butlast b)" by auto
  then obtain us vs where u: "butlast b = us @ w # vs" by (meson split_list)
  moreover have "b = butlast b @ [last b]" using b(2) by (cases "b = []") auto
  ultimately have "b = us @ w # vs @ [last b]" by simp
  with b u show ?thesis by blast
qed

text \<open>C29: the compaction of a history deletes only versions without a name and a description that were never
  published, and each is followed by a version of the same author; so the newest version of the range stays.\<close>

theorem pruneHistory_keeps:
  assumes "pruneHistory nodesEqual workflows published rules skipRules wantSize = Inr (deleted, seen, count)"
  shows "seen = length workflows \<and> count = length deleted \<and> (\<exists>removed. deleted = map wh_versionId removed \<and>
    (\<forall>w \<in> set removed. wh_name w = None \<and> wh_description w = None \<and> wh_versionId w \<notin> set published \<and>
      (\<exists>us n vs. workflows = us @ w # n # vs \<and> dw_authors n = dw_authors w)))"
proof -
  let ?skip = "makeSkipActiveAndNamedVersionsRule published # skipDifferentUsers # skipRules"
  let ?changes = "workflowChangeSet nodesEqual"
  let ?m = "sizeMetaData wantSize workflows"
  from assms obtain removed remaining where
    g: "groupWorkflows nodesEqual workflows rules ?skip wantSize = Inr (removed, remaining)"
    and r: "deleted = map wh_versionId removed" "seen = length workflows" "count = length removed"
    by (auto simp: pruneHistory_def rbind_eq_Inr)
  from groupWorkflows_blocks [OF g] obtain blocks where
    good: "goodBlocks (shouldRemove ?changes rules ?skip ?m) blocks"
    and ws: "workflows = concat blocks" and rm: "removed = rev (concat (map butlast blocks))" by blast
  have merged: "wh_name v = None \<and> wh_description v = None \<and> wh_versionId v \<notin> set published \<and> dw_authors (last b) = dw_authors v"
    if "b \<in> set blocks" "v \<in> set (butlast b)" for b v
  proof -
    have "shouldRemove ?changes rules ?skip ?m v (last b) = Inr True"
      using good that by (simp add: goodBlocks_def list_all_iff)
    from shouldRemove_True(2) [OF this] show ?thesis
      by (simp add: makeSkipActiveAndNamedVersionsRule_def skipDifferentUsers_def)
  qed
  have "wh_name w = None \<and> wh_description w = None \<and> wh_versionId w \<notin> set published \<and>
      (\<exists>us n vs. workflows = us @ w # n # vs \<and> dw_authors n = dw_authors w)" if "w \<in> set removed" for w
  proof -
    from removed_in_block that rm obtain b us vs where b: "b \<in> set blocks" "butlast b = us @ w # vs"
      and eq: "b = us @ w # vs @ [last b]" by metis
    then have w: "w \<in> set (butlast b)" by simp
    obtain n ns where n: "vs @ [last b] = n # ns" by (cases vs) auto
    have "n = last b \<or> n \<in> set (butlast b)"
      using n unfolding b(2) by (cases vs) auto
    then have "dw_authors n = dw_authors w" using merged [OF b(1)] w by metis
    moreover have "\<exists>us' vs'. workflows = us' @ w # n # vs'"
    proof -
      have "b = us @ w # n # ns" using eq n by simp
      moreover from b(1) obtain as cs where "blocks = as @ b # cs" by (meson split_list)
      ultimately have "workflows = (concat as @ us) @ w # n # (ns @ concat cs)" using ws by simp
      then show ?thesis by blast
    qed
    ultimately show ?thesis using merged [OF b(1) w] by metis
  qed
  with r show ?thesis by auto
qed

lemma pruneHistory_keeps_witness:
  "let ne = compareNodes pickProps isEqualProps
   in pruneHistory ne sampleVersions [''a''] (optimizeRules ne) [] False = Inr ([''b''], 3, 1) \<and>
     (\<exists>removed :: WorkflowHistory list. [''b''] = map wh_versionId removed \<and> (\<forall>w \<in> set removed. wh_name w = None))"
proof -
  let ?ne = "compareNodes pickProps isEqualProps"
  have run: "pruneHistory ?ne sampleVersions [''a''] (optimizeRules ?ne) [] False = Inr ([''b''], 3, 1)" by code_simp
  obtain removed :: "WorkflowHistory list" where r: "[''b''] = map wh_versionId removed"
    and n: "\<forall>w \<in> set removed. wh_name w = None \<and> wh_description w = None \<and> wh_versionId w \<notin> set [''a''] \<and>
      (\<exists>us n vs. sampleVersions = us @ w # n # vs \<and> dw_authors n = dw_authors w)"
    by (rule exE [OF pruneHistory_keeps [OF run, THEN conjunct2, THEN conjunct2]], elim conjE) (rule that)
  have "\<forall>w \<in> set removed. wh_name w = None" using n by simp
  with run r show ?thesis unfolding Let_def by (intro exI [of _ removed] conjI)
qed

section \<open>The difference of nodes\<close>

lemma fold_update_map:
  assumes "distinct (map fst xs)"
  shows "fold (\<lambda>(k, v). AList.update k (f k v)) xs [] = map (\<lambda>(k, v). (k, f k v)) xs"
  using assms
proof (induction xs rule: rev_induct)
  case (snoc x xs)
  then have "fst x \<notin> fst ` set (map (\<lambda>(k, v). (k, f k v)) xs)" by (force simp: case_prod_beta)
  with snoc show ?case by (cases x) (simp add: update_snoc)
qed simp

lemma nodesById_invar: "distinct_keys (nodesById ns) \<and> (\<forall>(k, n) \<in> set (nodesById ns). dn_id n = k \<and> n \<in> set ns)"
proof (induction ns rule: rev_induct)
  case (snoc n ns)
  then show ?case
    by (auto simp: nodesById_def distinct_update set_update_entries)
qed (simp add: nodesById_def)

lemma nodesById_keys: "fst ` set (nodesById ns) = dn_id ` set ns"
proof (induction ns rule: rev_induct)
  case (snoc n ns)
  have "set (map fst (nodesById (ns @ [n]))) = insert (dn_id n) (set (map fst (nodesById ns)))"
    by (simp add: nodesById_def keys_update)
  with snoc show ?case by simp
qed (simp add: nodesById_def)

lemma nodesById_distinct: "distinct (map dn_id ns) \<Longrightarrow> map_of (nodesById ns) i = Some n \<longleftrightarrow> n \<in> set ns \<and> dn_id n = i"
proof (induction ns rule: rev_induct)
  case (snoc m ns)
  then have "map_of (nodesById (ns @ [m])) i = (if i = dn_id m then Some m else map_of (nodesById ns) i)"
    by (simp add: nodesById_def amap.get_put)
  with snoc show ?case by (auto simp: image_iff)
qed (simp add: nodesById_def)

lemma compareWorkflowsNodes_eq:
  "compareWorkflowsNodes nodesEqual base target =
     map (\<lambda>(i, node). (i, \<lparr>nd_status =
         (if map_of (nodesById target) i = None then NodeDeleted
          else if \<not> nodesEqual (map_of (nodesById base) i) (map_of (nodesById target) i) then NodeModified
          else NodeEq), nd_node = node\<rparr>)) (nodesById base) @
     map (\<lambda>(i, node). (i, \<lparr>nd_status = NodeAdded, nd_node = node\<rparr>))
       (filter (\<lambda>(i, node). map_of (nodesById base) i = None) (nodesById target))"
proof -
  let ?B = "nodesById base" and ?T = "nodesById target"
  let ?f = "\<lambda>i node. \<lparr>nd_status = (if map_of ?T i = None then NodeDeleted
      else if \<not> nodesEqual (map_of ?B i) (map_of ?T i) then NodeModified else NodeEq), nd_node = node\<rparr>"
  let ?D = "map (\<lambda>(i, node). (i, ?f i node)) ?B"
  let ?add = "\<lambda>(i, node) diff. if map_of ?B i = None
      then AList.update i \<lparr>nd_status = NodeAdded, nd_node = node\<rparr> diff else diff"
  let ?A = "\<lambda>xs. map (\<lambda>(i, node). (i, \<lparr>nd_status = NodeAdded, nd_node = node\<rparr>)) (filter (\<lambda>(i, node). map_of ?B i = None) xs)"
  have k: "fst ` set ?D = fst ` set ?B" by force
  have "fold ?add xs ?D = ?D @ ?A xs" if "distinct (map fst xs)" for xs :: "(string \<times> DiffableNode) list"
    using that
  proof (induction xs rule: rev_induct)
    case (snoc x xs)
    obtain i n where x: "x = (i, n)" by force
    have "i \<notin> fst ` set (?D @ ?A xs)" if "map_of ?B i = None"
      using that snoc.prems k by (auto simp: x map_of_eq_None_iff image_iff)
    then show ?case using snoc by (auto simp: x update_snoc simp del: map_of_eq_None_iff)
  qed simp
  moreover have "fold (\<lambda>(i, node). AList.update i (?f i node)) ?B [] = ?D"
    using nodesById_invar by (intro fold_update_map) blast
  ultimately show ?thesis
    using nodesById_invar [of target] by (simp add: compareWorkflowsNodes_def Let_def)
qed

end
