(* ===== verification/OptimizeProps.thy ===== *)
theory OptimizeProps
  imports CompactionProps "HOL-Library.Multiset"
begin

text \<open>
  The two rounds of the compaction of a history: the optimizing round loses nothing of what it compares, the trimming
  round keeps versions at the distance chosen by size; and which changes of a node no comparison sees.
\<close>

section \<open>Additive changes\<close>

lemma additiveNodes_True:
  "additiveNodes nodesEqual ns ds = Inr True \<Longrightarrow> \<forall>d \<in> set ds. nd_status d \<noteq> NodeDeleted \<and>
     (nd_status d \<noteq> NodeAdded \<longrightarrow> (\<exists>x. List.find (\<lambda>x. dn_id x = dn_id (nd_node d)) ns = Some x \<and>
       (nd_status d = NodeModified \<longrightarrow> nodeIsSuperset nodesEqual (nd_node d) x)))"
  by (induction ds) (auto split: if_splits option.splits)

lemma additiveNodes_total:
  "\<forall>d \<in> set ds. nd_status d = NodeDeleted \<or> nd_status d = NodeAdded \<or> dn_id (nd_node d) \<in> dn_id ` set ns \<Longrightarrow>
     \<exists>b. additiveNodes nodesEqual ns ds = Inr b"
proof (induction ds)
  case (Cons d ds)
  then obtain b where b: "additiveNodes nodesEqual ns ds = Inr b" by auto
  have "List.find (\<lambda>x. dn_id x = dn_id (nd_node d)) ns \<noteq> None" if "dn_id (nd_node d) \<in> dn_id ` set ns"
    using that by (auto simp: find_None_iff)
  with Cons.prems b show ?case by (auto split: option.splits)
qed (simp add: ex_bool_eq)

text \<open>The error of a missing next node never happens.\<close>

lemma changeSet_ids:
  assumes "d \<in> snd ` set (cs_nodes (workflowChangeSet nodesEqual v w))"
  shows "nd_status d = NodeDeleted \<or> nd_status d = NodeAdded \<or> dn_id (nd_node d) \<in> dn_id ` set (dw_nodes w)"
proof (cases "v = w")
  case True
  have "fst ` set xs = dn_id ` set ns \<and> (\<forall>(k, x) \<in> set xs. dn_id (nd_node x) = k \<and> nd_node x \<in> set ns) \<and> distinct_keys xs"
    if "xs = fold (\<lambda>n. AList.update (dn_id n) \<lparr>nd_status = NodeEq, nd_node = n\<rparr>) ns []" for ns xs
    using that
  proof (induction ns arbitrary: xs rule: rev_induct)
    case (snoc n ns)
    let ?xs = "fold (\<lambda>n. AList.update (dn_id n) \<lparr>nd_status = NodeEq, nd_node = n\<rparr>) ns []"
    have "set (map fst xs) = insert (dn_id n) (set (map fst ?xs))" using snoc.prems by (simp add: keys_update)
    then show ?case using snoc.IH [OF refl] snoc.prems by (auto simp: distinct_update set_update_entries)
  qed simp
  from this [OF refl, of "dw_nodes w"] assms True show ?thesis by (auto simp: workflowChangeSet_def)
next
  case False
  with assms show ?thesis
    using nodesById_invar [of "dw_nodes v"] nodesById_keys [of "dw_nodes w"]
    by (force simp: workflowChangeSet_def compareWorkflowsNodes_eq map_of_eq_None_iff)
qed

lemma mergeAdditiveChanges_total:
  "\<exists>b. mergeAdditiveChanges nodesEqual v w (workflowChangeSet nodesEqual v w) m = Inr b"
proof -
  have "\<exists>b. additiveNodes nodesEqual (dw_nodes w) (map snd (cs_nodes (workflowChangeSet nodesEqual v w))) = Inr b"
  proof (intro additiveNodes_total ballI)
    fix d assume "d \<in> set (map snd (cs_nodes (workflowChangeSet nodesEqual v w)))"
    then have "d \<in> snd ` set (cs_nodes (workflowChangeSet nodesEqual v w))" by simp
    then show "nd_status d = NodeDeleted \<or> nd_status d = NodeAdded \<or> dn_id (nd_node d) \<in> dn_id ` set (dw_nodes w)"
      by (rule changeSet_ids)
  qed
  then show ?thesis by (auto simp: mergeAdditiveChanges_def)
qed

text \<open>Nothing removed: the connections of the older version are all in the newer one.\<close>

lemma compareConnections_removed_Nil:
  assumes "snd (compareConnections prv nxt) = []"
  shows "set (connectionsAt prv n t i) \<subseteq> set (connectionsAt nxt n t i)"
proof
  fix c assume c: "c \<in> set (connectionsAt prv n t i)"
  then have "c \<in> fst ` set (indexMap (connectionsAt prv n t i))" using indexMap_keys by metis
  then obtain k where k: "map_of (indexMap (connectionsAt prv n t i)) c = Some k"
    by (metis map_of_eq_None_iff option.exhaust)
  show "c \<in> set (connectionsAt nxt n t i)"
  proof (rule ccontr)
    assume "c \<notin> set (connectionsAt nxt n t i)"
    with k have "\<lparr>ce_sourceIndex = i, ce_index = k, ce_connection = c\<rparr> \<in> missingAt prv nxt n t i"
      by (simp add: missingAt_def)
    then have "(n, t, \<lparr>ce_sourceIndex = i, ce_index = k, ce_connection = c\<rparr>) \<in> entriesOf (snd (compareConnections prv nxt))"
      by (simp add: compareConnections_entries)
    then show False by (simp add: assms entriesOf_def obj_get_def list_get_def)
  qed
qed

section \<open>Equal nodes\<close>

definition nodeWf :: "DiffableNode \<Rightarrow> bool" where
  "nodeWf n \<longleftrightarrow> json_wf (JObj (nodeObject n))"

lemma nodeWf_facts:
  assumes "nodeWf n"
  shows "distinct_keys (nodeObject n)" "json_wf (JObj (dn_parameters n))" "map_of (nodeObject n) p = Some v \<Longrightarrow> json_wf v"
proof -
  show "distinct_keys (nodeObject n)" using assms by (simp add: nodeWf_def)
  have a: "\<forall>q \<in> set (nodeObject n). json_wf (snd q)" using assms by (simp add: nodeWf_def list_all_iff)
  then show "json_wf v" if "map_of (nodeObject n) p = Some v" using that by (metis map_of_SomeD snd_conv)
  have "(''parameters'', JObj (dn_parameters n)) \<in> set (nodeObject n)" by (simp add: nodeObject_def)
  with a show "json_wf (JObj (dn_parameters n))" by (metis snd_conv)
qed

definition otherProps :: "string list" where
  "otherProps = [''name'', ''type'', ''typeVersion'', ''webhookId'', ''credentials'']"

text \<open>A node of a newer version that has all an older one has: the same compared properties, and parameters that
  contain the older ones.\<close>

definition nodeContains :: "DiffableNode \<Rightarrow> DiffableNode \<Rightarrow> bool" where
  "nodeContains n x \<longleftrightarrow> dn_id x = dn_id n \<and>
     list_all (\<lambda>p. rel_option json_eq (map_of (nodeObject n) p) (map_of (nodeObject x) p)) otherProps \<and>
     parametersAreSuperset (JObj (dn_parameters n)) (JObj (dn_parameters x))"

lemma compareNodes_props:
  assumes l: "lodash_pick pick" "lodash_isEqual isEqual"
    and d: "distinct_keys (nodeObject n)" "distinct_keys (nodeObject x)"
    and eq: "compareNodes pick isEqual (Some n) (Some x)" and p: "p \<in> set propsToCompare"
  shows "rel_option json_eq (map_of (nodeObject n) p) (map_of (nodeObject x) p)"
proof -
  let ?n = "pick (nodeObject n) propsToCompare" and ?x = "pick (nodeObject x) propsToCompare"
  have j: "json_eq (JObj ?n) (JObj ?x)" using eq l(2) by (simp add: compareNodes_def lodash_isEqual_def)
  have k: "distinct_keys ?n" "map_of ?n = map_of (nodeObject n) |` set propsToCompare"
      "map_of ?x = map_of (nodeObject x) |` set propsToCompare"
    using l(1) d by (simp_all add: lodash_pick_def)
  from json_eq_objects [OF j k(1), of p] p show ?thesis by (simp add: k(2,3))
qed

lemma nodeObject_parameters: "map_of (nodeObject (n\<lparr>dn_parameters := q\<rparr>)) p =
    (if p = ''parameters'' then Some (JObj q) else map_of (nodeObject n) p)"
  by (simp add: nodeObject_def)

lemma distinct_nodeObject_parameters [simp]:
  "distinct_keys (nodeObject (n\<lparr>dn_parameters := q\<rparr>)) = distinct_keys (nodeObject n)"
  by (simp add: nodeObject_def)

lemma compareNodes_contains:
  assumes l: "lodash_pick pick" "lodash_isEqual isEqual" and wf: "nodeWf n" "nodeWf x" and i: "dn_id x = dn_id n"
    and eq: "compareNodes pick isEqual (Some n) (Some x) \<or> nodeIsSuperset (compareNodes pick isEqual) n x"
  shows "nodeContains n x"
proof -
  have d: "distinct_keys (nodeObject n)" "distinct_keys (nodeObject x)" using wf nodeWf_facts(1) by blast+
  have sub: "p \<in> set propsToCompare" "p \<noteq> ''parameters''" if "p \<in> set otherProps" for p
    using that by (auto simp: otherProps_def propsToCompare_def)
  show ?thesis
  proof (cases "compareNodes pick isEqual (Some n) (Some x)")
    case True
    note r = compareNodes_props [OF l d True]
    have "''parameters'' \<in> set propsToCompare" by (simp add: propsToCompare_def)
    from r [OF this] have "json_eq (JObj (dn_parameters n)) (JObj (dn_parameters x))"
      by (simp add: nodeObject_def del: json_eq.simps)
    then have "parametersAreSuperset (JObj (dn_parameters n)) (JObj (dn_parameters x))"
      using wf(1) nodeWf_facts(2) superset_refl_eq by blast
    with r sub i show ?thesis unfolding nodeContains_def list_all_iff by blast
  next
    case False
    with eq have c: "compareNodes pick isEqual (Some (n\<lparr>dn_parameters := []\<rparr>)) (Some (x\<lparr>dn_parameters := []\<rparr>))"
      and s: "parametersAreSuperset (JObj (dn_parameters n)) (JObj (dn_parameters x))"
      by (simp_all add: nodeIsSuperset_def split: if_splits)
    have "rel_option json_eq (map_of (nodeObject n) p) (map_of (nodeObject x) p)" if "p \<in> set otherProps" for p
      using compareNodes_props [OF l _ _ c sub(1) [OF that]] sub(2) [OF that] d by (simp add: nodeObject_parameters)
    with s i show ?thesis unfolding nodeContains_def list_all_iff by blast
  qed
qed

text \<open>What an additive change keeps.\<close>

definition versionContains :: "'a DiffableWorkflow_scheme \<Rightarrow> 'a DiffableWorkflow_scheme \<Rightarrow> bool" where
  "versionContains old new \<longleftrightarrow> list_all (\<lambda>n. list_ex (nodeContains n) (dw_nodes new)) (dw_nodes old) \<and>
     (\<forall>n t i. set (connectionsAt (dw_connections old) n t i) \<subseteq> set (connectionsAt (dw_connections new) n t i))"

definition versionWf :: "'a DiffableWorkflow_scheme \<Rightarrow> bool" where
  "versionWf w \<longleftrightarrow> distinct (map dn_id (dw_nodes w)) \<and> list_all nodeWf (dw_nodes w)"

lemma mergeAdditiveChanges_contains:
  assumes l: "lodash_pick pick" "lodash_isEqual isEqual" and wf: "versionWf v" "versionWf w"
    and merge: "mergeAdditiveChanges (compareNodes pick isEqual) v w
      (workflowChangeSet (compareNodes pick isEqual) v w) m = Inr True"
  shows "versionContains v w"
proof -
  let ?ne = "compareNodes pick isEqual"
  let ?cs = "workflowChangeSet ?ne v w"
  have a: "additiveNodes ?ne (dw_nodes w) (map snd (cs_nodes ?cs)) = Inr True" and c: "snd (cs_connections ?cs) = []"
    using merge by (auto simp: mergeAdditiveChanges_def rbind_eq_Inr split: if_splits)
  show ?thesis
  proof (cases "v = w")
    case True
    have "nodeContains n n" if "n \<in> set (dw_nodes w)" for n
    proof -
      have n: "nodeWf n" using that wf(2) by (auto simp: versionWf_def list_all_iff)
      have "rel_option json_eq (map_of (nodeObject n) p) (map_of (nodeObject n) p)" for p
        using nodeWf_facts(3) [OF n] json_eq_refl by (cases "map_of (nodeObject n) p") auto
      with n show ?thesis
        by (auto simp: nodeContains_def list_all_iff intro!: superset_refl_eq json_eq_refl nodeWf_facts(2))
    qed
    with True show ?thesis by (auto simp: versionContains_def list_all_iff list_ex_iff)
  next
    case False
    then have cs: "?cs = \<lparr>cs_nodes = compareWorkflowsNodes ?ne (dw_nodes v) (dw_nodes w),
        cs_connections = compareConnections (dw_connections v) (dw_connections w)\<rparr>"
      by (simp add: workflowChangeSet_def)
    have "list_ex (nodeContains n) (dw_nodes w)" if n: "n \<in> set (dw_nodes v)" for n
    proof -
      have dist: "distinct (map dn_id (dw_nodes v))" "distinct (map dn_id (dw_nodes w))"
        using wf by (simp_all add: versionWf_def)
      let ?T = "map_of (nodesById (dw_nodes w)) (dn_id n)"
      have b: "map_of (nodesById (dw_nodes v)) (dn_id n) = Some n" using n nodesById_distinct [OF dist(1)] by blast
      define st where "st = (if ?T = None then NodeDeleted else if \<not> ?ne (Some n) ?T then NodeModified else NodeEq)"
      have "\<lparr>nd_status = st, nd_node = n\<rparr> \<in> snd ` set (cs_nodes ?cs)"
        using map_of_SomeD [OF b] by (force simp: cs compareWorkflowsNodes_eq st_def b)
      then have d: "st \<noteq> NodeDeleted" and f: "st \<noteq> NodeAdded \<longrightarrow> (\<exists>x. List.find (\<lambda>x. dn_id x = dn_id n) (dw_nodes w) = Some x \<and>
          (st = NodeModified \<longrightarrow> nodeIsSuperset ?ne n x))"
        using additiveNodes_True [OF a] by fastforce+
      from d obtain y where y: "?T = Some y" by (cases ?T) (auto simp: st_def)
      have "st \<noteq> NodeAdded" by (simp add: st_def)
      with f obtain x where x: "List.find (\<lambda>x. dn_id x = dn_id n) (dw_nodes w) = Some x"
        and s: "st = NodeModified \<longrightarrow> nodeIsSuperset ?ne n x" by blast
      from x have xw: "x \<in> set (dw_nodes w)" "dn_id x = dn_id n" by (auto simp: find_Some_iff)
      then have "?T = Some x" using nodesById_distinct [OF dist(2)] by blast
      then have "x = y" using y by simp
      then have "?ne (Some n) (Some x) \<or> nodeIsSuperset ?ne n x" using s y by (auto simp: st_def split: if_splits)
      then have "nodeContains n x"
        using xw n wf by (intro compareNodes_contains [OF l]) (auto simp: versionWf_def list_all_iff)
      with xw show ?thesis by (auto simp: list_ex_iff)
    qed
    then show ?thesis
      using c compareConnections_removed_Nil [of "dw_connections v" "dw_connections w"]
      by (simp add: versionContains_def list_all_iff cs)
  qed
qed

section \<open>The rounds\<close>

text \<open>What is removed and what remains are the parts of a division.\<close>

lemma blocks_split:
  assumes "goodBlocks removes blocks"
  shows "set (concat blocks) = set (map last blocks) \<union> set (concat (map butlast blocks))"
    "distinct (concat blocks) \<Longrightarrow> set (map last blocks) \<inter> set (concat (map butlast blocks)) = {}"
proof -
  have "mset (concat blocks) = mset (map last blocks) + mset (concat (map butlast blocks))"
    using assms
  proof (induction blocks)
    case (Cons b blocks)
    then have "b \<noteq> []" by (simp add: goodBlocks_Cons)
    then have "mset b = add_mset (last b) (mset (butlast b))"
      by (metis append_butlast_last_id mset_append mset_single_iff_right union_mset_add_mset_right add.right_neutral mset.simps)
    with Cons show ?case by (simp add: goodBlocks_Cons)
  qed simp
  then have m: "mset (concat blocks) = mset (map last blocks @ concat (map butlast blocks))" by simp
  then show "set (concat blocks) = set (map last blocks) \<union> set (concat (map butlast blocks))"
    by (metis mset_eq_setD set_append)
  show "set (map last blocks) \<inter> set (concat (map butlast blocks)) = {}" if "distinct (concat blocks)"
    using that mset_eq_imp_distinct_iff [OF m] by (simp add: distinct_append)
qed

text \<open>C27: the optimizing round never fails, and each version it deletes is contained in a version that stays, at most 20
  minutes away: each node of it has a counterpart with the same identifier, name, type, version, webhook and credentials
  and with parameters that contain its own, and all its connections are there.\<close>

theorem optimize_loses_nothing:
  assumes "lodash_pick pick" "lodash_isEqual isEqual" "list_all versionWf workflows" "distinct (map wh_versionId workflows)"
  shows "\<exists>deleted seen num. pruneHistory (compareNodes pick isEqual) workflows published
      (optimizeRules (compareNodes pick isEqual)) optimizeSkipRules False = Inr (deleted, seen, num) \<and>
    (\<forall>w \<in> set workflows. wh_versionId w \<in> set deleted \<longrightarrow> (\<exists>k \<in> set workflows. wh_versionId k \<notin> set deleted \<and>
       \<bar>dw_createdAt k - dw_createdAt w\<bar> \<le> 20 * 60 * 1000 \<and> versionContains w k))"
proof -
  let ?ne = "compareNodes pick isEqual"
  let ?rules = "optimizeRules ?ne"
  let ?skip = "makeSkipActiveAndNamedVersionsRule published # skipDifferentUsers # optimizeSkipRules"
  let ?m = "sizeMetaData False workflows"
  let ?removes = "shouldRemove (workflowChangeSet ?ne) ?rules ?skip ?m"
  have "\<exists>b. ?removes v w = Inr b" for v w
    by (rule shouldRemove_total)
      (auto simp: optimizeRules_def optimizeSkipRules_def mergeAdditiveChanges_total makeSkipTimeDifference_def
        skipDifferentUsers_def makeSkipActiveAndNamedVersionsRule_def)
  then have "\<exists>r. groupWorkflows ?ne workflows ?rules ?skip False = Inr r"
    using diffLoop_total [of workflows ?removes "length workflows - 1" "[]"] by (auto simp: groupWorkflows_def)
  then obtain removed remaining where g: "groupWorkflows ?ne workflows ?rules ?skip False = Inr (removed, remaining)"
    by (metis surj_pair)
  from groupWorkflows_blocks [OF g] obtain blocks where good: "goodBlocks ?removes blocks" and ws: "workflows = concat blocks"
    and rm: "remaining = map last blocks" "removed = rev (concat (map butlast blocks))" by blast
  have dist: "distinct workflows" using assms(4) by (simp add: distinct_map)
  note split = blocks_split [OF good]
  have ids: "w \<in> set removed \<longleftrightarrow> wh_versionId w \<in> set (map wh_versionId removed)" if "w \<in> set workflows" for w
  proof
    assume "wh_versionId w \<in> set (map wh_versionId removed)"
    then obtain x where x: "x \<in> set removed" "wh_versionId w = wh_versionId x" by auto
    then have "x \<in> set workflows" using split(1) ws rm(2) by auto
    with x that assms(4) show "w \<in> set removed" by (metis distinct_map inj_onD)
  qed simp
  have "\<exists>k \<in> set workflows. wh_versionId k \<notin> set (map wh_versionId removed) \<and>
      \<bar>dw_createdAt k - dw_createdAt w\<bar> \<le> 20 * 60 * 1000 \<and> versionContains w k"
    if w: "w \<in> set workflows" "wh_versionId w \<in> set (map wh_versionId removed)" for w
  proof -
    have "w \<in> set (rev (concat (map butlast blocks)))" using ids [OF w(1)] w(2) rm(2) by simp
    then obtain b where b: "b \<in> set blocks" "w \<in> set (butlast b)" by auto
    then have k: "last b \<in> set remaining" using rm(1) by simp
    then have kw: "last b \<in> set workflows" using split(1) ws rm(1) by auto
    have "last b \<notin> set removed" using k split(2) dist ws rm by auto
    then have n: "wh_versionId (last b) \<notin> set (map wh_versionId removed)" using ids [OF kw] by blast
    have r: "?removes w (last b) = Inr True" using good b by (simp add: goodBlocks_def list_all_iff)
    have t: "\<bar>dw_createdAt (last b) - dw_createdAt w\<bar> \<le> 20 * 60 * 1000"
      using shouldRemove_True(2) [OF r] by (simp add: optimizeSkipRules_def makeSkipTimeDifference_def)
    have "mergeAdditiveChanges ?ne w (last b) (workflowChangeSet ?ne w (last b)) ?m = Inr True"
      using shouldRemove_True(1) [OF r] by (simp add: optimizeRules_def)
    then have "versionContains w (last b)"
      using assms(3) w(1) kw by (intro mergeAdditiveChanges_contains [OF assms(1,2)]) (auto simp: list_all_iff)
    with kw n t show ?thesis by blast
  qed
  moreover have "pruneHistory ?ne workflows published ?rules optimizeSkipRules False =
      Inr (map wh_versionId removed, length workflows, length removed)"
    by (simp add: pruneHistory_def g)
  ultimately show ?thesis by blast
qed

text \<open>Of three versions the first two are deleted.\<close>

lemma optimize_loses_nothing_witness:
  "let ws = [sampleVersion ''a'' 0 ''http'', sampleVersion ''b'' 60000 ''http:'', sampleVersion ''c'' 90000 ''http://x''];
       ne = compareNodes pickProps isEqualProps
   in pruneHistory ne ws [] (optimizeRules ne) optimizeSkipRules False = Inr ([''b'', ''a''], 3, 2) \<and>
     (\<exists>k \<in> set ws. wh_versionId k \<notin> {''b'', ''a''} \<and> versionContains (sampleVersion ''a'' 0 ''http'') k)"
proof -
  let ?ws = "[sampleVersion ''a'' 0 ''http'', sampleVersion ''b'' 60000 ''http:'', sampleVersion ''c'' 90000 ''http://x'']"
  let ?ne = "compareNodes pickProps isEqualProps"
  have run: "pruneHistory ?ne ?ws [] (optimizeRules ?ne) optimizeSkipRules False = Inr ([''b'', ''a''], 3, 2)"
    by code_simp
  have wf: "list_all versionWf ?ws" by code_simp
  have dist: "distinct (map wh_versionId ?ws)" by code_simp
  from optimize_loses_nothing [OF lodash_pick_pickProps lodash_isEqual_isEqualProps wf dist, of "[]"]
  have "\<exists>k \<in> set ?ws. wh_versionId k \<notin> set [''b'', ''a''] \<and> versionContains (sampleVersion ''a'' 0 ''http'') k"
    unfolding run by (simp add: sampleVersion_def)
  then show ?thesis unfolding Let_def run by simp
qed

section \<open>Trimming\<close>

text \<open>The least distance of two versions of a workflow of a size.\<close>

definition trimSpan :: "nat \<Rightarrow> int" where
  "trimSpan score = (if score > 10000 then 4 * 60 * 60 * 1000 else if score > 5000 then 60 * 60 * 1000
     else if score > 1000 then 30 * 60 * 1000 else if score > 100 then 5 * 60 * 1000
     else if score > 0 then 60 * 1000 else 0)"

lemma sizePairs_trimming: "sizePairs trimmingSpans = rev trimmingSpans"
  by (simp add: sizePairs_def trimmingSpans_def)

lemma trimRule:
  "makeMergeDependingOnSizeRule trimmingSpans v w diff \<lparr>workflowSizeScore = Some score\<rparr> =
     Inr (\<bar>dw_createdAt w - dw_createdAt v\<bar> < trimSpan score)"
  by (simp add: makeMergeDependingOnSizeRule_def sizePairs_trimming)
    (simp add: trimmingSpans_def trimSpan_def makeMergeShortTimeSpan_def)

text \<open>A version that no round deletes.\<close>

definition protected :: "string list \<Rightarrow> WorkflowHistory \<Rightarrow> WorkflowHistory \<Rightarrow> bool" where
  "protected published v w \<longleftrightarrow> wh_name v \<noteq> None \<or> wh_description v \<noteq> None \<or> wh_versionId v \<in> set published \<or>
     dw_authors w \<noteq> dw_authors v"

lemma shouldRemove_trim:
  "shouldRemove changes trimRules [makeSkipActiveAndNamedVersionsRule published, skipDifferentUsers] \<lparr>workflowSizeScore = Some score\<rparr> v w =
     Inr (\<not> protected published v w \<and> \<bar>dw_createdAt w - dw_createdAt v\<bar> < trimSpan score)"
  by (simp add: shouldRemove_def Let_def trimRules_def trimRule makeSkipActiveAndNamedVersionsRule_def skipDifferentUsers_def protected_def)

text \<open>C30: the trimming round deletes a version exactly when it is not protected and nearer to the next version that stays
  than the distance chosen by the size of the newest and of the middle version; versions that stay are protected or at
  least that far apart.\<close>

theorem trim_spacing:
  assumes "pruneHistory nodesEqual workflows published trimRules [] True = Inr (deleted, seen, num)" "2 \<le> length workflows"
  shows "\<exists>blocks. workflows = concat blocks \<and> deleted = map wh_versionId (rev (concat (map butlast blocks))) \<and>
    (let span = trimSpan (max (determineNodeParametersSize (workflows ! (length workflows div 2)))
                              (determineNodeParametersSize (last workflows)))
     in list_all (\<lambda>b. b \<noteq> [] \<and> list_all (\<lambda>w. \<not> protected published w (last b) \<and>
          \<bar>dw_createdAt (last b) - dw_createdAt w\<bar> < span) (butlast b)) blocks \<and>
        list_all (\<lambda>(b, c). protected published (last b) (last c) \<or>
          span \<le> \<bar>dw_createdAt (last c) - dw_createdAt (last b)\<bar>) (zip blocks (tl blocks)))"
proof -
  let ?score = "max (determineNodeParametersSize (workflows ! (length workflows div 2)))
                              (determineNodeParametersSize (last workflows))"
  have m: "sizeMetaData True workflows = \<lparr>workflowSizeScore = Some ?score\<rparr>"
    using assms(2) last_conv_nth [of workflows] by (cases "workflows = []") (simp_all add: sizeMetaData_def)
  from assms(1) obtain removed remaining where g: "groupWorkflows nodesEqual workflows trimRules
      [makeSkipActiveAndNamedVersionsRule published, skipDifferentUsers] True = Inr (removed, remaining)"
    and r: "deleted = map wh_versionId removed"
    by (auto simp: pruneHistory_def rbind_eq_Inr)
  from groupWorkflows_blocks [OF g] obtain blocks where
    good: "goodBlocks (shouldRemove (workflowChangeSet nodesEqual) trimRules
      [makeSkipActiveAndNamedVersionsRule published, skipDifferentUsers] (sizeMetaData True workflows)) blocks"
    and b: "workflows = concat blocks" "removed = rev (concat (map butlast blocks))" by blast
  from good have "list_all (\<lambda>b. b \<noteq> [] \<and> list_all (\<lambda>w. \<not> protected published w (last b) \<and>
          \<bar>dw_createdAt (last b) - dw_createdAt w\<bar> < trimSpan ?score) (butlast b)) blocks \<and>
        list_all (\<lambda>(b, c). protected published (last b) (last c) \<or>
          trimSpan ?score \<le> \<bar>dw_createdAt (last c) - dw_createdAt (last b)\<bar>) (zip blocks (tl blocks))"
    unfolding goodBlocks_def m shouldRemove_trim by (auto simp: list_all_iff not_less split: prod.splits)
  with b r show ?thesis unfolding Let_def by blast
qed

lemma trim_spacing_witness:
  "let ws = [sampleVersion ''a'' 0 ''http'', sampleVersion ''b'' 50000 ''x'', sampleVersion ''c'' 70000 ''http://x''];
       ne = compareNodes pickProps isEqualProps
   in pruneHistory ne ws [] trimRules [] True = Inr ([''b''], 3, 1) \<and>
     (\<exists>blocks. ws = concat blocks \<and> [''b''] = map wh_versionId (rev (concat (map butlast blocks))))"
proof -
  let ?ws = "[sampleVersion ''a'' 0 ''http'', sampleVersion ''b'' 50000 ''x'', sampleVersion ''c'' 70000 ''http://x'']"
  let ?ne = "compareNodes pickProps isEqualProps"
  have run: "pruneHistory ?ne ?ws [] trimRules [] True = Inr ([''b''], 3, 1)"
  proof -
    have m: "sizeMetaData True ?ws = \<lparr>workflowSizeScore = Some 9\<rparr>"
      by (simp add: sizeMetaData_def determineNodeParametersSize_def sampleVersion_def sampleNode_def)
    show ?thesis
      unfolding pruneHistory_def groupWorkflows_def m
      by (simp add: shouldRemove_trim eval_nat_numeral)
        (simp add: sampleVersion_def protected_def trimSpan_def)
  qed
  have n: "2 \<le> length ?ws" by simp
  obtain blocks where b: "?ws = concat blocks" "[''b''] = map wh_versionId (rev (concat (map butlast blocks)))"
    by (rule exE [OF trim_spacing [OF run n]], elim conjE) (rule that)
  show ?thesis unfolding Let_def by (intro conjI run exI [of _ blocks] b)
qed

section \<open>Changes that are not seen\<close>

definition sameCompared :: "DiffableNode \<Rightarrow> DiffableNode \<Rightarrow> bool" where
  "sameCompared n x \<longleftrightarrow> dn_id n = dn_id x \<and>
     list_all (\<lambda>p. map_of (nodeObject n) p = map_of (nodeObject x) p) propsToCompare"

lemma same_props_json_eq:
  assumes "distinct_keys ps" "distinct_keys qs" "map_of ps = map_of qs" "\<And>k v. map_of ps k = Some v \<Longrightarrow> json_wf v"
  shows "json_eq (JObj ps) (JObj qs)"
proof -
  have "fst ` set ps = fst ` set qs" using assms(3) by (metis dom_map_of_conv_image_fst)
  then have "length ps = length qs" using assms(1,2) by (metis distinct_card length_map set_map)
  moreover have "map_of qs (fst p) = Some (snd p) \<and> json_eq (snd p) (snd p)" if "p \<in> set ps" for p
  proof -
    have "map_of ps (fst p) = Some (snd p)" using that assms(1) by simp
    then show ?thesis using assms(3,4) json_eq_refl by metis
  qed
  ultimately show ?thesis unfolding json_eq_JObj by blast
qed

lemma sameCompared_equal:
  assumes l: "lodash_pick pick" "lodash_isEqual isEqual" and wf: "nodeWf n" "nodeWf x" and same: "sameCompared n x"
  shows "compareNodes pick isEqual (Some n) (Some x)"
proof -
  let ?n = "pick (nodeObject n) propsToCompare" and ?x = "pick (nodeObject x) propsToCompare"
  have k: "distinct_keys ?n" "map_of ?n = map_of (nodeObject n) |` set propsToCompare"
      "distinct_keys ?x" "map_of ?x = map_of (nodeObject x) |` set propsToCompare"
    using l(1) nodeWf_facts(1) wf by (simp_all add: lodash_pick_def)
  have "map_of ?n = map_of ?x"
    using same by (auto simp: k(2,4) restrict_map_def sameCompared_def list_all_iff fun_eq_iff)
  moreover have "json_wf v" if "map_of ?n p = Some v" for p v
    using that nodeWf_facts(3) [OF wf(1)] by (simp add: k(2) restrict_map_def split: if_splits)
  ultimately have "json_eq (JObj ?n) (JObj ?x)" using k by (intro same_props_json_eq)
  then show ?thesis using l(2) by (simp add: compareNodes_def lodash_isEqual_def)
qed

lemma compareWorkflowsNodes_entries:
  assumes "d \<in> set (compareWorkflowsNodes nodesEqual base target)"
  obtains (both) i x where "(i, x) \<in> set (nodesById base)" "nd_status (snd d) = (if map_of (nodesById target) i = None then NodeDeleted
        else if \<not> nodesEqual (map_of (nodesById base) i) (map_of (nodesById target) i) then NodeModified else NodeEq)"
    | (added) i x where "(i, x) \<in> set (nodesById target)" "map_of (nodesById base) i = None"
  using assms unfolding compareWorkflowsNodes_eq set_append
proof (elim UnE)
  assume "d \<in> set (map (\<lambda>(i, node). (i, \<lparr>nd_status =
         (if map_of (nodesById target) i = None then NodeDeleted
          else if \<not> nodesEqual (map_of (nodesById base) i) (map_of (nodesById target) i) then NodeModified
          else NodeEq), nd_node = node\<rparr>)) (nodesById base))"
  then obtain p where "p \<in> set (nodesById base)" "d = (fst p, \<lparr>nd_status =
         (if map_of (nodesById target) (fst p) = None then NodeDeleted
          else if \<not> nodesEqual (map_of (nodesById base) (fst p)) (map_of (nodesById target) (fst p)) then NodeModified
          else NodeEq), nd_node = snd p\<rparr>)"
    unfolding set_map case_prod_beta by blast
  then show thesis by (intro both [of "fst p" "snd p"]) simp_all
next
  assume "d \<in> set (map (\<lambda>(i, node). (i, \<lparr>nd_status = NodeAdded, nd_node = node\<rparr>))
       (filter (\<lambda>(i, node). map_of (nodesById base) i = None) (nodesById target)))"
  then obtain p where "p \<in> set (nodesById target)" "map_of (nodesById base) (fst p) = None"
    unfolding set_map set_filter case_prod_beta by blast
  then show thesis by (intro added [of "fst p" "snd p"]) simp_all
qed

text \<open>A save that leaves the six compared properties of every node as they are counts as one of positions only,
  whatever else of the nodes it changes: whether a node is disabled, what happens on an error, its notes.\<close>

theorem hasNonPositionalChanges_misses:
  assumes "lodash_pick pick" "lodash_isEqual isEqual" "list_all2 sameCompared old new" "list_all nodeWf (old @ new)"
    "distinct (map dn_id old)"
  shows "hasNonPositionalChanges (compareNodes pick isEqual) sameConnections old new c c' \<longleftrightarrow> \<not> sameConnections c c'"
proof -
  let ?ne = "compareNodes pick isEqual"
  have "map dn_id old = map dn_id new"
    using assms(3) by (induction rule: list_all2_induct) (simp_all add: sameCompared_def)
  then have d: "distinct (map dn_id new)" and ids: "dn_id ` set old = dn_id ` set new"
    using assms(5) by (simp_all flip: set_map)
  note o = nodesById_distinct [OF assms(5)] and n = nodesById_distinct [OF d]
  have eq: "\<exists>y. map_of (nodesById new) (dn_id x) = Some y \<and> ?ne (Some x) (Some y)" if x: "x \<in> set old" for x
  proof -
    from x assms(3) obtain y where y: "y \<in> set new" "sameCompared x y"
      unfolding list_all2_conv_all_nth by (metis in_set_conv_nth)
    then have "map_of (nodesById new) (dn_id x) = Some y" using n by (simp add: sameCompared_def)
    moreover have "?ne (Some x) (Some y)"
      using x y assms(4) by (intro sameCompared_equal [OF assms(1,2)]) (auto simp: list_all_iff)
    ultimately show ?thesis by blast
  qed
  have "nd_status (snd d) = NodeEq" if "d \<in> set (compareWorkflowsNodes ?ne old new)" for d
  proof -
    from that show ?thesis
    proof (cases rule: compareWorkflowsNodes_entries)
      case (both i x)
      then have "x \<in> set old \<and> dn_id x = i" using nodesById_invar [of old] by blast
      moreover from this have "map_of (nodesById old) i = Some x" using o by blast
      ultimately show ?thesis using eq [of x] both(2) by auto
    next
      case (added i x)
      then have "i \<in> fst ` set (nodesById old)" by (metis fst_conv image_eqI nodesById_keys ids)
      with added(2) show ?thesis by (simp add: map_of_eq_None_iff)
    qed
  qed
  then have "\<not> list_ex (\<lambda>d. nd_status (snd d) \<noteq> NodeEq) (compareWorkflowsNodes ?ne old new)"
    by (simp add: list_ex_iff)
  then show ?thesis by (simp add: hasNonPositionalChanges_def)
qed

text \<open>Disabling a node: also the optimizing round then deletes the version in which the node is enabled.\<close>

lemma hasNonPositionalChanges_misses_witness:
  "let n = sampleNode ''u''; x = n\<lparr>dn_other := (''disabled'', JBool True) # dn_other n\<rparr>
   in \<not> hasNonPositionalChanges (compareNodes pickProps isEqualProps) (=) [n] [x] [] [] \<and>
     pruneHistory (compareNodes pickProps isEqualProps)
       [(sampleVersion ''a'' 0 ''u''), (sampleVersion ''b'' 5 ''u'')\<lparr>dw_nodes := [x]\<rparr>] []
       (optimizeRules (compareNodes pickProps isEqualProps)) optimizeSkipRules False = Inr ([''a''], 2, 1)"
proof -
  let ?n = "sampleNode ''u''" and ?x = "(sampleNode ''u'')\<lparr>dn_other := (''disabled'', JBool True) # dn_other (sampleNode ''u'')\<rparr>"
  have "list_all2 sameCompared [?n] [?x]" "list_all nodeWf ([?n] @ [?x])" "distinct (map dn_id [?n])" by code_simp+
  from hasNonPositionalChanges_misses [OF lodash_pick_pickProps lodash_isEqual_isEqualProps this, of "(=)" "[]" "[]"]
  have "\<not> hasNonPositionalChanges (compareNodes pickProps isEqualProps) (=) [?n] [?x] [] []" by simp
  moreover have "pruneHistory (compareNodes pickProps isEqualProps)
       [(sampleVersion ''a'' 0 ''u''), (sampleVersion ''b'' 5 ''u'')\<lparr>dw_nodes := [?x]\<rparr>] []
       (optimizeRules (compareNodes pickProps isEqualProps)) optimizeSkipRules False = Inr ([''a''], 2, 1)"
    by code_simp
  ultimately show ?thesis unfolding Let_def by blast
qed

end
