(* ===== verification/NodeDisplay.thy ===== *)
theory NodeDisplay
  imports JsonValues "HOL-Library.Sublist" "HOL-Library.List_Lexorder" "HOL-Library.Char_ord"
begin

text \<open>
  When a parameter of a node is displayed: \<open>checkConditions\<close>, \<open>displayParameter\<close> and what they use, from
  \<^verbatim>\<open>packages/workflow/src/node-helpers.ts\<close>. An undefined value is \<open>None\<close>. Numbers are integers, also in the
  conversion of a text to a number. \<open>get\<close> and \<open>isEqual\<close> of \<^verbatim>\<open>lodash\<close> and the test of a regular expression are parameters.
\<close>

section \<open>Conversions and comparisons\<close>

fun joinComma :: "string list \<Rightarrow> string" where
  "joinComma [] = []"
| "joinComma [s] = s"
| "joinComma (s # t # ss) = s @ '','' @ joinComma (t # ss)"

text \<open>\<open>String(value)\<close>\<close>

fun js_string :: "json \<Rightarrow> string" where
  "js_string JNull = ''null''"
| "js_string (JBool b) = (if b then ''true'' else ''false'')"
| "js_string (JNum n) = int_str n"
| "js_string (JStr s) = s"
| "js_string (JArr vs) = joinComma (map (\<lambda>v. if v = JNull then [] else js_string v) vs)"
| "js_string (JObj _) = ''[object Object]''"

definition is_space :: "char \<Rightarrow> bool" where
  "is_space c \<longleftrightarrow> c \<in> {CHR '' '', CHR 0x09, CHR 0x0A, CHR 0x0D}"

definition is_digit :: "char \<Rightarrow> bool" where
  "is_digit c \<longleftrightarrow> CHR ''0'' \<le> c \<and> c \<le> CHR ''9''"

definition digitsNumber :: "string \<Rightarrow> int option" where
  "digitsNumber s = (if s \<noteq> [] \<and> list_all is_digit s
     then Some (foldl (\<lambda>n c. 10 * n + (of_char c - 48)) 0 s) else None)"

text \<open>\<open>Number(text)\<close>, \<open>None\<close> for \<open>NaN\<close>\<close>

definition strNumber :: "string \<Rightarrow> int option" where
  "strNumber s = (case rev (dropWhile is_space (rev (dropWhile is_space s))) of
     [] \<Rightarrow> Some 0
   | c # cs \<Rightarrow> if c = CHR ''-'' then map_option uminus (digitsNumber cs)
       else if c = CHR ''+'' then digitsNumber cs else digitsNumber (c # cs))"

fun js_number :: "json option \<Rightarrow> int option" where
  "js_number None = None"
| "js_number (Some JNull) = Some 0"
| "js_number (Some (JBool b)) = Some (if b then 1 else 0)"
| "js_number (Some (JNum n)) = Some n"
| "js_number (Some (JStr s)) = strNumber s"
| "js_number (Some v) = strNumber (js_string v)"

fun js_primitive :: "json \<Rightarrow> json" where
  "js_primitive (JArr vs) = JStr (js_string (JArr vs))"
| "js_primitive (JObj ps) = JStr (js_string (JObj ps))"
| "js_primitive v = v"

text \<open>The operators \<open><=\<close> and \<open><\<close>: two texts are compared as texts, everything else as numbers.\<close>

definition js_compare :: "(string \<Rightarrow> string \<Rightarrow> bool) \<Rightarrow> (int \<Rightarrow> int \<Rightarrow> bool) \<Rightarrow> json option \<Rightarrow> json option \<Rightarrow> bool" where
  "js_compare strings numbers v w = (case (map_option js_primitive v, map_option js_primitive w) of
     (Some (JStr s), Some (JStr t)) \<Rightarrow> strings s t
   | (a, b) \<Rightarrow> (case (js_number a, js_number b) of (Some m, Some n) \<Rightarrow> numbers m n | _ \<Rightarrow> False))"

definition js_le :: "json option \<Rightarrow> json option \<Rightarrow> bool" where
  "js_le = js_compare (\<le>) (\<le>)"

definition js_lt :: "json option \<Rightarrow> json option \<Rightarrow> bool" where
  "js_lt = js_compare (<) (<)"

text \<open>\<open>===\<close> of a value with a primitive one.\<close>

fun primitive :: "json option \<Rightarrow> bool" where
  "primitive (Some (JArr _)) = False"
| "primitive (Some (JObj _)) = False"
| "primitive _ = True"

definition js_same :: "json option \<Rightarrow> json option \<Rightarrow> bool" where
  "js_same v w \<longleftrightarrow> primitive v \<and> v = w"

text \<open>\<open>value[key]\<close>, with own properties only.\<close>

fun js_get :: "json \<Rightarrow> string \<Rightarrow> json option" where
  "js_get (JStr s) k = ownProperty (JArr (map (\<lambda>c. JStr [c]) s)) k"
| "js_get v k = ownProperty v k"

text \<open>\<open>some\<close> and \<open>every\<close> with a function that may throw.\<close>

fun rsome :: "('a \<Rightarrow> 'e + bool) \<Rightarrow> 'a list \<Rightarrow> 'e + bool" where
  "rsome f [] = Inr False"
| "rsome f (x # xs) = rbind (f x) (\<lambda>b. if b then Inr True else rsome f xs)"

fun revery :: "('a \<Rightarrow> 'e + bool) \<Rightarrow> 'a list \<Rightarrow> 'e + bool" where
  "revery f [] = Inr True"
| "revery f (x # xs) = rbind (f x) (\<lambda>b. if b then revery f xs else Inr False)"

section \<open>Conditions\<close>

record NodeLib =
  lib_get :: "json option \<Rightarrow> string \<Rightarrow> json option"
  lib_isEqual :: "json option \<Rightarrow> json option \<Rightarrow> bool"
  lib_regexTest :: "string \<Rightarrow> string \<Rightarrow> js_error + bool"

datatype DisplayCondition =
    CndEq "json option" | CndNot "json option" | CndGte json | CndLte json | CndGt json | CndLt json
  | CndBetween json json | CndStartsWith string | CndEndsWith string | CndIncludes string | CndRegex string | CndExists

datatype ConditionValue = PlainValue "json option" | Condition DisplayCondition

definition stringOf :: "json option \<Rightarrow> js_error + string" where
  "stringOf v = (case v of Some (JStr s) \<Rightarrow> Inr s | _ \<Rightarrow> Inl TypeError)"

fun conditionHolds :: "NodeLib \<Rightarrow> DisplayCondition \<Rightarrow> json option \<Rightarrow> js_error + bool" where
  "conditionHolds lib (CndEq t) v = Inr (lib_isEqual lib v t)"
| "conditionHolds lib (CndNot t) v = Inr (\<not> lib_isEqual lib v t)"
| "conditionHolds lib (CndGte t) v = Inr (js_le (Some t) v)"
| "conditionHolds lib (CndLte t) v = Inr (js_le v (Some t))"
| "conditionHolds lib (CndGt t) v = Inr (js_lt (Some t) v)"
| "conditionHolds lib (CndLt t) v = Inr (js_lt v (Some t))"
| "conditionHolds lib (CndBetween l u) v = Inr (js_le (Some l) v \<and> js_le v (Some u))"
| "conditionHolds lib (CndIncludes t) v = (case v of
     Some (JArr vs) \<Rightarrow> Inr (JStr t \<in> set vs)
   | _ \<Rightarrow> rbind (stringOf v) (\<lambda>s. Inr (sublist t s)))"
| "conditionHolds lib (CndStartsWith t) v = rbind (stringOf v) (\<lambda>s. Inr (prefix t s))"
| "conditionHolds lib (CndEndsWith t) v = rbind (stringOf v) (\<lambda>s. Inr (suffix t s))"
| "conditionHolds lib (CndRegex t) v =
     lib_regexTest lib t (case v of None \<Rightarrow> ''undefined'' | Some w \<Rightarrow> js_string w)"
| "conditionHolds lib CndExists v = Inr (v \<noteq> Some JNull \<and> v \<noteq> None \<and> v \<noteq> Some (JStr []))"

definition checkConditions :: "NodeLib \<Rightarrow> ConditionValue list \<Rightarrow> json option list \<Rightarrow> js_error + bool" where
  "checkConditions lib conditions actualValues = rsome (\<lambda>condition.
     case condition of
       Condition c \<Rightarrow>
         if actualValues = [] then Inr (case c of CndNot _ \<Rightarrow> True | _ \<Rightarrow> False)
         else revery (conditionHolds lib c) actualValues
     | PlainValue t \<Rightarrow> Inr (list_ex (\<lambda>v. js_same v t) actualValues)) conditions"

section \<open>Features and the values of a property\<close>

record INodeTypeDescription =
  nt_name :: string
  nt_features :: "(string \<times> ConditionValue list) list option"

definition getNodeFeatures :: "NodeLib \<Rightarrow> (string \<times> ConditionValue list) list option \<Rightarrow> json \<Rightarrow> js_error + (string \<times> bool) list" where
  "getNodeFeatures lib featuresDef nodeVersion = (case featuresDef of
     None \<Rightarrow> Inr []
   | Some defs \<Rightarrow> rfold (\<lambda>(featureName, conditions) features.
       rbind (checkConditions lib conditions [Some nodeVersion]) (\<lambda>b. Inr (AList.update featureName b features))) defs [])"

text \<open>A resource locator stands for its value.\<close>

definition locatedValue :: "json option \<Rightarrow> json option" where
  "locatedValue value = (case value of
     Some (JObj ps) \<Rightarrow> if hasTruthy ps ''__rl'' then map_of ps ''value'' else value
   | _ \<Rightarrow> value)"

text \<open>The current values of a property, from the level of the parameter or, with a leading slash, from the root; of a
  node only its version is read.\<close>

definition getPropertyValues :: "NodeLib \<Rightarrow> json option \<Rightarrow> string \<Rightarrow> int option \<Rightarrow> INodeTypeDescription option \<Rightarrow> json option \<Rightarrow>
    js_error + json option list" where
  "getPropertyValues lib nodeValues propertyName node ntd nodeValuesRoot =
     (let single = (\<lambda>value. Inr (case locatedValue value of Some (JArr vs) \<Rightarrow> map Some vs | w \<Rightarrow> [w]))
      in if prefix ''/'' propertyName then single (lib_get lib nodeValuesRoot (tl propertyName))
         else if propertyName = ''@version'' then single (Some (JNum (case node of None \<Rightarrow> 0 | Some v \<Rightarrow> v)))
         else if propertyName = ''@tool'' then single (Some (JBool (case ntd of None \<Rightarrow> False | Some d \<Rightarrow> suffix ''Tool'' (nt_name d))))
         else if propertyName = ''@feature'' then
           (case (ntd, node) of
              (Some d, Some v) \<Rightarrow> if nt_features d = None \<or> v = 0 then Inr []
                else rbind (getNodeFeatures lib (nt_features d) (JNum v)) (\<lambda>features.
                  Inr (map (\<lambda>f. Some (JStr (fst f))) (filter snd features)))
            | _ \<Rightarrow> Inr [])
         else single (lib_get lib nodeValues propertyName))"

section \<open>Displaying a parameter\<close>

text \<open>The display options of a parameter, with \<open>show\<close> and \<open>hide\<close> in the order of the definition.\<close>

type_synonym DisplayRules = "(string \<times> ConditionValue list) list"
type_synonym IDisplayOptions = "(string \<times> DisplayRules) list"

definition isExpression :: "json option \<Rightarrow> bool" where
  "isExpression v = (case v of Some (JStr s) \<Rightarrow> prefix ''='' s | _ \<Rightarrow> False)"

text \<open>The loop over the rules to show: \<open>Some b\<close> is an early return.\<close>

fun showRules :: "NodeLib \<Rightarrow> (string \<Rightarrow> js_error + json option list) \<Rightarrow> DisplayRules \<Rightarrow> js_error + bool option" where
  "showRules lib values [] = Inr None"
| "showRules lib values ((propertyName, conditions) # rules) =
     rbind (values propertyName) (\<lambda>vs.
       if list_ex isExpression vs then Inr (Some True)
       else rbind (checkConditions lib conditions vs) (\<lambda>ok. if \<not> ok then Inr (Some False) else showRules lib values rules))"

fun hideRules :: "NodeLib \<Rightarrow> (string \<Rightarrow> js_error + json option list) \<Rightarrow> DisplayRules \<Rightarrow> js_error + bool" where
  "hideRules lib values [] = Inr True"
| "hideRules lib values ((propertyName, conditions) # rules) =
     rbind (values propertyName) (\<lambda>vs.
       if vs = [] then hideRules lib values rules
       else rbind (checkConditions lib conditions vs) (\<lambda>hidden. if hidden then Inr False else hideRules lib values rules))"

definition displayParameter :: "NodeLib \<Rightarrow> json option \<Rightarrow> IDisplayOptions option \<Rightarrow> int option \<Rightarrow> INodeTypeDescription option \<Rightarrow>
    json option \<Rightarrow> js_error + bool" where
  "displayParameter lib nodeValues displayOptions node ntd nodeValuesRoot = (case displayOptions of
     None \<Rightarrow> Inr True
   | Some options \<Rightarrow>
       let root = (if (case nodeValuesRoot of None \<Rightarrow> False | Some r \<Rightarrow> truthy r) then nodeValuesRoot else nodeValues);
           values = (\<lambda>propertyName. getPropertyValues lib nodeValues propertyName node ntd root)
       in rbind (case map_of options ''show'' of None \<Rightarrow> Inr None | Some rules \<Rightarrow> showRules lib values rules) (\<lambda>shown.
            case shown of
              Some b \<Rightarrow> Inr b
            | None \<Rightarrow> (case map_of options ''hide'' of None \<Rightarrow> Inr True | Some rules \<Rightarrow> hideRules lib values rules)))"

text \<open>The part of a path before the first dot.\<close>

definition pathHead :: "string \<Rightarrow> string" where
  "pathHead path = takeWhile (\<lambda>c. c \<noteq> CHR ''.'') path"

definition displayParameterPath :: "NodeLib \<Rightarrow> json option \<Rightarrow> IDisplayOptions option \<Rightarrow> string \<Rightarrow> int option \<Rightarrow>
    INodeTypeDescription option \<Rightarrow> js_error + bool" where
  "displayParameterPath lib nodeValues displayOptions path node ntd =
     displayParameter lib (if path = [] then nodeValues else lib_get lib nodeValues path) displayOptions node ntd
       (if path \<noteq> [] \<and> pathHead path = ''parameters'' then lib_get lib nodeValues ''parameters'' else nodeValues)"

end
