(* ===== verification/ResolveOrder.thy ===== *)
theory ResolveOrder
  imports NodeDisplay
begin

text \<open>
  The order in which the parameters of a node are resolved: \<open>getParameterDependencies\<close> and \<open>getParameterResolveOrder\<close> of
  \<^verbatim>\<open>packages/workflow/src/node-helpers.ts\<close>. The loop of the second ends for every input.
\<close>

section \<open>Properties of a node\<close>

datatype NodePropertyTypes =
    BooleanType | ButtonType | CollectionType | ColorType | DateTimeType | FixedCollectionType | HiddenType | IconType
  | JsonType | CalloutType | NoticeType | MultiOptionsType | NumberType | OptionsType | StringType | CredentialsSelectType
  | ResourceLocatorType | CurlImportType | ResourceMapperType | FilterType | AssignmentCollectionType | CredentialsType
  | WorkflowSelectorType

text \<open>Of the type options only \<open>multipleValues\<close> is read. A collection has properties as its options, a fixed collection
  lists of properties with a name.\<close>

datatype INodeProperties = NodeProperty
  (np_name: string)
  (np_type: NodePropertyTypes)
  (np_default: json)
  (np_displayOptions: "IDisplayOptions option")
  (np_multipleValues: "bool option")
  (np_options: "INodeProperties list")
  (np_collections: "(string \<times> INodeProperties list) list")

type_synonym IParameterDependencies = "(string \<times> string list) list"

section \<open>Dependencies\<close>

definition addDependency :: "string \<Rightarrow> string \<Rightarrow> IParameterDependencies \<Rightarrow> IParameterDependencies" where
  "addDependency nm parameterName deps =
     (if parameterName \<in> set (list_get deps nm) then deps
      else if prefix ''@'' parameterName then deps
      else AList.update nm (list_get deps nm @ [parameterName]) deps)"

definition propertyDependencies :: "INodeProperties \<Rightarrow> IParameterDependencies \<Rightarrow> IParameterDependencies" where
  "propertyDependencies p deps =
     (let deps = (if map_of deps (np_name p) = None then AList.update (np_name p) [] deps else deps)
      in case np_displayOptions p of
           None \<Rightarrow> deps
         | Some options \<Rightarrow> fold (\<lambda>(kind, rules). fold (\<lambda>(parameterName, conditions). addDependency (np_name p) parameterName) rules) options deps)"

definition getParameterDependencies :: "INodeProperties list \<Rightarrow> IParameterDependencies" where
  "getParameterDependencies props = fold propertyDependencies props []"

section \<open>The order\<close>

record OrderLoop =
  ol_executionOrder :: "nat list"
  ol_indexToResolve :: "nat list"
  ol_resolved :: "string list"
  ol_lastIndexLength :: nat
  ol_lastIndexReduction :: int
  ol_iterations :: int

text \<open>The dependencies of a property that are not resolved; those on the root level are taken as resolved.\<close>

definition missingDependencies :: "string list \<Rightarrow> string list \<Rightarrow> string list" where
  "missingDependencies resolved deps = filter (\<lambda>d. d \<notin> set resolved \<and> \<not> prefix ''/'' d) deps"

definition resolveError :: js_error where
  "resolveError = ApplicationError ''Could not resolve parameter dependencies. Max iterations reached! Hint: If `displayOptions` are specified in any child parameter of a parent `collection` or `fixedCollection`, remove the `displayOptions` from the child parameter.''"

text \<open>One turn of the loop, for the index taken from the front of the list.\<close>

definition resolveStep :: "nat \<Rightarrow> (nat \<Rightarrow> string) \<Rightarrow> (string \<Rightarrow> string list) \<Rightarrow> nat \<Rightarrow> OrderLoop \<Rightarrow> js_error + OrderLoop" where
  "resolveStep n names deps i l =
     (let l = l\<lparr>ol_iterations := ol_iterations l + 1\<rparr>
      in if deps (names i) = []
         then Inr (l\<lparr>ol_executionOrder := ol_executionOrder l @ [i], ol_resolved := ol_resolved l @ [names i]\<rparr>)
         else
           let again = missingDependencies (ol_resolved l) (deps (names i));
               queue = ol_indexToResolve l @ map (\<lambda>d. i) again;
               reduction = (if length queue < ol_lastIndexLength l then ol_iterations l else ol_lastIndexReduction l)
           in if ol_iterations l > reduction + int n then Inl resolveError
              else Inr (l\<lparr>ol_executionOrder := ol_executionOrder l @ [i], ol_resolved := ol_resolved l @ [names i],
                ol_indexToResolve := queue, ol_lastIndexReduction := reduction, ol_lastIndexLength := length queue\<rparr>))"

text \<open>The loop, on the list of indexes still to resolve. Its measure: the names of listed properties that are not
  resolved; the listed properties without a missing dependency; whether the list is shorter than it was; and the turns left.\<close>

definition unresolvedNames :: "(nat \<Rightarrow> string) \<Rightarrow> OrderLoop \<Rightarrow> string set" where
  "unresolvedNames names l = names ` set (ol_indexToResolve l) - set (ol_resolved l)"

definition readyCount :: "(nat \<Rightarrow> string) \<Rightarrow> (string \<Rightarrow> string list) \<Rightarrow> OrderLoop \<Rightarrow> nat" where
  "readyCount names deps l =
     length (filter (\<lambda>i. missingDependencies (ol_resolved l) (deps (names i)) = []) (ol_indexToResolve l))"

definition shorter :: "OrderLoop \<Rightarrow> nat" where
  "shorter l = (if length (ol_indexToResolve l) < ol_lastIndexLength l then 1 else 0)"

definition turnsLeft :: "nat \<Rightarrow> OrderLoop \<Rightarrow> nat" where
  "turnsLeft n l = nat (ol_lastIndexReduction l + int n + 1 - ol_iterations l)"

lemma resolveStep_decreases:
  assumes step: "resolveStep n names deps i (l\<lparr>ol_indexToResolve := q\<rparr>) = Inr l'" and q: "ol_indexToResolve l = i # q"
  shows "(l', l) \<in> measures [\<lambda>l. card (unresolvedNames names l), readyCount names deps, shorter, turnsLeft n]"
proof -
  define again where "again = (if deps (names i) = [] then [] else missingDependencies (ol_resolved l) (deps (names i)))"
  have r: "ol_resolved l' = ol_resolved l @ [names i]" "ol_indexToResolve l' = q @ map (\<lambda>d. i) again"
    "ol_iterations l' = ol_iterations l + 1"
    using step by (auto simp: resolveStep_def Let_def again_def split: if_splits)
  show ?thesis
  proof (cases "names i \<in> set (ol_resolved l)")
    case False
    have "unresolvedNames names l' \<subseteq> unresolvedNames names l - {names i}"
      unfolding unresolvedNames_def r q by auto
    moreover have "names i \<in> unresolvedNames names l" using False by (simp add: unresolvedNames_def q)
    moreover have "finite (unresolvedNames names l)" by (simp add: unresolvedNames_def)
    ultimately have "card (unresolvedNames names l') < card (unresolvedNames names l)"
      by (intro psubset_card_mono) auto
    then show ?thesis by simp
  next
    case True
    then have same: "set (ol_resolved l') = set (ol_resolved l)" by (auto simp: r)
    then have m: "missingDependencies (ol_resolved l') ds = missingDependencies (ol_resolved l) ds" for ds
      by (simp add: missingDependencies_def)
    have "unresolvedNames names l' \<subseteq> unresolvedNames names l"
      unfolding unresolvedNames_def same r(2) q by auto
    then have c: "card (unresolvedNames names l') \<le> card (unresolvedNames names l)"
      by (intro card_mono) (simp_all add: unresolvedNames_def)
    show ?thesis
    proof (cases "missingDependencies (ol_resolved l) (deps (names i)) = []")
      case True
      then have "again = []" by (simp add: again_def)
      then have "readyCount names deps l' < readyCount names deps l"
        using True by (simp add: readyCount_def m r(2) q)
      with c show ?thesis by auto
    next
      case False
      then have a: "again \<noteq> []" "deps (names i) \<noteq> []" "again = missingDependencies (ol_resolved l) (deps (names i))"
        by (auto simp: again_def missingDependencies_def)
      have "filter (\<lambda>i. missingDependencies (ol_resolved l) (deps (names i)) = []) (map (\<lambda>d. i) again) = []"
        using False by (simp add: filter_empty_conv)
      then have rc: "readyCount names deps l' = readyCount names deps l"
        using False by (simp add: readyCount_def m r(2) q)
      have long: "length (ol_indexToResolve l') \<ge> length (ol_indexToResolve l)"
        using a(1) by (cases again) (simp_all add: r(2) q)
      define red where "red = (if length (ol_indexToResolve l') < ol_lastIndexLength l then ol_iterations l + 1 else ol_lastIndexReduction l)"
      have l': "ol_lastIndexLength l' = length (ol_indexToResolve l')" "ol_lastIndexReduction l' = red"
        "ol_iterations l + 1 \<le> red + int n"
        using step a(2) by (auto simp: resolveStep_def Let_def red_def r(2) a(3) [symmetric] split: if_splits)
      have "shorter l' = 0" by (simp add: shorter_def l'(1))
      moreover have "turnsLeft n l' < turnsLeft n l" if "shorter l = 0"
        using that long l' by (auto simp: shorter_def turnsLeft_def red_def r(3) split: if_splits)
      ultimately show ?thesis using c rc by (auto simp: shorter_def split: if_splits)
    qed
  qed
qed

function resolveLoop :: "nat \<Rightarrow> (nat \<Rightarrow> string) \<Rightarrow> (string \<Rightarrow> string list) \<Rightarrow> OrderLoop \<Rightarrow> js_error + nat list" where
  "resolveLoop n names deps l = (case ol_indexToResolve l of
     [] \<Rightarrow> Inr (ol_executionOrder l)
   | i # q \<Rightarrow> (case resolveStep n names deps i (l\<lparr>ol_indexToResolve := q\<rparr>) of
       Inl e \<Rightarrow> Inl e
     | Inr l \<Rightarrow> resolveLoop n names deps l))"
  by pat_completeness auto
termination
  by (relation "measures [\<lambda>(n, names, deps, l). card (unresolvedNames names l), \<lambda>(n, names, deps, l). readyCount names deps l,
      \<lambda>(n, names, deps, l). shorter l, \<lambda>(n, names, deps, l). turnsLeft n l]")
    (simp, drule (1) resolveStep_decreases [rotated], simp)

declare resolveLoop.simps [simp del]

definition getParameterResolveOrder :: "INodeProperties list \<Rightarrow> IParameterDependencies \<Rightarrow> js_error + nat list" where
  "getParameterResolveOrder props deps =
     resolveLoop (length props) (\<lambda>i. np_name (props ! i)) (list_get deps) \<lparr>ol_executionOrder = [],
       ol_indexToResolve = [0..<length props], ol_resolved = [], ol_lastIndexLength = length props,
       ol_lastIndexReduction = -1, ol_iterations = 0\<rparr>"

section \<open>What the order is\<close>

lemma resolveLoop_unfold:
  "resolveLoop n names deps l = Inr order \<Longrightarrow> (ol_indexToResolve l = [] \<and> order = ol_executionOrder l) \<or>
     (\<exists>i q l'. ol_indexToResolve l = i # q \<and> resolveStep n names deps i (l\<lparr>ol_indexToResolve := q\<rparr>) = Inr l' \<and>
       resolveLoop n names deps l' = Inr order)"
  by (subst (asm) resolveLoop.simps) (auto split: list.splits sum.splits)

lemma resolveLoop_invariant:
  assumes "\<And>l i q l'. I l \<Longrightarrow> ol_indexToResolve l = i # q \<Longrightarrow>
      resolveStep n names deps i (l\<lparr>ol_indexToResolve := q\<rparr>) = Inr l' \<Longrightarrow> I l'"
    and "I l" "resolveLoop n names deps l = Inr order"
  shows "\<exists>l'. I l' \<and> ol_indexToResolve l' = [] \<and> order = ol_executionOrder l'"
  using assms
proof (induction n names deps l rule: resolveLoop.induct)
  case (1 n names deps l)
  from resolveLoop_unfold [OF 1(4)] show ?case
  proof (elim disjE exE conjE)
    fix i q l'
    assume q: "ol_indexToResolve l = i # q" and s: "resolveStep n names deps i (l\<lparr>ol_indexToResolve := q\<rparr>) = Inr l'"
      and r: "resolveLoop n names deps l' = Inr order"
    show ?thesis by (rule 1(1) [OF q s 1(2) 1(2) [OF 1(3) q s] r])
  qed (use 1(3) in auto)
qed

lemma resolveLoop_total:
  assumes "\<And>l i q. I l \<Longrightarrow> ol_indexToResolve l = i # q \<Longrightarrow>
      \<exists>l'. resolveStep n names deps i (l\<lparr>ol_indexToResolve := q\<rparr>) = Inr l' \<and> I l'"
    and "I l"
  shows "\<exists>order. resolveLoop n names deps l = Inr order"
  using assms
proof (induction n names deps l rule: resolveLoop.induct)
  case (1 n names deps l)
  show ?case
  proof (cases "ol_indexToResolve l")
    case Nil
    then show ?thesis by (simp add: resolveLoop.simps [of n names deps l])
  next
    case (Cons i q)
    then obtain l' where s: "resolveStep n names deps i (l\<lparr>ol_indexToResolve := q\<rparr>) = Inr l'" and i: "I l'"
      using 1(2,3) by blast
    have "\<exists>order. resolveLoop n names deps l' = Inr order" by (rule 1(1) [OF Cons s 1(2) i])
    with Cons s show ?thesis by (simp add: resolveLoop.simps [of n names deps l])
  qed
qed

lemma resolveStep_Inr:
  assumes "resolveStep n names deps i (l\<lparr>ol_indexToResolve := q\<rparr>) = Inr l'"
  shows "ol_executionOrder l' = ol_executionOrder l @ [i]" "ol_resolved l' = ol_resolved l @ [names i]"
    "ol_indexToResolve l' = q @ map (\<lambda>d. i) (missingDependencies (ol_resolved l) (deps (names i)))"
  using assms by (auto simp: resolveStep_def Let_def missingDependencies_def split: if_splits)

text \<open>An index is settled when its last place in the order comes after all its dependencies.\<close>

definition settled :: "(nat \<Rightarrow> string) \<Rightarrow> (string \<Rightarrow> string list) \<Rightarrow> nat list \<Rightarrow> nat \<Rightarrow> bool" where
  "settled names deps order i \<longleftrightarrow> (\<exists>us vs. order = us @ i # vs \<and> i \<notin> set vs \<and>
     (\<forall>d \<in> set (deps (names i)). prefix ''/'' d \<or> d \<in> names ` set us))"

definition orderInvariant :: "nat \<Rightarrow> (nat \<Rightarrow> string) \<Rightarrow> (string \<Rightarrow> string list) \<Rightarrow> OrderLoop \<Rightarrow> bool" where
  "orderInvariant n names deps l \<longleftrightarrow> ol_resolved l = map names (ol_executionOrder l) \<and>
     set (ol_executionOrder l) \<union> set (ol_indexToResolve l) = {0..<n} \<and>
     (\<forall>i < n. i \<notin> set (ol_indexToResolve l) \<longrightarrow> settled names deps (ol_executionOrder l) i)"

lemma orderInvariant_step:
  assumes inv: "orderInvariant n names deps l" and q: "ol_indexToResolve l = i # q"
    and s: "resolveStep n names deps i (l\<lparr>ol_indexToResolve := q\<rparr>) = Inr l'"
  shows "orderInvariant n names deps l'"
proof -
  note r = resolveStep_Inr [OF s]
  have "settled names deps (ol_executionOrder l @ [i]) j" if j: "j < n" "j \<notin> set (ol_indexToResolve l')" for j
  proof (cases "j = i")
    case True
    with j(2) have "missingDependencies (ol_resolved l) (deps (names i)) = []"
      by (cases "missingDependencies (ol_resolved l) (deps (names i))") (auto simp: r(3))
    then have "\<forall>d \<in> set (deps (names i)). prefix ''/'' d \<or> d \<in> names ` set (ol_executionOrder l)"
      using inv by (auto simp: missingDependencies_def filter_empty_conv orderInvariant_def)
    then show ?thesis unfolding settled_def True by (intro exI [of _ "ol_executionOrder l"] exI [of _ "[]"]) simp
  next
    case False
    with j have "settled names deps (ol_executionOrder l) j" using inv by (auto simp: orderInvariant_def r(3) q)
    then obtain us vs where "ol_executionOrder l = us @ j # vs" "j \<notin> set vs"
      "\<forall>d \<in> set (deps (names j)). prefix ''/'' d \<or> d \<in> names ` set us" by (auto simp: settled_def)
    then show ?thesis using False unfolding settled_def by (intro exI [of _ us] exI [of _ "vs @ [i]"]) simp
  qed
  moreover have "set (ol_executionOrder l') \<union> set (ol_indexToResolve l') = {0..<n}"
    using inv by (auto simp: orderInvariant_def r q)
  ultimately show ?thesis using inv by (simp add: orderInvariant_def r)
qed

lemma resolveOrder_settled:
  assumes "getParameterResolveOrder props deps = Inr order"
  shows "set order = {0..<length props}" "i < length props \<Longrightarrow> settled (\<lambda>i. np_name (props ! i)) (list_get deps) order i"
proof -
  let ?I = "orderInvariant (length props) (\<lambda>i. np_name (props ! i)) (list_get deps)"
  have "\<exists>l'. ?I l' \<and> ol_indexToResolve l' = [] \<and> order = ol_executionOrder l'"
    using assms unfolding getParameterResolveOrder_def
    by (rule resolveLoop_invariant [rotated -1]) (erule (2) orderInvariant_step, simp add: orderInvariant_def)
  then show "set order = {0..<length props}" "i < length props \<Longrightarrow> settled (\<lambda>i. np_name (props ! i)) (list_get deps) order i"
    by (auto simp: orderInvariant_def)
qed

section \<open>When there is an order\<close>

text \<open>The turns of the first round take the indexes in their order; after it every name is resolved, and each turn
  shortens the list.\<close>

definition roundInvariant :: "nat \<Rightarrow> (nat \<Rightarrow> string) \<Rightarrow> OrderLoop \<Rightarrow> bool" where
  "roundInvariant n names l \<longleftrightarrow> (\<exists>k. ol_iterations l = int k \<and> set (ol_indexToResolve l) \<subseteq> {0..<n} \<and>
     -1 \<le> ol_lastIndexReduction l \<and> length (ol_indexToResolve l) \<le> ol_lastIndexLength l \<and>
     (if k < n then (\<exists>rest. ol_indexToResolve l = [k..<n] @ rest) \<and> set (ol_resolved l) = names ` {0..<k}
      else set (ol_resolved l) = names ` {0..<n}))"

lemma roundInvariant_step:
  assumes known: "\<And>i. i < n \<Longrightarrow> \<forall>d \<in> set (deps (names i)). prefix ''/'' d \<or> d \<in> names ` {0..<n} \<and> d \<noteq> names i"
    and inv: "roundInvariant n names l" and q: "ol_indexToResolve l = i # q"
  shows "\<exists>l'. resolveStep n names deps i (l\<lparr>ol_indexToResolve := q\<rparr>) = Inr l' \<and> roundInvariant n names l'"
proof -
  from inv obtain k where k: "ol_iterations l = int k" and sub: "set (ol_indexToResolve l) \<subseteq> {0..<n}"
    and red: "-1 \<le> ol_lastIndexReduction l" and len: "length (ol_indexToResolve l) \<le> ol_lastIndexLength l"
    and phase: "if k < n then (\<exists>rest. ol_indexToResolve l = [k..<n] @ rest) \<and> set (ol_resolved l) = names ` {0..<k}
      else set (ol_resolved l) = names ` {0..<n}"
    unfolding roundInvariant_def by blast
  have i: "i < n" using sub q by auto
  define again where "again = missingDependencies (ol_resolved l) (deps (names i))"
  have first: "i = k \<and> (\<exists>rest. q = [Suc k..<n] @ rest)" if "k < n"
    using phase that q by (auto simp: upt_conv_Cons)
  have resolved: "set (ol_resolved l @ [names i]) = names ` {0..<min (Suc k) n}"
  proof (cases "k < n")
    case True
    then show ?thesis using phase first by (auto simp: atLeast0_lessThan_Suc)
  next
    case False
    then show ?thesis using phase i by auto
  qed
  have none: "again = []" if "Suc k \<ge> n"
  proof -
    have "d \<in> set (ol_resolved l) \<or> prefix ''/'' d" if d: "d \<in> set (deps (names i))" for d
    proof (cases "k < n")
      case True
      with \<open>Suc k \<ge> n\<close> have n: "n = Suc k" by simp
      have "set (ol_resolved l) = names ` {0..<k}" "i = k" using phase first True by auto
      with known [OF i] d show ?thesis unfolding n atLeast0_lessThan_Suc by auto
    next
      case False
      then show ?thesis using phase known [OF i] d by auto
    qed
    then show ?thesis by (auto simp: again_def missingDependencies_def filter_empty_conv)
  qed
  have next_phase: "if Suc k < n then (\<exists>rest. q @ map (\<lambda>d. i) again = [Suc k..<n] @ rest) \<and> set (ol_resolved l @ [names i]) = names ` {0..<Suc k}
      else set (ol_resolved l @ [names i]) = names ` {0..<n}"
  proof (cases "Suc k < n")
    case True
    with first obtain rest where "q = [Suc k..<n] @ rest" by auto
    then have "q @ map (\<lambda>d. i) again = [Suc k..<n] @ (rest @ map (\<lambda>d. i) again)" by simp
    moreover have "min (Suc k) n = Suc k" using True by simp
    ultimately show ?thesis using True resolved by metis
  next
    case False
    then have "min (Suc k) n = n" by simp
    with False resolved show ?thesis by metis
  qed
  define l1 where "l1 = l\<lparr>ol_indexToResolve := q, ol_iterations := ol_iterations l + 1\<rparr>"
  show ?thesis
  proof (cases "deps (names i) = []")
    case True
    then have "again = []" by (simp add: again_def missingDependencies_def)
    from True have "resolveStep n names deps i (l\<lparr>ol_indexToResolve := q\<rparr>) =
        Inr (l1\<lparr>ol_executionOrder := ol_executionOrder l @ [i], ol_resolved := ol_resolved l @ [names i]\<rparr>)"
      by (simp add: resolveStep_def l1_def)
    moreover have "roundInvariant n names (l1\<lparr>ol_executionOrder := ol_executionOrder l @ [i], ol_resolved := ol_resolved l @ [names i]\<rparr>)"
      unfolding roundInvariant_def using k sub q red len next_phase \<open>again = []\<close>
      by (intro exI [of _ "Suc k"], cases "Suc k < n") (simp_all add: l1_def)
    ultimately show ?thesis by blast
  next
    case False
    define queue where "queue = q @ map (\<lambda>d. i) again"
    define r where "r = (if length queue < ol_lastIndexLength l then int k + 1 else ol_lastIndexReduction l)"
    have "int k + 1 \<le> r + int n"
    proof (cases "Suc k \<ge> n")
      case True
      with none have "length queue < ol_lastIndexLength l" using len q by (simp add: queue_def)
      then show ?thesis by (simp add: r_def)
    next
      case False
      then show ?thesis using red by (auto simp: r_def)
    qed
    then have "resolveStep n names deps i (l\<lparr>ol_indexToResolve := q\<rparr>) =
        Inr (l1\<lparr>ol_executionOrder := ol_executionOrder l @ [i], ol_resolved := ol_resolved l @ [names i],
          ol_indexToResolve := queue, ol_lastIndexReduction := r, ol_lastIndexLength := length queue\<rparr>)"
      using False by (auto simp: resolveStep_def Let_def l1_def k again_def queue_def r_def split: if_splits)
    moreover have "roundInvariant n names (l1\<lparr>ol_executionOrder := ol_executionOrder l @ [i], ol_resolved := ol_resolved l @ [names i],
          ol_indexToResolve := queue, ol_lastIndexReduction := r, ol_lastIndexLength := length queue\<rparr>)"
      unfolding roundInvariant_def using k sub q red next_phase i
      by (intro exI [of _ "Suc k"], cases "Suc k < n") (simp_all add: l1_def queue_def r_def image_constant_conv)
    ultimately show ?thesis by blast
  qed
qed

text \<open>C32: \<open>getParameterResolveOrder\<close> ends for every input. It fails when a property depends on a name that is none of the
  properties, and when none depends on itself only then. In the order every property occurs, and after the last
  occurrences of all it depends on: the first occurrence may come before, since a property with missing dependencies is not
  only put back but also resolved at once.\<close>

theorem getParameterResolveOrder_order:
  fixes props deps
  defines "names \<equiv> \<lambda>i. np_name (props ! i)"
  defines "known \<equiv> \<forall>i < length props. \<forall>d \<in> set (list_get deps (names i)). prefix ''/'' d \<or> d \<in> np_name ` set props"
  shows "(\<forall>order. getParameterResolveOrder props deps = Inr order \<longrightarrow> known \<and> set order = {0..<length props} \<and>
      (\<forall>i < length props. settled names (list_get deps) order i)) \<and>
    (known \<longrightarrow> (\<forall>i < length props. names i \<notin> set (list_get deps (names i))) \<longrightarrow>
      (\<exists>order. getParameterResolveOrder props deps = Inr order))"
proof (intro conjI impI allI)
  have range: "np_name ` set props = names ` {0..<length props}"
    unfolding names_def by (simp flip: nth_image [OF order_refl, of props, simplified] add: image_image)
  fix order assume o: "getParameterResolveOrder props deps = Inr order"
  show s: "set order = {0..<length props}" using resolveOrder_settled(1) [OF o] by (simp add: names_def)
  show t: "settled names (list_get deps) order i" if "i < length props" for i
    using resolveOrder_settled(2) [OF o] that by (simp add: names_def)
  show known
    unfolding known_def
  proof (intro allI impI ballI)
    fix i d assume i: "i < length props" "d \<in> set (list_get deps (names i))"
    from t [OF i(1)] obtain us vs where u: "order = us @ i # vs" "prefix ''/'' d \<or> d \<in> names ` set us"
      using i(2) by (auto simp: settled_def)
    moreover have "set us \<subseteq> {0..<length props}" using s u(1) by auto
    ultimately show "prefix ''/'' d \<or> d \<in> np_name ` set props" unfolding range by blast
  qed
next
  assume k: known and self: "\<forall>i < length props. names i \<notin> set (list_get deps (names i))"
  have range: "np_name ` set props = names ` {0..<length props}"
    unfolding names_def by (simp flip: nth_image [OF order_refl, of props, simplified] add: image_image)
  show "\<exists>order. getParameterResolveOrder props deps = Inr order"
    unfolding getParameterResolveOrder_def names_def [symmetric]
  proof (rule resolveLoop_total)
    fix l i q
    assume "roundInvariant (length props) names l" "ol_indexToResolve l = i # q"
    then show "\<exists>l'. resolveStep (length props) names (list_get deps) i (l\<lparr>ol_indexToResolve := q\<rparr>) = Inr l' \<and>
        roundInvariant (length props) names l'"
      using k self by (intro roundInvariant_step) (auto simp: known_def range)
  qed (simp add: roundInvariant_def)
qed

text \<open>Two properties that depend on each other: the first is resolved before the second, and again after it.\<close>

definition flag :: "string \<Rightarrow> IDisplayOptions option \<Rightarrow> INodeProperties" where
  "flag nm options = NodeProperty nm BooleanType (JBool False) options None [] []"

definition showWhen :: "string \<Rightarrow> json \<Rightarrow> IDisplayOptions option" where
  "showWhen nm v = Some [(''show'', [(nm, [PlainValue (Some v)])])]"

definition mutualFlags :: "INodeProperties list" where
  "mutualFlags = [flag ''a'' (showWhen ''b'' (JBool True)), flag ''b'' (showWhen ''a'' (JBool True))]"

lemma getParameterResolveOrder_order_witness:
  "getParameterResolveOrder mutualFlags (getParameterDependencies mutualFlags) = Inr [0, 1, 0] \<and>
   settled (\<lambda>i. np_name (mutualFlags ! i)) (list_get (getParameterDependencies mutualFlags)) [0, 1, 0] 0 \<and>
   (\<exists>e. getParameterResolveOrder [flag ''a'' (showWhen ''c'' JNull)] (getParameterDependencies [flag ''a'' (showWhen ''c'' JNull)]) = Inl e)"
proof -
  have o: "getParameterResolveOrder mutualFlags (getParameterDependencies mutualFlags) = Inr [0, 1, 0]"
    by (simp add: mutualFlags_def flag_def showWhen_def getParameterDependencies_def propertyDependencies_def addDependency_def
      getParameterResolveOrder_def resolveLoop.simps resolveStep_def missingDependencies_def list_get_def Let_def)
  have e: "\<exists>e. getParameterResolveOrder [flag ''a'' (showWhen ''c'' JNull)] (getParameterDependencies [flag ''a'' (showWhen ''c'' JNull)]) = Inl e"
    by (simp add: flag_def showWhen_def getParameterDependencies_def propertyDependencies_def addDependency_def
      getParameterResolveOrder_def resolveLoop.simps resolveStep_def missingDependencies_def list_get_def Let_def)
  have "0 < length mutualFlags" by (simp add: mutualFlags_def)
  with getParameterResolveOrder_order [THEN conjunct1, rule_format, OF o] have
    "settled (\<lambda>i. np_name (mutualFlags ! i)) (list_get (getParameterDependencies mutualFlags)) [0, 1, 0] 0" by blast
  with o e show ?thesis by blast
qed

end
