(* ===== verification/NodeParameters.thy ===== *)
theory NodeParameters
  imports ResolveOrder
begin

text \<open>
  The values of the parameters of a node, with or without the default ones: \<open>getNodeParameters\<close> of
  \<^verbatim>\<open>packages/workflow/src/node-helpers.ts\<close>. Values are copied by \<open>deepCopy\<close>, which is the identity here. The object that
  decides what is displayed is the growing \<open>nodeParametersFull\<close> when the data is resolved (\<open>None\<close>), and otherwise the
  result of a first pass. The nesting of properties bounds the recursion.
\<close>

section \<open>The state of a pass\<close>

record ParameterContext =
  pc_lib :: NodeLib
  pc_returnDefaults :: bool
  pc_returnNoneDisplayed :: bool
  pc_node :: "int option"
  pc_nodeType :: "INodeTypeDescription option"

record ParameterPass =
  pp_onlySimpleTypes :: bool
  pp_displayCheck :: "json option"
  pp_valuesRoot :: "json option"
  pp_parentType :: "NodePropertyTypes option"
  pp_duplicates :: "string list"

text \<open>\<open>nodeParameters\<close> and \<open>nodeParametersFull\<close>; a pass may also return early.\<close>

type_synonym ParameterState = "(string \<times> json) list \<times> (string \<times> json) list"

datatype PassResult = Continue ParameterState | Return json

type_synonym SubParameters = "INodeProperties list \<Rightarrow> json option \<Rightarrow> json option \<Rightarrow> NodePropertyTypes \<Rightarrow> js_error + json"

definition setBoth :: "string \<Rightarrow> json \<Rightarrow> ParameterState \<Rightarrow> ParameterState" where
  "setBoth nm v st = (AList.update nm v (fst st), AList.update nm v (snd st))"

text \<open>\<open>nodeValues[name]\<close>\<close>

definition valueAt :: "json option \<Rightarrow> string \<Rightarrow> json option" where
  "valueAt nodeValues nm = (case nodeValues of None \<Rightarrow> None | Some v \<Rightarrow> js_get v nm)"

definition truthyOpt :: "json option \<Rightarrow> bool" where
  "truthyOpt v = (case v of None \<Rightarrow> False | Some w \<Rightarrow> truthy w)"

definition displayCheck :: "ParameterPass \<Rightarrow> ParameterState \<Rightarrow> json option" where
  "displayCheck pass st = Some (case pp_displayCheck pass of None \<Rightarrow> JObj (snd st) | Some v \<Rightarrow> v)"

definition valuesRoot :: "ParameterPass \<Rightarrow> ParameterState \<Rightarrow> json option" where
  "valuesRoot pass st = (if truthyOpt (pp_valuesRoot pass) then pp_valuesRoot pass else displayCheck pass st)"

definition isDisplayed :: "ParameterContext \<Rightarrow> ParameterPass \<Rightarrow> INodeProperties \<Rightarrow> ParameterState \<Rightarrow> js_error + bool" where
  "isDisplayed ctx pass p st = displayParameter (pc_lib ctx) (displayCheck pass st) (np_displayOptions p)
     (pc_node ctx) (pc_nodeType ctx) (valuesRoot pass st)"

section \<open>Simple properties\<close>

text \<open>\<open>{ __rl: true, ...default }\<close>\<close>

fun objectEntries :: "json \<Rightarrow> (string \<times> json) list" where
  "objectEntries (JArr vs) = zip (map nat_str [0..<length vs]) vs"
| "objectEntries (JObj ps) = ps"
| "objectEntries _ = []"

definition locatorDefault :: "json \<Rightarrow> json" where
  "locatorDefault d = JObj (fold (\<lambda>(k, v). AList.update k v) (objectEntries d) [(''__rl'', JBool True)])"

definition defaultedValue :: "INodeProperties \<Rightarrow> json option \<Rightarrow> json" where
  "defaultedValue p v =
     (if np_type p \<in> {BooleanType, NumberType, OptionsType} then (case v of Some x \<Rightarrow> x | None \<Rightarrow> np_default p)
      else if np_type p = ResourceLocatorType \<and> js_typeof (np_default p) = TyObject
      then (case v of Some x \<Rightarrow> x | None \<Rightarrow> locatorDefault (np_default p))
      else (case v of None \<Rightarrow> np_default p | Some JNull \<Rightarrow> np_default p | Some x \<Rightarrow> x))"

definition differsFromDefault :: "NodeLib \<Rightarrow> INodeProperties \<Rightarrow> json \<Rightarrow> bool" where
  "differsFromDefault lib p v \<longleftrightarrow> js_typeof v \<noteq> TyObject \<and> v \<noteq> np_default p \<or>
     js_typeof v = TyObject \<and> \<not> lib_isEqual lib (Some v) (Some (np_default p))"

definition simpleProperty :: "ParameterContext \<Rightarrow> ParameterPass \<Rightarrow> INodeProperties \<Rightarrow> json option \<Rightarrow> ParameterState \<Rightarrow> js_error + PassResult" where
  "simpleProperty ctx pass p v st =
     rbind (if np_name p \<in> set (pp_duplicates pass) then isDisplayed ctx pass p st else Inr True) (\<lambda>shown.
       Inr (Continue (if \<not> shown then st
         else if pc_returnDefaults ctx then setBoth (np_name p) (defaultedValue p v) st
         else case v of
           None \<Rightarrow> st
         | Some x \<Rightarrow> if differsFromDefault (pc_lib ctx) p x \<or> pp_parentType pass = Some CollectionType
             then setBoth (np_name p) x st else st)))"

section \<open>Collections\<close>

definition collectionProperty :: "SubParameters \<Rightarrow> ParameterContext \<Rightarrow> ParameterPass \<Rightarrow> INodeProperties \<Rightarrow> json option \<Rightarrow>
    ParameterState \<Rightarrow> js_error + PassResult" where
  "collectionProperty sub ctx pass p v st =
     (if np_multipleValues p = Some True then
        Inr (Continue (case v of
          Some x \<Rightarrow> setBoth (np_name p) x st
        | None \<Rightarrow> if pc_returnDefaults ctx
            then setBoth (np_name p) (case np_default p of JArr ds \<Rightarrow> JArr ds | _ \<Rightarrow> JArr []) st else st))
      else (case v of
          Some x \<Rightarrow> rbind (sub (np_options p) (Some x) (valuesRoot pass st) CollectionType) (\<lambda>r.
            Inr (Continue (setBoth (np_name p) r st)))
        | None \<Rightarrow> Inr (Continue (if pc_returnDefaults ctx then setBoth (np_name p) (np_default p) st else st))))"

text \<open>\<open>for (const nodeValue of values)\<close>\<close>

fun iterated :: "json option \<Rightarrow> js_error + json list" where
  "iterated (Some (JArr vs)) = Inr vs"
| "iterated (Some (JStr s)) = Inr (map (\<lambda>c. JStr [c]) s)"
| "iterated _ = Inl TypeError"

text \<open>An item of a fixed collection with several values.\<close>

definition multipleItem :: "SubParameters \<Rightarrow> INodeProperties \<Rightarrow> json option \<Rightarrow> string \<Rightarrow> json option \<Rightarrow> js_error + json" where
  "multipleItem sub p root itemName value =
     rbind (iterated value) (\<lambda>vs.
       rbind (rfold (\<lambda>nodeValue tempArrayValue.
         case map_of (np_collections p) itemName of
           None \<Rightarrow> Inl (ApplicationError ''Could not find property option'')
         | Some values \<Rightarrow> rbind (sub values (Some nodeValue) root FixedCollectionType) (\<lambda>r. Inr (tempArrayValue @ [r])))
         vs []) (\<lambda>rs. Inr (JArr rs)))"

text \<open>\<open>nodeValues[name][itemName]\<close>, where the first value may be missing.\<close>

definition itemValues :: "json option \<Rightarrow> string \<Rightarrow> js_error + json option" where
  "itemValues v itemName = (case v of None \<Rightarrow> Inl TypeError | Some JNull \<Rightarrow> Inl TypeError | Some w \<Rightarrow> Inr (js_get w itemName))"

definition hasNonDefaultValues :: "NodeLib \<Rightarrow> INodeProperties list \<Rightarrow> json option \<Rightarrow> bool" where
  "hasNonDefaultValues lib values itemNodeValues = (case itemNodeValues of
     None \<Rightarrow> False
   | Some w \<Rightarrow> truthy w \<and> list_ex (\<lambda>key. case List.find (\<lambda>f. np_name f = key) values of
         None \<Rightarrow> False
       | Some field \<Rightarrow> \<not> lib_isEqual lib (js_get w key) (Some (np_default field))) (objectKeys w))"

text \<open>An item of a fixed collection with one value: its parameters, and whether a field of it is visible.\<close>

definition singleItem :: "SubParameters \<Rightarrow> NodeLib \<Rightarrow> INodeProperties \<Rightarrow> json option \<Rightarrow> json option \<Rightarrow> string \<Rightarrow>
    js_error + (string \<times> json) list \<times> bool" where
  "singleItem sub lib p v root itemName = (case map_of (np_collections p) itemName of
     None \<Rightarrow> Inr ([], False)
   | Some values \<Rightarrow> rbind (itemValues v itemName) (\<lambda>itemNodeValues.
       rbind (sub values itemNodeValues root FixedCollectionType) (\<lambda>tempValue.
         Inr (objectEntries tempValue, objectKeys tempValue \<noteq> [] \<or> \<not> hasNonDefaultValues lib values itemNodeValues))))"

definition itemStep :: "SubParameters \<Rightarrow> ParameterContext \<Rightarrow> INodeProperties \<Rightarrow> json option \<Rightarrow> json option \<Rightarrow> json option \<Rightarrow> string \<Rightarrow>
    (string \<times> json) list \<times> bool \<Rightarrow> js_error + (string \<times> json) list \<times> bool" where
  "itemStep sub ctx p v propertyValues root itemName acc = (case acc of (collectionValues, hadAny) \<Rightarrow>
     if np_multipleValues p = Some True then
       (case propertyValues of
          Some (JObj ps) \<Rightarrow> rbind (multipleItem sub p root itemName (map_of ps itemName)) (\<lambda>r.
            Inr (AList.update itemName r collectionValues, hadAny))
        | _ \<Rightarrow> Inr (collectionValues, hadAny))
     else rbind (singleItem sub (pc_lib ctx) p v root itemName) (\<lambda>(temp, hadVisible).
       Inr (if temp \<noteq> [] then AList.update itemName (JObj temp) collectionValues
            else if \<not> pc_returnDefaults ctx \<and> hadVisible \<and> truthyOpt propertyValues \<and> valueAt propertyValues itemName \<noteq> None
            then AList.update itemName (JObj []) collectionValues
            else collectionValues, hadAny \<or> hadVisible)))"

definition fixedCollectionProperty :: "SubParameters \<Rightarrow> ParameterContext \<Rightarrow> ParameterPass \<Rightarrow> INodeProperties \<Rightarrow> json option \<Rightarrow> json option \<Rightarrow>
    ParameterState \<Rightarrow> js_error + PassResult" where
  "fixedCollectionProperty sub ctx pass p nodeValues v st =
     (let propertyValues = (if pc_returnDefaults ctx \<and> v = None then Some (np_default p) else v);
          keys = (case propertyValues of None \<Rightarrow> [] | Some w \<Rightarrow> if truthy w then objectKeys w else [])
      in if \<not> pc_returnDefaults ctx \<and> np_multipleValues p = Some False \<and> truthyOpt propertyValues \<and> keys = []
         then Inr (Return (case nodeValues of None \<Rightarrow> JNull | Some w \<Rightarrow> w))
         else rbind (rfold (itemStep sub ctx p v propertyValues (valuesRoot pass st)) keys ([], False))
           (\<lambda>(collectionValues, hadAny).
              let st = (if \<not> pc_returnDefaults ctx \<and> hadAny \<and> np_multipleValues p = Some False \<and> collectionValues = [] \<and>
                           (case propertyValues of Some (JObj ps) \<Rightarrow> True | _ \<Rightarrow> False) \<and> keys \<noteq> []
                        then (AList.update (np_name p) (JObj (map (\<lambda>k. (k, JObj [])) keys)) (fst st), snd st) else st)
              in Inr (Continue (if collectionValues \<noteq> [] \<or> pc_returnDefaults ctx
                then setBoth (np_name p) (JObj collectionValues) st else st))))"

section \<open>A pass over the properties\<close>

text \<open>The body of the loop. The test \<open>!returnNoneDisplayed || !returnDefaults\<close> after a property that is not displayed is
  always true there.\<close>

definition propertyStep :: "SubParameters \<Rightarrow> ParameterContext \<Rightarrow> ParameterPass \<Rightarrow> json option \<Rightarrow> INodeProperties \<Rightarrow>
    ParameterState \<Rightarrow> js_error + PassResult" where
  "propertyStep sub ctx pass nodeValues p st =
     (let v = valueAt nodeValues (np_name p)
      in if \<not> truthyOpt nodeValues \<or> v = None \<and> (\<not> pc_returnDefaults ctx \<or> pp_parentType pass = Some CollectionType)
         then Inr (Continue st)
         else rbind (if pc_returnNoneDisplayed ctx then Inr True else isDisplayed ctx pass p st) (\<lambda>shown.
           if \<not> shown then Inr (Continue st)
           else if np_type p \<noteq> CollectionType \<and> np_type p \<noteq> FixedCollectionType then simpleProperty ctx pass p v st
           else if pp_onlySimpleTypes pass then Inr (Continue st)
           else if np_type p = CollectionType then collectionProperty sub ctx pass p v st
           else fixedCollectionProperty sub ctx pass p nodeValues v st))"

fun propertyLoop :: "(INodeProperties \<Rightarrow> ParameterState \<Rightarrow> js_error + PassResult) \<Rightarrow> INodeProperties list \<Rightarrow> ParameterState \<Rightarrow>
    js_error + json" where
  "propertyLoop step [] st = Inr (JObj (fst st))"
| "propertyLoop step (p # ps) st = rbind (step p st) (\<lambda>r.
     case r of Return v \<Rightarrow> Inr v | Continue st \<Rightarrow> propertyLoop step ps st)"

text \<open>The names that occur more than once.\<close>

definition duplicateNames :: "INodeProperties list \<Rightarrow> string list" where
  "duplicateNames props = fst (fold (\<lambda>p (dups, names).
     if np_name p \<in> set names then (set_add (np_name p) dups, names) else (dups, names @ [np_name p])) props ([], []))"

definition parameterPass :: "SubParameters \<Rightarrow> ParameterContext \<Rightarrow> ParameterPass \<Rightarrow> INodeProperties list \<Rightarrow> nat list \<Rightarrow> json option \<Rightarrow>
    js_error + json" where
  "parameterPass sub ctx pass props order nodeValues =
     propertyLoop (propertyStep sub ctx pass nodeValues) (map (\<lambda>i. props ! i) order) ([], [])"

text \<open>One level: for data that is not resolved and parameters that may be hidden, a first pass over the simple
  properties with all defaults decides what is displayed.\<close>

definition parametersLevel :: "SubParameters \<Rightarrow> ParameterContext \<Rightarrow> INodeProperties list \<Rightarrow> json option \<Rightarrow> bool \<Rightarrow> bool \<Rightarrow> json option \<Rightarrow>
    NodePropertyTypes option \<Rightarrow> js_error + json" where
  "parametersLevel sub ctx props nodeValues onlySimple resolved root parent =
     rbind (getParameterResolveOrder props (getParameterDependencies props)) (\<lambda>order.
       let pass = \<lparr>pp_onlySimpleTypes = onlySimple, pp_displayCheck = None, pp_valuesRoot = root, pp_parentType = parent,
             pp_duplicates = duplicateNames props\<rparr>
       in if resolved \<or> pc_returnNoneDisplayed ctx then parameterPass sub ctx pass props order nodeValues
          else rbind (parameterPass sub (ctx\<lparr>pc_returnDefaults := True, pc_returnNoneDisplayed := True\<rparr>)
              (pass\<lparr>pp_onlySimpleTypes := True\<rparr>) props order nodeValues) (\<lambda>check.
            parameterPass sub ctx (pass\<lparr>pp_displayCheck := Some check\<rparr>) props order nodeValues))"

text \<open>The nesting of collections.\<close>

fun propertyDepth :: "INodeProperties \<Rightarrow> nat" where
  "propertyDepth (NodeProperty nm t d options mult opts colls) =
     Suc (max (fold max (map propertyDepth opts) 0) (fold max (map (\<lambda>c. fold max (map propertyDepth (snd c)) 0) colls) 0))"

primrec parametersAt :: "nat \<Rightarrow> ParameterContext \<Rightarrow> INodeProperties list \<Rightarrow> json option \<Rightarrow> bool \<Rightarrow> bool \<Rightarrow> json option \<Rightarrow>
    NodePropertyTypes option \<Rightarrow> js_error + json" where
  "parametersAt 0 ctx props nodeValues onlySimple resolved root parent =
     parametersLevel (\<lambda>_ _ _ _. Inl TypeError) ctx props nodeValues onlySimple resolved root parent"
| "parametersAt (Suc n) ctx props nodeValues onlySimple resolved root parent =
     parametersLevel (\<lambda>props' values root' parent'. parametersAt n ctx props' values False False root' (Some parent'))
       ctx props nodeValues onlySimple resolved root parent"

definition getNodeParameters :: "ParameterContext \<Rightarrow> INodeProperties list \<Rightarrow> json option \<Rightarrow> bool \<Rightarrow> bool \<Rightarrow> json option \<Rightarrow>
    NodePropertyTypes option \<Rightarrow> js_error + json" where
  "getNodeParameters ctx props nodeValues onlySimple resolved root parent =
     parametersAt (fold max (map propertyDepth props) 0) ctx props nodeValues onlySimple resolved root parent"

end
