(* ===== verification/ParameterProps.thy ===== *)
theory ParameterProps
  imports NodeParameters
begin

text \<open>
  What \<open>getNodeParameters\<close> returns: it ends for every nesting of properties, its result has only the names of properties,
  and leaving out the default values and putting them back gives the same values.
\<close>

section \<open>The bound on the recursion\<close>

text \<open>The properties below a property.\<close>

definition subProperties :: "INodeProperties \<Rightarrow> INodeProperties list set" where
  "subProperties p = insert (np_options p) (snd ` set (np_collections p))"

lemma sub_agree_collection:
  assumes "\<And>ps. ps \<in> subProperties p \<Longrightarrow> sub ps = sub' ps"
  shows "collectionProperty sub ctx pass p v st = collectionProperty sub' ctx pass p v st"
  using assms [of "np_options p"] by (cases v) (simp_all add: collectionProperty_def subProperties_def)

lemma sub_agree_item:
  assumes "\<And>ps. ps \<in> subProperties p \<Longrightarrow> sub ps = sub' ps"
  shows "itemStep sub ctx p v pv root itemName acc = itemStep sub' ctx p v pv root itemName acc"
proof (cases "map_of (np_collections p) itemName")
  case None
  show ?thesis unfolding itemStep_def multipleItem_def singleItem_def None option.case ..
next
  case (Some ps)
  have "(itemName, ps) \<in> set (np_collections p)" using Some by (rule map_of_SomeD)
  then have "ps \<in> snd ` set (np_collections p)" by (rule rev_image_eqI) simp
  then have "ps \<in> subProperties p" unfolding subProperties_def by (rule insertI2)
  then have "sub ps = sub' ps" by (rule assms)
  then show ?thesis unfolding itemStep_def multipleItem_def singleItem_def Some option.case by (rule ssubst) (rule refl)
qed

lemma sub_agree_step:
  assumes "\<And>ps. ps \<in> subProperties p \<Longrightarrow> sub ps = sub' ps"
  shows "propertyStep sub ctx pass nodeValues p st = propertyStep sub' ctx pass nodeValues p st"
proof -
  have "itemStep sub ctx p v pv root = itemStep sub' ctx p v pv root" for v pv root
    using sub_agree_item [OF assms] by (intro ext)
  then have f: "fixedCollectionProperty sub ctx pass p nv v st = fixedCollectionProperty sub' ctx pass p nv v st" for nv v
    by (simp only: fixedCollectionProperty_def)
  have c: "collectionProperty sub ctx pass p v st = collectionProperty sub' ctx pass p v st" for v
    using assms by (rule sub_agree_collection)
  show ?thesis unfolding propertyStep_def f c ..
qed

lemma propertyLoop_cong:
  "(\<And>p st. p \<in> set ps \<Longrightarrow> f p st = g p st) \<Longrightarrow> propertyLoop f ps st = propertyLoop g ps st"
proof (induction ps arbitrary: st)
  case (Cons p ps)
  have "propertyLoop f ps = propertyLoop g ps" by (intro ext Cons) simp
  with Cons.prems [of p] show ?case by simp
qed simp

lemma sub_agree_level:
  assumes "\<And>p ps. p \<in> set props \<Longrightarrow> ps \<in> subProperties p \<Longrightarrow> sub ps = sub' ps"
  shows "parametersLevel sub ctx props nv os res root parent = parametersLevel sub' ctx props nv os res root parent"
proof (cases "getParameterResolveOrder props (getParameterDependencies props)")
  case (Inr order)
  then have "set (map (\<lambda>i. props ! i) order) \<subseteq> set props" using resolveOrder_settled(1) by auto
  then have "parameterPass sub c pass props order nv = parameterPass sub' c pass props order nv" for c pass
    unfolding parameterPass_def by (intro propertyLoop_cong sub_agree_step assms) auto
  then show ?thesis by (simp add: parametersLevel_def Inr Let_def)
qed (simp add: parametersLevel_def)

abbreviation propertiesDepth :: "INodeProperties list \<Rightarrow> nat" where
  "propertiesDepth ps \<equiv> fold max (map propertyDepth ps) 0"

lemma fold_max_le: "fold max xs (a :: nat) \<le> n \<longleftrightarrow> a \<le> n \<and> (\<forall>x \<in> set xs. x \<le> n)"
  by (induction xs arbitrary: a) auto

lemma le_fold_max: "x \<in> set xs \<Longrightarrow> (x :: nat) \<le> fold max xs 0"
  using fold_max_le [of xs 0 "fold max xs 0"] by simp

lemma subProperties_depth:
  assumes "ps \<in> subProperties p"
  shows "propertiesDepth ps < propertyDepth p"
proof (cases p)
  case (NodeProperty nm t d options mult opts colls)
  consider "ps = opts" | c where "c \<in> set colls" "ps = snd c"
    using assms by (auto simp: NodeProperty subProperties_def)
  then show ?thesis
  proof cases
    case 2
    then have "propertiesDepth ps \<in> set (map (\<lambda>c. propertiesDepth (snd c)) colls)" by auto
    then have "propertiesDepth ps \<le> fold max (map (\<lambda>c. propertiesDepth (snd c)) colls) 0" by (rule le_fold_max)
    then show ?thesis unfolding NodeProperty propertyDepth.simps by simp
  qed (simp add: NodeProperty)
qed

lemma propertiesDepth_0: "propertiesDepth props \<le> 0 \<Longrightarrow> props = []"
proof (cases props)
  case (Cons p ps)
  have "0 < propertyDepth p" by (cases p) simp
  moreover have "propertyDepth p \<le> propertiesDepth props" by (rule le_fold_max) (simp add: Cons)
  ultimately show "propertiesDepth props \<le> 0 \<Longrightarrow> props = []" by simp
qed simp

lemma parametersAt_enough:
  assumes "propertiesDepth props \<le> m" "propertiesDepth props \<le> n"
  shows "parametersAt m ctx props nv os res root parent = parametersAt n ctx props nv os res root parent"
  using assms
proof (induction m arbitrary: n props nv os res root parent)
  case 0
  then have "props = []" using propertiesDepth_0 by blast
  then show ?case by (cases n) (auto intro!: sub_agree_level)
next
  case (Suc m)
  show ?case
  proof (cases n)
    case 0
    with Suc.prems have "props = []" using propertiesDepth_0 by blast
    then show ?thesis by (auto simp: 0 intro!: sub_agree_level)
  next
    case (Suc k)
    have "parametersAt m ctx ps v False False r q = parametersAt k ctx ps v False False r q"
      if "p \<in> set props" "ps \<in> subProperties p" for p ps v r q
    proof -
      have "propertyDepth p \<in> set (map propertyDepth props)" using that(1) by simp
      then have "propertyDepth p \<le> propertiesDepth props" by (rule le_fold_max)
      then have "propertiesDepth ps \<le> m" "propertiesDepth ps \<le> k"
        using subProperties_depth [OF that(2)] Suc.prems Suc by simp_all
      then show ?thesis by (rule Suc.IH)
    qed
    then show ?thesis unfolding Suc parametersAt.simps by (intro sub_agree_level ext)
  qed
qed

text \<open>The recursion into collections and fixed collections ends: the result for a level is that of one pass over its
  properties whose calls for the levels below are those of \<open>getNodeParameters\<close> itself.\<close>

lemma getNodeParameters_level:
  "getNodeParameters ctx props nodeValues onlySimple resolved root parent =
     parametersLevel (\<lambda>props' values root' parent'. getNodeParameters ctx props' values False False root' (Some parent'))
       ctx props nodeValues onlySimple resolved root parent"
proof -
  let ?n = "propertiesDepth props"
  have "getNodeParameters ctx props nodeValues onlySimple resolved root parent =
      parametersAt (Suc ?n) ctx props nodeValues onlySimple resolved root parent"
    unfolding getNodeParameters_def by (rule parametersAt_enough) simp_all
  also have "\<dots> = parametersLevel (\<lambda>props' values root' parent'. getNodeParameters ctx props' values False False root' (Some parent'))
       ctx props nodeValues onlySimple resolved root parent"
    unfolding parametersAt.simps
  proof (intro sub_agree_level ext)
    fix p ps v r q
    assume p: "p \<in> set props" "ps \<in> subProperties p"
    then have "propertyDepth p \<in> set (map propertyDepth props)" by simp
    then have "propertyDepth p \<le> ?n" by (rule le_fold_max)
    then show "parametersAt ?n ctx ps v False False r (Some q) = getNodeParameters ctx ps v False False r (Some q)"
      unfolding getNodeParameters_def using subProperties_depth [OF p(2)] by (intro parametersAt_enough) simp_all
  qed
  finally show ?thesis .
qed

section \<open>The names of the result\<close>

definition extendsBy :: "string \<Rightarrow> (string \<times> json) list \<Rightarrow> (string \<times> json) list \<Rightarrow> bool" where
  "extendsBy nm m m' \<longleftrightarrow> (distinct_keys m \<longrightarrow> distinct_keys m') \<and> fst ` set m' \<subseteq> insert nm (fst ` set m)"

lemma extendsBy_refl [simp]: "extendsBy nm m m"
  by (auto simp: extendsBy_def)

lemma extendsBy_update: "extendsBy nm m m' \<Longrightarrow> extendsBy nm m (AList.update nm v m')"
  unfolding extendsBy_def by (auto simp: distinct_update dom_update)

lemma extendsBy_setBoth [simp]: "extendsBy nm m (fst st) \<Longrightarrow> extendsBy nm m (fst (setBoth nm v st))"
  by (simp add: setBoth_def extendsBy_update)

fun extendsResult :: "string \<Rightarrow> ParameterState \<Rightarrow> PassResult \<Rightarrow> bool" where
  "extendsResult nm st (Continue st') = extendsBy nm (fst st) (fst st')"
| "extendsResult nm st (Return v) = False"

lemmas bind_cases = rbind_eq_Inr [THEN iffD1, THEN exE]

lemma simpleProperty_Inr:
  "simpleProperty ctx pass p v st = Inr r \<Longrightarrow> extendsResult (np_name p) st r"
  unfolding simpleProperty_def by (erule bind_cases) (auto split: option.splits)

lemma collectionProperty_Inr:
  assumes "collectionProperty sub ctx pass p v st = Inr r"
  shows "extendsResult (np_name p) st r"
proof (cases "np_multipleValues p = Some True")
  case True
  with assms show ?thesis by (auto simp: collectionProperty_def split: option.splits)
next
  case False
  with assms show ?thesis by (cases v) (auto simp: collectionProperty_def rbind_eq_Inr)
qed

lemma fixedCollectionProperty_Inr:
  assumes "fixedCollectionProperty sub ctx pass p nodeValues v st = Inr r"
  shows "extendsResult (np_name p) st r \<or>
    (\<not> pc_returnDefaults ctx \<and> np_multipleValues p = Some False \<and> truthyOpt v \<and> objectKeys (the v) = [] \<and>
     r = Return (case nodeValues of None \<Rightarrow> JNull | Some w \<Rightarrow> w))"
proof -
  define pv where "pv = (if pc_returnDefaults ctx \<and> v = None then Some (np_default p) else v)"
  define keys where "keys = (case pv of None \<Rightarrow> [] | Some w \<Rightarrow> if truthy w then objectKeys w else [])"
  show ?thesis
  proof (cases "\<not> pc_returnDefaults ctx \<and> np_multipleValues p = Some False \<and> truthyOpt pv \<and> keys = []")
    case True
    then have "r = Return (case nodeValues of None \<Rightarrow> JNull | Some w \<Rightarrow> w)"
      using assms unfolding fixedCollectionProperty_def Let_def pv_def [symmetric] keys_def [symmetric] by simp
    with True show ?thesis by (auto simp: pv_def keys_def truthyOpt_def split: option.splits)
  next
    case False
    then have "rbind (rfold (itemStep sub ctx p v pv (valuesRoot pass st)) keys ([], False))
           (\<lambda>(collectionValues, hadAny).
              let st = (if \<not> pc_returnDefaults ctx \<and> hadAny \<and> np_multipleValues p = Some False \<and> collectionValues = [] \<and>
                           (case pv of Some (JObj ps) \<Rightarrow> True | _ \<Rightarrow> False) \<and> keys \<noteq> []
                        then (AList.update (np_name p) (JObj (map (\<lambda>k. (k, JObj [])) keys)) (fst st), snd st) else st)
              in Inr (Continue (if collectionValues \<noteq> [] \<or> pc_returnDefaults ctx
                then setBoth (np_name p) (JObj collectionValues) st else st))) = Inr r"
      using assms unfolding fixedCollectionProperty_def Let_def pv_def [symmetric] keys_def [symmetric] by (simp only: if_False)
    then show ?thesis
      by (elim bind_cases) (auto simp: Let_def extendsBy_update split: if_splits)
  qed
qed

text \<open>A fixed collection with one value whose value is empty.\<close>

definition emptyCollection :: "json option \<Rightarrow> INodeProperties \<Rightarrow> bool" where
  "emptyCollection nodeValues p \<longleftrightarrow> np_type p = FixedCollectionType \<and> np_multipleValues p = Some False \<and>
     truthyOpt (valueAt nodeValues (np_name p)) \<and> objectKeys (the (valueAt nodeValues (np_name p))) = []"

lemma if_chain:
  "(if a then x else if b then y else if c then x else if d then u else w) = r \<Longrightarrow>
     x = r \<or> y = r \<or> u = r \<or> \<not> b \<and> \<not> d \<and> w = r"
  by (simp split: if_splits)

lemma propertyStep_Inr:
  assumes "propertyStep sub ctx pass nodeValues p st = Inr r"
  shows "extendsResult (np_name p) st r \<or>
    (\<not> pc_returnDefaults ctx \<and> emptyCollection nodeValues p \<and> r = Return (the nodeValues) \<and> nodeValues \<noteq> None)"
proof (cases "\<not> truthyOpt nodeValues \<or> valueAt nodeValues (np_name p) = None \<and>
    (\<not> pc_returnDefaults ctx \<or> pp_parentType pass = Some CollectionType)")
  case True
  with assms show ?thesis by (auto simp: propertyStep_def)
next
  case False
  then obtain w where w: "nodeValues = Some w" by (cases nodeValues) (auto simp: truthyOpt_def)
  from assms False have "rbind (if pc_returnNoneDisplayed ctx then Inr True else isDisplayed ctx pass p st) (\<lambda>shown.
           if \<not> shown then Inr (Continue st)
           else if np_type p \<noteq> CollectionType \<and> np_type p \<noteq> FixedCollectionType
             then simpleProperty ctx pass p (valueAt nodeValues (np_name p)) st
           else if pp_onlySimpleTypes pass then Inr (Continue st)
           else if np_type p = CollectionType then collectionProperty sub ctx pass p (valueAt nodeValues (np_name p)) st
           else fixedCollectionProperty sub ctx pass p nodeValues (valueAt nodeValues (np_name p)) st) = Inr r"
    unfolding propertyStep_def Let_def by (simp only: if_False)
  then show ?thesis
  proof (elim bind_cases conjE)
    fix shown
    assume "(if \<not> shown then Inr (Continue st)
           else if np_type p \<noteq> CollectionType \<and> np_type p \<noteq> FixedCollectionType
             then simpleProperty ctx pass p (valueAt nodeValues (np_name p)) st
           else if pp_onlySimpleTypes pass then Inr (Continue st)
           else if np_type p = CollectionType then collectionProperty sub ctx pass p (valueAt nodeValues (np_name p)) st
           else fixedCollectionProperty sub ctx pass p nodeValues (valueAt nodeValues (np_name p)) st) = Inr r"
    from if_chain [OF this] consider "Inr (Continue st) = (Inr r :: js_error + PassResult)"
      | "simpleProperty ctx pass p (valueAt nodeValues (np_name p)) st = Inr r"
      | "collectionProperty sub ctx pass p (valueAt nodeValues (np_name p)) st = Inr r"
      | "np_type p = FixedCollectionType" "fixedCollectionProperty sub ctx pass p nodeValues (valueAt nodeValues (np_name p)) st = Inr r"
      by argo
    then show ?thesis
    proof cases
      case 1
      then have "r = Continue st" by simp
      then show ?thesis by simp
    next
      case 2
      then show ?thesis using simpleProperty_Inr by blast
    next
      case 3
      then show ?thesis using collectionProperty_Inr by blast
    next
      case 4
      from fixedCollectionProperty_Inr [OF 4(2)] 4(1) show ?thesis by (simp add: emptyCollection_def w)
    qed
  qed
qed

lemma propertyLoop_Cons:
  "propertyLoop f (p # ps) st = Inr r \<longleftrightarrow>
     (\<exists>v. f p st = Inr (Return v) \<and> r = v) \<or> (\<exists>st'. f p st = Inr (Continue st') \<and> propertyLoop f ps st' = Inr r)"
proof (cases "f p st")
  case (Inr x)
  show ?thesis unfolding propertyLoop.simps Inr rbind_simps by (cases x) (simp_all add: eq_commute)
qed simp

lemma propertyLoop_names:
  assumes "propertyLoop (propertyStep sub ctx pass nodeValues) ps st = Inr r" "distinct_keys (fst st)"
  shows "(\<exists>m. r = JObj m \<and> distinct_keys m \<and> fst ` set m \<subseteq> fst ` set (fst st) \<union> np_name ` set ps) \<or>
    (\<not> pc_returnDefaults ctx \<and> (\<exists>p \<in> set ps. emptyCollection nodeValues p) \<and> nodeValues = Some r)"
  using assms
proof (induction ps arbitrary: st)
  case (Cons p ps)
  let ?step = "propertyStep sub ctx pass nodeValues"
  from Cons.prems(1) [unfolded propertyLoop_Cons] show ?case
  proof (elim disjE exE conjE)
    fix v assume "?step p st = Inr (Return v)" "r = v"
    with propertyStep_Inr [of sub ctx pass nodeValues p st] show ?thesis by force
  next
    fix st' assume x: "?step p st = Inr (Continue st')" and l: "propertyLoop ?step ps st' = Inr r"
    have e: "extendsBy (np_name p) (fst st) (fst st')" using propertyStep_Inr [OF x] by simp
    then have d: "distinct_keys (fst st')" using Cons.prems(2) by (simp add: extendsBy_def)
    have "fst ` set (fst st') \<union> np_name ` set ps \<subseteq> fst ` set (fst st) \<union> np_name ` set (p # ps)"
      using e by (auto simp: extendsBy_def)
    with Cons.IH [OF l d] show ?thesis
      by (elim disjE exE conjE) (rule disjI1, intro exI conjI, assumption, assumption, erule (1) order_trans,
        rule disjI2, simp)
  qed
qed auto

lemma parametersLevel_Inr:
  assumes "parametersLevel sub ctx props nodeValues onlySimple resolved root parent = Inr r"
  shows "\<exists>order pass. getParameterResolveOrder props (getParameterDependencies props) = Inr order \<and>
    parameterPass sub ctx pass props order nodeValues = Inr r"
proof (cases "resolved \<or> pc_returnNoneDisplayed ctx")
  case True
  with assms show ?thesis unfolding parametersLevel_def Let_def rbind_eq_Inr by (simp only: if_True) metis
next
  case False
  with assms show ?thesis unfolding parametersLevel_def Let_def rbind_eq_Inr
    by (simp only: if_False rbind_eq_Inr) metis
qed

text \<open>C33: the type of the result of \<open>getNodeParameters\<close>: an object whose keys are names of properties of the level, each
  once. The one exception is a fixed collection with one value that is empty: without default values, the whole object of
  values is then returned as it is, with hidden, default and unknown parameters.\<close>

theorem getNodeParameters_names:
  assumes "getNodeParameters ctx props nodeValues onlySimple resolved root parent = Inr r"
  shows "(\<exists>m. r = JObj m \<and> distinct_keys m \<and> fst ` set m \<subseteq> np_name ` set props) \<or>
    (\<not> pc_returnDefaults ctx \<and> (\<exists>p \<in> set props. emptyCollection nodeValues p) \<and> nodeValues = Some r)"
proof -
  let ?sub = "\<lambda>props' values root' parent'. getNodeParameters ctx props' values False False root' (Some parent')"
  from parametersLevel_Inr [OF assms [unfolded getNodeParameters_level [of ctx props]]]
  obtain order pass where o: "getParameterResolveOrder props (getParameterDependencies props) = Inr order"
    and pass: "parameterPass ?sub ctx pass props order nodeValues = Inr r" by (elim exE conjE) (rule that)
  have s: "set (map (\<lambda>i. props ! i) order) \<subseteq> set props" using resolveOrder_settled(1) [OF o] by auto
  then have "np_name ` set (map (\<lambda>i. props ! i) order) \<subseteq> np_name ` set props" by (rule image_mono)
  have "distinct_keys (fst (([], []) :: ParameterState))" by simp
  from propertyLoop_names [OF pass [unfolded parameterPass_def] this] show ?thesis
  proof (elim disjE exE conjE)
    fix m assume "r = JObj m" "distinct_keys m"
      "fst ` set m \<subseteq> fst ` set (fst ([], [])) \<union> np_name ` set (map (\<lambda>i. props ! i) order)"
    with \<open>np_name ` set (map (\<lambda>i. props ! i) order) \<subseteq> np_name ` set props\<close> show ?thesis
      by (intro disjI1 exI [of _ m] conjI) auto
  next
    assume "\<not> pc_returnDefaults ctx" "\<exists>p \<in> set (map (\<lambda>i. props ! i) order). emptyCollection nodeValues p" "nodeValues = Some r"
    with s show ?thesis by (intro disjI2) blast
  qed
qed

section \<open>Examples\<close>

text \<open>The functions for paths without dots.\<close>

definition sampleLib :: NodeLib where
  "sampleLib = \<lparr>lib_get = (\<lambda>v k. case v of None \<Rightarrow> None | Some w \<Rightarrow> js_get w k),
     lib_isEqual = (\<lambda>v w. case (v, w) of (Some a, Some b) \<Rightarrow> json_eq a b | (None, None) \<Rightarrow> True | _ \<Rightarrow> False),
     lib_regexTest = (\<lambda>_ _. Inr False)\<rparr>"

definition sampleContext :: "bool \<Rightarrow> bool \<Rightarrow> ParameterContext" where
  "sampleContext defaults hidden = \<lparr>pc_lib = sampleLib, pc_returnDefaults = defaults, pc_returnNoneDisplayed = hidden,
     pc_node = None, pc_nodeType = None\<rparr>"

definition textField :: "string \<Rightarrow> string \<Rightarrow> INodeProperties" where
  "textField nm d = NodeProperty nm StringType (JStr d) None None [] []"

definition group :: "bool option \<Rightarrow> json \<Rightarrow> INodeProperties" where
  "group mult d = NodeProperty ''group'' FixedCollectionType d None mult [] [(''item'', [textField ''field'' ''d''])]"

lemma getNodeParameters_names_witness:
  "let values = JObj [(''group'', JObj [(''item'', JObj [(''field'', JStr ''x''), (''old'', JNum 1)])]), (''url'', JStr ''u'')];
       props = [textField ''url'' ''u'', group None (JObj [])]
   in getNodeParameters (sampleContext False False) props (Some values) False False None None =
       Inr (JObj [(''group'', JObj [(''item'', JObj [(''field'', JStr ''x'')])])]) \<and>
     (\<exists>m. JObj [(''group'', JObj [(''item'', JObj [(''field'', JStr ''x'')])])] = JObj m \<and> fst ` set m \<subseteq> np_name ` set props)"
proof -
  let ?vals = "JObj [(''group'', JObj [(''item'', JObj [(''field'', JStr ''x''), (''old'', JNum 1)])]), (''url'', JStr ''u'')]"
  let ?props = "[textField ''url'' ''u'', group None (JObj [])]"
  have run: "getNodeParameters (sampleContext False False) ?props (Some ?vals) False False None None =
      Inr (JObj [(''group'', JObj [(''item'', JObj [(''field'', JStr ''x'')])])])"
    by code_simp
  have n: "\<not> (\<exists>p \<in> set ?props. emptyCollection (Some ?vals) p)"
    by (simp add: emptyCollection_def textField_def group_def)
  from getNodeParameters_names [OF run] n show ?thesis unfolding Let_def using run by blast
qed

text \<open>An empty group brings back a default value and an unknown parameter.\<close>

lemma getNodeParameters_empty_group:
  "getNodeParameters (sampleContext False False) [textField ''url'' ''u'', group (Some False) (JObj [])]
     (Some (JObj [(''url'', JStr ''u''), (''old'', JNum 1), (''group'', JObj [])])) False False None None =
   Inr (JObj [(''url'', JStr ''u''), (''old'', JNum 1), (''group'', JObj [])])"
  by code_simp

text \<open>A default value of a group with one value makes filling in the defaults fail.\<close>

lemma getNodeParameters_default_group:
  "getNodeParameters (sampleContext True False) [group None (JObj [(''item'', JObj [])])] (Some (JObj [])) False False None None = Inl TypeError"
  by code_simp

end
