(* ===== verification/ParameterRoundtrip.thy ===== *)
theory ParameterRoundtrip
  imports ParameterProps
begin

text \<open>
  Default values left out and put back: for a level of simple properties that are always displayed,
  \<open>getNodeParameters\<close> without default values and then with them gives the values it gives at once.
\<close>

section \<open>Levels of simple properties\<close>

definition flatProperties :: "INodeProperties list \<Rightarrow> bool" where
  "flatProperties props \<longleftrightarrow> distinct (map np_name props) \<and>
     list_all (\<lambda>p. np_type p \<notin> {CollectionType, FixedCollectionType} \<and> np_displayOptions p = None) props"

text \<open>The value of a property in the result, if it gets one.\<close>

definition flatValue :: "ParameterContext \<Rightarrow> json option \<Rightarrow> INodeProperties \<Rightarrow> json option" where
  "flatValue ctx nodeValues p = (let v = valueAt nodeValues (np_name p) in
     if pc_returnDefaults ctx then Some (defaultedValue p v)
     else case v of None \<Rightarrow> None | Some x \<Rightarrow> if differsFromDefault (pc_lib ctx) p x then Some x else None)"

definition flatResult :: "ParameterContext \<Rightarrow> json option \<Rightarrow> INodeProperties list \<Rightarrow> (string \<times> json) list" where
  "flatResult ctx nodeValues props =
     concat (map (\<lambda>p. case flatValue ctx nodeValues p of None \<Rightarrow> [] | Some x \<Rightarrow> [(np_name p, x)]) props)"

lemma flat_dependencies: "flatProperties props \<Longrightarrow> list_get (getParameterDependencies props) nm = []"
proof -
  have "list_get (fold propertyDependencies ps deps) nm = list_get deps nm" if "\<forall>p \<in> set ps. np_displayOptions p = None" for ps deps
    using that
  proof (induction ps arbitrary: deps)
    case (Cons p ps)
    then have "list_get (propertyDependencies p deps) nm = list_get deps nm"
      by (auto simp: propertyDependencies_def list_get_def amap.get_put split: option.splits)
    with Cons show ?case by simp
  qed simp
  then show "flatProperties props \<Longrightarrow> list_get (getParameterDependencies props) nm = []"
    by (simp add: flatProperties_def list_all_iff getParameterDependencies_def list_get_def)
qed

lemma resolveLoop_no_dependencies:
  assumes "\<And>nm. deps nm = []"
  shows "resolveLoop n names deps l = Inr (ol_executionOrder l @ ol_indexToResolve l)"
proof (induction "ol_indexToResolve l" arbitrary: l)
  case Nil
  then show ?case by (simp add: resolveLoop.simps [of n names deps l])
next
  case (Cons i q)
  then show ?case
    by (subst resolveLoop.simps) (simp add: Cons(2) [symmetric] resolveStep_def assms Let_def)
qed

lemma flat_order: "flatProperties props \<Longrightarrow> getParameterResolveOrder props (getParameterDependencies props) = Inr [0..<length props]"
  unfolding getParameterResolveOrder_def by (subst resolveLoop_no_dependencies) (simp_all add: flat_dependencies)

lemma flat_duplicates: "distinct (map np_name props) \<Longrightarrow> duplicateNames props = []"
proof -
  have "fold (\<lambda>p (dups, names). if np_name p \<in> set names then (set_add (np_name p) dups, names) else (dups, names @ [np_name p])) ps (ds, ns) =
      (ds, ns @ map np_name ps)" if "distinct (ns @ map np_name ps)" for ps ds ns
    using that by (induction ps arbitrary: ns) auto
  from this [of "[]" props "[]"] show "distinct (map np_name props) \<Longrightarrow> duplicateNames props = []"
    by (simp add: duplicateNames_def)
qed

lemma flat_step:
  assumes "np_type p \<notin> {CollectionType, FixedCollectionType}" "np_displayOptions p = None" "pp_duplicates pass = []"
    "pp_parentType pass = None" "truthyOpt nodeValues"
  shows "propertyStep sub ctx pass nodeValues p st =
    Inr (Continue (case flatValue ctx nodeValues p of None \<Rightarrow> st | Some x \<Rightarrow> setBoth (np_name p) x st))"
  using assms
  by (cases "valueAt nodeValues (np_name p)")
    (simp_all add: propertyStep_def isDisplayed_def displayParameter_def simpleProperty_def flatValue_def Let_def)

lemma flat_loop:
  assumes "distinct (map fst (fst st) @ map np_name ps)"
    and "\<And>p st. p \<in> set ps \<Longrightarrow> f p st = Inr (Continue (case flatValue ctx nodeValues p of None \<Rightarrow> st | Some x \<Rightarrow> setBoth (np_name p) x st))"
  shows "propertyLoop f ps st = Inr (JObj (fst st @ flatResult ctx nodeValues ps))"
  using assms
proof (induction ps arbitrary: st)
  case (Cons p ps)
  show ?case
  proof (cases "flatValue ctx nodeValues p")
    case None
    then show ?thesis using Cons by (simp add: flatResult_def)
  next
    case (Some x)
    then have "fst (setBoth (np_name p) x st) = fst st @ [(np_name p, x)]"
      using Cons.prems(1) by (simp add: setBoth_def update_snoc)
    then show ?thesis using Cons Some by (simp add: flatResult_def)
  qed
qed (simp add: flatResult_def)

lemma flat_level:
  assumes flat: "flatProperties props" and t: "truthyOpt nodeValues"
  shows "getNodeParameters ctx props nodeValues onlySimple resolved root None = Inr (JObj (flatResult ctx nodeValues props))"
proof -
  have p: "parameterPass sub c pass props [0..<length props] nodeValues = Inr (JObj (flatResult c nodeValues props))"
    if "pp_duplicates pass = []" "pp_parentType pass = None" for sub c pass
    using flat_loop [of "([], [])" props "propertyStep sub c pass nodeValues" c nodeValues] flat_step [OF _ _ that t] flat
    by (simp add: parameterPass_def map_nth flatProperties_def list_all_iff)
  have d: "duplicateNames props = []" using flat by (intro flat_duplicates) (simp add: flatProperties_def)
  show ?thesis
    unfolding getNodeParameters_level [of ctx props] parametersLevel_def flat_order [OF flat] rbind_simps Let_def
    by (simp add: p d)
qed

lemma flatResult_lookup:
  assumes "distinct (map np_name props)" "p \<in> set props"
  shows "map_of (flatResult ctx nodeValues props) (np_name p) = flatValue ctx nodeValues p"
  using assms
proof (induction props)
  case (Cons q props)
  have k: "fst ` set (flatResult ctx nodeValues ps) \<subseteq> np_name ` set ps" for ps
    by (auto simp: flatResult_def split: option.splits)
  have c: "flatResult ctx nodeValues (q # props) =
      (case flatValue ctx nodeValues q of None \<Rightarrow> [] | Some x \<Rightarrow> [(np_name q, x)]) @ flatResult ctx nodeValues props"
    by (simp add: flatResult_def)
  show ?case
  proof (cases "p = q")
    case True
    have "np_name q \<notin> fst ` set (flatResult ctx nodeValues props)" using k [of props] Cons.prems(1) by auto
    then show ?thesis by (auto simp: c True map_of_eq_None_iff split: option.splits)
  next
    case False
    then have "p \<in> set props" using Cons.prems(2) by simp
    moreover from this have "np_name p \<in> np_name ` set props" by simp
    then have "np_name p \<noteq> np_name q" using Cons.prems(1) by force
    ultimately have "p \<in> set props" "np_name p \<noteq> np_name q" by simp_all
    with Cons show ?thesis by (auto simp: c map_add_def split: option.splits)
  qed
qed simp

section \<open>The round trip\<close>

definition withDefaults :: "ParameterContext \<Rightarrow> ParameterContext" where
  "withDefaults ctx = ctx\<lparr>pc_returnDefaults := True\<rparr>"

definition withoutDefaults :: "ParameterContext \<Rightarrow> ParameterContext" where
  "withoutDefaults ctx = ctx\<lparr>pc_returnDefaults := False\<rparr>"

text \<open>The default value of a resource locator gets a mark that the property does not have.\<close>

definition plainDefault :: "INodeProperties \<Rightarrow> bool" where
  "plainDefault p \<longleftrightarrow> json_wf (np_default p) \<and> (np_type p = ResourceLocatorType \<longrightarrow> js_typeof (np_default p) \<noteq> TyObject)"

lemma flatValue_roundtrip:
  assumes eq: "\<And>v w. lib_isEqual (pc_lib ctx) (Some v) (Some w) = json_eq v w"
    and d: "plainDefault p" and wf: "\<And>v. valueAt nodeValues (np_name p) = Some v \<Longrightarrow> json_wf v"
    and s: "valueAt stripped (np_name p) = flatValue (withoutDefaults ctx) nodeValues p"
  shows "rel_option json_eq (flatValue (withDefaults ctx) nodeValues p) (flatValue (withDefaults ctx) stripped p)"
proof -
  have def: "json_eq (np_default p) (np_default p)" using d by (intro json_eq_refl) (simp add: plainDefault_def)
  show ?thesis
  proof (cases "valueAt nodeValues (np_name p)")
    case None
    then have "valueAt stripped (np_name p) = None" by (simp add: s flatValue_def withoutDefaults_def)
    with None def d show ?thesis by (auto simp: flatValue_def withDefaults_def defaultedValue_def plainDefault_def)
  next
    case (Some v)
    have v: "json_eq v v" using wf [OF Some] by (rule json_eq_refl)
    show ?thesis
    proof (cases "differsFromDefault (pc_lib ctx) p v")
      case True
      with Some have "valueAt stripped (np_name p) = Some v" by (simp add: s flatValue_def withoutDefaults_def)
      with Some v def show ?thesis by (cases v) (simp_all add: flatValue_def withDefaults_def defaultedValue_def Let_def del: json_eq.simps)
    next
      case False
      with Some have n: "valueAt stripped (np_name p) = None" by (simp add: s flatValue_def withoutDefaults_def)
      have "json_eq v (np_default p)" using False v by (auto simp: differsFromDefault_def eq)
      with Some n def d show ?thesis
        by (cases v) (auto simp: flatValue_def withDefaults_def defaultedValue_def plainDefault_def Let_def simp del: json_eq.simps)
    qed
  qed
qed

text \<open>C34: the round trip of the parameters of a node: for a level of simple properties with distinct names that are always
  displayed, none of which is a resource locator with an object as its default (to put that back adds the marker
  \<open>__rl\<close>), and values whose objects have no key twice, the values without default values, with the default values put back, are
  those with default values, up to the order of keys inside values.\<close>

theorem getNodeParameters_roundtrip:
  assumes flat: "flatProperties props" "list_all plainDefault props" and wf: "json_wf (JObj values)"
    and eq: "\<forall>v w. lib_isEqual (pc_lib ctx) (Some v) (Some w) = json_eq v w"
  shows "\<exists>filled stripped again. getNodeParameters (withDefaults ctx) props (Some (JObj values)) False False None None = Inr (JObj filled) \<and>
    getNodeParameters (withoutDefaults ctx) props (Some (JObj values)) False False None None = Inr (JObj stripped) \<and>
    getNodeParameters (withDefaults ctx) props (Some (JObj stripped)) False False None None = Inr (JObj again) \<and>
    map fst filled = map np_name props \<and> map fst again = map np_name props \<and>
    list_all2 (\<lambda>p q. json_eq (snd p) (snd q)) filled again"
proof -
  let ?nv = "Some (JObj values)"
  let ?s = "flatResult (withoutDefaults ctx) ?nv props"
  let ?fill = "\<lambda>nv. flatResult (withDefaults ctx) nv props"
  have d: "distinct (map np_name props)" using flat(1) by (simp add: flatProperties_def)
  have r: "getNodeParameters c props (Some (JObj vs)) False False None None = Inr (JObj (flatResult c (Some (JObj vs)) props))" for c vs
    by (rule flat_level [OF flat(1)]) (simp add: truthyOpt_def)
  have f: "?fill nv = map (\<lambda>p. (np_name p, the (flatValue (withDefaults ctx) nv p))) props" for nv
    by (induction props) (simp_all add: flatResult_def flatValue_def withDefaults_def Let_def)
  have "json_eq (the (flatValue (withDefaults ctx) ?nv p)) (the (flatValue (withDefaults ctx) (Some (JObj ?s)) p))"
    if p: "p \<in> set props" for p
  proof -
    have s: "valueAt (Some (JObj ?s)) (np_name p) = flatValue (withoutDefaults ctx) ?nv p"
      using flatResult_lookup [OF d p] by (simp add: valueAt_def)
    have w: "json_wf v" if "valueAt ?nv (np_name p) = Some v" for v
    proof -
      have "(np_name p, v) \<in> set values" using that by (simp add: valueAt_def map_of_SomeD)
      with wf show ?thesis by (auto simp: list_all_iff)
    qed
    have "rel_option json_eq (flatValue (withDefaults ctx) ?nv p) (flatValue (withDefaults ctx) (Some (JObj ?s)) p)"
      using eq flat(2) p by (intro flatValue_roundtrip [OF _ _ w s]) (auto simp: list_all_iff)
    then show ?thesis by (auto simp: flatValue_def withDefaults_def Let_def)
  qed
  then have "list_all2 (\<lambda>p q. json_eq (snd p) (snd q)) (?fill ?nv) (?fill (Some (JObj ?s)))"
    unfolding f by (simp add: list.rel_map list.rel_refl_strong)
  with r f show ?thesis by (intro exI [of _ "?fill ?nv"] exI [of _ ?s] exI [of _ "?fill (Some (JObj ?s))"]) (simp add: comp_def)
qed

lemma getNodeParameters_roundtrip_witness:
  "\<exists>filled stripped again.
    getNodeParameters (withDefaults (sampleContext False False)) [textField ''a'' ''x'', textField ''b'' ''y'']
      (Some (JObj [(''b'', JStr ''y''), (''c'', JNull)])) False False None None = Inr (JObj filled) \<and>
    getNodeParameters (withoutDefaults (sampleContext False False)) [textField ''a'' ''x'', textField ''b'' ''y'']
      (Some (JObj [(''b'', JStr ''y''), (''c'', JNull)])) False False None None = Inr (JObj stripped) \<and>
    getNodeParameters (withDefaults (sampleContext False False)) [textField ''a'' ''x'', textField ''b'' ''y'']
      (Some (JObj stripped)) False False None None = Inr (JObj again) \<and>
    map fst filled = [''a'', ''b''] \<and> map fst again = [''a'', ''b''] \<and> list_all2 (\<lambda>p q. json_eq (snd p) (snd q)) filled again"
proof -
  have "flatProperties [textField ''a'' ''x'', textField ''b'' ''y'']" "list_all plainDefault [textField ''a'' ''x'', textField ''b'' ''y'']"
    "json_wf (JObj [(''b'', JStr ''y''), (''c'', JNull)])"
    by (simp_all add: flatProperties_def textField_def plainDefault_def)
  moreover have "\<forall>v w. lib_isEqual (pc_lib (sampleContext False False)) (Some v) (Some w) = json_eq v w"
    by (simp add: sampleContext_def sampleLib_def)
  ultimately show ?thesis
    using getNodeParameters_roundtrip [of "[textField ''a'' ''x'', textField ''b'' ''y'']" "[(''b'', JStr ''y''), (''c'', JNull)]"
      "sampleContext False False"] by (simp add: textField_def)
qed

end
