(* ===== verification/DisplayProps.thy ===== *)
theory DisplayProps
  imports ParameterProps
begin

text \<open>
  When \<open>displayParameter\<close> shows a parameter: its rules to show are a conjunction and its rules to hide a disjunction, but
  the first value that is an expression ends the search.
\<close>

text \<open>A rule whose property holds an expression comes after rules that hold.\<close>

definition expressionReached :: "(string \<times> ConditionValue list \<Rightarrow> bool) \<Rightarrow> (string \<Rightarrow> json option list) \<Rightarrow> DisplayRules \<Rightarrow> bool" where
  "expressionReached holds vals rules \<longleftrightarrow> list_ex (\<lambda>i. list_all holds (take i rules) \<and>
     list_ex isExpression (vals (fst (rules ! i)))) [0..<length rules]"

lemma expressionReached_Cons:
  "expressionReached holds vals (r # rules) \<longleftrightarrow>
     list_ex isExpression (vals (fst r)) \<or> holds r \<and> expressionReached holds vals rules"
proof -
  have e: "[0..<length (r # rules)] = 0 # map Suc [0..<length rules]"
    by (simp add: upt_conv_Cons map_Suc_upt del: upt_Suc)
  show ?thesis unfolding expressionReached_def e by (auto simp: list_ex_iff simp del: upt_Suc map_Suc_upt image_Suc_atLeastLessThan)
qed

lemma showRules_eq:
  assumes "\<forall>r \<in> set rules. values (fst r) = Inr (vals (fst r)) \<and> checkConditions lib (snd r) (vals (fst r)) = Inr (holds r)"
  shows "showRules lib values rules = Inr (
    if expressionReached holds vals rules then Some True else if list_all holds rules then None else Some False)"
  using assms
proof (induction rules)
  case (Cons r rules)
  then show ?case by (cases r) (simp add: expressionReached_Cons)
qed (simp add: expressionReached_def)

lemma hideRules_eq:
  assumes "\<forall>r \<in> set rules. values (fst r) = Inr (vals (fst r)) \<and> checkConditions lib (snd r) (vals (fst r)) = Inr (holds r)"
  shows "hideRules lib values rules = Inr (list_all (\<lambda>r. vals (fst r) = [] \<or> \<not> holds r) rules)"
  using assms by (induction rules) auto

text \<open>When reading the values of the properties and testing the conditions does not fail, a parameter is displayed
  exactly when a rule to show whose property holds an expression comes after rules that hold, or when all rules to show hold
  and no rule to hide with a value does. So with an expression neither the later rules to show nor any rule to hide counts.\<close>

theorem displayParameter_iff:
  assumes "\<forall>r \<in> set show \<union> set hide. getPropertyValues lib nodeValues (fst r) node ntd nodeValues = Inr (vals (fst r)) \<and>
      checkConditions lib (snd r) (vals (fst r)) = Inr (holds r)"
  shows "displayParameter lib nodeValues (Some [(''show'', show), (''hide'', hide)]) node ntd None = Inr (
    expressionReached holds vals show \<or>
    list_all holds show \<and> list_all (\<lambda>r. vals (fst r) = [] \<or> \<not> holds r) hide)"
proof -
  let ?vals = "\<lambda>propertyName. getPropertyValues lib nodeValues propertyName node ntd nodeValues"
  have s: "showRules lib ?vals show = Inr (
    if expressionReached holds vals show then Some True
    else if list_all holds show then None else Some False)"
    using assms by (intro showRules_eq) blast
  have h: "hideRules lib ?vals hide = Inr (list_all (\<lambda>r. vals (fst r) = [] \<or> \<not> holds r) hide)"
    using assms by (intro hideRules_eq) blast
  have "map_of [(''show'', show), (''hide'', hide)] ''show'' = Some show"
    "map_of [(''show'', show), (''hide'', hide)] ''hide'' = Some hide" by simp_all
  then show ?thesis unfolding displayParameter_def option.case Let_def by (simp add: s h)
qed

text \<open>A parameter with the same two rules to show, in the two orders: it is displayed only when the expression comes first.\<close>

definition ruleA :: "string \<times> ConditionValue list" where
  "ruleA = (''a'', [PlainValue (Some (JStr ''x''))])"

definition ruleB :: "string \<times> ConditionValue list" where
  "ruleB = (''b'', [PlainValue (Some (JStr ''x''))])"

definition mixedValues :: "json option" where
  "mixedValues = Some (JObj [(''a'', JStr ''={{ 1 }}''), (''b'', JStr ''y'')])"

lemma displayParameter_iff_witness:
  "displayParameter sampleLib mixedValues (Some [(''show'', [ruleA, ruleB]), (''hide'', [])]) None None None = Inr True \<and>
   displayParameter sampleLib mixedValues (Some [(''show'', [ruleB, ruleA]), (''hide'', [])]) None None None = Inr False"
proof -
  let ?vals = "\<lambda>k. if k = ''a'' then [Some (JStr ''={{ 1 }}'')] else [Some (JStr ''y'')]"
  have "\<forall>r \<in> set [ruleA, ruleB] \<union> set []. getPropertyValues sampleLib mixedValues (fst r) None None mixedValues = Inr (?vals (fst r)) \<and>
      checkConditions sampleLib (snd r) (?vals (fst r)) = Inr False"
    by code_simp
  from displayParameter_iff [OF this]
  have "displayParameter sampleLib mixedValues (Some [(''show'', [ruleA, ruleB]), (''hide'', [])]) None None None =
      Inr (expressionReached (\<lambda>_. False) ?vals [ruleA, ruleB] \<or> False)"
    by simp
  moreover have "expressionReached (\<lambda>_. False) ?vals [ruleA, ruleB]"
    by code_simp
  ultimately have "displayParameter sampleLib mixedValues (Some [(''show'', [ruleA, ruleB]), (''hide'', [])]) None None None = Inr True"
    by simp
  moreover have "displayParameter sampleLib mixedValues (Some [(''show'', [ruleB, ruleA]), (''hide'', [])]) None None None = Inr False"
    by code_simp
  ultimately show ?thesis by (rule conjI)
qed

end
