(* ===== verification/AugmentObject.thy ===== *)
theory AugmentObject
  imports Prelude
begin

text \<open>
  Augmented objects and arrays, proxies through which a node may change the data of an item without changing the data
  itself: \<^verbatim>\<open>packages/workflow/src/augment-object.ts\<close>. Objects live in a heap, a value may be a reference to one; the
  objects in \<open>augmentedObjects\<close> are the proxies. Names of \<^verbatim>\<open>Object.prototype\<close> are not used as keys, functions and objects
  with an own \<open>toJSON\<close> do not occur in the data, and objects can be extended: \<open>Object.freeze\<close>, \<open>Object.preventExtensions\<close> and
  \<open>Object.setPrototypeOf\<close>, for which the proxies have no trap, are not modelled. The text of a date is a parameter. A
  regular expression, which is shared, and the copy of bytes are values that do not change: that a regular expression has
  a \<open>lastIndex\<close>, and that \<open>slice\<close> of a \<open>Buffer\<close> shares its memory, is outside the model.
\<close>

section \<open>The heap\<close>

type_synonym addr = nat

datatype jsval = VUndef | VNull | VBool bool | VNum int | VStr string | VRef addr

record AugmentedObject =
  ao_data :: addr
  ao_newData :: "(string \<times> jsval) list"
  ao_deleted :: "string list"

record AugmentedArray =
  aa_data :: addr
  aa_newData :: "jsval option list option"

text \<open>An array has holes.\<close>

datatype heapObj =
    PlainObject "(string \<times> jsval) list" | ArrayObject "jsval option list" | DateObject int | RegExpObject string
  | BytesObject "nat list" | ObjectProxy AugmentedObject | ArrayProxy AugmentedArray

type_synonym heap = "heapObj list"

definition heapGet :: "heap \<Rightarrow> addr \<Rightarrow> heapObj option" where
  "heapGet h a = (if a < length h then Some (h ! a) else None)"

definition alloc :: "heapObj \<Rightarrow> heap \<Rightarrow> jsval \<times> heap" where
  "alloc ob h = (VRef (length h), h @ [ob])"

definition propertiesOf :: "heap \<Rightarrow> addr \<Rightarrow> (string \<times> jsval) list" where
  "propertiesOf h a = (case heapGet h a of Some (PlainObject ps) \<Rightarrow> ps | _ \<Rightarrow> [])"

definition elementsOf :: "heap \<Rightarrow> addr \<Rightarrow> jsval option list" where
  "elementsOf h a = (case heapGet h a of Some (ArrayObject vs) \<Rightarrow> vs | _ \<Rightarrow> [])"

section \<open>Augmenting a value\<close>

text \<open>\<open>augmentArray\<close> and \<open>augmentObject\<close>: a proxy is returned as it is.\<close>

definition augmentArray :: "addr \<Rightarrow> heap \<Rightarrow> jsval \<times> heap" where
  "augmentArray a h = (case heapGet h a of
     Some (ArrayProxy _) \<Rightarrow> (VRef a, h)
   | _ \<Rightarrow> alloc (ArrayProxy \<lparr>aa_data = a, aa_newData = None\<rparr>) h)"

definition augmentObject :: "addr \<Rightarrow> heap \<Rightarrow> jsval \<times> heap" where
  "augmentObject a h = (case heapGet h a of
     Some (ObjectProxy _) \<Rightarrow> (VRef a, h)
   | _ \<Rightarrow> alloc (ObjectProxy \<lparr>ao_data = a, ao_newData = [], ao_deleted = []\<rparr>) h)"

definition augment :: "jsval \<Rightarrow> heap \<Rightarrow> jsval \<times> heap" where
  "augment v h = (case v of
     VRef a \<Rightarrow> (case heapGet h a of
         Some (RegExpObject _) \<Rightarrow> (v, h)
       | Some (DateObject t) \<Rightarrow> alloc (DateObject t) h
       | Some (BytesObject bs) \<Rightarrow> alloc (BytesObject bs) h
       | Some (ArrayObject _) \<Rightarrow> augmentArray a h
       | Some (ArrayProxy _) \<Rightarrow> augmentArray a h
       | Some _ \<Rightarrow> augmentObject a h
       | None \<Rightarrow> (v, h))
   | _ \<Rightarrow> (v, h))"

section \<open>Augmented objects\<close>

definition setObject :: "addr \<Rightarrow> heapObj \<Rightarrow> heap \<Rightarrow> heap" where
  "setObject a ob h = h[a := ob]"

definition lookup_or :: "(string \<times> jsval) list \<Rightarrow> string \<Rightarrow> jsval" where
  "lookup_or ps k = (case map_of ps k of None \<Rightarrow> VUndef | Some v \<Rightarrow> v)"

text \<open>The trap \<open>get\<close>: the value of the data is augmented on the first read and kept.\<close>

definition objectGet :: "(int \<Rightarrow> string) \<Rightarrow> addr \<Rightarrow> AugmentedObject \<Rightarrow> string \<Rightarrow> heap \<Rightarrow> jsval \<times> heap" where
  "objectGet dateText p ao key h =
     (if key \<in> set (ao_deleted ao) then (VUndef, h)
      else case map_of (ao_newData ao) key of
        Some v \<Rightarrow> (v, h)
      | None \<Rightarrow>
          let value = lookup_or (propertiesOf h (ao_data ao)) key in
          case value of
            VRef a \<Rightarrow> (case heapGet h a of
                Some (RegExpObject s) \<Rightarrow> (VStr s, h)
              | Some (DateObject t) \<Rightarrow> (VStr (dateText t), h)
              | _ \<Rightarrow> (case augment value h of (newValue, h') \<Rightarrow>
                  if newValue \<noteq> value
                  then (newValue, setObject p (ObjectProxy (ao\<lparr>ao_newData := AList.update key newValue (ao_newData ao)\<rparr>)) h')
                  else (value, h')))
          | _ \<Rightarrow> (value, h))"

definition objectDelete :: "(string \<times> jsval) list \<Rightarrow> string \<Rightarrow> AugmentedObject \<Rightarrow> AugmentedObject" where
  "objectDelete data key ao = ao\<lparr>ao_newData := AList.delete key (ao_newData ao),
     ao_deleted := (if key \<in> fst ` set data then set_add key (ao_deleted ao) else ao_deleted ao)\<rparr>"

definition objectSet :: "(string \<times> jsval) list \<Rightarrow> string \<Rightarrow> jsval \<Rightarrow> AugmentedObject \<Rightarrow> AugmentedObject" where
  "objectSet data key newValue ao =
     (if newValue = VUndef then
        let ao = (if key \<in> fst ` set (ao_newData ao) then ao\<lparr>ao_newData := AList.delete key (ao_newData ao)\<rparr> else ao)
        in (if key \<in> fst ` set data then ao\<lparr>ao_deleted := set_add key (ao_deleted ao)\<rparr> else ao)
      else
        let ao = ao\<lparr>ao_newData := AList.update key newValue (ao_newData ao)\<rparr>
        in (if key \<in> set (ao_deleted ao) then ao\<lparr>ao_deleted := set_remove key (ao_deleted ao)\<rparr> else ao))"

definition objectHas :: "(string \<times> jsval) list \<Rightarrow> string \<Rightarrow> AugmentedObject \<Rightarrow> bool" where
  "objectHas data key ao =
     (if key \<in> set (ao_deleted ao) then False
      else key \<in> fst ` set (if key \<in> fst ` set (ao_newData ao) then ao_newData ao else data))"

definition objectOwnKeys :: "(string \<times> jsval) list \<Rightarrow> AugmentedObject \<Rightarrow> string list" where
  "objectOwnKeys data ao =
     filter (\<lambda>key. key \<notin> set (ao_deleted ao)) (fold set_add (map fst data @ map fst (ao_newData ao)) [])"

text \<open>The value in the descriptor of a property.\<close>

definition objectDescriptor :: "(string \<times> jsval) list \<Rightarrow> string \<Rightarrow> AugmentedObject \<Rightarrow> jsval option" where
  "objectDescriptor data key ao =
     (if key \<in> set (ao_deleted ao) then None
      else map_of (if key \<in> fst ` set (ao_newData ao) then ao_newData ao else data) key)"

section \<open>Augmented arrays\<close>

text \<open>\<open>[...data]\<close> has no holes.\<close>

definition spreadArray :: "jsval option list \<Rightarrow> jsval option list" where
  "spreadArray vs = map (\<lambda>v. Some (case v of None \<Rightarrow> VUndef | Some w \<Rightarrow> w)) vs"

definition arrayData :: "heap \<Rightarrow> AugmentedArray \<Rightarrow> jsval option list" where
  "arrayData h aa = (case aa_newData aa of None \<Rightarrow> spreadArray (elementsOf h (aa_data aa)) | Some vs \<Rightarrow> vs)"

text \<open>\<open>newData ?? target\<close>\<close>

definition arrayTarget :: "heap \<Rightarrow> AugmentedArray \<Rightarrow> jsval option list" where
  "arrayTarget h aa = (case aa_newData aa of None \<Rightarrow> elementsOf h (aa_data aa) | Some vs \<Rightarrow> vs)"

definition elementSet :: "nat \<Rightarrow> jsval \<Rightarrow> jsval option list \<Rightarrow> jsval option list" where
  "elementSet i v vs = (if i < length vs then vs[i := Some v] else vs @ replicate (i - length vs) None @ [Some v])"

definition elementAt :: "jsval option list \<Rightarrow> nat \<Rightarrow> jsval" where
  "elementAt vs i = (if i < length vs then (case vs ! i of None \<Rightarrow> VUndef | Some v \<Rightarrow> v) else VUndef)"

definition lengthSet :: "nat \<Rightarrow> jsval option list \<Rightarrow> jsval option list" where
  "lengthSet n vs = take n vs @ replicate (n - length vs) None"

definition arrayGet :: "addr \<Rightarrow> AugmentedArray \<Rightarrow> nat \<Rightarrow> heap \<Rightarrow> jsval \<times> heap" where
  "arrayGet p aa i h =
     (let value = elementAt (arrayTarget h aa) i
      in case augment value h of (newValue, h') \<Rightarrow>
           if newValue \<noteq> value
           then (newValue, setObject p (ArrayProxy (aa\<lparr>aa_newData := Some (elementSet i newValue (arrayData h aa))\<rparr>)) h')
           else (value, h'))"

definition arraySet :: "addr \<Rightarrow> AugmentedArray \<Rightarrow> nat \<Rightarrow> jsval \<Rightarrow> heap \<Rightarrow> heap" where
  "arraySet p aa i v h = (case augment v h of (newValue, h') \<Rightarrow>
     setObject p (ArrayProxy (aa\<lparr>aa_newData := Some (elementSet i newValue (arrayData h aa))\<rparr>)) h')"

definition arrayDelete :: "addr \<Rightarrow> AugmentedArray \<Rightarrow> nat \<Rightarrow> heap \<Rightarrow> heap" where
  "arrayDelete p aa i h = setObject p (ArrayProxy (aa\<lparr>aa_newData := Some ((arrayData h aa)[i := None])\<rparr>)) h"

definition arraySetLength :: "addr \<Rightarrow> AugmentedArray \<Rightarrow> nat \<Rightarrow> heap \<Rightarrow> heap" where
  "arraySetLength p aa n h = setObject p (ArrayProxy (aa\<lparr>aa_newData := Some (lengthSet n (arrayData h aa))\<rparr>)) h"

definition arrayHas :: "heap \<Rightarrow> AugmentedArray \<Rightarrow> nat \<Rightarrow> bool" where
  "arrayHas h aa i = (i < length (arrayTarget h aa) \<and> arrayTarget h aa ! i \<noteq> None)"

text \<open>\<open>Reflect.ownKeys\<close>, without \<open>length\<close>.\<close>

definition arrayOwnKeys :: "heap \<Rightarrow> AugmentedArray \<Rightarrow> nat list" where
  "arrayOwnKeys h aa = filter (\<lambda>i. arrayTarget h aa ! i \<noteq> None) [0..<length (arrayTarget h aa)]"

text \<open>The value in the descriptor of an element: once there is a copy, that of the data or the default descriptor, which
  has no value.\<close>

definition arrayDescriptor :: "heap \<Rightarrow> AugmentedArray \<Rightarrow> nat \<Rightarrow> jsval option" where
  "arrayDescriptor h aa i =
     (let own = (if i < length (elementsOf h (aa_data aa)) then elementsOf h (aa_data aa) ! i else None)
      in if aa_newData aa = None then own
         else (case own of None \<Rightarrow> Some VUndef | Some v \<Rightarrow> Some v))"

section \<open>Programs\<close>

text \<open>What a node does with the values it has: each step may give a new value. A read through a descriptor is a step of its
  own, and so is \<open>Object.defineProperty\<close>: the proxies have no trap for it, so it defines the property of the data itself.\<close>

datatype step =
    GetProp nat string | SetProp nat string nat | DeleteProp nat string | GetIndex nat nat | SetIndex nat nat nat
  | DeleteIndex nat nat | SetLength nat nat | NewObject | NewArray | Literal jsval | Descriptor nat string
  | DefineProp nat string nat | DefineIndex nat nat nat

type_synonym process = "jsval list \<times> heap"

definition register :: "jsval list \<Rightarrow> nat \<Rightarrow> jsval" where
  "register vs r = (if r < length vs then vs ! r else VUndef)"

definition target :: "process \<Rightarrow> nat \<Rightarrow> (addr \<times> heapObj) option" where
  "target s r = (case register (fst s) r of
     VRef a \<Rightarrow> map_option (\<lambda>ob. (a, ob)) (heapGet (snd s) a) | _ \<Rightarrow> None)"

fun primitiveValue :: "jsval \<Rightarrow> jsval" where
  "primitiveValue (VRef _) = VUndef"
| "primitiveValue v = v"

text \<open>\<open>Object.defineProperty\<close> with a value on an object and on an array.\<close>

definition definePlain :: "addr \<Rightarrow> string \<Rightarrow> jsval \<Rightarrow> heap \<Rightarrow> heap" where
  "definePlain a k v h = (case heapGet h a of
     Some (PlainObject ps) \<Rightarrow> setObject a (PlainObject (AList.update k v ps)) h | _ \<Rightarrow> h)"

definition defineElement :: "addr \<Rightarrow> nat \<Rightarrow> jsval \<Rightarrow> heap \<Rightarrow> heap" where
  "defineElement a i v h = (case heapGet h a of
     Some (ArrayObject vs) \<Rightarrow> setObject a (ArrayObject (elementSet i v vs)) h | _ \<Rightarrow> h)"

fun execStep :: "(int \<Rightarrow> string) \<Rightarrow> step \<Rightarrow> process \<Rightarrow> process" where
  "execStep dateText (GetProp r k) s = (case target s r of
     Some (a, PlainObject ps) \<Rightarrow> (fst s @ [lookup_or ps k], snd s)
   | Some (a, ObjectProxy ao) \<Rightarrow> (case objectGet dateText a ao k (snd s) of (v, h) \<Rightarrow> (fst s @ [v], h))
   | _ \<Rightarrow> s)"
| "execStep dateText (SetProp r k r') s = (case target s r of
     Some (a, PlainObject ps) \<Rightarrow> (fst s, setObject a (PlainObject (AList.update k (register (fst s) r') ps)) (snd s))
   | Some (a, ObjectProxy ao) \<Rightarrow>
       (fst s, setObject a (ObjectProxy (objectSet (propertiesOf (snd s) (ao_data ao)) k (register (fst s) r') ao)) (snd s))
   | _ \<Rightarrow> s)"
| "execStep dateText (DeleteProp r k) s = (case target s r of
     Some (a, PlainObject ps) \<Rightarrow> (fst s, setObject a (PlainObject (AList.delete k ps)) (snd s))
   | Some (a, ObjectProxy ao) \<Rightarrow>
       (fst s, setObject a (ObjectProxy (objectDelete (propertiesOf (snd s) (ao_data ao)) k ao)) (snd s))
   | _ \<Rightarrow> s)"
| "execStep dateText (GetIndex r i) s = (case target s r of
     Some (a, ArrayObject vs) \<Rightarrow> (fst s @ [elementAt vs i], snd s)
   | Some (a, ArrayProxy aa) \<Rightarrow> (case arrayGet a aa i (snd s) of (v, h) \<Rightarrow> (fst s @ [v], h))
   | _ \<Rightarrow> s)"
| "execStep dateText (SetIndex r i r') s = (case target s r of
     Some (a, ArrayObject vs) \<Rightarrow> (fst s, setObject a (ArrayObject (elementSet i (register (fst s) r') vs)) (snd s))
   | Some (a, ArrayProxy aa) \<Rightarrow> (fst s, arraySet a aa i (register (fst s) r') (snd s))
   | _ \<Rightarrow> s)"
| "execStep dateText (DeleteIndex r i) s = (case target s r of
     Some (a, ArrayObject vs) \<Rightarrow> (fst s, setObject a (ArrayObject (vs[i := None])) (snd s))
   | Some (a, ArrayProxy aa) \<Rightarrow> (fst s, arrayDelete a aa i (snd s))
   | _ \<Rightarrow> s)"
| "execStep dateText (SetLength r n) s = (case target s r of
     Some (a, ArrayObject vs) \<Rightarrow> (fst s, setObject a (ArrayObject (lengthSet n vs)) (snd s))
   | Some (a, ArrayProxy aa) \<Rightarrow> (fst s, arraySetLength a aa n (snd s))
   | _ \<Rightarrow> s)"
| "execStep dateText NewObject s = (case alloc (PlainObject []) (snd s) of (v, h) \<Rightarrow> (fst s @ [v], h))"
| "execStep dateText NewArray s = (case alloc (ArrayObject []) (snd s) of (v, h) \<Rightarrow> (fst s @ [v], h))"
| "execStep dateText (Literal v) s = (fst s @ [primitiveValue v], snd s)"
| "execStep dateText (Descriptor r k) s = (case target s r of
     Some (a, ObjectProxy ao) \<Rightarrow>
       (case objectDescriptor (propertiesOf (snd s) (ao_data ao)) k ao of None \<Rightarrow> s | Some v \<Rightarrow> (fst s @ [v], snd s))
   | _ \<Rightarrow> s)"
| "execStep dateText (DefineProp r k r') s = (case target s r of
     Some (a, PlainObject ps) \<Rightarrow> (fst s, definePlain a k (register (fst s) r') (snd s))
   | Some (a, ObjectProxy ao) \<Rightarrow> (fst s, definePlain (ao_data ao) k (register (fst s) r') (snd s))
   | _ \<Rightarrow> s)"
| "execStep dateText (DefineIndex r i r') s = (case target s r of
     Some (a, ArrayObject vs) \<Rightarrow> (fst s, defineElement a i (register (fst s) r') (snd s))
   | Some (a, ArrayProxy aa) \<Rightarrow> (fst s, defineElement (aa_data aa) i (register (fst s) r') (snd s))
   | _ \<Rightarrow> s)"

definition execSteps :: "(int \<Rightarrow> string) \<Rightarrow> step list \<Rightarrow> process \<Rightarrow> process" where
  "execSteps dateText steps s = fold (execStep dateText) steps s"

end
