(* ===== verification/AugmentProps.thy ===== *)
theory AugmentProps
  imports AugmentObject
begin

text \<open>
  What a program can do to the data behind a proxy: nothing, as long as it does not read property descriptors or define
  properties by \<open>Object.defineProperty\<close>. An augmented object behaves as a copy of its data.
\<close>

section \<open>Isolation\<close>

text \<open>A value a program may have: no reference to one of the original objects, regular expressions apart.\<close>

definition harmless :: "heap \<Rightarrow> jsval \<Rightarrow> bool" where
  "harmless h0 v \<longleftrightarrow> (case v of VRef a \<Rightarrow> a < length h0 \<longrightarrow> (\<exists>s. h0 ! a = RegExpObject s) | _ \<Rightarrow> True)"







lemma harmless_simps [simp]:
  "harmless h0 VUndef" "harmless h0 VNull" "harmless h0 (VBool b)" "harmless h0 (VNum n)" "harmless h0 (VStr s)"
  "length h0 \<le> a \<Longrightarrow> harmless h0 (VRef a)"
  by (simp_all add: harmless_def)



























text \<open>A descriptor gives the object of the data itself, which the program may then change.\<close>

lemma descriptor_leaks:
  "snd (execSteps (\<lambda>_. []) [Descriptor 0 ''o'', Literal (VNum 9), SetProp 1 ''n'' 2]
       ([VRef 2], [PlainObject [(''o'', VRef 1)], PlainObject [(''n'', VNum 1)], ObjectProxy \<lparr>ao_data = 0, ao_newData = [], ao_deleted = []\<rparr>])) ! 1
     = PlainObject [(''n'', VNum 9)]"
  by code_simp

text \<open>\<open>Object.defineProperty\<close> on the proxy, of an object and of an array, changes the data itself.\<close>

lemma define_reaches_data:
  "snd (execSteps (\<lambda>_. []) [Literal (VNum 9), DefineProp 0 ''n'' 1]
       ([VRef 1], [PlainObject [(''n'', VNum 1)], ObjectProxy \<lparr>ao_data = 0, ao_newData = [], ao_deleted = []\<rparr>])) ! 0
     = PlainObject [(''n'', VNum 9)]"
  "snd (execSteps (\<lambda>_. []) [Literal (VNum 9), DefineIndex 0 0 1]
       ([VRef 1], [ArrayObject [Some (VNum 1)], ArrayProxy \<lparr>aa_data = 0, aa_newData = None\<rparr>])) ! 0
     = ArrayObject [Some (VNum 9)]"
  by code_simp+

text \<open>After a change the descriptor of an element of an array is the one of the data, or has no value.\<close>

lemma arrayDescriptor_differs:
  "arrayDescriptor [ArrayObject [Some (VNum 1)]] \<lparr>aa_data = 0, aa_newData = Some [Some (VNum 5), Some (VNum 6)]\<rparr> 0 = Some (VNum 1)"
  "arrayDescriptor [ArrayObject [Some (VNum 1)]] \<lparr>aa_data = 0, aa_newData = Some [Some (VNum 5), Some (VNum 6)]\<rparr> 1 = Some VUndef"
  by (simp_all add: arrayDescriptor_def elementsOf_def heapGet_def)

section \<open>An augmented object is a copy\<close>

text \<open>An object with a state: what its properties are, and how a property is put and taken away.\<close>

locale js_object =
  fixes properties :: "'s \<Rightarrow> string \<Rightarrow> jsval option"
    and put :: "string \<Rightarrow> jsval \<Rightarrow> 's \<Rightarrow> 's"
    and remove :: "string \<Rightarrow> 's \<Rightarrow> 's"
  assumes properties_put: "v \<noteq> VUndef \<Longrightarrow> properties (put k v s) = (properties s)(k \<mapsto> v)"
    and properties_remove: "properties (remove k s) = (properties s)(k := None)"

datatype change = Put string jsval | Remove string

fun isUndefinedPut :: "change \<Rightarrow> bool" where
  "isUndefinedPut (Put _ v) = (v = VUndef)"
| "isUndefinedPut (Remove _) = False"

fun changeMap :: "change \<Rightarrow> (string \<Rightarrow> jsval option) \<Rightarrow> string \<Rightarrow> jsval option" where
  "changeMap (Put k v) m = m(k \<mapsto> v)"
| "changeMap (Remove k) m = m(k := None)"

context js_object
begin

fun change :: "change \<Rightarrow> 's \<Rightarrow> 's" where
  "change (Put k v) s = put k v s"
| "change (Remove k) s = remove k s"

lemma properties_change: "\<not> isUndefinedPut c \<Longrightarrow> properties (change c s) = changeMap c (properties s)"
  by (cases c) (simp_all add: properties_put properties_remove)

lemma properties_changes:
  "\<forall>c \<in> set cs. \<not> isUndefinedPut c \<Longrightarrow> properties (fold change cs s) = fold changeMap cs (properties s)"
  by (induction cs arbitrary: s) (simp_all add: properties_change)

end

text \<open>The properties of an augmented object.\<close>

lemma key_iff: "k \<in> fst ` set ps \<longleftrightarrow> map_of ps k \<noteq> None"
  by (simp add: map_of_eq_None_iff)

lemma objectDescriptor_layers:
  "objectDescriptor data k ao =
     (if k \<in> set (ao_deleted ao) then None
      else case map_of (ao_newData ao) k of None \<Rightarrow> map_of data k | Some v \<Rightarrow> Some v)"
  by (auto simp: objectDescriptor_def key_iff split: option.splits)

lemma objectDescriptor_set:
  "v \<noteq> VUndef \<Longrightarrow> (\<lambda>j. objectDescriptor data j (objectSet data k v ao)) = (\<lambda>j. objectDescriptor data j ao)(k \<mapsto> v)"
  by (auto simp: objectDescriptor_layers objectSet_def Let_def fun_eq_iff update_conv')

lemma objectDescriptor_delete:
  "(\<lambda>j. objectDescriptor data j (objectDelete data k ao)) = (\<lambda>j. objectDescriptor data j ao)(k := None)"
  by (auto simp: objectDescriptor_layers objectDelete_def fun_eq_iff key_iff delete_conv' split: option.splits)

interpretation augmented: js_object "\<lambda>ao k. objectDescriptor data k ao" "objectSet data" "objectDelete data" for data
  by unfold_locales (rule objectDescriptor_set objectDescriptor_delete; assumption?)+

interpretation plain: js_object map_of AList.update AList.delete
  by unfold_locales (simp_all add: update_conv' delete_conv')

text \<open>A change made to the proxy, and the same change made to a copy of the data.\<close>

fun changeAugmented :: "(string \<times> jsval) list \<Rightarrow> change \<Rightarrow> AugmentedObject \<Rightarrow> AugmentedObject" where
  "changeAugmented data (Put k v) ao = objectSet data k v ao"
| "changeAugmented data (Remove k) ao = objectDelete data k ao"

fun changePlain :: "change \<Rightarrow> (string \<times> jsval) list \<Rightarrow> (string \<times> jsval) list" where
  "changePlain (Put k v) ps = AList.update k v ps"
| "changePlain (Remove k) ps = AList.delete k ps"

lemma change_instances:
  "augmented.change data = changeAugmented data" "plain.change = changePlain"
proof -
  have "augmented.change data c ao = changeAugmented data c ao" for c ao by (cases c) simp_all
  then show "augmented.change data = changeAugmented data" by (simp add: fun_eq_iff)
  have "plain.change c ps = changePlain c ps" for c ps by (cases c) simp_all
  then show "plain.change = changePlain" by (simp add: fun_eq_iff)
qed

definition freshAugmented :: "addr \<Rightarrow> AugmentedObject" where
  "freshAugmented a = \<lparr>ao_data = a, ao_newData = [], ao_deleted = []\<rparr>"

lemma copy_properties:
  assumes "\<forall>c \<in> set cs. \<not> isUndefinedPut c"
  shows "objectDescriptor data k (fold (changeAugmented data) cs (freshAugmented a)) = map_of (fold changePlain cs data) k"
proof -
  have "(\<lambda>k. objectDescriptor data k (fold (changeAugmented data) cs (freshAugmented a)))
      = fold changeMap cs (\<lambda>k. objectDescriptor data k (freshAugmented a))"
    using augmented.properties_changes [OF assms, of data "freshAugmented a"] by (simp add: change_instances)
  also have "(\<lambda>k. objectDescriptor data k (freshAugmented a)) = map_of data"
    by (simp add: objectDescriptor_layers freshAugmented_def)
  also have "fold changeMap cs (map_of data) = map_of (fold changePlain cs data)"
    using plain.properties_changes [OF assms, of data] by (simp add: change_instances)
  finally show ?thesis by (rule fun_cong)
qed

lemma objectHas_iff: "objectHas data k ao \<longleftrightarrow> objectDescriptor data k ao \<noteq> None"
  by (simp add: objectHas_def objectDescriptor_def key_iff)

lemma objectOwnKeys_iff: "k \<in> set (objectOwnKeys data ao) \<longleftrightarrow> objectDescriptor data k ao \<noteq> None"
proof -
  have "k \<in> set (objectOwnKeys data ao) \<longleftrightarrow> k \<notin> set (ao_deleted ao) \<and> (k \<in> fst ` set data \<or> k \<in> fst ` set (ao_newData ao))"
    by (auto simp: objectOwnKeys_def)
  then show ?thesis unfolding objectDescriptor_layers key_iff by (auto split: option.splits)
qed

lemma distinct_objectOwnKeys: "distinct (objectOwnKeys data ao)"
  by (simp add: objectOwnKeys_def)

lemma objectGet_primitive:
  assumes "propertiesOf h (ao_data ao) = data" "objectDescriptor data k ao = Some v" "\<forall>r. v \<noteq> VRef r"
  shows "objectGet dateText p ao k h = (v, h)"
  using assms
  by (auto simp: objectGet_def objectDescriptor_layers lookup_or_def split: if_splits option.splits jsval.splits)

lemma objectGet_missing:
  assumes "propertiesOf h (ao_data ao) = data" "objectDescriptor data k ao = None"
  shows "objectGet dateText p ao k h = (VUndef, h)"
  using assms by (auto simp: objectGet_def objectDescriptor_layers lookup_or_def split: if_splits option.splits)

lemma ao_data_changes: "ao_data (fold (changeAugmented data) cs ao) = ao_data ao"
proof (induction cs arbitrary: ao)
  case (Cons c cs)
  have "ao_data (changeAugmented data c ao) = ao_data ao" by (cases c) (simp_all add: objectSet_def objectDelete_def Let_def)
  with Cons show ?case by simp
qed simp

text \<open>C13: After any sequence of writes of defined values and deletions through the proxy, an augmented object has the
  properties that a copy of the data would have after the same changes, with the same values in their descriptors: \<open>in\<close>
  agrees, the list of keys has the keys of the copy, each once (their order may differ), and to read a property that is
  missing or whose value is not an object gives what the copy gives and changes nothing, so such reads may come in between.
  To read a property whose value is an object gives an augmented one and is not part of the statement.\<close>

theorem augmentObject_copies:
  assumes "heapGet h a = Some (PlainObject data)" "\<forall>c \<in> set cs. \<not> isUndefinedPut c"
  shows "let ao = fold (changeAugmented data) cs (freshAugmented a);
             copy = fold changePlain cs data
         in (\<forall>k. objectDescriptor data k ao = map_of copy k \<and> (objectHas data k ao \<longleftrightarrow> k \<in> fst ` set copy)) \<and>
            set (objectOwnKeys data ao) = fst ` set copy \<and> distinct (objectOwnKeys data ao) \<and>
            (\<forall>k. (\<forall>r. map_of copy k \<noteq> Some (VRef r)) \<longrightarrow> objectGet dateText p ao k h = (lookup_or copy k, h))"
proof -
  let ?ao = "fold (changeAugmented data) cs (freshAugmented a)" and ?copy = "fold changePlain cs data"
  note view = copy_properties [OF assms(2), of data _ a]
  have data: "propertiesOf h (ao_data ?ao) = data"
    using assms(1) by (simp add: ao_data_changes propertiesOf_def) (simp add: freshAugmented_def)
  have "objectGet dateText p ?ao k h = (lookup_or ?copy k, h)" if "\<forall>r. map_of ?copy k \<noteq> Some (VRef r)" for k
    using that objectGet_primitive [OF data, of k] objectGet_missing [OF data, of k]
    by (cases "map_of ?copy k") (auto simp: lookup_or_def view)
  moreover have "set (objectOwnKeys data ?ao) = fst ` set ?copy"
    by (rule set_eqI) (simp only: objectOwnKeys_iff view key_iff)
  ultimately show ?thesis by (simp add: objectHas_iff view key_iff distinct_objectOwnKeys)
qed

lemma augmentObject_copies_witness:
  "let data = [(''a'', VNum 1), (''b'', VRef 0)]; cs = [Remove ''a'', Put ''c'' (VNum 3), Put ''a'' VNull, Remove ''b''];
       ao = fold (changeAugmented data) cs (freshAugmented 1)
   in objectOwnKeys data ao = [''a'', ''c''] \<and> set (objectOwnKeys data ao) = fst ` set (fold changePlain cs data)"
  using augmentObject_copies [of "[ArrayObject [], PlainObject [(''a'', VNum 1), (''b'', VRef 0)]]" 1
      "[(''a'', VNum 1), (''b'', VRef 0)]" "[Remove ''a'', Put ''c'' (VNum 3), Put ''a'' VNull, Remove ''b'']" "\<lambda>_. []" 2]
  by (simp add: heapGet_def Let_def) (simp add: objectOwnKeys_def freshAugmented_def objectSet_def objectDelete_def set_add_def set_remove_def)

text \<open>Writing \<open>undefined\<close> takes the property away, where a copy would keep it.\<close>

lemma undefined_removes:
  "objectHas [(''a'', VNum 1)] ''a'' (objectSet [(''a'', VNum 1)] ''a'' VUndef (freshAugmented 0)) = False"
  "''a'' \<in> fst ` set (AList.update ''a'' VUndef [(''a'', VNum 1)])"
  by (simp_all add: objectHas_def objectSet_def freshAugmented_def set_add_def)

end
