(* ===== verification/ScheduledTasks.thy ===== *)
theory ScheduledTasks
  imports JsonValues "HOL-Library.List_Lexorder" "HOL-Library.Char_ord"
begin

text \<open>
  Running a node at given times: \<^verbatim>\<open>packages/core/src/execution-engine/scheduled-task-manager.ts\<close> and
  \<^verbatim>\<open>packages/workflow/src/cron.ts\<close>. A job of the library \<^verbatim>\<open>cron\<close> is an identity and its callback in the list of jobs that
  run; whether the library accepts an expression and a time zone is a parameter. The JSON text of a key is its value.
\<close>

section \<open>Cron expressions\<close>

datatype TriggerTime =
    EveryMinute
  | EveryXMinutes nat
  | EveryHour nat
  | EveryXHours nat
  | EveryDay nat nat
  | EveryWeek nat nat nat
  | EveryMonth nat nat nat
  | CustomTrigger string

text \<open>The arguments are the second and the minute that are drawn at random. The times of a day have the hour first, then the
  minute; the day comes last.\<close>

fun toCronExpression :: "nat \<Rightarrow> nat \<Rightarrow> TriggerTime \<Rightarrow> string" where
  "toCronExpression second _ EveryMinute = nat_str second @ '' * * * * *''"
| "toCronExpression second _ (EveryHour minute) = nat_str second @ '' '' @ nat_str minute @ '' * * * *''"
| "toCronExpression second _ (EveryXMinutes v) = nat_str second @ '' */'' @ nat_str v @ '' * * * *''"
| "toCronExpression second rminute (EveryXHours v) = nat_str second @ '' '' @ nat_str rminute @ '' */'' @ nat_str v @ '' * * *''"
| "toCronExpression second _ (EveryDay hour minute) = nat_str second @ '' '' @ nat_str minute @ '' '' @ nat_str hour @ '' * * *''"
| "toCronExpression second _ (EveryWeek hour minute weekday) =
     nat_str second @ '' '' @ nat_str minute @ '' '' @ nat_str hour @ '' * * '' @ nat_str weekday"
| "toCronExpression second _ (EveryMonth hour minute dayOfMonth) =
     nat_str second @ '' '' @ nat_str minute @ '' '' @ nat_str hour @ '' '' @ nat_str dayOfMonth @ '' * *''"
| "toCronExpression _ _ (CustomTrigger e) = js_trim e"

section \<open>Contexts and keys\<close>

datatype CronRecurrenceRule = NotActivated | Activated nat nat string

record CronContext =
  cx_nodeId :: string
  cx_workflowId :: string
  cx_timezone :: string
  cx_expression :: string
  cx_recurrence :: "CronRecurrenceRule option"

definition flattenedContext :: "CronContext \<Rightarrow> (string \<times> json) list" where
  "flattenedContext ctx =
     [(''workflowId'', JStr (cx_workflowId ctx)), (''nodeId'', JStr (cx_nodeId ctx)),
      (''expression'', JStr (cx_expression ctx)), (''timezone'', JStr (cx_timezone ctx))] @
     (case cx_recurrence ctx of
        None \<Rightarrow> []
      | Some NotActivated \<Rightarrow> [(''recurrenceActivated'', JBool False)]
      | Some (Activated i n t) \<Rightarrow>
          [(''recurrenceActivated'', JBool True), (''recurrenceIndex'', JNum (int i)),
           (''recurrenceIntervalSize'', JNum (int n)), (''recurrenceTypeInterval'', JStr t)])"

definition toCronKey :: "CronContext \<Rightarrow> json" where
  "toCronKey ctx = JObj (sort_key fst (flattenedContext ctx))"

definition summaryOf :: "CronContext \<Rightarrow> string" where
  "summaryOf ctx = (case cx_recurrence ctx of
     Some (Activated _ n t) \<Rightarrow> cx_expression ctx @ '' (every '' @ nat_str n @ '' '' @ t @ '')''
   | _ \<Rightarrow> cx_expression ctx)"

section \<open>The manager\<close>

record Cron =
  cr_job :: nat
  cr_summary :: string
  cr_ctx :: CronContext

text \<open>What a job calls: the poll of a node of a workflow.\<close>

type_synonym PollTarget = "string \<times> INode"

record ScheduledTaskManager =
  cronsByWorkflow :: "(string \<times> (json \<times> Cron) list) list"
  stm_jobs :: "(nat \<times> PollTarget) list"
  stm_nextJob :: nat
  stm_reported :: "CronContext list"
  stm_logInterval :: bool

definition newScheduledTaskManager :: "nat \<Rightarrow> ScheduledTaskManager" where
  "newScheduledTaskManager activeInterval = \<lparr>cronsByWorkflow = [], stm_jobs = [], stm_nextJob = 0, stm_reported = [],
     stm_logInterval = (activeInterval \<noteq> 0)\<rparr>"

definition loggableCrons :: "ScheduledTaskManager \<Rightarrow> (string \<times> string list) list" where
  "loggableCrons m = map (\<lambda>(w, crons). (''workflowId-'' @ w, map (cr_summary \<circ> snd) crons)) (cronsByWorkflow m)"

text \<open>\<open>cronJob\<close> is the error the library throws for an expression and a time zone, if it does.\<close>

definition registerCron :: "(string \<Rightarrow> string \<Rightarrow> js_error option) \<Rightarrow> CronContext \<Rightarrow> PollTarget \<Rightarrow>
    ScheduledTaskManager \<Rightarrow> js_error + ScheduledTaskManager" where
  "registerCron cronJob ctx onTick m =
     (let workflowCrons = map_of (cronsByWorkflow m) (cx_workflowId ctx);
          key = toCronKey ctx
      in if (case workflowCrons of None \<Rightarrow> False | Some crons \<Rightarrow> map_of crons key \<noteq> None)
         then Inr (m\<lparr>stm_reported := stm_reported m @ [ctx]\<rparr>)
         else case cronJob (cx_expression ctx) (cx_timezone ctx) of
           Some e \<Rightarrow> Inl e
         | None \<Rightarrow>
             let job = stm_nextJob m;
                 cron = \<lparr>cr_job = job, cr_summary = summaryOf ctx, cr_ctx = ctx\<rparr>;
                 crons = (case workflowCrons of None \<Rightarrow> [(key, cron)] | Some crons \<Rightarrow> AList.update key cron crons)
             in Inr (m\<lparr>stm_jobs := stm_jobs m @ [(job, onTick)], stm_nextJob := Suc job,
                  cronsByWorkflow := AList.update (cx_workflowId ctx) crons (cronsByWorkflow m)\<rparr>))"

definition deregisterCrons :: "string \<Rightarrow> ScheduledTaskManager \<Rightarrow> ScheduledTaskManager" where
  "deregisterCrons workflowId m = (case map_of (cronsByWorkflow m) workflowId of
     None \<Rightarrow> m
   | Some crons \<Rightarrow>
       if crons = [] then m
       else m\<lparr>stm_jobs := fold (\<lambda>(_, cron). AList.delete (cr_job cron)) crons (stm_jobs m),
              cronsByWorkflow := AList.delete workflowId (cronsByWorkflow m)\<rparr>)"

definition deregisterAllCrons :: "ScheduledTaskManager \<Rightarrow> ScheduledTaskManager" where
  "deregisterAllCrons m = (fold deregisterCrons (map fst (cronsByWorkflow m)) m)\<lparr>stm_logInterval := False\<rparr>"

text \<open>The callback of a job, called at its times while it runs: the leader alone acts.\<close>

definition cronTick :: "bool \<Rightarrow> nat \<Rightarrow> ScheduledTaskManager \<Rightarrow> PollTarget option" where
  "cronTick isLeader job m = (if isLeader then map_of (stm_jobs m) job else None)"

end
