(* ===== verification/ActiveWorkflows.thy ===== *)
theory ActiveWorkflows
  imports ScheduledTasks WorkflowGraph
begin

text \<open>
  Activating a workflow, which starts its triggers and polls its pollers at their times:
  \<^verbatim>\<open>packages/core/src/execution-engine/active-workflows.ts\<close> and \<^verbatim>\<open>triggers-and-pollers.ts\<close>. What the nodes do when they are
  called is a parameter, which may depend on all that happened before; every such call is an event. An operation runs to
  its end before the next one starts, and it leaves the changes it made when it throws, so it returns a result and a state.
\<close>

section \<open>State\<close>

record IdentifiedWorkflow =
  wi_id :: string
  wi_timezone :: string
  wi_workflow :: Workflow

text \<open>The function that closes a trigger is the number of the event that started it.\<close>

record ITriggerResponse =
  closeFunction :: "nat option"

datatype TriggerEvent =
    TriggerStarted string INode
  | TriggerFailed string INode
  | TriggerClosed nat
  | CloseFailed nat
  | Polled string INode
  | Emitted string INode
  | EmittedError string INode js_error

datatype CloseOutcome = Closes | ThrowsTriggerCloseError | ThrowsOther js_error

datatype ActivationError =
    WorkflowActivationError js_error INode
  | WorkflowDeactivationError js_error string

record ActiveWorkflows =
  activeWorkflows :: "(string \<times> ITriggerResponse list) list"
  scheduledTasks :: ScheduledTaskManager
  aw_draws :: nat
  aw_events :: "TriggerEvent list"

text \<open>
  The code outside: the registry of node types, the functions \<open>trigger\<close> (which may return a response, with or without a function
  to close it) and \<open>poll\<close> (which may return data) of a node, the close functions, the times and the id of a node, the numbers
  below 60 that are drawn at random, and the errors of the library \<^verbatim>\<open>cron\<close>.
\<close>

record TriggerEnv =
  te_nodeTypes :: "INode \<Rightarrow> INodeType option"
  te_trigger :: "TriggerEvent list \<Rightarrow> string \<Rightarrow> INode \<Rightarrow> js_error + bool option"
  te_poll :: "TriggerEvent list \<Rightarrow> string \<Rightarrow> INode \<Rightarrow> js_error + bool"
  te_close :: "TriggerEvent list \<Rightarrow> nat \<Rightarrow> CloseOutcome"
  te_pollTimes :: "INode \<Rightarrow> TriggerTime list"
  te_nodeId :: "INode \<Rightarrow> string"
  te_randomInt :: "nat \<Rightarrow> nat"
  te_cronJob :: "string \<Rightarrow> string \<Rightarrow> js_error option"

definition logEvent :: "TriggerEvent \<Rightarrow> ActiveWorkflows \<Rightarrow> ActiveWorkflows" where
  "logEvent e s = s\<lparr>aw_events := aw_events s @ [e]\<rparr>"

definition isActive :: "string \<Rightarrow> ActiveWorkflows \<Rightarrow> bool" where
  "isActive workflowId s \<longleftrightarrow> workflowId \<in> fst ` set (activeWorkflows s)"

definition allActiveWorkflows :: "ActiveWorkflows \<Rightarrow> string list" where
  "allActiveWorkflows s = map fst (activeWorkflows s)"

definition getActive :: "string \<Rightarrow> ActiveWorkflows \<Rightarrow> ITriggerResponse list option" where
  "getActive workflowId s = map_of (activeWorkflows s) workflowId"

section \<open>Calling a node\<close>

definition runTrigger :: "TriggerEnv \<Rightarrow> bool \<Rightarrow> string \<Rightarrow> INode \<Rightarrow> ActiveWorkflows \<Rightarrow>
    (js_error + ITriggerResponse option) \<times> ActiveWorkflows" where
  "runTrigger env manual workflowId node s = (case te_nodeTypes env node of
     None \<Rightarrow> (Inl TypeError, s)
   | Some nodeType \<Rightarrow>
       if \<not> nt_trigger nodeType then (Inl (ApplicationError ''Node type does not have a trigger function defined''), s)
       else case te_trigger env (aw_events s) workflowId node of
         Inl e \<Rightarrow> (Inl e, logEvent (TriggerFailed workflowId node) s)
       | Inr response \<Rightarrow>
           let started = logEvent (TriggerStarted workflowId node) s;
               triggerResponse = map_option (\<lambda>closes.
                 \<lparr>closeFunction = (if closes then Some (length (aw_events s)) else None)\<rparr>) response
           in if manual \<and> triggerResponse = None then (Inl TypeError, started)
              else (Inr triggerResponse, started))"

definition runPoll :: "TriggerEnv \<Rightarrow> string \<Rightarrow> INode \<Rightarrow> ActiveWorkflows \<Rightarrow> (js_error + bool) \<times> ActiveWorkflows" where
  "runPoll env workflowId node s = (case te_nodeTypes env node of
     None \<Rightarrow> (Inl TypeError, s)
   | Some nodeType \<Rightarrow>
       if \<not> nt_poll nodeType then (Inl (ApplicationError ''Node type does not have a poll function defined''), s)
       else (te_poll env (aw_events s) workflowId node, logEvent (Polled workflowId node) s))"

section \<open>Polling\<close>

text \<open>\<open>executeTrigger\<close>: the first poll is a test whose error reaches the user, later errors are emitted.\<close>

definition executeTrigger :: "TriggerEnv \<Rightarrow> bool \<Rightarrow> string \<Rightarrow> INode \<Rightarrow> ActiveWorkflows \<Rightarrow> (js_error + unit) \<times> ActiveWorkflows" where
  "executeTrigger env testingTrigger workflowId node s = (case runPoll env workflowId node s of
     (Inl e, s') \<Rightarrow>
       if testingTrigger then (Inl e, s')
       else (Inr (), logEvent (EmittedError workflowId node e) s')
   | (Inr pollResponse, s') \<Rightarrow>
       (Inr (), if pollResponse then logEvent (Emitted workflowId node) s' else s'))"

definition cronExpressionsOf :: "TriggerEnv \<Rightarrow> TriggerTime list \<Rightarrow> ActiveWorkflows \<Rightarrow> string list \<times> ActiveWorkflows" where
  "cronExpressionsOf env items s =
     fold (\<lambda>item (expressions, s).
         let minuteDrawn = (case item of EveryXHours _ \<Rightarrow> True | _ \<Rightarrow> False)
         in (expressions @ [toCronExpression (te_randomInt env (aw_draws s)) (te_randomInt env (Suc (aw_draws s))) item],
             s\<lparr>aw_draws := aw_draws s + (if minuteDrawn then 2 else 1)\<rparr>))
       items ([], s)"

text \<open>\<open>expression.split(' ').at(0)\<close> has a star.\<close>

definition intervalTooShort :: "string \<Rightarrow> bool" where
  "intervalTooShort expression \<longleftrightarrow> CHR ''*'' \<in> set (takeWhile (\<lambda>c. c \<noteq> CHR '' '') expression)"

fun registerPolling :: "TriggerEnv \<Rightarrow> IdentifiedWorkflow \<Rightarrow> INode \<Rightarrow> string list \<Rightarrow> ActiveWorkflows \<Rightarrow>
    (js_error + unit) \<times> ActiveWorkflows" where
  "registerPolling env workflow node [] s = (Inr (), s)"
| "registerPolling env workflow node (expression # expressions) s =
     (if intervalTooShort expression
      then (Inl (UserError ''The polling interval is too short. It has to be at least a minute.''), s)
      else
        let ctx = \<lparr>cx_nodeId = te_nodeId env node, cx_workflowId = wi_id workflow, cx_timezone = wi_timezone workflow,
              cx_expression = expression, cx_recurrence = None\<rparr>
        in case registerCron (te_cronJob env) ctx (wi_id workflow, node) (scheduledTasks s) of
             Inl e \<Rightarrow> (Inl e, s)
           | Inr m \<Rightarrow> registerPolling env workflow node expressions (s\<lparr>scheduledTasks := m\<rparr>))"

definition activatePolling :: "TriggerEnv \<Rightarrow> IdentifiedWorkflow \<Rightarrow> INode \<Rightarrow> ActiveWorkflows \<Rightarrow>
    (js_error + unit) \<times> ActiveWorkflows" where
  "activatePolling env workflow node s =
     (case cronExpressionsOf env (te_pollTimes env node) s of (cronExpressions, s1) \<Rightarrow>
        case executeTrigger env True (wi_id workflow) node s1 of
          (Inl e, s2) \<Rightarrow> (Inl e, s2)
        | (Inr _, s2) \<Rightarrow> registerPolling env workflow node cronExpressions s2)"

text \<open>The callback of a job.\<close>

definition jobTick :: "TriggerEnv \<Rightarrow> bool \<Rightarrow> nat \<Rightarrow> ActiveWorkflows \<Rightarrow> ActiveWorkflows" where
  "jobTick env isLeader job s = (case cronTick isLeader job (scheduledTasks s) of
     None \<Rightarrow> s
   | Some (workflowId, node) \<Rightarrow> snd (executeTrigger env False workflowId node s))"

section \<open>Activating and deactivating\<close>

fun startTriggers :: "TriggerEnv \<Rightarrow> bool \<Rightarrow> string \<Rightarrow> INode list \<Rightarrow> ITriggerResponse list \<Rightarrow> ActiveWorkflows \<Rightarrow>
    (ActivationError + ITriggerResponse list) \<times> ActiveWorkflows" where
  "startTriggers env manual workflowId [] triggerResponses s = (Inr triggerResponses, s)"
| "startTriggers env manual workflowId (triggerNode # nodes) triggerResponses s =
     (case runTrigger env manual workflowId triggerNode s of
        (Inl e, s') \<Rightarrow> (Inl (WorkflowActivationError e triggerNode), s')
      | (Inr None, s') \<Rightarrow> startTriggers env manual workflowId nodes triggerResponses s'
      | (Inr (Some response), s') \<Rightarrow> startTriggers env manual workflowId nodes (triggerResponses @ [response]) s')"

fun activatePollers :: "TriggerEnv \<Rightarrow> string \<Rightarrow> ITriggerResponse list \<Rightarrow> IdentifiedWorkflow \<Rightarrow> INode list \<Rightarrow> ActiveWorkflows \<Rightarrow>
    (ActivationError + unit) \<times> ActiveWorkflows" where
  "activatePollers env workflowId triggerResponses workflow [] s = (Inr (), s)"
| "activatePollers env workflowId triggerResponses workflow (pollNode # nodes) s =
     (case activatePolling env workflow pollNode s of
        (Inl e, s') \<Rightarrow> (Inl (WorkflowActivationError e pollNode),
           if triggerResponses = [] then s'\<lparr>activeWorkflows := AList.delete workflowId (activeWorkflows s')\<rparr> else s')
      | (Inr _, s') \<Rightarrow> activatePollers env workflowId triggerResponses workflow nodes s')"

definition addActive :: "TriggerEnv \<Rightarrow> bool \<Rightarrow> string \<Rightarrow> IdentifiedWorkflow \<Rightarrow> ActiveWorkflows \<Rightarrow>
    (ActivationError + unit) \<times> ActiveWorkflows" where
  "addActive env manual workflowId workflow s =
     (case startTriggers env manual (wi_id workflow) (getTriggerNodes (te_nodeTypes env) (wi_workflow workflow)) [] s of
        (Inl e, s1) \<Rightarrow> (Inl e, s1)
      | (Inr triggerResponses, s1) \<Rightarrow>
          activatePollers env workflowId triggerResponses workflow (getPollNodes (te_nodeTypes env) (wi_workflow workflow))
            (s1\<lparr>activeWorkflows := AList.update workflowId triggerResponses (activeWorkflows s1)\<rparr>))"

definition closeTrigger :: "TriggerEnv \<Rightarrow> string \<Rightarrow> ITriggerResponse \<Rightarrow> ActiveWorkflows \<Rightarrow>
    (ActivationError + unit) \<times> ActiveWorkflows" where
  "closeTrigger env workflowId response s = (case closeFunction response of
     None \<Rightarrow> (Inr (), s)
   | Some t \<Rightarrow> (case te_close env (aw_events s) t of
       Closes \<Rightarrow> (Inr (), logEvent (TriggerClosed t) s)
     | ThrowsTriggerCloseError \<Rightarrow> (Inr (), logEvent (CloseFailed t) s)
     | ThrowsOther e \<Rightarrow> (Inl (WorkflowDeactivationError e workflowId), logEvent (CloseFailed t) s)))"

fun closeTriggers :: "TriggerEnv \<Rightarrow> string \<Rightarrow> ITriggerResponse list \<Rightarrow> ActiveWorkflows \<Rightarrow>
    (ActivationError + unit) \<times> ActiveWorkflows" where
  "closeTriggers env workflowId [] s = (Inr (), s)"
| "closeTriggers env workflowId (r # rs) s = (case closeTrigger env workflowId r s of
     (Inl e, s') \<Rightarrow> (Inl e, s')
   | (Inr _, s') \<Rightarrow> closeTriggers env workflowId rs s')"

definition removeActive :: "TriggerEnv \<Rightarrow> string \<Rightarrow> ActiveWorkflows \<Rightarrow> (ActivationError + bool) \<times> ActiveWorkflows" where
  "removeActive env workflowId s = (case map_of (activeWorkflows s) workflowId of
     None \<Rightarrow> (Inr False, s)
   | Some triggerResponses \<Rightarrow>
       (case closeTriggers env workflowId triggerResponses
               (s\<lparr>scheduledTasks := deregisterCrons workflowId (scheduledTasks s)\<rparr>) of
          (Inl e, s') \<Rightarrow> (Inl e, s')
        | (Inr _, s') \<Rightarrow> (Inr True, s'\<lparr>activeWorkflows := AList.delete workflowId (activeWorkflows s')\<rparr>)))"

fun removeEach :: "TriggerEnv \<Rightarrow> string list \<Rightarrow> ActiveWorkflows \<Rightarrow> (ActivationError + unit) \<times> ActiveWorkflows" where
  "removeEach env [] s = (Inr (), s)"
| "removeEach env (workflowId # ids) s = (case removeActive env workflowId s of
     (Inl e, s') \<Rightarrow> (Inl e, s')
   | (Inr _, s') \<Rightarrow> removeEach env ids s')"

definition removeAllTriggerAndPollerBasedWorkflows :: "TriggerEnv \<Rightarrow> ActiveWorkflows \<Rightarrow>
    (ActivationError + unit) \<times> ActiveWorkflows" where
  "removeAllTriggerAndPollerBasedWorkflows env s = removeEach env (allActiveWorkflows s) s"

end
