(* ===== verification/ActivationQueue.thy ===== *)
theory ActivationQueue
  imports ActiveWorkflows
begin

text \<open>
  The workflows of an instance that are to be active, and the retries of activations that failed:
  \<^verbatim>\<open>packages/cli/src/active-workflow-manager.ts\<close>, with \<^verbatim>\<open>workflow-validation.ts\<close> and \<^verbatim>\<open>activation-errors.service.ts\<close>. The
  database and the webhooks of a workflow are parameters, which may depend on what happened before. A timer is an entry in
  the list of pending timers until it fires; an operation runs to its end before the next one starts.
\<close>

section \<open>State\<close>

datatype WorkflowActivateMode = Init | Create | Update | Activate | ManualMode | LeadershipChange

record DbWorkflow =
  db_id :: string
  db_timezone :: string
  db_activeVersionId :: "string option"
  db_activeVersion :: "Workflow option"

datatype ManagerError =
    ActivationFailed ActivationError
  | NoWorkflow string
  | NoTriggerNode string
  | OtherError js_error

datatype ManagerEvent =
    WebhooksAdded string
  | WebhooksFailed string
  | WebhooksCleared string
  | TriggerCountSaved string
  | ErrorWorkflowRun string ManagerError
  | PublishedAdd string string
  | PublishedRemove string
  | PublishedActivation string
  | PublishedActivationError string
  | PublishedDeactivation string
  | MarkedInactive string

record QueuedActivation =
  qa_activationMode :: WorkflowActivateMode
  qa_lastTimeout :: nat
  qa_timeout :: nat
  qa_workflowData :: DbWorkflow

record RetryTimer =
  rt_workflowId :: string
  rt_activationMode :: WorkflowActivateMode
  rt_workflowData :: DbWorkflow
  rt_delay :: nat

record ActiveWorkflowManager =
  awm_active :: ActiveWorkflows
  queuedActivations :: "(string \<times> QueuedActivation) list"
  awm_timers :: "(nat \<times> RetryTimer) list"
  awm_nextTimer :: nat
  activationErrors :: "(string \<times> ManagerError) list"
  awm_events :: "ManagerEvent list"

record ManagerEnv =
  me_triggers :: TriggerEnv
  me_isLeader :: bool
  me_isMultiMain :: bool
  me_findById :: "string \<Rightarrow> DbWorkflow option"
  me_hasWebhook :: "INode \<Rightarrow> bool"
  me_addWebhooks :: "ManagerEvent list \<Rightarrow> string \<Rightarrow> js_error + bool"
  me_saveTriggerCount :: "ManagerEvent list \<Rightarrow> string \<Rightarrow> js_error option"
  me_isAuthorization :: "ManagerError \<Rightarrow> bool"

record AddedParts =
  added_webhooks :: bool
  added_triggersAndPollers :: bool

definition WORKFLOW_REACTIVATE_INITIAL_TIMEOUT :: nat where
  "WORKFLOW_REACTIVATE_INITIAL_TIMEOUT = 1000"

definition WORKFLOW_REACTIVATE_MAX_TIMEOUT :: nat where
  "WORKFLOW_REACTIVATE_MAX_TIMEOUT = 24 * 60 * 60 * 1000"

definition STARTING_NODES :: "string list" where
  "STARTING_NODES = [''@n8n/n8n-nodes-langchain.manualChatTrigger'', ''n8n-nodes-base.manualTrigger'']"

definition logManager :: "ManagerEvent \<Rightarrow> ActiveWorkflowManager \<Rightarrow> ActiveWorkflowManager" where
  "logManager e m = m\<lparr>awm_events := awm_events m @ [e]\<rparr>"

definition registerError :: "string \<Rightarrow> ManagerError \<Rightarrow> ActiveWorkflowManager \<Rightarrow> ActiveWorkflowManager" where
  "registerError workflowId e m = m\<lparr>activationErrors := AList.update workflowId e (activationErrors m)\<rparr>"

definition deregisterError :: "string \<Rightarrow> ActiveWorkflowManager \<Rightarrow> ActiveWorkflowManager" where
  "deregisterError workflowId m = m\<lparr>activationErrors := AList.delete workflowId (activationErrors m)\<rparr>"

section \<open>The queue of retries\<close>

definition setTimer :: "RetryTimer \<Rightarrow> ActiveWorkflowManager \<Rightarrow> nat \<times> ActiveWorkflowManager" where
  "setTimer t m = (awm_nextTimer m, m\<lparr>awm_timers := awm_timers m @ [(awm_nextTimer m, t)], awm_nextTimer := Suc (awm_nextTimer m)\<rparr>)"

definition removeQueuedWorkflowActivation :: "string \<Rightarrow> ActiveWorkflowManager \<Rightarrow> ActiveWorkflowManager" where
  "removeQueuedWorkflowActivation workflowId m = (case map_of (queuedActivations m) workflowId of
     None \<Rightarrow> m
   | Some qa \<Rightarrow> m\<lparr>awm_timers := AList.delete (qa_timeout qa) (awm_timers m),
       queuedActivations := AList.delete workflowId (queuedActivations m)\<rparr>)"

definition removeAllQueuedWorkflowActivations :: "ActiveWorkflowManager \<Rightarrow> ActiveWorkflowManager" where
  "removeAllQueuedWorkflowActivations m = fold removeQueuedWorkflowActivation (map fst (queuedActivations m)) m"

definition addQueuedWorkflowActivation :: "WorkflowActivateMode \<Rightarrow> DbWorkflow \<Rightarrow> ActiveWorkflowManager \<Rightarrow> ActiveWorkflowManager" where
  "addQueuedWorkflowActivation activationMode workflowData m =
     (case setTimer \<lparr>rt_workflowId = db_id workflowData, rt_activationMode = activationMode, rt_workflowData = workflowData,
             rt_delay = WORKFLOW_REACTIVATE_INITIAL_TIMEOUT\<rparr> (removeQueuedWorkflowActivation (db_id workflowData) m) of
        (timeout, m') \<Rightarrow> m'\<lparr>queuedActivations := AList.update (db_id workflowData)
          \<lparr>qa_activationMode = activationMode, qa_lastTimeout = WORKFLOW_REACTIVATE_INITIAL_TIMEOUT, qa_timeout = timeout,
           qa_workflowData = workflowData\<rparr> (queuedActivations m')\<rparr>)"

section \<open>Activating\<close>

definition validateWorkflowHasTriggerLikeNode :: "(INode \<Rightarrow> INodeType option) \<Rightarrow> (INode \<Rightarrow> bool) \<Rightarrow> string list \<Rightarrow> Workflow \<Rightarrow> bool" where
  "validateWorkflowHasTriggerLikeNode nodeTypes hasWebhook ignoreNodeTypes w =
     list_ex (\<lambda>node. disabled node \<noteq> Some True \<and> node_type node \<notin> set ignoreNodeTypes \<and>
         (case nodeTypes node of None \<Rightarrow> False | Some t \<Rightarrow> nt_poll t \<or> nt_trigger t \<or> hasWebhook node))
       (map snd (wf_nodes w))"

definition shouldAddWebhooks :: "ManagerEnv \<Rightarrow> WorkflowActivateMode \<Rightarrow> bool" where
  "shouldAddWebhooks env activationMode = (if activationMode \<in> {Init, LeadershipChange} then True else me_isLeader env)"

definition shouldAddTriggersAndPollers :: "ManagerEnv \<Rightarrow> bool" where
  "shouldAddTriggersAndPollers env = me_isLeader env"

definition addTriggersAndPollers :: "ManagerEnv \<Rightarrow> IdentifiedWorkflow \<Rightarrow> ActiveWorkflowManager \<Rightarrow>
    (ManagerError + bool) \<times> ActiveWorkflowManager" where
  "addTriggersAndPollers env workflow m =
     (if getTriggerNodes (te_nodeTypes (me_triggers env)) (wi_workflow workflow) = [] \<and>
         getPollNodes (te_nodeTypes (me_triggers env)) (wi_workflow workflow) = []
      then (Inr False, m)
      else case addActive (me_triggers env) False (wi_id workflow) workflow (awm_active m) of
        (Inl e, a) \<Rightarrow> (Inl (ActivationFailed e), m\<lparr>awm_active := a\<rparr>)
      | (Inr _, a) \<Rightarrow> (Inr True, m\<lparr>awm_active := a\<rparr>))"

text \<open>The statements of \<open>add\<close> inside \<open>try\<close>.\<close>

definition webhooksStep :: "ManagerEnv \<Rightarrow> WorkflowActivateMode \<Rightarrow> string \<Rightarrow> ActiveWorkflowManager \<Rightarrow>
    (ManagerError + bool) \<times> ActiveWorkflowManager" where
  "webhooksStep env activationMode workflowId m =
     (if shouldAddWebhooks env activationMode
      then case me_addWebhooks env (awm_events m) workflowId of
          Inl e \<Rightarrow> (Inl (OtherError e), logManager (WebhooksFailed workflowId) m)
        | Inr b \<Rightarrow> (Inr b, logManager (WebhooksAdded workflowId) m)
      else (Inr False, m))"

definition triggersStep :: "ManagerEnv \<Rightarrow> IdentifiedWorkflow \<Rightarrow> ActiveWorkflowManager \<Rightarrow> (ManagerError + bool) \<times> ActiveWorkflowManager" where
  "triggersStep env workflow m =
     (if shouldAddTriggersAndPollers env then addTriggersAndPollers env workflow m else (Inr False, m))"

definition activatedStep :: "ManagerEnv \<Rightarrow> string \<Rightarrow> AddedParts \<Rightarrow> ActiveWorkflowManager \<Rightarrow>
    (ManagerError + AddedParts) \<times> ActiveWorkflowManager" where
  "activatedStep env workflowId added m =
     (let m1 = deregisterError workflowId (removeQueuedWorkflowActivation workflowId m)
      in case me_saveTriggerCount env (awm_events m1) workflowId of
        Some e \<Rightarrow> (Inl (OtherError e), m1)
      | None \<Rightarrow> (Inr added, logManager (TriggerCountSaved workflowId) m1))"

definition tryAdd :: "ManagerEnv \<Rightarrow> string \<Rightarrow> WorkflowActivateMode \<Rightarrow> DbWorkflow \<Rightarrow> ActiveWorkflowManager \<Rightarrow>
    (ManagerError + AddedParts) \<times> ActiveWorkflowManager" where
  "tryAdd env workflowId activationMode dbWorkflow m = (case db_activeVersion dbWorkflow of
     None \<Rightarrow>
       if activationMode \<in> {Init, LeadershipChange}
       then (Inr \<lparr>added_webhooks = False, added_triggersAndPollers = False\<rparr>, m)
       else (Inl (OtherError (UnexpectedError ''Active version not found for workflow'')), m)
   | Some version \<Rightarrow>
       let workflow = \<lparr>wi_id = db_id dbWorkflow, wi_timezone = db_timezone dbWorkflow, wi_workflow = version\<rparr>
       in if \<not> validateWorkflowHasTriggerLikeNode (te_nodeTypes (me_triggers env)) (me_hasWebhook env) STARTING_NODES version
          then (Inl (NoTriggerNode (db_id dbWorkflow)), m)
          else case webhooksStep env activationMode (db_id dbWorkflow) m of
            (Inl e, m1) \<Rightarrow> (Inl e, m1)
          | (Inr webhooks, m1) \<Rightarrow> (case triggersStep env workflow m1 of
              (Inl e, m2) \<Rightarrow> (Inl e, m2)
            | (Inr triggers, m2) \<Rightarrow>
                activatedStep env workflowId \<lparr>added_webhooks = webhooks, added_triggersAndPollers = triggers\<rparr> m2))"

definition addWorkflow :: "ManagerEnv \<Rightarrow> string \<Rightarrow> WorkflowActivateMode \<Rightarrow> DbWorkflow option \<Rightarrow> bool \<Rightarrow> ActiveWorkflowManager \<Rightarrow>
    (ManagerError + AddedParts) \<times> ActiveWorkflowManager" where
  "addWorkflow env workflowId activationMode existingWorkflow shouldPublish m =
     (case (case existingWorkflow of None \<Rightarrow> me_findById env workflowId | Some w \<Rightarrow> Some w) of
        None \<Rightarrow> (Inl (NoWorkflow workflowId), m)
      | Some dbWorkflow \<Rightarrow>
          if me_isMultiMain env \<and> shouldPublish
          then case db_activeVersionId dbWorkflow of
              None \<Rightarrow> (Inl (OtherError (UnexpectedError ''Active version ID not found for workflow'')), m)
            | Some v \<Rightarrow> (Inr \<lparr>added_webhooks = False, added_triggersAndPollers = False\<rparr>, logManager (PublishedAdd workflowId v) m)
          else case tryAdd env workflowId activationMode dbWorkflow m of
              (Inl e, m') \<Rightarrow> (Inl e, registerError workflowId e m')
            | (Inr added, m') \<Rightarrow> (Inr added, m'))"

text \<open>
  The callback of a timer: it waits for the activation, and \<open>retryContinue\<close> is what it does with the outcome then. An error
  that is thrown while handling an error is the result. In \<open>retryFunction\<close> nothing comes in between.
\<close>

definition retryContinue :: "RetryTimer \<Rightarrow> ManagerError + AddedParts \<Rightarrow> ActiveWorkflowManager \<Rightarrow> js_error option \<times> ActiveWorkflowManager" where
  "retryContinue t outcome m =
     (case outcome of
        Inr _ \<Rightarrow> (None, m)
      | Inl e \<Rightarrow> (case map_of (queuedActivations m) (rt_workflowId t) of
          None \<Rightarrow> (Some TypeError, m)
        | Some qa \<Rightarrow>
            let lastTimeout =
                  (if qa_lastTimeout qa < WORKFLOW_REACTIVATE_MAX_TIMEOUT
                   then min (qa_lastTimeout qa * 2) WORKFLOW_REACTIVATE_MAX_TIMEOUT else qa_lastTimeout qa)
            in case setTimer (t\<lparr>rt_delay := lastTimeout\<rparr>) m of
                 (timeout, m') \<Rightarrow> (None, m'\<lparr>queuedActivations := AList.update (rt_workflowId t)
                    (qa\<lparr>qa_lastTimeout := lastTimeout, qa_timeout := timeout\<rparr>) (queuedActivations m')\<rparr>)))"

definition retryFunction :: "ManagerEnv \<Rightarrow> RetryTimer \<Rightarrow> ActiveWorkflowManager \<Rightarrow> js_error option \<times> ActiveWorkflowManager" where
  "retryFunction env t m =
     (case addWorkflow env (rt_workflowId t) (rt_activationMode t) (Some (rt_workflowData t)) True m of
        (outcome, m') \<Rightarrow> retryContinue t outcome m')"

definition fireRetryTimer :: "ManagerEnv \<Rightarrow> nat \<Rightarrow> ActiveWorkflowManager \<Rightarrow> ActiveWorkflowManager" where
  "fireRetryTimer env timeout m = (case map_of (awm_timers m) timeout of
     None \<Rightarrow> m
   | Some t \<Rightarrow> snd (retryFunction env t (m\<lparr>awm_timers := AList.delete timeout (awm_timers m)\<rparr>)))"

definition activateWorkflow :: "ManagerEnv \<Rightarrow> string \<Rightarrow> WorkflowActivateMode \<Rightarrow> ActiveWorkflowManager \<Rightarrow>
    js_error option \<times> ActiveWorkflowManager" where
  "activateWorkflow env workflowId activationMode m = (case me_findById env workflowId of
     None \<Rightarrow> (None, m)
   | Some dbWorkflow \<Rightarrow> (case addWorkflow env (db_id dbWorkflow) activationMode (Some dbWorkflow) False m of
       (Inr _, m') \<Rightarrow> (None, m')
     | (Inl e, m') \<Rightarrow>
         if db_activeVersion dbWorkflow = None then (Some (UnexpectedError ''Active version not found for workflow''), m')
         else
           let m1 = logManager (ErrorWorkflowRun (db_id dbWorkflow) e) m'
           in if me_isAuthorization env e then (None, m1)
              else (None, addQueuedWorkflowActivation Init dbWorkflow m1)))"

text \<open>\<open>emitError\<close> of a trigger that fails while it runs; the deactivation is not awaited.\<close>

definition emitTriggerError :: "ManagerEnv \<Rightarrow> WorkflowActivateMode \<Rightarrow> DbWorkflow \<Rightarrow> INode \<Rightarrow> js_error \<Rightarrow> ActiveWorkflowManager \<Rightarrow>
    ActiveWorkflowManager" where
  "emitTriggerError env activation workflowData node e m =
     (let m1 = m\<lparr>awm_active := snd (removeActive (me_triggers env) (db_id workflowData) (awm_active m))\<rparr>;
          m2 = registerError (db_id workflowData) (OtherError e) m1;
          m3 = logManager (ErrorWorkflowRun (db_id workflowData) (ActivationFailed (WorkflowActivationError e node))) m2
      in addQueuedWorkflowActivation activation workflowData m3)"

section \<open>Deactivating, and messages between instances\<close>

definition removeWorkflowTriggersAndPollers :: "ManagerEnv \<Rightarrow> string \<Rightarrow> ActiveWorkflowManager \<Rightarrow>
    (ManagerError + unit) \<times> ActiveWorkflowManager" where
  "removeWorkflowTriggersAndPollers env workflowId m =
     (if \<not> isActive workflowId (awm_active m) then (Inr (), m)
      else case removeActive (me_triggers env) workflowId (awm_active m) of
        (Inl e, a) \<Rightarrow> (Inl (ActivationFailed e), m\<lparr>awm_active := a\<rparr>)
      | (Inr _, a) \<Rightarrow> (Inr (), m\<lparr>awm_active := a\<rparr>))"

definition removeWorkflow :: "ManagerEnv \<Rightarrow> string \<Rightarrow> ActiveWorkflowManager \<Rightarrow> (ManagerError + unit) \<times> ActiveWorkflowManager" where
  "removeWorkflow env workflowId m =
     (let m1 = logManager (WebhooksCleared workflowId) m
      in if me_isMultiMain env then (Inr (), logManager (PublishedRemove workflowId) m1)
         else removeWorkflowTriggersAndPollers env workflowId
           (removeQueuedWorkflowActivation workflowId (deregisterError workflowId m1)))"

definition handleAddWebhooksTriggersAndPollers :: "ManagerEnv \<Rightarrow> string \<Rightarrow> ActiveWorkflowManager \<Rightarrow> ActiveWorkflowManager" where
  "handleAddWebhooksTriggersAndPollers env workflowId m = (case addWorkflow env workflowId Activate None False m of
     (Inr _, m') \<Rightarrow> logManager (PublishedActivation workflowId) m'
   | (Inl e, m') \<Rightarrow> logManager (PublishedActivationError workflowId) (logManager (MarkedInactive workflowId) m'))"

definition handleRemoveTriggersAndPollers :: "ManagerEnv \<Rightarrow> string \<Rightarrow> ActiveWorkflowManager \<Rightarrow>
    (ManagerError + unit) \<times> ActiveWorkflowManager" where
  "handleRemoveTriggersAndPollers env workflowId m =
     (case removeWorkflowTriggersAndPollers env workflowId (deregisterError workflowId m) of
        (Inl e, m') \<Rightarrow> (Inl e, m')
      | (Inr _, m') \<Rightarrow> (Inr (), logManager (PublishedDeactivation workflowId) m'))"

end
