(* ===== verification/ScheduledProps.thy ===== *)
theory ScheduledProps
  imports ScheduledTasks
begin

text \<open>
  The jobs that run are those registered, in every state registering and deregistering lead to.
\<close>

section \<open>Keys\<close>

lemma toCronKey_fields:
  "toCronKey ctx = JObj ((''expression'', JStr (cx_expression ctx)) # (''nodeId'', JStr (cx_nodeId ctx)) #
     (case cx_recurrence ctx of
        None \<Rightarrow> []
      | Some NotActivated \<Rightarrow> [(''recurrenceActivated'', JBool False)]
      | Some (Activated i n t) \<Rightarrow>
          [(''recurrenceActivated'', JBool True), (''recurrenceIndex'', JNum (int i)),
           (''recurrenceIntervalSize'', JNum (int n)), (''recurrenceTypeInterval'', JStr t)]) @
     [(''timezone'', JStr (cx_timezone ctx)), (''workflowId'', JStr (cx_workflowId ctx))])"
  by (simp add: toCronKey_def flattenedContext_def less_eq_char_def split: option.split CronRecurrenceRule.split)

lemma toCronKey_inj: "toCronKey c = toCronKey c' \<Longrightarrow> c = c'"
  by (auto simp: toCronKey_fields split: option.splits CronRecurrenceRule.splits intro: CronContext.equality)

section \<open>Registered and running\<close>

definition registeredAt :: "ScheduledTaskManager \<Rightarrow> string \<Rightarrow> json \<Rightarrow> Cron \<Rightarrow> bool" where
  "registeredAt m w k c \<longleftrightarrow> (\<exists>crons. map_of (cronsByWorkflow m) w = Some crons \<and> map_of crons k = Some c)"

definition registered :: "ScheduledTaskManager \<Rightarrow> Cron \<Rightarrow> bool" where
  "registered m c \<longleftrightarrow> registeredAt m (cx_workflowId (cr_ctx c)) (toCronKey (cr_ctx c)) c"

definition runningJob :: "ScheduledTaskManager \<Rightarrow> nat \<Rightarrow> bool" where
  "runningJob m j \<longleftrightarrow> map_of (stm_jobs m) j \<noteq> None"

definition cronsOk :: "ScheduledTaskManager \<Rightarrow> bool" where
  "cronsOk m \<longleftrightarrow>
     (\<forall>w crons. map_of (cronsByWorkflow m) w = Some crons \<longrightarrow> crons \<noteq> [] \<and> distinct_keys crons) \<and>
     (\<forall>w k c. registeredAt m w k c \<longrightarrow> w = cx_workflowId (cr_ctx c) \<and> k = toCronKey (cr_ctx c) \<and> cr_job c < stm_nextJob m) \<and>
     (\<forall>c c'. registered m c \<longrightarrow> registered m c' \<longrightarrow> cr_job c = cr_job c' \<longrightarrow> c = c') \<and>
     (\<forall>j. runningJob m j \<longleftrightarrow> (\<exists>c. registered m c \<and> cr_job c = j))"

lemma registeredAt_registered: "cronsOk m \<Longrightarrow> registeredAt m w k c \<Longrightarrow> registered m c"
  by (auto simp: cronsOk_def registered_def)

lemma registeredAt_iff: "cronsOk m \<Longrightarrow> registeredAt m w k c \<longleftrightarrow> registered m c \<and> w = cx_workflowId (cr_ctx c) \<and> k = toCronKey (cr_ctx c)"
  by (auto simp: cronsOk_def registered_def)

lemma registered_ctx: "registered m c \<Longrightarrow> registered m c' \<Longrightarrow> cr_ctx c = cr_ctx c' \<Longrightarrow> c = c'"
  by (auto simp: registered_def registeredAt_def)

lemma cronsOk_new: "cronsOk (newScheduledTaskManager n)"
  by (simp add: cronsOk_def registeredAt_def registered_def runningJob_def newScheduledTaskManager_def)

text \<open>One more job.\<close>

definition newCron :: "CronContext \<Rightarrow> ScheduledTaskManager \<Rightarrow> Cron" where
  "newCron ctx m = \<lparr>cr_job = stm_nextJob m, cr_summary = summaryOf ctx, cr_ctx = ctx\<rparr>"

lemma registerCron_cases:
  assumes "cronsOk m"
  shows "registerCron cronJob ctx onTick m =
     (if \<exists>c. registered m c \<and> cr_ctx c = ctx then Inr (m\<lparr>stm_reported := stm_reported m @ [ctx]\<rparr>)
      else case cronJob (cx_expression ctx) (cx_timezone ctx) of
        Some e \<Rightarrow> Inl e
      | None \<Rightarrow> Inr (m\<lparr>stm_jobs := stm_jobs m @ [(stm_nextJob m, onTick)], stm_nextJob := Suc (stm_nextJob m),
          cronsByWorkflow := AList.update (cx_workflowId ctx)
            (AList.update (toCronKey ctx) (newCron ctx m) (list_get (cronsByWorkflow m) (cx_workflowId ctx))) (cronsByWorkflow m)\<rparr>))"
proof -
  have "(\<exists>c. registered m c \<and> cr_ctx c = ctx) \<longleftrightarrow> (\<exists>c. registeredAt m (cx_workflowId ctx) (toCronKey ctx) c)"
    using assms toCronKey_inj by (metis registeredAt_iff registered_def)
  then show ?thesis
    by (auto simp: registerCron_def registeredAt_def newCron_def Let_def list_get_def split: option.splits)
qed

definition withCron :: "CronContext \<Rightarrow> PollTarget \<Rightarrow> ScheduledTaskManager \<Rightarrow> ScheduledTaskManager" where
  "withCron ctx onTick m = m\<lparr>stm_jobs := stm_jobs m @ [(stm_nextJob m, onTick)], stm_nextJob := Suc (stm_nextJob m),
     cronsByWorkflow := AList.update (cx_workflowId ctx)
       (AList.update (toCronKey ctx) (newCron ctx m) (list_get (cronsByWorkflow m) (cx_workflowId ctx))) (cronsByWorkflow m)\<rparr>"

lemma registeredAt_withCron:
  "registeredAt (withCron ctx onTick m) w k c \<longleftrightarrow>
     (if w = cx_workflowId ctx \<and> k = toCronKey ctx then c = newCron ctx m else registeredAt m w k c)"
  by (auto simp: registeredAt_def withCron_def update_conv' list_get_def split: option.splits)

lemma registered_withCron:
  assumes "\<not> (\<exists>c. registered m c \<and> cr_ctx c = ctx)"
  shows "registered (withCron ctx onTick m) c \<longleftrightarrow> c = newCron ctx m \<or> registered m c"
  using assms toCronKey_inj [of "cr_ctx c" ctx] by (auto simp: registered_def registeredAt_withCron newCron_def)

lemma runningJob_withCron: "runningJob (withCron ctx onTick m) j \<longleftrightarrow> j = stm_nextJob m \<or> runningJob m j"
  by (auto simp: runningJob_def withCron_def map_add_def split: option.splits)

lemma registered_job_less: "cronsOk m \<Longrightarrow> registered m c \<Longrightarrow> cr_job c < stm_nextJob m"
  by (auto simp: cronsOk_def registered_def)

lemma cronsOk_withCron:
  assumes ok: "cronsOk m" and new: "\<not> (\<exists>c. registered m c \<and> cr_ctx c = ctx)"
  shows "cronsOk (withCron ctx onTick m)"
proof -
  have "crons \<noteq> [] \<and> distinct_keys crons" if "map_of (cronsByWorkflow (withCron ctx onTick m)) w = Some crons" for w crons
    using that ok
    by (auto simp: withCron_def update_conv' cronsOk_def list_get_def keys_update split: if_splits option.splits
        dest: arg_cong [of _ _ length])
  moreover have "w = cx_workflowId (cr_ctx c) \<and> k = toCronKey (cr_ctx c) \<and> cr_job c < stm_nextJob (withCron ctx onTick m)"
    if "registeredAt (withCron ctx onTick m) w k c" for w k c
    using that ok unfolding registeredAt_withCron
    by (auto simp: newCron_def withCron_def cronsOk_def less_Suc_eq split: if_splits)
  moreover have "c = c'" if "registered (withCron ctx onTick m) c" "registered (withCron ctx onTick m) c'" "cr_job c = cr_job c'" for c c'
    using that ok registered_job_less [OF ok, of c] registered_job_less [OF ok, of c']
    unfolding registered_withCron [OF new] by (auto simp: newCron_def cronsOk_def)
  moreover have "runningJob (withCron ctx onTick m) j \<longleftrightarrow> (\<exists>c. registered (withCron ctx onTick m) c \<and> cr_job c = j)" for j
    using ok unfolding runningJob_withCron registered_withCron [OF new] by (auto simp: newCron_def cronsOk_def)
  ultimately show ?thesis unfolding cronsOk_def by blast
qed

lemma cronsOk_reported: "cronsOk (m\<lparr>stm_reported := r\<rparr>) = cronsOk m" "cronsOk (m\<lparr>stm_logInterval := l\<rparr>) = cronsOk m"
  "registered (m\<lparr>stm_reported := r\<rparr>) = registered m" "registered (m\<lparr>stm_logInterval := l\<rparr>) = registered m"
  by (simp_all add: cronsOk_def registered_def [abs_def] registeredAt_def [abs_def] runningJob_def)

lemma registerCron_ok: "cronsOk m \<Longrightarrow> registerCron cronJob ctx onTick m = Inr m' \<Longrightarrow> cronsOk m'"
  using cronsOk_withCron [of m ctx onTick]
  by (auto simp: registerCron_cases cronsOk_reported withCron_def split: if_splits option.splits)

text \<open>The jobs of a workflow are stopped.\<close>

lemma map_of_delete_jobs:
  "map_of (fold (\<lambda>(_, cron). AList.delete (cr_job cron)) crons jobs) j = (if \<exists>p \<in> set crons. cr_job (snd p) = j then None else map_of jobs j)"
  by (induction crons arbitrary: jobs) (auto simp: delete_conv')

lemma registeredAt_deregister:
  assumes "cronsOk m"
  shows "registeredAt (deregisterCrons workflowId m) w k c \<longleftrightarrow> registeredAt m w k c \<and> w \<noteq> workflowId"
  using assms by (auto simp: registeredAt_def deregisterCrons_def delete_conv' cronsOk_def split: option.splits if_splits)

lemma registered_deregister:
  "cronsOk m \<Longrightarrow> registered (deregisterCrons workflowId m) c \<longleftrightarrow> registered m c \<and> cx_workflowId (cr_ctx c) \<noteq> workflowId"
  by (simp add: registered_def registeredAt_deregister)

lemma jobs_deregister:
  assumes ok: "cronsOk m"
  shows "map_of (stm_jobs (deregisterCrons workflowId m)) j =
     (if \<exists>c. registered m c \<and> cx_workflowId (cr_ctx c) = workflowId \<and> cr_job c = j then None else map_of (stm_jobs m) j)"
proof (cases "map_of (cronsByWorkflow m) workflowId")
  case None
  then have "\<not> (\<exists>c. registered m c \<and> cx_workflowId (cr_ctx c) = workflowId \<and> cr_job c = j)"
    by (auto simp: registered_def registeredAt_def)
  then show ?thesis by (simp only: deregisterCrons_def None option.case if_False)
next
  case (Some crons)
  with ok have crons: "crons \<noteq> []" "distinct_keys crons" by (auto simp: cronsOk_def)
  have "(\<exists>p \<in> set crons. cr_job (snd p) = j) \<longleftrightarrow> (\<exists>k c. registeredAt m workflowId k c \<and> cr_job c = j)"
    by (simp add: registeredAt_def Some flip: map_of_entry [OF crons(2)]) force
  also have "\<dots> \<longleftrightarrow> (\<exists>c. registered m c \<and> cx_workflowId (cr_ctx c) = workflowId \<and> cr_job c = j)"
    by (auto simp: registeredAt_iff [OF ok])
  finally show ?thesis using Some crons(1) by (simp add: deregisterCrons_def map_of_delete_jobs)
qed

lemma deregisterCrons_ok:
  assumes ok: "cronsOk m"
  shows "cronsOk (deregisterCrons workflowId m)"
proof -
  have "crons \<noteq> [] \<and> distinct_keys crons" if "map_of (cronsByWorkflow (deregisterCrons workflowId m)) w = Some crons" for w crons
    using that ok by (auto simp: deregisterCrons_def cronsOk_def delete_conv' split: option.splits if_splits)
  moreover have "stm_nextJob (deregisterCrons workflowId m) = stm_nextJob m"
    by (simp add: deregisterCrons_def split: option.split)
  moreover have "runningJob (deregisterCrons workflowId m) j \<longleftrightarrow> (\<exists>c. registered (deregisterCrons workflowId m) c \<and> cr_job c = j)" for j
  proof -
    have "runningJob m j \<longleftrightarrow> (\<exists>c. registered m c \<and> cr_job c = j)"
      and "\<And>c c'. registered m c \<Longrightarrow> registered m c' \<Longrightarrow> cr_job c = cr_job c' \<Longrightarrow> c = c'"
      using ok by (auto simp: cronsOk_def)
    then show ?thesis unfolding runningJob_def jobs_deregister [OF ok] registered_deregister [OF ok] by auto
  qed
  ultimately show ?thesis using ok
    unfolding cronsOk_def registeredAt_deregister [OF ok] registered_deregister [OF ok] by auto
qed

lemma deregister_all:
  "cronsOk m \<Longrightarrow> cronsOk (fold deregisterCrons ws m) \<and>
     (\<forall>c. registered (fold deregisterCrons ws m) c \<longleftrightarrow> registered m c \<and> cx_workflowId (cr_ctx c) \<notin> set ws)"
  by (induction ws arbitrary: m) (auto simp: deregisterCrons_ok registered_deregister)

lemma deregisterAllCrons_ok: "cronsOk m \<Longrightarrow> cronsOk (deregisterAllCrons m) \<and> \<not> registered (deregisterAllCrons m) c"
proof -
  assume ok: "cronsOk m"
  have "cx_workflowId (cr_ctx c) \<in> set (map fst (cronsByWorkflow m))" if "registered m c" for c
    using that by (force simp: registered_def registeredAt_def dest: map_of_SomeD)
  then show ?thesis using deregister_all [OF ok] by (auto simp: deregisterAllCrons_def cronsOk_reported)
qed

section \<open>Every state of the manager\<close>

datatype CronOp = Register CronContext PollTarget | Deregister string | DeregisterAll

fun cronOp :: "(string \<Rightarrow> string \<Rightarrow> js_error option) \<Rightarrow> CronOp \<Rightarrow> ScheduledTaskManager \<Rightarrow> ScheduledTaskManager" where
  "cronOp cronJob (Register ctx onTick) m = (case registerCron cronJob ctx onTick m of Inl _ \<Rightarrow> m | Inr m' \<Rightarrow> m')"
| "cronOp cronJob (Deregister w) m = deregisterCrons w m"
| "cronOp cronJob DeregisterAll m = deregisterAllCrons m"

lemma cronOps_ok: "cronsOk m \<Longrightarrow> cronsOk (fold (cronOp cronJob) ops m)"
proof (induction ops arbitrary: m)
  case (Cons x ops)
  have "cronsOk (cronOp cronJob x m)"
    using Cons.prems by (cases x) (auto simp: deregisterCrons_ok deregisterAllCrons_ok split: sum.split intro: registerCron_ok)
  with Cons show ?case by simp
qed simp

text \<open>C17: In every state of the manager the jobs that run are those that are registered, one for each, and no two of them
  have the same workflow, node, expression, time zone and recurrence; deregistering a workflow stops exactly its own jobs.\<close>

theorem running_crons_registered:
  assumes "m = fold (cronOp cronJob) ops (newScheduledTaskManager activeInterval)"
  shows "(\<forall>j. runningJob m j \<longleftrightarrow> (\<exists>!c. registered m c \<and> cr_job c = j)) \<and>
     (\<forall>c c'. registered m c \<longrightarrow> registered m c' \<longrightarrow> cr_ctx c = cr_ctx c' \<longrightarrow> cr_job c = cr_job c') \<and>
     (\<forall>w j. map_of (stm_jobs (deregisterCrons w m)) j =
        (if \<exists>c. registered m c \<and> cx_workflowId (cr_ctx c) = w \<and> cr_job c = j then None else map_of (stm_jobs m) j)) \<and>
     (\<forall>j. \<not> runningJob (deregisterAllCrons m) j)"
proof -
  have ok: "cronsOk m" using assms cronOps_ok [OF cronsOk_new] by simp
  have "\<not> runningJob (deregisterAllCrons m) j" for j
    using deregisterAllCrons_ok [OF ok] by (auto simp: cronsOk_def)
  moreover have "runningJob m j \<longleftrightarrow> (\<exists>!c. registered m c \<and> cr_job c = j)" for j
    using ok unfolding cronsOk_def by metis
  ultimately show ?thesis using registered_ctx jobs_deregister [OF ok] by blast
qed

lemma running_crons_registered_witness:
  "let c = \<lparr>cx_nodeId = ''n'', cx_workflowId = ''w'', cx_timezone = ''UTC'', cx_expression = ''0 5 * * * *'', cx_recurrence = Some NotActivated\<rparr>;
       ops = [Register c (''w'', plainNode 0 ''n'' ''poll''), Register c (''w'', plainNode 0 ''n'' ''poll''),
         Register (c\<lparr>cx_workflowId := ''v''\<rparr>) (''v'', plainNode 1 ''n'' ''poll''), Deregister ''w''];
       m = fold (cronOp (\<lambda>_ _. None)) ops (newScheduledTaskManager 0)
   in map fst (stm_jobs m) = [1] \<and> length (stm_reported m) = 1 \<and> (\<exists>!c. registered m c \<and> cr_job c = 1) \<and> \<not> runningJob (deregisterAllCrons m) 1"
proof -
  define c where "c = \<lparr>cx_nodeId = ''n'', cx_workflowId = ''w'', cx_timezone = ''UTC'', cx_expression = ''0 5 * * * *'', cx_recurrence = Some NotActivated\<rparr>"
  define ops where "ops = [Register c (''w'', plainNode 0 ''n'' ''poll''), Register c (''w'', plainNode 0 ''n'' ''poll''),
         Register (c\<lparr>cx_workflowId := ''v''\<rparr>) (''v'', plainNode 1 ''n'' ''poll''), Deregister ''w'']"
  let ?m = "fold (cronOp (\<lambda>_ _. None)) ops (newScheduledTaskManager 0)"
  have "map fst (stm_jobs ?m) = [1] \<and> length (stm_reported ?m) = 1 \<and> runningJob ?m 1"
    unfolding ops_def c_def by code_simp
  with running_crons_registered [of ?m "\<lambda>_ _. None" ops 0] show ?thesis unfolding Let_def c_def [symmetric] ops_def [symmetric] by blast
qed

end
