(* ===== verification/ActivationProps.thy ===== *)
theory ActivationProps
  imports ActiveWorkflows ScheduledProps
begin

text \<open>
  Activating a workflow and deactivating it again leaves nothing behind; a failed activation does: triggers nobody can
  close and jobs that go on polling.
\<close>

section \<open>What the calls change\<close>

text \<open>Events are only added, here those with a property.\<close>

definition grows :: "(TriggerEvent \<Rightarrow> bool) \<Rightarrow> ActiveWorkflows \<Rightarrow> ActiveWorkflows \<Rightarrow> bool" where
  "grows P s s' \<longleftrightarrow> (\<exists>evs. aw_events s' = aw_events s @ evs \<and> (\<forall>e \<in> set evs. P e))"

lemma grows_refl [simp]: "aw_events s' = aw_events s \<Longrightarrow> grows P s s'"
  by (simp add: grows_def)

lemma grows_trans: "grows P s s' \<Longrightarrow> grows P s' s'' \<Longrightarrow> grows P s s''"
  by (auto simp: grows_def)

lemma grows_mono: "grows P s s' \<Longrightarrow> (\<And>e. P e \<Longrightarrow> Q e) \<Longrightarrow> grows Q s s'"
  by (auto simp: grows_def)

lemma grows_log: "P e \<Longrightarrow> grows P s (logEvent e s)"
  by (simp add: grows_def logEvent_def)

definition isStart :: "TriggerEvent \<Rightarrow> bool" where
  "isStart e \<longleftrightarrow> (\<exists>w n. e = TriggerStarted w n)"

lemma logEvent_frame [simp]:
  "activeWorkflows (logEvent e s) = activeWorkflows s" "scheduledTasks (logEvent e s) = scheduledTasks s"
  "aw_events (logEvent e s) = aw_events s @ [e]"
  by (simp_all add: logEvent_def)

lemma runPoll_frame:
  "runPoll env w n s = (r, s') \<Longrightarrow> activeWorkflows s' = activeWorkflows s \<and> scheduledTasks s' = scheduledTasks s \<and> grows (\<lambda>e. \<not> isStart e) s s'"
  by (auto simp: runPoll_def isStart_def intro: grows_log split: option.splits if_splits)

lemma executeTrigger_frame:
  assumes "executeTrigger env t w n s = (r, s')"
  shows "activeWorkflows s' = activeWorkflows s \<and> scheduledTasks s' = scheduledTasks s \<and> grows (\<lambda>e. \<not> isStart e) s s'"
proof -
  obtain p s1 where p: "runPoll env w n s = (p, s1)" by force
  have "grows (\<lambda>e. \<not> isStart e) s (logEvent e s1)" if "\<not> isStart e" for e
    using grows_trans [OF _ grows_log [of "\<lambda>e. \<not> isStart e", OF that]] runPoll_frame [OF p] by blast
  with assms runPoll_frame [OF p] show ?thesis
    by (auto simp: executeTrigger_def p isStart_def split: sum.splits if_splits)
qed

lemma cronExpressionsOf_frame:
  assumes "cronExpressionsOf env items s = (es, s')"
  shows "activeWorkflows s' = activeWorkflows s \<and> scheduledTasks s' = scheduledTasks s \<and> aw_events s' = aw_events s"
proof -
  have "activeWorkflows (snd (fold f items p)) = activeWorkflows (snd p) \<and> scheduledTasks (snd (fold f items p)) = scheduledTasks (snd p) \<and>
      aw_events (snd (fold f items p)) = aw_events (snd p)"
    if "\<And>i p. activeWorkflows (snd (f i p)) = activeWorkflows (snd p) \<and> scheduledTasks (snd (f i p)) = scheduledTasks (snd p) \<and>
      aw_events (snd (f i p)) = aw_events (snd p)" for f :: "TriggerTime \<Rightarrow> string list \<times> ActiveWorkflows \<Rightarrow> string list \<times> ActiveWorkflows" and p
    using that by (induction items arbitrary: p) simp_all
  from this [of "\<lambda>item (expressions, s). (expressions @ [toCronExpression (te_randomInt env (aw_draws s)) (te_randomInt env (Suc (aw_draws s))) item],
             s\<lparr>aw_draws := aw_draws s + (if (case item of EveryXHours _ \<Rightarrow> True | _ \<Rightarrow> False) then 2 else 1)\<rparr>)" "([], s)"] assms
  show ?thesis by (auto simp: cronExpressionsOf_def Let_def split_def)
qed

text \<open>A workflow's jobs: those of other workflows are as before.\<close>

definition othersKept :: "string \<Rightarrow> ScheduledTaskManager \<Rightarrow> ScheduledTaskManager \<Rightarrow> bool" where
  "othersKept w m m' \<longleftrightarrow> (\<forall>c. cx_workflowId (cr_ctx c) \<noteq> w \<longrightarrow> (registered m' c \<longleftrightarrow> registered m c)) \<and>
     (\<forall>c. registered m c \<longrightarrow> registered m' c)"

lemma registerCron_kept:
  assumes "cronsOk m" "registerCron cronJob ctx onTick m = Inr m'"
  shows "cronsOk m' \<and> othersKept (cx_workflowId ctx) m m'"
proof (cases "\<exists>c. registered m c \<and> cr_ctx c = ctx")
  case True
  with assms show ?thesis by (auto simp: registerCron_cases [OF assms(1)] cronsOk_reported othersKept_def)
next
  case False
  then have "m' = withCron ctx onTick m"
    using assms(2) unfolding registerCron_cases [OF assms(1)] if_not_P [OF False]
    by (simp add: withCron_def split: option.splits)
  moreover note cronsOk_withCron [OF assms(1) False] registered_withCron [OF False]
  ultimately show ?thesis by (auto simp: othersKept_def newCron_def)
qed

lemma registerPolling_frame:
  assumes "registerPolling env w n es s = (r, s')" "cronsOk (scheduledTasks s)"
  shows "activeWorkflows s' = activeWorkflows s \<and> aw_events s' = aw_events s \<and> cronsOk (scheduledTasks s') \<and>
     othersKept (wi_id w) (scheduledTasks s) (scheduledTasks s')"
  using assms
proof (induction env w n es s rule: registerPolling.induct)
  case (2 env workflow node expression expressions s)
  define ctx where "ctx = \<lparr>cx_nodeId = te_nodeId env node, cx_workflowId = wi_id workflow, cx_timezone = wi_timezone workflow,
              cx_expression = expression, cx_recurrence = None\<rparr>"
  show ?case
  proof (cases "intervalTooShort expression")
    case False
    show ?thesis
    proof (cases "registerCron (te_cronJob env) ctx (wi_id workflow, node) (scheduledTasks s)")
      case (Inl e)
      with 2 False show ?thesis by (auto simp: ctx_def Let_def othersKept_def)
    next
      case (Inr m)
      have k: "cronsOk m \<and> othersKept (wi_id workflow) (scheduledTasks s) m"
        using registerCron_kept [OF 2(3) Inr] by (simp add: ctx_def)
      have "registerPolling env workflow node expressions (s\<lparr>scheduledTasks := m\<rparr>) = (r, s')"
        using 2(2) False Inr by (simp add: ctx_def Let_def)
      from 2(1) [OF False ctx_def Inr this] k show ?thesis by (auto simp: othersKept_def)
    qed
  qed (use 2 in \<open>auto simp: othersKept_def\<close>)
qed (auto simp: othersKept_def)

lemma othersKept_trans: "othersKept w m m' \<Longrightarrow> othersKept w m' m'' \<Longrightarrow> othersKept w m m''"
  by (simp add: othersKept_def)

lemma activatePolling_frame:
  assumes "activatePolling env w n s = (r, s')" "cronsOk (scheduledTasks s)"
  shows "activeWorkflows s' = activeWorkflows s \<and> grows (\<lambda>e. \<not> isStart e) s s' \<and> cronsOk (scheduledTasks s') \<and>
     othersKept (wi_id w) (scheduledTasks s) (scheduledTasks s')"
proof -
  obtain es s1 where e: "cronExpressionsOf env (te_pollTimes env n) s = (es, s1)" by force
  obtain r2 s2 where x: "executeTrigger env True (wi_id w) n s1 = (r2, s2)" by force
  note f = cronExpressionsOf_frame [OF e] executeTrigger_frame [OF x]
  have g: "grows (\<lambda>e. \<not> isStart e) s s2" using f grows_trans [of _ s s1 s2] by auto
  show ?thesis
  proof (cases r2)
    case (Inl a)
    with assms e x f g show ?thesis by (auto simp: activatePolling_def othersKept_def)
  next
    case (Inr u)
    then have r: "registerPolling env w n es s2 = (r, s')" using assms(1) e x by (simp add: activatePolling_def)
    have "cronsOk (scheduledTasks s2)" using f assms(2) by simp
    from registerPolling_frame [OF r this] f g show ?thesis using grows_trans [OF g, of s'] by auto
  qed
qed

lemma activatePollers_frame:
  assumes "activatePollers env i rs w ns s = (Inr u, s')" "cronsOk (scheduledTasks s)"
  shows "activeWorkflows s' = activeWorkflows s \<and> grows (\<lambda>e. \<not> isStart e) s s' \<and> cronsOk (scheduledTasks s') \<and>
     othersKept (wi_id w) (scheduledTasks s) (scheduledTasks s')"
  using assms
proof (induction ns arbitrary: s)
  case (Cons n ns)
  obtain r s1 where p: "activatePolling env w n s = (r, s1)" by force
  with Cons.prems obtain u' where "r = Inr u'" by (cases r) auto
  with p Cons.prems have a: "activatePollers env i rs w ns s1 = (Inr u, s')" by simp
  note f = activatePolling_frame [OF p Cons.prems(2)]
  from Cons.IH [OF a] f show ?case using grows_trans othersKept_trans by metis
qed (auto simp: othersKept_def)

section \<open>A sample\<close>

definition sampleEnv :: TriggerEnv where
  "sampleEnv = \<lparr>te_nodeTypes = (\<lambda>n. Some \<lparr>nt_name = node_type n, nt_trigger = (node_type n = ''trigger''), nt_poll = (node_type n = ''poll''),
       nt_group_trigger = True\<rparr>),
     te_trigger = (\<lambda>_ _ n. if name n = ''broken'' then Inl (ApplicationError ''down'') else Inr (Some True)),
     te_poll = (\<lambda>_ _ n. if name n = ''broken'' then Inl (ApplicationError ''down'') else Inr True),
     te_close = (\<lambda>_ _. Closes), te_pollTimes = (\<lambda>_. [EveryHour 5]), te_nodeId = name, te_randomInt = (\<lambda>k. k mod 60),
     te_cronJob = (\<lambda>_ _. None)\<rparr>"

definition inactive :: ActiveWorkflows where
  "inactive = \<lparr>activeWorkflows = [], scheduledTasks = newScheduledTaskManager 0, aw_draws = 0, aw_events = []\<rparr>"

definition workflowOf :: "(string \<times> string) list \<Rightarrow> IdentifiedWorkflow" where
  "workflowOf ns = \<lparr>wi_id = ''w'', wi_timezone = ''UTC'',
     wi_workflow = newWorkflow (map (\<lambda>(n, ty). plainNode 0 n ty) ns) [] None\<rparr>"

lemma inactive_ok:
  "cronsOk (scheduledTasks inactive)" "\<not> isActive i inactive" "\<not> registered (scheduledTasks inactive) c"
proof -
  show "cronsOk (scheduledTasks inactive)" by (simp add: inactive_def cronsOk_new)
qed (simp_all add: inactive_def isActive_def registered_def registeredAt_def newScheduledTaskManager_def)

section \<open>Activated and deactivated\<close>

text \<open>The trigger started at an event returned a function to close it.\<close>

definition closable :: "TriggerEnv \<Rightarrow> TriggerEvent list \<Rightarrow> nat \<Rightarrow> bool" where
  "closable env evs i \<longleftrightarrow> (\<exists>w n. evs ! i = TriggerStarted w n \<and> te_trigger env (take i evs) w n = Inr (Some True))"

lemma runTrigger_Inr:
  assumes "runTrigger env manual w n s = (Inr r, s')"
  shows "s' = logEvent (TriggerStarted w n) s \<and>
     (te_trigger env (aw_events s) w n = Inr (Some True) \<longrightarrow> r = Some \<lparr>closeFunction = Some (length (aw_events s))\<rparr>)"
proof -
  obtain t where t: "te_nodeTypes env n = Some t" "nt_trigger t"
    using assms by (cases "te_nodeTypes env n") (auto simp: runTrigger_def split: if_splits)
  then obtain p where p: "te_trigger env (aw_events s) w n = Inr p"
    using assms by (cases "te_trigger env (aw_events s) w n") (simp_all add: runTrigger_def)
  show ?thesis using assms t by (cases p) (auto simp: runTrigger_def p Let_def split: if_splits)
qed

definition responded :: "TriggerEnv \<Rightarrow> nat \<Rightarrow> TriggerEvent list \<Rightarrow> ITriggerResponse list \<Rightarrow> bool" where
  "responded env k evs rs \<longleftrightarrow>
     (\<forall>i. k \<le> i \<longrightarrow> i < length evs \<longrightarrow> closable env evs i \<longrightarrow> (\<exists>r \<in> set rs. closeFunction r = Some i))"

lemma respondedD: "responded env k evs rs \<Longrightarrow> k \<le> i \<Longrightarrow> i < length evs \<Longrightarrow> closable env evs i \<Longrightarrow> \<exists>r \<in> set rs. closeFunction r = Some i"
  by (simp add: responded_def)

lemma startTriggers_Inr:
  assumes "startTriggers env manual w ns acc s = (Inr rs, s')"
  shows "activeWorkflows s' = activeWorkflows s \<and> scheduledTasks s' = scheduledTasks s \<and> grows (\<lambda>_. True) s s' \<and> set acc \<subseteq> set rs \<and>
     responded env (length (aw_events s)) (aw_events s') rs"
  using assms
proof (induction ns arbitrary: acc s)
  case Nil
  then show ?case by (auto simp: responded_def)
next
  case (Cons n ns)
  obtain x s1 where t: "runTrigger env manual w n s = (x, s1)" by force
  obtain r where x: "x = Inr r" using Cons.prems by (cases x) (simp_all add: t)
  define acc' where "acc' = acc @ (case r of None \<Rightarrow> [] | Some p \<Rightarrow> [p])"
  have next_: "startTriggers env manual w ns acc' s1 = (Inr rs, s')"
    using Cons.prems by (cases r) (simp_all add: acc'_def t x)
  note first = runTrigger_Inr [OF t [unfolded x]]
  note IH = Cons.IH [OF next_]
  then have acc': "set acc' \<subseteq> set rs" and rest: "responded env (length (aw_events s1)) (aw_events s') rs" by simp_all
  obtain evs where evs: "aw_events s' = aw_events s @ TriggerStarted w n # evs"
    using IH first by (auto simp: grows_def)
  have "\<exists>q \<in> set rs. closeFunction q = Some i"
    if i: "length (aw_events s) \<le> i" "i < length (aw_events s')" "closable env (aw_events s') i" for i
  proof (cases "i = length (aw_events s)")
    case True
    have "te_trigger env (aw_events s) w n = Inr (Some True)" using i(3) by (simp add: closable_def evs True)
    then have "r = Some \<lparr>closeFunction = Some i\<rparr>" using first by (simp add: True)
    then have "\<lparr>closeFunction = Some i\<rparr> \<in> set rs" using acc' by (simp add: acc'_def)
    then show ?thesis by (rule rev_bexI) simp
  next
    case False
    have "length (aw_events s1) \<le> i" using i(1) False first by simp
    then show ?thesis by (rule respondedD [OF rest _ i(2,3)])
  qed
  then have "responded env (length (aw_events s)) (aw_events s') rs" by (simp add: responded_def)
  moreover have "grows (\<lambda>_. True) s s'" by (simp add: grows_def evs)
  moreover have "set acc \<subseteq> set rs" using acc' by (simp add: acc'_def)
  ultimately show ?case using IH first by simp
qed

lemma closeTriggers_all:
  assumes "\<forall>h t. te_close env h t = Closes"
  shows "\<exists>s'. closeTriggers env w rs s = (Inr (), s') \<and> activeWorkflows s' = activeWorkflows s \<and> scheduledTasks s' = scheduledTasks s \<and>
     set (aw_events s) \<subseteq> set (aw_events s') \<and> (\<forall>r \<in> set rs. \<forall>t. closeFunction r = Some t \<longrightarrow> TriggerClosed t \<in> set (aw_events s'))"
proof (induction rs arbitrary: s)
  case (Cons r rs)
  define s1 where "s1 = (case closeFunction r of None \<Rightarrow> s | Some t \<Rightarrow> logEvent (TriggerClosed t) s)"
  have s1: "closeTrigger env w r s = (Inr (), s1)" "activeWorkflows s1 = activeWorkflows s" "scheduledTasks s1 = scheduledTasks s"
      "set (aw_events s) \<subseteq> set (aw_events s1)" "\<forall>t. closeFunction r = Some t \<longrightarrow> TriggerClosed t \<in> set (aw_events s1)"
    using assms by (auto simp: closeTrigger_def s1_def split: option.split)
  from Cons.IH [of s1] s1 show ?case by auto
qed simp

lemma deregister_back:
  assumes "cronsOk m'" "othersKept w m m'" "\<forall>c. registered m c \<longrightarrow> cx_workflowId (cr_ctx c) \<noteq> w"
  shows "registered (deregisterCrons w m') c \<longleftrightarrow> registered m c"
  using assms by (auto simp: registered_deregister othersKept_def)

text \<open>C14: A workflow that was activated and is deactivated leaves nothing behind: every trigger started for it that
  gave a function to be closed with is closed, the jobs that are registered are those before, and the workflow is
  inactive while the others are as they were.\<close>

theorem activate_deactivate:
  assumes "addActive env manual (wi_id w) w s = (Inr u, s1)" "\<not> isActive (wi_id w) s" "cronsOk (scheduledTasks s)"
    "\<forall>c. registered (scheduledTasks s) c \<longrightarrow> cx_workflowId (cr_ctx c) \<noteq> wi_id w" "\<forall>h t. te_close env h t = Closes"
  shows "isActive (wi_id w) s1 \<and>
     (\<exists>s2. removeActive env (wi_id w) s1 = (Inr True, s2) \<and> activeWorkflows s2 = activeWorkflows s \<and>
        (\<forall>c. registered (scheduledTasks s2) c \<longleftrightarrow> registered (scheduledTasks s) c) \<and>
        (\<forall>i. length (aw_events s) \<le> i \<and> i < length (aw_events s1) \<and> closable env (aw_events s1) i \<longrightarrow>
           TriggerClosed i \<in> set (aw_events s2)))"
proof -
  obtain x sa where st: "startTriggers env manual (wi_id w) (getTriggerNodes (te_nodeTypes env) (wi_workflow w)) [] s = (x, sa)" by force
  with assms(1) obtain rs where x: "x = Inr rs" by (cases x) (auto simp: addActive_def)
  note a = startTriggers_Inr [OF st [unfolded x]]
  define sb where "sb = sa\<lparr>activeWorkflows := AList.update (wi_id w) rs (activeWorkflows sa)\<rparr>"
  have p: "activatePollers env (wi_id w) rs w (getPollNodes (te_nodeTypes env) (wi_workflow w)) sb = (Inr u, s1)"
    using assms(1) st x by (simp add: addActive_def sb_def)
  have "cronsOk (scheduledTasks sb)" using a assms(3) by (simp add: sb_def)
  note b = activatePollers_frame [OF p this]
  have active: "activeWorkflows s1 = activeWorkflows s @ [(wi_id w, rs)]"
    using a b assms(2) by (simp add: sb_def isActive_def update_snoc)
  define sc where "sc = s1\<lparr>scheduledTasks := deregisterCrons (wi_id w) (scheduledTasks s1)\<rparr>"
  from closeTriggers_all [OF assms(5), of "wi_id w" rs sc] obtain sd where
    d: "closeTriggers env (wi_id w) rs sc = (Inr (), sd)" "activeWorkflows sd = activeWorkflows sc" "scheduledTasks sd = scheduledTasks sc"
      "\<forall>r \<in> set rs. \<forall>t. closeFunction r = Some t \<longrightarrow> TriggerClosed t \<in> set (aw_events sd)" by blast
  have "map_of (activeWorkflows s) (wi_id w) = None"
    using assms(2) by (simp add: isActive_def map_of_eq_None_iff)
  then have entry: "map_of (activeWorkflows s1) (wi_id w) = Some rs" by (simp add: active map_add_def)
  have gone: "AList.delete (wi_id w) (activeWorkflows s1) = activeWorkflows s"
    using assms(2) by (simp add: active isActive_def AList.delete_eq filter_id_conv) force
  have "TriggerClosed i \<in> set (aw_events sd)"
    if i: "length (aw_events s) \<le> i" "i < length (aw_events s1)" "closable env (aw_events s1) i" for i
  proof -
    obtain evs where evs: "aw_events s1 = aw_events sa @ evs" "\<forall>e \<in> set evs. \<not> isStart e"
      using b by (auto simp: grows_def sb_def)
    have "i < length (aw_events sa)"
    proof (rule ccontr)
      assume "\<not> i < length (aw_events sa)"
      then have "aw_events s1 ! i \<in> set evs" using i(2) evs(1) by (simp add: nth_append)
      with evs(2) i(3) show False by (auto simp: closable_def isStart_def)
    qed
    then have "closable env (aw_events sa) i" using i(3) evs(1) by (simp add: closable_def nth_append)
    then obtain q where "q \<in> set rs" "closeFunction q = Some i"
      using a i(1) \<open>i < length (aw_events sa)\<close> respondedD by blast
    with d(4) show ?thesis by blast
  qed
  moreover have "registered (deregisterCrons (wi_id w) (scheduledTasks s1)) c \<longleftrightarrow> registered (scheduledTasks s) c" for c
    using deregister_back [of "scheduledTasks s1" "wi_id w" "scheduledTasks s"] b a assms(4) by (simp add: sb_def)
  moreover have "removeActive env (wi_id w) s1 = (Inr True, sd\<lparr>activeWorkflows := activeWorkflows s\<rparr>)"
    using d(1,2) by (simp add: removeActive_def entry sc_def gone)
  moreover have "isActive (wi_id w) s1" by (simp add: isActive_def active)
  moreover have "scheduledTasks sd = deregisterCrons (wi_id w) (scheduledTasks s1)" using d(3) by (simp add: sc_def)
  ultimately show ?thesis by (intro conjI exI [of _ "sd\<lparr>activeWorkflows := activeWorkflows s\<rparr>"]) simp_all
qed

lemma activate_deactivate_witness:
  "\<exists>s2. removeActive sampleEnv ''w'' (snd (addActive sampleEnv False ''w'' (workflowOf [(''a'', ''trigger''), (''b'', ''poll'')]) inactive)) = (Inr True, s2) \<and>
     activeWorkflows s2 = [] \<and> TriggerClosed 0 \<in> set (aw_events s2)"
proof -
  let ?w = "workflowOf [(''a'', ''trigger''), (''b'', ''poll'')]"
  let ?s1 = "snd (addActive sampleEnv False ''w'' ?w inactive)"
  have "fst (addActive sampleEnv False ''w'' ?w inactive) = Inr ()" by code_simp
  then have "addActive sampleEnv False ''w'' ?w inactive = (Inr (), ?s1)" by (metis prod.collapse)
  moreover have w: "wi_id ?w = ''w''" by (simp add: workflowOf_def)
  ultimately have "\<exists>s2. removeActive sampleEnv ''w'' ?s1 = (Inr True, s2) \<and> activeWorkflows s2 = activeWorkflows inactive \<and>
        (\<forall>c. registered (scheduledTasks s2) c \<longleftrightarrow> registered (scheduledTasks inactive) c) \<and>
        (\<forall>i. length (aw_events inactive) \<le> i \<and> i < length (aw_events ?s1) \<and> closable sampleEnv (aw_events ?s1) i \<longrightarrow>
           TriggerClosed i \<in> set (aw_events s2))"
    using activate_deactivate [of sampleEnv False ?w inactive "()" ?s1] inactive_ok by (simp add: sampleEnv_def)
  moreover have "closable sampleEnv (aw_events ?s1) 0"
    unfolding closable_def by (rule exI [of _ "''w''"], rule exI [of _ "plainNode 0 ''a'' ''trigger''"]) code_simp
  moreover have "0 < length (aw_events ?s1)" by code_simp
  ultimately show ?thesis by (force simp: inactive_def)
qed

section \<open>What a failed activation leaves behind\<close>

definition attemptActive :: "TriggerEnv \<Rightarrow> IdentifiedWorkflow \<Rightarrow> ActiveWorkflows \<Rightarrow> ActiveWorkflows" where
  "attemptActive env w s = snd (addActive env False (wi_id w) w s)"

lemma getTriggerNodes_type: "n \<in> set (getTriggerNodes types w) \<Longrightarrow> \<exists>t. types n = Some t \<and> nt_trigger t"
  by (auto simp: getTriggerNodes_def queryNodes_def split: option.splits)

lemma startTriggers_fails:
  assumes "\<forall>t \<in> set (ts @ [n]). \<exists>ty. te_nodeTypes env t = Some ty \<and> nt_trigger ty"
    "\<forall>t \<in> set ts. \<forall>h. \<exists>r. te_trigger env h i t = Inr r" "\<forall>h. te_trigger env h i n = Inl e"
  shows "startTriggers env False i (ts @ n # rest) acc s = (Inl (WorkflowActivationError e n),
     s\<lparr>aw_events := aw_events s @ map (TriggerStarted i) ts @ [TriggerFailed i n]\<rparr>)"
  using assms
proof (induction ts arbitrary: acc s)
  case Nil
  then show ?case by (auto simp: runTrigger_def logEvent_def)
next
  case (Cons t ts)
  from Cons.prems obtain ty where ty: "te_nodeTypes env t = Some ty" "nt_trigger ty" by auto
  obtain r where r: "te_trigger env (aw_events s) i t = Inr r" using Cons.prems(2) by force
  have "\<exists>q. runTrigger env False i t s = (Inr q, logEvent (TriggerStarted i t) s)"
    by (simp add: runTrigger_def ty r Let_def)
  then obtain q where q: "runTrigger env False i t s = (Inr q, logEvent (TriggerStarted i t) s)" by blast
  have "\<And>acc'. startTriggers env False i (ts @ n # rest) acc' (logEvent (TriggerStarted i t) s) =
      (Inl (WorkflowActivationError e n), s\<lparr>aw_events := aw_events s @ map (TriggerStarted i) (t # ts) @ [TriggerFailed i n]\<rparr>)"
    using Cons.IH [of _ "logEvent (TriggerStarted i t) s"] Cons.prems by (simp add: logEvent_def)
  with q show ?case by (cases q) simp_all
qed

text \<open>C15: When one trigger of a workflow cannot be started, those before it have been: nothing closes them, neither
  the failed activation nor a deactivation, for which the workflow is inactive. Every further attempt starts them
  once more, so that after k attempts each of them runs k times.\<close>

theorem failed_activation_leaks_triggers:
  assumes "getTriggerNodes (te_nodeTypes env) (wi_workflow w) = ts @ n # rest"
    "\<forall>t \<in> set ts. \<forall>h. \<exists>r. te_trigger env h (wi_id w) t = Inr r" "\<forall>h. te_trigger env h (wi_id w) n = Inl e"
    "\<not> isActive (wi_id w) s" "s' = (attemptActive env w ^^ k) s"
  shows "aw_events s' = aw_events s @ concat (replicate k (map (TriggerStarted (wi_id w)) ts @ [TriggerFailed (wi_id w) n])) \<and>
     removeActive env (wi_id w) s' = (Inr False, s')"
proof -
  have types: "\<forall>t \<in> set (ts @ [n]). \<exists>ty. te_nodeTypes env t = Some ty \<and> nt_trigger ty"
    using getTriggerNodes_type [of _ "te_nodeTypes env" "wi_workflow w"] assms(1) by auto
  have step: "attemptActive env w s = s\<lparr>aw_events := aw_events s @ map (TriggerStarted (wi_id w)) ts @ [TriggerFailed (wi_id w) n]\<rparr>" for s
    by (simp add: attemptActive_def addActive_def assms(1) startTriggers_fails [OF types assms(2,3)])
  have "(attemptActive env w ^^ k) s =
      s\<lparr>aw_events := aw_events s @ concat (replicate k (map (TriggerStarted (wi_id w)) ts @ [TriggerFailed (wi_id w) n]))\<rparr>"
  proof (induction k)
    case (Suc k)
    have "concat (replicate (Suc k) xs) = concat (replicate k xs) @ xs" for xs :: "TriggerEvent list"
      by (induction k) simp_all
    with Suc show ?case by (simp add: step)
  qed simp
  moreover have "map_of (activeWorkflows s) (wi_id w) = None"
    using assms(4) by (simp add: isActive_def map_of_eq_None_iff)
  ultimately show ?thesis using assms(5) by (simp add: removeActive_def)
qed

lemma failed_activation_leaks_triggers_witness:
  "aw_events ((attemptActive sampleEnv (workflowOf [(''a'', ''trigger''), (''broken'', ''trigger'')]) ^^ 3) inactive) =
     concat (replicate 3 [TriggerStarted ''w'' (plainNode 0 ''a'' ''trigger''),
       TriggerFailed ''w'' (plainNode 0 ''broken'' ''trigger'')])"
proof -
  let ?w = "workflowOf [(''a'', ''trigger''), (''broken'', ''trigger'')]"
  let ?a = "plainNode 0 ''a'' ''trigger''" and ?b = "plainNode 0 ''broken'' ''trigger''"
  have "getTriggerNodes (te_nodeTypes sampleEnv) (wi_workflow ?w) = [?a] @ ?b # []"
    by (simp add: getTriggerNodes_def queryNodes_def sampleEnv_def workflowOf_def newWorkflow_def setNodes_def setConnections_def
        setPinData_def plainNode_def)
  from failed_activation_leaks_triggers [OF this _ _ inactive_ok(2) refl, of "ApplicationError ''down''" 3]
  show ?thesis by (simp add: sampleEnv_def plainNode_def workflowOf_def inactive_def)
qed

section \<open>The shortest interval\<close>

lemma nat_str_digits: "set (nat_str n) \<inter> {CHR '' '', CHR ''*''} = {}"
proof (induction n rule: nat_str.induct)
  case (1 n)
  have d: "digit_char m \<notin> {CHR '' '', CHR ''*''}" for m
  proof -
    have "digit_char m \<in> set ''0123456789''" unfolding digit_char_def by (rule nth_mem) simp
    then show ?thesis by auto
  qed
  show ?case using 1 d [of n] d [of "n mod 10"] by (subst nat_str.simps) auto
qed

lemma takeWhile_nat_str: "takeWhile (\<lambda>c. c \<noteq> CHR '' '') (nat_str n @ CHR '' '' # r) = nat_str n"
  using nat_str_digits [of n] by (subst takeWhile_append2) auto

text \<open>Only an expression of the user can be refused as too short, and it is refused exactly when its first field has a
  star: every second written as a range of seconds passes, and every minute written with five fields is refused.\<close>

theorem intervalTooShort_iff:
  "(intervalTooShort (toCronExpression second minute t) \<longleftrightarrow>
      (\<exists>e. t = CustomTrigger e \<and> CHR ''*'' \<in> set (takeWhile (\<lambda>c. c \<noteq> CHR '' '') (js_trim e)))) \<and>
   \<not> intervalTooShort (toCronExpression second minute (CustomTrigger ''0-59 * * * * *'')) \<and>
   intervalTooShort (toCronExpression second minute (CustomTrigger ''* * * * *''))"
proof -
  have "CHR ''*'' \<notin> set (nat_str second)" using nat_str_digits [of second] by blast
  then show ?thesis
    by (cases t) (simp_all add: intervalTooShort_def takeWhile_nat_str js_trim_def isSpace_def)
qed

section \<open>Polling that goes on\<close>

lemma getPollNodes_type: "n \<in> set (getPollNodes types w) \<Longrightarrow> \<exists>t. types n = Some t \<and> nt_poll t"
  by (auto simp: getPollNodes_def queryNodes_def split: option.splits)

lemma executeTrigger_eq:
  assumes "te_nodeTypes env n = Some t" "nt_poll t"
  shows "te_poll env (aw_events s) w n = Inl e \<Longrightarrow> executeTrigger env True w n s = (Inl e, logEvent (Polled w n) s)"
    "te_poll env (aw_events s) w n = Inr True \<Longrightarrow> executeTrigger env b w n s = (Inr (), logEvent (Emitted w n) (logEvent (Polled w n) s))"
  using assms by (simp_all add: executeTrigger_def runPoll_def)

lemma cronExpressionsOf_single:
  "\<exists>d. cronExpressionsOf env [item] s = ([toCronExpression (te_randomInt env (aw_draws s)) (te_randomInt env (Suc (aw_draws s))) item], s\<lparr>aw_draws := d\<rparr>)"
  by (simp add: cronExpressionsOf_def Let_def) blast

lemma not_tooShort: "\<forall>e. item \<noteq> CustomTrigger e \<Longrightarrow> \<not> intervalTooShort (toCronExpression a b item)"
  using nat_str_digits [of a] by (cases item) (auto simp: intervalTooShort_def takeWhile_nat_str)

text \<open>A new job runs.\<close>

lemma registerCron_runs:
  assumes "cronsOk m" "\<forall>c. registered m c \<longrightarrow> cx_workflowId (cr_ctx c) \<noteq> cx_workflowId ctx" "\<forall>x tz. cronJob x tz = None"
  shows "\<exists>m'. registerCron cronJob ctx onTick m = Inr m' \<and> map_of (stm_jobs m') (stm_nextJob m) = Some onTick"
proof -
  have none: "\<not> (\<exists>c. registered m c \<and> cr_ctx c = ctx)" using assms(2) by blast
  have "\<not> runningJob m (stm_nextJob m)"
    using assms(1) registered_job_less [OF assms(1)] less_irrefl unfolding cronsOk_def by metis
  then have "map_of (stm_jobs m) (stm_nextJob m) = None" by (simp only: runningJob_def not_not)
  then show ?thesis
    unfolding registerCron_cases [OF assms(1)] if_not_P [OF none] using assms(3) by (simp add: map_add_def)
qed

text \<open>C16: Take a workflow without trigger nodes whose first poller has one poll time, which is not an expression of the user,
  and finds data in its first poll. When the second poller fails its first poll, the activation fails and the workflow is
  inactive, so deactivating it does nothing; but the job of the first poller runs, and at its times it polls and starts
  executions of the workflow. (With a trigger node the workflow would stay active and could be deactivated.)\<close>

theorem failed_activation_leaks_polling:
  assumes "getTriggerNodes (te_nodeTypes env) (wi_workflow w) = []" "getPollNodes (te_nodeTypes env) (wi_workflow w) = p # q # rest"
    "te_pollTimes env p = [item]" "\<forall>x. item \<noteq> CustomTrigger x" "\<forall>h. te_poll env h (wi_id w) p = Inr True"
    "\<forall>h. te_poll env h (wi_id w) q = Inl e" "\<forall>x tz. te_cronJob env x tz = None" "\<not> isActive (wi_id w) s"
    "cronsOk (scheduledTasks s)" "\<forall>c. registered (scheduledTasks s) c \<longrightarrow> cx_workflowId (cr_ctx c) \<noteq> wi_id w"
  shows "\<exists>s1. addActive env manual (wi_id w) w s = (Inl (WorkflowActivationError e q), s1) \<and>
     removeActive env (wi_id w) s1 = (Inr False, s1) \<and>
     (\<exists>j. runningJob (scheduledTasks s1) j \<and>
        aw_events (jobTick env True j s1) = aw_events s1 @ [Polled (wi_id w) p, Emitted (wi_id w) p])"
proof -
  obtain tp tq where types: "te_nodeTypes env p = Some tp" "nt_poll tp" "te_nodeTypes env q = Some tq" "nt_poll tq"
    using getPollNodes_type [of p "te_nodeTypes env" "wi_workflow w"] getPollNodes_type [of q "te_nodeTypes env" "wi_workflow w"] assms(2)
    by auto
  define sa where "sa = s\<lparr>activeWorkflows := AList.update (wi_id w) [] (activeWorkflows s)\<rparr>"
  define expr where "expr = toCronExpression (te_randomInt env (aw_draws sa)) (te_randomInt env (Suc (aw_draws sa))) item"
  obtain d where d: "cronExpressionsOf env [item] sa = ([expr], sa\<lparr>aw_draws := d\<rparr>)"
    using cronExpressionsOf_single [of env item sa] unfolding expr_def by blast
  define sb where "sb = logEvent (Emitted (wi_id w) p) (logEvent (Polled (wi_id w) p) (sa\<lparr>aw_draws := d\<rparr>))"
  have run: "executeTrigger env True (wi_id w) p (sa\<lparr>aw_draws := d\<rparr>) = (Inr (), sb)"
    using executeTrigger_eq(2) [OF types(1,2)] assms(5) by (simp add: sb_def)
  define ctx where "ctx = \<lparr>cx_nodeId = te_nodeId env p, cx_workflowId = wi_id w, cx_timezone = wi_timezone w,
              cx_expression = expr, cx_recurrence = None\<rparr>"
  have sb: "scheduledTasks sb = scheduledTasks s" "activeWorkflows sb = activeWorkflows sa" by (simp_all add: sb_def sa_def)
  obtain m where m: "registerCron (te_cronJob env) ctx (wi_id w, p) (scheduledTasks sb) = Inr m"
      "map_of (stm_jobs m) (stm_nextJob (scheduledTasks s)) = Some (wi_id w, p)"
  proof -
    have "\<forall>c. registered (scheduledTasks s) c \<longrightarrow> cx_workflowId (cr_ctx c) \<noteq> cx_workflowId ctx" using assms(10) by (simp add: ctx_def)
    from registerCron_runs [OF assms(9) this assms(7)] show ?thesis using that unfolding sb by blast
  qed
  define sc where "sc = sb\<lparr>scheduledTasks := m\<rparr>"
  have "registerPolling env w p [expr] sb = (Inr (), sc)"
    using m(1) not_tooShort [OF assms(4)] by (simp add: ctx_def [symmetric] expr_def [symmetric] sc_def) (simp add: expr_def)
  then have first: "activatePolling env w p sa = (Inr (), sc)"
    by (simp add: activatePolling_def assms(3) d run)
  obtain es sd where sd: "cronExpressionsOf env (te_pollTimes env q) sc = (es, sd)" by force
  note fd = cronExpressionsOf_frame [OF sd]
  have second: "activatePolling env w q sc = (Inl e, logEvent (Polled (wi_id w) q) sd)"
    using executeTrigger_eq(1) [OF types(3,4)] assms(6) by (simp add: activatePolling_def sd)
  define s1 where "s1 = (logEvent (Polled (wi_id w) q) sd)\<lparr>activeWorkflows := AList.delete (wi_id w) (activeWorkflows sd)\<rparr>"
  have add: "addActive env manual (wi_id w) w s = (Inl (WorkflowActivationError e q), s1)"
    by (simp add: addActive_def assms(1,2) sa_def [symmetric] first second s1_def)
  have "map_of (activeWorkflows s1) (wi_id w) = None" by (simp add: s1_def delete_conv')
  then have "removeActive env (wi_id w) s1 = (Inr False, s1)" by (simp add: removeActive_def)
  moreover have job: "map_of (stm_jobs (scheduledTasks s1)) (stm_nextJob (scheduledTasks s)) = Some (wi_id w, p)"
    using m(2) fd by (simp add: s1_def sc_def)
  moreover have "aw_events (jobTick env True (stm_nextJob (scheduledTasks s)) s1) = aw_events s1 @ [Polled (wi_id w) p, Emitted (wi_id w) p]"
    using executeTrigger_eq(2) [OF types(1,2)] assms(5) job by (simp add: jobTick_def cronTick_def)
  moreover have "runningJob (scheduledTasks s1) (stm_nextJob (scheduledTasks s))" by (simp add: runningJob_def job)
  ultimately show ?thesis using add by blast
qed

lemma failed_activation_leaks_polling_witness:
  "\<exists>s1 j. addActive sampleEnv False ''w'' (workflowOf [(''a'', ''poll''), (''broken'', ''poll'')]) inactive =
       (Inl (WorkflowActivationError (ApplicationError ''down'') (plainNode 0 ''broken'' ''poll'')), s1) \<and>
     removeActive sampleEnv ''w'' s1 = (Inr False, s1) \<and> runningJob (scheduledTasks s1) j"
proof -
  let ?w = "workflowOf [(''a'', ''poll''), (''broken'', ''poll'')]"
  let ?a = "plainNode 0 ''a'' ''poll''" and ?b = "plainNode 0 ''broken'' ''poll''"
  have "getTriggerNodes (te_nodeTypes sampleEnv) (wi_workflow ?w) = []" "getPollNodes (te_nodeTypes sampleEnv) (wi_workflow ?w) = ?a # ?b # []"
    by (simp_all add: getTriggerNodes_def getPollNodes_def queryNodes_def sampleEnv_def workflowOf_def newWorkflow_def setNodes_def
        setConnections_def setPinData_def plainNode_def)
  moreover have "wi_id ?w = ''w''" by (simp add: workflowOf_def)
  ultimately show ?thesis
    using failed_activation_leaks_polling [of sampleEnv ?w ?a ?b "[]" "EveryHour 5" "ApplicationError ''down''" inactive False] inactive_ok
    by (simp add: sampleEnv_def plainNode_def) blast
qed

end
