(* ===== verification/ActivationQueueProps.thy ===== *)
theory ActivationQueueProps
  imports ActivationQueue ActivationProps
begin

text \<open>
  The retries of failed activations: one pending timer for a workflow at most, with a delay that doubles up to a day.
\<close>

section \<open>The queue and its timers\<close>

definition retryQueue :: "ActiveWorkflowManager \<Rightarrow> (string \<times> QueuedActivation) list \<times> (nat \<times> RetryTimer) list \<times> nat" where
  "retryQueue m = (queuedActivations m, awm_timers m, awm_nextTimer m)"

text \<open>A pending timer is the one the entry of its workflow names, with the delay the entry names.\<close>

definition retriesOk :: "ActiveWorkflowManager \<Rightarrow> bool" where
  "retriesOk m \<longleftrightarrow>
     (\<forall>i t. map_of (awm_timers m) i = Some t \<longrightarrow> i < awm_nextTimer m \<and>
        (\<exists>qa. map_of (queuedActivations m) (rt_workflowId t) = Some qa \<and> qa_timeout qa = i \<and> qa_lastTimeout qa = rt_delay t)) \<and>
     (\<forall>w qa. map_of (queuedActivations m) w = Some qa \<longrightarrow> qa_timeout qa < awm_nextTimer m \<and>
        WORKFLOW_REACTIVATE_INITIAL_TIMEOUT \<le> qa_lastTimeout qa \<and> qa_lastTimeout qa \<le> WORKFLOW_REACTIVATE_MAX_TIMEOUT) \<and>
     (\<forall>w w' qa qa'. map_of (queuedActivations m) w = Some qa \<longrightarrow> map_of (queuedActivations m) w' = Some qa' \<longrightarrow>
        qa_timeout qa = qa_timeout qa' \<longrightarrow> w = w')"

lemma retriesOk_cong: "retryQueue m = retryQueue m' \<Longrightarrow> retriesOk m = retriesOk m'"
  by (simp add: retriesOk_def retryQueue_def)

lemma retryQueue_frame [simp]:
  "retryQueue (logManager e m) = retryQueue m" "retryQueue (registerError w x m) = retryQueue m"
  "retryQueue (deregisterError w m) = retryQueue m" "retryQueue (m\<lparr>awm_active := a\<rparr>) = retryQueue m"
  "retryQueue (m\<lparr>awm_events := h\<rparr>) = retryQueue m"
  by (simp_all add: retryQueue_def logManager_def registerError_def deregisterError_def)

lemma removeQueued_queue:
  "retryQueue m = retryQueue m' \<Longrightarrow> retryQueue (removeQueuedWorkflowActivation w m) = retryQueue (removeQueuedWorkflowActivation w m')"
  by (simp add: retryQueue_def removeQueuedWorkflowActivation_def split: option.splits)

lemma queued_removeQueued:
  "map_of (queuedActivations (removeQueuedWorkflowActivation w m)) v = (if v = w then None else map_of (queuedActivations m) v)"
  by (simp add: removeQueuedWorkflowActivation_def delete_conv' split: option.split)

lemma retriesOkD:
  assumes "retriesOk m"
  shows "map_of (awm_timers m) i = Some t \<Longrightarrow> i < awm_nextTimer m \<and>
        (\<exists>qa. map_of (queuedActivations m) (rt_workflowId t) = Some qa \<and> qa_timeout qa = i \<and> qa_lastTimeout qa = rt_delay t)"
    "map_of (queuedActivations m) w = Some qa \<Longrightarrow> qa_timeout qa < awm_nextTimer m \<and>
        WORKFLOW_REACTIVATE_INITIAL_TIMEOUT \<le> qa_lastTimeout qa \<and> qa_lastTimeout qa \<le> WORKFLOW_REACTIVATE_MAX_TIMEOUT"
    "map_of (queuedActivations m) w = Some qa \<Longrightarrow> map_of (queuedActivations m) w' = Some qa' \<Longrightarrow>
        qa_timeout qa = qa_timeout qa' \<Longrightarrow> w = w'"
  using assms unfolding retriesOk_def by blast+

lemma timers_removeQueued:
  assumes ok: "retriesOk m"
  shows "map_of (awm_timers (removeQueuedWorkflowActivation w m)) i =
     (case map_of (awm_timers m) i of None \<Rightarrow> None | Some t \<Rightarrow> if rt_workflowId t = w then None else Some t)"
proof (cases "map_of (awm_timers m) i")
  case None
  then show ?thesis by (simp add: removeQueuedWorkflowActivation_def delete_conv' split: option.split)
next
  case (Some t)
  obtain qa where qa: "map_of (queuedActivations m) (rt_workflowId t) = Some qa" "qa_timeout qa = i"
    using retriesOkD(1) [OF ok Some] by blast
  have same: "qa_timeout qa' = i \<longleftrightarrow> rt_workflowId t = w" if "map_of (queuedActivations m) w = Some qa'" for qa'
    using retriesOkD(3) [OF ok qa(1) that] qa that by auto
  show ?thesis
    using Some qa(1) same by (auto simp: removeQueuedWorkflowActivation_def delete_conv' split: option.split)
qed

lemma removeQueued_ok:
  assumes ok: "retriesOk m"
  shows "retriesOk (removeQueuedWorkflowActivation w m)"
proof -
  have n: "awm_nextTimer (removeQueuedWorkflowActivation w m) = awm_nextTimer m"
    by (simp add: removeQueuedWorkflowActivation_def split: option.split)
  show ?thesis
    unfolding retriesOk_def timers_removeQueued [OF ok] queued_removeQueued n
    using retriesOkD [OF ok] by (auto split: option.splits if_splits)
qed

text \<open>An entry with a new timer.\<close>

definition withRetry :: "RetryTimer \<Rightarrow> QueuedActivation \<Rightarrow> ActiveWorkflowManager \<Rightarrow> ActiveWorkflowManager" where
  "withRetry t qa m = (snd (setTimer t m))\<lparr>queuedActivations := AList.update (rt_workflowId t)
     (qa\<lparr>qa_timeout := awm_nextTimer m\<rparr>) (queuedActivations m)\<rparr>"

lemma withRetry_ok:
  assumes ok: "retriesOk m" and fresh: "\<forall>i t'. map_of (awm_timers m) i = Some t' \<longrightarrow> rt_workflowId t' \<noteq> rt_workflowId t"
    and delay: "qa_lastTimeout qa = rt_delay t" "WORKFLOW_REACTIVATE_INITIAL_TIMEOUT \<le> rt_delay t" "rt_delay t \<le> WORKFLOW_REACTIVATE_MAX_TIMEOUT"
  shows "retriesOk (withRetry t qa m)"
proof -
  have none: "map_of (awm_timers m) (awm_nextTimer m) = None"
    using retriesOkD(1) [OF ok, of "awm_nextTimer m"] by (cases "map_of (awm_timers m) (awm_nextTimer m)") auto
  have timers: "map_of (awm_timers (withRetry t qa m)) = (map_of (awm_timers m))(awm_nextTimer m \<mapsto> t)"
    using none by (auto simp: withRetry_def setTimer_def map_add_def fun_eq_iff split: option.split)
  have queue: "map_of (queuedActivations (withRetry t qa m)) = (map_of (queuedActivations m))(rt_workflowId t \<mapsto> qa\<lparr>qa_timeout := awm_nextTimer m\<rparr>)"
    by (simp add: withRetry_def update_conv')
  have next_: "awm_nextTimer (withRetry t qa m) = Suc (awm_nextTimer m)" by (simp add: withRetry_def setTimer_def)
  have "i < Suc (awm_nextTimer m) \<and> (\<exists>q. map_of (queuedActivations (withRetry t qa m)) (rt_workflowId t') = Some q \<and> qa_timeout q = i \<and>
      qa_lastTimeout q = rt_delay t')" if "map_of (awm_timers (withRetry t qa m)) i = Some t'" for i t'
  proof (cases "i = awm_nextTimer m")
    case True
    have "t' = t" using that True by (simp add: timers)
    moreover have "map_of (queuedActivations (withRetry t qa m)) (rt_workflowId t) = Some (qa\<lparr>qa_timeout := awm_nextTimer m\<rparr>)"
      by (simp add: queue)
    ultimately show ?thesis using True delay(1) by (intro conjI exI [of _ "qa\<lparr>qa_timeout := awm_nextTimer m\<rparr>"]) simp_all
  next
    case False
    with that have t': "map_of (awm_timers m) i = Some t'" by (simp add: timers)
    then have "rt_workflowId t' \<noteq> rt_workflowId t" using fresh by blast
    with retriesOkD(1) [OF ok t'] show ?thesis by (auto simp: queue)
  qed
  moreover have "qa_timeout q < Suc (awm_nextTimer m) \<and> WORKFLOW_REACTIVATE_INITIAL_TIMEOUT \<le> qa_lastTimeout q \<and>
      qa_lastTimeout q \<le> WORKFLOW_REACTIVATE_MAX_TIMEOUT" if "map_of (queuedActivations (withRetry t qa m)) w = Some q" for w q
    using that retriesOkD(2) [OF ok, of w q] delay by (cases "w = rt_workflowId t") (auto simp: queue)
  moreover have "w = w'" if "map_of (queuedActivations (withRetry t qa m)) w = Some q" "map_of (queuedActivations (withRetry t qa m)) w' = Some q'"
      "qa_timeout q = qa_timeout q'" for w w' q q'
  proof -
    have old: "v = rt_workflowId t \<or> map_of (queuedActivations m) v = Some x \<and> qa_timeout x \<noteq> awm_nextTimer m"
      if "map_of (queuedActivations (withRetry t qa m)) v = Some x" for v x
      using that retriesOkD(2) [OF ok, of v x] by (cases "v = rt_workflowId t") (simp_all add: queue)
    have new: "qa_timeout x = awm_nextTimer m" if "map_of (queuedActivations (withRetry t qa m)) (rt_workflowId t) = Some x" for x
      using that by (auto simp: queue)
    show ?thesis
    proof (rule ccontr)
      assume ne: "w \<noteq> w'"
      then consider "w = rt_workflowId t" "w' \<noteq> rt_workflowId t" | "w' = rt_workflowId t" "w \<noteq> rt_workflowId t"
        | "w \<noteq> rt_workflowId t" "w' \<noteq> rt_workflowId t" by blast
      then show False
      proof cases
        case 1
        then show False using new [of q] old [OF that(2)] that(1,3) by metis
      next
        case 2
        then show False using new [of q'] old [OF that(1)] that(2,3) by metis
      next
        case 3
        then show False using old [OF that(1)] old [OF that(2)] retriesOkD(3) [OF ok _ _ that(3)] ne by blast
      qed
    qed
  qed
  ultimately show ?thesis unfolding retriesOk_def next_ by blast
qed

lemma addQueued_withRetry:
  "addQueuedWorkflowActivation mode db m =
     withRetry \<lparr>rt_workflowId = db_id db, rt_activationMode = mode, rt_workflowData = db, rt_delay = WORKFLOW_REACTIVATE_INITIAL_TIMEOUT\<rparr>
       \<lparr>qa_activationMode = mode, qa_lastTimeout = WORKFLOW_REACTIVATE_INITIAL_TIMEOUT, qa_timeout = 0, qa_workflowData = db\<rparr>
       (removeQueuedWorkflowActivation (db_id db) m)"
  by (simp add: addQueuedWorkflowActivation_def withRetry_def setTimer_def)

lemma addQueued_ok:
  assumes ok: "retriesOk m"
  shows "retriesOk (addQueuedWorkflowActivation mode db m)"
  unfolding addQueued_withRetry
  by (rule withRetry_ok [OF removeQueued_ok [OF ok]])
    (auto simp: timers_removeQueued [OF ok] WORKFLOW_REACTIVATE_INITIAL_TIMEOUT_def WORKFLOW_REACTIVATE_MAX_TIMEOUT_def
      split: option.splits if_splits)

text \<open>Activating leaves the queue as it is or takes the workflow from it.\<close>

lemma tryAdd_queue:
  assumes "tryAdd env w mode db m = (r, m')"
  shows "retryQueue m' = retryQueue m \<or> retryQueue m' = retryQueue (removeQueuedWorkflowActivation w m)"
proof (cases "db_activeVersion db")
  case None
  with assms show ?thesis by (auto simp: tryAdd_def split: if_splits)
next
  case (Some version)
  obtain rw m1 where w: "webhooksStep env mode (db_id db) m = (rw, m1)" by force
  have m1: "retryQueue m1 = retryQueue m" using w by (auto simp: webhooksStep_def split: if_splits sum.splits)
  let ?wf = "\<lparr>wi_id = db_id db, wi_timezone = db_timezone db, wi_workflow = version\<rparr>"
  obtain rt m2 where t: "triggersStep env ?wf m1 = (rt, m2)" by force
  have m2: "retryQueue m2 = retryQueue m1"
    using t by (auto simp: triggersStep_def addTriggersAndPollers_def split: if_splits sum.splits prod.splits)
  have m3: "retryQueue (snd (activatedStep env w added m2)) = retryQueue (removeQueuedWorkflowActivation w m)" for added
    using removeQueued_queue [of m2 m w] m1 m2 by (simp add: activatedStep_def Let_def split: option.split)
  show ?thesis
    using assms Some w t m1 m2 m3 by (auto simp: tryAdd_def Let_def split: if_splits sum.splits) (metis snd_conv)+
qed

lemma addWorkflow_queue:
  assumes "addWorkflow env w mode db publish m = (r, m')"
  shows "retryQueue m' = retryQueue m \<or> retryQueue m' = retryQueue (removeQueuedWorkflowActivation w m)"
proof -
  have *: "\<And>db r' m''. tryAdd env w mode db m = (r', m'') \<Longrightarrow>
      retryQueue m'' = retryQueue m \<or> retryQueue m'' = retryQueue (removeQueuedWorkflowActivation w m)"
    by (rule tryAdd_queue)
  show ?thesis
    using assms by (auto simp: addWorkflow_def split: option.splits if_splits prod.splits sum.splits dest!: *)
qed

lemma addWorkflow_ok: "retriesOk m \<Longrightarrow> addWorkflow env w mode db publish m = (r, m') \<Longrightarrow> retriesOk m'"
  using addWorkflow_queue removeQueued_ok retriesOk_cong by metis

section \<open>Every state of the manager\<close>

datatype ManagerOp =
    OpAdd string WorkflowActivateMode bool
  | OpActivate string WorkflowActivateMode
  | OpTimer nat
  | OpTriggerError WorkflowActivateMode DbWorkflow INode js_error
  | OpRemove string
  | OpHandleAdd string
  | OpHandleRemove string
  | OpRemoveAllQueued

fun managerOp :: "ManagerEnv \<Rightarrow> ManagerOp \<Rightarrow> ActiveWorkflowManager \<Rightarrow> ActiveWorkflowManager" where
  "managerOp env (OpAdd w mode publish) m = snd (addWorkflow env w mode None publish m)"
| "managerOp env (OpActivate w mode) m = snd (activateWorkflow env w mode m)"
| "managerOp env (OpTimer i) m = fireRetryTimer env i m"
| "managerOp env (OpTriggerError mode db node e) m = emitTriggerError env mode db node e m"
| "managerOp env (OpRemove w) m = snd (removeWorkflow env w m)"
| "managerOp env (OpHandleAdd w) m = handleAddWebhooksTriggersAndPollers env w m"
| "managerOp env (OpHandleRemove w) m = snd (handleRemoveTriggersAndPollers env w m)"
| "managerOp env OpRemoveAllQueued m = removeAllQueuedWorkflowActivations m"

definition newManager :: "ActiveWorkflows \<Rightarrow> ActiveWorkflowManager" where
  "newManager a = \<lparr>awm_active = a, queuedActivations = [], awm_timers = [], awm_nextTimer = 0, activationErrors = [], awm_events = []\<rparr>"

text \<open>The timer that fires is no longer pending.\<close>

definition fired :: "nat \<Rightarrow> ActiveWorkflowManager \<Rightarrow> ActiveWorkflowManager" where
  "fired i m = m\<lparr>awm_timers := AList.delete i (awm_timers m)\<rparr>"

lemma fired_ok:
  assumes ok: "retriesOk m" and t: "map_of (awm_timers m) i = Some t"
  shows "retriesOk (fired i m)" "map_of (awm_timers (fired i m)) j = Some t' \<Longrightarrow> rt_workflowId t' \<noteq> rt_workflowId t"
proof -
  show "retriesOk (fired i m)"
    using retriesOkD [OF ok] unfolding retriesOk_def by (simp add: fired_def delete_conv')
  assume j: "map_of (awm_timers (fired i m)) j = Some t'"
  then have "map_of (awm_timers m) j = Some t'" "j \<noteq> i" by (simp_all add: fired_def delete_conv' split: if_splits)
  with retriesOkD(1) [OF ok t] retriesOkD(1) [OF ok, of j t'] show "rt_workflowId t' \<noteq> rt_workflowId t" by auto
qed

definition nextDelay :: "nat \<Rightarrow> nat" where
  "nextDelay d = (if d < WORKFLOW_REACTIVATE_MAX_TIMEOUT then min (d * 2) WORKFLOW_REACTIVATE_MAX_TIMEOUT else d)"

lemma retryFunction_eq:
  "retryFunction env t m = (case addWorkflow env (rt_workflowId t) (rt_activationMode t) (Some (rt_workflowData t)) True m of
      (Inr _, m') \<Rightarrow> (None, m')
    | (Inl e, m') \<Rightarrow> (case map_of (queuedActivations m') (rt_workflowId t) of
        None \<Rightarrow> (Some TypeError, m')
      | Some qa \<Rightarrow> (None, withRetry (t\<lparr>rt_delay := nextDelay (qa_lastTimeout qa)\<rparr>) (qa\<lparr>qa_lastTimeout := nextDelay (qa_lastTimeout qa)\<rparr>) m')))"
  by (simp add: retryFunction_def retryContinue_def withRetry_def setTimer_def nextDelay_def Let_def split: option.split sum.split prod.split)

lemma nextDelay_bounds:
  "WORKFLOW_REACTIVATE_INITIAL_TIMEOUT \<le> d \<Longrightarrow> d \<le> WORKFLOW_REACTIVATE_MAX_TIMEOUT \<Longrightarrow>
   WORKFLOW_REACTIVATE_INITIAL_TIMEOUT \<le> nextDelay d \<and> nextDelay d \<le> WORKFLOW_REACTIVATE_MAX_TIMEOUT"
  by (auto simp: nextDelay_def min_def)

lemma fireRetryTimer_ok:
  assumes ok: "retriesOk m"
  shows "retriesOk (fireRetryTimer env i m)"
proof (cases "map_of (awm_timers m) i")
  case (Some t)
  note f = fired_ok [OF ok Some]
  obtain r m' where a: "addWorkflow env (rt_workflowId t) (rt_activationMode t) (Some (rt_workflowData t)) True (fired i m) = (r, m')" by force
  note ok' = addWorkflow_ok [OF f(1) a]
  have timers: "rt_workflowId t' \<noteq> rt_workflowId t" if "map_of (awm_timers m') j = Some t'" for j t'
    using addWorkflow_queue [OF a] that f(2) [of j t'] timers_removeQueued [OF f(1), of "rt_workflowId t" j]
    by (auto simp: retryQueue_def split: option.splits if_splits)
  have "retriesOk (withRetry (t\<lparr>rt_delay := nextDelay (qa_lastTimeout qa)\<rparr>) (qa\<lparr>qa_lastTimeout := nextDelay (qa_lastTimeout qa)\<rparr>) m')"
    if "map_of (queuedActivations m') (rt_workflowId t) = Some qa" for qa
    using timers nextDelay_bounds retriesOkD(2) [OF ok' that] by (intro withRetry_ok [OF ok']) auto
  with ok' have "retriesOk (snd (retryFunction env t (fired i m)))"
    unfolding retryFunction_eq a by (auto split: sum.split option.split)
  then show ?thesis using Some by (simp add: fireRetryTimer_def fired_def)
qed (use ok in \<open>simp add: fireRetryTimer_def\<close>)

lemma removeWorkflowTriggersAndPollers_queue [simp]:
  "retryQueue (snd (removeWorkflowTriggersAndPollers env w m)) = retryQueue m"
  by (simp add: removeWorkflowTriggersAndPollers_def split: prod.split sum.split)

lemma managerOp_ok:
  assumes ok: "retriesOk m"
  shows "retriesOk (managerOp env x m)"
proof (cases x)
  case (OpAdd w mode publish)
  obtain r m' where "addWorkflow env w mode None publish m = (r, m')" by force
  with addWorkflow_ok [OF ok this] OpAdd show ?thesis by simp
next
  case (OpActivate w mode)
  show ?thesis
  proof (cases "me_findById env w")
    case (Some db)
    obtain r m' where a: "addWorkflow env (db_id db) mode (Some db) False m = (r, m')" by force
    have "retriesOk (logManager e m')" for e using addWorkflow_ok [OF ok a] retriesOk_cong retryQueue_frame(1) by blast
    then show ?thesis using OpActivate Some a addWorkflow_ok [OF ok a] addQueued_ok
      by (auto simp: activateWorkflow_def Let_def split: sum.split)
  qed (use OpActivate ok in \<open>simp add: activateWorkflow_def\<close>)
next
  case (OpTimer i)
  then show ?thesis using fireRetryTimer_ok [OF ok] by simp
next
  case (OpTriggerError mode db node e)
  have "retriesOk (logManager ev (registerError w' er (m\<lparr>awm_active := a\<rparr>)))" for ev w' er a
    using ok retriesOk_cong [of "logManager ev (registerError w' er (m\<lparr>awm_active := a\<rparr>))" m] by simp
  with OpTriggerError show ?thesis by (simp add: emitTriggerError_def Let_def addQueued_ok)
next
  case (OpRemove w)
  let ?m1 = "deregisterError w (logManager (WebhooksCleared w) m)"
  have q1: "retryQueue (logManager (PublishedRemove w) (logManager (WebhooksCleared w) m)) = retryQueue m" by simp
  have "retriesOk ?m1" using ok retriesOk_cong [of ?m1 m] by simp
  then have "retriesOk (removeQueuedWorkflowActivation w ?m1)" by (rule removeQueued_ok)
  then have "retriesOk (snd (removeWorkflowTriggersAndPollers env w (removeQueuedWorkflowActivation w ?m1)))"
    using retriesOk_cong removeWorkflowTriggersAndPollers_queue by blast
  with OpRemove ok retriesOk_cong [OF q1] show ?thesis by (simp add: removeWorkflow_def Let_def)
next
  case (OpHandleAdd w)
  obtain r m' where a: "addWorkflow env w Activate None False m = (r, m')" by force
  have "retriesOk (logManager e m')" "retriesOk (logManager e (logManager e' m'))" for e e'
    using addWorkflow_ok [OF ok a] retriesOk_cong retryQueue_frame(1) by blast+
  with OpHandleAdd a show ?thesis by (simp add: handleAddWebhooksTriggersAndPollers_def split: sum.split)
next
  case (OpHandleRemove w)
  obtain r m' where a: "removeWorkflowTriggersAndPollers env w (deregisterError w m) = (r, m')" by force
  have "retryQueue m' = retryQueue m" using removeWorkflowTriggersAndPollers_queue [of env w "deregisterError w m"] a by simp
  then have "retriesOk m'" "retriesOk (logManager e m')" for e
    using ok retriesOk_cong [of m' m] retriesOk_cong [of "logManager e m'" m] by simp_all
  with OpHandleRemove a show ?thesis by (simp add: handleRemoveTriggersAndPollers_def split: sum.split)
next
  case OpRemoveAllQueued
  have "retriesOk (fold removeQueuedWorkflowActivation ws m)" for ws
    using ok by (induction ws arbitrary: m) (simp_all add: removeQueued_ok)
  with OpRemoveAllQueued show ?thesis by (simp add: removeAllQueuedWorkflowActivations_def)
qed

lemma managerOps_ok: "retriesOk (fold (managerOp env) ops (newManager a))"
proof -
  have "retriesOk (fold (managerOp env) ops m)" if "retriesOk m" for m
    using that by (induction ops arbitrary: m) (simp_all add: managerOp_ok)
  moreover have "retriesOk (newManager a)" by (simp add: retriesOk_def newManager_def)
  ultimately show ?thesis by blast
qed

lemma pending_unique:
  assumes ok: "retriesOk m" and "map_of (awm_timers m) i = Some t" "map_of (awm_timers m) j = Some t'" "rt_workflowId t = rt_workflowId t'"
  shows "i = j"
  using retriesOkD(1) [OF ok assms(2)] retriesOkD(1) [OF ok assms(3)] assms(4) by auto

lemma pending_delay:
  assumes ok: "retriesOk m" and "map_of (awm_timers m) i = Some t"
  shows "\<exists>qa. map_of (queuedActivations m) (rt_workflowId t) = Some qa \<and> qa_timeout qa = i \<and> qa_lastTimeout qa = rt_delay t"
    and "1000 \<le> rt_delay t \<and> rt_delay t \<le> 86400000"
proof -
  show "\<exists>qa. map_of (queuedActivations m) (rt_workflowId t) = Some qa \<and> qa_timeout qa = i \<and> qa_lastTimeout qa = rt_delay t"
    using retriesOkD(1) [OF assms] by blast
  then obtain qa where "map_of (queuedActivations m) (rt_workflowId t) = Some qa" "qa_lastTimeout qa = rt_delay t" by blast
  with retriesOkD(2) [OF ok this(1)] show "1000 \<le> rt_delay t \<and> rt_delay t \<le> 86400000"
    by (simp add: WORKFLOW_REACTIVATE_INITIAL_TIMEOUT_def WORKFLOW_REACTIVATE_MAX_TIMEOUT_def)
qed

lemma removeWorkflow_pending:
  assumes ok: "retriesOk m" and "\<not> me_isMultiMain env" "map_of (awm_timers (snd (removeWorkflow env w m))) i = Some t"
  shows "rt_workflowId t \<noteq> w"
proof -
  let ?m1 = "deregisterError w (logManager (WebhooksCleared w) m)"
  have ok1: "retriesOk ?m1" using ok retriesOk_cong [of ?m1 m] by simp
  have "retryQueue (snd (removeWorkflow env w m)) = retryQueue (removeQueuedWorkflowActivation w ?m1)"
    using assms(2) by (simp add: removeWorkflow_def Let_def)
  with assms(3) have "map_of (awm_timers (removeQueuedWorkflowActivation w ?m1)) i = Some t" by (simp add: retryQueue_def)
  then show ?thesis unfolding timers_removeQueued [OF ok1] by (auto split: option.splits if_splits)
qed

lemma fresh_timer: "retriesOk m \<Longrightarrow> map_of (awm_timers m) (awm_nextTimer m) = None"
  using retriesOkD(1) [of m "awm_nextTimer m"] by (cases "map_of (awm_timers m) (awm_nextTimer m)") auto

text \<open>C18: After any sequence of activations, deactivations, failing triggers, messages and timers, each of which runs to
  its end before the next one starts, a workflow has at most one retry that is pending, the one its entry in the
  queue names, after between a second and a day; on a single main instance a deactivated workflow has none.\<close>

theorem one_retry_pending:
  assumes "m = fold (managerOp env) ops (newManager a)"
  shows "(\<forall>i j t t'. map_of (awm_timers m) i = Some t \<longrightarrow> map_of (awm_timers m) j = Some t' \<longrightarrow>
        rt_workflowId t = rt_workflowId t' \<longrightarrow> i = j) \<and>
     (\<forall>i t. map_of (awm_timers m) i = Some t \<longrightarrow> 1000 \<le> rt_delay t \<and> rt_delay t \<le> 86400000 \<and>
        (\<exists>qa. map_of (queuedActivations m) (rt_workflowId t) = Some qa \<and> qa_timeout qa = i \<and> qa_lastTimeout qa = rt_delay t)) \<and>
     (\<not> me_isMultiMain env \<longrightarrow>
        (\<forall>w i t. map_of (awm_timers (snd (removeWorkflow env w m))) i = Some t \<longrightarrow> rt_workflowId t \<noteq> w))"
proof -
  have ok: "retriesOk m" unfolding assms by (rule managerOps_ok)
  show ?thesis
    using pending_unique [OF ok] pending_delay [OF ok] removeWorkflow_pending [OF ok] by blast
qed

section \<open>A sample\<close>

definition sampleManager :: ManagerEnv where
  "sampleManager = \<lparr>me_triggers = sampleEnv, me_isLeader = True, me_isMultiMain = False, me_findById = (\<lambda>_. None),
     me_hasWebhook = (\<lambda>_. False), me_addWebhooks = (\<lambda>_ _. Inl (ApplicationError ''down'')), me_saveTriggerCount = (\<lambda>_ _. None),
     me_isAuthorization = (\<lambda>_. False)\<rparr>"

definition sampleDb :: DbWorkflow where
  "sampleDb = \<lparr>db_id = ''w'', db_timezone = ''UTC'', db_activeVersionId = Some ''v'',
     db_activeVersion = Some (newWorkflow [plainNode 0 ''a'' ''trigger''] [] None)\<rparr>"

definition sampleOps :: "ManagerOp list" where
  "sampleOps = (let e = OpTriggerError Init sampleDb (plainNode 0 ''a'' ''trigger'') TypeError in [e, e])"

lemma one_retry_pending_witness:
  "let m = fold (managerOp sampleManager) sampleOps (newManager inactive)
   in map fst (awm_timers m) = [1] \<and> rt_delay (snd (hd (awm_timers m))) = 1000 \<and>
      (\<forall>i t. map_of (awm_timers m) i = Some t \<longrightarrow> rt_delay t \<le> 86400000) \<and>
      (\<forall>i t. map_of (awm_timers (snd (removeWorkflow sampleManager ''w'' m))) i = Some t \<longrightarrow> rt_workflowId t \<noteq> ''w'')"
proof -
  let ?m = "fold (managerOp sampleManager) sampleOps (newManager inactive)"
  have "map fst (awm_timers ?m) = [1] \<and> rt_delay (snd (hd (awm_timers ?m))) = 1000"
    by (simp add: Let_def sampleOps_def sampleDb_def emitTriggerError_def addQueuedWorkflowActivation_def removeQueuedWorkflowActivation_def
        setTimer_def registerError_def logManager_def newManager_def WORKFLOW_REACTIVATE_INITIAL_TIMEOUT_def)
  moreover have "\<not> me_isMultiMain sampleManager" by (simp add: sampleManager_def)
  ultimately show ?thesis using one_retry_pending [of ?m sampleManager sampleOps inactive] unfolding Let_def by blast
qed

section \<open>The delays\<close>

lemma nextDelay_power: "nextDelay (min (1000 * 2 ^ k) 86400000) = min (1000 * 2 ^ Suc k) 86400000"
  by (auto simp: nextDelay_def WORKFLOW_REACTIVATE_MAX_TIMEOUT_def min_def)

text \<open>The timer of a workflow fires.\<close>

definition fireRetry :: "ManagerEnv \<Rightarrow> string \<Rightarrow> ActiveWorkflowManager \<Rightarrow> ActiveWorkflowManager" where
  "fireRetry env w m = (case map_of (queuedActivations m) w of None \<Rightarrow> m | Some qa \<Rightarrow> fireRetryTimer env (qa_timeout qa) m)"

definition pendingRetry :: "WorkflowActivateMode \<Rightarrow> DbWorkflow \<Rightarrow> nat \<Rightarrow> ActiveWorkflowManager \<Rightarrow> bool" where
  "pendingRetry mode db delay m \<longleftrightarrow> (\<exists>qa. map_of (queuedActivations m) (db_id db) = Some qa \<and> qa_lastTimeout qa = delay \<and>
     map_of (awm_timers m) (qa_timeout qa) =
       Some \<lparr>rt_workflowId = db_id db, rt_activationMode = mode, rt_workflowData = db, rt_delay = delay\<rparr>)"

lemma pendingRetry_withRetry:
  assumes "map_of (awm_timers m) (awm_nextTimer m) = None" "rt_workflowId t = db_id db" "rt_activationMode t = mode" "rt_workflowData t = db"
    "rt_delay t = delay" "qa_lastTimeout qa = delay"
  shows "pendingRetry mode db delay (withRetry t qa m)"
proof -
  have "t = \<lparr>rt_workflowId = db_id db, rt_activationMode = mode, rt_workflowData = db, rt_delay = delay\<rparr>"
    using assms by (intro RetryTimer.equality) simp_all
  with assms show ?thesis by (simp add: pendingRetry_def withRetry_def setTimer_def update_conv' map_add_def)
qed

lemma addQueued_pending: "retriesOk m \<Longrightarrow> pendingRetry mode db 1000 (addQueuedWorkflowActivation mode db m)"
  unfolding addQueued_withRetry
  by (rule pendingRetry_withRetry [OF fresh_timer [OF removeQueued_ok]]) (simp_all add: WORKFLOW_REACTIVATE_INITIAL_TIMEOUT_def)

text \<open>
  A trigger that fails while a retry of the same workflow waits for its activation queues the workflow anew; when the
  activation then fails too, the retry sets a timer of its own and leaves the other one pending.
\<close>

lemma retry_in_flight_two_timers:
  assumes ok: "retriesOk m" and w: "rt_workflowId t = db_id db"
  shows "\<exists>i j ti tj. i \<noteq> j \<and>
    map_of (awm_timers (snd (retryContinue t (Inl e) (emitTriggerError env mode db node err m)))) i = Some ti \<and> rt_workflowId ti = db_id db \<and>
    map_of (awm_timers (snd (retryContinue t (Inl e) (emitTriggerError env mode db node err m)))) j = Some tj \<and> rt_workflowId tj = db_id db"
proof -
  let ?m = "emitTriggerError env mode db node err m"
  let ?m' = "logManager (ErrorWorkflowRun (db_id db) (ActivationFailed (WorkflowActivationError err node)))
    (registerError (db_id db) (OtherError err) (m\<lparr>awm_active := snd (removeActive (me_triggers env) (db_id db) (awm_active m))\<rparr>))"
  have m': "?m = addQueuedWorkflowActivation mode db ?m'" by (simp add: emitTriggerError_def Let_def)
  have ok': "retriesOk ?m'" using ok retriesOk_cong [of ?m' m] by simp
  from addQueued_ok [OF ok'] addQueued_pending [OF ok'] m' have okm: "retriesOk ?m" and p: "pendingRetry mode db 1000 ?m"
    by simp_all
  from p obtain qa where qa: "map_of (queuedActivations ?m) (db_id db) = Some qa"
    and ti: "map_of (awm_timers ?m) (qa_timeout qa) =
      Some \<lparr>rt_workflowId = db_id db, rt_activationMode = mode, rt_workflowData = db, rt_delay = 1000\<rparr>"
    unfolding pendingRetry_def by blast
  let ?t = "t\<lparr>rt_delay := nextDelay (qa_lastTimeout qa)\<rparr>"
  have "awm_timers (snd (retryContinue t (Inl e) ?m)) = awm_timers (snd (setTimer ?t ?m))"
    by (simp add: retryContinue_def w qa nextDelay_def Let_def split: prod.split)
  then have timers: "map_of (awm_timers (snd (retryContinue t (Inl e) ?m))) = (map_of (awm_timers ?m))(awm_nextTimer ?m \<mapsto> ?t)"
    using fresh_timer [OF okm] by (auto simp: setTimer_def map_add_def fun_eq_iff split: option.split)
  have "qa_timeout qa \<noteq> awm_nextTimer ?m" using retriesOkD(2) [OF okm qa] by simp
  then show ?thesis
    unfolding timers using ti w by (intro exI [of _ "qa_timeout qa"] exI [of _ "awm_nextTimer ?m"]) auto
qed

text \<open>
  The timer of the workflow has fired and the activation fails, in the webhooks, a trigger or a poller. The one
  failure that is left out is that the number of triggers cannot be saved: the entry is gone by then, and the retry ends in a
  \<open>TypeError\<close>.
\<close>

definition attemptFails :: "ManagerEnv \<Rightarrow> WorkflowActivateMode \<Rightarrow> DbWorkflow \<Rightarrow> ActiveWorkflowManager \<Rightarrow> bool" where
  "attemptFails env mode db m \<longleftrightarrow> (case map_of (queuedActivations m) (db_id db) of None \<Rightarrow> False
     | Some qa \<Rightarrow> isl (fst (addWorkflow env (db_id db) mode (Some db) True (fired (qa_timeout qa) m))))"

lemma tryAdd_fails_queue:
  assumes "tryAdd env w mode db m = (Inl e, m')" "\<forall>h v. me_saveTriggerCount env h v = None"
  shows "retryQueue m' = retryQueue m"
proof (cases "db_activeVersion db")
  case None
  with assms(1) show ?thesis by (auto simp: tryAdd_def split: if_splits)
next
  case (Some version)
  obtain rw m1 where w: "webhooksStep env mode (db_id db) m = (rw, m1)" by force
  have m1: "retryQueue m1 = retryQueue m" using w by (auto simp: webhooksStep_def split: if_splits sum.splits)
  let ?wf = "\<lparr>wi_id = db_id db, wi_timezone = db_timezone db, wi_workflow = version\<rparr>"
  obtain rt m2 where t: "triggersStep env ?wf m1 = (rt, m2)" by force
  have m2: "retryQueue m2 = retryQueue m1"
    using t by (auto simp: triggersStep_def addTriggersAndPollers_def split: if_splits sum.splits prod.splits)
  have "isl (fst (activatedStep env w added m2)) = False" for added
    using assms(2) by (simp add: activatedStep_def Let_def)
  then have m3: "activatedStep env w added m2 \<noteq> (Inl e, m')" for added by (metis fst_conv sum.disc(1))
  show ?thesis
    using assms(1) Some w t m1 m2 m3 by (auto simp: tryAdd_def Let_def split: if_splits sum.splits)
qed

lemma addWorkflow_fails_queue:
  assumes "addWorkflow env w mode (Some db) publish m = (Inl e, m')" "\<forall>h v. me_saveTriggerCount env h v = None"
  shows "retryQueue m' = retryQueue m"
  using assms(1) tryAdd_fails_queue [OF _ assms(2), of w mode db m]
  by (auto simp: addWorkflow_def split: option.splits if_splits prod.splits sum.splits)

lemma fireRetry_fails:
  assumes ok: "retriesOk m" and p: "pendingRetry mode db delay m" and fails: "attemptFails env mode db m"
    and saves: "\<forall>h v. me_saveTriggerCount env h v = None"
  shows "retriesOk (fireRetry env (db_id db) m) \<and> pendingRetry mode db (nextDelay delay) (fireRetry env (db_id db) m)"
proof -
  let ?t = "\<lparr>rt_workflowId = db_id db, rt_activationMode = mode, rt_workflowData = db, rt_delay = delay\<rparr>"
  obtain qa where qa: "map_of (queuedActivations m) (db_id db) = Some qa" "qa_lastTimeout qa = delay"
      "map_of (awm_timers m) (qa_timeout qa) = Some ?t"
    using p unfolding pendingRetry_def by blast
  obtain e m' where a: "addWorkflow env (db_id db) mode (Some db) True (fired (qa_timeout qa) m) = (Inl e, m')"
    using fails qa(1) by (cases "addWorkflow env (db_id db) mode (Some db) True (fired (qa_timeout qa) m)")
      (auto simp: attemptFails_def isl_def)
  note q = addWorkflow_fails_queue [OF a saves]
  then have ok': "retriesOk m'" using fired_ok(1) [OF ok qa(3)] retriesOk_cong by blast
  have entry: "map_of (queuedActivations m') (db_id db) = Some qa" using q qa(1) by (simp add: retryQueue_def fired_def)
  have "fireRetry env (db_id db) m = fireRetryTimer env (qa_timeout qa) m" by (simp add: fireRetry_def qa(1))
  moreover have "fireRetryTimer env (qa_timeout qa) m =
      withRetry (?t\<lparr>rt_delay := nextDelay delay\<rparr>) (qa\<lparr>qa_lastTimeout := nextDelay delay\<rparr>) m'"
    using qa(2) entry a by (simp add: fireRetryTimer_def qa(3) retryFunction_eq flip: fired_def)
  moreover have "pendingRetry mode db (nextDelay delay) (withRetry (?t\<lparr>rt_delay := nextDelay delay\<rparr>) (qa\<lparr>qa_lastTimeout := nextDelay delay\<rparr>) m')"
    by (rule pendingRetry_withRetry [OF fresh_timer [OF ok']]) simp_all
  ultimately show ?thesis using fireRetryTimer_ok [OF ok, of env "qa_timeout qa"] by metis
qed

text \<open>C19: When the activation of a workflow fails and its first \<open>k\<close> retries fail as well, whether in the webhooks, a
  trigger or a poller, the next one is pending with a delay of \<open>2 ^ k\<close> seconds, a day at most. Each retry
  runs to its end before the next operation, the number of triggers can be saved, and with several main instances a retry
  does not fail, since it only publishes a message.\<close>

theorem retry_backoff:
  assumes "m = fold (managerOp env) ops (newManager a)" "\<forall>h v. me_saveTriggerCount env h v = None"
    and "\<forall>j < k. attemptFails env mode db ((fireRetry env (db_id db) ^^ j) (addQueuedWorkflowActivation mode db m))"
  shows "pendingRetry mode db (min (1000 * 2 ^ k) 86400000) ((fireRetry env (db_id db) ^^ k) (addQueuedWorkflowActivation mode db m))"
proof -
  have ok: "retriesOk m" unfolding assms(1) by (rule managerOps_ok)
  let ?start = "addQueuedWorkflowActivation mode db m"
  have start: "retriesOk ?start \<and> pendingRetry mode db 1000 ?start" using addQueued_ok [OF ok] addQueued_pending [OF ok] by blast
  have "retriesOk ((fireRetry env (db_id db) ^^ j) ?start) \<and> pendingRetry mode db (min (1000 * 2 ^ j) 86400000) ((fireRetry env (db_id db) ^^ j) ?start)"
    if "j \<le> k" for j
    using that
  proof (induction j)
    case 0
    then show ?case using start by simp
  next
    case (Suc j)
    then have "attemptFails env mode db ((fireRetry env (db_id db) ^^ j) ?start)" using assms(3) by simp
    from fireRetry_fails [OF _ _ this assms(2)] Suc show ?case using nextDelay_power [of j] by fastforce
  qed
  then show ?thesis by blast
qed

lemma addWorkflow_webhooks_fail:
  assumes "db_activeVersion db = Some v" "\<not> me_isMultiMain env" "shouldAddWebhooks env mode"
    "validateWorkflowHasTriggerLikeNode (te_nodeTypes (me_triggers env)) (me_hasWebhook env) STARTING_NODES v"
    "\<forall>h. me_addWebhooks env h (db_id db) = Inl e"
  shows "addWorkflow env (db_id db) mode (Some db) True m =
     (Inl (OtherError e), registerError (db_id db) (OtherError e) (logManager (WebhooksFailed (db_id db)) m))"
  using assms by (simp add: addWorkflow_def tryAdd_def webhooksStep_def Let_def)

lemma retry_backoff_witness:
  "pendingRetry Init sampleDb 8000 ((fireRetry sampleManager ''w'' ^^ 3) (addQueuedWorkflowActivation Init sampleDb (newManager inactive)))"
proof -
  let ?v = "newWorkflow [plainNode 0 ''a'' ''trigger''] [] None"
  have "validateWorkflowHasTriggerLikeNode (te_nodeTypes (me_triggers sampleManager)) (me_hasWebhook sampleManager) STARTING_NODES ?v"
    by (simp add: validateWorkflowHasTriggerLikeNode_def sampleManager_def sampleEnv_def STARTING_NODES_def newWorkflow_def setNodes_def
        setConnections_def setPinData_def plainNode_def)
  then have fails: "isl (fst (addWorkflow sampleManager (db_id sampleDb) Init (Some sampleDb) True m))" for m
    by (subst addWorkflow_webhooks_fail [of sampleDb ?v _ _ "ApplicationError ''down''"])
      (simp_all add: sampleDb_def sampleManager_def shouldAddWebhooks_def)
  let ?start = "addQueuedWorkflowActivation Init sampleDb (newManager inactive)"
  have saves: "\<forall>h v. me_saveTriggerCount sampleManager h v = None" by (simp add: sampleManager_def)
  have ok: "retriesOk (newManager inactive)" by (simp add: retriesOk_def newManager_def)
  have attempt: "attemptFails sampleManager Init sampleDb m" if "pendingRetry Init sampleDb d m" for d m
    using that fails by (auto simp: attemptFails_def pendingRetry_def)
  have "retriesOk ((fireRetry sampleManager (db_id sampleDb) ^^ j) ?start) \<and>
      (\<exists>d. pendingRetry Init sampleDb d ((fireRetry sampleManager (db_id sampleDb) ^^ j) ?start))" for j
  proof (induction j)
    case 0
    show ?case using addQueued_pending [OF ok] addQueued_ok [OF ok] by auto
  next
    case (Suc j)
    then show ?case using fireRetry_fails [OF _ _ attempt saves] by fastforce
  qed
  then have "\<forall>j < 3. attemptFails sampleManager Init sampleDb ((fireRetry sampleManager (db_id sampleDb) ^^ j) ?start)"
    using attempt by blast
  from retry_backoff [of "newManager inactive" sampleManager "[]" inactive 3 Init sampleDb, OF _ saves this]
  show ?thesis by (simp add: sampleDb_def)
qed

section \<open>Several main instances\<close>

text \<open>With several main instances a retry asks the leader to activate the workflow and is over; when the leader
  fails, it marks the workflow as inactive. Nothing tries again.\<close>

lemma multi_main_retries_once:
  assumes "me_isMultiMain env" "retriesOk m" "map_of (awm_timers m) i = Some t" "db_activeVersionId (rt_workflowData t) = Some v"
  shows "awm_events (fireRetryTimer env i m) = awm_events m @ [PublishedAdd (rt_workflowId t) v]"
    "map_of (awm_timers (fireRetryTimer env i m)) j = Some t' \<Longrightarrow> rt_workflowId t' \<noteq> rt_workflowId t"
    "addWorkflow env w Activate None False m' = (Inl e, m'') \<Longrightarrow>
       handleAddWebhooksTriggersAndPollers env w m' = logManager (PublishedActivationError w) (logManager (MarkedInactive w) m'')"
proof -
  have f: "fireRetryTimer env i m = logManager (PublishedAdd (rt_workflowId t) v) (fired i m)"
    using assms by (simp add: fireRetryTimer_def retryFunction_def retryContinue_def addWorkflow_def fired_def)
  show "awm_events (fireRetryTimer env i m) = awm_events m @ [PublishedAdd (rt_workflowId t) v]"
    by (simp add: f logManager_def fired_def)
  show "map_of (awm_timers (fireRetryTimer env i m)) j = Some t' \<Longrightarrow> rt_workflowId t' \<noteq> rt_workflowId t"
    using fired_ok(2) [OF assms(2,3), of j t'] by (simp add: f logManager_def)
qed (simp add: handleAddWebhooksTriggersAndPollers_def)

end
