(* ===== verification/FromAi.thy ===== *)
theory FromAi
  imports JsonValues
begin

text \<open>
  Finding the calls of \<open>$fromAI\<close> in the parameters of a node, whose arguments an AI agent fills in:
  \<^verbatim>\<open>packages/workflow/src/from-ai-parse-utils.ts\<close>. The conversion of a text to a number and the JSON parser are parameters.
\<close>

section \<open>Arguments\<close>

record FromAIArgument =
  fa_key :: string
  fa_description :: "string option"
  fa_type :: string
  fa_defaultValue :: "json option"

datatype ParseError = InvalidType string | FailedToParse string ParseError | UnbalancedParentheses string

record AiLib =
  numberOf :: "string \<Rightarrow> int option"
  jsonParse :: "string \<Rightarrow> json option"

definition isFromAIArgumentType :: "string \<Rightarrow> bool" where
  "isFromAIArgumentType v = (js_toLowerCase v \<in> {''string'', ''number'', ''boolean'', ''json''})"

definition parseDefaultValue :: "AiLib \<Rightarrow> string option \<Rightarrow> string \<Rightarrow> json option" where
  "parseDefaultValue lib v ty = (case v of
     None \<Rightarrow> None
   | Some s \<Rightarrow> Some (
       if ty = ''string'' then JStr s
       else if ty = ''boolean'' \<and> (js_toLowerCase s = ''true'' \<or> js_toLowerCase s = ''false'') then JBool (js_toLowerCase s = ''true'')
       else if ty = ''number'' \<and> numberOf lib s \<noteq> None then JNum (the (numberOf lib s))
       else case jsonParse lib s of Some j \<Rightarrow> j | None \<Rightarrow> JStr s))"

section \<open>Splitting the arguments\<close>

definition quotes :: "char list" where
  "quotes = [CHR 0x22, CHR 0x27, CHR 0x60]"

definition backslash :: char where
  "backslash = CHR 0x5C"

record SplitState =
  sp_args :: "string list"
  sp_currentArg :: string
  sp_inQuotes :: bool
  sp_quoteChar :: string
  sp_escapeNext :: bool

definition splitStep :: "char \<Rightarrow> SplitState \<Rightarrow> SplitState" where
  "splitStep c st =
     (if sp_escapeNext st then st\<lparr>sp_currentArg := sp_currentArg st @ [c], sp_escapeNext := False\<rparr>
      else if c = backslash then st\<lparr>sp_escapeNext := True\<rparr>
      else if c \<in> set quotes then
        (if \<not> sp_inQuotes st then st\<lparr>sp_inQuotes := True, sp_quoteChar := [c], sp_currentArg := sp_currentArg st @ [c]\<rparr>
         else if [c] = sp_quoteChar st
         then st\<lparr>sp_inQuotes := False, sp_quoteChar := [], sp_currentArg := sp_currentArg st @ [c]\<rparr>
         else st\<lparr>sp_currentArg := sp_currentArg st @ [c]\<rparr>)
      else if c = CHR '','' \<and> \<not> sp_inQuotes st
      then st\<lparr>sp_args := sp_args st @ [js_trim (sp_currentArg st)], sp_currentArg := []\<rparr>
      else st\<lparr>sp_currentArg := sp_currentArg st @ [c]\<rparr>)"

definition splitArguments :: "string \<Rightarrow> string list" where
  "splitArguments argsString =
     (let st = fold splitStep argsString \<lparr>sp_args = [], sp_currentArg = [], sp_inQuotes = False, sp_quoteChar = [], sp_escapeNext = False\<rparr>
      in if sp_currentArg st \<noteq> [] then sp_args st @ [js_trim (sp_currentArg st)] else sp_args st)"

text \<open>Every backslash before the character is dropped, from left to right.\<close>

fun unescape :: "char \<Rightarrow> string \<Rightarrow> string" where
  "unescape q (a # b # r) = (if a = backslash \<and> b = q then q # unescape q r else a # unescape q (b # r))"
| "unescape q r = r"

definition wrappedIn :: "char \<Rightarrow> string \<Rightarrow> bool" where
  "wrappedIn q s \<longleftrightarrow> s \<noteq> [] \<and> hd s = q \<and> last s = q"

definition cleanArg :: "string \<Rightarrow> string" where
  "cleanArg arg =
     (let trimmed = js_trim arg
      in if list_ex (\<lambda>q. wrappedIn q trimmed) quotes
         then unescape backslash (unescape (CHR 0x22) (unescape (CHR 0x60) (unescape (CHR 0x27) (butlast (tl trimmed)))))
         else trimmed)"

definition argumentAt :: "string list \<Rightarrow> nat \<Rightarrow> string option" where
  "argumentAt xs i = (if i < length xs then Some (xs ! i) else None)"

definition parseArguments :: "AiLib \<Rightarrow> string \<Rightarrow> ParseError + FromAIArgument" where
  "parseArguments lib argsString =
     (let cleanArgs = map cleanArg (splitArguments argsString);
          ty = (case argumentAt cleanArgs 2 of None \<Rightarrow> ''string'' | Some t \<Rightarrow> t)
      in if \<not> isFromAIArgumentType ty then Inl (InvalidType ty)
         else Inr \<lparr>fa_key = (case argumentAt cleanArgs 0 of None \<Rightarrow> [] | Some k \<Rightarrow> k), fa_description = argumentAt cleanArgs 1,
           fa_type = ty, fa_defaultValue = parseDefaultValue lib (argumentAt cleanArgs 3) ty\<rparr>)"

section \<open>Finding the calls\<close>

text \<open>The pattern \<open>$fromAI\<close> in any case, spaces, a parenthesis and spaces; what follows a match.\<close>

definition matchCall :: "string \<Rightarrow> string option" where
  "matchCall s = (if js_toLowerCase (take 7 s) = ''$fromai'' then
       (case dropWhile isSpace (drop 7 s) of
          [] \<Rightarrow> None
        | c # r \<Rightarrow> if c = CHR ''('' then Some (dropWhile isSpace r) else None)
     else None)"

fun nextCall :: "string \<Rightarrow> string option" where
  "nextCall [] = None"
| "nextCall (c # s) = (case matchCall (c # s) of Some r \<Rightarrow> Some r | None \<Rightarrow> nextCall s)"

text \<open>The characters of the arguments, up to the parenthesis that closes the call, and the number of parentheses left open.
  \<open>quote\<close> is the character that ends the text one is in.\<close>

fun scanArgs :: "string \<Rightarrow> nat \<Rightarrow> char option \<Rightarrow> string \<Rightarrow> nat \<times> string" where
  "scanArgs [] parenthesesCount quote argsString = (parenthesesCount, argsString)"
| "scanArgs (c # s) parenthesesCount quote argsString =
     (if parenthesesCount = 0 then (0, argsString)
      else case quote of
        Some q \<Rightarrow>
          if c = backslash \<and> s \<noteq> [] then scanArgs (tl s) parenthesesCount quote (argsString @ [c, hd s])
          else scanArgs s parenthesesCount (if c = q then None else Some q) (argsString @ [c])
      | None \<Rightarrow>
          let quote' = (if c \<in> set quotes then Some c else None);
              count' = (if c = CHR ''('' then Suc parenthesesCount
                        else if c = CHR '')'' then parenthesesCount - 1 else parenthesesCount)
          in scanArgs s count' quote' (if 0 < count' \<or> c \<noteq> CHR '')'' then argsString @ [c] else argsString))"

lemma dropWhile_length: "length (dropWhile P xs) \<le> length xs"
  by (induction xs) auto

lemma matchCall_shorter: "matchCall s = Some r \<Longrightarrow> length r < length s"
proof -
  assume m: "matchCall s = Some r"
  then obtain c r' where r: "dropWhile isSpace (drop 7 s) = c # r'" "r = dropWhile isSpace r'"
    by (auto simp: matchCall_def split: if_splits list.splits)
  have "length r \<le> length r'" using r(2) dropWhile_length by simp
  also have "length r' < length (drop 7 s)" using r(1) dropWhile_length [of isSpace "drop 7 s"] by simp
  also have "length (drop 7 s) \<le> length s" by simp
  finally show ?thesis .
qed

lemma nextCall_shorter: "nextCall s = Some r \<Longrightarrow> length r < length s"
  by (induction s) (auto split: option.splits dest: matchCall_shorter)

text \<open>The search goes on behind the opening parenthesis of a call, not behind the call.\<close>

function extractFromAICalls :: "AiLib \<Rightarrow> string \<Rightarrow> ParseError + FromAIArgument list" where
  "extractFromAICalls lib str = (case nextCall str of
     None \<Rightarrow> Inr []
   | Some rest \<Rightarrow>
       (case scanArgs rest 1 None [] of (parenthesesCount, argsString) \<Rightarrow>
          if parenthesesCount = 0 then
            (case parseArguments lib argsString of
               Inl e \<Rightarrow> Inl (FailedToParse argsString e)
             | Inr parsedArgs \<Rightarrow> rbind (extractFromAICalls lib rest) (\<lambda>args. Inr (parsedArgs # args)))
          else Inl (UnbalancedParentheses rest)))"
  by pat_completeness auto
termination
  by (relation "measure (\<lambda>(lib, s). length s)") (auto dest: nextCall_shorter)

declare extractFromAICalls.simps [simp del]

section \<open>Traversing the parameters\<close>

fun traverseNodeParameters :: "AiLib \<Rightarrow> json \<Rightarrow> FromAIArgument list \<Rightarrow> ParseError + FromAIArgument list" where
  "traverseNodeParameters lib (JStr s) collectedArgs = rbind (extractFromAICalls lib s) (\<lambda>calls. Inr (collectedArgs @ calls))"
| "traverseNodeParameters lib (JArr vs) collectedArgs = rfold (\<lambda>v. traverseNodeParameters lib v) vs collectedArgs"
| "traverseNodeParameters lib (JObj ps) collectedArgs = rfold (\<lambda>p. traverseNodeParameters lib (snd p)) ps collectedArgs"
| "traverseNodeParameters lib _ collectedArgs = Inr collectedArgs"

definition nameText :: "string option \<Rightarrow> string" where
  "nameText n = (case n of None \<Rightarrow> ''undefined'' | Some s \<Rightarrow> s)"

definition memberName :: "string option \<Rightarrow> string \<Rightarrow> string" where
  "memberName n key = (case n of Some s \<Rightarrow> if s \<noteq> [] then s @ ''.'' @ key else key | None \<Rightarrow> key)"

function (sequential) traverseNodeParametersWithParamNames :: "AiLib \<Rightarrow> json \<Rightarrow> (string option \<times> FromAIArgument) list \<Rightarrow> string option \<Rightarrow>
    ParseError + (string option \<times> FromAIArgument) list" where
  "traverseNodeParametersWithParamNames lib (JStr s) collectedArgs nm =
     rbind (extractFromAICalls lib s) (\<lambda>calls. Inr (fold (AList.update nm) calls collectedArgs))"
| "traverseNodeParametersWithParamNames lib (JArr vs) collectedArgs nm =
     rfold (\<lambda>p acc. traverseNodeParametersWithParamNames lib (snd p) acc (Some (nameText nm @ ''['' @ nat_str (fst p) @ '']'')))
       (zip [0..<length vs] vs) collectedArgs"
| "traverseNodeParametersWithParamNames lib (JObj ps) collectedArgs nm =
     rfold (\<lambda>p acc. traverseNodeParametersWithParamNames lib (snd p) acc (Some (memberName nm (fst p)))) ps collectedArgs"
| "traverseNodeParametersWithParamNames lib _ collectedArgs nm = Inr collectedArgs"

  by pat_completeness auto
termination
proof (relation "measure (\<lambda>(lib, v, acc, nm). size v)", goal_cases)
  case (2 lib vs acc nm x s)
  then have "snd x \<in> set vs" by (metis prod.collapse set_zip_rightD)
  then have "size (snd x) \<le> size_list size vs" by (rule size_list_estimation') simp
  then show ?case by simp
next
  case (3 lib ps acc nm x s)
  have "size (snd x) < size_list (size_prod (\<lambda>_. 0) size) ps"
    using 3 by (intro size_list_estimation [of x]) (auto simp: size_prod_simp)
  then show ?case by simp
qed simp

end
