(* ===== verification/FromAiProps.thy ===== *)
theory FromAiProps
  imports FromAi
begin

text \<open>
  Calls of \<open>$fromAI\<close> that are written down and read again: what the parser gives back, and what it does not.
\<close>

section \<open>Writing a call\<close>

text \<open>A text between quotes, with a backslash before every quote of this kind and every backslash.\<close>

definition quoted :: "char \<Rightarrow> string \<Rightarrow> string" where
  "quoted q s = q # concat (map (\<lambda>c. if c = q \<or> c = backslash then [backslash, c] else [c]) s) @ [q]"

fun printArguments :: "(char \<times> string) list \<Rightarrow> string" where
  "printArguments [] = []"
| "printArguments [(q, s)] = quoted q s"
| "printArguments ((q, s) # args) = quoted q s @ '', '' @ printArguments args"

definition printCall :: "(char \<times> string) list \<Rightarrow> string" where
  "printCall args = ''$fromAI('' @ printArguments args @ '')''"

section \<open>Reading it again\<close>

lemma quote_chars:
  "q \<in> set quotes \<Longrightarrow> q \<noteq> backslash \<and> q \<noteq> CHR '','' \<and> q \<noteq> CHR ''('' \<and> q \<noteq> CHR '')'' \<and> q \<noteq> CHR ''$'' \<and> \<not> isSpace q"
  by (auto simp: quotes_def backslash_def isSpace_def)

lemma scan_inside:
  assumes "n \<noteq> 0" "q \<in> set quotes"
  shows "scanArgs (concat (map (\<lambda>c. if c = q \<or> c = backslash then [backslash, c] else [c]) s) @ q # rest) n (Some q) acc =
     scanArgs rest n None (acc @ concat (map (\<lambda>c. if c = q \<or> c = backslash then [backslash, c] else [c]) s) @ [q])"
  using assms quote_chars [OF assms(2)] by (induction s arbitrary: acc) simp_all

lemma scan_quoted:
  assumes "n \<noteq> 0" "q \<in> set quotes"
  shows "scanArgs (quoted q s @ rest) n None acc = scanArgs rest n None (acc @ quoted q s)"
  using assms quote_chars [OF assms(2)] scan_inside [OF assms, of s rest "acc @ [q]"] by (simp add: quoted_def)

lemma scan_arguments:
  assumes "\<forall>p \<in> set args. fst p \<in> set quotes"
  shows "scanArgs (printArguments args @ CHR '')'' # rest) 1 None acc = (0, acc @ printArguments args)"
  using assms
proof (induction args arbitrary: acc rule: printArguments.induct)
  case 1
  show ?case by (cases rest) (simp_all add: quotes_def)
next
  case (2 q s)
  then show ?case by (cases rest) (simp_all add: scan_quoted quotes_def)
next
  case (3 q s p args)
  then show ?case by (simp add: scan_quoted) (simp add: quotes_def)
qed

text \<open>The splitting drops the backslashes.\<close>

definition outsideArg :: "string list \<Rightarrow> string \<Rightarrow> SplitState" where
  "outsideArg args cur = \<lparr>sp_args = args, sp_currentArg = cur, sp_inQuotes = False, sp_quoteChar = [], sp_escapeNext = False\<rparr>"

lemma split_inside:
  assumes "q \<in> set quotes"
  shows "fold splitStep (concat (map (\<lambda>c. if c = q \<or> c = backslash then [backslash, c] else [c]) s))
      \<lparr>sp_args = args, sp_currentArg = cur, sp_inQuotes = True, sp_quoteChar = [q], sp_escapeNext = False\<rparr> =
     \<lparr>sp_args = args, sp_currentArg = cur @ s, sp_inQuotes = True, sp_quoteChar = [q], sp_escapeNext = False\<rparr>"
  using quote_chars [OF assms] by (induction s arbitrary: cur) (auto simp: splitStep_def)

lemma split_quoted:
  assumes "q \<in> set quotes"
  shows "fold splitStep (quoted q s) (outsideArg args cur) = outsideArg args (cur @ q # s @ [q])"
  using assms quote_chars [OF assms] split_inside [OF assms, of s args "cur @ [q]"]
  by (simp add: quoted_def outsideArg_def) (simp add: splitStep_def)

lemma trim_wrapped: "\<not> isSpace q \<Longrightarrow> js_trim (q # s @ [q]) = q # s @ [q]" "\<not> isSpace q \<Longrightarrow> js_trim (CHR '' '' # q # s @ [q]) = q # s @ [q]"
  by (simp_all add: js_trim_def isSpace_def)

lemma split_step_comma: "splitStep (CHR '','') (outsideArg args cur) = outsideArg (args @ [js_trim cur]) []"
  "splitStep (CHR '' '') (outsideArg args cur) = outsideArg args (cur @ '' '')"
  by (simp_all add: splitStep_def outsideArg_def backslash_def quotes_def)

lemma split_arguments:
  assumes "\<forall>p \<in> set args. fst p \<in> set quotes" "args \<noteq> []" "cur = [] \<or> cur = '' ''"
  shows "\<exists>last. fold splitStep (printArguments args) (outsideArg done cur) =
       outsideArg (done @ map (\<lambda>(q, s). q # s @ [q]) (butlast args)) last \<and> last \<noteq> [] \<and>
       js_trim last = (\<lambda>(q, s). q # s @ [q]) (List.last args)"
  using assms
proof (induction args arbitrary: "done" cur rule: printArguments.induct)
  case (2 q s)
  then show ?case using quote_chars [of q] trim_wrapped [of q s] by (auto simp: split_quoted)
next
  case (3 q s p args)
  have q: "q \<in> set quotes" using 3 by simp
  have t: "js_trim (cur @ q # s @ [q]) = q # s @ [q]" using 3(4) quote_chars [OF q] trim_wrapped [of q s] by auto
  have "fold splitStep (printArguments ((q, s) # p # args)) (outsideArg done cur) =
      fold splitStep (printArguments (p # args)) (outsideArg (done @ [q # s @ [q]]) '' '')"
    by (simp add: split_quoted [OF q] split_step_comma t)
  with 3(1) [of "'' ''" "done @ [q # s @ [q]]"] 3(2) show ?case by simp
qed simp

lemma splitArguments_print:
  assumes "\<forall>p \<in> set args. fst p \<in> set quotes"
  shows "splitArguments (printArguments args) = map (\<lambda>(q, s). q # s @ [q]) args"
proof (cases "args = []")
  case False
  from split_arguments [OF assms False, of "[]" "[]"] obtain l where
    "fold splitStep (printArguments args) (outsideArg [] []) = outsideArg (map (\<lambda>(q, s). q # s @ [q]) (butlast args)) l" "l \<noteq> []"
    "js_trim l = (\<lambda>(q, s). q # s @ [q]) (List.last args)" by auto
  moreover have "map f args = map f (butlast args) @ [f (List.last args)]" for f :: "char \<times> string \<Rightarrow> string"
    using False by (metis append_butlast_last_id list.simps(8,9) map_append)
  ultimately show ?thesis by (simp add: splitArguments_def outsideArg_def [symmetric] Let_def) (simp add: outsideArg_def)
qed (simp add: splitArguments_def)

lemma unescape_none: "backslash \<notin> set s \<Longrightarrow> unescape q s = s"
  by (induction q s rule: unescape.induct) auto

lemma clean_wrapped:
  assumes "q \<in> set quotes" "backslash \<notin> set s"
  shows "cleanArg (q # s @ [q]) = s"
proof -
  have "list_ex (\<lambda>q'. wrappedIn q' (q # s @ [q])) quotes" using assms(1) by (auto simp: wrappedIn_def list_ex_iff)
  then show ?thesis
    using quote_chars [OF assms(1)] by (simp add: cleanArg_def trim_wrapped butlast_append unescape_none [OF assms(2)])
qed

lemma cleanArgs_print:
  assumes "\<forall>p \<in> set args. fst p \<in> set quotes \<and> backslash \<notin> set (snd p)"
  shows "map cleanArg (splitArguments (printArguments args)) = map snd args"
proof -
  have "splitArguments (printArguments args) = map (\<lambda>(q, s). q # s @ [q]) args"
    using assms by (intro splitArguments_print) blast
  then show ?thesis using assms by (auto simp: clean_wrapped)
qed

text \<open>There is no other call.\<close>

lemma matchCall_dollar: "matchCall s \<noteq> None \<Longrightarrow> hd s = CHR ''$'' \<and> s \<noteq> []"
proof -
  assume "matchCall s \<noteq> None"
  then have l: "js_toLowerCase (take 7 s) = ''$fromai''" by (auto simp: matchCall_def split: if_splits)
  then obtain c r where s: "s = c # r" by (cases s) (simp_all add: js_toLowerCase_def)
  with l have "lowerChar c = CHR ''$''" by (simp add: js_toLowerCase_def)
  have "c = CHR ''$''"
  proof (rule ccontr)
    assume "c \<noteq> CHR ''$''"
    define n where "n = (of_char c :: nat)"
    have n: "char_of (n + 32) = CHR ''$''" "65 \<le> n \<and> n \<le> 90 \<or> 192 \<le> n \<and> n \<le> 222"
      using \<open>lowerChar c = CHR ''$''\<close> \<open>c \<noteq> CHR ''$''\<close> by (auto simp: lowerChar_def Let_def n_def [symmetric] split: if_splits)
    have "of_char (char_of (n + 32) :: char) = (36 :: nat)" unfolding n(1) by simp
    then have m: "(n + 32) mod 256 = 36" by (simp only: of_char_of)
    have "n + 32 < 256" using n(2) by linarith
    with m have "n + 32 = 36" by (simp only: mod_less)
    with n(2) show False by linarith
  qed
  with s show ?thesis by simp
qed

lemma nextCall_skip: "CHR ''$'' \<notin> set pre \<Longrightarrow> nextCall (pre @ s) = nextCall s"
proof (induction pre)
  case (Cons c pre)
  have "matchCall (c # pre @ s) = None"
  proof (rule ccontr)
    assume "matchCall (c # pre @ s) \<noteq> None"
    from matchCall_dollar [OF this] Cons.prems show False by simp
  qed
  with Cons show ?case by simp
qed simp

lemma nextCall_none: "CHR ''$'' \<notin> set s \<Longrightarrow> nextCall s = None"
  using nextCall_skip [of s "[]"] by simp

lemma nextCall_print:
  assumes "q \<in> set quotes"
  shows "nextCall (''$fromAI('' @ q # r) = Some (q # r)"
proof -
  have "js_toLowerCase ''$fromAI'' = ''$fromai''" by code_simp
  then have "matchCall (''$fromAI('' @ q # r) = Some (q # r)"
    using quote_chars [OF assms] by (simp add: matchCall_def isSpace_def)
  then show ?thesis by simp
qed

lemma extract_step:
  assumes "nextCall str = Some rest" "scanArgs rest 1 None [] = (0, a)" "parseArguments lib a = Inr p" "extractFromAICalls lib rest = Inr ps"
  shows "extractFromAICalls lib str = Inr (p # ps)"
  using assms by (subst extractFromAICalls.simps) simp

lemma extract_none: "nextCall str = None \<Longrightarrow> extractFromAICalls lib str = Inr []"
  by (subst extractFromAICalls.simps) simp

text \<open>C20: A call whose arguments are texts in quotes, of any of the three kinds and with any characters in them except
  backslashes and dollar signs, is read as it was written: the key, the description, the type and the default value,
  wherever it stands in a text that has no other dollar sign.\<close>

theorem extractFromAICalls_print:
  assumes "set [q1, q2, q3, q4] \<subseteq> set quotes" "\<forall>s \<in> {key, description, ty, v}. backslash \<notin> set s \<and> CHR ''$'' \<notin> set s"
    "isFromAIArgumentType ty" "CHR ''$'' \<notin> set pre" "CHR ''$'' \<notin> set post"
  shows "extractFromAICalls lib (pre @ printCall [(q1, key), (q2, description), (q3, ty), (q4, v)] @ post) =
     Inr [\<lparr>fa_key = key, fa_description = Some description, fa_type = ty, fa_defaultValue = parseDefaultValue lib (Some v) ty\<rparr>]"
proof -
  let ?args = "[(q1, key), (q2, description), (q3, ty), (q4, v)]"
  let ?rest = "printArguments ?args @ CHR '')'' # post"
  have q: "\<forall>p \<in> set ?args. fst p \<in> set quotes" "\<forall>p \<in> set ?args. fst p \<in> set quotes \<and> backslash \<notin> set (snd p)"
    using assms(1,2) by auto
  obtain r where r: "?rest = q1 # r" by (simp add: quoted_def)
  have "nextCall (pre @ printCall ?args @ post) = nextCall (''$fromAI('' @ ?rest)"
    using nextCall_skip [OF assms(4)] by (simp add: printCall_def)
  also have "\<dots> = Some ?rest" unfolding r using assms(1) by (intro nextCall_print) simp
  finally have call: "nextCall (pre @ printCall ?args @ post) = Some ?rest" .
  have scan: "scanArgs ?rest 1 None [] = (0, printArguments ?args)" using scan_arguments [OF q(1), of post "[]"] by simp
  have "parseArguments lib (printArguments ?args) =
      Inr \<lparr>fa_key = key, fa_description = Some description, fa_type = ty, fa_defaultValue = parseDefaultValue lib (Some v) ty\<rparr>"
    using assms(3) unfolding parseArguments_def cleanArgs_print [OF q(2)] by (simp add: argumentAt_def)
  moreover have "CHR ''$'' \<notin> set (quoted c s)" if "c \<in> set quotes" "CHR ''$'' \<notin> set s" for c s
    using that quote_chars [OF that(1)] by (auto simp: quoted_def backslash_def)
  then have "CHR ''$'' \<notin> set ?rest" using assms(1,2,5) by simp
  then have "extractFromAICalls lib ?rest = Inr []" by (intro extract_none nextCall_none)
  ultimately show ?thesis by (rule extract_step [OF call scan])
qed

lemma extractFromAICalls_print_witness:
  "extractFromAICalls \<lparr>numberOf = (\<lambda>_. None), jsonParse = (\<lambda>_. None)\<rparr>
     (''={{ '' @ printCall [(CHR 0x27, ''it''), (CHR 0x22, ''a, b (c)''), (CHR 0x60, ''string''), (CHR 0x27, ''5'')] @ '' }}'') =
     Inr [\<lparr>fa_key = ''it'', fa_description = Some ''a, b (c)'', fa_type = ''string'', fa_defaultValue = Some (JStr ''5'')\<rparr>]"
proof -
  have "isFromAIArgumentType ''string''" by code_simp
  then show ?thesis
    using extractFromAICalls_print [of "CHR 0x27" "CHR 0x22" "CHR 0x60" "CHR 0x27" "''it''" "''a, b (c)''" "''string''" "''5''"
      "''={{ ''" "'' }}''" "\<lparr>numberOf = (\<lambda>_. None), jsonParse = (\<lambda>_. None)\<rparr>"]
    by (simp add: quotes_def backslash_def parseDefaultValue_def)
qed


section \<open>What is read differently\<close>

text \<open>A backslash that is written as two and stands before a quote of another kind is lost: it is taken for an
  escape a second time.\<close>

lemma backslash_lost:
  "splitArguments (quoted (CHR 0x22) [CHR ''a'', backslash, CHR 0x27]) = [[CHR 0x22, CHR ''a'', backslash, CHR 0x27, CHR 0x22]]"
  "map cleanArg (splitArguments (quoted (CHR 0x22) [CHR ''a'', backslash, CHR 0x27])) = [[CHR ''a'', CHR 0x27]]"
  by code_simp+

text \<open>The type may be written in any case, but the default value is a text only for \<open>string\<close> in lower case.\<close>

lemma type_in_upper_case:
  assumes "jsonParse lib ''5'' = Some (JNum 5)"
  shows "isFromAIArgumentType ''String''" "parseDefaultValue lib (Some ''5'') ''string'' = Some (JStr ''5'')"
    "parseDefaultValue lib (Some ''5'') ''String'' = Some (JNum 5)"
proof -
  show "isFromAIArgumentType ''String''" by code_simp
qed (use assms in \<open>simp_all add: parseDefaultValue_def\<close>)

text \<open>A call inside a text of another call is found too.\<close>

lemma call_in_text:
  "map_sum id (map fa_key) (extractFromAICalls lib (printCall [(CHR 0x22, ''a''), (CHR 0x22, ''$fromAI(b)'')])) = Inr [''a'', ''b'']"
proof -
  let ?inner = "''b)'' @ [CHR 0x22, CHR '')'']"
  have "nextCall (printCall [(CHR 0x22, ''a''), (CHR 0x22, ''$fromAI(b)'')]) = Some (printArguments [(CHR 0x22, ''a''), (CHR 0x22, ''$fromAI(b)'')] @ '')'')"
    "nextCall (printArguments [(CHR 0x22, ''a''), (CHR 0x22, ''$fromAI(b)'')] @ '')'') = Some ?inner" "nextCall ?inner = None"
    "scanArgs (printArguments [(CHR 0x22, ''a''), (CHR 0x22, ''$fromAI(b)'')] @ '')'') 1 None [] = (0, printArguments [(CHR 0x22, ''a''), (CHR 0x22, ''$fromAI(b)'')])"
    "scanArgs ?inner 1 None [] = (0, ''b'')" by code_simp+
  moreover have "parseArguments lib (printArguments [(CHR 0x22, ''a''), (CHR 0x22, ''$fromAI(b)'')]) =
      Inr \<lparr>fa_key = ''a'', fa_description = Some ''$fromAI(b)'', fa_type = ''string'', fa_defaultValue = None\<rparr>"
    "parseArguments lib ''b'' = Inr \<lparr>fa_key = ''b'', fa_description = None, fa_type = ''string'', fa_defaultValue = None\<rparr>"
    by code_simp+
  ultimately have "extractFromAICalls lib (printCall [(CHR 0x22, ''a''), (CHR 0x22, ''$fromAI(b)'')]) =
      Inr [\<lparr>fa_key = ''a'', fa_description = Some ''$fromAI(b)'', fa_type = ''string'', fa_defaultValue = None\<rparr>,
        \<lparr>fa_key = ''b'', fa_description = None, fa_type = ''string'', fa_defaultValue = None\<rparr>]"
    by (intro extract_step extract_none)
  then show ?thesis by simp
qed

text \<open>Of two calls in one parameter the collection by names keeps the last.\<close>

lemma traverse_names_last:
  assumes "extractFromAICalls lib s = Inr [a, b]"
  shows "traverseNodeParameters lib (JObj [(''p'', JStr s)]) [] = Inr [a, b]"
    "traverseNodeParametersWithParamNames lib (JObj [(''p'', JStr s)]) [] None = Inr [(Some ''p'', b)]"
  using assms by (simp_all add: memberName_def)

end
