(* ===== verification/FieldValidation.thy ===== *)
theory FieldValidation
  imports Prelude
begin

text \<open>
  Checking a value against a type, and converting it: \<^verbatim>\<open>packages/workflow/src/type-validation.ts\<close>. Parsing a number or JSON,
  writing JSON, and the dates of \<^verbatim>\<open>luxon\<close> are parameters; error messages are left out. Numbers are integers or not a number.
  The types time, binary, url and form-fields are left out.
\<close>

section \<open>Values\<close>

datatype jsnum = NaN | Num int

text \<open>A date, of \<^verbatim>\<open>luxon\<close> or of JavaScript, is its milliseconds, if it is valid.\<close>

datatype fval =
    FUndef
  | FNull
  | FBool bool
  | FNum jsnum
  | FStr string
  | FArr "fval list"
  | FObj "(string \<times> fval) list"
  | FDateTime "int option"
  | FJsDate "int option"

text \<open>
  \<open>Number\<close> of a text; \<open>JSON.parse\<close> and \<open>parseJSObject\<close>, which may throw; \<open>JSON.stringify\<close>; the five parsers of a date, in the order
  they are tried; the text of a date; and a regular expression with flags, which may be malformed, tested on a text.
\<close>

record ValueLib =
  vl_number :: "string \<Rightarrow> jsnum"
  vl_json :: "string \<Rightarrow> fval option"
  vl_jsObject :: "string \<Rightarrow> fval option"
  vl_stringify :: "fval \<Rightarrow> string"
  vl_dateParsers :: "(string \<Rightarrow> int option) list"
  vl_dateText :: "int option \<Rightarrow> string"
  vl_regex :: "string \<Rightarrow> string \<Rightarrow> string \<Rightarrow> bool option"

definition booleanText :: "bool \<Rightarrow> string" where
  "booleanText b = (if b then ''true'' else ''false'')"

fun joinWith :: "string \<Rightarrow> string list \<Rightarrow> string" where
  "joinWith sep [] = []"
| "joinWith sep [x] = x"
| "joinWith sep (x # y # r) = x @ sep @ joinWith sep (y # r)"

fun js_String :: "ValueLib \<Rightarrow> fval \<Rightarrow> string" where
  "js_String lib FUndef = ''undefined''"
| "js_String lib FNull = ''null''"
| "js_String lib (FBool b) = booleanText b"
| "js_String lib (FNum NaN) = ''NaN''"
| "js_String lib (FNum (Num i)) = int_str i"
| "js_String lib (FStr s) = s"
| "js_String lib (FArr vs) = joinWith '','' (map (\<lambda>v. if v = FUndef \<or> v = FNull then [] else js_String lib v) vs)"
| "js_String lib (FObj ps) = ''[object Object]''"
| "js_String lib (FDateTime d) = vl_dateText lib d"
| "js_String lib (FJsDate d) = vl_dateText lib d"

fun js_Number :: "ValueLib \<Rightarrow> fval \<Rightarrow> jsnum" where
  "js_Number lib FUndef = NaN"
| "js_Number lib FNull = Num 0"
| "js_Number lib (FBool b) = Num (if b then 1 else 0)"
| "js_Number lib (FNum n) = n"
| "js_Number lib (FStr s) = vl_number lib s"
| "js_Number lib (FArr vs) = vl_number lib (js_String lib (FArr vs))"
| "js_Number lib (FObj ps) = NaN"
| "js_Number lib (FDateTime d) = (case d of None \<Rightarrow> NaN | Some t \<Rightarrow> Num t)"
| "js_Number lib (FJsDate d) = (case d of None \<Rightarrow> NaN | Some t \<Rightarrow> Num t)"

fun js_Boolean :: "fval \<Rightarrow> bool" where
  "js_Boolean FUndef = False"
| "js_Boolean FNull = False"
| "js_Boolean (FBool b) = b"
| "js_Boolean (FNum NaN) = False"
| "js_Boolean (FNum (Num i)) = (i \<noteq> 0)"
| "js_Boolean (FStr s) = (s \<noteq> [])"
| "js_Boolean _ = True"

fun fval_typeof :: "fval \<Rightarrow> string" where
  "fval_typeof FUndef = ''undefined''"
| "fval_typeof (FBool b) = ''boolean''"
| "fval_typeof (FNum n) = ''number''"
| "fval_typeof (FStr s) = ''string''"
| "fval_typeof _ = ''object''"

text \<open>\<open>===\<close>; two arrays or objects are never the same one.\<close>

fun strictEqual :: "fval \<Rightarrow> fval \<Rightarrow> bool" where
  "strictEqual FUndef FUndef = True"
| "strictEqual FNull FNull = True"
| "strictEqual (FBool a) (FBool b) = (a = b)"
| "strictEqual (FNum m) (FNum n) = (m = n \<and> m \<noteq> NaN)"
| "strictEqual (FStr s) (FStr t) = (s = t)"
| "strictEqual _ _ = False"

section \<open>Parsing a value\<close>

definition tryToParseNumber :: "ValueLib \<Rightarrow> fval \<Rightarrow> fval option" where
  "tryToParseNumber lib v = (if js_Number lib v = NaN then None else Some (FNum (js_Number lib v)))"

definition tryToParseString :: "ValueLib \<Rightarrow> fval \<Rightarrow> string" where
  "tryToParseString lib v =
     (if fval_typeof v = ''object'' then vl_stringify lib v
      else if fval_typeof v = ''undefined'' then []
      else js_String lib v)"

definition isLetter :: "char \<Rightarrow> bool" where
  "isLetter c = (let n = of_char c :: nat in 65 \<le> n \<and> n \<le> 90 \<or> 97 \<le> n \<and> n \<le> 122)"

definition isDigit :: "char \<Rightarrow> bool" where
  "isDigit c = (let n = of_char c :: nat in 48 \<le> n \<and> n \<le> 57)"

definition tryToParseAlphanumericString :: "ValueLib \<Rightarrow> fval \<Rightarrow> string option" where
  "tryToParseAlphanumericString lib v =
     (let parsed = tryToParseString lib v
      in if parsed \<noteq> [] \<and> (isLetter (hd parsed) \<or> hd parsed = CHR ''_'') \<and>
            list_all (\<lambda>c. isLetter c \<or> isDigit c \<or> c = CHR ''_'') (tl parsed)
         then Some parsed else None)"

definition tryToParseBoolean :: "ValueLib \<Rightarrow> fval \<Rightarrow> bool option" where
  "tryToParseBoolean lib v =
     (case v of
        FBool b \<Rightarrow> Some b
      | _ \<Rightarrow>
          let lower = (case v of FStr s \<Rightarrow> Some (js_toLowerCase s) | _ \<Rightarrow> None);
              blank = (case v of FStr s \<Rightarrow> js_trim s = [] | _ \<Rightarrow> False)
          in if lower = Some ''true'' \<or> lower = Some ''false'' then Some (lower = Some ''true'')
             else if \<not> blank \<and> js_Number lib v = Num 0 then Some False
             else if \<not> blank \<and> js_Number lib v = Num 1 then Some True
             else None)"

fun firstSome :: "('a \<Rightarrow> 'b option) list \<Rightarrow> 'a \<Rightarrow> 'b option" where
  "firstSome [] x = None"
| "firstSome (f # fs) x = (case f x of Some y \<Rightarrow> Some y | None \<Rightarrow> firstSome fs x)"

definition tryToParseDateTime :: "ValueLib \<Rightarrow> fval \<Rightarrow> int option" where
  "tryToParseDateTime lib v = (case v of
     FDateTime (Some t) \<Rightarrow> Some t
   | FJsDate (Some t) \<Rightarrow> Some t
   | _ \<Rightarrow> firstSome (vl_dateParsers lib) (js_trim (js_String lib v)))"

definition tryToParseArray :: "ValueLib \<Rightarrow> fval \<Rightarrow> fval list option" where
  "tryToParseArray lib v = (case v of
     FArr vs \<Rightarrow> Some vs
   | _ \<Rightarrow>
       let s = js_String lib v;
           parsed = (case vl_json lib s of
               Some w \<Rightarrow> Some w
             | None \<Rightarrow> vl_json lib (map (\<lambda>c. if c = CHR 0x27 then CHR 0x22 else c) s))
       in (case parsed of Some (FArr vs) \<Rightarrow> Some vs | _ \<Rightarrow> None))"

definition isPlainObject :: "fval \<Rightarrow> bool" where
  "isPlainObject v = (case v of FObj _ \<Rightarrow> True | FDateTime _ \<Rightarrow> True | FJsDate _ \<Rightarrow> True | _ \<Rightarrow> False)"

definition tryToParseObject :: "ValueLib \<Rightarrow> fval \<Rightarrow> fval option" where
  "tryToParseObject lib v =
     (if isPlainObject v then Some v
      else
        let s = js_String lib v;
            parsed = (case vl_json lib s of Some w \<Rightarrow> Some w | None \<Rightarrow> vl_jsObject lib s)
        in (case parsed of
              None \<Rightarrow> None
            | Some w \<Rightarrow> if isPlainObject w \<or> w = FNull then Some w else None))"

definition tryToParseJwt :: "ValueLib \<Rightarrow> fval \<Rightarrow> string option" where
  "tryToParseJwt lib v =
     (let s = js_String lib v;
          allowed = (\<lambda>c. isLetter c \<or> isDigit c \<or> c = CHR ''-'' \<or> c = CHR ''_'');
          header = takeWhile allowed s; rest = dropWhile allowed s;
          payload = takeWhile allowed (tl rest); rest2 = dropWhile allowed (tl rest)
      in if \<not> js_Boolean v then None
         else if header \<noteq> [] \<and> rest \<noteq> [] \<and> hd rest = CHR ''.'' \<and> payload \<noteq> [] \<and> rest2 \<noteq> [] \<and> hd rest2 = CHR ''.'' \<and>
                 list_all (\<lambda>c. allowed c \<or> c \<in> {CHR ''.'', CHR ''+'', CHR ''/'', CHR ''=''}) (tl rest2)
              then Some s else None)"

section \<open>Validating\<close>

datatype FieldType =
    FieldString | FieldAlphanumeric | FieldNumber | FieldBoolean | FieldDateTime | FieldObject | FieldArray | FieldOptions
  | FieldJwt | FieldAny

datatype ValidationResult = Invalid | Valid fval

fun validOr :: "fval option \<Rightarrow> ValidationResult" where
  "validOr None = Invalid"
| "validOr (Some v) = Valid v"

record ValidateOptions =
  vo_valueOptions :: "fval list"
  vo_strict :: bool
  vo_parseStrings :: bool

definition noOptions :: ValidateOptions where
  "noOptions = \<lparr>vo_valueOptions = [], vo_strict = False, vo_parseStrings = False\<rparr>"

text \<open>\<open>{ valid: true }\<close> has no new value.\<close>

definition validateFieldType :: "ValueLib \<Rightarrow> fval \<Rightarrow> FieldType \<Rightarrow> ValidateOptions \<Rightarrow> ValidationResult" where
  "validateFieldType lib v ty opts =
     (if v = FNull \<or> v = FUndef then Valid FUndef
      else case ty of
        FieldString \<Rightarrow>
          if \<not> vo_parseStrings opts then Valid v
          else if vo_strict opts \<and> fval_typeof v \<noteq> ''string'' then Invalid
          else Valid (FStr (tryToParseString lib v))
      | FieldAlphanumeric \<Rightarrow> validOr (map_option FStr (tryToParseAlphanumericString lib v))
      | FieldNumber \<Rightarrow>
          if vo_strict opts \<and> fval_typeof v \<noteq> ''number'' then Invalid else validOr (tryToParseNumber lib v)
      | FieldBoolean \<Rightarrow>
          if vo_strict opts \<and> fval_typeof v \<noteq> ''boolean'' then Invalid
          else validOr (map_option FBool (tryToParseBoolean lib v))
      | FieldDateTime \<Rightarrow> validOr (map_option (\<lambda>t. FDateTime (Some t)) (tryToParseDateTime lib v))
      | FieldObject \<Rightarrow>
          if vo_strict opts \<and> fval_typeof v \<noteq> ''object'' then Invalid else validOr (tryToParseObject lib v)
      | FieldArray \<Rightarrow>
          if vo_strict opts \<and> (case v of FArr _ \<Rightarrow> False | _ \<Rightarrow> True) then Invalid
          else validOr (map_option FArr (tryToParseArray lib v))
      | FieldOptions \<Rightarrow> if list_ex (\<lambda>w. strictEqual w v) (vo_valueOptions opts) then Valid v else Invalid
      | FieldJwt \<Rightarrow> validOr (map_option FStr (tryToParseJwt lib v))
      | FieldAny \<Rightarrow> Valid v)"

end
