(* ===== verification/FilterParameter.thy ===== *)
theory FilterParameter
  imports FieldValidation
begin

text \<open>
  Filters, the conditions of the nodes If, Switch and Filter: \<^verbatim>\<open>packages/workflow/src/node-parameters/filter-parameter.ts\<close>. The
  case of letters is changed as for the characters there are here. The description of an error, its second text, is left out.
\<close>

section \<open>Conditions\<close>

datatype FilterOperatorType = OpString | OpNumber | OpBoolean | OpArray | OpObject | OpDateTime | OpAny

record FilterOperatorValue =
  op_type :: FilterOperatorType
  op_operation :: string
  op_rightType :: "FilterOperatorType option"
  op_singleValue :: bool

record FilterConditionValue =
  fc_leftValue :: fval
  fc_operator :: FilterOperatorValue
  fc_rightValue :: fval

record FilterOptionsValue =
  fo_caseSensitive :: bool
  fo_strict :: bool
  fo_version :: nat

datatype FilterCombinator = CombineAnd | CombineOr | CombineUnknown

record FilterValue =
  fv_options :: FilterOptionsValue
  fv_conditions :: "FilterConditionValue list"
  fv_combinator :: FilterCombinator

record FilterConditionMetadata =
  md_index :: nat
  md_unresolvedExpressions :: bool
  md_itemIndex :: nat
  md_full :: bool

text \<open>A filter error has a message; a method that a value does not have is a type error, a malformed expression a syntax error.\<close>

datatype FilterFailure = FilterError string | FilterTypeError | FilterSyntaxError

fun fieldTypeOf :: "FilterOperatorType \<Rightarrow> FieldType" where
  "fieldTypeOf OpString = FieldString"
| "fieldTypeOf OpNumber = FieldNumber"
| "fieldTypeOf OpBoolean = FieldBoolean"
| "fieldTypeOf OpArray = FieldArray"
| "fieldTypeOf OpObject = FieldObject"
| "fieldTypeOf OpDateTime = FieldDateTime"
| "fieldTypeOf OpAny = FieldAny"

fun typeText :: "FilterOperatorType \<Rightarrow> string" where
  "typeText OpString = ''string''"
| "typeText OpNumber = ''number''"
| "typeText OpBoolean = ''boolean''"
| "typeText OpArray = ''array''"
| "typeText OpObject = ''object''"
| "typeText OpDateTime = ''dateTime''"
| "typeText OpAny = ''any''"

section \<open>Parsing the values\<close>

definition parseSingleFilterValue :: "ValueLib \<Rightarrow> fval \<Rightarrow> FilterOperatorType \<Rightarrow> bool \<Rightarrow> nat \<Rightarrow> ValidationResult" where
  "parseSingleFilterValue lib v ty strict version =
     (if ty = OpAny \<or> v = FNull \<or> v = FUndef then Valid v
      else if ty = OpBoolean \<and> \<not> strict then
        (if 2 \<le> version
         then (case validateFieldType lib v FieldBoolean noOptions of Valid w \<Rightarrow> Valid w | Invalid \<Rightarrow> Valid (FBool (js_Boolean v)))
         else Valid (FBool (js_Boolean v)))
      else if ty = OpNumber \<and> v = FNum NaN then Valid v
      else if ty = OpNumber \<and> 3 \<le> version \<and> (case v of FStr s \<Rightarrow> js_trim s = [] | FArr vs \<Rightarrow> vs = [] | _ \<Rightarrow> False) then Valid FNull
      else validateFieldType lib v (fieldTypeOf ty) \<lparr>vo_valueOptions = [], vo_strict = strict, vo_parseStrings = True\<rparr>)"

definition withIndefiniteArticle :: "string \<Rightarrow> string" where
  "withIndefiniteArticle noun =
     (if noun = [] \<or> hd noun \<in> set ''aeiou'' then ''an'' else ''a'') @ '' '' @ noun"

definition messageSuffix :: "FilterConditionMetadata \<Rightarrow> string" where
  "messageSuffix md =
     (if md_full md then ''[condition '' @ nat_str (md_index md) @ '', item '' @ nat_str (md_itemIndex md) @ '']''
      else ''[item '' @ nat_str (md_itemIndex md) @ '']'')"

definition composeInvalidTypeMessage :: "bool \<Rightarrow> string \<Rightarrow> string \<Rightarrow> string \<Rightarrow> string \<Rightarrow> string" where
  "composeInvalidTypeMessage strict suffix ty fromType v =
     (let quoted = [CHR 0x27] @ v @ [CHR 0x27]
      in if strict
         then ''Wrong type: '' @ quoted @ '' is '' @ withIndefiniteArticle fromType @ '' but was expecting '' @
              withIndefiniteArticle ty @ '' '' @ suffix
         else ''Conversion error: the '' @ fromType @ '' '' @ quoted @ '' can'' @ [CHR 0x27] @ ''t be converted to '' @
              withIndefiniteArticle ty @ '' '' @ suffix)"

definition isUnresolved :: "FilterConditionMetadata \<Rightarrow> fval \<Rightarrow> bool" where
  "isUnresolved md v = (md_unresolvedExpressions md \<and> (case v of FStr s \<Rightarrow> s \<noteq> [] \<and> hd s = CHR ''='' | _ \<Rightarrow> False))"

fun newValueOf :: "ValidationResult \<Rightarrow> fval" where
  "newValueOf (Valid v) = v"
| "newValueOf Invalid = FUndef"

definition rightTypeOf :: "FilterOperatorValue \<Rightarrow> FilterOperatorType" where
  "rightTypeOf operator = (case op_rightType operator of None \<Rightarrow> op_type operator | Some t \<Rightarrow> t)"

definition parseFilterConditionValues :: "ValueLib \<Rightarrow> FilterConditionValue \<Rightarrow> FilterOptionsValue \<Rightarrow> FilterConditionMetadata \<Rightarrow>
    FilterFailure + fval \<times> fval" where
  "parseFilterConditionValues lib condition options md =
     (let operator = fc_operator condition;
          left = fc_leftValue condition; right = fc_rightValue condition;
          strict = fo_strict options;
          parsedLeft = parseSingleFilterValue lib left (op_type operator) strict (fo_version options);
          parsedRight = parseSingleFilterValue lib right (rightTypeOf operator) strict (fo_version options);
          leftValid = (parsedLeft \<noteq> Invalid \<or> isUnresolved md left);
          rightValid = (parsedRight \<noteq> Invalid \<or> op_singleValue operator \<or> isUnresolved md right)
      in if \<not> leftValid \<and> \<not> rightValid \<and> fval_typeof left = fval_typeof right
         then Inl (FilterError (''Comparison type expects '' @ withIndefiniteArticle (typeText (op_type operator)) @
           '' but both fields are '' @ withIndefiniteArticle (fval_typeof left)))
         else if \<not> leftValid
         then Inl (FilterError (composeInvalidTypeMessage strict (messageSuffix md) (typeText (op_type operator)) (fval_typeof left) (js_String lib left)))
         else if \<not> rightValid
         then Inl (FilterError (composeInvalidTypeMessage strict (messageSuffix md) (typeText (rightTypeOf operator)) (fval_typeof right) (js_String lib right)))
         else Inr (newValueOf parsedLeft, newValueOf parsedRight))"

section \<open>Comparing\<close>

text \<open>A pattern between slashes with flags, \<open>/(.*?)/([gimusy]*)$\<close>: the first slash after which there are only flags ends it.\<close>

fun splitPattern :: "string \<Rightarrow> string \<Rightarrow> (string \<times> string) option" where
  "splitPattern acc [] = None"
| "splitPattern acc (c # s) =
     (if c = CHR ''/'' \<and> set s \<subseteq> set ''gimusy'' then Some (acc, s)
      else if c \<in> {CHR 0x0A, CHR 0x0D} then None
      else splitPattern (acc @ [c]) s)"

definition testPattern :: "ValueLib \<Rightarrow> string \<Rightarrow> string \<Rightarrow> FilterFailure + bool" where
  "testPattern lib pattern text =
     (let (source, flags) = (case pattern of
            [] \<Rightarrow> ([], [])
          | c # s \<Rightarrow> if c = CHR ''/'' then (case splitPattern [] s of Some p \<Rightarrow> p | None \<Rightarrow> (pattern, [])) else (pattern, []))
      in case vl_regex lib source flags text of None \<Rightarrow> Inl FilterSyntaxError | Some b \<Rightarrow> Inr b)"

fun isInfix :: "string \<Rightarrow> string \<Rightarrow> bool" where
  "isInfix t [] = (t = [])"
| "isInfix t (c # s) = (take (length t) (c # s) = t \<or> isInfix t s)"

definition isPrefix :: "string \<Rightarrow> string \<Rightarrow> bool" where
  "isPrefix t s = (take (length t) s = t)"

definition isSuffix :: "string \<Rightarrow> string \<Rightarrow> bool" where
  "isSuffix t s = isPrefix (rev t) (rev s)"

text \<open>\<open><\<close> of two values that are not both texts.\<close>

definition numberLess :: "ValueLib \<Rightarrow> fval \<Rightarrow> fval \<Rightarrow> bool" where
  "numberLess lib a b = (case (js_Number lib a, js_Number lib b) of (Num m, Num n) \<Rightarrow> m < n | _ \<Rightarrow> False)"

definition numberLessEq :: "ValueLib \<Rightarrow> fval \<Rightarrow> fval \<Rightarrow> bool" where
  "numberLessEq lib a b = (case (js_Number lib a, js_Number lib b) of (Num m, Num n) \<Rightarrow> m \<le> n | _ \<Rightarrow> False)"

text \<open>\<open>Array.prototype.includes\<close> finds NaN.\<close>

definition arrayContainsValue :: "fval list \<Rightarrow> fval \<Rightarrow> bool \<Rightarrow> bool" where
  "arrayContainsValue array v ignoreCase =
     (case v of
        FStr s \<Rightarrow>
          if ignoreCase
          then list_ex (\<lambda>item. case item of FStr t \<Rightarrow> js_toLowerCase t = js_toLowerCase s | _ \<Rightarrow> False) array
          else list_ex (\<lambda>item. strictEqual item v) array
      | _ \<Rightarrow> list_ex (\<lambda>item. strictEqual item v \<or> item = FNum NaN \<and> v = FNum NaN) array)"

definition existsValue :: "fval \<Rightarrow> bool" where
  "existsValue v = (v \<noteq> FUndef \<and> v \<noteq> FNull \<and> v \<noteq> FNum NaN)"

definition orElse :: "fval \<Rightarrow> fval \<Rightarrow> fval" where
  "orElse v d = (if v = FUndef \<or> v = FNull then d else v)"

text \<open>
  Of the operations on texts \<open>left\<close> is a text; \<open>right\<close> is one unless the type of the right value is another. Only texts have \<open>match\<close>, and
  what is false stands for an empty pattern.
\<close>

definition patternOf :: "fval \<Rightarrow> FilterFailure + string" where
  "patternOf right = (case right of FStr s \<Rightarrow> Inr s | _ \<Rightarrow> if js_Boolean right then Inl FilterTypeError else Inr [])"

definition stringOperation :: "ValueLib \<Rightarrow> string \<Rightarrow> string \<Rightarrow> fval \<Rightarrow> (FilterFailure + bool) option" where
  "stringOperation lib operation left right =
     (let r = js_String lib right
      in if operation = ''empty'' then Some (Inr (left = []))
         else if operation = ''notEmpty'' then Some (Inr (left \<noteq> []))
         else if operation = ''equals'' then Some (Inr (strictEqual (FStr left) right))
         else if operation = ''notEquals'' then Some (Inr (\<not> strictEqual (FStr left) right))
         else if operation = ''contains'' then Some (Inr (isInfix r left))
         else if operation = ''notContains'' then Some (Inr (\<not> isInfix r left))
         else if operation = ''startsWith'' then Some (Inr (isPrefix r left))
         else if operation = ''notStartsWith'' then Some (Inr (\<not> isPrefix r left))
         else if operation = ''endsWith'' then Some (Inr (isSuffix r left))
         else if operation = ''notEndsWith'' then Some (Inr (\<not> isSuffix r left))
         else if operation = ''regex'' then Some (rbind (patternOf right) (\<lambda>p. testPattern lib p left))
         else if operation = ''notRegex'' then Some (map_sum id Not (rbind (patternOf right) (\<lambda>p. testPattern lib p left)))
         else None)"

definition numberOperation :: "ValueLib \<Rightarrow> string \<Rightarrow> fval \<Rightarrow> fval \<Rightarrow> bool option" where
  "numberOperation lib operation left right =
     (if operation = ''empty'' then Some (\<not> existsValue left)
      else if operation = ''notEmpty'' then Some (existsValue left)
      else if operation = ''equals'' then Some (strictEqual left right)
      else if operation = ''notEquals'' then Some (\<not> strictEqual left right)
      else if operation = ''gt'' then Some (numberLess lib right left)
      else if operation = ''lt'' then Some (numberLess lib left right)
      else if operation = ''gte'' then Some (numberLessEq lib right left)
      else if operation = ''lte'' then Some (numberLessEq lib left right)
      else None)"

text \<open>\<open>toMillis\<close> of a date that is not valid is NaN; other values have no such method.\<close>

definition toMillis :: "fval \<Rightarrow> fval option" where
  "toMillis v = (case v of FDateTime d \<Rightarrow> Some (FNum (case d of None \<Rightarrow> NaN | Some t \<Rightarrow> Num t)) | _ \<Rightarrow> None)"

definition dateComparison :: "ValueLib \<Rightarrow> string \<Rightarrow> fval \<Rightarrow> fval \<Rightarrow> bool option" where
  "dateComparison lib operation l r =
     (if operation = ''equals'' then Some (strictEqual l r)
      else if operation = ''notEquals'' then Some (\<not> strictEqual l r)
      else if operation = ''after'' then Some (numberLess lib r l)
      else if operation = ''before'' then Some (numberLess lib l r)
      else if operation = ''afterOrEquals'' then Some (numberLessEq lib r l)
      else if operation = ''beforeOrEquals'' then Some (numberLessEq lib l r)
      else None)"

definition dateOperation :: "ValueLib \<Rightarrow> string \<Rightarrow> fval \<Rightarrow> fval \<Rightarrow> (FilterFailure + bool) option" where
  "dateOperation lib operation left right =
     (if operation = ''empty'' then Some (Inr (\<not> existsValue left))
      else if operation = ''notEmpty'' then Some (Inr (existsValue left))
      else if \<not> js_Boolean left \<or> \<not> js_Boolean right then Some (Inr False)
      else if dateComparison lib operation FUndef FUndef = None then None
      else (case (toMillis left, toMillis right) of
          (Some l, Some r) \<Rightarrow> map_option Inr (dateComparison lib operation l r)
        | _ \<Rightarrow> Some (Inl FilterTypeError)))"

definition booleanOperation :: "string \<Rightarrow> fval \<Rightarrow> fval \<Rightarrow> bool option" where
  "booleanOperation operation left right =
     (if operation = ''empty'' then Some (\<not> existsValue left)
      else if operation = ''notEmpty'' then Some (existsValue left)
      else if operation = ''true'' then Some (js_Boolean left)
      else if operation = ''false'' then Some (\<not> js_Boolean left)
      else if operation = ''equals'' then Some (strictEqual left right)
      else if operation = ''notEquals'' then Some (\<not> strictEqual left right)
      else None)"

text \<open>\<open>length\<close> and \<open>includes\<close>, which a text has too.\<close>

definition lengthOf :: "fval \<Rightarrow> fval" where
  "lengthOf v = (case v of FArr vs \<Rightarrow> FNum (Num (int (length vs))) | FStr s \<Rightarrow> FNum (Num (int (length s))) | _ \<Rightarrow> FUndef)"

definition containsOperation :: "ValueLib \<Rightarrow> fval \<Rightarrow> fval \<Rightarrow> bool \<Rightarrow> FilterFailure + bool" where
  "containsOperation lib left right ignoreCase = (case left of
     FArr vs \<Rightarrow> Inr (arrayContainsValue vs right ignoreCase)
   | FStr s \<Rightarrow> if ignoreCase \<and> fval_typeof right = ''string'' then Inl FilterTypeError else Inr (isInfix (js_String lib right) s)
   | _ \<Rightarrow> Inl FilterTypeError)"

definition arrayOperation :: "ValueLib \<Rightarrow> bool \<Rightarrow> string \<Rightarrow> fval \<Rightarrow> fval \<Rightarrow> (FilterFailure + bool) option" where
  "arrayOperation lib ignoreCase operation leftValue right =
     (let left = orElse leftValue (FArr []); len = lengthOf left
      in if operation = ''contains'' then Some (containsOperation lib left right ignoreCase)
         else if operation = ''notContains'' then Some (map_sum id Not (containsOperation lib left right ignoreCase))
         else if operation = ''lengthEquals'' then Some (Inr (strictEqual len right))
         else if operation = ''lengthNotEquals'' then Some (Inr (\<not> strictEqual len right))
         else if operation = ''lengthGt'' then Some (Inr (numberLess lib right len))
         else if operation = ''lengthLt'' then Some (Inr (numberLess lib len right))
         else if operation = ''lengthGte'' then Some (Inr (numberLessEq lib right len))
         else if operation = ''lengthLte'' then Some (Inr (numberLessEq lib len right))
         else if operation = ''empty'' then Some (Inr (len = FNum (Num 0)))
         else if operation = ''notEmpty'' then Some (Inr (len \<noteq> FNum (Num 0)))
         else None)"

definition keyCount :: "fval \<Rightarrow> nat" where
  "keyCount v = (case v of FObj ps \<Rightarrow> length ps | FArr vs \<Rightarrow> length vs | FStr s \<Rightarrow> length s | FDateTime _ \<Rightarrow> 9 | _ \<Rightarrow> 0)"

definition objectOperation :: "string \<Rightarrow> fval \<Rightarrow> bool option" where
  "objectOperation operation left =
     (if operation = ''empty'' then Some (\<not> js_Boolean left \<or> keyCount left = 0)
      else if operation = ''notEmpty'' then Some (js_Boolean left \<and> keyCount left \<noteq> 0)
      else None)"

text \<open>An operation that a type does not have falls through to the next case of the switch, and at the end is unknown.\<close>

definition fallThrough :: "'a option \<Rightarrow> 'a option \<Rightarrow> 'a option" where
  "fallThrough a b = (case a of Some x \<Rightarrow> Some x | None \<Rightarrow> b)"

definition compareValues :: "ValueLib \<Rightarrow> bool \<Rightarrow> FilterOperatorValue \<Rightarrow> fval \<Rightarrow> fval \<Rightarrow> (FilterFailure + bool) option" where
  "compareValues lib ignoreCase operator leftValue rightValue =
     (let operation = op_operation operator;
          lower = (\<lambda>v. case v of FStr s \<Rightarrow> FStr (js_toLowerCase s) | _ \<Rightarrow> v);
          objectCase = map_option Inr (objectOperation operation leftValue);
          arrayCase = fallThrough (arrayOperation lib ignoreCase operation leftValue rightValue) objectCase;
          booleanCase = fallThrough (map_option Inr (booleanOperation operation leftValue rightValue)) arrayCase;
          dateCase = fallThrough (dateOperation lib operation leftValue rightValue) booleanCase;
          numberCase = fallThrough (map_option Inr (numberOperation lib operation leftValue rightValue)) dateCase
      in case op_type operator of
           OpString \<Rightarrow>
             let left = (if ignoreCase then lower leftValue else leftValue);
                 right = (if ignoreCase \<and> operation \<noteq> ''regex'' \<and> operation \<noteq> ''notRegex'' then lower rightValue else rightValue)
             in stringOperation lib operation (js_String lib (orElse left (FStr []))) (orElse right (FStr []))
         | OpNumber \<Rightarrow> numberCase
         | OpDateTime \<Rightarrow> dateCase
         | OpBoolean \<Rightarrow> booleanCase
         | OpArray \<Rightarrow> arrayCase
         | OpObject \<Rightarrow> objectCase
         | OpAny \<Rightarrow> None)"

definition executeFilterCondition :: "ValueLib \<Rightarrow> FilterConditionValue \<Rightarrow> FilterOptionsValue \<Rightarrow> FilterConditionMetadata \<Rightarrow>
    FilterFailure + bool" where
  "executeFilterCondition lib condition options md =
     rbind (parseFilterConditionValues lib condition options md) (\<lambda>(leftValue, rightValue).
       if op_operation (fc_operator condition) = ''exists'' then Inr (existsValue leftValue)
       else if op_operation (fc_operator condition) = ''notExists'' then Inr (\<not> existsValue leftValue)
       else case compareValues lib (\<not> fo_caseSensitive options) (fc_operator condition) leftValue rightValue of
           Some r \<Rightarrow> r
         | None \<Rightarrow> Inr False)"

section \<open>Filters\<close>

definition conditionMetadata :: "nat \<Rightarrow> nat \<Rightarrow> FilterConditionMetadata" where
  "conditionMetadata index itemIndex = \<lparr>md_index = index, md_unresolvedExpressions = False, md_itemIndex = itemIndex, md_full = True\<rparr>"

fun everyPasses :: "('a \<Rightarrow> 'e + bool) \<Rightarrow> 'a list \<Rightarrow> 'e + bool" where
  "everyPasses f [] = Inr True"
| "everyPasses f (x # xs) = rbind (f x) (\<lambda>b. if b then everyPasses f xs else Inr False)"

fun somePasses :: "('a \<Rightarrow> 'e + bool) \<Rightarrow> 'a list \<Rightarrow> 'e + bool" where
  "somePasses f [] = Inr False"
| "somePasses f (x # xs) = rbind (f x) (\<lambda>b. if b then Inr True else somePasses f xs)"

definition executeFilter :: "ValueLib \<Rightarrow> FilterValue \<Rightarrow> nat \<Rightarrow> FilterFailure + bool" where
  "executeFilter lib v itemIndex =
     (let conditionPass = (\<lambda>(index, condition). executeFilterCondition lib condition (fv_options v) (conditionMetadata index itemIndex));
          conditions = zip [0..<length (fv_conditions v)] (fv_conditions v)
      in case fv_combinator v of
           CombineAnd \<Rightarrow> everyPasses conditionPass conditions
         | CombineOr \<Rightarrow> somePasses conditionPass conditions
         | CombineUnknown \<Rightarrow> Inr False)"

text \<open>The result of parsing a condition is not looked at; it is no exception that could be caught.\<close>

definition validateFilterParameter :: "ValueLib \<Rightarrow> string \<Rightarrow> FilterValue \<Rightarrow> (string \<times> string list) list" where
  "validateFilterParameter lib nm v =
     fold (\<lambda>(index, condition) issues.
         let _ = parseFilterConditionValues lib condition (fv_options v)
               \<lparr>md_index = index, md_unresolvedExpressions = True, md_itemIndex = 0, md_full = False\<rparr>
         in issues)
       (zip [0..<length (fv_conditions v)] (fv_conditions v)) []"

end
