(* ===== verification/FilterProps.thy ===== *)
theory FilterProps
  imports FilterParameter
begin

text \<open>
  Properties of the conditions of the nodes If, Switch and Filter (theory FilterParameter): a negative operation is the negation
  of the positive one, a filter with \<open>and\<close> or \<open>or\<close> is decided by its first condition that fails or passes, and the operations of a type find
  values of this type.
\<close>

section \<open>Negations\<close>

text \<open>The operations of a type that come with their negation. Equality of dates is not among them, it has a case of its own.\<close>

fun negationPairs :: "FilterOperatorType \<Rightarrow> (string \<times> string) list" where
  "negationPairs OpString =
     [(''exists'', ''notExists''), (''empty'', ''notEmpty''), (''equals'', ''notEquals''), (''contains'', ''notContains''),
      (''startsWith'', ''notStartsWith''), (''endsWith'', ''notEndsWith''), (''regex'', ''notRegex'')]"
| "negationPairs OpNumber = [(''exists'', ''notExists''), (''empty'', ''notEmpty''), (''equals'', ''notEquals'')]"
| "negationPairs OpBoolean =
     [(''exists'', ''notExists''), (''empty'', ''notEmpty''), (''equals'', ''notEquals''), (''true'', ''false'')]"
| "negationPairs OpArray =
     [(''exists'', ''notExists''), (''empty'', ''notEmpty''), (''contains'', ''notContains''),
      (''lengthEquals'', ''lengthNotEquals'')]"
| "negationPairs OpObject = [(''exists'', ''notExists''), (''empty'', ''notEmpty'')]"
| "negationPairs OpDateTime = [(''exists'', ''notExists''), (''empty'', ''notEmpty'')]"
| "negationPairs OpAny = [(''exists'', ''notExists'')]"

definition withOperation :: "string \<Rightarrow> FilterConditionValue \<Rightarrow> FilterConditionValue" where
  "withOperation p c = c\<lparr>fc_operator := (fc_operator c)\<lparr>op_operation := p\<rparr>\<rparr>"

lemma rightTypeOf_operation [simp]: "rightTypeOf (operator\<lparr>op_operation := p\<rparr>) = rightTypeOf operator"
  by (cases "op_rightType operator") (simp_all add: rightTypeOf_def)

lemma withOperation_operator: "fc_operator (withOperation p c) = (fc_operator c)\<lparr>op_operation := p\<rparr>"
  by (simp add: withOperation_def)

lemma parse_withOperation [simp]: "parseFilterConditionValues lib (withOperation p c) opts md = parseFilterConditionValues lib c opts md"
  by (simp add: parseFilterConditionValues_def withOperation_def Let_def cong del: if_weak_cong)

lemma withOperation_simps [simp]:
  "op_operation (fc_operator (withOperation p c)) = p"
  "op_type (fc_operator (withOperation p c)) = op_type (fc_operator c)"
  by (simp_all add: withOperation_def)

text \<open>What is compared once the values are parsed, with \<open>exists\<close> and \<open>notExists\<close>.\<close>

definition decide :: "ValueLib \<Rightarrow> bool \<Rightarrow> FilterOperatorValue \<Rightarrow> fval \<Rightarrow> fval \<Rightarrow> FilterFailure + bool" where
  "decide lib ic operator l r =
     (if op_operation operator = ''exists'' then Inr (existsValue l)
      else if op_operation operator = ''notExists'' then Inr (\<not> existsValue l)
      else case compareValues lib ic operator l r of Some b \<Rightarrow> b | None \<Rightarrow> Inr False)"

lemma executeFilterCondition_decide:
  "executeFilterCondition lib c opts md =
     rbind (parseFilterConditionValues lib c opts md) (\<lambda>(l, r). decide lib (\<not> fo_caseSensitive opts) (fc_operator c) l r)"
  by (simp add: executeFilterCondition_def decide_def)

text \<open>The negation of what an operation that a type has gives.\<close>

definition negatesTo :: "('e + bool) option \<Rightarrow> ('e + bool) option \<Rightarrow> bool" where
  "negatesTo a b = (\<exists>x. a = Some x \<and> b = Some (map_sum id Not x))"

lemma negatesTo_Some [simp]: "negatesTo (Some x) b = (b = Some (map_sum id Not x))"
  by (auto simp: negatesTo_def)

lemma list_all_pair: "list_all (\<lambda>(p, q). P p q) xs \<Longrightarrow> (p, q) \<in> set xs \<Longrightarrow> P p q"
  by (auto simp: list_all_iff)

lemma stringOperation_negates_list:
  "list_all (\<lambda>(p, q). negatesTo (stringOperation lib p l r) (stringOperation lib q l r)) (tl (negationPairs OpString))"
  by (simp add: stringOperation_def Let_def)

lemmas stringOperation_negates = stringOperation_negates_list[THEN list_all_pair]

lemma numberOperation_negates_list:
  "list_all (\<lambda>(p, q). negatesTo (map_option Inr (numberOperation lib p l r)) (map_option Inr (numberOperation lib q l r))) (tl (negationPairs OpNumber))"
  by (simp add: numberOperation_def)

lemmas numberOperation_negates = numberOperation_negates_list[THEN list_all_pair]

lemma booleanOperation_negates_list:
  "list_all (\<lambda>(p, q). negatesTo (map_option Inr (booleanOperation p l r)) (map_option Inr (booleanOperation q l r))) (tl (negationPairs OpBoolean))"
  by (simp add: booleanOperation_def)

lemmas booleanOperation_negates = booleanOperation_negates_list[THEN list_all_pair]

lemma arrayOperation_negates_list:
  "list_all (\<lambda>(p, q). negatesTo (arrayOperation lib ic p l r) (arrayOperation lib ic q l r)) (tl (negationPairs OpArray))"
  by (simp add: arrayOperation_def Let_def)

lemmas arrayOperation_negates = arrayOperation_negates_list[THEN list_all_pair]

lemma objectOperation_negates_list:
  "list_all (\<lambda>(p, q). negatesTo (map_option Inr (objectOperation p l)) (map_option Inr (objectOperation q l))) (tl (negationPairs OpObject))"
  by (simp add: objectOperation_def)

lemmas objectOperation_negates = objectOperation_negates_list[THEN list_all_pair]

lemma dateOperation_negates_list:
  "list_all (\<lambda>(p, q). negatesTo (dateOperation lib p l r) (dateOperation lib q l r)) (tl (negationPairs OpDateTime))"
  by (simp add: dateOperation_def)

lemmas dateOperation_negates = dateOperation_negates_list[THEN list_all_pair]

lemma negatesTo_fallThrough: "negatesTo a b \<Longrightarrow> negatesTo (fallThrough a c) (fallThrough b d)"
  by (auto simp: negatesTo_def fallThrough_def)

lemmas operation_negates = numberOperation_negates booleanOperation_negates arrayOperation_negates objectOperation_negates
  dateOperation_negates

text \<open>Only matching with a pattern leaves the case of the right text, and it does in both of its forms.\<close>

lemma regex_negates:
  "(p, q) \<in> set (tl (negationPairs OpString)) \<Longrightarrow> (p \<noteq> ''regex'' \<and> p \<noteq> ''notRegex'') = (q \<noteq> ''regex'' \<and> q \<noteq> ''notRegex'')"
  by auto

lemma compareValues_negates:
  assumes "(p, q) \<in> set (tl (negationPairs (op_type operator)))"
  shows "negatesTo (compareValues lib ic (operator\<lparr>op_operation := p\<rparr>) l r) (compareValues lib ic (operator\<lparr>op_operation := q\<rparr>) l r)"
proof (cases "op_type operator")
  case OpString
  then show ?thesis
    using stringOperation_negates regex_negates assms by (simp add: compareValues_def Let_def del: negationPairs.simps)
next
  case OpNumber
  then show ?thesis
    using assms by (simp add: compareValues_def Let_def negatesTo_fallThrough operation_negates del: negationPairs.simps)
next
  case OpBoolean
  then show ?thesis
    using assms by (simp add: compareValues_def Let_def negatesTo_fallThrough operation_negates del: negationPairs.simps)
next
  case OpArray
  then show ?thesis
    using assms by (simp add: compareValues_def Let_def negatesTo_fallThrough operation_negates del: negationPairs.simps)
next
  case OpObject
  then show ?thesis
    using assms by (simp add: compareValues_def Let_def operation_negates del: negationPairs.simps)
next
  case OpDateTime
  then show ?thesis
    using assms by (simp add: compareValues_def Let_def negatesTo_fallThrough operation_negates del: negationPairs.simps)
qed (use assms in simp)

lemma negationPairs_exists:
  "negationPairs ty = (''exists'', ''notExists'') # tl (negationPairs ty)"
  "(p, q) \<in> set (tl (negationPairs ty)) \<Longrightarrow> p \<notin> {''exists'', ''notExists''} \<and> q \<notin> {''exists'', ''notExists''}"
  by (cases ty; auto)+

lemma decide_negation:
  assumes "(p, q) \<in> set (negationPairs (op_type operator))"
  shows "decide lib ic (operator\<lparr>op_operation := q\<rparr>) l r = map_sum id Not (decide lib ic (operator\<lparr>op_operation := p\<rparr>) l r)"
proof (cases "(p, q) \<in> set (tl (negationPairs (op_type operator)))")
  case True
  then show ?thesis
    using compareValues_negates[OF True, of lib ic l r] negationPairs_exists(2)[OF True]
    by (auto simp: decide_def negatesTo_def)
next
  case False
  then have "p = ''exists''" "q = ''notExists''"
    using assms negationPairs_exists(1)[of "op_type operator"] by (metis Pair_inject set_ConsD)+
  then show ?thesis by (simp add: decide_def)
qed

lemma withOperation_negates:
  assumes "(p, q) \<in> set (negationPairs (op_type (fc_operator c)))"
  shows "executeFilterCondition lib (withOperation q c) opts md =
    map_sum id Not (executeFilterCondition lib (withOperation p c) opts md)"
proof (cases "parseFilterConditionValues lib c opts md")
  case (Inl e)
  then show ?thesis by (simp add: executeFilterCondition_decide)
next
  case (Inr lr)
  have "decide lib (\<not> fo_caseSensitive opts) (fc_operator (withOperation q c)) (fst lr) (snd lr) =
      map_sum id Not (decide lib (\<not> fo_caseSensitive opts) (fc_operator (withOperation p c)) (fst lr) (snd lr))"
    using decide_negation[OF assms] by (simp add: withOperation_def)
  with Inr show ?thesis by (simp add: executeFilterCondition_decide case_prod_beta)
qed

lemma dates_equal:
  assumes "op_type operator = OpDateTime"
  shows "decide lib ic (operator\<lparr>op_operation := ''notEquals''\<rparr>) l r =
    (if js_Boolean l \<and> js_Boolean r then map_sum id Not (decide lib ic (operator\<lparr>op_operation := ''equals''\<rparr>) l r) else Inr False)"
    "\<not> (js_Boolean l \<and> js_Boolean r) \<Longrightarrow> decide lib ic (operator\<lparr>op_operation := ''equals''\<rparr>) l r = Inr False"
  using assms
  by (auto simp: decide_def compareValues_def Let_def fallThrough_def dateOperation_def dateComparison_def split: option.split)

text \<open>C22: A condition with the negative operation of a type (\<open>notEquals\<close>, \<open>notContains\<close>, \<open>notExists\<close>, and so on) passes exactly when
  the one with the positive operation does not, and fails with the same error. The equality of dates is the exception: that
  holds of two dates that are there, while of a date that is missing both \<open>equals\<close> and \<open>notEquals\<close> are false.\<close>

theorem filter_negation:
  "((p, q) \<in> set (negationPairs (op_type (fc_operator c))) \<longrightarrow>
      executeFilterCondition lib (withOperation q c) opts md =
        map_sum id Not (executeFilterCondition lib (withOperation p c) opts md)) \<and>
   (op_type (fc_operator c) = OpDateTime \<longrightarrow>
      (case parseFilterConditionValues lib c opts md of
         Inl e \<Rightarrow> executeFilterCondition lib (withOperation ''equals'' c) opts md = Inl e \<and>
           executeFilterCondition lib (withOperation ''notEquals'' c) opts md = Inl e
       | Inr (l, r) \<Rightarrow>
           if js_Boolean l \<and> js_Boolean r
           then executeFilterCondition lib (withOperation ''notEquals'' c) opts md =
             map_sum id Not (executeFilterCondition lib (withOperation ''equals'' c) opts md)
           else executeFilterCondition lib (withOperation ''equals'' c) opts md = Inr False \<and>
             executeFilterCondition lib (withOperation ''notEquals'' c) opts md = Inr False))"
proof (intro conjI impI)
  assume date: "op_type (fc_operator c) = OpDateTime"
  have "decide lib ic (fc_operator (withOperation ''notEquals'' c)) l r =
      (if js_Boolean l \<and> js_Boolean r then map_sum id Not (decide lib ic (fc_operator (withOperation ''equals'' c)) l r) else Inr False)"
    "\<not> (js_Boolean l \<and> js_Boolean r) \<Longrightarrow> decide lib ic (fc_operator (withOperation ''equals'' c)) l r = Inr False" for ic l r
    using dates_equal[OF date] unfolding withOperation_operator by blast+
  then show "case parseFilterConditionValues lib c opts md of
      Inl e \<Rightarrow> executeFilterCondition lib (withOperation ''equals'' c) opts md = Inl e \<and>
        executeFilterCondition lib (withOperation ''notEquals'' c) opts md = Inl e
    | Inr (l, r) \<Rightarrow>
        if js_Boolean l \<and> js_Boolean r
        then executeFilterCondition lib (withOperation ''notEquals'' c) opts md =
          map_sum id Not (executeFilterCondition lib (withOperation ''equals'' c) opts md)
        else executeFilterCondition lib (withOperation ''equals'' c) opts md = Inr False \<and>
          executeFilterCondition lib (withOperation ''notEquals'' c) opts md = Inr False"
    by (simp add: executeFilterCondition_decide split: sum.split)
qed (rule withOperation_negates)

section \<open>Combinations of conditions\<close>

definition negateCondition :: "FilterConditionValue \<Rightarrow> FilterConditionValue" where
  "negateCondition c =
     (case map_of (negationPairs (op_type (fc_operator c))) (op_operation (fc_operator c)) of
        Some q \<Rightarrow> withOperation q c
      | None \<Rightarrow> c)"

definition isNegatable :: "FilterConditionValue \<Rightarrow> bool" where
  "isNegatable c = (op_operation (fc_operator c) \<in> fst ` set (negationPairs (op_type (fc_operator c))))"

lemma withOperation_same [simp]: "withOperation (op_operation (fc_operator c)) c = c"
  by (simp add: withOperation_def)

lemma negateCondition_negates:
  assumes "isNegatable c"
  shows "executeFilterCondition lib (negateCondition c) opts md = map_sum id Not (executeFilterCondition lib c opts md)"
proof -
  let ?p = "op_operation (fc_operator c)" and ?o = "fc_operator c"
  obtain q where q: "map_of (negationPairs (op_type ?o)) ?p = Some q"
    using assms by (metis isNegatable_def map_of_eq_None_iff not_None_eq)
  have "decide lib ic (?o\<lparr>op_operation := q\<rparr>) l r = map_sum id Not (decide lib ic ?o l r)" for ic l r
    using decide_negation[OF map_of_SomeD[OF q], of lib ic l r] by simp
  then show ?thesis
    using q by (cases "parseFilterConditionValues lib c opts md")
      (simp_all add: negateCondition_def executeFilterCondition_decide case_prod_beta withOperation_operator)
qed

lemma everyPasses_negated:
  assumes "\<And>x. x \<in> set xs \<Longrightarrow> g (h x) = map_sum id Not (f x)"
  shows "somePasses f xs = map_sum id Not (everyPasses g (map h xs))"
  using assms by (induction xs) (auto simp: rbind_def map_sum.compositionality split: sum.splits)

text \<open>A filter that combines its conditions with \<open>or\<close> is the negation of the filter that combines their negations with \<open>and\<close>: both
  stop at the same condition, and fail with the same error.\<close>

theorem filter_de_morgan:
  assumes "list_all isNegatable (fv_conditions v)"
  shows "executeFilter lib (v\<lparr>fv_combinator := CombineOr\<rparr>) i =
    map_sum id Not (executeFilter lib (v\<lparr>fv_combinator := CombineAnd, fv_conditions := map negateCondition (fv_conditions v)\<rparr>) i)"
proof -
  let ?cs = "zip [0..<length (fv_conditions v)] (fv_conditions v)"
  let ?pass = "\<lambda>(index, c). executeFilterCondition lib c (fv_options v) (conditionMetadata index i)"
  have "?pass (map_prod id negateCondition x) = map_sum id Not (?pass x)" if "x \<in> set ?cs" for x
  proof (cases x)
    case (Pair index c)
    then have "isNegatable c"
      using that assms by (auto simp: list_all_iff dest: set_zip_rightD)
    then show ?thesis by (simp add: Pair negateCondition_negates)
  qed
  then have "somePasses ?pass ?cs = map_sum id Not (everyPasses ?pass (map (map_prod id negateCondition) ?cs))"
    by (rule everyPasses_negated)
  then show ?thesis
    by (simp add: executeFilter_def zip_map2 map_prod_def)
qed

lemma everyPasses_iff:
  "everyPasses f xs = Inr True \<longleftrightarrow> (\<forall>k < length xs. f (xs ! k) = Inr True)"
  "x \<noteq> Inr True \<Longrightarrow> everyPasses f xs = x \<longleftrightarrow> (\<exists>k < length xs. f (xs ! k) = x \<and> (\<forall>j < k. f (xs ! j) = Inr True))"
  by (induction xs) (auto simp: rbind_def All_less_Suc2 Ex_less_Suc2 split: sum.splits)

lemma somePasses_iff:
  "somePasses f xs = Inr False \<longleftrightarrow> (\<forall>k < length xs. f (xs ! k) = Inr False)"
  "x \<noteq> Inr False \<Longrightarrow> somePasses f xs = x \<longleftrightarrow> (\<exists>k < length xs. f (xs ! k) = x \<and> (\<forall>j < k. f (xs ! j) = Inr False))"
  by (induction xs) (auto simp: rbind_def All_less_Suc2 Ex_less_Suc2 split: sum.splits)

lemma passes_map: "everyPasses f (map g xs) = everyPasses (f \<circ> g) xs" "somePasses f (map g xs) = somePasses (f \<circ> g) xs"
  by (induction xs) (simp_all cong del: if_weak_cong)

text \<open>What the condition with an index gives for an item.\<close>

definition conditionResult :: "ValueLib \<Rightarrow> FilterValue \<Rightarrow> nat \<Rightarrow> nat \<Rightarrow> FilterFailure + bool" where
  "conditionResult lib v i k = executeFilterCondition lib (fv_conditions v ! k) (fv_options v) (conditionMetadata k i)"

text \<open>C23: A filter with \<open>and\<close> passes when all of its conditions pass, and stops at the first that does not, with \<open>False\<close> or with its
  error; one with \<open>or\<close> fails to pass when none of its conditions passes, and stops at the first that passes or throws. A
  condition behind that one is not evaluated: whether it would throw does not matter. Each condition is evaluated for the
  item with its own index. A combinator that is neither lets nothing pass.\<close>

theorem executeFilter_exact:
  "case fv_combinator v of
      CombineAnd \<Rightarrow>
        (executeFilter lib v i = Inr True \<longleftrightarrow> (\<forall>k < length (fv_conditions v). conditionResult lib v i k = Inr True)) \<and>
        (\<forall>x. x \<noteq> Inr True \<longrightarrow> (executeFilter lib v i = x \<longleftrightarrow>
           (\<exists>k < length (fv_conditions v). conditionResult lib v i k = x \<and> (\<forall>j < k. conditionResult lib v i j = Inr True))))
    | CombineOr \<Rightarrow>
        (executeFilter lib v i = Inr False \<longleftrightarrow> (\<forall>k < length (fv_conditions v). conditionResult lib v i k = Inr False)) \<and>
        (\<forall>x. x \<noteq> Inr False \<longrightarrow> (executeFilter lib v i = x \<longleftrightarrow>
           (\<exists>k < length (fv_conditions v). conditionResult lib v i k = x \<and> (\<forall>j < k. conditionResult lib v i j = Inr False))))
    | CombineUnknown \<Rightarrow> executeFilter lib v i = Inr False"
proof -
  let ?n = "length (fv_conditions v)"
  let ?f = "\<lambda>(index, c). executeFilterCondition lib c (fv_options v) (conditionMetadata index i)"
  have zip: "zip [0..<?n] (fv_conditions v) = map (\<lambda>k. (k, fv_conditions v ! k)) [0..<?n]"
    by (rule nth_equalityI) simp_all
  have f: "?f \<circ> (\<lambda>k. (k, fv_conditions v ! k)) = conditionResult lib v i" by (simp add: fun_eq_iff conditionResult_def)
  have every: "executeFilter lib v i = everyPasses (conditionResult lib v i) [0..<?n]" if "fv_combinator v = CombineAnd"
    using that by (simp add: executeFilter_def Let_def zip passes_map f)
  have some: "executeFilter lib v i = somePasses (conditionResult lib v i) [0..<?n]" if "fv_combinator v = CombineOr"
    using that by (simp add: executeFilter_def Let_def zip passes_map f)
  show ?thesis
  proof (cases "fv_combinator v")
    case CombineAnd
    then show ?thesis by (simp add: every everyPasses_iff cong: conj_cong)
  next
    case CombineOr
    then show ?thesis by (simp add: some somePasses_iff cong: conj_cong)
  qed (simp add: executeFilter_def Let_def)
qed

section \<open>Types of the values\<close>

fun hasOperatorType :: "FilterOperatorType \<Rightarrow> fval \<Rightarrow> bool" where
  "hasOperatorType OpString v = (\<exists>s. v = FStr s)"
| "hasOperatorType OpNumber v = (\<exists>n. v = FNum n)"
| "hasOperatorType OpBoolean v = (\<exists>b. v = FBool b)"
| "hasOperatorType OpArray v = (\<exists>vs. v = FArr vs)"
| "hasOperatorType OpObject v = isPlainObject v"
| "hasOperatorType OpDateTime v = (\<exists>d. v = FDateTime d)"
| "hasOperatorType OpAny v = True"

definition fitsType :: "FilterOperatorType \<Rightarrow> fval \<Rightarrow> bool" where
  "fitsType ty v = (v = FUndef \<or> v = FNull \<or> hasOperatorType ty v)"

lemma tryToParseNumber_type: "tryToParseNumber lib v = Some w \<Longrightarrow> \<exists>n. w = FNum n"
  by (auto simp: tryToParseNumber_def split: if_splits)

lemma tryToParseObject_type: "tryToParseObject lib v = Some w \<Longrightarrow> isPlainObject w \<or> w = FNull"
  by (auto simp: tryToParseObject_def Let_def split: if_splits option.splits)

lemma validOr_Valid: "validOr a = Valid w \<longleftrightarrow> a = Some w"
  by (cases a) auto

lemma validateFieldType_type:
  assumes "validateFieldType lib v (fieldTypeOf ty) opts = Valid w" "vo_parseStrings opts \<or> ty \<noteq> OpString"
  shows "fitsType ty w"
  using assms
  by (cases ty) (auto simp: validateFieldType_def fitsType_def validOr_Valid split: if_splits
      dest: tryToParseNumber_type tryToParseObject_type)

lemma parseSingleFilterValue_type:
  assumes "parseSingleFilterValue lib v ty strict version = Valid w"
  shows "fitsType ty w"
proof (cases "validateFieldType lib v (fieldTypeOf ty) \<lparr>vo_valueOptions = [], vo_strict = strict, vo_parseStrings = True\<rparr> = Valid w \<or>
    ty = OpBoolean \<and> validateFieldType lib v FieldBoolean noOptions = Valid w")
  case True
  then show ?thesis
    using validateFieldType_type[of lib v ty _ w] validateFieldType_type[of lib v OpBoolean noOptions w] by fastforce
next
  case False
  then show ?thesis
    using assms by (auto simp: parseSingleFilterValue_def fitsType_def split: if_splits ValidationResult.splits)
qed

lemma parsed_values_have_type:
  assumes "parseFilterConditionValues lib c opts md = Inr (l, r)"
  shows "fitsType (op_type (fc_operator c)) l" and "fitsType (rightTypeOf (fc_operator c)) r"
proof -
  have undef: "fitsType ty FUndef" for ty by (simp add: fitsType_def)
  have new: "fitsType ty (newValueOf (parseSingleFilterValue lib v ty s n))" for v ty s n
    by (cases "parseSingleFilterValue lib v ty s n") (auto simp: undef intro: parseSingleFilterValue_type)
  show "fitsType (op_type (fc_operator c)) l" "fitsType (rightTypeOf (fc_operator c)) r"
    using assms new by (auto simp: parseFilterConditionValues_def Let_def split: if_splits)
qed

text \<open>The operations a type has: the cases of its switch.\<close>

fun operationsOf :: "FilterOperatorType \<Rightarrow> string list" where
  "operationsOf OpString =
     [''exists'', ''notExists'', ''empty'', ''notEmpty'', ''equals'', ''notEquals'', ''contains'', ''notContains'', ''startsWith'',
      ''notStartsWith'', ''endsWith'', ''notEndsWith'', ''regex'', ''notRegex'']"
| "operationsOf OpNumber =
     [''exists'', ''notExists'', ''empty'', ''notEmpty'', ''equals'', ''notEquals'', ''gt'', ''lt'', ''gte'', ''lte'']"
| "operationsOf OpDateTime =
     [''exists'', ''notExists'', ''empty'', ''notEmpty'', ''equals'', ''notEquals'', ''after'', ''before'', ''afterOrEquals'',
      ''beforeOrEquals'']"
| "operationsOf OpBoolean =
     [''exists'', ''notExists'', ''empty'', ''notEmpty'', ''true'', ''false'', ''equals'', ''notEquals'']"
| "operationsOf OpArray =
     [''exists'', ''notExists'', ''contains'', ''notContains'', ''lengthEquals'', ''lengthNotEquals'', ''lengthGt'', ''lengthLt'',
      ''lengthGte'', ''lengthLte'', ''empty'', ''notEmpty'']"
| "operationsOf OpObject = [''exists'', ''notExists'', ''empty'', ''notEmpty'']"
| "operationsOf OpAny = [''exists'', ''notExists'']"

text \<open>What may come out of a case: no error, or that of a malformed pattern.\<close>

definition goesWell :: "(FilterFailure + bool) option \<Rightarrow> bool" where
  "goesWell a = (\<exists>x. a = Some x \<and> (\<forall>e. x = Inl e \<longrightarrow> e = FilterSyntaxError))"

lemma goesWell_Some [simp]: "goesWell (Some (Inr b))"
  by (simp add: goesWell_def)

lemma goesWell_fallThrough: "goesWell a \<Longrightarrow> goesWell (fallThrough a b)"
  by (auto simp: goesWell_def fallThrough_def)

lemma pattern_goesWell:
  assumes "fitsType OpString r"
  shows "goesWell (Some (rbind (patternOf (orElse r (FStr []))) (\<lambda>p. testPattern lib p t)))"
    and "goesWell (Some (map_sum id Not (rbind (patternOf (orElse r (FStr []))) (\<lambda>p. testPattern lib p t))))"
proof -
  obtain s where s: "orElse r (FStr []) = FStr s"
    using assms by (auto simp: fitsType_def orElse_def)
  show "goesWell (Some (rbind (patternOf (orElse r (FStr []))) (\<lambda>p. testPattern lib p t)))"
    and "goesWell (Some (map_sum id Not (rbind (patternOf (orElse r (FStr []))) (\<lambda>p. testPattern lib p t))))"
    by (auto simp: s goesWell_def patternOf_def testPattern_def Let_def case_prod_beta split: option.splits)
qed

lemma stringOperation_goesWell:
  "fitsType OpString r \<Longrightarrow>
    list_all (\<lambda>p. goesWell (stringOperation lib p t (orElse r (FStr [])))) (drop 2 (operationsOf OpString))"
  by (simp add: stringOperation_def Let_def pattern_goesWell)

lemma numberOperation_goesWell:
  "list_all (\<lambda>p. goesWell (map_option Inr (numberOperation lib p l r))) (drop 2 (operationsOf OpNumber))"
  by (simp add: numberOperation_def)

lemma booleanOperation_goesWell:
  "list_all (\<lambda>p. goesWell (map_option Inr (booleanOperation p l r))) (drop 2 (operationsOf OpBoolean))"
  by (simp add: booleanOperation_def)

lemma objectOperation_goesWell: "list_all (\<lambda>p. goesWell (map_option Inr (objectOperation p l))) (drop 2 (operationsOf OpObject))"
  by (simp add: objectOperation_def)

lemma dateOperation_goesWell:
  assumes "fitsType OpDateTime l" "fitsType OpDateTime r"
  shows "list_all (\<lambda>p. goesWell (dateOperation lib p l r)) (drop 2 (operationsOf OpDateTime))"
proof (cases "js_Boolean l \<and> js_Boolean r")
  case True
  then obtain d d' where "l = FDateTime d" "r = FDateTime d'"
    using assms by (auto simp: fitsType_def)
  then show ?thesis by (simp add: dateOperation_def dateComparison_def toMillis_def)
next
  case False
  then show ?thesis by (auto simp: dateOperation_def)
qed

lemma arrayOperation_goesWell:
  assumes "fitsType OpArray l"
  shows "list_all (\<lambda>p. goesWell (arrayOperation lib ic p l r)) (drop 2 (operationsOf OpArray))"
proof -
  obtain vs where "orElse l (FArr []) = FArr vs"
    using assms by (auto simp: fitsType_def orElse_def)
  then show ?thesis by (simp add: arrayOperation_def containsOperation_def Let_def)
qed

lemma fitsType_lower: "fitsType OpString r \<Longrightarrow> fitsType OpString (case r of FStr s \<Rightarrow> FStr (js_toLowerCase s) | _ \<Rightarrow> r)"
  by (auto simp: fitsType_def)

lemmas operations_goWell = numberOperation_goesWell booleanOperation_goesWell objectOperation_goesWell dateOperation_goesWell
  arrayOperation_goesWell stringOperation_goesWell

lemma compareValues_goesWell:
  assumes p: "op_operation operator \<in> set (drop 2 (operationsOf (op_type operator)))"
    and l: "fitsType (op_type operator) l"
    and r: "op_type operator \<in> {OpString, OpDateTime} \<Longrightarrow> fitsType (op_type operator) r"
  shows "goesWell (compareValues lib ic operator l r)"
proof (cases "op_type operator")
  case OpString
  then show ?thesis
    using p r stringOperation_goesWell[OF fitsType_lower] stringOperation_goesWell
    by (simp add: compareValues_def Let_def list_all_iff del: operationsOf.simps)
next
  case OpNumber
  then show ?thesis
    using p numberOperation_goesWell
    by (simp add: compareValues_def Let_def list_all_iff goesWell_fallThrough del: operationsOf.simps)
next
  case OpBoolean
  then show ?thesis
    using p booleanOperation_goesWell
    by (simp add: compareValues_def Let_def list_all_iff goesWell_fallThrough del: operationsOf.simps)
next
  case OpArray
  then show ?thesis
    using p l arrayOperation_goesWell
    by (simp add: compareValues_def Let_def list_all_iff goesWell_fallThrough del: operationsOf.simps)
next
  case OpObject
  then show ?thesis
    using p objectOperation_goesWell by (simp add: compareValues_def Let_def list_all_iff del: operationsOf.simps)
next
  case OpDateTime
  then show ?thesis
    using p l r dateOperation_goesWell
    by (simp add: compareValues_def Let_def list_all_iff goesWell_fallThrough del: operationsOf.simps)
qed (use p in simp)

lemma operationsOf_exists:
  "p \<in> set (operationsOf ty) \<Longrightarrow> p = ''exists'' \<or> p = ''notExists'' \<or> p \<in> set (drop 2 (operationsOf ty))"
  by (cases ty) auto

lemma parse_error: "parseFilterConditionValues lib c opts md = Inl e \<Longrightarrow> \<exists>m. e = FilterError m"
  by (auto simp: parseFilterConditionValues_def Let_def split: if_splits)

text \<open>C21: A condition with an operation that its type has never calls a method that a value does not have: whatever the values are,
  it gives an answer, or a filter error that says which value is not of the type, or the error of a malformed pattern.\<close>

theorem filter_no_type_error:
  assumes p: "op_operation (fc_operator c) \<in> set (operationsOf (op_type (fc_operator c)))"
    and right: "op_type (fc_operator c) \<in> {OpString, OpDateTime} \<Longrightarrow> op_rightType (fc_operator c) = None"
  shows "executeFilterCondition lib c opts md \<noteq> Inl FilterTypeError"
proof (cases "parseFilterConditionValues lib c opts md")
  case (Inl e)
  then show ?thesis using parse_error[OF Inl] by (auto simp: executeFilterCondition_decide)
next
  case (Inr lr)
  obtain l r where lr: "lr = (l, r)" by (cases lr)
  note parsed = parsed_values_have_type[OF Inr[unfolded lr]]
  have "decide lib (\<not> fo_caseSensitive opts) (fc_operator c) l r \<noteq> Inl FilterTypeError"
  proof (cases "op_operation (fc_operator c) \<in> {''exists'', ''notExists''}")
    case True
    then show ?thesis by (auto simp: decide_def)
  next
    case False
    then have "goesWell (compareValues lib (\<not> fo_caseSensitive opts) (fc_operator c) l r)"
      using operationsOf_exists[OF p] parsed right by (intro compareValues_goesWell) (auto simp: rightTypeOf_def)
    with False show ?thesis by (auto simp: decide_def goesWell_def)
  qed
  with Inr lr show ?thesis by (simp add: executeFilterCondition_decide)
qed

section \<open>Examples\<close>

text \<open>A library that reads no text: enough for values that need no conversion.\<close>

definition plainLib :: ValueLib where
  "plainLib = \<lparr>vl_number = (\<lambda>_. NaN), vl_json = (\<lambda>_. None), vl_jsObject = (\<lambda>_. None), vl_stringify = (\<lambda>_. []),
     vl_dateParsers = [], vl_dateText = (\<lambda>_. []), vl_regex = (\<lambda>_ _ _. None)\<rparr>"

definition condition :: "FilterOperatorType \<Rightarrow> string \<Rightarrow> fval \<Rightarrow> fval \<Rightarrow> FilterConditionValue" where
  "condition ty p l r = \<lparr>fc_leftValue = l,
     fc_operator = \<lparr>op_type = ty, op_operation = p, op_rightType = None, op_singleValue = False\<rparr>, fc_rightValue = r\<rparr>"

definition filterOptions :: "bool \<Rightarrow> nat \<Rightarrow> FilterOptionsValue" where
  "filterOptions caseSensitive version = \<lparr>fo_caseSensitive = caseSensitive, fo_strict = True, fo_version = version\<rparr>"

lemmas example_defs = condition_def filterOptions_def plainLib_def conditionMetadata_def executeFilterCondition_def
  parseFilterConditionValues_def parseSingleFilterValue_def validateFieldType_def rightTypeOf_def tryToParseNumber_def Let_def
  compareValues_def fallThrough_def

lemma filter_negation_witness:
  "executeFilterCondition plainLib (condition OpNumber ''notEquals'' (FNum (Num 1)) (FNum (Num 2))) (filterOptions True 3)
     (conditionMetadata 0 0) = Inr True \<and>
   executeFilterCondition plainLib (withOperation ''notEquals'' (condition OpDateTime ''equals'' FNull FNull)) (filterOptions True 3)
     (conditionMetadata 0 0) = Inr False"
proof -
  let ?c = "condition OpNumber ''equals'' (FNum (Num 1)) (FNum (Num 2))"
  have same: "withOperation ''notEquals'' ?c = condition OpNumber ''notEquals'' (FNum (Num 1)) (FNum (Num 2))"
    "withOperation ''equals'' ?c = ?c"
    by (simp_all add: withOperation_def condition_def)
  have "executeFilterCondition plainLib ?c (filterOptions True 3) (conditionMetadata 0 0) = Inr False"
    by (simp add: example_defs numberOperation_def)
  moreover have "parseFilterConditionValues plainLib (condition OpDateTime ''equals'' FNull FNull) (filterOptions True 3)
      (conditionMetadata 0 0) = Inr (FNull, FNull)"
    by (simp add: example_defs)
  ultimately show ?thesis
    using filter_negation[of "''equals''" "''notEquals''" ?c plainLib "filterOptions True 3" "conditionMetadata 0 0"]
      filter_negation[of p q "condition OpDateTime ''equals'' FNull FNull" plainLib "filterOptions True 3" "conditionMetadata 0 0" for p q] same
    by (simp add: condition_def)
qed

text \<open>The first condition decides, whatever the second does: the last one would fail.\<close>

lemma executeFilter_exact_witness:
  "executeFilter plainLib \<lparr>fv_options = filterOptions True 3,
      fv_conditions = [condition OpNumber ''exists'' (FNum (Num 1)) FUndef, condition OpNumber ''after'' (FNum (Num 1)) (FNum (Num 2))],
      fv_combinator = CombineOr\<rparr> 0 = Inr True"
proof -
  let ?v = "\<lparr>fv_options = filterOptions True 3,
      fv_conditions = [condition OpNumber ''exists'' (FNum (Num 1)) FUndef, condition OpNumber ''after'' (FNum (Num 1)) (FNum (Num 2))],
      fv_combinator = CombineOr\<rparr>"
  have "executeFilterCondition plainLib (condition OpNumber ''exists'' (FNum (Num 1)) FUndef) (filterOptions True 3)
      (conditionMetadata 0 0) = Inr True"
    by (simp add: example_defs existsValue_def)
  then have "conditionResult plainLib ?v 0 0 = Inr True" by (simp add: conditionResult_def)
  then show ?thesis using executeFilter_exact [where v = ?v and lib = plainLib and i = 0] by auto
qed

lemma filter_no_type_error_witness:
  "executeFilterCondition plainLib (condition OpDateTime ''before'' (FDateTime (Some 1)) (FStr ''soon'')) (filterOptions True 3)
     (conditionMetadata 0 0) \<noteq> Inl FilterTypeError"
  by (rule filter_no_type_error) (simp_all add: condition_def)

section \<open>What the operations do not do\<close>

text \<open>An operation of another type is run on values of this one: dates are compared that are numbers.\<close>

lemma foreign_operation_fails:
  "executeFilterCondition plainLib (condition OpNumber ''after'' (FNum (Num 1)) (FNum (Num 2))) (filterOptions True 3)
     (conditionMetadata 0 0) = Inl FilterTypeError"
  by (simp add: example_defs numberOperation_def dateOperation_def dateComparison_def toMillis_def)

text \<open>Of a missing date it is true neither that it equals another, nor that it does not.\<close>

lemma missing_date_neither:
  "v = FNull \<or> v = FUndef \<Longrightarrow> decide lib ic (fc_operator (condition OpDateTime ''equals'' l r)) v w = Inr False \<and>
    decide lib ic (fc_operator (condition OpDateTime ''notEquals'' l r)) v w = Inr False"
  by (auto simp: decide_def condition_def compareValues_def Let_def fallThrough_def dateOperation_def)

text \<open>An empty text is no number in version 3, yet it is not below zero, and not above.\<close>

lemma empty_text_between:
  "executeFilterCondition plainLib (condition OpNumber p (FStr []) (FNum (Num 0))) (filterOptions True 3) (conditionMetadata 0 0) =
    Inr (p \<in> {''gte'', ''lte''})" if "p \<in> {''equals'', ''gt'', ''lt'', ''gte'', ''lte''}"
  using that by (elim insertE emptyE)
    (simp_all add: example_defs numberOperation_def numberLess_def numberLessEq_def js_trim_def)

text \<open>Without regard to case, the text is put into lower case, and the pattern is not.\<close>

lemma pattern_keeps_case:
  "compareValues lib True (fc_operator (condition OpString ''regex'' l r)) (FStr t) (FStr p) = Some (testPattern lib p (js_toLowerCase t))"
  by (simp add: compareValues_def condition_def Let_def stringOperation_def orElse_def patternOf_def)

text \<open>The validation of a filter finds no issue, whatever the conditions are.\<close>

lemma validateFilterParameter_finds_nothing: "validateFilterParameter lib nm v = []"
proof -
  have "fold (\<lambda>(index, condition) issues. issues) xs [] = []" for xs :: "(nat \<times> FilterConditionValue) list"
    by (induction xs) auto
  then show ?thesis by (simp add: validateFilterParameter_def Let_def)
qed

end
