(* ===== verification/Spec2Isabelle.thy ===== *)
theory Spec2Isabelle
  imports PartialProps SubgraphProps CycleProps ExecutionStack WorkflowSearch WorkflowConversion EngineRuns CapacityProps BrokerRuns SelectionProps OptimizeProps ParameterRoundtrip DisplayProps AugmentProps ActivationQueueProps FromAiProps FilterProps
begin

text \<open>
  A verification development of the workflow execution core of n8n: the part of the monorepo under
  \<^verbatim>\<open>packages/workflow\<close>, \<^verbatim>\<open>packages/core\<close> and \<^verbatim>\<open>packages/cli\<close> that decides which nodes of a workflow run, in which
  order and on which data, how many executions run at once, how code is handed to task runners, and what is kept of
  the versions of a workflow. Every definition is a translation of the TypeScript function of the same name; where a
  name is used twice in the source or is a constant of HOL it has a prefix or suffix, and a field of a record starts
  with the initials of its type. Proofs speak about these definitions only.

\<^bold>\<open>The program and its parts.\<close>

  A workflow is a list of nodes and a table of connections. The class \<open>Workflow\<close> keeps both and
  answers questions about ancestors and descendants. The engine (\<open>WorkflowExecute\<close>) runs a workflow from a stack
  of nodes with input data: it takes the first entry, calls the node (with retries, with the tools it asks for, with
  items paired to their origin), records the run in the run data, and puts the nodes that receive data on the stack,
  or among those that wait for the data of further inputs. A partial execution first plans its stack: the workflow
  becomes a \<open>DirectedGraph\<close>, which is reduced to what leads to the chosen node, the nodes to start from are those
  whose run data are missing or stale, and stack and waiting entries are rebuilt from the run data of the
  execution before. Around the engine, \<open>ActiveExecutions\<close> registers every execution of the process after
  \<open>ConcurrencyControlService\<close> has let it through its queue. A node that runs code asks \<open>TaskBroker\<close> for a task, which
  matches the request with the offer of a runner. Before a node runs, its parameters are resolved against their
  descriptions, and its items are handed over behind proxies that keep the items of other nodes from being changed.
  The history of a workflow is compacted by comparing versions. A workflow
  that is active has its triggers started and its pollers scheduled, and an activation that fails is retried.

\<^bold>\<open>Theories and sources.\<close>

  Shared:
  \<^item> Prelude: thrown errors as values of type \<open>js_error + 'a\<close> (sequenced by \<open>rbind\<close>), JavaScript
    objects as association lists in insertion order, sets as duplicate-free lists; the locale \<open>js_map\<close> states
    what a map promises, its interpretation \<open>amap\<close> is used for run data, waiting entries and adjacency lists.
  \<^item> WorkflowTypes: \<^verbatim>\<open>interfaces.ts\<close>, the records \<open>INode\<close>, \<open>IConnection\<close>, \<open>ITaskData\<close>, \<open>IRunExecutionData\<close>
    and others. JsonValues: parameters as JSON values, \<open>typeof\<close>, own properties, deep equality.

  Workflows:
  \<^item> WorkflowGraph: \<^verbatim>\<open>packages/workflow/src/common\<close> and the graph methods of \<^verbatim>\<open>workflow.ts\<close>. WorkflowProps and
    WorkflowSearch: what the walks return. The theorems on \<open>getNodeConnectionIndexes\<close>, renaming and
    the highest nodes are there too.
  \<^item> DirectedGraph: \<^verbatim>\<open>directed-graph.ts\<close> and \<^verbatim>\<open>filter-disabled-nodes.ts\<close> of \<open>partial-execution-utils\<close>. GraphProps,
    GraphRemoval and GraphTheorems: its well-formedness (\<open>wf_graph\<close>) is kept by every operation, traversals
    return the reachable nodes (proved once for both directions in the locale \<open>marking_search\<close>), removal
    of a node reconnects its neighbours. WorkflowConversion: \<open>fromWorkflow\<close> and \<open>toWorkflow\<close>, and their round trip.
  \<^item> GraphUtils: \<^verbatim>\<open>packages/workflow/src/graph/graph-utils.ts\<close>. SelectionProps: when a selection can be extracted.

  Partial executions:
  \<^item> RunData: \<^verbatim>\<open>get-incoming-data.ts\<close>, \<^verbatim>\<open>run-data-utils.ts\<close>. PartialExecution: \<^verbatim>\<open>find-subgraph.ts\<close>, \<^verbatim>\<open>find-start-nodes.ts\<close>,
    \<^verbatim>\<open>handle-cycles.ts\<close>, \<^verbatim>\<open>clean-run-data.ts\<close>, \<^verbatim>\<open>find-trigger-for-partial-execution.ts\<close>, \<^verbatim>\<open>rewire-graph.ts\<close>.
    SourceGroups: \<^verbatim>\<open>get-source-data-groups.ts\<close>. ExecutionStack: \<^verbatim>\<open>recreate-node-execution-stack.ts\<close>.
  \<^item> PartialProps, SubgraphProps, CycleProps: what is computed, stated over paths of the graph.

  The engine, \<^verbatim>\<open>packages/core/src/execution-engine/workflow-execute.ts\<close>:
  \<^item> EngineState: the state and \<open>addNodeToBeExecuted\<close>; EngineQueue: a node with several inputs is a join.
  \<^item> EngineNode: one call of a node, pairing of items, the error output. EngineRequests:
    \<^verbatim>\<open>requests-response.ts\<close>, the tools an agent asks for. EngineTries: the retry loop; EngineRetry: its bounds.
  \<^item> EngineLoop: the main loop, as the function \<open>executionLoop\<close> with fuel and as the step relation
    \<open>engine_step\<close> with its ends \<open>engine_stops\<close>. EngineStart: \<open>run\<close>, \<open>runPartialWorkflow2\<close>, waiting and end of an execution.
  \<^item> EngineInvariant: what every iteration keeps. The locale \<open>run_invariant\<close> states what has to be shown of an invariant of the
    engine (for the stack, the waiting entries, a request for tools, a recorded run) and gives by \<open>sublocale\<close> the locales
    \<open>queue_relation\<close> and \<open>run_relation\<close>, in which each function from \<open>enqueue\<close> to \<open>runTop\<close> has its lemma. It is interpreted twice:
    the indexes of runs stay below the next one, and the runs an execution was planned with stay a prefix of those it
    has; both become instances of \<open>step_invariant\<close> on the turns of the loop.
  \<^item> EngineProps and EngineRuns: the order of the stack, the loop with fuel and the step relation, when an execution is
    finished, the error output, whole runs.

  Executions of a process, \<^verbatim>\<open>packages/cli/src\<close>:
  \<^item> Concurrency: \<^verbatim>\<open>concurrency/concurrency-queue.ts\<close>, \<^verbatim>\<open>concurrency/concurrency-control.service.ts\<close> and the capacity
    reservation. ActiveExecutions: \<^verbatim>\<open>active-executions.ts\<close> and the stop of \<^verbatim>\<open>execution.service.ts\<close>.
  \<^item> ConcurrencyProps: the queue is a counting semaphore; its contract is the locale \<open>capacity_queue\<close>, extended
    by \<open>cancellable_queue\<close> and interpreted as \<open>cq\<close>; CapacityProps: the account of the capacity in
    every state the events of a process lead to.
  \<^item> TaskBroker: \<^verbatim>\<open>task-runners/task-broker/task-broker.service.ts\<close> with every message as an operation, and
    \<open>broker_reachable\<close>, the states they lead to. BrokerProps and BrokerRuns: matching, and the invariant of requests.

  Versions of a workflow:
  \<^item> ConnectionsDiff: \<^verbatim>\<open>connections-diff.ts\<close>, with the exact lists it gives. WorkflowDiff: \<^verbatim>\<open>workflow-diff.ts\<close> and the compaction of the history
    (\<open>pruneHistory\<close> of \<^verbatim>\<open>workflow-history.repository.ts\<close> with the rules of \<^verbatim>\<open>workflow-history-compaction.service.ts\<close>).
    DiffProps, CompactionProps, OptimizeProps: the order the comparison gives, and what is deleted and kept.

  Parameters and items of a node:
  \<^item> NodeDisplay, ResolveOrder, NodeParameters: \<^verbatim>\<open>node-helpers.ts\<close>, that is which parameters are displayed, the order
    they are resolved in, and their values with and without defaults. DisplayProps, ParameterProps, ParameterRoundtrip.
  \<^item> FromAi: \<^verbatim>\<open>from-ai-parse-utils.ts\<close>, the parser of the calls of \<open>$fromAI\<close> in parameters. FromAiProps: a call that is
    written down is read again, and the texts that are not.
  \<^item> FieldValidation: \<^verbatim>\<open>type-validation.ts\<close>, a value checked against a type and converted to it. FilterParameter:
    \<^verbatim>\<open>node-parameters/filter-parameter.ts\<close>, the conditions of the nodes If, Switch and Filter. FilterProps: negations, which
    condition decides a filter, and that the operations of a type find values of this type.
  \<^item> AugmentObject: \<^verbatim>\<open>augment-object.ts\<close>, the proxies over a heap of objects. AugmentProps: isolation, and the locale
    \<open>js_object\<close>, interpreted on augmented and on plain objects, by which a proxy refines a copy.

  Activation of workflows:
  \<^item> ScheduledTasks: \<^verbatim>\<open>scheduled-task-manager.ts\<close> and \<^verbatim>\<open>cron.ts\<close>. ActiveWorkflows: \<^verbatim>\<open>active-workflows.ts\<close> and
    \<^verbatim>\<open>triggers-and-pollers.ts\<close>, with a history of the calls of nodes on which the nodes may depend. ActivationQueue:
    \<^verbatim>\<open>packages/cli/src/active-workflow-manager.ts\<close>, the activations of an instance and their retries.
  \<^item> ScheduledProps: the jobs that run are those registered. ActivationProps: activating and deactivating leaves nothing behind,
    a failed activation does. ActivationQueueProps: at most one pending retry for a workflow, and its delay.

\<^bold>\<open>Loops and fuel.\<close>

  \<^item> The main loop need not end (\<open>endless_loop_check\<close> proves that two nodes can take turns forever), so \<open>executionLoop\<close> has fuel
    and gives \<open>None\<close> when it runs out. More fuel never changes a result
    (\<open>executionLoop_more_fuel\<close>), and a result exists for some fuel exactly
    when \<open>engine_step\<close> leads to an end (\<open>executionLoop_iff_steps\<close>); the sample runs end within 20 iterations.
  \<^item> Searches over graphs (\<open>getChildren\<close>, \<open>findStartNodes\<close>, \<open>searchNodesBFS\<close>, \<open>hasPath\<close>, the strongly connected components and others)
    need no fuel: they mark what they visit, and their recursion ends by a measure on what is not yet visited.
  \<^item> \<open>getParameterResolveOrder\<close> bounds its iterations itself; the model of the loop is total. \<open>getNodeParameters\<close> recurses into the
    descriptions of parameters, to a depth the recursion is given; \<open>getNodeParameters_level\<close> shows a greater
    depth gives the same.
  \<^item> Retries are bounded by the source (5 tries).

\<^bold>\<open>Parameters of the model.\<close>

  Code outside the repository, or chosen at run time, is an argument: the implementation of a node (its
  functions to trigger and to poll too) and the tables of node types, the message callbacks of requesters and runners (which return at once), \<open>localeCompare\<close>, ids from
  nanoid, the clock, \<open>get\<close>, \<open>pick\<close> and \<open>isEqual\<close> of lodash, tests of regular expressions, the text of a date, reading and
  writing numbers, dates and JSON (the record \<open>ValueLib\<close>), the
  conditions of dynamic display options, the errors of the library \<^verbatim>\<open>cron\<close>, the
  registration of webhooks, and the results of database queries. What a theorem needs of them is a
  hypothesis, with a witness on a concrete function.

\<^bold>\<open>Limits of the model.\<close>

  \<^item> Keys of objects are kept in insertion order; keys that are numbers or names of \<open>Object.prototype\<close> are excluded, for
    which JavaScript has another order or inherited values. Numbers are integers.
  \<^item> A hole in an array and an element that is undefined are the same, except in AugmentObject.
  \<^item> Outside AugmentObject items are values: that two nodes share an item, and one changes it in place, is not seen.
  \<^item> When an operation throws, the state is the one before it: changes made up to the exception are not modelled, except
    in ActiveWorkflows and ActivationQueue, in the requests of an agent and in the error output, where they matter.
  \<^item> A cancellation or timeout of an execution is looked at before an iteration; a cancellation by the user also
    when the loop has ended, since it sets the status at once, also while the last node runs.
  \<^item> In AugmentObject the steps of a program are reads, writes and deletions, lengths, descriptors and \<open>Object.defineProperty\<close>;
    the last two get past the proxies. \<open>Object.freeze\<close> and \<open>Object.setPrototypeOf\<close>, which have no traps either, and the state of
    regular expressions and of buffers are left out.
  \<^item> Asynchronous code is cut at its awaits into operations (in Concurrency, ActiveExecutions and TaskBroker), whose
    interleavings are the lists of events the invariants range over; in ActiveWorkflows and ActivationQueue an operation runs
    to its end before the next one starts. Only the retry of an activation is cut, at the activation it waits for
    (\<open>retryContinue\<close>): \<open>retry_in_flight_two_timers\<close> shows what a trigger that fails meanwhile leads to. The engine runs one node at a time, as the
    source does.

\<^bold>\<open>Not modelled.\<close>

  Expressions (JavaScript evaluated by a library in a sandbox), the implementations of nodes and the contexts
  they get (HTTP, credentials, files), execution hooks (observers that store and send results), binary data, the
  database, the message queue of the queue mode, webhooks and the REST interface, the task runner process, declarative
  routing, checksums and the rewriting of expressions as text, the field types time, binary, url and form-fields, and the
  front ends. They are input and output, or calls of libraries. Of the modelled classes, logging, telemetry, timers and
  event emitters are left out, and the accessors only tests use.
\<close>

end
